(* ===== verification/Prelude.thy ===== *)
theory Prelude
  imports Main "HOL-Library.Word"
begin

text \<open>
  The vocabulary every other theory of the development uses.

  \<^item> Rust's fixed-width integers are words; \<open>usize\<close> counts are \<open>nat\<close>.
  \<^item> \<open>u32::to_be_bytes\<close> and its relatives are \<open>be_bytes\<close> / \<open>le_bytes\<close>, and
    \<open>from_be_bytes\<close> / \<open>from_le_bytes\<close> are \<open>of_be\<close> / \<open>of_le\<close>.
  \<^item> A Rust \<open>String\<close> is its UTF-8 byte list; \<open>str::from_utf8\<close> accepts exactly the
    lists with \<open>utf8_valid\<close>.  An \<open>f64\<close> is its IEEE bit pattern (\<open>to_bits\<close>).
  \<^item> \<open>crate::error::Error\<close> is \<open>rtmp_error\<close>; the diagnostic texts are not modelled.
    Two constructors are not errors of the program: \<open>Panic\<close> marks a Rust panic (an
    \<open>unreachable!\<close>, an underflowing subtraction, an \<open>unwrap\<close> of nothing) and
    \<open>OutOfFuel\<close> the end of a loop bound.  Both are proved never to occur.
  \<^item> A fallible computation on a state is \<open>'s \<Rightarrow> (rtmp_error + 'a) \<times> 's\<close>: the state
    survives an error, as the fields behind \<open>&mut self\<close> do.  \<open>st_bind\<close> is the
    \<open>?\<close> operator.
  \<^item> A slice with a position (\<open>buf\<close>, \<open>*pos\<close>) is the list of the bytes from
    \<open>*pos\<close> on, paired with the user state of the reader (reference tables, chunk tables).
\<close>

unbundle bit_operations_syntax

named_theorems rust_int \<open>facts about fixed-width integers and their byte images\<close>
named_theorems st_run \<open>how the primitive computations run\<close>
named_theorems reads_intro \<open>composition of readers along the bytes they consume\<close>
named_theorems shrink_intro \<open>how many bytes a reader consumes at least\<close>
named_theorems safe_intro \<open>computations that neither panic nor run out of a loop bound\<close>

section \<open>Integers and bytes\<close>

type_synonym u8 = "8 word"
type_synonym u16 = "16 word"
type_synonym u32 = "32 word"
type_synonym u64 = "64 word"
type_synonym rstring = "u8 list"
type_synonym f64 = u64

primrec le_bytes :: "nat \<Rightarrow> 'a::len word \<Rightarrow> u8 list" where
  "le_bytes 0 v = []"
| "le_bytes (Suc n) v = ucast v # le_bytes n (drop_bit 8 v)"

primrec of_le :: "u8 list \<Rightarrow> 'a::len word" where
  "of_le [] = 0"
| "of_le (b # bs) = ucast b OR push_bit 8 (of_le bs)"

definition be_bytes :: "nat \<Rightarrow> 'a::len word \<Rightarrow> u8 list" where
  "be_bytes n v = rev (le_bytes n v)"

definition of_be :: "u8 list \<Rightarrow> 'a::len word" where
  "of_be bs = of_le (rev bs)"

text \<open>The widths the crate uses.\<close>

abbreviation u16_be :: "u16 \<Rightarrow> u8 list" where "u16_be \<equiv> be_bytes 2"
abbreviation u32_be :: "u32 \<Rightarrow> u8 list" where "u32_be \<equiv> be_bytes 4"
abbreviation u64_be :: "u64 \<Rightarrow> u8 list" where "u64_be \<equiv> be_bytes 8"
abbreviation u32_le :: "u32 \<Rightarrow> u8 list" where "u32_le \<equiv> le_bytes 4"

text \<open>
  The crate's open-coded \<open>UI24\<close> fields: \<open>[(v >> 16) as u8, (v >> 8) as u8, v as u8]\<close> and
  \<open>(b0 as u32) << 16 | (b1 as u32) << 8 | b2 as u32\<close>.
\<close>

definition u24_be :: "u32 \<Rightarrow> u8 list" where
  "u24_be v = [ucast (drop_bit 16 v), ucast (drop_bit 8 v), ucast v]"

definition of_u24 :: "u8 \<Rightarrow> u8 \<Rightarrow> u8 \<Rightarrow> u32" where
  "of_u24 a b c = push_bit 16 (ucast a) OR push_bit 8 (ucast b) OR ucast c"

lemma bit_of_le_Cons:
  "bit (of_le (b # bs) :: 'a::len word) n \<longleftrightarrow>
     n < LENGTH('a) \<and> (if n < 8 then bit b n else bit (of_le bs :: 'a word) (n - 8))"
  using bit_imp_le_length[of b n]
  by (auto simp: bit_or_iff bit_push_bit_iff bit_ucast_iff not_less)

lemma bit_of_le_bound: "bit (of_le bs :: 'a::len word) k \<Longrightarrow> k < 8 * length bs"
proof (induction bs arbitrary: k)
  case (Cons b bs)
  show ?case
  proof (cases "k < 8")
    case False
    with Cons.prems have "bit (of_le bs :: 'a word) (k - 8)"
      by (simp add: bit_of_le_Cons del: of_le.simps)
    then have "k - 8 < 8 * length bs" by (rule Cons.IH)
    with False show ?thesis by simp
  qed simp
qed simp

lemma length_le_bytes [simp]: "length (le_bytes n v) = n"
  by (induction n arbitrary: v) auto

lemma length_be_bytes [simp]: "length (be_bytes n v) = n"
  by (simp add: be_bytes_def)

lemma of_le_le_bytes: "of_le (le_bytes n v) = take_bit (8 * n) v"
proof (induction n arbitrary: v)
  case (Suc n)
  show ?case
  proof (rule bit_word_eqI)
    fix k assume "k < LENGTH('a)"
    then show "bit (of_le (le_bytes (Suc n) v) :: 'a word) k \<longleftrightarrow> bit (take_bit (8 * Suc n) v) k"
      unfolding le_bytes.simps bit_of_le_Cons Suc.IH
      by (auto simp: bit_take_bit_iff bit_drop_bit_eq bit_ucast_iff)
  qed
qed simp

lemma le_bytes_of_le:
  "8 * length bs \<le> LENGTH('a) \<Longrightarrow> le_bytes (length bs) (of_le bs :: 'a::len word) = bs"
proof (induction bs)
  case (Cons b bs)
  have 1: "ucast (of_le (b # bs) :: 'a word) = b"
    by (rule bit_word_eqI)
      (use Cons.prems in \<open>simp add: bit_ucast_iff bit_of_le_Cons del: of_le.simps\<close>)
  have 2: "drop_bit 8 (of_le (b # bs) :: 'a word) = take_bit (LENGTH('a) - 8) (of_le bs)"
    by (rule bit_word_eqI)
      (auto simp: bit_drop_bit_eq bit_of_le_Cons bit_take_bit_iff simp del: of_le.simps)
  have "take_bit (LENGTH('a) - 8) (of_le bs) = (of_le bs :: 'a word)"
    by (rule bit_word_eqI)
      (use bit_of_le_bound[of bs] Cons.prems in \<open>force simp: bit_take_bit_iff\<close>)
  then show ?case using Cons 1 2 by simp
qed simp

lemma of_be_be_bytes: "of_be (be_bytes n v) = take_bit (8 * n) v"
  by (simp add: of_be_def be_bytes_def of_le_le_bytes)

lemma be_bytes_of_be:
  "8 * length bs \<le> LENGTH('a) \<Longrightarrow> be_bytes (length bs) (of_be bs :: 'a::len word) = bs"
  using le_bytes_of_le[of "rev bs", where 'a='a] by (simp add: of_be_def be_bytes_def)

lemma take_bit_all [simp]:
  "take_bit 16 (v :: u16) = v" "take_bit 32 (w :: u32) = w" "take_bit 64 (x :: u64) = x"
  "take_bit 8 (y :: u8) = y"
  by (simp_all add: take_bit_word_eq_self)

lemma of_be_u16 [simp, rust_int]: "of_be (u16_be v) = v"
  and of_be_u32 [simp, rust_int]: "of_be (u32_be w) = w"
  and of_be_u64 [simp, rust_int]: "of_be (u64_be x) = x"
  and of_le_u32 [simp, rust_int]: "of_le (u32_le w) = w"
  by (simp_all add: of_be_be_bytes of_le_le_bytes)

lemma be_bytes_unfold [rust_int]:
  "u16_be v = [ucast (drop_bit 8 v), ucast v]"
  "u32_be w = [ucast (drop_bit 24 w), ucast (drop_bit 16 w), ucast (drop_bit 8 w), ucast w]"
  "u32_le w = [ucast w, ucast (drop_bit 8 w), ucast (drop_bit 16 w), ucast (drop_bit 24 w)]"
  by (simp_all add: be_bytes_def numeral_eq_Suc)

lemma length_u24_be [simp]: "length (u24_be v) = 3"
  by (simp add: u24_be_def)

lemma of_u24_eq: "of_u24 a b c = of_be [a, b, c]"
proof (rule bit_word_eqI)
  fix n assume "n < LENGTH(32)"
  then show "bit (of_u24 a b c) n \<longleftrightarrow> bit (of_be [a, b, c] :: u32) n"
    using bit_imp_le_length[of a "n - 16"] bit_imp_le_length[of b "n - 8"]
      bit_imp_le_length[of c n]
    by (auto simp: of_u24_def of_be_def bit_or_iff bit_push_bit_iff bit_ucast_iff)
qed

lemma u24_be_eq: "u24_be v = be_bytes 3 v"
  by (simp add: u24_be_def be_bytes_def numeral_eq_Suc)

lemma of_u24_u24_be [simp, rust_int]:
  "of_u24 (ucast (drop_bit 16 v)) (ucast (drop_bit 8 v)) (ucast v) = take_bit 24 v"
  using of_be_be_bytes[of 3 v] by (simp add: of_u24_eq flip: u24_be_eq) (simp add: u24_be_def)

lemma word_take_bit_id: "unat v < 2 ^ k \<Longrightarrow> take_bit k v = (v :: 'a::len word)"
  by (simp add: word_unat_eq_iff unsigned_take_bit_eq take_bit_nat_eq_self)

lemma unat_u24_of_nat:
  "n < 2 ^ 24 \<Longrightarrow> take_bit 24 (word_of_nat n :: u32) = word_of_nat n \<and> unat (word_of_nat n :: u32) = n"
  by (auto simp: unat_of_nat take_bit_nat_eq_self intro!: word_take_bit_id)

text \<open>A timestamp as its lower 24 bits and \<open>TimestampExtended\<close>.\<close>

lemma split_timestamp:
  "push_bit 24 (ucast (ucast (drop_bit 24 ts) :: u8)) OR take_bit 24 ts = (ts :: u32)"
  by (rule bit_word_eqI) (auto simp: bit_or_iff bit_push_bit_iff bit_take_bit_iff bit_ucast_iff bit_drop_bit_eq)

lemma word_bit_bound: "unat v < 2 ^ k \<Longrightarrow> bit v n \<Longrightarrow> n < k" for v :: "'a::len word"
  by (metis word_take_bit_id bit_take_bit_iff)

lemma take_bit_24_id: "v < 2 ^ 24 \<Longrightarrow> take_bit 24 (v :: u32) = v"
proof -
  assume "v < 2 ^ 24"
  then have "unat v < 2 ^ 24" by (simp add: word_less_nat_alt)
  then show ?thesis
    by (simp add: word_unat_eq_iff unsigned_take_bit_eq take_bit_nat_eq_self)
qed

lemma unat_u32_of_nat: "n < 2 ^ 32 \<Longrightarrow> unat (word_of_nat n :: u32) = n"
  by (simp add: unat_of_nat take_bit_nat_eq_self)

lemma unat_u16_of_nat: "n < 2 ^ 16 \<Longrightarrow> unat (word_of_nat n :: u16) = n"
  by (simp add: unat_of_nat take_bit_nat_eq_self)

section \<open>Strings\<close>

text \<open>
  A string literal of the source.  The literals are ASCII, so the UTF-8 bytes are the codes.
\<close>

definition lit :: "string \<Rightarrow> rstring" where
  "lit s = map of_char s"

lemma of_char_u8_eq_iff [simp]: "(of_char c :: u8) = of_char d \<longleftrightarrow> c = d"
proof
  assume "(of_char c :: u8) = of_char d"
  then have "(word_of_nat (of_char c) :: u8) = word_of_nat (of_char d)"
    by (simp add: of_nat_of_char)
  then have "unat (word_of_nat (of_char c) :: u8) = unat (word_of_nat (of_char d) :: u8)"
    by simp
  moreover have "unat (word_of_nat (of_char k) :: u8) = of_char k" for k
    by (simp add: unat_of_nat take_bit_nat_eq_self)
  ultimately have "(of_char c :: nat) = of_char d" by simp
  then show "c = d" by simp
qed simp

lemma lit_eq_iff [simp]: "lit a = lit b \<longleftrightarrow> a = b"
  by (simp add: lit_def inj_map_eq_map inj_def)

lemma length_lit [simp]: "length (lit s) = length s"
  by (simp add: lit_def)

text \<open>
  The well-formed UTF-8 byte sequences, as \<open>std::str::from_utf8\<close> accepts them: no overlong
  forms, no surrogates, nothing above U+10FFFF.
\<close>

definition is_cont :: "u8 \<Rightarrow> bool" where
  "is_cont b \<longleftrightarrow> 0x80 \<le> b \<and> b \<le> 0xBF"

definition utf8_second3 :: "u8 \<Rightarrow> u8 \<Rightarrow> bool" where
  "utf8_second3 a b \<longleftrightarrow>
     (if a = 0xE0 then 0xA0 \<le> b \<and> b \<le> 0xBF
      else if a = 0xED then 0x80 \<le> b \<and> b \<le> 0x9F
      else is_cont b)"

definition utf8_second4 :: "u8 \<Rightarrow> u8 \<Rightarrow> bool" where
  "utf8_second4 a b \<longleftrightarrow>
     (if a = 0xF0 then 0x90 \<le> b \<and> b \<le> 0xBF
      else if a = 0xF4 then 0x80 \<le> b \<and> b \<le> 0x8F
      else is_cont b)"

fun utf8_valid :: "u8 list \<Rightarrow> bool" where
  "utf8_valid [] = True"
| "utf8_valid (a # bs) =
     (if a < 0x80 then utf8_valid bs
      else if 0xC2 \<le> a \<and> a \<le> 0xDF then
        (case bs of b # r \<Rightarrow> is_cont b \<and> utf8_valid r | _ \<Rightarrow> False)
      else if 0xE0 \<le> a \<and> a \<le> 0xEF then
        (case bs of b # c # r \<Rightarrow> utf8_second3 a b \<and> is_cont c \<and> utf8_valid r | _ \<Rightarrow> False)
      else if 0xF0 \<le> a \<and> a \<le> 0xF4 then
        (case bs of b # c # d # r \<Rightarrow>
            utf8_second4 a b \<and> is_cont c \<and> is_cont d \<and> utf8_valid r
         | _ \<Rightarrow> False)
      else False)"

lemma utf8_valid_ascii: "\<forall>b \<in> set bs. b < 0x80 \<Longrightarrow> utf8_valid bs"
  by (induction bs) auto

section \<open>Errors and stateful computations\<close>

datatype io_error =
    IoUnexpectedEof | IoConnectionReset | IoWouldBlock | IoTimedOut | IoInvalidInput | IoBrokenPipe

datatype rtmp_error =
    Io io_error
  | UnexpectedEof
  | UnsupportedHandshakeVersion u8
  | InvalidAmf0
  | InvalidChunk
  | InvalidCommand
  | ProtocolViolation
  | Rejected rstring
  | Timeout
  | Other
  | Panic
  | OutOfFuel

type_synonym 'a result = "rtmp_error + 'a"
type_synonym ('s, 'a) st = "'s \<Rightarrow> 'a result \<times> 's"

definition res_bind :: "'a result \<Rightarrow> ('a \<Rightarrow> 'b result) \<Rightarrow> 'b result" where
  "res_bind m f = (case m of Inl e \<Rightarrow> Inl e | Inr x \<Rightarrow> f x)"

lemma res_bind_simps [simp]: "res_bind (Inl e) f = Inl e" "res_bind (Inr x) f = f x"
  by (simp_all add: res_bind_def)

lemma res_bind_eq_Inr: "res_bind m f = Inr y \<longleftrightarrow> (\<exists>x. m = Inr x \<and> f x = Inr y)"
  by (simp add: res_bind_def split: sum.split)

lemma res_bind_eq_Inl: "res_bind m f = Inl e \<longleftrightarrow> m = Inl e \<or> (\<exists>x. m = Inr x \<and> f x = Inl e)"
  by (auto simp: res_bind_def split: sum.split)

definition st_return :: "'a \<Rightarrow> ('s, 'a) st" where
  "st_return x = (\<lambda>s. (Inr x, s))"

definition st_throw :: "rtmp_error \<Rightarrow> ('s, 'a) st" where
  "st_throw e = (\<lambda>s. (Inl e, s))"

definition st_bind :: "('s, 'a) st \<Rightarrow> ('a \<Rightarrow> ('s, 'b) st) \<Rightarrow> ('s, 'b) st" where
  "st_bind m f = (\<lambda>s. case m s of (Inl e, s') \<Rightarrow> (Inl e, s') | (Inr x, s') \<Rightarrow> f x s')"

lemma st_return_run [st_run]: "st_return x s = (Inr x, s)"
  by (simp add: st_return_def)

lemma st_throw_run [st_run]: "st_throw e s = (Inl e, s)"
  by (simp add: st_throw_def)

lemma st_pair_run [simp]:
  "st_return x (u, b) = (Inr x, (u, b))" "st_throw e (u, b) = (Inl e, (u, b))"
  by (simp_all add: st_run)

lemma st_bind_Inr [st_run]: "m s = (Inr x, s') \<Longrightarrow> st_bind m f s = f x s'"
  by (simp add: st_bind_def)

lemma st_bind_Inl [st_run]: "m s = (Inl e, s') \<Longrightarrow> st_bind m f s = (Inl e, s')"
  by (simp add: st_bind_def)

lemma st_bind_cases:
  "(\<And>e s'. m s = (Inl e, s') \<Longrightarrow> r = (Inl e, s') \<Longrightarrow> P) \<Longrightarrow>
   (\<And>x s'. m s = (Inr x, s') \<Longrightarrow> f x s' = r \<Longrightarrow> P) \<Longrightarrow> st_bind m f s = r \<Longrightarrow> P"
  by (auto simp: st_bind_def split: sum.splits prod.splits)

lemma st_bind_eq_Inr:
  "st_bind m f s = (Inr y, s'') \<longleftrightarrow> (\<exists>x s'. m s = (Inr x, s') \<and> f x s' = (Inr y, s''))"
  by (auto simp: st_bind_def split: sum.splits prod.splits)

lemma st_bind_return [simp]: "st_bind (st_return x) f = f x"
  by (simp add: fun_eq_iff st_bind_def st_run)

lemma st_bind_throw [simp]: "st_bind (st_throw e) f = st_throw e"
  by (simp add: fun_eq_iff st_bind_def st_run)

lemma st_bind_assoc: "st_bind (st_bind m f) g = st_bind m (\<lambda>x. st_bind (f x) g)"
  by (auto simp: fun_eq_iff st_bind_def split: sum.splits prod.splits)

end
