(* ===== verification/Cursor.thy ===== *)
theory Cursor
  imports Prelude
begin

text \<open>
  Readers over a byte cursor.  The state is \<open>'u \<times> u8 list\<close>: what the reader keeps
  beside the input (nothing, AMF reference tables, chunk tables) and the bytes from the
  current position on.  The theory holds

  \<^item> the primitive reads of a slice (\<open>cur_u8\<close>, \<open>cur_take\<close>, \<open>cur_be\<close>), which leave the
    position where it is when they fail, and of a stream (\<open>stream_exact\<close>), which has
    consumed what there was;
  \<^item> \<open>reads p bs x\<close> (on \<open>bs\<close> followed by anything, \<open>p\<close> returns \<open>x\<close> and stops after
    \<open>bs\<close>), \<open>shrinks k p\<close> (a success of \<open>p\<close> consumes at least \<open>k\<close> bytes) and
    \<open>safe p\<close> (no panic, no exhausted loop bound), each with its composition rules;
  \<^item> the three loop shapes of the source: \<open>for _ in 0..n\<close> (\<open>st_times\<close>), \<open>loop\<close> until an
    end marker (\<open>st_many\<close>) and \<open>while pos < buf.len()\<close> (\<open>while_input\<close>);
  \<^item> the interfaces \<open>item_parser\<close> and \<open>value_codec\<close>.
\<close>

section \<open>Primitive reads\<close>

definition cur_u8 :: "rtmp_error \<Rightarrow> ('u \<times> u8 list, u8) st" where
  "cur_u8 e = (\<lambda>(u, bs). case bs of [] \<Rightarrow> (Inl e, (u, [])) | b # r \<Rightarrow> (Inr b, (u, r)))"

definition cur_take :: "rtmp_error \<Rightarrow> nat \<Rightarrow> ('u \<times> u8 list, u8 list) st" where
  "cur_take e n = (\<lambda>(u, bs).
     if length bs < n then (Inl e, (u, bs)) else (Inr (take n bs), (u, drop n bs)))"

definition cur_be :: "rtmp_error \<Rightarrow> nat \<Rightarrow> ('u \<times> u8 list, 'w::len word) st" where
  "cur_be e n = st_bind (cur_take e n) (\<lambda>bs. st_return (of_be bs))"

text \<open>
  \<open>Read::read_exact\<close> on a byte stream: when the stream ends early the bytes that were
  there are gone.
\<close>

definition stream_exact :: "rtmp_error \<Rightarrow> nat \<Rightarrow> ('u \<times> u8 list, u8 list) st" where
  "stream_exact e n = (\<lambda>(u, bs).
     if length bs < n then (Inl e, (u, [])) else (Inr (take n bs), (u, drop n bs)))"

definition st_get_user :: "('u \<times> u8 list, 'u) st" where
  "st_get_user = (\<lambda>(u, bs). (Inr u, (u, bs)))"

definition st_put_user :: "'u \<Rightarrow> ('u \<times> u8 list, unit) st" where
  "st_put_user u' = (\<lambda>(u, bs). (Inr (), (u', bs)))"

definition st_rest :: "('u \<times> u8 list, u8 list) st" where
  "st_rest = (\<lambda>(u, bs). (Inr bs, (u, bs)))"

definition st_lift :: "'a result \<Rightarrow> ('s, 'a) st" where
  "st_lift r = (\<lambda>s. (r, s))"

lemma cur_u8_run [simp, st_run]:
  "cur_u8 e (u, b # r) = (Inr b, (u, r))" "cur_u8 e (u, []) = (Inl e, (u, []))"
  by (simp_all add: cur_u8_def)

lemma cur_take_run [simp, st_run]: "length bs = n \<Longrightarrow> cur_take e n (u, bs @ r) = (Inr bs, (u, r))"
  by (simp add: cur_take_def)

lemma cur_take_short [simp, st_run]: "length bs < n \<Longrightarrow> cur_take e n (u, bs) = (Inl e, (u, bs))"
  by (simp add: cur_take_def)

lemma stream_exact_run [simp, st_run]:
  "length bs = n \<Longrightarrow> stream_exact e n (u, bs @ r) = (Inr bs, (u, r))"
  by (simp add: stream_exact_def)

lemma stream_exact_short [simp, st_run]:
  "length bs < n \<Longrightarrow> stream_exact e n (u, bs) = (Inl e, (u, []))"
  by (simp add: stream_exact_def)

lemma st_user_run [simp, st_run]:
  "st_get_user (u, bs) = (Inr u, (u, bs))" "st_put_user u' (u, bs) = (Inr (), (u', bs))"
  "st_rest (u, bs) = (Inr bs, (u, bs))" "st_lift r (u, bs) = (r, (u, bs))"
  by (simp_all add: st_get_user_def st_put_user_def st_rest_def st_lift_def)

lemma cur_be_run [simp, st_run]:
  "length bs = n \<Longrightarrow> cur_be e n (u, bs @ r) = (Inr (of_be bs), (u, r))"
  by (simp add: cur_be_def st_bind_def)

section \<open>What a reader does with its input\<close>

definition reads :: "('u \<times> u8 list, 'a) st \<Rightarrow> u8 list \<Rightarrow> 'a \<Rightarrow> bool" where
  "reads p bs x \<longleftrightarrow> (\<forall>u rest. \<exists>u'. p (u, bs @ rest) = (Inr x, (u', rest)))"

definition shrinks :: "nat \<Rightarrow> ('u \<times> u8 list, 'a) st \<Rightarrow> bool" where
  "shrinks k p \<longleftrightarrow> (\<forall>u bs x u' bs'. p (u, bs) = (Inr x, (u', bs')) \<longrightarrow> length bs' + k \<le> length bs)"

definition safe :: "('s, 'a) st \<Rightarrow> bool" where
  "safe p \<longleftrightarrow> (\<forall>s. fst (p s) \<noteq> Inl Panic \<and> fst (p s) \<noteq> Inl OutOfFuel)"

lemma readsI: "(\<And>u rest. \<exists>u'. p (u, bs @ rest) = (Inr x, (u', rest))) \<Longrightarrow> reads p bs x"
  by (simp add: reads_def)

lemma readsE: "reads p bs x \<Longrightarrow> (\<And>u'. p (u, bs @ rest) = (Inr x, (u', rest)) \<Longrightarrow> P) \<Longrightarrow> P"
  by (auto simp: reads_def)

lemma reads_bind [reads_intro]:
  assumes "reads p bs x" and "reads (f x) cs y"
  shows "reads (st_bind p f) (bs @ cs) y"
proof (rule readsI)
  fix u rest
  obtain u1 where 1: "p (u, bs @ cs @ rest) = (Inr x, (u1, cs @ rest))"
    using assms(1) by (rule readsE)
  obtain u2 where 2: "f x (u1, cs @ rest) = (Inr y, (u2, rest))"
    using assms(2) by (rule readsE)
  show "\<exists>u'. st_bind p f (u, (bs @ cs) @ rest) = (Inr y, (u', rest))"
    using 1 2 by (simp add: st_bind_def)
qed

lemma reads_bind_nil [reads_intro]:
  "reads p bs x \<Longrightarrow> reads (f x) [] y \<Longrightarrow> reads (st_bind p f) bs y"
  using reads_bind[of p bs x f "[]" y] by simp

lemma reads_return [reads_intro]: "reads (st_return x) [] x"
  by (simp add: reads_def)

lemma reads_u8 [reads_intro]: "reads (cur_u8 e) [b] b"
  by (simp add: reads_def)

lemma reads_u8_bind [reads_intro]:
  "reads (f b) cs y \<Longrightarrow> reads (st_bind (cur_u8 e) f) (b # cs) y"
  using reads_bind[OF reads_u8, of f b cs y] by simp

lemma reads_take [reads_intro]: "length bs = n \<Longrightarrow> reads (cur_take e n) bs bs"
  by (simp add: reads_def)

lemma reads_be [reads_intro]: "length bs = n \<Longrightarrow> reads (cur_be e n) bs (of_be bs)"
  by (simp add: reads_def)

lemma reads_put [reads_intro]: "reads (st_put_user u) [] ()"
  by (simp add: reads_def)

lemma reads_get_bind [reads_intro]:
  "(\<And>u. reads (f u) bs x) \<Longrightarrow> reads (st_bind st_get_user f) bs x"
  by (fastforce simp: reads_def st_bind_def)

lemma reads_put_bind [reads_intro]:
  "reads (f ()) bs x \<Longrightarrow> reads (st_bind (st_put_user u) f) bs x"
  by (fastforce simp: reads_def st_bind_def)

lemma reads_functional: "reads p bs x \<Longrightarrow> reads p bs y \<Longrightarrow> x = y"
  unfolding reads_def by (metis Inr_inject prod.inject)

lemma shrinksI:
  "(\<And>u bs x u' bs'. p (u, bs) = (Inr x, (u', bs')) \<Longrightarrow> length bs' + k \<le> length bs) \<Longrightarrow> shrinks k p"
  by (simp add: shrinks_def)

lemma shrinksD: "shrinks k p \<Longrightarrow> p (u, bs) = (Inr x, (u', bs')) \<Longrightarrow> length bs' + k \<le> length bs"
  by (simp add: shrinks_def)

lemma shrinks_mono: "shrinks k p \<Longrightarrow> j \<le> k \<Longrightarrow> shrinks j p"
  by (fastforce simp: shrinks_def)

lemma shrinks_bind:
  assumes "shrinks k p" and "\<And>x. shrinks j (f x)"
  shows "shrinks (k + j) (st_bind p f)"
proof (rule shrinksI)
  fix u bs y u' bs'
  assume "st_bind p f (u, bs) = (Inr y, (u', bs'))"
  then obtain x u1 bs1 where "p (u, bs) = (Inr x, (u1, bs1))" "f x (u1, bs1) = (Inr y, (u', bs'))"
    by (auto simp: st_bind_eq_Inr)
  then show "length bs' + (k + j) \<le> length bs"
    using shrinksD[OF assms(1)] shrinksD[OF assms(2)] by fastforce
qed

text \<open>The two forms the component proofs use: keep what is still owed, or drop what is paid.\<close>

lemma shrinks_bind0 [shrink_intro]:
  "shrinks 0 p \<Longrightarrow> (\<And>x. shrinks 0 (f x)) \<Longrightarrow> shrinks 0 (st_bind p f)"
  using shrinks_bind[of 0 p 0 f] by simp

lemma shrinks_bind_first:
  "shrinks k p \<Longrightarrow> (\<And>x. shrinks 0 (f x)) \<Longrightarrow> shrinks k (st_bind p f)"
  using shrinks_bind[of k p 0 f] by simp

lemma shrinks_return [shrink_intro]: "shrinks 0 (st_return x)"
  and shrinks_throw [shrink_intro]: "shrinks k (st_throw e)"
  and shrinks_get [shrink_intro]: "shrinks 0 st_get_user"
  and shrinks_put [shrink_intro]: "shrinks 0 (st_put_user u)"
  and shrinks_rest [shrink_intro]: "shrinks 0 st_rest"
  and shrinks_lift [shrink_intro]: "shrinks 0 (st_lift r)"
  by (auto simp: shrinks_def)

lemma shrinks_u8: "shrinks 1 (cur_u8 e)"
  by (auto simp: shrinks_def cur_u8_def split: list.splits)

lemma shrinks_take: "shrinks n (cur_take e n)"
  by (auto simp: shrinks_def cur_take_def split: if_splits)

lemma shrinks_stream: "shrinks n (stream_exact e n)"
  by (auto simp: shrinks_def stream_exact_def split: if_splits)

lemma shrinks_be: "shrinks n (cur_be e n)"
  unfolding cur_be_def by (rule shrinks_bind_first[OF shrinks_take shrinks_return])

lemma shrinks_prim [shrink_intro]:
  "shrinks 0 (cur_u8 e)" "shrinks 0 (cur_take e n)" "shrinks 0 (stream_exact e n)"
  "shrinks 0 (cur_be e n)"
  by (rule shrinks_mono[OF shrinks_u8] shrinks_mono[OF shrinks_take]
      shrinks_mono[OF shrinks_stream] shrinks_mono[OF shrinks_be]; simp)+

lemma shrinks_if [shrink_intro]: "shrinks k p \<Longrightarrow> shrinks k q \<Longrightarrow> shrinks k (if b then p else q)"
  by simp

lemma safeI: "(\<And>s. fst (p s) \<noteq> Inl Panic) \<Longrightarrow> (\<And>s. fst (p s) \<noteq> Inl OutOfFuel) \<Longrightarrow> safe p"
  by (simp add: safe_def)

lemma safe_bind [safe_intro]:
  assumes "safe p" and "\<And>x. safe (f x)"
  shows "safe (st_bind p f)"
  unfolding safe_def
proof
  fix s
  obtain r s' where ps: "p s = (r, s')" by (rule prod.exhaust)
  show "fst (st_bind p f s) \<noteq> Inl Panic \<and> fst (st_bind p f s) \<noteq> Inl OutOfFuel"
  proof (cases r)
    case (Inl e)
    with assms(1) ps show ?thesis by (auto simp: safe_def st_bind_def dest: spec[of _ s])
  next
    case (Inr x)
    with assms(2)[of x] ps show ?thesis by (simp add: safe_def st_bind_def)
  qed
qed

lemma safe_return [safe_intro]: "safe (st_return x)"
  and safe_throw [safe_intro]: "e \<noteq> Panic \<Longrightarrow> e \<noteq> OutOfFuel \<Longrightarrow> safe (st_throw e)"
  and safe_get [safe_intro]: "safe st_get_user"
  and safe_put [safe_intro]: "safe (st_put_user u)"
  and safe_rest [safe_intro]: "safe st_rest"
  and safe_u8 [safe_intro]: "e \<noteq> Panic \<Longrightarrow> e \<noteq> OutOfFuel \<Longrightarrow> safe (cur_u8 e)"
  and safe_take [safe_intro]: "e \<noteq> Panic \<Longrightarrow> e \<noteq> OutOfFuel \<Longrightarrow> safe (cur_take e n)"
  and safe_stream [safe_intro]: "e \<noteq> Panic \<Longrightarrow> e \<noteq> OutOfFuel \<Longrightarrow> safe (stream_exact e n)"
  by (auto simp: safe_def st_run cur_u8_def cur_take_def stream_exact_def split: list.splits)

lemma safe_be [safe_intro]: "e \<noteq> Panic \<Longrightarrow> e \<noteq> OutOfFuel \<Longrightarrow> safe (cur_be e n)"
  unfolding cur_be_def by (intro safe_intro)

lemma safe_if [safe_intro]: "safe p \<Longrightarrow> safe q \<Longrightarrow> safe (if b then p else q)"
  by simp

section \<open>Loops\<close>

text \<open>\<open>for _ in 0..n { out.push(p()?) }\<close>\<close>

primrec st_times :: "nat \<Rightarrow> ('s, 'a) st \<Rightarrow> ('s, 'a list) st" where
  "st_times 0 p = st_return []"
| "st_times (Suc n) p = st_bind p (\<lambda>x. st_bind (st_times n p) (\<lambda>xs. st_return (x # xs)))"

text \<open>
  \<open>loop { match p()? { None => return out, Some(x) => out.push(x) } }\<close>.  The bound is the
  number of bytes left plus one; when every \<open>Some\<close> consumes a byte it is never reached
  (\<open>st_many_unfold\<close>: the bound cannot be observed).
\<close>

primrec st_many_n :: "nat \<Rightarrow> ('s, 'a option) st \<Rightarrow> ('s, 'a list) st" where
  "st_many_n 0 p = st_throw OutOfFuel"
| "st_many_n (Suc n) p = st_bind p (\<lambda>r. case r of
      None \<Rightarrow> st_return []
    | Some x \<Rightarrow> st_bind (st_many_n n p) (\<lambda>xs. st_return (x # xs)))"

definition st_many :: "('u \<times> u8 list, 'a option) st \<Rightarrow> ('u \<times> u8 list, 'a list) st" where
  "st_many p = (\<lambda>s. st_many_n (Suc (length (snd s))) p s)"

text \<open>
  \<open>loop { ...; if done { return Ok(x) } }\<close>: iterations until one yields a value, with the
  same kind of bound.
\<close>

primrec st_until_n :: "nat \<Rightarrow> ('s, 'a option) st \<Rightarrow> ('s, 'a) st" where
  "st_until_n 0 p = st_throw OutOfFuel"
| "st_until_n (Suc n) p = st_bind p (\<lambda>r. case r of
      None \<Rightarrow> st_until_n n p
    | Some x \<Rightarrow> st_return x)"

definition st_until :: "('u \<times> u8 list, 'a option) st \<Rightarrow> ('u \<times> u8 list, 'a) st" where
  "st_until p = (\<lambda>s. st_until_n (Suc (length (snd s))) p s)"

text \<open>\<open>while pos < buf.len() { out.push(p()?) }\<close>\<close>

definition more_input :: "('u \<times> u8 list, 'a) st \<Rightarrow> ('u \<times> u8 list, 'a option) st" where
  "more_input p = (\<lambda>s. if snd s = [] then (Inr None, s)
     else st_bind p (\<lambda>x. st_return (Some x)) s)"

definition while_input :: "('u \<times> u8 list, 'a) st \<Rightarrow> ('u \<times> u8 list, 'a list) st" where
  "while_input p = st_many (more_input p)"

definition steps :: "('u \<times> u8 list, 'a option) st \<Rightarrow> bool" where
  "steps p \<longleftrightarrow> (\<forall>u bs x u' bs'. p (u, bs) = (Inr (Some x), (u', bs')) \<longrightarrow> length bs' < length bs)"

lemma st_many_n_fuel:
  assumes "steps p" and "length (snd s) < n" and "length (snd s) < m"
  shows "st_many_n n p s = st_many_n m p s"
  using assms(2,3)
proof (induction n arbitrary: s m)
  case 0
  then show ?case by simp
next
  case (Suc n)
  then obtain m' where m: "m = Suc m'" by (cases m) auto
  obtain r s' where ps: "p s = (r, s')" by (rule prod.exhaust)
  show ?case
  proof (cases "\<exists>x. r = Inr (Some x)")
    case True
    then obtain x where x: "r = Inr (Some x)" by blast
    then have "length (snd s') < length (snd s)"
      using assms(1) ps by (cases s; cases s') (auto simp: steps_def)
    then have "st_many_n n p s' = st_many_n m' p s'"
      using Suc.prems m by (intro Suc.IH) auto
    then show ?thesis using ps x m by (simp add: st_bind_def)
  next
    case False
    then show ?thesis using ps m by (auto simp: st_bind_def split: sum.split option.split)
  qed
qed

lemma st_many_unfold:
  assumes "steps p"
  shows "st_many p = st_bind p (\<lambda>r. case r of
      None \<Rightarrow> st_return []
    | Some x \<Rightarrow> st_bind (st_many p) (\<lambda>xs. st_return (x # xs)))"
proof
  fix s
  obtain r s' where ps: "p s = (r, s')" by (rule prod.exhaust)
  have "st_many_n (length (snd s)) p s' = st_many_n (Suc (length (snd s'))) p s'"
    if "r = Inr (Some x)" for x
  proof -
    have "length (snd s') < length (snd s)"
      using assms ps that by (cases s; cases s') (auto simp: steps_def)
    then show ?thesis by (intro st_many_n_fuel[OF assms]) auto
  qed
  then show "st_many p s = st_bind p (\<lambda>r. case r of
      None \<Rightarrow> st_return []
    | Some x \<Rightarrow> st_bind (st_many p) (\<lambda>xs. st_return (x # xs))) s"
    using ps by (auto simp: st_many_def st_bind_def simp del: st_many_n.simps(2)
        simp add: st_many_n.simps(2)[of "length (snd s)"] split: sum.split option.split)
qed

text \<open>The same for \<open>st_until\<close>; here every iteration consumes.\<close>

lemma st_until_n_fuel:
  assumes "shrinks 1 p" and "length (snd s) < n" and "length (snd s) < m"
  shows "st_until_n n p s = st_until_n m p s"
  using assms(2,3)
proof (induction n arbitrary: s m)
  case (Suc n)
  then obtain m' where m: "m = Suc m'" by (cases m) auto
  obtain r s' where ps: "p s = (r, s')" by (rule prod.exhaust)
  show ?case
  proof (cases "r = Inr None")
    case True
    then have "length (snd s') < length (snd s)"
      using assms(1) ps by (cases s; cases s') (auto dest: shrinksD)
    then have "st_until_n n p s' = st_until_n m' p s'"
      using Suc.prems m by (intro Suc.IH) auto
    then show ?thesis using ps True m by (simp add: st_bind_def)
  next
    case False
    then show ?thesis using ps m by (auto simp: st_bind_def split: sum.split option.split)
  qed
qed simp

lemma st_until_unfold:
  assumes "shrinks 1 p"
  shows "st_until p = st_bind p (\<lambda>r. case r of None \<Rightarrow> st_until p | Some x \<Rightarrow> st_return x)"
proof
  fix s
  obtain r s' where ps: "p s = (r, s')" by (rule prod.exhaust)
  have "st_until_n (length (snd s)) p s' = st_until_n (Suc (length (snd s'))) p s'"
    if "r = Inr None"
  proof -
    have "length (snd s') < length (snd s)"
      using assms ps that by (cases s; cases s') (auto dest: shrinksD)
    then show ?thesis by (intro st_until_n_fuel[OF assms]) auto
  qed
  then show "st_until p s =
      st_bind p (\<lambda>r. case r of None \<Rightarrow> st_until p | Some x \<Rightarrow> st_return x) s"
    using ps by (auto simp: st_until_def st_bind_def simp del: st_until_n.simps(2)
        simp add: st_until_n.simps(2)[of "length (snd s)"] split: sum.split option.split)
qed

lemma shrinks_until_n: "shrinks 1 p \<Longrightarrow> shrinks 1 (st_until_n n p)"
proof (induction n)
  case (Suc n)
  show ?case unfolding st_until_n.simps
  proof (rule shrinks_bind_first[OF Suc.prems])
    fix r show "shrinks 0 (case r of None \<Rightarrow> st_until_n n p | Some x \<Rightarrow> st_return x)"
      using shrinks_mono[OF Suc.IH[OF Suc.prems], of 0] by (cases r) (auto intro: shrinks_return)
  qed
qed (simp add: shrinks_throw)

lemma shrinks_until:
  assumes "shrinks 1 p"
  shows "shrinks 1 (st_until p)"
proof (rule shrinksI)
  fix u bs x u' bs'
  assume "st_until p (u, bs) = (Inr x, (u', bs'))"
  then have "st_until_n (Suc (length bs)) p (u, bs) = (Inr x, (u', bs'))"
    by (simp add: st_until_def del: st_until_n.simps)
  from shrinksD[OF shrinks_until_n[OF assms] this] show "length bs' + 1 \<le> length bs" .
qed

text \<open>
  Total correctness triples: from \<open>P\<close>, a success satisfies \<open>Q\<close>, an error is a real one
  and leaves a state with \<open>E\<close>.
\<close>

definition hoare :: "('s \<Rightarrow> bool) \<Rightarrow> ('s, 'a) st \<Rightarrow> ('a \<Rightarrow> 's \<Rightarrow> bool) \<Rightarrow> ('s \<Rightarrow> bool) \<Rightarrow> bool" where
  "hoare P p Q E \<longleftrightarrow> (\<forall>s. P s \<longrightarrow>
     (case p s of (Inr x, s') \<Rightarrow> Q x s' | (Inl e, s') \<Rightarrow> e \<noteq> Panic \<and> e \<noteq> OutOfFuel \<and> E s'))"

lemma hoareI:
  "(\<And>s. P s \<Longrightarrow> case p s of (Inr x, s') \<Rightarrow> Q x s' | (Inl e, s') \<Rightarrow> e \<noteq> Panic \<and> e \<noteq> OutOfFuel \<and> E s') \<Longrightarrow>
   hoare P p Q E"
  by (simp add: hoare_def)

lemma hoareD: "hoare P p Q E \<Longrightarrow> P s \<Longrightarrow> p s = (Inr x, s') \<Longrightarrow> Q x s'"
  by (fastforce simp: hoare_def)

lemma hoareD_err:
  "hoare P p Q E \<Longrightarrow> P s \<Longrightarrow> p s = (Inl e, s') \<Longrightarrow> e \<noteq> Panic \<and> e \<noteq> OutOfFuel \<and> E s'"
  by (fastforce simp: hoare_def)

lemma hoare_weaken:
  assumes "hoare P p Q E" and "\<And>s. P' s \<Longrightarrow> P s" and "\<And>x s. Q x s \<Longrightarrow> Q' x s"
  shows "hoare P' p Q' E"
proof (rule hoareI)
  fix s assume "P' s"
  then have P: "P s" by (rule assms(2))
  obtain r s' where ps: "p s = (r, s')" by (rule prod.exhaust)
  show "case p s of (Inr x, s') \<Rightarrow> Q' x s' | (Inl e, s') \<Rightarrow> e \<noteq> Panic \<and> e \<noteq> OutOfFuel \<and> E s'"
    using hoareD[OF assms(1) P] hoareD_err[OF assms(1) P] ps
    by (cases r) (simp_all add: assms(3))
qed

lemma hoare_bind:
  assumes "hoare P p R E" and "\<And>x. hoare (R x) (f x) Q E"
  shows "hoare P (st_bind p f) Q E"
proof (rule hoareI)
  fix s assume P: "P s"
  obtain r s1 where ps: "p s = (r, s1)" by (rule prod.exhaust)
  show "case st_bind p f s of (Inr x, s') \<Rightarrow> Q x s'
      | (Inl e, s') \<Rightarrow> e \<noteq> Panic \<and> e \<noteq> OutOfFuel \<and> E s'"
  proof (cases r)
    case (Inl e)
    then show ?thesis using hoareD_err[OF assms(1) P] ps by (simp add: st_bind_def)
  next
    case (Inr x)
    then have "R x s1" using hoareD[OF assms(1) P] ps by simp
    then show ?thesis using assms(2)[of x] ps Inr by (simp add: hoare_def st_bind_def)
  qed
qed

lemma hoare_return: "(\<And>s. P s \<Longrightarrow> Q x s) \<Longrightarrow> hoare P (st_return x) Q E"
  by (simp add: hoare_def st_run)

lemma hoare_throw:
  "e \<noteq> Panic \<Longrightarrow> e \<noteq> OutOfFuel \<Longrightarrow> (\<And>s. P s \<Longrightarrow> E s) \<Longrightarrow> hoare P (st_throw e) Q E"
  by (simp add: hoare_def st_run)

lemma hoare_get: "(\<And>u bs. P (u, bs) \<Longrightarrow> Q u (u, bs)) \<Longrightarrow> hoare P st_get_user Q E"
  by (auto simp: hoare_def)

lemma hoare_put: "(\<And>u bs. P (u, bs) \<Longrightarrow> Q () (u', bs)) \<Longrightarrow> hoare P (st_put_user u') Q E"
  by (auto simp: hoare_def)

lemma hoare_if:
  "(b \<Longrightarrow> hoare P p Q E) \<Longrightarrow> (\<not> b \<Longrightarrow> hoare P q Q E) \<Longrightarrow> hoare P (if b then p else q) Q E"
  by simp

lemma hoare_until:
  assumes "shrinks 1 p"
    and body: "hoare I p (\<lambda>r s. case r of None \<Rightarrow> I s | Some x \<Rightarrow> Q x s) E"
  shows "hoare I (st_until p) Q E"
proof (rule hoareI)
  fix s assume "I s"
  have bound: "case st_until_n n p s of (Inr x, s') \<Rightarrow> Q x s'
      | (Inl e, s') \<Rightarrow> e \<noteq> Panic \<and> e \<noteq> OutOfFuel \<and> E s'" if "length (snd s) < n" for n
    using that \<open>I s\<close>
  proof (induction n arbitrary: s)
    case (Suc n)
    obtain r s1 where ps: "p s = (r, s1)" by (rule prod.exhaust)
    show ?case
    proof (cases "r = Inr None")
      case True
      then have "length (snd s1) < length (snd s)"
        using assms(1) ps by (cases s; cases s1) (auto dest: shrinksD)
      then have "length (snd s1) < n" using Suc.prems(1) by simp
      moreover have "I s1" using hoareD[OF body Suc.prems(2), of None s1] ps True by simp
      ultimately show ?thesis using Suc.IH[of s1] ps True by (simp add: st_bind_def)
    next
      case False
      show ?thesis
      proof (cases r)
        case (Inl e)
        then show ?thesis using hoareD_err[OF body Suc.prems(2)] ps by (simp add: st_bind_def)
      next
        case (Inr q)
        then obtain y where y: "q = Some y" using False by (cases q) auto
        have "Q y s1" using hoareD[OF body Suc.prems(2), of q s1] ps Inr y by simp
        then show ?thesis using ps Inr y by (simp add: st_bind_def st_run)
      qed
    qed
  qed simp
  show "case st_until p s of (Inr x, s') \<Rightarrow> Q x s'
      | (Inl e, s') \<Rightarrow> e \<noteq> Panic \<and> e \<noteq> OutOfFuel \<and> E s'"
    unfolding st_until_def by (rule bound) simp
qed

lemma reads_times [reads_intro]:
  "(\<And>x. x \<in> set xs \<Longrightarrow> reads p (enc x) x) \<Longrightarrow>
   reads (st_times (length xs) p) (concat (map enc xs)) xs"
proof (induction xs)
  case Nil
  then show ?case by (simp add: reads_return)
next
  case (Cons x xs)
  have "reads p (enc x) x" using Cons.prems by simp
  moreover have "reads (st_times (length xs) p) (concat (map enc xs)) xs" by (rule Cons.IH) (simp add: Cons.prems)
  ultimately show ?case
    by (simp add: reads_bind reads_bind_nil reads_return)
qed

lemma reads_many:
  assumes "steps p"
    and "\<And>x. x \<in> set xs \<Longrightarrow> reads p (enc x) (Some x)"
    and "reads p fin None"
  shows "reads (st_many p) (concat (map enc xs) @ fin) xs"
  using assms(2)
proof (induction xs)
  case Nil
  have "reads (st_bind p (\<lambda>r. case r of None \<Rightarrow> st_return []
    | Some x \<Rightarrow> st_bind (st_many p) (\<lambda>xs. st_return (x # xs)))) fin []"
    by (rule reads_bind_nil[OF assms(3)]) (simp add: reads_return)
  then show ?case by (subst st_many_unfold[OF assms(1)]) simp
next
  case (Cons x xs)
  have 1: "reads p (enc x) (Some x)" using Cons.prems by simp
  have 2: "reads (st_many p) (concat (map enc xs) @ fin) xs" by (rule Cons.IH) (simp add: Cons.prems)
  have "reads (st_bind (st_many p) (\<lambda>ys. st_return (x # ys))) (concat (map enc xs) @ fin) (x # xs)"
    by (rule reads_bind_nil[OF 2 reads_return])
  from reads_bind[OF 1, of "\<lambda>r. case r of None \<Rightarrow> st_return []
    | Some x \<Rightarrow> st_bind (st_many p) (\<lambda>xs. st_return (x # xs))"] this
  show ?case by (subst st_many_unfold[OF assms(1)]) simp
qed

lemma shrinks_times [shrink_intro]: "shrinks 0 p \<Longrightarrow> shrinks 0 (st_times n p)"
  by (induction n) (auto intro!: shrink_intro)

lemma safe_times [safe_intro]: "safe p \<Longrightarrow> safe (st_times n p)"
  by (induction n) (auto intro!: safe_intro)

lemma shrinks_many_n: "shrinks 0 p \<Longrightarrow> shrinks 0 (st_many_n n p)"
proof (induction n)
  case 0
  show ?case unfolding st_many_n.simps by (rule shrinks_throw)
next
  case (Suc n)
  show ?case unfolding st_many_n.simps
  proof (rule shrinks_bind0[OF Suc.prems])
    fix r
    show "shrinks 0 (case r of None \<Rightarrow> st_return []
      | Some x \<Rightarrow> st_bind (st_many_n n p) (\<lambda>xs. st_return (x # xs)))"
      by (cases r) (use Suc.IH[OF Suc.prems] in
        \<open>auto intro: shrinks_return shrinks_bind0\<close>)
  qed
qed

lemma shrinks_many [shrink_intro]: "shrinks 0 p \<Longrightarrow> shrinks 0 (st_many p)"
  by (rule shrinksI) (auto simp: st_many_def simp del: st_many_n.simps dest: shrinksD[OF shrinks_many_n])

lemma safe_many_n:
  assumes "steps p" and "safe p" and "length (snd s) < n"
  shows "fst (st_many_n n p s) \<noteq> Inl Panic \<and> fst (st_many_n n p s) \<noteq> Inl OutOfFuel"
  using assms(3)
proof (induction n arbitrary: s)
  case (Suc n)
  obtain r s' where ps: "p s = (r, s')" by (rule prod.exhaust)
  show ?case
  proof (cases "\<exists>x. r = Inr (Some x)")
    case True
    then obtain x where x: "r = Inr (Some x)" by blast
    then have "length (snd s') < length (snd s)"
      using assms(1) ps by (cases s; cases s') (auto simp: steps_def)
    then have "fst (st_many_n n p s') \<noteq> Inl Panic \<and> fst (st_many_n n p s') \<noteq> Inl OutOfFuel"
      using Suc.prems by (intro Suc.IH) auto
    then show ?thesis using ps x by (auto simp: st_bind_def split: sum.split prod.split)
  next
    case False
    have "fst (p s) \<noteq> Inl Panic" "fst (p s) \<noteq> Inl OutOfFuel"
      using assms(2) unfolding safe_def by blast+
    with ps False show ?thesis
      by (cases r) (auto simp: st_bind_def st_run split: option.split)
  qed
qed simp

lemma safe_many: "steps p \<Longrightarrow> safe p \<Longrightarrow> safe (st_many p)"
  by (rule safeI) (use safe_many_n[of p] in \<open>simp_all add: st_many_def del: st_many_n.simps\<close>)

lemma steps_more_input: "shrinks 1 p \<Longrightarrow> steps (more_input p)"
  by (fastforce simp: steps_def more_input_def shrinks_def st_bind_eq_Inr split: if_splits)

lemma shrinks_more_input [shrink_intro]: "shrinks 0 p \<Longrightarrow> shrinks 0 (more_input p)"
  by (fastforce simp: more_input_def shrinks_def st_bind_eq_Inr split: if_splits)

lemma safe_more_input: "safe p \<Longrightarrow> safe (more_input p)"
  using safe_bind[of p "\<lambda>x. st_return (Some x)"]
  by (auto simp: safe_def more_input_def intro!: safe_return)

text \<open>
  \<open>while pos < buf.len()\<close> without the bound: the loop equation of the source.
\<close>

lemma while_input_unfold:
  assumes "shrinks 1 p"
  shows "while_input p (u, bs) =
    (if bs = [] then (Inr [], (u, []))
     else st_bind p (\<lambda>x. st_bind (while_input p) (\<lambda>xs. st_return (x # xs))) (u, bs))"
  unfolding while_input_def
  by (subst st_many_unfold[OF steps_more_input[OF assms]])
    (auto simp: more_input_def st_bind_def split: sum.split prod.split)

text \<open>\<open>reads_all p bs x\<close>: on exactly \<open>bs\<close> the loop consumes everything and returns \<open>x\<close>.\<close>

definition reads_all :: "('u \<times> u8 list, 'a) st \<Rightarrow> u8 list \<Rightarrow> 'a \<Rightarrow> bool" where
  "reads_all p bs x \<longleftrightarrow> (\<forall>u. \<exists>u'. p (u, bs) = (Inr x, (u', [])))"

lemma reads_nonempty: "shrinks 1 p \<Longrightarrow> reads p bs x \<Longrightarrow> bs \<noteq> []"
  by (fastforce simp: shrinks_def reads_def)

lemma reads_all_while_Cons:
  assumes "shrinks 1 p" and r: "reads p bs x" and IH: "reads_all (while_input p) cs xs"
  shows "reads_all (while_input p) (bs @ cs) (x # xs)"
  unfolding reads_all_def
proof
  fix u
  have ne: "bs \<noteq> []" by (rule reads_nonempty[OF assms(1) r])
  obtain u1 where 1: "p (u, bs @ cs) = (Inr x, (u1, cs))" using r by (rule readsE)
  obtain u2 where "while_input p (u1, cs) = (Inr xs, (u2, []))"
    using IH by (auto simp: reads_all_def)
  with 1 ne show "\<exists>u'. while_input p (u, bs @ cs) = (Inr (x # xs), (u', []))"
    by (subst while_input_unfold[OF assms(1)]) (simp add: st_bind_def)
qed

lemma reads_all_while:
  assumes "shrinks 1 p" and "\<And>x. x \<in> set xs \<Longrightarrow> reads p (enc x) x"
  shows "reads_all (while_input p) (concat (map enc xs)) xs"
  using assms(2)
proof (induction xs)
  case Nil
  show ?case by (simp add: reads_all_def while_input_unfold[OF assms(1)])
next
  case (Cons x xs)
  then show ?case by (simp add: reads_all_while_Cons[OF assms(1)])
qed

lemma safe_lift: "r \<noteq> Inl Panic \<Longrightarrow> r \<noteq> Inl OutOfFuel \<Longrightarrow> safe (st_lift r)"
  by (simp add: safe_def st_lift_def)

lemma reads_all_bind:
  assumes "reads p bs x" and "reads_all (f x) cs y"
  shows "reads_all (st_bind p f) (bs @ cs) y"
  unfolding reads_all_def
proof
  fix u
  obtain u1 where 1: "p (u, bs @ cs) = (Inr x, (u1, cs))" using assms(1) by (rule readsE)
  obtain u2 where 2: "f x (u1, cs) = (Inr y, (u2, []))" using assms(2) unfolding reads_all_def by blast
  show "\<exists>u'. st_bind p f (u, bs @ cs) = (Inr y, (u', []))" by (simp add: st_bind_def 1 2)
qed

lemma reads_all_return: "reads_all p bs x \<Longrightarrow> reads_all (st_bind p (\<lambda>x. st_return (g x))) bs (g x)"
  unfolding reads_all_def st_bind_def st_return_def by (metis (mono_tags, lifting) old.prod.case sum.case(2))

section \<open>Readers with a state of their own\<close>

text \<open>A reader whose user state starts at \<open>t\<close> and is dropped at the end.\<close>

definition with_fresh :: "'t \<Rightarrow> ('t \<times> u8 list, 'v) st \<Rightarrow> ('u \<times> u8 list, 'v) st" where
  "with_fresh t p = (\<lambda>(u, bs). case p (t, bs) of (r, (_, bs')) \<Rightarrow> (r, (u, bs')))"

lemma with_fresh_shrinks: "shrinks k p \<Longrightarrow> shrinks k (with_fresh t p)"
  by (fastforce simp: shrinks_def with_fresh_def split: prod.splits)

lemma with_fresh_safe: "safe p \<Longrightarrow> safe (with_fresh t p)"
  by (auto simp: safe_def with_fresh_def split: prod.splits) (metis fst_conv)+

lemma with_fresh_reads: "reads p bs x \<Longrightarrow> reads (with_fresh t p) bs x"
proof (rule readsI)
  assume r: "reads p bs x"
  fix u rest
  obtain u1 where "p (t, bs @ rest) = (Inr x, (u1, rest))" using r by (rule readsE)
  then show "\<exists>u'. with_fresh t p (u, bs @ rest) = (Inr x, (u', rest))" by (simp add: with_fresh_def)
qed

section \<open>What a reader can return\<close>

text \<open>
  What a reader can return, whatever the input: \<open>yields p Q\<close> (every success satisfies \<open>Q\<close>)
  and \<open>fails_with e p\<close> (every failure is the error \<open>e\<close>).
\<close>

named_theorems yields_intro \<open>what the results of a computation satisfy\<close>
named_theorems fails_intro \<open>the error a computation fails with\<close>

definition yields :: "('s, 'a) st \<Rightarrow> ('a \<Rightarrow> bool) \<Rightarrow> bool" where
  "yields p Q \<longleftrightarrow> (\<forall>s x s'. p s = (Inr x, s') \<longrightarrow> Q x)"

definition fails_with :: "rtmp_error \<Rightarrow> ('s, 'a) st \<Rightarrow> bool" where
  "fails_with e p \<longleftrightarrow> (\<forall>s e' s'. p s = (Inl e', s') \<longrightarrow> e' = e)"

lemma yieldsD: "yields p Q \<Longrightarrow> p s = (Inr x, s') \<Longrightarrow> Q x"
  by (auto simp: yields_def)

lemma yields_fst: "yields p Q \<Longrightarrow> fst (p s) = Inr x \<Longrightarrow> Q x"
  by (metis yieldsD prod.collapse)

lemma yields_mono: "yields p R \<Longrightarrow> (\<And>x. R x \<Longrightarrow> Q x) \<Longrightarrow> yields p Q"
  by (auto simp: yields_def)

lemma yields_any: "(\<And>x. Q x) \<Longrightarrow> yields p Q"
  by (auto simp: yields_def)

lemma yields_bind: "yields p R \<Longrightarrow> (\<And>x. R x \<Longrightarrow> yields (f x) Q) \<Longrightarrow> yields (st_bind p f) Q"
  by (fastforce simp: yields_def st_bind_eq_Inr)

lemma yields_bind_any [yields_intro]: "(\<And>x. yields (f x) Q) \<Longrightarrow> yields (st_bind p f) Q"
  by (fastforce simp: yields_def st_bind_eq_Inr)

lemma yields_return [yields_intro]: "Q x \<Longrightarrow> yields (st_return x) Q"
  and yields_throw [yields_intro]: "yields (st_throw e) Q"
  and yields_take: "yields (cur_take e n) (\<lambda>bs. length bs = n)"
  and yields_lift [yields_intro]: "(\<And>x. r = Inr x \<Longrightarrow> Q x) \<Longrightarrow> yields (st_lift r) Q"
  by (auto simp: yields_def st_run cur_take_def st_lift_def split: if_splits)

lemma yields_if [yields_intro]:
  "(b \<Longrightarrow> yields p Q) \<Longrightarrow> (\<not> b \<Longrightarrow> yields q Q) \<Longrightarrow> yields (if b then p else q) Q"
  by simp

lemma yields_bind_take [yields_intro]:
  "(\<And>bs. length bs = n \<Longrightarrow> yields (f bs) Q) \<Longrightarrow> yields (st_bind (cur_take e n) f) Q"
  by (rule yields_bind[OF yields_take])

lemma yields_fresh: "yields p Q \<Longrightarrow> yields (with_fresh t p) Q"
  by (fastforce simp: yields_def with_fresh_def split: prod.splits)

lemma yields_many_n: "yields p (\<lambda>r. case r of None \<Rightarrow> True | Some x \<Rightarrow> Q x) \<Longrightarrow> yields (st_many_n n p) (list_all Q)"
proof (induction n)
  case (Suc n)
  show ?case unfolding st_many_n.simps
    by (rule yields_bind[OF Suc.prems]) (use Suc.IH[OF Suc.prems] in
      \<open>auto split: option.split intro!: yields_return yields_bind[OF Suc.IH[OF Suc.prems]]\<close>)
qed (simp add: yields_throw)

lemma yields_while [yields_intro]: "yields p Q \<Longrightarrow> yields (while_input p) (list_all Q)"
  unfolding while_input_def st_many_def yields_def
  by (auto simp del: st_many_n.simps intro!: yieldsD[OF yields_many_n]
      simp: yields_def more_input_def st_bind_eq_Inr st_return_run split: if_splits option.split)

lemma failsI: "(\<And>s e' s'. p s = (Inl e', s') \<Longrightarrow> e' = e) \<Longrightarrow> fails_with e p"
  by (simp add: fails_with_def)

lemma failsD: "fails_with e p \<Longrightarrow> p s = (Inl e', s') \<Longrightarrow> e' = e"
  unfolding fails_with_def by blast

lemma fails_fst: "fails_with e p \<Longrightarrow> fst (p s) = Inl e' \<Longrightarrow> e' = e"
  unfolding fails_with_def by (metis prod.collapse)

lemma fails_safe: "fails_with e p \<Longrightarrow> e \<noteq> Panic \<Longrightarrow> e \<noteq> OutOfFuel \<Longrightarrow> safe p"
  unfolding safe_def by (metis fails_fst)

lemma fails_bind [fails_intro]:
  "fails_with e p \<Longrightarrow> (\<And>x. fails_with e (f x)) \<Longrightarrow> fails_with e (st_bind p f)"
  by (fastforce simp: fails_with_def st_bind_def split: prod.splits sum.splits)

lemma fails_prim [fails_intro]:
  "fails_with e (st_return x)" "fails_with e (st_throw e)" "fails_with e st_get_user"
  "fails_with e (st_put_user u)" "fails_with e st_rest" "fails_with e (cur_u8 e)" "fails_with e (cur_take e n)"
  by (auto simp: fails_with_def st_run cur_u8_def cur_take_def split: list.splits if_splits)

lemma fails_be [fails_intro]: "fails_with e (cur_be e n)"
  unfolding cur_be_def by (intro fails_intro)

lemma fails_if [fails_intro]:
  "(b \<Longrightarrow> fails_with e p) \<Longrightarrow> (\<not> b \<Longrightarrow> fails_with e q) \<Longrightarrow> fails_with e (if b then p else q)"
  by simp

lemma fails_lift: "(\<And>e'. r = Inl e' \<Longrightarrow> e' = e) \<Longrightarrow> fails_with e (st_lift r)"
  by (auto simp: fails_with_def st_lift_def)

lemma fails_fresh [fails_intro]: "fails_with e p \<Longrightarrow> fails_with e (with_fresh t p)"
  by (fastforce simp: fails_with_def with_fresh_def split: prod.splits)

text \<open>A loop whose body consumes input fails only with the error of its body.\<close>

lemma fails_until_n:
  assumes "shrinks 1 p" and "fails_with e p" and "length (snd s) < n" and "st_until_n n p s = (Inl e', s')"
  shows "e' = e"
  using assms(3,4)
proof (induction n arbitrary: s)
  case (Suc n)
  obtain r s1 where ps: "p s = (r, s1)" by (rule prod.exhaust)
  show ?case
  proof (cases "r = Inr None")
    case True
    then have "length (snd s1) < length (snd s)"
      using assms(1) ps by (cases s; cases s1) (auto dest: shrinksD)
    then show ?thesis using Suc.IH[of s1] Suc.prems True ps by (simp add: st_bind_def)
  next
    case False
    then show ?thesis using Suc.prems(2) failsD[OF assms(2)] ps
      by (auto simp: st_bind_def st_return_run split: sum.splits option.splits)
  qed
qed simp

lemma fails_until: "shrinks 1 p \<Longrightarrow> fails_with e p \<Longrightarrow> fails_with e (st_until p)"
proof (rule failsI)
  fix s e' s'
  assume p: "shrinks 1 p" "fails_with e p" and "st_until p s = (Inl e', s')"
  then have "st_until_n (Suc (length (snd s))) p s = (Inl e', s')" by (simp only: st_until_def)
  from fails_until_n[OF p _ this] show "e' = e" by simp
qed

lemma fails_many_n:
  assumes "steps p" and "fails_with e p" and "length (snd s) < n" and "st_many_n n p s = (Inl e', s')"
  shows "e' = e"
  using assms(3,4)
proof (induction n arbitrary: s s')
  case (Suc n)
  obtain r s1 where ps: "p s = (r, s1)" by (rule prod.exhaust)
  show ?case
  proof (cases "\<exists>x. r = Inr (Some x)")
    case True
    then obtain x where x: "r = Inr (Some x)" by blast
    then have "length (snd s1) < n"
      using assms(1) ps Suc.prems(1) by (cases s; cases s1) (fastforce simp: steps_def)
    then show ?thesis using Suc.IH[of s1] Suc.prems(2) ps x
      by (auto simp: st_bind_def st_return_run split: sum.splits prod.splits)
  next
    case False
    then show ?thesis using Suc.prems(2) failsD[OF assms(2)] ps
      by (auto simp: st_bind_def st_return_run split: sum.splits option.splits)
  qed
qed simp

lemma fails_while: "shrinks 1 p \<Longrightarrow> fails_with e p \<Longrightarrow> fails_with e (while_input p)"
proof -
  assume p: "shrinks 1 p" "fails_with e p"
  have more: "fails_with e (more_input p)"
    using p(2) by (fastforce simp: fails_with_def more_input_def st_bind_def st_return_run split: prod.splits sum.splits)
  show ?thesis
  proof (rule failsI)
    fix s e' s'
    assume "while_input p s = (Inl e', s')"
    then have "st_many_n (Suc (length (snd s))) (more_input p) s = (Inl e', s')"
      by (simp only: while_input_def st_many_def)
    from fails_many_n[OF steps_more_input[OF p(1)] more _ this] show "e' = e" by simp
  qed
qed

section \<open>Interfaces\<close>

text \<open>
  What the loops over a value parser rely on: a success consumes a byte, and the parser
  neither panics nor exhausts a bound of its own.
\<close>

locale item_parser =
  fixes p :: "('u \<times> u8 list, 'a) st"
  assumes item_shrinks: "shrinks 1 p"
    and item_safe: "safe p"
begin

lemma while_unfold:
  "while_input p (u, bs) =
    (if bs = [] then (Inr [], (u, []))
     else st_bind p (\<lambda>x. st_bind (while_input p) (\<lambda>xs. st_return (x # xs))) (u, bs))"
  by (rule while_input_unfold[OF item_shrinks])

lemma while_safe: "safe (while_input p)"
  unfolding while_input_def
  by (rule safe_many[OF steps_more_input[OF item_shrinks] safe_more_input[OF item_safe]])

lemma item_shrinks0: "shrinks 0 p"
  by (rule shrinks_mono[OF item_shrinks]) simp

lemma while_shrinks: "shrinks 0 (while_input p)"
  unfolding while_input_def by (intro shrink_intro item_shrinks0)

end

text \<open>
  The contract between a value codec (AMF0, AMF3) and the layers that embed its values
  (script data, shared-object events, command frames): the decoder reads back what the
  encoder wrote, for the values that \<open>fits\<close> admits, and is an \<open>item_parser\<close>.
\<close>

locale value_codec = item_parser dec
  for dec :: "('u \<times> u8 list, 'v) st" +
  fixes enc :: "'v \<Rightarrow> u8 list" and fits :: "'v \<Rightarrow> bool"
  assumes codec_reads: "fits v \<Longrightarrow> reads dec (enc v) v"
begin

lemma enc_nonempty: "fits v \<Longrightarrow> enc v \<noteq> []"
  by (rule reads_nonempty[OF item_shrinks codec_reads])

lemma all_reads: "\<forall>v \<in> set vs. fits v \<Longrightarrow> reads_all (while_input dec) (concat (map enc vs)) vs"
  by (rule reads_all_while[OF item_shrinks codec_reads]) simp

lemma times_reads: "\<forall>v \<in> set vs. fits v \<Longrightarrow> reads (st_times (length vs) dec) (concat (map enc vs)) vs"
  by (rule reads_times) (simp add: codec_reads)

lemma enc_inj: "fits v \<Longrightarrow> fits w \<Longrightarrow> enc v = enc w \<Longrightarrow> v = w"
  by (rule reads_functional[OF codec_reads]) (auto dest: codec_reads)

end

end
