(* ===== verification/Chunk.thy ===== *)
theory Chunk
  imports Cursor
begin

text \<open>
  \<open>chunk.rs\<close>: the RTMP chunk stream.

  \<^item> \<open>message\<close> is \<open>Message\<close>, with the classification of its stream id and the check of
    the protocol-control invariants.
  \<^item> \<open>chunk_reader\<close> is \<open>ChunkReader\<close> less its stream; the bytes still on the wire are the
    second half of the state.  \<open>in_state\<close> is the per-csid \<open>InState\<close>.  \<open>read_chunk\<close>
    is one round of the loop of \<open>read_message\<close>.
  \<^item> \<open>chunk_writer\<close> is \<open>ChunkWriter\<close> over a \<open>Vec<u8>\<close> sink (\<open>cw_stream\<close>, every
    \<open>write_all\<close> succeeds).  \<open>choose_head\<close> is the header decision of
    \<open>write_message\<close>, \<open>write_chunks_n\<close> its loop.

  The lemmas: the reader never panics and stops (\<open>reader_inv\<close>), its sequence counter counts
  the bytes taken off the wire, and every error branch.  The round trip with the writer is
  in \<open>Chunk_Link\<close>.
\<close>

section \<open>Messages\<close>

record message =
  msg_type_id :: u8
  msg_stream_id :: u32
  msg_timestamp :: u32
  msg_payload :: "u8 list"

datatype message_stream_kind = Control | NetStream u32 | Reserved u32

definition stream_kind :: "message \<Rightarrow> message_stream_kind" where
  "stream_kind m =
    (if msg_stream_id m = 0 then Control
     else if msg_stream_id m AND 0xFF000000 = 0 then NetStream (msg_stream_id m)
     else Reserved (msg_stream_id m))"

definition is_control_stream :: "message \<Rightarrow> bool" where
  "is_control_stream m \<longleftrightarrow> (case stream_kind m of Control \<Rightarrow> True | _ \<Rightarrow> False)"

definition validate_protocol_control_invariants :: "message \<Rightarrow> unit result" where
  "validate_protocol_control_invariants m =
    (case stream_kind m of
       Reserved _ \<Rightarrow> Inl ProtocolViolation
     | _ \<Rightarrow>
        if 1 \<le> msg_type_id m \<and> msg_type_id m \<le> 6 \<and> msg_stream_id m \<noteq> 0
        then Inl ProtocolViolation else Inr ())"

section \<open>The reader\<close>

definition DEFAULT_CHUNK_SIZE :: nat where "DEFAULT_CHUNK_SIZE = 128"
definition MAX_CHUNK_SIZE :: nat where "MAX_CHUNK_SIZE = 0xFFFFFF"

definition clamp_chunk_size :: "nat \<Rightarrow> nat" where
  "clamp_chunk_size n = (if n < 1 then 1 else if MAX_CHUNK_SIZE < n then MAX_CHUNK_SIZE else n)"

record in_state =
  is_type_id :: u8
  is_stream_id :: u32
  is_length :: u32
  is_timestamp :: u32
  is_last_delta :: u32
  is_had_ext_ts :: bool
  is_partial :: "u8 list"

definition in_default :: in_state where
  "in_default = \<lparr>is_type_id = 0, is_stream_id = 0, is_length = 0, is_timestamp = 0,
     is_last_delta = 0, is_had_ext_ts = False, is_partial = []\<rparr>"

record chunk_reader =
  cr_chunk_size :: nat
  cr_states :: "u32 \<rightharpoonup> in_state"
  cr_received_bytes :: u32
  cr_window_ack_size :: u32
  cr_last_ack_bytes :: u32

definition reader_new :: chunk_reader where
  "reader_new = \<lparr>cr_chunk_size = DEFAULT_CHUNK_SIZE, cr_states = Map.empty,
     cr_received_bytes = 0, cr_window_ack_size = 0, cr_last_ack_bytes = 0\<rparr>"

type_synonym 'a reading = "(chunk_reader \<times> u8 list, 'a) st"

definition wire_eof :: rtmp_error where "wire_eof = Io IoUnexpectedEof"

definition charge :: "nat \<Rightarrow> chunk_reader \<Rightarrow> chunk_reader" where
  "charge n r = r\<lparr>cr_received_bytes := cr_received_bytes r + word_of_nat n\<rparr>"

definition read_exact_counted :: "nat \<Rightarrow> u8 list reading" where
  "read_exact_counted n =
     st_bind (stream_exact wire_eof n) (\<lambda>buf.
     st_bind st_get_user (\<lambda>r.
     st_bind (st_put_user (charge (length buf) r)) (\<lambda>_.
     st_return buf)))"

definition set_window_ack_size :: "u32 \<Rightarrow> chunk_reader \<Rightarrow> chunk_reader" where
  "set_window_ack_size n r =
     r\<lparr>cr_window_ack_size := n, cr_last_ack_bytes := cr_received_bytes r\<rparr>"

definition ack_due :: "chunk_reader \<Rightarrow> u32 option \<times> chunk_reader" where
  "ack_due r =
    (if cr_window_ack_size r = 0 then (None, r)
     else
       let since = cr_received_bytes r - cr_last_ack_bytes r in
       if cr_window_ack_size r \<le> since
       then (Some (cr_received_bytes r), r\<lparr>cr_last_ack_bytes := cr_received_bytes r\<rparr>)
       else (None, r))"

definition reader_set_chunk_size :: "nat \<Rightarrow> chunk_reader \<Rightarrow> chunk_reader" where
  "reader_set_chunk_size n r = r\<lparr>cr_chunk_size := clamp_chunk_size n\<rparr>"

definition abort_partial :: "u32 \<Rightarrow> chunk_reader \<Rightarrow> bool \<times> chunk_reader" where
  "abort_partial csid r =
    (case cr_states r csid of
       Some s \<Rightarrow>
         if is_partial s \<noteq> []
         then (True, r\<lparr>cr_states := (cr_states r)(csid \<mapsto> s\<lparr>is_partial := []\<rparr>)\<rparr>)
         else (False, r)
     | None \<Rightarrow> (False, r))"

definition read_u24_be :: "u32 reading" where
  "read_u24_be = st_bind (read_exact_counted 3) (\<lambda>b. st_return (of_u24 (b ! 0) (b ! 1) (b ! 2)))"

definition read_u32_le_stream_id :: "u32 reading" where
  "read_u32_le_stream_id = st_bind (read_exact_counted 4) (\<lambda>b. st_return (of_le b))"

definition read_u32_be :: "u32 reading" where
  "read_u32_be = st_bind (read_exact_counted 4) (\<lambda>b. st_return (of_be b))"

definition read_basic_header :: "(u32 \<times> u8) reading" where
  "read_basic_header =
     st_bind (read_exact_counted 1) (\<lambda>b.
       let fmt = drop_bit 6 (b ! 0) AND 0x03; low = b ! 0 AND 0x3F in
       if low = 0 then
         st_bind (read_exact_counted 1) (\<lambda>b1. st_return (ucast (b1 ! 0) + 64, fmt))
       else if low = 1 then
         st_bind (read_exact_counted 2) (\<lambda>b2.
           st_return (ucast (b2 ! 0) + ucast (b2 ! 1) * 256 + 64, fmt))
       else st_return (ucast low, fmt))"

definition get_state :: "u32 \<Rightarrow> in_state reading" where
  "get_state csid = st_bind st_get_user (\<lambda>r.
     case cr_states r csid of None \<Rightarrow> st_throw InvalidChunk | Some s \<Rightarrow> st_return s)"

definition put_state :: "u32 \<Rightarrow> in_state \<Rightarrow> unit reading" where
  "put_state csid s = st_bind st_get_user (\<lambda>r.
     st_put_user (r\<lparr>cr_states := (cr_states r)(csid \<mapsto> s)\<rparr>))"

definition read_ext_ts :: "u32 \<Rightarrow> u32 reading" where
  "read_ext_ts ts = (if ts = 0xFFFFFF then read_u32_be else st_return ts)"

definition read_fmt0_header :: "u32 \<Rightarrow> unit reading" where
  "read_fmt0_header csid =
     st_bind read_u24_be (\<lambda>ts0.
     st_bind read_u24_be (\<lambda>len.
     st_bind (read_exact_counted 1) (\<lambda>t.
     st_bind read_u32_le_stream_id (\<lambda>stream_id.
     st_bind (read_ext_ts ts0) (\<lambda>ts.
     st_bind st_get_user (\<lambda>r.
       put_state csid
         ((case cr_states r csid of None \<Rightarrow> in_default | Some s \<Rightarrow> s)
           \<lparr>is_partial := [], is_type_id := t ! 0, is_stream_id := stream_id, is_length := len,
            is_timestamp := ts, is_last_delta := ts, is_had_ext_ts := (ts0 = 0xFFFFFF)\<rparr>)))))))"

definition read_fmt1_header :: "u32 \<Rightarrow> unit reading" where
  "read_fmt1_header csid =
     st_bind read_u24_be (\<lambda>delta0.
     st_bind read_u24_be (\<lambda>len.
     st_bind (read_exact_counted 1) (\<lambda>t.
     st_bind (read_ext_ts delta0) (\<lambda>delta.
     st_bind (get_state csid) (\<lambda>s.
       put_state csid
         (s\<lparr>is_type_id := t ! 0, is_length := len, is_timestamp := is_timestamp s + delta,
            is_last_delta := delta, is_had_ext_ts := (delta0 = 0xFFFFFF), is_partial := []\<rparr>))))))"

definition read_fmt2_header :: "u32 \<Rightarrow> unit reading" where
  "read_fmt2_header csid =
     st_bind read_u24_be (\<lambda>delta0.
     st_bind (read_ext_ts delta0) (\<lambda>delta.
     st_bind (get_state csid) (\<lambda>s.
       put_state csid
         (s\<lparr>is_timestamp := is_timestamp s + delta, is_last_delta := delta,
            is_had_ext_ts := (delta0 = 0xFFFFFF), is_partial := []\<rparr>))))"

definition read_fmt3_header :: "u32 \<Rightarrow> unit reading" where
  "read_fmt3_header csid =
     st_bind (get_state csid) (\<lambda>s.
     st_bind (if is_had_ext_ts s then read_u32_be else st_return 0) (\<lambda>dup.
       if is_partial s = []
       then put_state csid (s\<lparr>is_timestamp := is_timestamp s + is_last_delta s\<rparr>)
       else st_return ()))"

text \<open>
  One round of the loop in \<open>read_message\<close>.  The subtraction
  \<open>state.msg_length as usize - state.partial.len()\<close> is where the code could panic (an
  underflow also in release builds is a wrap to a huge allocation).
\<close>

definition read_chunk_header :: "u32 \<Rightarrow> u8 \<Rightarrow> unit reading" where
  "read_chunk_header csid fmt =
     (if fmt = 0 then read_fmt0_header csid
      else if fmt = 1 then read_fmt1_header csid
      else if fmt = 2 then read_fmt2_header csid
      else if fmt = 3 then read_fmt3_header csid
      else st_throw Panic)"

definition chunk_take :: "in_state \<Rightarrow> nat \<Rightarrow> nat reading" where
  "chunk_take s chunk_size =
     (if unat (is_length s) < length (is_partial s) then st_throw Panic
      else st_return (min (unat (is_length s) - length (is_partial s)) chunk_size))"

definition read_chunk_body :: "u32 \<Rightarrow> message option reading" where
  "read_chunk_body csid =
     st_bind (get_state csid) (\<lambda>s0.
     st_bind st_get_user (\<lambda>r.
     st_bind (chunk_take s0 (cr_chunk_size r)) (\<lambda>n.
     st_bind (read_exact_counted n) (\<lambda>buf.
     st_bind (get_state csid) (\<lambda>s.
       let partial = is_partial s @ buf in
       if is_length s \<le> word_of_nat (length partial)
       then st_bind (put_state csid (s\<lparr>is_partial := []\<rparr>)) (\<lambda>_.
            st_return (Some \<lparr>msg_type_id = is_type_id s, msg_stream_id = is_stream_id s,
              msg_timestamp = is_timestamp s, msg_payload = partial\<rparr>))
       else st_bind (put_state csid (s\<lparr>is_partial := partial\<rparr>)) (\<lambda>_. st_return None))))))"

definition read_chunk :: "message option reading" where
  "read_chunk =
     st_bind read_basic_header (\<lambda>(csid, fmt).
     st_bind (read_chunk_header csid fmt) (\<lambda>_.
     read_chunk_body csid))"

definition read_message :: "message reading" where
  "read_message = st_until read_chunk"

section \<open>The writer\<close>

record out_state =
  os_type_id :: u8
  os_stream_id :: u32
  os_length :: u32
  os_timestamp :: u32
  os_last_delta :: u32
  os_had_ext_ts :: bool
  os_primed :: bool

definition out_default :: out_state where
  "out_default = \<lparr>os_type_id = 0, os_stream_id = 0, os_length = 0, os_timestamp = 0,
     os_last_delta = 0, os_had_ext_ts = False, os_primed = False\<rparr>"

record chunk_writer =
  cw_stream :: "u8 list"
  cw_chunk_size :: nat
  cw_states :: "u32 \<rightharpoonup> out_state"

definition writer_new :: "u8 list \<Rightarrow> chunk_writer" where
  "writer_new sink = \<lparr>cw_stream = sink, cw_chunk_size = DEFAULT_CHUNK_SIZE, cw_states = Map.empty\<rparr>"

definition writer_set_chunk_size :: "nat \<Rightarrow> chunk_writer \<Rightarrow> chunk_writer" where
  "writer_set_chunk_size n w = w\<lparr>cw_chunk_size := clamp_chunk_size n\<rparr>"

definition emit :: "u8 list \<Rightarrow> (chunk_writer, unit) st" where
  "emit bs = (\<lambda>w. (Inr (), w\<lparr>cw_stream := cw_stream w @ bs\<rparr>))"

definition write_basic_header :: "u8 \<Rightarrow> u32 \<Rightarrow> (chunk_writer, unit) st" where
  "write_basic_header fmt csid =
    (if 2 \<le> csid \<and> csid \<le> 63 then emit [push_bit 6 fmt OR ucast csid]
     else if 64 \<le> csid \<and> csid \<le> 319 then emit [push_bit 6 fmt, ucast (csid - 64)]
     else if 320 \<le> csid \<and> csid \<le> 65599 then
       (let v = (ucast (csid - 64) :: u16) in
        emit [push_bit 6 fmt OR 1, ucast (v AND 0xFF), ucast (drop_bit 8 v)])
     else st_throw ProtocolViolation)"

definition write_u24_be :: "u32 \<Rightarrow> (chunk_writer, unit) st" where
  "write_u24_be v = emit (u24_be (v AND 0x00FFFFFF))"

text \<open>The local variables of \<open>write_message\<close> that the chunk loop reads.\<close>

record chunk_head =
  ch_fmt :: u8
  ch_delta :: u32
  ch_ext_ts_needed :: bool
  ch_fmt3_ext :: bool
  ch_ext_value :: u32

definition choose_fmt :: "out_state \<Rightarrow> message \<Rightarrow> u8" where
  "choose_fmt prev m =
    (if \<not> os_primed prev \<or> os_stream_id prev \<noteq> msg_stream_id m
        \<or> msg_timestamp m < os_timestamp prev then 0
     else if os_type_id prev \<noteq> msg_type_id m
        \<or> os_length prev \<noteq> word_of_nat (length (msg_payload m)) then 1
     else if msg_timestamp m - os_timestamp prev = os_last_delta prev then 3
     else 2)"

definition choose_head :: "out_state \<Rightarrow> message \<Rightarrow> chunk_head" where
  "choose_head prev m =
    (let delta = msg_timestamp m - os_timestamp prev;
         fmt = choose_fmt prev m;
         ext_ts_needed = ((fmt = 0 \<and> 0xFFFFFF \<le> msg_timestamp m)
           \<or> ((fmt = 1 \<or> fmt = 2) \<and> 0xFFFFFF \<le> delta))
     in \<lparr>ch_fmt = fmt, ch_delta = delta, ch_ext_ts_needed = ext_ts_needed,
         ch_fmt3_ext = (if fmt = 3 then os_had_ext_ts prev else ext_ts_needed),
         ch_ext_value = (if fmt = 0 then msg_timestamp m
           else if fmt = 1 \<or> fmt = 2 then delta else os_last_delta prev)\<rparr>)"

definition emit_if :: "bool \<Rightarrow> u8 list \<Rightarrow> (chunk_writer, unit) st" where
  "emit_if b bs = (if b then emit bs else st_return ())"

definition write_chunk_header :: "u32 \<Rightarrow> message \<Rightarrow> chunk_head \<Rightarrow> u8 \<Rightarrow> (chunk_writer, unit) st" where
  "write_chunk_header csid m h fmt =
     st_bind (write_basic_header fmt csid) (\<lambda>_.
     if fmt = 0 then
       st_bind (write_u24_be (if ch_ext_ts_needed h then 0xFFFFFF else msg_timestamp m)) (\<lambda>_.
       st_bind (write_u24_be (word_of_nat (length (msg_payload m)))) (\<lambda>_.
       st_bind (emit [msg_type_id m]) (\<lambda>_.
       st_bind (emit (u32_le (msg_stream_id m))) (\<lambda>_.
       emit_if (ch_ext_ts_needed h) (u32_be (msg_timestamp m))))))
     else if fmt = 1 then
       st_bind (write_u24_be (if ch_ext_ts_needed h then 0xFFFFFF else ch_delta h)) (\<lambda>_.
       st_bind (write_u24_be (word_of_nat (length (msg_payload m)))) (\<lambda>_.
       st_bind (emit [msg_type_id m]) (\<lambda>_.
       emit_if (ch_ext_ts_needed h) (u32_be (ch_ext_value h)))))
     else if fmt = 2 then
       st_bind (write_u24_be (if ch_ext_ts_needed h then 0xFFFFFF else ch_delta h)) (\<lambda>_.
       emit_if (ch_ext_ts_needed h) (u32_be (ch_ext_value h)))
     else if fmt = 3 then emit_if (ch_fmt3_ext h) (u32_be (ch_ext_value h))
     else st_throw Panic)"

text \<open>
  The \<open>while cursor < payload.len() || !first_chunk_done\<close> loop; \<open>rest\<close> is
  \<open>payload[cursor..]\<close>.  A chunk size of at least one makes the bound
  \<open>payload.len() + 1\<close> sufficient.
\<close>

primrec write_chunks_n ::
    "nat \<Rightarrow> u32 \<Rightarrow> message \<Rightarrow> chunk_head \<Rightarrow> nat \<Rightarrow> bool \<Rightarrow> u8 list \<Rightarrow> (chunk_writer, unit) st" where
  "write_chunks_n 0 csid m h chunk_size first_done rest = st_throw OutOfFuel"
| "write_chunks_n (Suc n) csid m h chunk_size first_done rest =
    (if rest \<noteq> [] \<or> \<not> first_done then
       st_bind (write_chunk_header csid m h (if first_done then 3 else ch_fmt h)) (\<lambda>_.
       st_bind (emit (take chunk_size rest)) (\<lambda>_.
       write_chunks_n n csid m h chunk_size True (drop chunk_size rest)))
     else st_return ())"

definition get_writer :: "(chunk_writer, chunk_writer) st" where
  "get_writer = (\<lambda>w. (Inr w, w))"

definition out_state_of :: "chunk_writer \<Rightarrow> u32 \<Rightarrow> out_state" where
  "out_state_of w csid = (case cw_states w csid of None \<Rightarrow> out_default | Some s \<Rightarrow> s)"

definition set_out_state :: "u32 \<Rightarrow> out_state \<Rightarrow> (chunk_writer, unit) st" where
  "set_out_state csid s = (\<lambda>w. (Inr (), w\<lparr>cw_states := (cw_states w)(csid \<mapsto> s)\<rparr>))"

definition committed :: "out_state \<Rightarrow> message \<Rightarrow> out_state" where
  "committed prev m =
    (let h = choose_head prev m in
     \<lparr>os_type_id = msg_type_id m, os_stream_id = msg_stream_id m,
      os_length = word_of_nat (length (msg_payload m)), os_timestamp = msg_timestamp m,
      os_last_delta = (if ch_fmt h = 0 then msg_timestamp m else ch_delta h),
      os_had_ext_ts = ch_fmt3_ext h, os_primed = True\<rparr>)"

definition write_message :: "u32 \<Rightarrow> message \<Rightarrow> (chunk_writer, unit) st" where
  "write_message csid m =
     st_bind get_writer (\<lambda>w.
     let prev = out_state_of w csid; h = choose_head prev m in
     st_bind (set_out_state csid prev) (\<lambda>_.
     st_bind (write_chunks_n (Suc (Suc (length (msg_payload m)))) csid m h (cw_chunk_size w)
        False (msg_payload m)) (\<lambda>_.
     set_out_state csid (committed prev m))))"


section \<open>How the reader runs\<close>

lemma charge_charge [simp]: "charge m (charge n r) = charge (n + m) r"
  by (simp add: charge_def algebra_simps)

lemma charge_0 [simp]: "charge 0 r = r"
  by (simp add: charge_def)

lemma charge_sel [simp]:
  "cr_chunk_size (charge n r) = cr_chunk_size r" "cr_states (charge n r) = cr_states r"
  "cr_received_bytes (charge n r) = cr_received_bytes r + word_of_nat n"
  "cr_window_ack_size (charge n r) = cr_window_ack_size r"
  "cr_last_ack_bytes (charge n r) = cr_last_ack_bytes r"
  by (simp_all add: charge_def)

lemma charge_upd [simp]:
  "(charge n r)\<lparr>cr_states := st\<rparr> = charge n (r\<lparr>cr_states := st\<rparr>)"
  by (simp add: charge_def)

lemma read_exact_run [st_run]:
  "length bs = n \<Longrightarrow> read_exact_counted n (r, bs @ rest) = (Inr bs, (charge n r, rest))"
  by (simp add: read_exact_counted_def st_bind_def)

lemma read_exact_short [st_run]:
  "length bs < n \<Longrightarrow> read_exact_counted n (r, bs) = (Inl wire_eof, (r, []))"
  by (simp add: read_exact_counted_def st_bind_def)

lemma read_exact_1 [st_run]: "read_exact_counted 1 (r, a # rest) = (Inr [a], (charge 1 r, rest))"
  and read_exact_2 [st_run]:
    "read_exact_counted 2 (r, a # b # rest) = (Inr [a, b], (charge 2 r, rest))"
  and read_exact_Suc_0 [st_run]:
    "read_exact_counted (Suc 0) (r, a # rest) = (Inr [a], (charge (Suc 0) r, rest))"
  using read_exact_run[of "[a]" 1 r rest] read_exact_run[of "[a, b]" 2 r rest] by simp_all

lemma read_u24_run [st_run]: "read_u24_be (r, u24_be v @ rest) = (Inr (take_bit 24 v), (charge 3 r, rest))"
  by (simp add: read_u24_be_def st_bind_def read_exact_run) (simp add: st_run u24_be_def)

lemma read_u32_le_run [st_run]:
  "read_u32_le_stream_id (r, u32_le v @ rest) = (Inr v, (charge 4 r, rest))"
  by (simp add: read_u32_le_stream_id_def st_bind_def read_exact_run)

lemma read_u32_be_run [st_run]: "read_u32_be (r, u32_be v @ rest) = (Inr v, (charge 4 r, rest))"
  by (simp add: read_u32_be_def st_bind_def read_exact_run)

lemma get_state_run [st_run]:
  "cr_states r csid = Some s \<Longrightarrow> get_state csid (r, bs) = (Inr s, (r, bs))"
  "cr_states r csid = None \<Longrightarrow> get_state csid (r, bs) = (Inl InvalidChunk, (r, bs))"
  by (simp_all add: get_state_def st_bind_def)

lemma put_state_run [st_run]:
  "put_state csid s (r, bs) = (Inr (), (r\<lparr>cr_states := (cr_states r)(csid \<mapsto> s)\<rparr>, bs))"
  by (simp add: put_state_def st_bind_def)

section \<open>The reader consumes and counts\<close>

lemma shrinks_exact: "shrinks n (read_exact_counted n)"
  unfolding read_exact_counted_def
  by (intro shrinks_bind_first[OF shrinks_stream] shrink_intro)

lemma shrinks_exact0 [shrink_intro]: "shrinks 0 (read_exact_counted n)"
  by (rule shrinks_mono[OF shrinks_exact]) simp

lemma shrinks_get_state [shrink_intro]: "shrinks 0 (get_state csid)"
  unfolding get_state_def by (intro shrink_intro) (auto intro: shrink_intro split: option.split)

lemma shrinks_put_state [shrink_intro]: "shrinks 0 (put_state csid s)"
  unfolding put_state_def by (intro shrink_intro)

lemma shrinks_ints [shrink_intro]:
  "shrinks 0 read_u24_be" "shrinks 0 read_u32_be" "shrinks 0 read_u32_le_stream_id"
  "shrinks 0 (read_ext_ts ts)"
  unfolding read_u24_be_def read_u32_be_def read_u32_le_stream_id_def read_ext_ts_def
  by (intro shrink_intro)+

lemma shrinks_basic_header: "shrinks 1 read_basic_header"
  unfolding read_basic_header_def Let_def by (rule shrinks_bind_first[OF shrinks_exact]) (intro shrink_intro)

lemma shrinks_chunk_header [shrink_intro]: "shrinks 0 (read_chunk_header csid fmt)"
  unfolding read_chunk_header_def read_fmt0_header_def read_fmt1_header_def read_fmt2_header_def
    read_fmt3_header_def
  by (intro shrink_intro)

lemma shrinks_chunk_body [shrink_intro]: "shrinks 0 (read_chunk_body csid)"
  unfolding read_chunk_body_def chunk_take_def Let_def by (intro shrink_intro)

lemma shrinks_read_chunk: "shrinks 1 read_chunk"
  unfolding read_chunk_def
  by (rule shrinks_bind_first[OF shrinks_basic_header]) (auto intro!: shrink_intro)

text \<open>The loop equation of \<open>read_message\<close>, without the bound.\<close>

lemma read_message_unfold:
  "read_message = st_bind read_chunk (\<lambda>r. case r of None \<Rightarrow> read_message | Some m \<Rightarrow> st_return m)"
  unfolding read_message_def by (rule st_until_unfold[OF shrinks_read_chunk])

section \<open>The reader invariant\<close>

text \<open>
  Between two chunks a half-received message is shorter than its announced length, so the
  subtraction in \<open>read_message\<close> cannot underflow.
\<close>

definition partial_ok :: "in_state \<Rightarrow> bool" where
  "partial_ok s \<longleftrightarrow> is_partial s = [] \<or> length (is_partial s) < unat (is_length s)"

definition reader_inv :: "chunk_reader \<Rightarrow> bool" where
  "reader_inv r \<longleftrightarrow> 1 \<le> cr_chunk_size r \<and> cr_chunk_size r \<le> MAX_CHUNK_SIZE
     \<and> (\<forall>csid s. cr_states r csid = Some s \<longrightarrow> partial_ok s)"

lemma reader_invD: "reader_inv r \<Longrightarrow> cr_states r csid = Some s \<Longrightarrow> partial_ok s"
  by (simp add: reader_inv_def)

lemma reader_inv_charge [simp]: "reader_inv (charge n r) = reader_inv r"
  by (simp add: reader_inv_def)

lemma reader_inv_put:
  "reader_inv r \<Longrightarrow> partial_ok s \<Longrightarrow> reader_inv (r\<lparr>cr_states := (cr_states r)(csid \<mapsto> s)\<rparr>)"
  by (simp add: reader_inv_def)

abbreviation rinv :: "chunk_reader \<times> u8 list \<Rightarrow> bool" where
  "rinv s \<equiv> reader_inv (fst s)"

named_theorems hoare_intro \<open>the reader steps keep the invariant\<close>

lemmas hoare_chunk = hoare_bind hoare_if

lemma hoare_exact [hoare_intro]:
  "hoare rinv (read_exact_counted n) (\<lambda>bs s. length bs = n \<and> rinv s) rinv"
  unfolding read_exact_counted_def hoare_def
  by (auto simp: st_bind_def stream_exact_def wire_eof_def)

lemma hoare_exact': "hoare rinv (read_exact_counted n) (\<lambda>_. rinv) rinv"
  by (rule hoare_weaken[OF hoare_exact]) auto

lemma hoare_ints [hoare_intro]:
  "hoare rinv read_u24_be (\<lambda>_. rinv) rinv" "hoare rinv read_u32_be (\<lambda>_. rinv) rinv"
  "hoare rinv read_u32_le_stream_id (\<lambda>_. rinv) rinv"
  unfolding read_u24_be_def read_u32_be_def read_u32_le_stream_id_def
  by (rule hoare_bind[OF hoare_exact'], rule hoare_return, assumption)+

lemma hoare_ext [hoare_intro]: "hoare rinv (read_ext_ts ts) (\<lambda>_. rinv) rinv"
  unfolding read_ext_ts_def by (auto intro: hoare_intro hoare_return)

lemma hoare_get_state [hoare_intro]:
  "hoare rinv (get_state csid) (\<lambda>s rs. rinv rs \<and> partial_ok s) rinv"
  by (auto simp: hoare_def get_state_def st_bind_def split: option.split dest: reader_invD)

lemma hoare_put_state: "partial_ok s \<Longrightarrow> hoare rinv (put_state csid s) (\<lambda>_. rinv) rinv"
  by (auto simp: hoare_def put_state_run intro: reader_inv_put)


lemma hoare_basic_header [hoare_intro]:
  "hoare rinv read_basic_header (\<lambda>(csid, fmt) rs. rinv rs \<and> fmt \<le> 3) rinv"
proof -
  have fmt: "drop_bit 6 b AND 3 \<le> (3 :: u8)" for b :: u8 by (rule word_and_le1)
  show ?thesis
    unfolding read_basic_header_def Let_def
    by (intro hoare_bind[OF hoare_exact'] hoare_if hoare_return) (simp_all add: fmt)
qed

lemma hoare_get': "hoare rinv st_get_user (\<lambda>_. rinv) rinv"
  by (rule hoare_get) simp

lemma hoare_fmt0: "hoare rinv (read_fmt0_header csid) (\<lambda>_. rinv) rinv"
  unfolding read_fmt0_header_def
  by (rule hoare_bind[OF hoare_exact'] hoare_bind[OF hoare_ints(1)] hoare_bind[OF hoare_ints(3)]
      hoare_bind[OF hoare_ext] hoare_bind[OF hoare_get'] hoare_put_state | simp add: partial_ok_def)+

lemma hoare_get_state': "hoare rinv (get_state csid) (\<lambda>s. rinv) rinv"
  by (rule hoare_weaken[OF hoare_get_state]) auto

lemma hoare_fmt1: "hoare rinv (read_fmt1_header csid) (\<lambda>_. rinv) rinv"
  unfolding read_fmt1_header_def
  by (rule hoare_bind[OF hoare_exact'] hoare_bind[OF hoare_ints(1)]
      hoare_bind[OF hoare_ext] hoare_bind[OF hoare_get_state'] hoare_put_state
      | simp add: partial_ok_def)+

lemma hoare_fmt2: "hoare rinv (read_fmt2_header csid) (\<lambda>_. rinv) rinv"
  unfolding read_fmt2_header_def
  by (rule hoare_bind[OF hoare_ints(1)]
      hoare_bind[OF hoare_ext] hoare_bind[OF hoare_get_state'] hoare_put_state
      | simp add: partial_ok_def)+

lemma hoare_fmt3: "hoare rinv (read_fmt3_header csid) (\<lambda>_. rinv) rinv"
  unfolding read_fmt3_header_def
proof (rule hoare_bind[OF hoare_get_state'], rule hoare_bind)
  show "hoare rinv (if is_had_ext_ts s then read_u32_be else st_return 0) (\<lambda>_. rinv) rinv" for s
    by (auto intro: hoare_intro hoare_return)
  show "hoare rinv (if is_partial s = []
      then put_state csid (s\<lparr>is_timestamp := is_timestamp s + is_last_delta s\<rparr>)
      else st_return ()) (\<lambda>_. rinv) rinv" for s
    by (auto intro!: hoare_put_state hoare_return simp: partial_ok_def)
qed

lemma hoare_chunk_header [hoare_intro]:
  "fmt \<le> 3 \<Longrightarrow> hoare rinv (read_chunk_header csid fmt) (\<lambda>_. rinv) rinv"
proof -
  assume "fmt \<le> 3"
  then have "fmt = 0 \<or> fmt = 1 \<or> fmt = 2 \<or> fmt = 3"
    by (simp add: word_le_nat_alt word_unat_eq_iff) linarith
  then show ?thesis
    by (auto simp: read_chunk_header_def intro: hoare_fmt0 hoare_fmt1 hoare_fmt2 hoare_fmt3)
qed

text \<open>The body of a chunk: what the run of its computation is, case by case.\<close>

lemma read_chunk_body_run:
  assumes s: "cr_states r csid = Some s" and ok: "partial_ok s"
    and n: "n = min (unat (is_length s) - length (is_partial s)) (cr_chunk_size r)"
  shows "read_chunk_body csid (r, bs) =
    (if length bs < n then (Inl wire_eof, (r, []))
     else let partial = is_partial s @ take n bs; r' = charge n r in
       if length partial = unat (is_length s)
       then (Inr (Some \<lparr>msg_type_id = is_type_id s, msg_stream_id = is_stream_id s,
                msg_timestamp = is_timestamp s, msg_payload = partial\<rparr>),
             (r'\<lparr>cr_states := (cr_states r)(csid \<mapsto> s\<lparr>is_partial := []\<rparr>)\<rparr>, drop n bs))
       else (Inr None,
             (r'\<lparr>cr_states := (cr_states r)(csid \<mapsto> s\<lparr>is_partial := partial\<rparr>)\<rparr>, drop n bs)))"
proof -
  have le: "length (is_partial s) \<le> unat (is_length s)"
    using ok by (auto simp: partial_ok_def)
  show ?thesis
  proof (cases "length bs < n")
    case True
    then show ?thesis
      using s le n by (simp add: read_chunk_body_def st_bind_def st_run chunk_take_def)
  next
    case False
    then have len: "length (is_partial s @ take n bs) \<le> unat (is_length s)"
      using le n by auto
    have "(is_length s \<le> word_of_nat (length (is_partial s @ take n bs))) =
        (length (is_partial s @ take n bs) = unat (is_length s))"
    proof -
      have "unat (word_of_nat (length (is_partial s @ take n bs)) :: u32) =
          length (is_partial s @ take n bs)"
        by (rule unat_u32_of_nat, rule le_less_trans[OF len]) (use unsigned_less[of "is_length s"] in simp)
      with len show ?thesis unfolding word_le_nat_alt by auto
    qed
    moreover obtain buf where buf: "take n bs = buf" by blast
    moreover have "read_exact_counted n (r, bs) = (Inr buf, (charge n r, drop n bs))"
      using read_exact_run[of "take n bs" n r "drop n bs"] False unfolding buf[symmetric] by simp
    ultimately show ?thesis
      using s le False
      by (simp add: read_chunk_body_def st_bind_def st_run chunk_take_def Let_def n[symmetric]
          del: length_append of_nat_add)
  qed
qed

lemma read_chunk_body_none [st_run]:
  "cr_states r csid = None \<Longrightarrow> read_chunk_body csid (r, bs) = (Inl InvalidChunk, (r, bs))"
  by (simp add: read_chunk_body_def st_bind_def st_run)

lemma hoare_chunk_body: "hoare rinv (read_chunk_body csid) (\<lambda>_. rinv) rinv"
proof (rule hoareI)
  fix rs :: "chunk_reader \<times> u8 list"
  assume inv: "rinv rs"
  obtain r bs where rs: "rs = (r, bs)" by (rule prod.exhaust)
  show "case read_chunk_body csid rs of (Inr x, s') \<Rightarrow> rinv s'
      | (Inl e, s') \<Rightarrow> e \<noteq> Panic \<and> e \<noteq> OutOfFuel \<and> rinv s'"
  proof (cases "cr_states r csid")
    case None
    then show ?thesis using inv rs by (simp add: st_run)
  next
    case (Some s)
    then have ok: "partial_ok s" using inv rs by (auto dest: reader_invD)
    let ?n = "min (unat (is_length s) - length (is_partial s)) (cr_chunk_size r)"
    have "partial_ok (s\<lparr>is_partial := is_partial s @ take ?n bs\<rparr>)"
      if "length (is_partial s @ take ?n bs) \<noteq> unat (is_length s)"
      using that ok by (auto simp: partial_ok_def)
    moreover have "partial_ok (s\<lparr>is_partial := []\<rparr>)" by (simp add: partial_ok_def)
    moreover have "reader_inv r" using inv rs by simp
    ultimately show ?thesis
      unfolding rs read_chunk_body_run[OF Some ok refl]
      by (simp add: Let_def wire_eof_def reader_inv_put del: length_append)
  qed
qed

lemma hoare_read_chunk: "hoare rinv read_chunk (\<lambda>_. rinv) rinv"
  unfolding read_chunk_def
proof (rule hoare_bind[OF hoare_basic_header])
  fix x :: "u32 \<times> u8"
  obtain csid fmt where x: "x = (csid, fmt)" by (rule prod.exhaust)
  show "hoare (case x of (csid, fmt) \<Rightarrow> \<lambda>rs. rinv rs \<and> fmt \<le> 3)
      (case x of (csid, fmt) \<Rightarrow>
        st_bind (read_chunk_header csid fmt) (\<lambda>_. read_chunk_body csid)) (\<lambda>_. rinv) rinv"
  proof (cases "fmt \<le> 3")
    case True
    have "hoare rinv (st_bind (read_chunk_header csid fmt) (\<lambda>_. read_chunk_body csid)) (\<lambda>_. rinv) rinv"
      by (rule hoare_bind[OF hoare_chunk_header[OF True] hoare_chunk_body])
    then show ?thesis by (simp add: x True)
  qed (simp add: x hoare_def)
qed

lemma hoare_read_message: "hoare rinv read_message (\<lambda>_. rinv) rinv"
  unfolding read_message_def
  by (rule hoare_until[OF shrinks_read_chunk], rule hoare_weaken[OF hoare_read_chunk])
    (auto split: option.split)

lemma reader_inv_new [simp]: "reader_inv reader_new"
  by (simp add: reader_inv_def reader_new_def DEFAULT_CHUNK_SIZE_def MAX_CHUNK_SIZE_def)

lemma clamp_bounds: "1 \<le> clamp_chunk_size n" "clamp_chunk_size n \<le> MAX_CHUNK_SIZE"
  by (auto simp: clamp_chunk_size_def MAX_CHUNK_SIZE_def)

lemma reader_inv_ops:
  assumes "reader_inv r"
  shows "reader_inv (reader_set_chunk_size n r)" and "reader_inv (set_window_ack_size w r)"
    and "reader_inv (snd (ack_due r))" and "reader_inv (snd (abort_partial csid r))"
  using assms clamp_bounds
  by (auto simp: reader_inv_def reader_set_chunk_size_def set_window_ack_size_def ack_due_def
      abort_partial_def Let_def partial_ok_def split: option.split)


section \<open>The byte counter\<close>

text \<open>A success of the reader has counted exactly the bytes it took off the wire.\<close>

definition counted :: "'a reading \<Rightarrow> bool" where
  "counted p \<longleftrightarrow> (\<forall>r bs x r' bs'. p (r, bs) = (Inr x, (r', bs')) \<longrightarrow>
     (\<exists>pre. bs = pre @ bs' \<and> cr_received_bytes r' = cr_received_bytes r + word_of_nat (length pre)))"

lemma countedI:
  "(\<And>r bs x r' bs'. p (r, bs) = (Inr x, (r', bs')) \<Longrightarrow>
     \<exists>pre. bs = pre @ bs' \<and> cr_received_bytes r' = cr_received_bytes r + word_of_nat (length pre)) \<Longrightarrow>
   counted p"
  by (simp add: counted_def)

lemma counted_bind:
  assumes "counted p" and "\<And>x. counted (f x)"
  shows "counted (st_bind p f)"
proof (rule countedI)
  fix r bs y r' bs'
  assume "st_bind p f (r, bs) = (Inr y, (r', bs'))"
  then obtain x r1 bs1 where 1: "p (r, bs) = (Inr x, (r1, bs1))"
    and 2: "f x (r1, bs1) = (Inr y, (r', bs'))"
    by (auto simp: st_bind_eq_Inr)
  obtain a where a: "bs = a @ bs1"
      "cr_received_bytes r1 = cr_received_bytes r + word_of_nat (length a)"
    using assms(1) 1 unfolding counted_def by blast
  obtain b where b: "bs1 = b @ bs'"
      "cr_received_bytes r' = cr_received_bytes r1 + word_of_nat (length b)"
    using assms(2)[of x] 2 unfolding counted_def by blast
  show "\<exists>pre. bs = pre @ bs' \<and>
      cr_received_bytes r' = cr_received_bytes r + word_of_nat (length pre)"
    using a b by (intro exI[of _ "a @ b"]) (simp add: algebra_simps)
qed

lemma counted_return: "counted (st_return x)"
  and counted_throw: "counted (st_throw e)"
  and counted_get: "counted st_get_user"
  by (auto simp: counted_def)

lemma counted_if: "counted p \<Longrightarrow> counted q \<Longrightarrow> counted (if b then p else q)"
  by simp

lemma counted_exact: "counted (read_exact_counted n)"
proof (rule countedI)
  fix r bs x r' bs'
  assume run: "read_exact_counted n (r, bs) = (Inr x, (r', bs'))"
  then have "n \<le> length bs"
    by (cases "length bs < n") (simp_all add: read_exact_short)
  then have "read_exact_counted n (r, bs) = (Inr (take n bs), (charge n r, drop n bs))"
    using read_exact_run[of "take n bs" n r "drop n bs"] by simp
  with run \<open>n \<le> length bs\<close> show "\<exists>pre. bs = pre @ bs' \<and>
      cr_received_bytes r' = cr_received_bytes r + word_of_nat (length pre)"
    by (intro exI[of _ "take n bs"]) auto
qed

lemma counted_get_state: "counted (get_state csid)"
  by (auto simp: counted_def get_state_def st_bind_def split: option.splits)

lemma counted_put_state: "counted (put_state csid s)"
  by (auto simp: counted_def put_state_run)

lemmas counted_intro = counted_bind counted_if counted_return counted_throw counted_get counted_exact
  counted_get_state counted_put_state

lemma counted_ints: "counted read_u24_be" "counted read_u32_be" "counted read_u32_le_stream_id"
  "counted (read_ext_ts ts)"
  unfolding read_ext_ts_def read_u24_be_def read_u32_be_def read_u32_le_stream_id_def
  by (intro counted_intro)+

lemma counted_basic_header: "counted read_basic_header"
  unfolding read_basic_header_def Let_def by (intro counted_intro)

lemma counted_chunk_header: "counted (read_chunk_header csid fmt)"
  unfolding read_chunk_header_def read_fmt0_header_def read_fmt1_header_def read_fmt2_header_def
    read_fmt3_header_def
  by (intro counted_intro counted_ints)

lemma counted_chunk_body: "counted (read_chunk_body csid)"
  unfolding read_chunk_body_def chunk_take_def Let_def by (intro counted_intro)

lemma counted_read_chunk: "counted read_chunk"
  unfolding read_chunk_def
  by (rule counted_bind[OF counted_basic_header])
    (auto intro!: counted_bind counted_chunk_header counted_chunk_body)

lemma counted_until_n: "counted p \<Longrightarrow> counted (st_until_n n p)"
proof (induction n)
  case 0
  show ?case by (simp add: counted_throw)
next
  case (Suc n)
  show ?case unfolding st_until_n.simps
  proof (rule counted_bind[OF Suc.prems])
    fix r show "counted (case r of None \<Rightarrow> st_until_n n p | Some x \<Rightarrow> st_return x)"
      by (cases r) (simp_all add: Suc counted_return)
  qed
qed

lemma counted_read_message: "counted read_message"
  unfolding counted_def read_message_def st_until_def
  using counted_until_n[OF counted_read_chunk] unfolding counted_def by (metis snd_conv)

section \<open>Properties of the messages and the reader\<close>

lemma take_bit_24_eq_iff: "take_bit 24 (x :: u32) = x \<longleftrightarrow> x < 2 ^ 24"
proof
  assume "take_bit 24 x = x"
  then have "unat x = unat x mod 2 ^ 24"
    by (metis take_bit_eq_mod unsigned_take_bit_eq)
  then have "unat x < 2 ^ 24" by (metis mod_less_divisor zero_less_numeral zero_less_power)
  then show "x < 2 ^ 24" by (simp add: word_less_nat_alt)
qed (rule take_bit_24_id)

lemma high_byte_zero_iff: "(x :: u32) AND 0xFF000000 = 0 \<longleftrightarrow> x < 2 ^ 24"
proof -
  have m: "(0xFF000000 :: u32) = NOT (mask 24)" by (simp add: mask_eq_exp_minus_1)
  have "x AND NOT (mask 24) = 0 \<longleftrightarrow> take_bit 24 x = x"
  proof
    assume z: "x AND NOT (mask 24) = 0"
    show "take_bit 24 x = x"
    proof (rule bit_word_eqI)
      fix n assume "n < LENGTH(32)"
      moreover from arg_cong[OF z, of "\<lambda>w. bit w n"] calculation have "\<not> (bit x n \<and> 24 \<le> n)"
        by (auto simp: bit_simps)
      ultimately show "bit (take_bit 24 x) n = bit x n" by (auto simp: bit_take_bit_iff)
    qed
  next
    assume "take_bit 24 x = x"
    then have "x AND NOT (mask 24) = take_bit 24 x AND NOT (mask 24)" by simp
    also have "\<dots> = 0" by (rule bit_word_eqI) (simp add: bit_simps)
    finally show "x AND NOT (mask 24) = 0" .
  qed
  then show ?thesis by (simp only: m take_bit_24_eq_iff)
qed

text \<open>
  The protocol-control check accepts a message exactly when its stream id fits the
  three-byte field and a control message (types 1 to 6) rides stream 0.
\<close>

theorem validate_accepts_iff:
  "validate_protocol_control_invariants m = Inr () \<longleftrightarrow>
    unat (msg_stream_id m) < 2 ^ 24 \<and> \<not> (unat (msg_type_id m) \<in> {1..6} \<and> \<not> is_control_stream m)"
  by (auto simp: validate_protocol_control_invariants_def is_control_stream_def stream_kind_def
      high_byte_zero_iff word_less_nat_alt word_le_nat_alt)

text \<open>
  From a reader whose half-received messages are all shorter than announced, every call
  of \<open>read_message\<close> on every input returns: with a message or an error of the crate, never
  by a panic and never by exhausting the loop bound, and it leaves such a reader behind.
\<close>

theorem read_message_total:
  assumes "reader_inv r"
  shows "\<exists>res r' bs'. read_message (r, bs) = (res, (r', bs')) \<and> reader_inv r'
    \<and> res \<noteq> Inl Panic \<and> res \<noteq> Inl OutOfFuel"
proof -
  obtain res r' bs' where run: "read_message (r, bs) = (res, (r', bs'))" by (metis surj_pair)
  then show ?thesis
    using hoareD[OF hoare_read_message, of "(r, bs)"] hoareD_err[OF hoare_read_message, of "(r, bs)"] assms
    by (cases res) auto
qed

theorem read_message_total_witness:
  "\<exists>res r' bs'. read_message (reader_new, [0x43, 1]) = (res, (r', bs')) \<and> reader_inv r'
    \<and> res \<noteq> Inl Panic \<and> res \<noteq> Inl OutOfFuel"
  by (rule read_message_total[OF reader_inv_new])

lemma shrinks_read_message: "shrinks 1 read_message"
  unfolding read_message_def by (rule shrinks_until[OF shrinks_read_chunk])

text \<open>
  The acknowledgement sequence number is exact: a successful \<open>read_message\<close> advances
  \<open>received_bytes\<close> by the number of bytes it took off the wire, modulo \<open>2^32\<close>, and it
  takes at least one.
\<close>

theorem read_message_counts:
  assumes "read_message (r, bs) = (Inr m, (r', bs'))"
  shows "\<exists>pre. pre \<noteq> [] \<and> bs = pre @ bs'
    \<and> cr_received_bytes r' = cr_received_bytes r + word_of_nat (length pre)"
proof -
  obtain pre where pre: "bs = pre @ bs'"
      "cr_received_bytes r' = cr_received_bytes r + word_of_nat (length pre)"
    using counted_read_message assms unfolding counted_def by blast
  moreover have "length bs' < length bs"
    using shrinksD[OF shrinks_read_message assms] by simp
  ultimately show ?thesis by auto
qed

definition sample_message :: message where
  "sample_message = \<lparr>msg_type_id = 8, msg_stream_id = 1, msg_timestamp = 5, msg_payload = [7, 9]\<rparr>"

definition sample_wire :: "u8 list" where
  "sample_wire = [0x04, 0, 0, 5, 0, 0, 2, 8, 1, 0, 0, 0, 7, 9]"

lemma sample_read: "fst (read_message (reader_new, sample_wire)) = Inr sample_message"
  by code_simp


theorem read_message_counts_witness:
  "\<exists>r' bs' pre. read_message (reader_new, sample_wire) = (Inr sample_message, (r', bs'))
    \<and> sample_wire = pre @ bs' \<and> pre \<noteq> [] \<and> cr_received_bytes r' = word_of_nat (length pre)"
proof -
  obtain res r' bs' where run: "read_message (reader_new, sample_wire) = (res, (r', bs'))"
    by (metis surj_pair)
  then have "res = Inr sample_message" using sample_read by simp
  with run read_message_counts[of reader_new sample_wire sample_message r' bs'] show ?thesis
    by (auto simp: reader_new_def)
qed

text \<open>
  Acknowledgements: one is due exactly when a window is negotiated and the bytes received
  since the last one (modulo \<open>2^32\<close>) reach it; its value is the sequence number, none is
  due right after it, and after \<open>set_window_ack_size\<close> one is due only for a further full
  window.
\<close>

theorem ack_due_spec:
  "fst (ack_due r) =
    (if cr_window_ack_size r \<noteq> 0
        \<and> unat (cr_window_ack_size r) \<le> (unat (cr_received_bytes r) + 2 ^ 32 - unat (cr_last_ack_bytes r)) mod 2 ^ 32
     then Some (cr_received_bytes r) else None)
   \<and> fst (ack_due (snd (ack_due r))) = None
   \<and> (fst (ack_due (charge n (set_window_ack_size w r))) \<noteq> None
      \<longleftrightarrow> 0 < unat w \<and> unat w \<le> n mod 2 ^ 32)"
proof -
  have sub: "unat (a - b) = (unat a + 2 ^ 32 - unat b) mod 2 ^ 32" for a b :: u32
  proof -
    have "unat b < 2 ^ LENGTH(32)" by (rule unsigned_less)
    then have "unat b \<le> unat a + 2 ^ 32" by simp
    then have "a - b = word_of_nat (unat a + 2 ^ 32 - unat b)" by (simp add: of_nat_diff)
    then show ?thesis by (simp only: unat_of_nat take_bit_eq_mod) simp
  qed
  have gap: "cr_window_ack_size r \<le> cr_received_bytes r - cr_last_ack_bytes r \<longleftrightarrow>
      unat (cr_window_ack_size r)
        \<le> (unat (cr_received_bytes r) + 2 ^ 32 - unat (cr_last_ack_bytes r)) mod 2 ^ 32"
    by (simp only: word_le_nat_alt sub)
  have 1: "fst (ack_due r) =
    (if cr_window_ack_size r \<noteq> 0
        \<and> unat (cr_window_ack_size r) \<le> (unat (cr_received_bytes r) + 2 ^ 32 - unat (cr_last_ack_bytes r)) mod 2 ^ 32
     then Some (cr_received_bytes r) else None)"
    by (simp add: ack_due_def Let_def gap del: One_nat_def)
  have 2: "fst (ack_due (snd (ack_due r))) = None"
    by (simp add: ack_due_def Let_def)
  have 3: "fst (ack_due (charge n (set_window_ack_size w r))) \<noteq> None
      \<longleftrightarrow> 0 < unat w \<and> unat w \<le> n mod 2 ^ 32"
    by (simp add: ack_due_def Let_def set_window_ack_size_def word_le_nat_alt unat_of_nat
        take_bit_eq_mod unat_gt_0)
  from 1 2 3 show ?thesis by blast
qed

text \<open>
  Abort (section 5.2): \<open>abort_partial\<close> says whether it dropped bytes, drops exactly the
  half-received payload of the named chunk stream, and touches nothing else of the reader.
\<close>

theorem abort_partial_spec:
  "(fst (abort_partial csid r) \<longleftrightarrow> (\<exists>s. cr_states r csid = Some s \<and> is_partial s \<noteq> []))
   \<and> snd (abort_partial csid r) =
     r\<lparr>cr_states := (\<lambda>c. if c = csid then map_option (\<lambda>s. s\<lparr>is_partial := []\<rparr>) (cr_states r c)
       else cr_states r c)\<rparr>"
proof
  show "fst (abort_partial csid r) \<longleftrightarrow> (\<exists>s. cr_states r csid = Some s \<and> is_partial s \<noteq> [])"
    by (simp add: abort_partial_def split: option.split)
  have "s\<lparr>is_partial := []\<rparr> = s" if "is_partial s = []" for s :: in_state
    using that by (cases s) simp
  then have "(\<lambda>c. if c = csid then map_option (\<lambda>s. s\<lparr>is_partial := []\<rparr>) (cr_states r c)
       else cr_states r c) = cr_states (snd (abort_partial csid r))"
    by (auto simp: abort_partial_def fun_eq_iff split: option.split)
  moreover have "snd (abort_partial csid r) = r\<lparr>cr_states := cr_states (snd (abort_partial csid r))\<rparr>"
    by (simp add: abort_partial_def split: option.split)
  ultimately show "snd (abort_partial csid r) =
     r\<lparr>cr_states := (\<lambda>c. if c = csid then map_option (\<lambda>s. s\<lparr>is_partial := []\<rparr>) (cr_states r c)
       else cr_states r c)\<rparr>" by simp
qed

end
