(* ===== verification/Chunk_Link.thy ===== *)
theory Chunk_Link
  imports Chunk
begin

text \<open>
  A \<open>ChunkWriter\<close> and a \<open>ChunkReader\<close> at the two ends of one byte stream
  (\<open>chunk.rs\<close>).  \<open>message_bytes\<close> is the wire image of a message as the chunk-stream
  format describes it; \<open>write_message\<close> is proved to produce it and \<open>read_message\<close> to
  read it back, with the two ends' per-csid tables in step (\<open>linked\<close>) before and after.
\<close>

section \<open>The wire image of a message\<close>

definition csid_ok :: "u32 \<Rightarrow> bool" where
  "csid_ok csid \<longleftrightarrow> 2 \<le> csid \<and> csid \<le> 65599"

definition basic_header_bytes :: "u8 \<Rightarrow> u32 \<Rightarrow> u8 list" where
  "basic_header_bytes fmt csid =
    (if csid \<le> 63 then [push_bit 6 fmt OR ucast csid]
     else if csid \<le> 319 then [push_bit 6 fmt, ucast (csid - 64)]
     else [push_bit 6 fmt OR 1, ucast (csid - 64), ucast (drop_bit 8 (csid - 64))])"

definition ts_field :: "chunk_head \<Rightarrow> u32 \<Rightarrow> u8 list" where
  "ts_field h v = u24_be (if ch_ext_ts_needed h then 0xFFFFFF else v)"

definition ext_field :: "bool \<Rightarrow> u32 \<Rightarrow> u8 list" where
  "ext_field b v = (if b then u32_be v else [])"

definition length_field :: "message \<Rightarrow> u8 list" where
  "length_field m = u24_be (word_of_nat (length (msg_payload m)))"

definition message_header_bytes :: "message \<Rightarrow> chunk_head \<Rightarrow> u8 \<Rightarrow> u8 list" where
  "message_header_bytes m h fmt =
    (if fmt = 0 then
       ts_field h (msg_timestamp m) @ length_field m @ [msg_type_id m] @ u32_le (msg_stream_id m)
         @ ext_field (ch_ext_ts_needed h) (msg_timestamp m)
     else if fmt = 1 then
       ts_field h (ch_delta h) @ length_field m @ [msg_type_id m]
         @ ext_field (ch_ext_ts_needed h) (ch_ext_value h)
     else if fmt = 2 then
       ts_field h (ch_delta h) @ ext_field (ch_ext_ts_needed h) (ch_ext_value h)
     else ext_field (ch_fmt3_ext h) (ch_ext_value h))"

definition chunk_header_bytes :: "u32 \<Rightarrow> message \<Rightarrow> chunk_head \<Rightarrow> u8 \<Rightarrow> u8 list" where
  "chunk_header_bytes csid m h fmt = basic_header_bytes fmt csid @ message_header_bytes m h fmt"

primrec continuation_bytes :: "nat \<Rightarrow> u8 list \<Rightarrow> nat \<Rightarrow> u8 list \<Rightarrow> u8 list" where
  "continuation_bytes 0 hdr chunk_size rest = []"
| "continuation_bytes (Suc n) hdr chunk_size rest =
    (if rest = [] then []
     else hdr @ take chunk_size rest @ continuation_bytes n hdr chunk_size (drop chunk_size rest))"

definition message_bytes :: "u32 \<Rightarrow> message \<Rightarrow> chunk_head \<Rightarrow> nat \<Rightarrow> u8 list" where
  "message_bytes csid m h chunk_size =
     chunk_header_bytes csid m h (ch_fmt h) @ take chunk_size (msg_payload m)
       @ continuation_bytes (Suc (length (msg_payload m))) (chunk_header_bytes csid m h 3) chunk_size
           (drop chunk_size (msg_payload m))"

section \<open>The writer produces it\<close>

definition emits :: "(chunk_writer, unit) st \<Rightarrow> u8 list \<Rightarrow> bool" where
  "emits p bs \<longleftrightarrow> (\<forall>w. p w = (Inr (), w\<lparr>cw_stream := cw_stream w @ bs\<rparr>))"

lemma emitsD: "emits p bs \<Longrightarrow> p w = (Inr (), w\<lparr>cw_stream := cw_stream w @ bs\<rparr>)"
  by (simp add: emits_def)

lemma emits_emit: "emits (emit bs) bs"
  and emits_return: "emits (st_return ()) []"
  by (simp_all add: emits_def emit_def st_run)

lemma emits_bind: "emits p bs \<Longrightarrow> emits (f ()) cs \<Longrightarrow> emits (st_bind p f) (bs @ cs)"
  by (simp add: emits_def st_bind_def)

lemma emits_emit_if: "emits (emit_if b bs) (if b then bs else [])"
  by (simp add: emit_if_def emits_emit emits_return)

lemma mask_24 [simp]: "(v :: u32) AND 0xFFFFFF = take_bit 24 v"
  by (simp add: take_bit_eq_mask mask_eq_exp_minus_1)

lemma u24_be_mask [simp]: "u24_be (take_bit 24 v) = u24_be v"
proof -
  have "(ucast (drop_bit k (take_bit 24 v)) :: u8) = ucast (drop_bit k v)" if "k \<le> 16" for k
    by (rule bit_word_eqI) (use that in \<open>auto simp: bit_ucast_iff bit_drop_bit_eq bit_take_bit_iff\<close>)
  from this[of 0] this[of 8] this[of 16] show ?thesis by (simp add: u24_be_def)
qed

lemma emits_u24: "emits (write_u24_be v) (u24_be v)"
  using emits_emit[of "u24_be v"] by (simp add: write_u24_be_def)

lemma mask_8: "mask 8 = (0xFF :: u16)"
  by (simp add: mask_eq_exp_minus_1)

lemma csid_cases:
  assumes "csid_ok csid"
  obtains (short) "2 \<le> csid" "csid \<le> 63"
    | (one) "64 \<le> csid" "csid \<le> 319"
    | (two) "320 \<le> csid" "csid \<le> 65599"
  using assms unfolding csid_ok_def word_le_nat_alt by simp linarith

lemma emits_basic_header:
  assumes "csid_ok csid"
  shows "emits (write_basic_header fmt csid) (basic_header_bytes fmt csid)"
proof -
  have lo: "ucast (ucast x AND (0xFF :: u16)) = (ucast x :: u8)"
    and hi: "(ucast (drop_bit 8 (ucast x :: u16)) :: u8) = ucast (drop_bit 8 x)" for x :: u32
    by (rule bit_word_eqI; simp add: bit_simps flip: mask_8)+
  from assms show ?thesis
  proof (cases rule: csid_cases)
    case short
    then show ?thesis by (simp add: write_basic_header_def basic_header_bytes_def emits_emit)
  next
    case one
    then have "\<not> csid \<le> 63" "64 \<le> csid" by (simp_all add: word_le_nat_alt)
    with one show ?thesis by (simp add: write_basic_header_def basic_header_bytes_def emits_emit)
  next
    case two
    then have "\<not> csid \<le> 63" "\<not> csid \<le> 319" by (simp_all add: word_le_nat_alt)
    with two show ?thesis
      by (simp add: write_basic_header_def basic_header_bytes_def lo hi Let_def emits_emit)
  qed
qed

lemma emits_chunk_header:
  assumes "csid_ok csid" and "fmt \<le> 3"
  shows "emits (write_chunk_header csid m h fmt) (chunk_header_bytes csid m h fmt)"
proof -
  have "fmt = 0 \<or> fmt = 1 \<or> fmt = 2 \<or> fmt = 3"
    using assms(2) by (simp add: word_le_nat_alt word_unat_eq_iff) linarith
  then show ?thesis
    unfolding write_chunk_header_def chunk_header_bytes_def
    by (elim disjE)
      (simp add: message_header_bytes_def ts_field_def length_field_def ext_field_def
         del: append_Cons append_Nil append.simps split del: if_split,
       intro emits_bind emits_basic_header emits_u24 emits_emit emits_emit_if assms(1))+
qed

lemma emits_continuation:
  assumes "csid_ok csid" and "1 \<le> chunk_size" and "length rest < n"
  shows "emits (write_chunks_n n csid m h chunk_size True rest)
    (continuation_bytes n (chunk_header_bytes csid m h 3) chunk_size rest)"
  using assms(3)
proof (induction n arbitrary: rest)
  case (Suc n)
  show ?case
  proof (cases "rest = []")
    case False
    then have "length (drop chunk_size rest) < n" using Suc.prems assms(2) by (cases rest) auto
    then have "emits (write_chunks_n n csid m h chunk_size True (drop chunk_size rest))
        (continuation_bytes n (chunk_header_bytes csid m h 3) chunk_size (drop chunk_size rest))"
      by (rule Suc.IH)
    with False show ?thesis
      by (auto intro!: emits_bind emits_chunk_header emits_emit assms(1))
  qed (simp add: emits_return)
qed simp

lemma choose_fmt_le: "choose_fmt prev m \<le> 3"
  by (simp add: choose_fmt_def)

lemma choose_head_sel [simp]:
  "ch_fmt (choose_head prev m) = choose_fmt prev m"
  "ch_delta (choose_head prev m) = msg_timestamp m - os_timestamp prev"
  by (simp_all add: choose_head_def Let_def)

lemma emits_chunks:
  assumes "csid_ok csid" and "1 \<le> chunk_size" and "ch_fmt h \<le> 3"
  shows "emits (write_chunks_n (Suc (Suc (length (msg_payload m)))) csid m h chunk_size False
      (msg_payload m)) (message_bytes csid m h chunk_size)"
proof -
  have cont: "emits (write_chunks_n (Suc (length (msg_payload m))) csid m h chunk_size True
      (drop chunk_size (msg_payload m)))
    (continuation_bytes (Suc (length (msg_payload m))) (chunk_header_bytes csid m h 3) chunk_size
      (drop chunk_size (msg_payload m)))"
    by (rule emits_continuation) (use assms in auto)
  show ?thesis
    unfolding write_chunks_n.simps(2)[of "Suc (length (msg_payload m))"] message_bytes_def
    by (simp only: simp_thms if_True if_False)
      (intro emits_bind emits_chunk_header emits_emit assms cont)
qed

lemma write_message_run:
  assumes "csid_ok csid" and "1 \<le> cw_chunk_size w"
  defines "prev \<equiv> out_state_of w csid"
  shows "write_message csid m w =
    (Inr (), w\<lparr>cw_stream := cw_stream w
        @ message_bytes csid m (choose_head prev m) (cw_chunk_size w),
      cw_states := (cw_states w)(csid \<mapsto> committed prev m)\<rparr>)"
  using emitsD[OF emits_chunks[OF assms(1,2), of "choose_head prev m" m]]
  by (simp add: write_message_def get_writer_def st_bind_def Let_def set_out_state_def
      choose_fmt_le prev_def del: write_chunks_n.simps)

section \<open>The reader reads it back\<close>

lemma header_byte:
  assumes "fmt \<le> (3 :: u8)" and "c \<le> (63 :: u8)"
  shows "drop_bit 6 (push_bit 6 fmt OR c) AND 3 = fmt"
    and "(push_bit 6 fmt OR c) AND 0x3F = c"
proof -
  have masks: "(3 :: u8) = mask 2" "(0x3F :: u8) = mask 6"
    by (simp_all add: mask_eq_exp_minus_1)
  have "take_bit 2 fmt = fmt"
    using assms(1) by (simp add: word_unat_eq_iff unsigned_take_bit_eq word_le_nat_alt take_bit_nat_eq_self)
  then have f: "bit fmt n \<Longrightarrow> n < 2" for n
    by (metis bit_take_bit_iff)
  have "take_bit 6 c = c"
    using assms(2) by (simp add: word_unat_eq_iff unsigned_take_bit_eq word_le_nat_alt take_bit_nat_eq_self)
  then have c: "bit c n \<Longrightarrow> n < 6" for n
    by (metis bit_take_bit_iff)
  show "drop_bit 6 (push_bit 6 fmt OR c) AND 3 = fmt"
    unfolding masks by (rule bit_word_eqI) (auto simp: bit_simps dest: f c)
  show "(push_bit 6 fmt OR c) AND 0x3F = c"
    unfolding masks by (rule bit_word_eqI) (auto simp: bit_simps dest: f c)
qed

lemma two_byte_csid:
  assumes "x \<le> (65535 :: u32)"
  shows "ucast (ucast x :: u8) + ucast (ucast (drop_bit 8 x) :: u8) * 256 = x"
proof -
  have "unat x \<le> 65535" using assms by (simp add: word_le_nat_alt)
  then have "(unat x mod 256 + (unat x div 256) mod 256 * 256) mod 2 ^ 32 = unat x"
    by (simp add: mod_less)
  then show ?thesis
    by (simp add: word_unat_eq_iff unat_word_ariths unsigned_ucast_eq take_bit_eq_mod
        unsigned_drop_bit_eq drop_bit_eq_div mod_simps)
qed

lemma basic_header_run:
  assumes "csid_ok csid" and "fmt \<le> 3"
  shows "read_basic_header (r, basic_header_bytes fmt csid @ rest) =
    (Inr (csid, fmt), (charge (length (basic_header_bytes fmt csid)) r, rest))"
  using assms(1)
proof (cases rule: csid_cases)
  case short
  define c :: u8 where "c = ucast csid"
  have uc: "unat c = unat csid"
    using short by (simp add: c_def unsigned_ucast_eq word_le_nat_alt take_bit_nat_eq_self)
  then have "c \<le> 63" "c \<noteq> 0" "c \<noteq> 1" "ucast c = csid"
    using short
    by (auto simp: word_le_nat_alt word_unat_eq_iff unsigned_ucast_eq take_bit_nat_eq_self)
  with header_byte[OF assms(2), of c] short show ?thesis
    by (simp add: basic_header_bytes_def c_def[symmetric] read_basic_header_def st_bind_def
        read_exact_Suc_0 Let_def)
next
  case one
  then have n: "\<not> csid \<le> 63" by (simp add: word_le_nat_alt)
  have "unat (csid - 64) = unat csid - 64" using one by (simp add: unat_sub)
  then have "ucast (ucast (csid - 64) :: u8) = csid - 64"
    using one by (simp add: word_unat_eq_iff word_le_nat_alt unsigned_ucast_eq unsigned_take_bit_eq
        take_bit_nat_eq_self)
  then show ?thesis
    using n one header_byte[OF assms(2), of 0]
    by (simp add: basic_header_bytes_def read_basic_header_def st_bind_def read_exact_Suc_0 Let_def)
next
  case two
  then have n: "\<not> csid \<le> 63" "\<not> csid \<le> 319" by (simp_all add: word_le_nat_alt)
  have "unat (csid - 64) = unat csid - 64" using two by (simp add: unat_sub word_le_nat_alt)
  then have "csid - 64 \<le> 65535" using two by (simp add: word_le_nat_alt)
  from two_byte_csid[OF this] show ?thesis
    using n header_byte[OF assms(2), of 1]
    by (simp add: basic_header_bytes_def read_basic_header_def st_bind_def read_exact_Suc_0 read_exact_2
        Let_def)
qed


text \<open>
  The reader's table entry that corresponds to a writer's, and the two ends in step.
\<close>

definition in_of :: "out_state \<Rightarrow> in_state" where
  "in_of os = \<lparr>is_type_id = os_type_id os, is_stream_id = os_stream_id os,
     is_length = os_length os, is_timestamp = os_timestamp os, is_last_delta = os_last_delta os,
     is_had_ext_ts = os_had_ext_ts os, is_partial = []\<rparr>"

definition linked :: "chunk_writer \<Rightarrow> chunk_reader \<Rightarrow> bool" where
  "linked w r \<longleftrightarrow> cw_chunk_size w = cr_chunk_size r \<and> 1 \<le> cr_chunk_size r
     \<and> (\<forall>csid. os_primed (out_state_of w csid) \<longrightarrow>
          cr_states r csid = Some (in_of (out_state_of w csid)))"

lemma read_ext_ts_run:
  "read_ext_ts (if b then 0xFFFFFF else take_bit 24 v) (r, ext_field b x @ rest) =
    (if b then (Inr x, (charge 4 r, rest)) else (Inr v, (r, rest)))"
  if "b \<longleftrightarrow> 0xFFFFFF \<le> v"
proof (cases b)
  case True
  then show ?thesis by (simp add: read_ext_ts_def ext_field_def read_u32_be_run)
next
  case False
  then have "v < 0xFFFFFF" using that by simp
  then have "take_bit 24 v = v" "v \<noteq> 0xFFFFFF"
    by (auto intro!: take_bit_24_id simp: word_less_nat_alt)
  with False show ?thesis by (simp add: read_ext_ts_def ext_field_def)
qed

lemma read_fmt0_run:
  "read_fmt0_header csid (r, u24_be ts0 @ u24_be len @ [ty] @ u32_le sid @ ext @ rest) =
    (case read_ext_ts (take_bit 24 ts0) (charge 11 r, ext @ rest) of
       (Inl e, s) \<Rightarrow> (Inl e, s)
     | (Inr ts, (r', bs)) \<Rightarrow>
        (Inr (), (r'\<lparr>cr_states := (cr_states r')(csid \<mapsto>
          (case cr_states r' csid of None \<Rightarrow> in_default | Some s \<Rightarrow> s)
          \<lparr>is_partial := [], is_type_id := ty, is_stream_id := sid, is_length := take_bit 24 len,
           is_timestamp := ts, is_last_delta := ts, is_had_ext_ts := (take_bit 24 ts0 = 0xFFFFFF)\<rparr>)\<rparr>, bs)))"
  by (simp add: read_fmt0_header_def st_bind_def read_u24_run read_exact_Suc_0 read_u32_le_run put_state_run
      split: prod.split sum.split)

lemma read_fmt1_run:
  "read_fmt1_header csid (r, u24_be d0 @ u24_be len @ [ty] @ ext @ rest) =
    (case read_ext_ts (take_bit 24 d0) (charge 7 r, ext @ rest) of
       (Inl e, s) \<Rightarrow> (Inl e, s)
     | (Inr d, (r', bs)) \<Rightarrow>
        (case cr_states r' csid of
           None \<Rightarrow> (Inl InvalidChunk, (r', bs))
         | Some s \<Rightarrow> (Inr (), (r'\<lparr>cr_states := (cr_states r')(csid \<mapsto>
             s\<lparr>is_type_id := ty, is_length := take_bit 24 len, is_timestamp := is_timestamp s + d,
               is_last_delta := d, is_had_ext_ts := (take_bit 24 d0 = 0xFFFFFF), is_partial := []\<rparr>)\<rparr>,
             bs))))"
  by (simp add: read_fmt1_header_def st_bind_def read_u24_run read_exact_Suc_0 put_state_run get_state_run
      split: prod.split sum.split option.split)

lemma read_fmt2_run:
  "read_fmt2_header csid (r, u24_be d0 @ ext @ rest) =
    (case read_ext_ts (take_bit 24 d0) (charge 3 r, ext @ rest) of
       (Inl e, s) \<Rightarrow> (Inl e, s)
     | (Inr d, (r', bs)) \<Rightarrow>
        (case cr_states r' csid of
           None \<Rightarrow> (Inl InvalidChunk, (r', bs))
         | Some s \<Rightarrow> (Inr (), (r'\<lparr>cr_states := (cr_states r')(csid \<mapsto>
             s\<lparr>is_timestamp := is_timestamp s + d, is_last_delta := d,
               is_had_ext_ts := (take_bit 24 d0 = 0xFFFFFF), is_partial := []\<rparr>)\<rparr>,
             bs))))"
  by (simp add: read_fmt2_header_def st_bind_def read_u24_run put_state_run get_state_run
      split: prod.split sum.split option.split)

lemma in_state_set_all:
  "s\<lparr>is_partial := p, is_type_id := t, is_stream_id := i, is_length := l, is_timestamp := ts,
     is_last_delta := d, is_had_ext_ts := b\<rparr> =
   \<lparr>is_type_id = t, is_stream_id = i, is_length = l, is_timestamp = ts, is_last_delta = d,
     is_had_ext_ts = b, is_partial = p\<rparr>"
  by (cases s) simp

lemma choose_fmt_eqD:
  "choose_fmt prev m \<noteq> 0 \<Longrightarrow> os_primed prev \<and> os_stream_id prev = msg_stream_id m"
  "choose_fmt prev m \<noteq> 0 \<Longrightarrow> choose_fmt prev m \<noteq> 1 \<Longrightarrow>
    os_type_id prev = msg_type_id m \<and> os_length prev = word_of_nat (length (msg_payload m))"
  "choose_fmt prev m = 3 \<Longrightarrow> msg_timestamp m - os_timestamp prev = os_last_delta prev"
  "choose_fmt prev m = 0 \<or> choose_fmt prev m = 1 \<or> choose_fmt prev m = 2 \<or> choose_fmt prev m = 3"
  by (auto simp: choose_fmt_def split: if_splits)

lemma choose_fmt_cases:
  obtains (full) "choose_fmt prev m = 0"
  | (fmt1) "choose_fmt prev m = 1" "os_primed prev" "os_stream_id prev = msg_stream_id m"
  | (fmt2) "choose_fmt prev m = 2" "os_primed prev" "os_stream_id prev = msg_stream_id m"
      "os_type_id prev = msg_type_id m" "os_length prev = word_of_nat (length (msg_payload m))"
  | (fmt3) "choose_fmt prev m = 3" "os_primed prev" "os_stream_id prev = msg_stream_id m"
      "os_type_id prev = msg_type_id m" "os_length prev = word_of_nat (length (msg_payload m))"
      "msg_timestamp m - os_timestamp prev = os_last_delta prev"
  using choose_fmt_eqD[of prev m] that by auto

lemma payload_length_24:
  "length (msg_payload m) < 2 ^ 24 \<Longrightarrow>
   take_bit 24 (word_of_nat (length (msg_payload m)) :: u32) = word_of_nat (length (msg_payload m))"
  by (rule take_bit_24_id) (simp add: word_less_nat_alt unat_u32_of_nat)

lemma take_bit_24_max [simp]: "take_bit 24 (0xFFFFFF :: u32) = 0xFFFFFF"
  by (rule take_bit_24_id) simp

lemma ts_field_max:
  "b \<longleftrightarrow> 0xFFFFFF \<le> (v :: u32) \<Longrightarrow> take_bit 24 (if b then 0xFFFFFF else v) = 0xFFFFFF \<longleftrightarrow> b"
proof -
  assume b: "b \<longleftrightarrow> 0xFFFFFF \<le> (v :: u32)"
  have "take_bit 24 v = v \<and> v \<noteq> 0xFFFFFF" if "\<not> b"
    using b that by (auto intro!: take_bit_24_id simp: word_less_nat_alt word_le_nat_alt)
  then show ?thesis by auto
qed

lemma header_fmt0_run:
  assumes len: "length (msg_payload m) < 2 ^ 24"
    and full: "choose_fmt os m = 0"
  defines "h \<equiv> choose_head os m"
  defines "hdr \<equiv> message_header_bytes m h (choose_fmt os m)"
  shows "read_fmt0_header csid (r, hdr @ rest) = (Inr (), ((charge (length hdr) r)
      \<lparr>cr_states := (cr_states r)(csid \<mapsto> in_of (committed os m))\<rparr>, rest))"
proof -
  have b: "ch_ext_ts_needed h \<longleftrightarrow> 0xFFFFFF \<le> msg_timestamp m"
    using full by (simp add: h_def choose_head_def Let_def)
  let ?r = "charge 11 r"
  have hdr: "hdr = u24_be (if ch_ext_ts_needed h then 0xFFFFFF else msg_timestamp m)
      @ u24_be (word_of_nat (length (msg_payload m))) @ [msg_type_id m] @ u32_le (msg_stream_id m)
      @ ext_field (ch_ext_ts_needed h) (msg_timestamp m)"
    using full by (simp add: hdr_def message_header_bytes_def ts_field_def length_field_def)
  have tb: "take_bit 24 (if ch_ext_ts_needed h then 0xFFFFFF else msg_timestamp m) =
      (if ch_ext_ts_needed h then 0xFFFFFF else take_bit 24 (msg_timestamp m))" by simp
  show ?thesis
    unfolding hdr append_assoc read_fmt0_run tb read_ext_ts_run[OF b]
    using full payload_length_24[OF len] b ts_field_max[OF b]
    by (cases "cr_states r csid"; cases "ch_ext_ts_needed h")
      (simp_all add: ext_field_def committed_def Let_def in_of_def h_def choose_head_def in_state_set_all)
qed

lemma header_fmt1_run:
  assumes st: "os_primed os \<Longrightarrow> cr_states r csid = Some (in_of os)"
    and len: "length (msg_payload m) < 2 ^ 24"
    and fmt1: "choose_fmt os m = 1" "os_primed os" "os_stream_id os = msg_stream_id m"
  defines "h \<equiv> choose_head os m"
  defines "hdr \<equiv> message_header_bytes m h (choose_fmt os m)"
  shows "read_fmt1_header csid (r, hdr @ rest) = (Inr (), ((charge (length hdr) r)
      \<lparr>cr_states := (cr_states r)(csid \<mapsto> in_of (committed os m))\<rparr>, rest))"
proof -
  let ?delta = "msg_timestamp m - os_timestamp os"
  have b: "ch_ext_ts_needed h \<longleftrightarrow> 0xFFFFFF \<le> ?delta"
    using fmt1 by (simp add: h_def choose_head_def Let_def)
  have hdr: "hdr = u24_be (if ch_ext_ts_needed h then 0xFFFFFF else ?delta)
      @ u24_be (word_of_nat (length (msg_payload m))) @ [msg_type_id m]
      @ ext_field (ch_ext_ts_needed h) ?delta"
    using fmt1
    by (simp add: hdr_def message_header_bytes_def ts_field_def length_field_def h_def
        choose_head_def Let_def)
  have tb: "take_bit 24 (if ch_ext_ts_needed h then 0xFFFFFF else ?delta) =
      (if ch_ext_ts_needed h then 0xFFFFFF else take_bit 24 ?delta)" by simp
  show ?thesis
    unfolding hdr append_assoc read_fmt1_run tb read_ext_ts_run[OF b]
    using fmt1 st payload_length_24[OF len] b ts_field_max[OF b]
    by (cases "ch_ext_ts_needed h")
      (simp_all add: ext_field_def committed_def Let_def in_of_def h_def choose_head_def)
qed

lemma header_fmt2_run:
  assumes st: "os_primed os \<Longrightarrow> cr_states r csid = Some (in_of os)"
    and fmt2: "choose_fmt os m = 2" "os_primed os" "os_stream_id os = msg_stream_id m"
      "os_type_id os = msg_type_id m" "os_length os = word_of_nat (length (msg_payload m))"
  defines "h \<equiv> choose_head os m"
  defines "hdr \<equiv> message_header_bytes m h (choose_fmt os m)"
  shows "read_fmt2_header csid (r, hdr @ rest) = (Inr (), ((charge (length hdr) r)
      \<lparr>cr_states := (cr_states r)(csid \<mapsto> in_of (committed os m))\<rparr>, rest))"
proof -
  let ?delta = "msg_timestamp m - os_timestamp os"
  have b: "ch_ext_ts_needed h \<longleftrightarrow> 0xFFFFFF \<le> ?delta"
    using fmt2 by (simp add: h_def choose_head_def Let_def)
  have hdr: "hdr = u24_be (if ch_ext_ts_needed h then 0xFFFFFF else ?delta)
      @ ext_field (ch_ext_ts_needed h) ?delta"
    using fmt2
    by (simp add: hdr_def message_header_bytes_def ts_field_def h_def choose_head_def Let_def)
  have tb: "take_bit 24 (if ch_ext_ts_needed h then 0xFFFFFF else ?delta) =
      (if ch_ext_ts_needed h then 0xFFFFFF else take_bit 24 ?delta)" by simp
  show ?thesis
    unfolding hdr append_assoc read_fmt2_run tb read_ext_ts_run[OF b]
    using fmt2 st b ts_field_max[OF b]
    by (cases "ch_ext_ts_needed h")
      (simp_all add: ext_field_def committed_def Let_def in_of_def h_def choose_head_def)
qed

lemma header_fmt3_run:
  assumes st: "os_primed os \<Longrightarrow> cr_states r csid = Some (in_of os)"
    and fmt3: "choose_fmt os m = 3" "os_primed os" "os_stream_id os = msg_stream_id m"
      "os_type_id os = msg_type_id m" "os_length os = word_of_nat (length (msg_payload m))"
      "msg_timestamp m - os_timestamp os = os_last_delta os"
  defines "h \<equiv> choose_head os m"
  defines "hdr \<equiv> message_header_bytes m h (choose_fmt os m)"
  shows "read_fmt3_header csid (r, hdr @ rest) = (Inr (), ((charge (length hdr) r)
      \<lparr>cr_states := (cr_states r)(csid \<mapsto> in_of (committed os m))\<rparr>, rest))"
proof -
  have hdr: "hdr = ext_field (os_had_ext_ts os) (os_last_delta os)"
    using fmt3
    by (simp add: hdr_def message_header_bytes_def h_def choose_head_def Let_def)
  have "os_timestamp os + os_last_delta os = msg_timestamp m"
    using fmt3 by (simp flip: fmt3(6))
  then show ?thesis
    unfolding hdr
    using fmt3 st
    by (simp add: read_fmt3_header_def st_bind_def get_state_run ext_field_def read_u32_be_run
        put_state_run committed_def Let_def in_of_def choose_head_def)
qed

lemma message_header_run:
  assumes st: "os_primed os \<Longrightarrow> cr_states r csid = Some (in_of os)"
    and len: "length (msg_payload m) < 2 ^ 24"
  defines "h \<equiv> choose_head os m"
  defines "hdr \<equiv> message_header_bytes m h (choose_fmt os m)"
  shows "read_chunk_header csid (choose_fmt os m) (r, hdr @ rest) =
    (Inr (), ((charge (length hdr) r)\<lparr>cr_states := (cr_states r)(csid \<mapsto> in_of (committed os m))\<rparr>, rest))"
proof (cases rule: choose_fmt_cases[of os m])
  case full
  with header_fmt0_run[OF len full] show ?thesis by (simp add: read_chunk_header_def hdr_def h_def)
next
  case fmt1
  with header_fmt1_run[OF st len fmt1] show ?thesis by (simp add: read_chunk_header_def hdr_def h_def)
next
  case fmt2
  with header_fmt2_run[OF st fmt2] show ?thesis by (simp add: read_chunk_header_def hdr_def h_def)
next
  case fmt3
  with header_fmt3_run[OF st fmt3] show ?thesis by (simp add: read_chunk_header_def hdr_def h_def)
qed


section \<open>Whole messages\<close>

definition message_of :: "in_state \<Rightarrow> u8 list \<Rightarrow> message" where
  "message_of s payload = \<lparr>msg_type_id = is_type_id s, msg_stream_id = is_stream_id s,
     msg_timestamp = is_timestamp s, msg_payload = payload\<rparr>"

lemma message_of_partial [simp]: "message_of (s\<lparr>is_partial := p\<rparr>) q = message_of s q"
  by (simp add: message_of_def)

text \<open>
  The body of a chunk, when the bytes still owed to the message are \<open>rest\<close>: either they
  all arrive now, or the message stays half received.
\<close>

lemma chunk_body_step:
  assumes s: "cr_states r csid = Some s" and ok: "partial_ok s"
    and owed: "length (is_partial s) + length rest = unat (is_length s)"
  shows "read_chunk_body csid (r, take (cr_chunk_size r) rest @ tail) =
    (let part = is_partial s @ take (cr_chunk_size r) rest;
         r' = charge (length (take (cr_chunk_size r) rest)) r in
     if length rest \<le> cr_chunk_size r
     then (Inr (Some (message_of s part)),
           (r'\<lparr>cr_states := (cr_states r)(csid \<mapsto> s\<lparr>is_partial := []\<rparr>)\<rparr>, tail))
     else (Inr None, (r'\<lparr>cr_states := (cr_states r)(csid \<mapsto> s\<lparr>is_partial := part\<rparr>)\<rparr>, tail)))"
proof -
  have n: "length (take (cr_chunk_size r) rest) =
      min (unat (is_length s) - length (is_partial s)) (cr_chunk_size r)"
    using owed by simp
  have full: "length (is_partial s @ take (cr_chunk_size r) rest) = unat (is_length s) \<longleftrightarrow>
      length rest \<le> cr_chunk_size r"
    using owed by auto
  show ?thesis
    unfolding read_chunk_body_run[OF s ok n] using full owed
    by (cases "length rest \<le> cr_chunk_size r") (simp_all add: Let_def message_of_def)
qed

text \<open>The chunk of a continuation: a fmt-3 header, then the body.\<close>

lemma continuation_header_run:
  fixes m :: message
  assumes "csid_ok csid" and "cr_states r csid = Some s" and "is_partial s \<noteq> []"
    and "is_had_ext_ts s = ch_fmt3_ext h"
  defines "hdr \<equiv> chunk_header_bytes csid m h 3"
  shows "read_chunk (r, hdr @ rest) = read_chunk_body csid (charge (length hdr) r, rest)"
  using assms
  by (simp add: hdr_def chunk_header_bytes_def message_header_bytes_def read_chunk_def st_bind_def
      basic_header_run read_chunk_header_def read_fmt3_header_def get_state_run ext_field_def
      read_u32_be_run st_run)

lemma read_continuation:
  fixes m :: message
  assumes "csid_ok csid" and "1 \<le> cr_chunk_size r" and "length rest < n" and "rest \<noteq> []"
    and s: "cr_states r csid = Some s" "is_partial s \<noteq> []" "is_had_ext_ts s = ch_fmt3_ext h"
    and owed: "length (is_partial s) + length rest = unat (is_length s)"
  shows "read_message
     (r, continuation_bytes n (chunk_header_bytes csid m h 3) (cr_chunk_size r) rest @ tail) =
    (Inr (message_of s (is_partial s @ rest)),
     ((charge (length (continuation_bytes n (chunk_header_bytes csid m h 3) (cr_chunk_size r) rest)) r)\<lparr>cr_states := (cr_states r)(csid \<mapsto> s\<lparr>is_partial := []\<rparr>)\<rparr>, tail))"
  using assms(2-)
proof (induction n arbitrary: rest r s)
  case (Suc n)
  let ?hdr = "chunk_header_bytes csid m h 3" and ?cs = "cr_chunk_size r"
  let ?r1 = "charge (length ?hdr) r"
  have ok: "partial_ok s" using Suc.prems(3,7) by (cases rest) (auto simp: partial_ok_def)
  have s1: "cr_states ?r1 csid = Some s" using Suc.prems(4) by simp
  note header = continuation_header_run[OF assms(1) Suc.prems(4,5,6)]
  note body = chunk_body_step[OF s1 ok Suc.prems(7)]
  show ?case
  proof (cases "length rest \<le> ?cs")
    case True
    then have "continuation_bytes n ?hdr ?cs (drop ?cs rest) = []" by (cases n) auto
    with True Suc.prems(3) body[of tail] show ?thesis
      by (subst read_message_unfold)
        (simp add: st_bind_def header Let_def)
  next
    case False
    let ?s' = "s\<lparr>is_partial := is_partial s @ take ?cs rest\<rparr>"
    let ?r' = "(charge (length (take ?cs rest)) ?r1)\<lparr>cr_states := (cr_states r)(csid \<mapsto> ?s')\<rparr>"
    let ?more = "continuation_bytes n ?hdr ?cs (drop ?cs rest)"
    have prems: "1 \<le> cr_chunk_size ?r'" "length (drop ?cs rest) < n" "drop ?cs rest \<noteq> []"
        "cr_states ?r' csid = Some ?s'" "is_partial ?s' \<noteq> []" "is_had_ext_ts ?s' = ch_fmt3_ext h"
        "length (is_partial ?s') + length (drop ?cs rest) = unat (is_length ?s')"
      using Suc.prems False by auto
    from Suc.IH[OF prems] False Suc.prems(3) body[of "?more @ tail"] show ?thesis
      by (subst read_message_unfold)
        (simp add: st_bind_def header Let_def algebra_simps fun_upd_def cong: if_cong)
  qed
qed simp

lemma linkedD:
  "linked w r \<Longrightarrow> os_primed (out_state_of w csid) \<Longrightarrow>
   cr_states r csid = Some (in_of (out_state_of w csid))"
  by (simp add: linked_def)

lemma linked_step:
  assumes "linked w r"
  shows "linked (w\<lparr>cw_stream := out, cw_states := (cw_states w)(csid \<mapsto> os)\<rparr>)
    ((charge n r)\<lparr>cr_states := (cr_states r)(csid \<mapsto> in_of os)\<rparr>)"
  using assms by (auto simp: linked_def out_state_of_def)

lemma in_of_committed_sel [simp]:
  "is_length (in_of (committed os m)) = word_of_nat (length (msg_payload m))"
  "is_partial (in_of s) = []" "in_of s\<lparr>is_partial := []\<rparr> = in_of s"
  "is_had_ext_ts (in_of (committed os m)) = ch_fmt3_ext (choose_head os m)"
  "message_of (in_of (committed os m)) p = m\<lparr>msg_payload := p\<rparr>"
  by (simp_all add: in_of_def committed_def Let_def message_of_def)

text \<open>The header of a message that begins, on a chunk stream with nothing half received.\<close>

lemma begin_header:
  assumes "csid_ok csid" and "length (msg_payload m) < 2 ^ 24"
    and "os_primed os \<Longrightarrow> cr_states r csid = Some (in_of os)"
  defines "hdr \<equiv> chunk_header_bytes csid m (choose_head os m) (choose_fmt os m)"
  shows "read_chunk (r, hdr @ rest) = read_chunk_body csid
    ((charge (length hdr) r)\<lparr>cr_states := (cr_states r)(csid \<mapsto> in_of (committed os m))\<rparr>, rest)"
proof -
  have "os_primed os \<Longrightarrow> cr_states (charge n r) csid = Some (in_of os)" for n
    using assms(3) by simp
  then show ?thesis
    by (simp add: hdr_def read_chunk_def st_bind_def chunk_header_bytes_def
        basic_header_run[OF assms(1) choose_fmt_le] message_header_run[OF _ assms(2)])
qed

text \<open>The header of the first chunk of a message leaves the reader as the writer is.\<close>

lemma first_header:
  assumes "csid_ok csid" and "length (msg_payload m) < 2 ^ 24" and "linked w r"
  defines "os \<equiv> out_state_of w csid"
  defines "hdr \<equiv> chunk_header_bytes csid m (choose_head os m) (choose_fmt os m)"
  shows "read_chunk (r, hdr @ rest)
    = read_chunk_body csid ((charge (length hdr) r)\<lparr>cr_states := (cr_states r)(csid \<mapsto> in_of (committed os m))\<rparr>, rest)"
  unfolding hdr_def by (rule begin_header[OF assms(1,2)]) (use linkedD[OF assms(3)] in \<open>simp add: os_def\<close>)

text \<open>What the writer put on the wire for one message, the reader turns into that message.\<close>

theorem read_message_bytes:
  fixes w :: chunk_writer
  assumes csid: "csid_ok csid" and len: "length (msg_payload m) < 2 ^ 24"
    and link: "linked w r"
  defines "os \<equiv> out_state_of w csid"
  defines "bs \<equiv> message_bytes csid m (choose_head os m) (cw_chunk_size w)"
  shows "read_message (r, bs @ tail) =
    (Inr m, ((charge (length bs) r)\<lparr>cr_states := (cr_states r)(csid \<mapsto> in_of (committed os m))\<rparr>, tail))"
proof -
  let ?h = "choose_head os m" and ?cs = "cr_chunk_size r" and ?p = "msg_payload m"
  let ?hdr = "chunk_header_bytes csid m ?h (choose_fmt os m)"
  let ?s = "in_of (committed os m)"
  let ?r1 = "(charge (length ?hdr) r)\<lparr>cr_states := (cr_states r)(csid \<mapsto> ?s)\<rparr>"
  define cont where
    "cont = continuation_bytes (Suc (length ?p)) (chunk_header_bytes csid m ?h 3) ?cs (drop ?cs ?p)"
  have cs: "cw_chunk_size w = ?cs" "1 \<le> ?cs" using link by (auto simp: linked_def)
  have bs: "bs = ?hdr @ take ?cs ?p @ cont"
    by (simp add: bs_def message_bytes_def cs cont_def)
  have head: "read_chunk (r, ?hdr @ rest) = read_chunk_body csid (?r1, rest)" for rest
    unfolding os_def by (rule first_header[OF csid len link])
  have s1: "cr_states ?r1 csid = Some ?s" by simp
  have ok: "partial_ok ?s" by (simp add: partial_ok_def)
  have owed: "length (is_partial ?s) + length ?p = unat (is_length ?s)"
    using len by (simp add: unat_u32_of_nat)
  note body = chunk_body_step[OF s1 ok owed]
  show ?thesis
  proof (cases "length ?p \<le> ?cs")
    case True
    moreover from True have "cont = []" by (simp add: cont_def)
    ultimately show ?thesis
      using body[of tail]
      by (subst read_message_unfold)
        (simp add: bs st_bind_def head Let_def st_run)
  next
    case False
    let ?s' = "?s\<lparr>is_partial := take ?cs ?p\<rparr>"
    let ?r2 = "(charge (length (take ?cs ?p)) ?r1)\<lparr>cr_states := (cr_states r)(csid \<mapsto> ?s')\<rparr>"
    have prems: "1 \<le> cr_chunk_size ?r2" "length (drop ?cs ?p) < Suc (length ?p)" "drop ?cs ?p \<noteq> []"
        "cr_states ?r2 csid = Some ?s'" "is_partial ?s' \<noteq> []" "is_had_ext_ts ?s' = ch_fmt3_ext ?h"
        "length (is_partial ?s') + length (drop ?cs ?p) = unat (is_length ?s')"
      using cs(2) False owed by (auto simp del: unat_of_nat)
    from read_continuation[OF csid prems, of m tail] False body[of "cont @ tail"] show ?thesis
      by (subst read_message_unfold)
        (simp add: bs st_bind_def head Let_def algebra_simps cont_def[symmetric]
          del: continuation_bytes.simps)
  qed
qed


section \<open>A session over one link\<close>

text \<open>The two ends of a link, and one message handed from the writer to the reader.\<close>

lemma link_message:
  assumes "csid_ok csid" and "length (msg_payload m) < 2 ^ 24" and "linked w r"
  obtains w' r' bs where
    "write_message csid m w = (Inr (), w')" "cw_stream w' = cw_stream w @ bs"
    "\<And>tail. read_message (r, bs @ tail) = (Inr m, (r', tail))" "linked w' r'"
    "cr_received_bytes r' = cr_received_bytes r + word_of_nat (length bs)"
proof -
  let ?os = "out_state_of w csid"
  define bs where "bs = message_bytes csid m (choose_head ?os m) (cw_chunk_size w)"
  define w' where "w' = w\<lparr>cw_stream := cw_stream w @ bs, cw_states := (cw_states w)(csid \<mapsto> committed ?os m)\<rparr>"
  define r' where "r' = (charge (length bs) r)\<lparr>cr_states := (cr_states r)(csid \<mapsto> in_of (committed ?os m))\<rparr>"
  show thesis
  proof
    have "1 \<le> cw_chunk_size w" using assms(3) by (simp add: linked_def)
    then show "write_message csid m w = (Inr (), w')"
      by (simp add: write_message_run[OF assms(1)] w'_def bs_def)
    show "cw_stream w' = cw_stream w @ bs" by (simp add: w'_def)
    show "read_message (r, bs @ tail) = (Inr m, (r', tail))" for tail
      unfolding bs_def r'_def by (rule read_message_bytes[OF assms])
    show "linked w' r'" unfolding w'_def r'_def by (rule linked_step[OF assms(3)])
    show "cr_received_bytes r' = cr_received_bytes r + word_of_nat (length bs)"
      by (simp add: r'_def)
  qed
qed

text \<open>
  What an application does with a writer: write a message on a chunk stream, or change the
  chunk size after agreeing on it with the peer, who changes it too (\<open>SetChunkSize\<close>).
\<close>

datatype link_op = Send u32 message | Resize nat

fun link_op_ok :: "link_op \<Rightarrow> bool" where
  "link_op_ok (Send csid m) \<longleftrightarrow> csid_ok csid \<and> length (msg_payload m) < 2 ^ 24"
| "link_op_ok (Resize n) \<longleftrightarrow> True"

fun write_ops :: "link_op list \<Rightarrow> (chunk_writer, unit) st" where
  "write_ops [] = st_return ()"
| "write_ops (Send csid m # ops) = st_bind (write_message csid m) (\<lambda>_. write_ops ops)"
| "write_ops (Resize n # ops) = st_bind (\<lambda>w. (Inr (), writer_set_chunk_size n w)) (\<lambda>_. write_ops ops)"

fun read_ops :: "link_op list \<Rightarrow> message list reading" where
  "read_ops [] = st_return []"
| "read_ops (Send csid m # ops) =
     st_bind read_message (\<lambda>m'. st_bind (read_ops ops) (\<lambda>ms. st_return (m' # ms)))"
| "read_ops (Resize n # ops) =
     st_bind (\<lambda>(r, bs). (Inr (), (reader_set_chunk_size n r, bs))) (\<lambda>_. read_ops ops)"

fun sent :: "link_op list \<Rightarrow> message list" where
  "sent [] = []"
| "sent (Send csid m # ops) = m # sent ops"
| "sent (Resize n # ops) = sent ops"

lemma linked_resize: "linked w r \<Longrightarrow> linked (writer_set_chunk_size n w) (reader_set_chunk_size n r)"
  using clamp_bounds[of n]
  by (simp add: linked_def writer_set_chunk_size_def reader_set_chunk_size_def out_state_of_def)

lemma linked_new: "linked (writer_new out) reader_new"
  by (simp add: linked_def writer_new_def reader_new_def out_state_of_def out_default_def
      DEFAULT_CHUNK_SIZE_def)

theorem link_session:
  assumes "linked w r" and "\<forall>op \<in> set ops. link_op_ok op"
  shows "\<exists>w' r' bs. write_ops ops w = (Inr (), w') \<and> cw_stream w' = cw_stream w @ bs
    \<and> (\<forall>tail. read_ops ops (r, bs @ tail) = (Inr (sent ops), (r', tail))) \<and> linked w' r'
    \<and> cr_received_bytes r' = cr_received_bytes r + word_of_nat (length bs)"
  using assms
proof (induction ops arbitrary: w r)
  case Nil
  then show ?case by (intro exI[of _ w] exI[of _ r] exI[of _ "[]"]) (simp add: st_run)
next
  case (Cons op ops)
  show ?case
  proof (cases op)
    case (Send csid m)
    with Cons.prems(2) have ok: "csid_ok csid" "length (msg_payload m) < 2 ^ 24" by auto
    obtain w1 r1 a where 1: "write_message csid m w = (Inr (), w1)" "cw_stream w1 = cw_stream w @ a"
      "\<And>tail. read_message (r, a @ tail) = (Inr m, (r1, tail))" "linked w1 r1"
      "cr_received_bytes r1 = cr_received_bytes r + word_of_nat (length a)"
      by (rule link_message[OF ok Cons.prems(1)]) blast
    obtain w2 r2 b where 2: "write_ops ops w1 = (Inr (), w2)" "cw_stream w2 = cw_stream w1 @ b"
      "\<And>tail. read_ops ops (r1, b @ tail) = (Inr (sent ops), (r2, tail))" "linked w2 r2"
      "cr_received_bytes r2 = cr_received_bytes r1 + word_of_nat (length b)"
      using Cons.IH[OF 1(4)] Cons.prems(2) by auto
    show ?thesis
      using 1 2 by (intro exI[of _ w2] exI[of _ r2] exI[of _ "a @ b"])
        (simp add: Send st_bind_def algebra_simps)
  next
    case (Resize n)
    obtain w2 r2 b where 2: "write_ops ops (writer_set_chunk_size n w) = (Inr (), w2)"
      "cw_stream w2 = cw_stream (writer_set_chunk_size n w) @ b"
      "\<And>tail. read_ops ops (reader_set_chunk_size n r, b @ tail) = (Inr (sent ops), (r2, tail))"
      "linked w2 r2"
      "cr_received_bytes r2 = cr_received_bytes (reader_set_chunk_size n r) + word_of_nat (length b)"
      using Cons.IH[OF linked_resize[OF Cons.prems(1)]] Cons.prems(2) by auto blast
    then show ?thesis
      by (intro exI[of _ w2] exI[of _ r2] exI[of _ b])
        (simp add: Resize st_bind_def writer_set_chunk_size_def reader_set_chunk_size_def)
  qed
qed

section \<open>Properties of the link\<close>

text \<open>
  C6. Round trip of a whole session: whatever messages the writer sends on whatever chunk
  streams (ids 2 to 65599, payloads below 2^24 bytes, in any order, any timestamps, chunk
  sizes renegotiated anywhere), the reader at the other end returns exactly those messages in
  order, whatever follows on the wire, and has counted every byte.
\<close>

theorem chunk_session_roundtrip:
  assumes "\<forall>op \<in> set ops. link_op_ok op"
  shows "\<exists>w' r'. write_ops ops (writer_new []) = (Inr (), w')
    \<and> read_ops ops (reader_new, cw_stream w' @ tail) = (Inr (sent ops), (r', tail))
    \<and> cr_received_bytes r' = word_of_nat (length (cw_stream w'))"
proof -
  obtain w' r' bs where "write_ops ops (writer_new []) = (Inr (), w')"
    "cw_stream w' = cw_stream (writer_new []) @ bs"
    "\<forall>tail. read_ops ops (reader_new, bs @ tail) = (Inr (sent ops), (r', tail))"
    "cr_received_bytes r' = cr_received_bytes reader_new + word_of_nat (length bs)"
    using link_session[OF linked_new assms] by blast
  then show ?thesis by (intro exI[of _ w'] exI[of _ r']) (simp add: writer_new_def reader_new_def)
qed

definition sample_ops :: "link_op list" where
  "sample_ops = [Send 3 sample_message, Resize 1, Send 70 sample_message, Send 3 sample_message]"

theorem chunk_session_roundtrip_witness:
  "\<exists>w' r'. write_ops sample_ops (writer_new []) = (Inr (), w')
    \<and> read_ops sample_ops (reader_new, cw_stream w' @ [1]) = (Inr (sent sample_ops), (r', [1]))
    \<and> cr_received_bytes r' = word_of_nat (length (cw_stream w'))"
  by (rule chunk_session_roundtrip)
    (simp add: sample_ops_def csid_ok_def sample_message_def)

text \<open>
  Where the writer refuses: a chunk stream id outside 2 to 65599 is a protocol violation,
  nothing is put on the wire, and the only trace is an unprimed table entry.
\<close>

theorem write_message_bad_csid:
  assumes "csid < 2 \<or> 65599 < csid"
  shows "write_message csid m w =
    (Inl ProtocolViolation, w\<lparr>cw_states := (cw_states w)(csid \<mapsto> out_state_of w csid)\<rparr>)"
proof -
  have "write_basic_header fmt csid = st_throw ProtocolViolation" for fmt
    using assms by (auto simp: write_basic_header_def word_le_nat_alt word_less_nat_alt)
  then show ?thesis
    by (simp add: write_message_def get_writer_def st_bind_def Let_def set_out_state_def
        write_chunk_header_def st_run)
qed

theorem write_message_bad_csid_witness:
  "fst (write_message 1 sample_message (writer_new [])) = Inl ProtocolViolation"
  by (subst write_message_bad_csid) simp_all

lemma continuation_length:
  "length rest < n \<Longrightarrow> 1 \<le> cs \<Longrightarrow> length rest \<le> length (continuation_bytes n hdr cs rest)"
proof (induction n arbitrary: rest)
  case (Suc n)
  show ?case
  proof (cases "rest = []")
    case False
    then have "length (drop cs rest) < n" using Suc.prems by (cases rest) auto
    from Suc.IH[OF this Suc.prems(2)] False show ?thesis
      by (simp del: continuation_bytes.simps add: continuation_bytes.simps(2))
  qed simp
qed simp

text \<open>
  C20. The writer has no check of the 24-bit length field: a message of exactly 2^24 payload
  bytes on a fresh link is written with length 0, and the reader returns it empty and takes
  the payload for the next chunk header.
\<close>

theorem oversized_payload_desyncs:
  assumes "length (msg_payload m) = 2 ^ 24" and "csid_ok csid"
  shows "\<exists>w' r' rest. write_message csid m (writer_new []) = (Inr (), w')
    \<and> read_message (reader_new, cw_stream w') = (Inr (m\<lparr>msg_payload := []\<rparr>), (r', rest))
    \<and> 2 ^ 24 \<le> length rest"
proof -
  let ?h = "choose_head out_default m"
  let ?m0 = "m\<lparr>msg_payload := []\<rparr>"
  let ?w = "writer_new []"
  have os: "out_state_of ?w csid = out_default" by (simp add: writer_new_def out_state_of_def)
  have cs: "cw_chunk_size ?w = DEFAULT_CHUNK_SIZE" by (simp add: writer_new_def)
  have fmt: "choose_fmt out_default x = 0" for x by (simp add: choose_fmt_def out_default_def)
  have w: "write_message csid m ?w = (Inr (), ?w\<lparr>cw_stream := message_bytes csid m ?h DEFAULT_CHUNK_SIZE,
      cw_states := [csid \<mapsto> committed out_default m]\<rparr>)"
    using write_message_run[OF assms(2), of ?w m] unfolding os cs
    by (simp add: DEFAULT_CHUNK_SIZE_def) (simp add: writer_new_def)
  have len: "length_field m = length_field ?m0"
    by (simp add: length_field_def assms(1)) (simp add: u24_be_def)
  have "message_header_bytes m ?h 0 = message_header_bytes ?m0 (choose_head out_default ?m0) 0"
    by (simp add: message_header_bytes_def len) (simp add: choose_head_def Let_def fmt ts_field_def)
  then have "message_bytes csid ?m0 (choose_head out_default ?m0) DEFAULT_CHUNK_SIZE
      = chunk_header_bytes csid m ?h 0"
    by (simp add: message_bytes_def chunk_header_bytes_def fmt)
  then have bytes: "message_bytes csid m ?h DEFAULT_CHUNK_SIZE =
      message_bytes csid ?m0 (choose_head out_default ?m0) DEFAULT_CHUNK_SIZE
      @ take DEFAULT_CHUNK_SIZE (msg_payload m)
      @ continuation_bytes (Suc (length (msg_payload m))) (chunk_header_bytes csid m ?h 3)
          DEFAULT_CHUNK_SIZE (drop DEFAULT_CHUNK_SIZE (msg_payload m))"
    by (simp add: message_bytes_def[of csid m] fmt del: continuation_bytes.simps)
  have "2 ^ 24 \<le> length (take DEFAULT_CHUNK_SIZE (msg_payload m)
      @ continuation_bytes (Suc (length (msg_payload m))) (chunk_header_bytes csid m ?h 3)
          DEFAULT_CHUNK_SIZE (drop DEFAULT_CHUNK_SIZE (msg_payload m)))"
    using continuation_length[of "drop DEFAULT_CHUNK_SIZE (msg_payload m)" "Suc (length (msg_payload m))"
        DEFAULT_CHUNK_SIZE "chunk_header_bytes csid m ?h 3"] assms(1)
    by (simp add: DEFAULT_CHUNK_SIZE_def del: continuation_bytes.simps)
  moreover have "length (msg_payload ?m0) < 2 ^ 24" by simp
  note read_message_bytes[OF assms(2) this linked_new[of "[]"], unfolded os cs]
  ultimately show ?thesis unfolding w bytes by fastforce
qed

definition big_message :: message where
  "big_message = \<lparr>msg_type_id = 9, msg_stream_id = 1, msg_timestamp = 0,
     msg_payload = replicate (2 ^ 24) 0\<rparr>"

theorem oversized_payload_desyncs_witness:
  "\<exists>w' r' rest. write_message 4 big_message (writer_new []) = (Inr (), w')
    \<and> read_message (reader_new, cw_stream w') = (Inr (big_message\<lparr>msg_payload := []\<rparr>), (r', rest))
    \<and> 2 ^ 24 \<le> length rest"
  by (rule oversized_payload_desyncs) (simp_all add: big_message_def csid_ok_def)

section \<open>An interrupted read\<close>

text \<open>
  C16. A read that is interrupted inside a payload.  Where the bytes run out after a part of the payload, \<open>read_message\<close>
  fails and the part is gone (\<open>read_exact\<close> does not give back what it has taken); if reading is tried again once the
  rest has come, as after a read timeout, the rest of the payload is taken for chunks, and a part of it that looks like
  a message is handed out as one, though nobody has sent it.
\<close>

theorem interrupted_read_forges:
  assumes "csid_ok csid" and "csid_ok csid'" and "length (msg_payload m) < 2 ^ 24" and "length (msg_payload m') < 2 ^ 24"
    and "linked w r" and "length (msg_payload m) \<le> cw_chunk_size w"
    and "write_message csid m w = (Inr (), w1)" and "write_message csid' m' w1 = (Inr (), w2)"
    and "cw_stream w2 = cw_stream w1 @ forged" and "msg_payload m = begun @ forged @ rest"
  shows "\<exists>hdr r1 r2. cw_stream w1 = cw_stream w @ hdr @ msg_payload m
    \<and> read_message (r, hdr @ begun) = (Inl wire_eof, (r1, []))
    \<and> read_message (r1, forged @ rest) = (Inr m', (r2, rest))"
proof -
  let ?os = "out_state_of w csid" and ?p = "msg_payload m" and ?cs = "cw_chunk_size w"
  let ?hdr = "chunk_header_bytes csid m (choose_head ?os m) (choose_fmt ?os m)"
  let ?s = "in_of (committed ?os m)"
  let ?r = "(charge (length ?hdr) r)\<lparr>cr_states := (cr_states r)(csid \<mapsto> ?s)\<rparr>"
  have cs: "?cs = cr_chunk_size r" "1 \<le> ?cs" using assms(5) by (simp_all add: linked_def)
  have w1: "w1 = w\<lparr>cw_stream := cw_stream w @ message_bytes csid m (choose_head ?os m) ?cs,
      cw_states := (cw_states w)(csid \<mapsto> committed ?os m)\<rparr>"
    using assms(7) write_message_run[OF assms(1) cs(2)] by simp
  have "message_bytes csid m (choose_head ?os m) ?cs = ?hdr @ ?p"
    using assms(6) by (simp add: message_bytes_def)
  then have stream: "cw_stream w1 = cw_stream w @ ?hdr @ ?p" by (simp add: w1)
  have link: "linked w1 ?r" unfolding w1 by (rule linked_step[OF assms(5)])
  obtain w2' r2 bs where msg: "write_message csid' m' w1 = (Inr (), w2')" "cw_stream w2' = cw_stream w1 @ bs"
    "\<And>tail. read_message (?r, bs @ tail) = (Inr m', (r2, tail))"
    using link_message[OF assms(2,4) link] by metis
  have forged: "bs = forged" using msg(1,2) assms(8,9) by simp
  have "forged \<noteq> []"
  proof
    assume "forged = []"
    then have "read_message (?r, []) = (Inr m', (r2, []))" using msg(3)[of "[]"] forged by simp
    then show False
      by (simp add: read_message_def st_until_def read_chunk_def read_basic_header_def st_bind_def read_exact_short)
  qed
  have size: "unat (is_length ?s) = length ?p" using assms(3) by (simp add: unat_u32_of_nat)
  have ok: "partial_ok ?s" by (simp add: partial_ok_def)
  have n: "min (unat (is_length ?s) - length (is_partial ?s)) (cr_chunk_size ?r) = length ?p"
    using size assms(6) cs(1) by simp
  have "read_chunk (r, ?hdr @ begun) = (Inl wire_eof, (?r, []))"
    unfolding first_header[OF assms(1,3,5)]
    using read_chunk_body_run[of ?r csid ?s _ begun, OF _ ok n[symmetric]] \<open>forged \<noteq> []\<close> assms(10) by simp
  then have "read_message (r, ?hdr @ begun) = (Inl wire_eof, (?r, []))"
    by (subst read_message_unfold) (simp add: st_bind_def)
  with stream msg(3)[of rest] show ?thesis unfolding forged by blast
qed

definition forged_call :: message where
  "forged_call = \<lparr>msg_type_id = 20, msg_stream_id = 0, msg_timestamp = 0, msg_payload = [2, 0, 1, 0x78]\<rparr>"

definition carrier :: message where
  "carrier = \<lparr>msg_type_id = 9, msg_stream_id = 1, msg_timestamp = 0,
     msg_payload = [0x17] @ [3, 0, 0, 0, 0, 0, 4, 20, 0, 0, 0, 0, 2, 0, 1, 0x78] @ [0xFF]\<rparr>"

theorem interrupted_read_forges_witness:
  "\<exists>hdr r1 r2. cw_stream (snd (write_message 6 carrier (writer_new []))) = hdr @ msg_payload carrier
    \<and> read_message (reader_new, hdr @ [0x17]) = (Inl wire_eof, (r1, []))
    \<and> read_message (r1, [3, 0, 0, 0, 0, 0, 4, 20, 0, 0, 0, 0, 2, 0, 1, 0x78] @ [0xFF]) = (Inr forged_call, (r2, [0xFF]))"
proof -
  have ok: "csid_ok 6" "csid_ok 3" by (simp_all add: csid_ok_def)
  let ?forged = "[3, 0, 0, 0, 0, 0, 4, 20, 0, 0, 0, 0, 2, 0, 1, 0x78]"
  have fresh: "choose_fmt out_default m = 0" for m by (simp add: choose_fmt_def out_default_def)
  have prev: "\<not> os_had_ext_ts out_default" "os_timestamp out_default = 0" by (simp_all add: out_default_def)
  have zero: "u32_le 0 = [0, 0, 0, 0]" by (simp add: eval_nat_numeral)
  define w1 where "w1 = snd (write_message 6 carrier (writer_new []))"
  have chunk: "1 \<le> cw_chunk_size (writer_new [])" by (simp add: writer_new_def DEFAULT_CHUNK_SIZE_def)
  have run1: "write_message 6 carrier (writer_new []) = (Inr (), w1)"
    using write_message_run[OF ok(1) chunk] by (simp add: w1_def)
  have w1: "cw_chunk_size w1 = 128" "out_state_of w1 3 = out_default"
    using run1[symmetric] unfolding write_message_run[OF ok(1) chunk]
    by (simp_all add: writer_new_def DEFAULT_CHUNK_SIZE_def out_state_of_def)
  have "message_bytes 3 forged_call (choose_head out_default forged_call) 128 = ?forged"
    by (simp add: message_bytes_def fresh forged_call_def chunk_header_bytes_def basic_header_bytes_def message_header_bytes_def
        ts_field_def length_field_def ext_field_def choose_head_def Let_def u24_be_def prev zero)
  then have run2: "write_message 3 forged_call w1 = (Inr (), snd (write_message 3 forged_call w1))"
    "cw_stream (snd (write_message 3 forged_call w1)) = cw_stream w1 @ ?forged"
    using write_message_run[OF ok(2), of w1 forged_call] by (simp_all add: w1)
  have "\<exists>hdr r1 r2. cw_stream w1 = cw_stream (writer_new []) @ hdr @ msg_payload carrier
    \<and> read_message (reader_new, hdr @ [0x17]) = (Inl wire_eof, (r1, []))
    \<and> read_message (r1, ?forged @ [0xFF]) = (Inr forged_call, (r2, [0xFF]))"
    by (rule interrupted_read_forges[OF ok _ _ linked_new[of "[]"] _ run1 run2])
      (simp_all add: carrier_def forged_call_def writer_new_def DEFAULT_CHUNK_SIZE_def)
  then show ?thesis by (simp add: w1_def writer_new_def)
qed

end
