(* ===== verification/Interleave.thy ===== *)
theory Interleave
  imports Chunk_Link
begin

text \<open>
  Chunks of several messages on one connection (\<open>chunk.rs\<close>).  \<open>ChunkWriter\<close> writes
  a message in one go; a peer may put chunks of other messages between the chunks of one.
  \<open>send_chunks\<close> is such a peer: it begins and continues messages in any order it likes, and makes
  its chunks with the header decision and the per-csid table of the writer.  The reader of the
  source, \<open>read_message\<close>, is proved to put every message together again.
\<close>

section \<open>A peer that interleaves\<close>

text \<open>
  What the peer does next: begin a message on a chunk stream, send the next chunk of the
  message that is half sent there, or change the chunk size (the reader changes it too).
\<close>

datatype chunk_move = Begin u32 message | Continue u32 | Agree nat

text \<open>The half-sent messages: per chunk stream the message, its header and the bytes already sent.\<close>

record chunk_peer =
  cp_writer :: chunk_writer
  cp_open :: "u32 \<rightharpoonup> message \<times> chunk_head \<times> nat"

definition put_chunk :: "u32 \<Rightarrow> message \<Rightarrow> chunk_head \<Rightarrow> u8 \<Rightarrow> nat \<Rightarrow> chunk_peer \<Rightarrow> link_op option \<times> chunk_peer" where
  "put_chunk csid m h fmt k p =
    (let w = cp_writer p; k' = k + cw_chunk_size w; done = (length (msg_payload m) \<le> k') in
     (if done then Some (Send csid m) else None,
      p\<lparr>cp_writer := w\<lparr>cw_stream := cw_stream w @ chunk_header_bytes csid m h fmt
           @ take (cw_chunk_size w) (drop k (msg_payload m))\<rparr>,
        cp_open := (cp_open p)(csid := if done then None else Some (m, h, k'))\<rparr>))"

fun send_chunk :: "chunk_move \<Rightarrow> chunk_peer \<Rightarrow> link_op option \<times> chunk_peer" where
  "send_chunk (Begin csid m) p =
    (let w = cp_writer p; os = out_state_of w csid in
     put_chunk csid m (choose_head os m) (choose_fmt os m) 0
       (p\<lparr>cp_writer := w\<lparr>cw_states := (cw_states w)(csid \<mapsto> committed os m)\<rparr>\<rparr>))"
| "send_chunk (Continue csid) p =
    (case cp_open p csid of
       None \<Rightarrow> (None, p)
     | Some (m, h, k) \<Rightarrow> put_chunk csid m h 3 k p)"
| "send_chunk (Agree n) p = (Some (Resize n), p\<lparr>cp_writer := writer_set_chunk_size n (cp_writer p)\<rparr>)"

text \<open>
  The moves of a run, and what the reader has to do for it: one \<open>read_message\<close> for each
  message that has become complete (\<open>Send\<close>), in that order, and the changes of the chunk size.
\<close>

fun send_chunks :: "chunk_move list \<Rightarrow> chunk_peer \<Rightarrow> link_op list \<times> chunk_peer" where
  "send_chunks [] p = ([], p)"
| "send_chunks (mv # mvs) p =
    (let (op, p1) = send_chunk mv p; (ops, p2) = send_chunks mvs p1 in
     (case op of None \<Rightarrow> ops | Some x \<Rightarrow> x # ops, p2))"

text \<open>
  The rules: a message begins on a chunk stream that has none open, only an open one is
  continued, and the chunk size changes only where a message has just become complete (the
  reader cannot be told inside one \<open>read_message\<close>).  A run ends at such a point; other
  messages may still be half sent then.
\<close>

fun may_send :: "bool \<Rightarrow> chunk_move \<Rightarrow> chunk_peer \<Rightarrow> bool" where
  "may_send idle (Begin csid m) p \<longleftrightarrow> csid_ok csid \<and> length (msg_payload m) < 2 ^ 24 \<and> cp_open p csid = None"
| "may_send idle (Continue csid) p \<longleftrightarrow> cp_open p csid \<noteq> None"
| "may_send idle (Agree n) p \<longleftrightarrow> idle"

fun may_send_all :: "bool \<Rightarrow> chunk_move list \<Rightarrow> chunk_peer \<Rightarrow> bool" where
  "may_send_all idle [] p \<longleftrightarrow> idle"
| "may_send_all idle (mv # mvs) p \<longleftrightarrow> may_send idle mv p
     \<and> may_send_all (fst (send_chunk mv p) \<noteq> None) mvs (snd (send_chunk mv p))"

section \<open>The two ends in step\<close>

definition sent_part :: "chunk_peer \<Rightarrow> u32 \<Rightarrow> u8 list" where
  "sent_part p csid = (case cp_open p csid of None \<Rightarrow> [] | Some (m, h, k) \<Rightarrow> take k (msg_payload m))"

definition open_ok :: "out_state \<Rightarrow> message \<times> chunk_head \<times> nat \<Rightarrow> bool" where
  "open_ok os = (\<lambda>(m, h, k). 0 < k \<and> k < length (msg_payload m) \<and> length (msg_payload m) < 2 ^ 24
     \<and> (\<exists>prev. os = committed prev m \<and> h = choose_head prev m))"

definition in_step :: "chunk_peer \<Rightarrow> chunk_reader \<Rightarrow> bool" where
  "in_step p r \<longleftrightarrow> cw_chunk_size (cp_writer p) = cr_chunk_size r \<and> 1 \<le> cr_chunk_size r
     \<and> (\<forall>csid. os_primed (out_state_of (cp_writer p) csid) \<longrightarrow>
          cr_states r csid = Some (in_of (out_state_of (cp_writer p) csid)\<lparr>is_partial := sent_part p csid\<rparr>))
     \<and> (\<forall>csid x. cp_open p csid = Some x \<longrightarrow> csid_ok csid \<and> open_ok (out_state_of (cp_writer p) csid) x)"

abbreviation idle_peer :: "chunk_writer \<Rightarrow> chunk_peer" where
  "idle_peer w \<equiv> \<lparr>cp_writer = w, cp_open = Map.empty\<rparr>"

lemma in_step_idle: "in_step (idle_peer w) r \<longleftrightarrow> linked w r"
  by (simp add: in_step_def linked_def sent_part_def in_of_def)

lemma in_step_closed: "in_step p r \<Longrightarrow> cp_open p = Map.empty \<Longrightarrow> linked (cp_writer p) r"
  using in_step_idle[of "cp_writer p" r] by (cases p) simp

lemma in_step_resize:
  "in_step p r \<Longrightarrow>
   in_step (p\<lparr>cp_writer := writer_set_chunk_size n (cp_writer p)\<rparr>) (reader_set_chunk_size n r)"
  using clamp_bounds[of n]
  by (simp add: in_step_def sent_part_def writer_set_chunk_size_def reader_set_chunk_size_def out_state_of_def)

lemma committed_primed [simp]: "os_primed (committed prev m)"
  by (simp add: committed_def Let_def)

text \<open>
  One chunk of one message.  \<open>p\<close> is the peer with the table entry of the message already
  committed, \<open>r\<close> the reader after the header of the chunk.
\<close>

lemma body_in_step:
  fixes m :: message
  assumes p: "cw_chunk_size (cp_writer p) = cr_chunk_size r" "1 \<le> cr_chunk_size r"
    "\<And>c. c \<noteq> csid \<Longrightarrow> os_primed (out_state_of (cp_writer p) c) \<Longrightarrow>
       cr_states r c = Some (in_of (out_state_of (cp_writer p) c)\<lparr>is_partial := sent_part p c\<rparr>)"
    "\<And>c x. c \<noteq> csid \<Longrightarrow> cp_open p c = Some x \<Longrightarrow> csid_ok c \<and> open_ok (out_state_of (cp_writer p) c) x"
    and m: "out_state_of (cp_writer p) csid = committed prev m" "csid_ok csid" "length (msg_payload m) < 2 ^ 24"
    and s: "cr_states r csid = Some (in_of (committed prev m)\<lparr>is_partial := take k (msg_payload m)\<rparr>)"
    and k: "k = 0 \<or> k < length (msg_payload m)"
    and sent: "put_chunk csid m (choose_head prev m) fmt k p = (op, p')"
  shows "\<exists>r'. (\<forall>tail. read_chunk_body csid (r, take (cw_chunk_size (cp_writer p)) (drop k (msg_payload m)) @ tail)
        = (Inr (map_option (\<lambda>_. m) op), (r', tail)))
    \<and> in_step p' r' \<and> (op = None \<or> op = Some (Send csid m))
    \<and> cr_received_bytes r' = cr_received_bytes r
        + word_of_nat (length (take (cw_chunk_size (cp_writer p)) (drop k (msg_payload m))))"
proof -
  let ?p = "msg_payload m" and ?n = "cr_chunk_size r"
  let ?s = "in_of (committed prev m)\<lparr>is_partial := take k ?p\<rparr>"
  let ?k = "k + ?n" and ?rest = "drop k ?p"
  let ?s' = "in_of (committed prev m)\<lparr>is_partial := if length ?p \<le> ?k then [] else take ?k ?p\<rparr>"
  let ?r' = "(charge (length (take ?n ?rest)) r)\<lparr>cr_states := (cr_states r)(csid \<mapsto> ?s')\<rparr>"
  have size: "unat (is_length ?s) = length ?p" using m(3) by (simp add: in_of_def committed_def Let_def unat_u32_of_nat)
  have ok: "partial_ok ?s" using size k by (auto simp: partial_ok_def)
  have owed: "length (is_partial ?s) + length ?rest = unat (is_length ?s)" using size k by auto
  have part: "take k ?p @ take ?n ?rest = take ?k ?p" by (simp add: take_add)
  have all: "length ?rest \<le> ?n \<longleftrightarrow> length ?p \<le> ?k" using k by auto
  have run: "read_chunk_body csid (r, take ?n ?rest @ tail)
      = (Inr (if length ?p \<le> ?k then Some m else None), (?r', tail))" for tail
    unfolding chunk_body_step[OF s ok owed] all by (simp add: Let_def part)
  have op: "op = (if length ?p \<le> ?k then Some (Send csid m) else None)"
    and p': "p' = p\<lparr>cp_writer := cp_writer p\<lparr>cw_stream := cw_stream (cp_writer p)
        @ chunk_header_bytes csid m (choose_head prev m) fmt @ take ?n ?rest\<rparr>,
        cp_open := (cp_open p)(csid := if length ?p \<le> ?k then None else Some (m, choose_head prev m, ?k))\<rparr>"
    using sent[unfolded put_chunk_def Let_def p(1)] by auto
  have os: "out_state_of (cp_writer p') c = out_state_of (cp_writer p) c" for c
    by (simp add: p' out_state_of_def)
  have "in_step p' ?r'"
    unfolding in_step_def os
  proof (intro conjI allI impI)
    fix c assume "os_primed (out_state_of (cp_writer p) c)"
    then show "cr_states ?r' c = Some (in_of (out_state_of (cp_writer p) c)\<lparr>is_partial := sent_part p' c\<rparr>)"
      using p(3)[of c] m(1) by (cases "c = csid") (simp_all add: p' sent_part_def)
  next
    fix c x assume "cp_open p' c = Some x"
    then show "csid_ok c" "open_ok (out_state_of (cp_writer p) c) x"
      using p(4)[of c x] p(2) m k by (cases "c = csid"; auto simp: p' open_ok_def split: if_splits)+
  qed (use p(1,2) in \<open>simp_all add: p'\<close>)
  then show ?thesis
    unfolding p(1) op using run by (intro exI[of _ ?r']) simp
qed


text \<open>One move: the chunk it puts on the stream is one round of the reader's loop.\<close>

lemma begin_in_step:
  assumes "in_step p r" and "may_send idle (Begin csid m) p" and "send_chunk (Begin csid m) p = (op, p')"
  shows "\<exists>bs r'. cw_stream (cp_writer p') = cw_stream (cp_writer p) @ bs
    \<and> (\<forall>tail. read_chunk (r, bs @ tail) = (Inr (map_option (\<lambda>_. m) op), (r', tail)))
    \<and> in_step p' r' \<and> (op = None \<or> op = Some (Send csid m))
    \<and> cr_received_bytes r' = cr_received_bytes r + word_of_nat (length bs)"
proof -
  let ?w = "cp_writer p" and ?os = "out_state_of (cp_writer p) csid"
  let ?h = "choose_head ?os m"
  let ?hdr = "chunk_header_bytes csid m ?h (choose_fmt ?os m)"
  let ?p = "p\<lparr>cp_writer := ?w\<lparr>cw_states := (cw_states ?w)(csid \<mapsto> committed ?os m)\<rparr>\<rparr>"
  let ?r = "(charge (length ?hdr) r)\<lparr>cr_states := (cr_states r)(csid \<mapsto> in_of (committed ?os m))\<rparr>"
  have ok: "csid_ok csid" "length (msg_payload m) < 2 ^ 24" "cp_open p csid = None" using assms(2) by simp_all
  have st: "in_step p r" by (rule assms(1))
  have others: "out_state_of (cp_writer ?p) c = out_state_of ?w c" if "c \<noteq> csid" for c
    using that by (simp add: out_state_of_def)
  have "os_primed ?os \<Longrightarrow> cr_states r csid = Some (in_of ?os)"
    using st ok(3) by (simp add: in_step_def sent_part_def in_of_def)
  note head = begin_header[OF ok(1,2) this]
  have sent: "put_chunk csid m ?h (choose_fmt ?os m) 0 ?p = (op, p')" using assms(3) by (simp add: Let_def)
  have "\<exists>r'. (\<forall>tail. read_chunk_body csid (?r, take (cw_chunk_size (cp_writer ?p)) (drop 0 (msg_payload m)) @ tail)
        = (Inr (map_option (\<lambda>_. m) op), (r', tail)))
    \<and> in_step p' r' \<and> (op = None \<or> op = Some (Send csid m))
    \<and> cr_received_bytes r' = cr_received_bytes ?r
        + word_of_nat (length (take (cw_chunk_size (cp_writer ?p)) (drop 0 (msg_payload m))))"
    by (rule body_in_step[OF _ _ _ _ _ ok(1,2) _ _ sent])
      (use st others in \<open>auto simp: in_step_def sent_part_def out_state_of_def in_of_def\<close>)
  then obtain r' where r': "\<And>tail. read_chunk_body csid (?r, take (cw_chunk_size ?w) (msg_payload m) @ tail)
        = (Inr (map_option (\<lambda>_. m) op), (r', tail))"
    "in_step p' r'" "op = None \<or> op = Some (Send csid m)"
    "cr_received_bytes r' = cr_received_bytes ?r + word_of_nat (length (take (cw_chunk_size ?w) (msg_payload m)))"
    by auto
  have stream: "cw_stream (cp_writer p') = cw_stream ?w @ ?hdr @ take (cw_chunk_size ?w) (msg_payload m)"
    using sent by (auto simp: put_chunk_def Let_def)
  show ?thesis
    by (rule exI[of _ "?hdr @ take (cw_chunk_size ?w) (msg_payload m)"], rule exI[of _ r'])
      (use r' stream in \<open>simp add: head algebra_simps\<close>)
qed

lemma continue_in_step:
  assumes "in_step p r" and "cp_open p csid = Some (m, h, k)" and "send_chunk (Continue csid) p = (op, p')"
  shows "\<exists>bs r'. cw_stream (cp_writer p') = cw_stream (cp_writer p) @ bs
    \<and> (\<forall>tail. read_chunk (r, bs @ tail) = (Inr (map_option (\<lambda>_. m) op), (r', tail)))
    \<and> in_step p' r' \<and> (op = None \<or> op = Some (Send csid m))
    \<and> cr_received_bytes r' = cr_received_bytes r + word_of_nat (length bs)"
proof -
  let ?w = "cp_writer p"
  let ?hdr = "chunk_header_bytes csid m h 3" and ?body = "take (cw_chunk_size (cp_writer p)) (drop k (msg_payload m))"
  have st: "in_step p r" by (rule assms(1))
  have "csid_ok csid" "open_ok (out_state_of ?w csid) (m, h, k)"
    using st assms(2) by (simp_all add: in_step_def)
  then obtain prev where csid: "csid_ok csid" and k: "0 < k" "k < length (msg_payload m)"
    and len: "length (msg_payload m) < 2 ^ 24"
    and prev: "out_state_of ?w csid = committed prev m" and h: "h = choose_head prev m"
    by (auto simp: open_ok_def)
  let ?s = "in_of (committed prev m)\<lparr>is_partial := take k (msg_payload m)\<rparr>"
  have s: "cr_states r csid = Some ?s" using st assms(2) by (simp add: in_step_def prev sent_part_def)
  have "is_partial ?s \<noteq> []" "is_had_ext_ts ?s = ch_fmt3_ext h" using k by (auto simp: h)
  note head = continuation_header_run[OF csid s this]
  have sent: "put_chunk csid m (choose_head prev m) 3 k p = (op, p')" using assms(2,3) by (simp add: h)
  let ?r = "charge (length ?hdr) r"
  have "\<exists>r'. (\<forall>tail. read_chunk_body csid (?r, ?body @ tail) = (Inr (map_option (\<lambda>_. m) op), (r', tail)))
    \<and> in_step p' r' \<and> (op = None \<or> op = Some (Send csid m))
    \<and> cr_received_bytes r' = cr_received_bytes ?r + word_of_nat (length ?body)"
    by (rule body_in_step[OF _ _ _ _ prev csid len _ _ sent])
      (use st s k in \<open>auto simp: in_step_def\<close>)
  then obtain r' where r': "\<And>tail. read_chunk_body csid (?r, ?body @ tail) = (Inr (map_option (\<lambda>_. m) op), (r', tail))"
    "in_step p' r'" "op = None \<or> op = Some (Send csid m)"
    "cr_received_bytes r' = cr_received_bytes ?r + word_of_nat (length ?body)"
    by auto
  have stream: "cw_stream (cp_writer p') = cw_stream ?w @ ?hdr @ ?body"
    using sent by (auto simp: put_chunk_def Let_def h)
  show ?thesis
    by (rule exI[of _ "?hdr @ ?body"], rule exI[of _ r'])
      (use r' stream in \<open>simp add: head algebra_simps\<close>)
qed

section \<open>A whole run\<close>

text \<open>Inside a message the first thing the reader owes is that message.\<close>

lemma first_is_message:
  "may_send_all False mvs p \<Longrightarrow> \<exists>csid m ops. fst (send_chunks mvs p) = Send csid m # ops"
proof (induction mvs arbitrary: p)
  case (Cons mv mvs)
  obtain op p1 where mv: "send_chunk mv p = (op, p1)" by (rule prod.exhaust)
  show ?case
  proof (cases op)
    case None
    then have "may_send_all False mvs p1" using Cons.prems mv by simp
    from Cons.IH[OF this] show ?thesis by (auto simp: mv None split: prod.split)
  next
    case (Some x)
    have "\<exists>csid m. x = Send csid m"
      using mv Cons.prems Some by (cases mv) (auto simp: put_chunk_def Let_def split: if_splits option.splits prod.splits)
    then show ?thesis by (auto simp: mv Some split: prod.split)
  qed
qed simp

lemma read_ops_later:
  assumes "read_chunk (r, bs) = (Inr None, (r1, bs1))"
  shows "read_ops (Send csid m # ops) (r, bs) = read_ops (Send csid m # ops) (r1, bs1)"
proof -
  have "read_message (r, bs) = read_message (r1, bs1)"
    by (subst read_message_unfold) (simp add: st_bind_def assms)
  then show ?thesis by (simp add: st_bind_def)
qed

lemma read_ops_now:
  assumes "read_chunk (r, bs) = (Inr (Some m), (r1, bs1))"
  shows "read_ops (Send csid m' # ops) (r, bs) =
    st_bind (read_ops ops) (\<lambda>ms. st_return (m # ms)) (r1, bs1)"
proof -
  have "read_message (r, bs) = (Inr m, (r1, bs1))"
    by (subst read_message_unfold) (simp add: st_bind_def assms st_run)
  then show ?thesis by (simp add: st_bind_def)
qed

definition run_goal :: "link_op list \<Rightarrow> chunk_peer \<Rightarrow> chunk_peer \<Rightarrow> chunk_reader \<Rightarrow> bool" where
  "run_goal ops p p' r \<longleftrightarrow> (\<exists>bs r'. cw_stream (cp_writer p') = cw_stream (cp_writer p) @ bs
     \<and> (\<forall>tail. read_ops ops (r, bs @ tail) = (Inr (sent ops), (r', tail)))
     \<and> in_step p' r' \<and> cr_received_bytes r' = cr_received_bytes r + word_of_nat (length bs))"

lemma run_goal_chunk:
  assumes "cw_stream (cp_writer p1) = cw_stream (cp_writer p) @ a"
    and chunk: "\<And>tail. read_chunk (r, a @ tail) = (Inr (map_option (\<lambda>_. m) op), (r1, tail))"
    and "cr_received_bytes r1 = cr_received_bytes r + word_of_nat (length a)"
    and rest: "run_goal ops p1 p' r1"
    and op: "op = None \<and> (\<exists>c m' ops'. ops = Send c m' # ops') \<or> op = Some (Send csid m)"
  shows "run_goal (case op of None \<Rightarrow> ops | Some x \<Rightarrow> x # ops) p p' r"
proof -
  obtain b r' where b: "cw_stream (cp_writer p') = cw_stream (cp_writer p1) @ b"
    "\<And>tail. read_ops ops (r1, b @ tail) = (Inr (sent ops), (r', tail))"
    "in_step p' r'" "cr_received_bytes r' = cr_received_bytes r1 + word_of_nat (length b)"
    using rest by (auto simp: run_goal_def)
  have "read_ops (case op of None \<Rightarrow> ops | Some x \<Rightarrow> x # ops) (r, a @ b @ tail)
      = (Inr (sent (case op of None \<Rightarrow> ops | Some x \<Rightarrow> x # ops)), (r', tail))" for tail
    using op
  proof (elim disjE conjE exE)
    fix c m' ops' assume "op = None" "ops = Send c m' # ops'"
    then show ?thesis using b(2)[of tail] read_ops_later[of r "a @ b @ tail" r1 "b @ tail" c m' ops'] chunk[of "b @ tail"]
      by simp
  next
    assume "op = Some (Send csid m)"
    then show ?thesis using b(2)[of tail] read_ops_now[of r "a @ b @ tail" m r1 "b @ tail" csid m ops] chunk[of "b @ tail"]
      by (simp add: st_bind_def st_run)
  qed
  then show ?thesis
    unfolding run_goal_def using assms(1,3) b
    by (intro exI[of _ "a @ b"] exI[of _ r']) (simp add: algebra_simps)
qed

lemma run_in_step:
  "in_step p r \<Longrightarrow> may_send_all idle mvs p \<Longrightarrow> send_chunks mvs p = (ops, p') \<Longrightarrow> run_goal ops p p' r"
proof (induction mvs arbitrary: p r idle ops)
  case Nil
  then show ?case by (auto simp: run_goal_def st_run intro!: exI[of _ "[]"])
next
  case (Cons mv mvs)
  obtain op p1 where mv: "send_chunk mv p = (op, p1)" by (rule prod.exhaust)
  obtain ops1 where ops1: "send_chunks mvs p1 = (ops1, p')" "ops = (case op of None \<Rightarrow> ops1 | Some x \<Rightarrow> x # ops1)"
    using Cons.prems(3) mv by (auto split: prod.splits)
  have later: "may_send_all (op \<noteq> None) mvs p1" and now: "may_send idle mv p" using Cons.prems(2) mv by simp_all
  have msg: "op = None \<Longrightarrow> \<exists>c m' ops'. ops1 = Send c m' # ops'"
    using first_is_message[of mvs p1] later ops1(1) by simp
  have chunk: ?case if "cw_stream (cp_writer p1) = cw_stream (cp_writer p) @ a"
    "\<forall>tail. read_chunk (r, a @ tail) = (Inr (map_option (\<lambda>_. m) op), (r1, tail))"
    "in_step p1 r1" "op = None \<or> op = Some (Send csid m)"
    "cr_received_bytes r1 = cr_received_bytes r + word_of_nat (length a)" for a m r1 csid
    unfolding ops1(2)
    by (rule run_goal_chunk[where m = m and csid = csid, OF that(1) _ that(5) Cons.IH[OF that(3) later ops1(1)]])
      (use that(2,4) msg in auto)
  show ?case
  proof (cases mv)
    case (Begin csid m)
    show ?thesis
      using begin_in_step[OF Cons.prems(1) now[unfolded Begin] mv[unfolded Begin]] chunk by blast
  next
    case (Continue csid)
    then obtain m h k where "cp_open p csid = Some (m, h, k)" using now by (auto)
    from continue_in_step[OF Cons.prems(1) this mv[unfolded Continue]] chunk show ?thesis by blast
  next
    case (Agree n)
    then have p1: "p1 = p\<lparr>cp_writer := writer_set_chunk_size n (cp_writer p)\<rparr>" "op = Some (Resize n)"
      using mv by simp_all
    have "run_goal ops1 p1 p' (reader_set_chunk_size n r)"
      by (rule Cons.IH[OF _ later ops1(1)]) (simp add: p1 in_step_resize[OF Cons.prems(1)])
    then show ?thesis
      by (auto simp: run_goal_def ops1(2) p1 st_bind_def writer_set_chunk_size_def reader_set_chunk_size_def)
  qed
qed

text \<open>Chunk stream by chunk stream: what began there is what became complete there, then what is open.\<close>

fun begun_on :: "u32 \<Rightarrow> chunk_move list \<Rightarrow> message list" where
  "begun_on csid [] = []"
| "begun_on csid (Begin c m # mvs) = (if c = csid then m # begun_on csid mvs else begun_on csid mvs)"
| "begun_on csid (_ # mvs) = begun_on csid mvs"

fun sent_on :: "u32 \<Rightarrow> link_op list \<Rightarrow> message list" where
  "sent_on csid [] = []"
| "sent_on csid (Send c m # ops) = (if c = csid then m # sent_on csid ops else sent_on csid ops)"
| "sent_on csid (Resize n # ops) = sent_on csid ops"

definition half_sent :: "chunk_peer \<Rightarrow> u32 \<Rightarrow> message list" where
  "half_sent p csid = (case cp_open p csid of None \<Rightarrow> [] | Some (m, h, k) \<Rightarrow> [m])"

lemma send_chunk_begun:
  assumes "may_send idle mv p" and "send_chunk mv p = (op, p1)"
  shows "half_sent p csid @ begun_on csid [mv] = sent_on csid (case op of None \<Rightarrow> [] | Some x \<Rightarrow> [x]) @ half_sent p1 csid"
  using assms by (cases mv) (auto simp: half_sent_def put_chunk_def Let_def)

lemma begun_on_Cons: "begun_on csid (mv # mvs) = begun_on csid [mv] @ begun_on csid mvs"
  by (cases mv) simp_all

lemma sent_on_Cons: "sent_on csid (x # ops) = sent_on csid [x] @ sent_on csid ops"
  by (cases x) simp_all

lemma send_chunks_begun:
  "may_send_all idle mvs p \<Longrightarrow> send_chunks mvs p = (ops, p') \<Longrightarrow>
   half_sent p csid @ begun_on csid mvs = sent_on csid ops @ half_sent p' csid"
proof (induction mvs arbitrary: p idle ops)
  case (Cons mv mvs)
  obtain op p1 where mv: "send_chunk mv p = (op, p1)" by (rule prod.exhaust)
  obtain ops1 where ops1: "send_chunks mvs p1 = (ops1, p')" "ops = (case op of None \<Rightarrow> ops1 | Some x \<Rightarrow> x # ops1)"
    using Cons.prems(2) mv by (auto split: prod.splits)
  have later: "may_send_all (op \<noteq> None) mvs p1" and now: "may_send idle mv p" using Cons.prems(1) mv by simp_all
  have "half_sent p csid @ begun_on csid (mv # mvs)
      = (half_sent p csid @ begun_on csid [mv]) @ begun_on csid mvs"
    by (subst begun_on_Cons) simp
  also have "\<dots> = sent_on csid (case op of None \<Rightarrow> [] | Some x \<Rightarrow> [x]) @ half_sent p1 csid @ begun_on csid mvs"
    by (simp add: send_chunk_begun[OF now mv])
  also have "\<dots> = sent_on csid ops @ half_sent p' csid"
    unfolding Cons.IH[OF later ops1(1)] ops1(2)
    by (cases op) (simp_all add: sent_on_Cons[of csid _ ops1])
  finally show ?case .
qed (simp add: half_sent_def)

text \<open>
  A message whose chunks are not interrupted: the peer puts on the stream what
  \<open>write_message\<close> puts there, and leaves the writer's table as it does.
\<close>

lemma div_Suc_chunk: "a = b + n \<Longrightarrow> 1 \<le> n \<Longrightarrow> a div n = Suc (b div n)" for n :: nat
  using div_add_self2[of n b] by simp

lemma continue_whole:
  assumes "cp_open p csid = Some (m, h, k)" and "0 < k" and "k < length (msg_payload m)" and "1 \<le> cw_chunk_size (cp_writer p)"
    and "length (msg_payload m) - k < n"
  defines "cs \<equiv> cw_chunk_size (cp_writer p)"
  shows "send_chunks (replicate (Suc ((length (msg_payload m) - k - 1) div cs)) (Continue csid)) p
    = ([Send csid m], p\<lparr>cp_writer := (cp_writer p)\<lparr>cw_stream := cw_stream (cp_writer p)
         @ continuation_bytes n (chunk_header_bytes csid m h 3) cs (drop k (msg_payload m))\<rparr>,
        cp_open := (cp_open p)(csid := None)\<rparr>)"
  using assms(1,2,3,4,5) unfolding cs_def
proof (induction n arbitrary: p k)
  case (Suc n)
  let ?cs = "cw_chunk_size (cp_writer p)" and ?p = "msg_payload m"
  show ?case
  proof (cases "length ?p \<le> k + ?cs")
    case True
    then have "(length ?p - k - 1) div ?cs = 0" using Suc.prems by (simp add: div_eq_0_iff)
    moreover have "continuation_bytes n hdr ?cs (drop ?cs (drop k ?p)) = []" for hdr
      using True by (cases n) auto
    ultimately show ?thesis using True Suc.prems by (simp add: put_chunk_def Let_def fun_upd_def)
  next
    case False
    let ?w = "(cp_writer p)\<lparr>cw_stream := cw_stream (cp_writer p)
         @ chunk_header_bytes csid m h 3 @ take ?cs (drop k ?p)\<rparr>"
    let ?p1 = "p\<lparr>cp_writer := ?w, cp_open := (cp_open p)(csid \<mapsto> (m, h, k + ?cs))\<rparr>"
    have step: "send_chunk (Continue csid) p = (None, ?p1)" using False Suc.prems by (simp add: put_chunk_def Let_def)
    have "length ?p - k - 1 = (length ?p - (k + ?cs) - 1) + ?cs" using False by simp
    then have count: "(length ?p - k - 1) div ?cs = Suc ((length ?p - (k + ?cs) - 1) div ?cs)"
      by (rule div_Suc_chunk[OF _ Suc.prems(4)])
    have "send_chunks (replicate (Suc ((length ?p - (k + ?cs) - 1) div cw_chunk_size (cp_writer ?p1))) (Continue csid)) ?p1
      = ([Send csid m], ?p1\<lparr>cp_writer := (cp_writer ?p1)\<lparr>cw_stream := cw_stream (cp_writer ?p1)
         @ continuation_bytes n (chunk_header_bytes csid m h 3) (cw_chunk_size (cp_writer ?p1)) (drop (k + ?cs) ?p)\<rparr>,
        cp_open := (cp_open ?p1)(csid := None)\<rparr>)"
      by (rule Suc.IH) (use Suc.prems False in auto)
    then have whole: "send_chunks (replicate (Suc ((length ?p - (k + ?cs) - 1) div ?cs)) (Continue csid)) ?p1
      = ([Send csid m], p\<lparr>cp_writer := (cp_writer p)\<lparr>cw_stream := cw_stream (cp_writer p)
         @ continuation_bytes (Suc n) (chunk_header_bytes csid m h 3) ?cs (drop k ?p)\<rparr>,
        cp_open := (cp_open p)(csid := None)\<rparr>)"
      using False by (simp add: add.commute del: send_chunks.simps replicate_Suc)
    then show ?thesis
      by (simp only: count replicate_Suc[of "Suc _"] send_chunks.simps(2) step Let_def prod.case option.case whole)
  qed
qed simp

lemma whole_message_sent:
  assumes "csid_ok csid" and "1 \<le> cw_chunk_size w" and "write_message csid m w = (Inr (), w')"
  shows "send_chunks (Begin csid m # replicate ((length (msg_payload m) - 1) div cw_chunk_size w) (Continue csid))
      \<lparr>cp_writer = w, cp_open = opened\<rparr>
    = ([Send csid m], \<lparr>cp_writer = w', cp_open = opened(csid := None)\<rparr>)"
proof -
  let ?os = "out_state_of w csid" and ?p = "msg_payload m" and ?cs = "cw_chunk_size w"
  let ?h = "choose_head ?os m"
  have w': "w' = w\<lparr>cw_stream := cw_stream w @ message_bytes csid m ?h ?cs,
      cw_states := (cw_states w)(csid \<mapsto> committed ?os m)\<rparr>"
    using assms(3) write_message_run[OF assms(1,2)] by simp
  show ?thesis
  proof (cases "length ?p \<le> ?cs")
    case True
    then have "(length ?p - 1) div ?cs = 0" using assms(2) by (simp add: div_eq_0_iff)
    with True show ?thesis by (simp add: put_chunk_def Let_def w' message_bytes_def)
  next
    case False
    let ?w1 = "w\<lparr>cw_stream := cw_stream w @ chunk_header_bytes csid m ?h (choose_fmt ?os m) @ take ?cs ?p,
      cw_states := (cw_states w)(csid \<mapsto> committed ?os m)\<rparr>"
    let ?p1 = "\<lparr>cp_writer = ?w1, cp_open = opened(csid \<mapsto> (m, ?h, ?cs))\<rparr>"
    have step: "send_chunk (Begin csid m) \<lparr>cp_writer = w, cp_open = opened\<rparr> = (None, ?p1)"
      using False by (simp add: put_chunk_def Let_def)
    have "length ?p - 1 = (length ?p - ?cs - 1) + ?cs" using False by simp
    then have count: "(length ?p - 1) div ?cs = Suc ((length ?p - ?cs - 1) div ?cs)"
      by (rule div_Suc_chunk[OF _ assms(2)])
    have "send_chunks (replicate (Suc ((length ?p - ?cs - 1) div cw_chunk_size (cp_writer ?p1))) (Continue csid)) ?p1
      = ([Send csid m], ?p1\<lparr>cp_writer := (cp_writer ?p1)\<lparr>cw_stream := cw_stream (cp_writer ?p1)
         @ continuation_bytes (Suc (length ?p)) (chunk_header_bytes csid m ?h 3) (cw_chunk_size (cp_writer ?p1)) (drop ?cs ?p)\<rparr>,
        cp_open := (cp_open ?p1)(csid := None)\<rparr>)"
      by (rule continue_whole) (use False assms(2) in auto)
    then have "send_chunks (replicate (Suc ((length ?p - ?cs - 1) div ?cs)) (Continue csid)) ?p1
      = ([Send csid m], \<lparr>cp_writer = w', cp_open = opened(csid := None)\<rparr>)"
      by (simp add: w' message_bytes_def del: continuation_bytes.simps send_chunks.simps replicate_Suc)
    then show ?thesis
      by (simp only: count send_chunks.simps(2) step Let_def prod.case option.case)
  qed
qed

section \<open>Property\<close>

text \<open>
  C14. Chunk streams are independent.  A peer may cut its messages into chunks and mix the chunks
  of any number of messages, as long as at most one message is open on a chunk stream: a message
  may begin after any chunk of another, be interrupted in its turn, and the chunk size may change
  while messages are half sent.  Whatever was on the connection before, the reader hands out the
  messages in the order in which they become complete, takes exactly their bytes off the wire,
  counts every byte, and keeps what it has of the messages that are still half sent; on each
  chunk stream the messages come out in the order in which they began, none lost and none added;
  and once nothing is half sent the two ends are in step again.  (Chunk stream ids 2 to 65599 and
  payloads below 2^24 bytes, as in the round trip of a session.)
\<close>

theorem interleaved_messages:
  assumes "linked w r" and "may_send_all True mvs (idle_peer w)" and "send_chunks mvs (idle_peer w) = (ops, p)"
  shows "\<exists>bs r'. cw_stream (cp_writer p) = cw_stream w @ bs
    \<and> (\<forall>tail. read_ops ops (r, bs @ tail) = (Inr (sent ops), (r', tail)))
    \<and> cr_received_bytes r' = cr_received_bytes r + word_of_nat (length bs)
    \<and> in_step p r' \<and> (cp_open p = Map.empty \<longrightarrow> linked (cp_writer p) r')
    \<and> (\<forall>csid. begun_on csid mvs = sent_on csid ops @ half_sent p csid)"
proof -
  have "in_step (idle_peer w) r" using assms(1) by (simp only: in_step_idle)
  from run_in_step[OF this assms(2,3)]
  obtain bs r' where r': "cw_stream (cp_writer p) = cw_stream w @ bs"
    "\<forall>tail. read_ops ops (r, bs @ tail) = (Inr (sent ops), (r', tail))"
    "in_step p r'" "cr_received_bytes r' = cr_received_bytes r + word_of_nat (length bs)"
    by (auto simp: run_goal_def)
  moreover have "begun_on csid mvs = sent_on csid ops @ half_sent p csid" for csid
    using send_chunks_begun[OF assms(2,3), of csid] by (simp add: half_sent_def)
  ultimately show ?thesis using in_step_closed[OF r'(3)] by blast
qed

text \<open>
  Two messages of three bytes each on chunk streams 3 and 4, one byte to a chunk: the second
  begins inside the first and the first goes on inside the second, a third message of one chunk
  comes between them, the chunk size changes while both are half sent, and the second is complete
  before the first; a last one stays half sent.
\<close>

definition mixed_message :: "u8 \<Rightarrow> message" where
  "mixed_message b = \<lparr>msg_type_id = 9, msg_stream_id = 1, msg_timestamp = 40, msg_payload = [b, b + 1, b + 2]\<rparr>"

definition mixed_moves :: "chunk_move list" where
  "mixed_moves =
    [Begin 3 (mixed_message 1), Begin 4 (mixed_message 11), Continue 3,
     Begin 70 (mixed_message 21\<lparr>msg_payload := [5]\<rparr>), Agree 2, Begin 6 (mixed_message 31), Continue 4, Continue 3,
     Begin 3 (mixed_message 41), Continue 3]"

theorem interleaved_messages_witness:
  "\<exists>ops p bs r'. sent ops = [mixed_message 21\<lparr>msg_payload := [5]\<rparr>, mixed_message 11, mixed_message 1, mixed_message 41]
    \<and> cw_stream (cp_writer p) = bs
    \<and> read_ops ops (reader_set_chunk_size 1 reader_new, bs @ [5]) = (Inr (sent ops), (r', [5]))
    \<and> half_sent p 6 = [mixed_message 31]"
proof -
  let ?w = "writer_set_chunk_size 1 (writer_new [])" and ?r = "reader_set_chunk_size 1 reader_new"
  have link: "linked ?w ?r" by (rule linked_resize[OF linked_new])
  have one: "clamp_chunk_size (Suc 0) = Suc 0" "clamp_chunk_size 2 = 2" by (simp_all add: clamp_chunk_size_def MAX_CHUNK_SIZE_def)
  note defs = mixed_moves_def put_chunk_def Let_def one writer_set_chunk_size_def writer_new_def mixed_message_def
    csid_ok_def half_sent_def out_state_of_def
  obtain ops p where run: "send_chunks mixed_moves (idle_peer ?w) = (ops, p)" by (rule prod.exhaust)
  have may: "may_send_all True mixed_moves (idle_peer ?w)" by (simp add: defs)
  have "sent ops = [mixed_message 21\<lparr>msg_payload := [5]\<rparr>, mixed_message 11, mixed_message 1, mixed_message 41]"
    "half_sent p 6 = [mixed_message 31]"
    using run by (auto simp: defs)
  moreover obtain bs r' where "cw_stream (cp_writer p) = cw_stream ?w @ bs"
    "read_ops ops (?r, bs @ [5]) = (Inr (sent ops), (r', [5]))"
    using interleaved_messages[OF link may run] by blast
  moreover have "cw_stream ?w = []" by (simp add: writer_set_chunk_size_def writer_new_def)
  ultimately show ?thesis by (intro exI[of _ ops] exI[of _ p] exI[of _ bs] exI[of _ r']) simp
qed

end
