(* ===== verification/Hmac.thy ===== *)
theory Hmac
  imports Cursor
begin

text \<open>
  \<open>hmac.rs\<close>: one-shot SHA-256 (FIPS 180-4) and HMAC-SHA256 (RFC 2104), as the digest
  handshake uses them.  The message schedule is the mutable array of the source, a list
  updated by index; the compression loop is \<open>sha_round\<close> folded over the round numbers.
\<close>

section \<open>The routines\<close>

definition SHA256_LEN :: nat where "SHA256_LEN = 32"
definition SHA_BLOCK_LEN :: nat where "SHA_BLOCK_LEN = 64"

text \<open>The round constants, four to a row.\<close>

definition K256 :: "u32 list" where
  "K256 = concat [
    [0x428a2f98, 0x71374491, 0xb5c0fbcf, 0xe9b5dba5],
    [0x3956c25b, 0x59f111f1, 0x923f82a4, 0xab1c5ed5],
    [0xd807aa98, 0x12835b01, 0x243185be, 0x550c7dc3],
    [0x72be5d74, 0x80deb1fe, 0x9bdc06a7, 0xc19bf174],
    [0xe49b69c1, 0xefbe4786, 0x0fc19dc6, 0x240ca1cc],
    [0x2de92c6f, 0x4a7484aa, 0x5cb0a9dc, 0x76f988da],
    [0x983e5152, 0xa831c66d, 0xb00327c8, 0xbf597fc7],
    [0xc6e00bf3, 0xd5a79147, 0x06ca6351, 0x14292967],
    [0x27b70a85, 0x2e1b2138, 0x4d2c6dfc, 0x53380d13],
    [0x650a7354, 0x766a0abb, 0x81c2c92e, 0x92722c85],
    [0xa2bfe8a1, 0xa81a664b, 0xc24b8b70, 0xc76c51a3],
    [0xd192e819, 0xd6990624, 0xf40e3585, 0x106aa070],
    [0x19a4c116, 0x1e376c08, 0x2748774c, 0x34b0bcb5],
    [0x391c0cb3, 0x4ed8aa4a, 0x5b9cca4f, 0x682e6ff3],
    [0x748f82ee, 0x78a5636f, 0x84c87814, 0x8cc70208],
    [0x90befffa, 0xa4506ceb, 0xbef9a3f7, 0xc67178f2]]"

definition H256 :: "u32 list" where
  "H256 = [0x6a09e667, 0xbb67ae85, 0x3c6ef372, 0xa54ff53a, 0x510e527f, 0x9b05688c, 0x1f83d9ab, 0x5be0cd19]"

text \<open>\<open>while msg.len() % 64 != 56 { msg.push(0) }\<close> pushes as many zeros as are missing.\<close>

definition zero_fill :: "nat \<Rightarrow> nat" where
  "zero_fill n = (56 + 64 - n mod 64) mod 64"

definition sha_pad :: "u8 list \<Rightarrow> u8 list" where
  "sha_pad data =
    (let msg = data @ [0x80] in
     msg @ replicate (zero_fill (length msg)) 0 @ u64_be (word_of_nat (length data) * 8))"

text \<open>\<open>as_chunks::<N>().0\<close>: the whole chunks, the remainder dropped.\<close>

function as_chunks :: "nat \<Rightarrow> 'a list \<Rightarrow> 'a list list" where
  "as_chunks n xs = (if n = 0 \<or> length xs < n then [] else take n xs # as_chunks n (drop n xs))"
  by pat_completeness auto
termination by (relation "measure (\<lambda>(_, xs). length xs)") auto

declare as_chunks.simps [simp del]

definition small_s0 :: "u32 \<Rightarrow> u32" where
  "small_s0 x = word_rotr 7 x XOR word_rotr 18 x XOR drop_bit 3 x"
definition small_s1 :: "u32 \<Rightarrow> u32" where
  "small_s1 x = word_rotr 17 x XOR word_rotr 19 x XOR drop_bit 10 x"
definition big_s0 :: "u32 \<Rightarrow> u32" where
  "big_s0 x = word_rotr 2 x XOR word_rotr 13 x XOR word_rotr 22 x"
definition big_s1 :: "u32 \<Rightarrow> u32" where
  "big_s1 x = word_rotr 6 x XOR word_rotr 11 x XOR word_rotr 25 x"

definition load_words :: "u8 list \<Rightarrow> u32 list \<Rightarrow> u32 list" where
  "load_words chunk w =
     fold (\<lambda>(i, word) w. w[i := of_be word]) (enumerate 0 (as_chunks 4 chunk)) w"

definition extend_step :: "nat \<Rightarrow> u32 list \<Rightarrow> u32 list" where
  "extend_step i w = w[i := w ! (i - 16) + small_s0 (w ! (i - 15)) + w ! (i - 7) + small_s1 (w ! (i - 2))]"

definition message_schedule :: "u8 list \<Rightarrow> u32 list \<Rightarrow> u32 list" where
  "message_schedule chunk w = fold extend_step [16..<64] (load_words chunk w)"

type_synonym sha_regs = "u32 \<times> u32 \<times> u32 \<times> u32 \<times> u32 \<times> u32 \<times> u32 \<times> u32"

definition sha_round :: "u32 list \<Rightarrow> nat \<Rightarrow> sha_regs \<Rightarrow> sha_regs" where
  "sha_round w i = (\<lambda>(a, b, c, d, e, f, g, hh).
     let ch = (e AND f) XOR (NOT e AND g);
         t1 = hh + big_s1 e + ch + K256 ! i + w ! i;
         maj = (a AND b) XOR (a AND c) XOR (b AND c);
         t2 = big_s0 a + maj
     in (t1 + t2, a, b, c, d + t1, e, f, g))"

definition add_regs :: "sha_regs \<Rightarrow> sha_regs \<Rightarrow> sha_regs" where
  "add_regs = (\<lambda>(a, b, c, d, e, f, g, h) (a', b', c', d', e', f', g', h').
     (a + a', b + b', c + c', d + d', e + e', f + f', g + g', h + h'))"

definition regs_of :: "u32 list \<Rightarrow> sha_regs" where
  "regs_of h = (h ! 0, h ! 1, h ! 2, h ! 3, h ! 4, h ! 5, h ! 6, h ! 7)"

definition list_of_regs :: "sha_regs \<Rightarrow> u32 list" where
  "list_of_regs = (\<lambda>(a, b, c, d, e, f, g, h). [a, b, c, d, e, f, g, h])"

text \<open>One chunk: the array \<open>w\<close> outlives it, as in the source.\<close>

definition sha_block :: "u8 list \<Rightarrow> u32 list \<times> sha_regs \<Rightarrow> u32 list \<times> sha_regs" where
  "sha_block chunk = (\<lambda>(w, h).
     let w' = message_schedule chunk w in (w', add_regs h (fold (sha_round w') [0..<64] h)))"

definition sha256 :: "u8 list \<Rightarrow> u8 list" where
  "sha256 data =
    (let (w, h) = fold sha_block (as_chunks SHA_BLOCK_LEN (sha_pad data)) (replicate 64 0, regs_of H256)
     in concat (map u32_be (list_of_regs h)))"

definition hmac_key_block :: "u8 list \<Rightarrow> u8 list" where
  "hmac_key_block key =
    (let k = if SHA_BLOCK_LEN < length key then sha256 key else key in
     k @ replicate (SHA_BLOCK_LEN - length k) 0)"

definition hmac_sha256 :: "u8 list \<Rightarrow> u8 list \<Rightarrow> u8 list" where
  "hmac_sha256 key message =
    (let block = hmac_key_block key;
         inner_hash = sha256 (map (\<lambda>b. b XOR 0x36) block @ message)
     in sha256 (map (\<lambda>b. b XOR 0x5C) block @ inner_hash))"

section \<open>Padding and chunks\<close>

lemma zero_fill_cases: "zero_fill n = (if n mod 64 \<le> 56 then 56 - n mod 64 else 120 - n mod 64)"
proof -
  have "n mod 64 < 64" by simp
  then show ?thesis by (auto simp: zero_fill_def le_mod_geq)
qed

lemma mod_64_cases:
  "r < 64 \<Longrightarrow> (r + k) mod 64 = 56 \<Longrightarrow> (if r \<le> 56 then 56 - r else 120 - r) \<le> (k :: nat)"
proof -
  assume r: "r < 64" and m: "(r + k) mod 64 = 56"
  show ?thesis
  proof (cases "r + k < 64")
    case True
    then show ?thesis using m by simp
  next
    case False
    show ?thesis
    proof (cases "r + k < 128")
      case True
      then have "(r + k) mod 64 = r + k - 64" using False by (simp add: le_mod_geq)
      then have "r + k = 120" using m False by simp
      then show ?thesis by auto
    qed (use r in auto)
  qed
qed

lemma zero_fill_fills: "(n + zero_fill n) mod 64 = 56"
proof -
  have "(n + zero_fill n) mod 64 = (n mod 64 + zero_fill n) mod 64" by (simp add: mod_add_left_eq)
  moreover have "n mod 64 < 64" by simp
  ultimately show ?thesis by (auto simp: zero_fill_cases le_mod_geq)
qed

lemma zero_fill_least: "zero_fill n = (LEAST k. (n + k) mod 64 = 56)"
proof (rule Least_equality[symmetric])
  show "(n + zero_fill n) mod 64 = 56" by (rule zero_fill_fills)
  fix k assume "(n + k) mod 64 = 56"
  then have "(n mod 64 + k) mod 64 = 56" by (simp add: mod_add_left_eq)
  then show "zero_fill n \<le> k" using mod_64_cases[of "n mod 64" k] by (simp add: zero_fill_cases)
qed

lemma length_sha_pad: "length (sha_pad data) mod 64 = 0"
proof -
  have "(length data + 1 + zero_fill (length data + 1) + 8) mod 64 = (56 + 8) mod 64"
    using zero_fill_fills[of "length data + 1"] by (metis mod_add_left_eq)
  then show ?thesis by (simp add: sha_pad_def Let_def add_ac)
qed

lemma as_chunks_eq:
  "0 < n \<Longrightarrow> as_chunks n xs = map (\<lambda>i. take n (drop (n * i) xs)) [0..<length xs div n]"
proof (induction n xs rule: as_chunks.induct)
  case (1 n xs)
  show ?case
  proof (cases "length xs < n")
    case False
    then have "length xs div n = Suc (length (drop n xs) div n)"
      using 1(2) by (simp add: le_div_geq)
    moreover have "[0..<Suc m] = 0 # map Suc [0..<m]" for m
      by (simp add: upt_conv_Cons map_Suc_upt del: upt_Suc)
    ultimately show ?thesis
      using 1 False by (subst as_chunks.simps) (simp add: add.commute comp_def)
  qed (simp add: as_chunks.simps)
qed

lemma as_chunks_length: "0 < n \<Longrightarrow> c \<in> set (as_chunks n xs) \<Longrightarrow> length c = n"
proof -
  assume n: "0 < n" and "c \<in> set (as_chunks n xs)"
  then obtain i where i: "i < length xs div n" "c = take n (drop (n * i) xs)"
    by (auto simp: as_chunks_eq)
  then have "n * Suc i \<le> n * (length xs div n)" by (intro mult_le_mono2) simp
  also have "\<dots> \<le> length xs" by (rule times_div_less_eq_dividend)
  finally show ?thesis using i by simp
qed

lemma fold_update_nth:
  "k + length ws \<le> length w \<Longrightarrow> j < length w \<Longrightarrow>
   fold (\<lambda>(i, x) w. w[i := f x]) (enumerate k ws) w ! j =
     (if k \<le> j \<and> j < k + length ws then f (ws ! (j - k)) else w ! j)
   \<and> length (fold (\<lambda>(i, x) w. w[i := f x]) (enumerate k ws) w) = length w"
proof (induction ws arbitrary: k w)
  case (Cons x ws)
  then have "Suc k + length ws \<le> length (w[k := f x])" "j < length (w[k := f x])" by simp_all
  from Cons.IH[OF this] show ?case
    using Cons.prems by (auto simp: nth_list_update nth_Cons' not_le le_less_Suc_eq Suc_diff_le)
qed auto

section \<open>The schedule is a recurrence\<close>

fun schedule_word :: "u8 list \<Rightarrow> nat \<Rightarrow> u32" where
  "schedule_word chunk t =
    (if t < 16 then of_be (take 4 (drop (4 * t) chunk))
     else small_s1 (schedule_word chunk (t - 2)) + schedule_word chunk (t - 7)
       + small_s0 (schedule_word chunk (t - 15)) + schedule_word chunk (t - 16))"

declare schedule_word.simps [simp del]

lemma load_words_nth:
  assumes "length chunk = 64" and "length w = 64" and "j < 16"
  shows "load_words chunk w ! j = schedule_word chunk j" and "length (load_words chunk w) = 64"
proof -
  have "as_chunks 4 chunk = map (\<lambda>i. take 4 (drop (4 * i) chunk)) [0..<16]"
    using assms(1) by (simp add: as_chunks_eq)
  then show "load_words chunk w ! j = schedule_word chunk j" "length (load_words chunk w) = 64"
    using fold_update_nth[of 0 "as_chunks 4 chunk" w j of_be] assms
    by (simp_all add: load_words_def schedule_word.simps)
qed

lemma extend_nth:
  assumes "length w = 64" and "\<And>j. j < 16 \<Longrightarrow> w ! j = schedule_word chunk j"
  shows "16 \<le> n \<Longrightarrow> n \<le> 64 \<Longrightarrow> (\<forall>j < n. fold extend_step [16..<n] w ! j = schedule_word chunk j)
    \<and> length (fold extend_step [16..<n] w) = 64"
proof (induction n rule: nat_induct_at_least[of 16])
  case base
  then show ?case using assms by simp
next
  case (Suc n)
  let ?w = "fold extend_step [16..<n] w"
  have IH: "\<forall>j < n. ?w ! j = schedule_word chunk j" "length ?w = 64" using Suc by auto
  have step: "fold extend_step [16..<Suc n] w = extend_step n ?w" using Suc(1) by simp
  have vals: "?w ! (n - 16) = schedule_word chunk (n - 16)" "?w ! (n - 15) = schedule_word chunk (n - 15)"
    "?w ! (n - 7) = schedule_word chunk (n - 7)" "?w ! (n - 2) = schedule_word chunk (n - 2)"
    using IH(1) Suc(1) by simp_all
  have "n < length ?w" using IH(2) Suc(3) by simp
  then have "extend_step n ?w ! n = schedule_word chunk (n - 16) + small_s0 (schedule_word chunk (n - 15))
      + schedule_word chunk (n - 7) + small_s1 (schedule_word chunk (n - 2))"
    unfolding extend_step_def vals by simp
  also have "\<dots> = schedule_word chunk n"
    using Suc(1) by (subst (5) schedule_word.simps) (simp add: add_ac)
  finally have "extend_step n ?w ! n = schedule_word chunk n" .
  moreover have "extend_step n ?w ! j = ?w ! j" if "j \<noteq> n" for j
    using that by (simp add: extend_step_def)
  ultimately show ?case
    using IH unfolding step by (auto simp: less_Suc_eq) (simp add: extend_step_def)
qed

lemma message_schedule_eq:
  assumes "length chunk = 64" and "length w = 64"
  shows "message_schedule chunk w = map (schedule_word chunk) [0..<64]"
proof -
  have l: "\<And>j. j < 16 \<Longrightarrow> load_words chunk w ! j = schedule_word chunk j" "length (load_words chunk w) = 64"
    using load_words_nth[OF assms] load_words_nth(2)[OF assms, of 0] by auto
  show ?thesis
    using extend_nth[OF l(2,1), of 64] by (intro nth_equalityI) (simp_all add: message_schedule_def)
qed

text \<open>The routine without its array: no update in place, no contents left over from the chunk before.\<close>

definition pure_block :: "u8 list \<Rightarrow> sha_regs \<Rightarrow> sha_regs" where
  "pure_block chunk h = add_regs h (fold (sha_round (map (schedule_word chunk) [0..<64])) [0..<64] h)"

definition pure_sha256 :: "u8 list \<Rightarrow> u8 list" where
  "pure_sha256 data =
    (let msg = sha_pad data;
         blocks = map (\<lambda>i. take 64 (drop (64 * i) msg)) [0..<length msg div 64]
     in concat (map u32_be (list_of_regs (fold pure_block blocks (regs_of H256)))))"

lemma fold_sha_block:
  "\<forall>c \<in> set cs. length c = 64 \<Longrightarrow> length w = 64 \<Longrightarrow>
   \<exists>w'. fold sha_block cs (w, h) = (w', fold pure_block cs h)"
proof (induction cs arbitrary: w h)
  case (Cons c cs)
  have "sha_block c (w, h) = (map (schedule_word c) [0..<64], pure_block c h)"
    using Cons.prems by (simp add: sha_block_def message_schedule_eq pure_block_def Let_def)
  then show ?case using Cons by simp
qed simp

lemma sha256_eq_pure: "sha256 data = pure_sha256 data"
proof -
  let ?cs = "as_chunks 64 (sha_pad data)"
  have cs: "?cs = map (\<lambda>i. take 64 (drop (64 * i) (sha_pad data))) [0..<length (sha_pad data) div 64]"
    by (simp add: as_chunks_eq)
  have "\<forall>c \<in> set ?cs. length c = 64" by (simp add: as_chunks_length)
  then obtain w' where "fold sha_block ?cs (replicate 64 0, regs_of H256) = (w', fold pure_block ?cs (regs_of H256))"
    using fold_sha_block[of ?cs "replicate 64 0" "regs_of H256"] by auto
  then have "sha256 data = concat (map u32_be (list_of_regs (fold pure_block ?cs (regs_of H256))))"
    by (simp add: sha256_def SHA_BLOCK_LEN_def)
  then have "sha256 data = concat (map u32_be (list_of_regs
      (fold pure_block (map (\<lambda>i. take 64 (drop (64 * i) (sha_pad data))) [0..<length (sha_pad data) div 64])
        (regs_of H256))))"
    by (simp only: cs)
  then show ?thesis unfolding pure_sha256_def Let_def .
qed

lemma length_sha256 [simp]: "length (sha256 data) = 32"
proof -
  obtain w h where "fold sha_block (as_chunks SHA_BLOCK_LEN (sha_pad data)) (replicate 64 0, regs_of H256) = (w, h)"
    by (rule prod.exhaust)
  then show ?thesis by (simp add: sha256_def list_of_regs_def split: prod.split)
qed

lemma length_hmac [simp]: "length (hmac_sha256 key message) = 32"
  by (simp add: hmac_sha256_def Let_def)

end
