(* ===== verification/Fips.thy ===== *)
theory Fips
  imports Complex_Main Hmac
begin

text \<open>
  The secure hash standard and the keyed hash as their documents define them, independent of
  \<open>Hmac\<close>: messages and digests are bit strings, the constants are the leading bits of roots
  of primes, the rotations are shifts, the padding is the least solution of the congruence of
  the standard.  \<open>hmac.rs\<close> is proved to compute them.
\<close>

section \<open>FIPS 180-4\<close>

text \<open>The constants, sections 4.2.2 and 5.3.3.\<close>

definition is_prime :: "nat \<Rightarrow> bool" where
  "is_prime p \<longleftrightarrow> 2 \<le> p \<and> (\<forall>d. d dvd p \<longrightarrow> d = 1 \<or> d = p)"

primrec nth_prime :: "nat \<Rightarrow> nat" where
  "nth_prime 0 = (LEAST p. is_prime p)"
| "nth_prime (Suc n) = (LEAST p. is_prime p \<and> nth_prime n < p)"

definition fraction_bits :: "real \<Rightarrow> u32" where
  "fraction_bits x = word_of_int \<lfloor>2 ^ 32 * frac x\<rfloor>"

definition fips_K :: "nat \<Rightarrow> u32" where "fips_K t = fraction_bits (root 3 (real (nth_prime t)))"
definition fips_H :: "nat \<Rightarrow> u32" where "fips_H i = fraction_bits (sqrt (real (nth_prime i)))"

text \<open>The functions, sections 3.2 and 4.1.2.\<close>

definition ROTR :: "nat \<Rightarrow> u32 \<Rightarrow> u32" where "ROTR n x = drop_bit n x OR push_bit (32 - n) x"
definition Ch :: "u32 \<Rightarrow> u32 \<Rightarrow> u32 \<Rightarrow> u32" where "Ch x y z = (x AND y) XOR (NOT x AND z)"
definition Maj :: "u32 \<Rightarrow> u32 \<Rightarrow> u32 \<Rightarrow> u32" where "Maj x y z = (x AND y) XOR (x AND z) XOR (y AND z)"
definition SIGMA0 :: "u32 \<Rightarrow> u32" where "SIGMA0 x = ROTR 2 x XOR ROTR 13 x XOR ROTR 22 x"
definition SIGMA1 :: "u32 \<Rightarrow> u32" where "SIGMA1 x = ROTR 6 x XOR ROTR 11 x XOR ROTR 25 x"
definition sigma0 :: "u32 \<Rightarrow> u32" where "sigma0 x = ROTR 7 x XOR ROTR 18 x XOR drop_bit 3 x"
definition sigma1 :: "u32 \<Rightarrow> u32" where "sigma1 x = ROTR 17 x XOR ROTR 19 x XOR drop_bit 10 x"

text \<open>Padding and parsing, sections 5.1.1 and 5.2.1: bit strings, the most significant bit first.\<close>

definition number_bits :: "nat \<Rightarrow> nat \<Rightarrow> bool list" where
  "number_bits n v = map (\<lambda>i. bit v (n - 1 - i)) [0..<n]"

definition fips_pad :: "bool list \<Rightarrow> bool list" where
  "fips_pad M = M @ [True] @ replicate (LEAST k. (length M + 1 + k) mod 512 = 448) False
     @ number_bits 64 (length M)"

definition word_of_bits :: "bool list \<Rightarrow> u32" where
  "word_of_bits bs = horner_sum of_bool 2 (rev bs)"

definition bits_of_word :: "u32 \<Rightarrow> bool list" where
  "bits_of_word w = map (\<lambda>i. bit w (31 - i)) [0..<32]"

text \<open>The hash computation, section 6.2.2.\<close>

fun fips_W :: "bool list \<Rightarrow> nat \<Rightarrow> u32" where
  "fips_W block t =
    (if t < 16 then word_of_bits (take 32 (drop (32 * t) block))
     else sigma1 (fips_W block (t - 2)) + fips_W block (t - 7)
       + sigma0 (fips_W block (t - 15)) + fips_W block (t - 16))"

declare fips_W.simps [simp del]

fun fips_round :: "bool list \<Rightarrow> nat \<Rightarrow> sha_regs \<Rightarrow> sha_regs" where
  "fips_round block t (a, b, c, d, e, f, g, h) =
    (let T1 = h + SIGMA1 e + Ch e f g + fips_K t + fips_W block t;
         T2 = SIGMA0 a + Maj a b c
     in (T1 + T2, a, b, c, d + T1, e, f, g))"

definition fips_block :: "bool list \<Rightarrow> sha_regs \<Rightarrow> sha_regs" where
  "fips_block block = (\<lambda>(H0, H1, H2, H3, H4, H5, H6, H7).
     let (a, b, c, d, e, f, g, h) = fold (fips_round block) [0..<64] (H0, H1, H2, H3, H4, H5, H6, H7)
     in (a + H0, b + H1, c + H2, d + H3, e + H4, f + H5, g + H6, h + H7))"

definition fips_sha256 :: "bool list \<Rightarrow> bool list" where
  "fips_sha256 M =
    (let P = fips_pad M;
         (H0, H1, H2, H3, H4, H5, H6, H7) =
           fold (\<lambda>i. fips_block (take 512 (drop (512 * i) P))) [0..<length P div 512]
             (fips_H 0, fips_H 1, fips_H 2, fips_H 3, fips_H 4, fips_H 5, fips_H 6, fips_H 7)
     in bits_of_word H0 @ bits_of_word H1 @ bits_of_word H2 @ bits_of_word H3
      @ bits_of_word H4 @ bits_of_word H5 @ bits_of_word H6 @ bits_of_word H7)"

text \<open>RFC 2104 with blocks of 512 bits.\<close>

definition byte_bits :: "u8 \<Rightarrow> bool list" where
  "byte_bits b = map (\<lambda>i. bit b (7 - i)) [0..<8]"

abbreviation bits :: "u8 list \<Rightarrow> bool list" where
  "bits bs \<equiv> concat (map byte_bits bs)"

definition rfc_hmac :: "bool list \<Rightarrow> bool list \<Rightarrow> bool list" where
  "rfc_hmac key text =
    (let k = (if 512 < length key then fips_sha256 key else key);
         K = k @ replicate (512 - length k) False;
         ipad = bits (replicate 64 0x36); opad = bits (replicate 64 0x5C)
     in fips_sha256 (map2 (\<noteq>) K opad @ fips_sha256 (map2 (\<noteq>) K ipad @ text)))"

section \<open>The constants of the code are the roots\<close>

lemma fraction_bits_eq:
  assumes "real r \<le> 2 ^ 32 * x" and "2 ^ 32 * x < real (Suc r)"
  shows "fraction_bits x = word_of_nat r"
proof -
  have "\<lfloor>2 ^ 32 * x\<rfloor> = int r" using assms by (simp add: floor_eq_iff)
  moreover have "2 ^ 32 * frac x = 2 ^ 32 * x - of_int (2 ^ 32 * \<lfloor>x\<rfloor>)"
    by (simp add: frac_def algebra_simps)
  ultimately have "\<lfloor>2 ^ 32 * frac x\<rfloor> = int r - 2 ^ 32 * \<lfloor>x\<rfloor>"
    by (simp only: floor_diff_of_int)
  then have "fraction_bits x = word_of_int (int r) - word_of_int (2 ^ 32) * word_of_int \<lfloor>x\<rfloor>"
    by (simp only: fraction_bits_def of_int_diff of_int_mult)
  moreover have "(word_of_int (2 ^ 32) :: u32) = 0" by simp
  ultimately show ?thesis by (simp only: mult_zero_left diff_zero of_int_of_nat_eq)
qed

lemma cube_root_bits:
  assumes "r ^ 3 \<le> p * 2 ^ 96" and "p * 2 ^ 96 < Suc r ^ 3"
  shows "fraction_bits (root 3 (real p)) = word_of_nat r"
proof (rule fraction_bits_eq)
  let ?x = "2 ^ 32 * root 3 (real p)"
  have cube: "?x ^ 3 = real (p * 2 ^ 96)"
    by (simp add: power_mult_distrib odd_real_root_pow)
  have "real r ^ 3 \<le> ?x ^ 3" using assms(1) unfolding cube by (metis of_nat_le_iff of_nat_power)
  then show "real r \<le> ?x" unfolding numeral_3_eq_3 by (rule power_le_imp_le_base) simp
  have "?x ^ 3 < real (Suc r) ^ 3" using assms(2) unfolding cube by (metis of_nat_less_iff of_nat_power)
  then show "?x < real (Suc r)" by (rule power_less_imp_less_base) simp
qed

lemma square_root_bits:
  assumes "r ^ 2 \<le> p * 2 ^ 64" and "p * 2 ^ 64 < Suc r ^ 2"
  shows "fraction_bits (sqrt (real p)) = word_of_nat r"
proof (rule fraction_bits_eq)
  let ?x = "2 ^ 32 * sqrt (real p)"
  have square: "?x ^ 2 = real (p * 2 ^ 64)" by (simp add: power_mult_distrib)
  have "real r ^ 2 \<le> ?x ^ 2" using assms(1) unfolding square by (metis of_nat_le_iff of_nat_power)
  then show "real r \<le> ?x" by (rule power2_le_imp_le) simp
  have "?x ^ 2 < real (Suc r) ^ 2" using assms(2) unfolding square by (metis of_nat_less_iff of_nat_power)
  then show "?x < real (Suc r)" by (rule power_less_imp_less_base) simp
qed

text \<open>The first 64 primes.\<close>

definition first_primes :: "nat list" where
  "first_primes =
    [2, 3, 5, 7, 11, 13, 17, 19, 23, 29, 31, 37, 41, 43, 47, 53,
     59, 61, 67, 71, 73, 79, 83, 89, 97, 101, 103, 107, 109, 113, 127, 131,
     137, 139, 149, 151, 157, 163, 167, 173, 179, 181, 191, 193, 197, 199, 211, 223,
     227, 229, 233, 239, 241, 251, 257, 263, 269, 271, 277, 281, 283, 293, 307, 311]"

lemma is_prime_small_divisor:
  assumes "p < 324"
  shows "is_prime p \<longleftrightarrow> 2 \<le> p \<and> (\<forall>d. 2 \<le> d \<longrightarrow> d < 18 \<longrightarrow> d dvd p \<longrightarrow> p = d)"
proof
  assume "is_prime p"
  then show "2 \<le> p \<and> (\<forall>d. 2 \<le> d \<longrightarrow> d < 18 \<longrightarrow> d dvd p \<longrightarrow> p = d)" by (auto simp: is_prime_def)
next
  assume *: "2 \<le> p \<and> (\<forall>d. 2 \<le> d \<longrightarrow> d < 18 \<longrightarrow> d dvd p \<longrightarrow> p = d)"
  show "is_prime p"
    unfolding is_prime_def
  proof (intro conjI allI impI)
    fix d assume "d dvd p"
    then obtain e where e: "p = d * e" by (rule dvdE)
    have small: "x < 18 \<or> y < 18" if "x * y < 324" for x y :: nat
      using that mult_le_mono[of 18 x 18 y] by linarith
    have pos: "d \<noteq> 0" "e \<noteq> 0" using * e by (auto intro: ccontr)
    have div: "x = 1 \<or> p = x" if "x dvd p" "x < 18" "x \<noteq> 0" for x
      using * that by (cases "x = 1") auto
    have "d < 18 \<or> e < 18" using small[of d e] assms e by simp
    then show "d = 1 \<or> d = p"
    proof
      assume "d < 18"
      then show ?thesis using div[of d] e pos by auto
    next
      assume "e < 18"
      then have "e = 1 \<or> p = e" using div[of e] e pos by simp
      then show ?thesis using e pos by auto
    qed
  qed (use * in simp)
qed

definition small_prime :: "nat \<Rightarrow> bool" where
  "small_prime p =
    (if p < 2 then False else if p mod 2 = 0 then p = 2 else if p mod 3 = 0 then p = 3
     else if p mod 5 = 0 then p = 5 else if p mod 7 = 0 then p = 7 else if p mod 11 = 0 then p = 11
     else if p mod 13 = 0 then p = 13 else p mod 17 = 0 \<longrightarrow> p = 17)"

lemma is_prime_below_324:
  assumes "p < 324"
  shows "is_prime p \<longleftrightarrow> small_prime p"
proof
  assume "is_prime p"
  then have "\<And>d. 2 \<le> d \<Longrightarrow> p mod d = 0 \<Longrightarrow> p = d" "\<not> p < 2" by (auto simp: is_prime_def)
  then show "small_prime p" by (simp add: small_prime_def)
next
  assume s: "small_prime p"
  have "p = d" if d: "2 \<le> d" "d < 18" "d dvd p" for d
  proof -
    have "d \<in> set [2..<18]" using d(1,2) by (simp only: set_upt atLeastLessThan_iff)
    then have cases: "d \<in> {2, 3, 4, 5, 6, 7, 8, 9, 10, 11, 12, 13, 14, 15, 16, 17}" by simp
    then have "\<exists>q \<in> {2, 3, 5, 7, 11, 13, 17}. q dvd d" by (elim insertE emptyE) simp_all
    then obtain q where q: "q \<in> {2, 3, 5, 7, 11, 13, 17}" "q dvd d" by blast
    have "p mod q = 0" using dvd_trans[OF q(2) d(3)] by simp
    then have "p = 2 \<or> p = 3 \<or> p = 5 \<or> p = 7 \<or> p = 11 \<or> p = 13 \<or> p = 17"
      using s q(1) by (elim insertE emptyE) (simp_all add: small_prime_def split: if_splits)
    with cases d(3) show ?thesis by (elim disjE insertE emptyE) simp_all
  qed
  moreover have "2 \<le> p" using s by (simp add: small_prime_def split: if_splits)
  ultimately show "is_prime p" by (simp add: is_prime_small_divisor[OF assms])
qed

lemma primes_filter: "filter is_prime [2..<312] = first_primes"
proof -
  have "filter is_prime [2..<312] = filter small_prime [2..<312]"
    by (rule filter_cong[OF refl], rule is_prime_below_324) (simp only: set_upt atLeastLessThan_iff, linarith)
  also have "\<dots> = first_primes"
    unfolding first_primes_def by (simp add: small_prime_def)
  finally show ?thesis .
qed

lemma nth_prime_filter:
  assumes L: "filter is_prime [2..<N] = L"
  shows "i < length L \<Longrightarrow> nth_prime i = L ! i"
proof (induction i)
  have sorted: "sorted L" "distinct L" and L_iff: "q \<in> set L \<longleftrightarrow> is_prime q \<and> q < N" for q
    unfolding L[symmetric] by (auto simp: sorted_wrt_filter is_prime_def)
  {
    case 0
    then have "L ! 0 \<in> set L" by simp
    then have first: "is_prime (L ! 0)" "L ! 0 < N" using L_iff by simp_all
    have "L ! 0 \<le> q" if "is_prime q" for q
    proof (cases "q < N")
      case True
      then have "q \<in> set L" using that L_iff by simp
      then obtain j where "j < length L" "q = L ! j" by (auto simp: in_set_conv_nth)
      then show ?thesis using sorted(1) by (simp add: sorted_nth_mono)
    qed (use first in simp)
    then show ?case using first unfolding nth_prime.simps by (intro Least_equality)
  next
    case (Suc i)
    have IH: "nth_prime i = L ! i" using Suc by simp
    have lt: "L ! i < L ! Suc i"
      using sorted_nth_mono[OF sorted(1), of i "Suc i"] nth_eq_iff_index_eq[OF sorted(2), of i "Suc i"] Suc(2)
      by simp
    show ?case
      unfolding nth_prime.simps IH
    proof (rule Least_equality)
      show "is_prime (L ! Suc i) \<and> L ! i < L ! Suc i" using L_iff[of "L ! Suc i"] Suc(2) lt by simp
      fix q assume q: "is_prime q \<and> L ! i < q"
      show "L ! Suc i \<le> q"
      proof (cases "q < N")
        case True
        then have "q \<in> set L" using q L_iff by simp
        then obtain j where j: "j < length L" "q = L ! j" by (auto simp: in_set_conv_nth)
        have "i < j"
        proof (rule ccontr)
          assume "\<not> i < j"
          then have "L ! j \<le> L ! i" using sorted(1) Suc(2) by (simp add: sorted_nth_mono)
          then show False using q j by simp
        qed
        then show ?thesis using j sorted(1) by (simp add: sorted_nth_mono)
      next
        case False
        then show ?thesis using L_iff[of "L ! Suc i"] Suc(2) by simp
      qed
    qed
  }
qed

definition cube_roots :: "nat list" where
  "cube_roots =
    [0x1428a2f98, 0x171374491, 0x1b5c0fbcf, 0x1e9b5dba5, 0x23956c25b, 0x259f111f1,
     0x2923f82a4, 0x2ab1c5ed5, 0x2d807aa98, 0x312835b01, 0x3243185be, 0x3550c7dc3,
     0x372be5d74, 0x380deb1fe, 0x39bdc06a7, 0x3c19bf174, 0x3e49b69c1, 0x3efbe4786,
     0x40fc19dc6, 0x4240ca1cc, 0x42de92c6f, 0x44a7484aa, 0x45cb0a9dc, 0x476f988da,
     0x4983e5152, 0x4a831c66d, 0x4b00327c8, 0x4bf597fc7, 0x4c6e00bf3, 0x4d5a79147,
     0x506ca6351, 0x514292967, 0x527b70a85, 0x52e1b2138, 0x54d2c6dfc, 0x553380d13,
     0x5650a7354, 0x5766a0abb, 0x581c2c92e, 0x592722c85, 0x5a2bfe8a1, 0x5a81a664b,
     0x5c24b8b70, 0x5c76c51a3, 0x5d192e819, 0x5d6990624, 0x5f40e3585, 0x6106aa070,
     0x619a4c116, 0x61e376c08, 0x62748774c, 0x634b0bcb5, 0x6391c0cb3, 0x64ed8aa4a,
     0x65b9cca4f, 0x6682e6ff3, 0x6748f82ee, 0x678a5636f, 0x684c87814, 0x68cc70208,
     0x690befffa, 0x6a4506ceb, 0x6bef9a3f7, 0x6c67178f2]"

definition square_roots :: "nat list" where
  "square_roots = [0x16a09e667, 0x1bb67ae85, 0x23c6ef372, 0x2a54ff53a, 0x3510e527f, 0x39b05688c, 0x41f83d9ab, 0x45be0cd19]"

lemma cube_roots_ok: "list_all2 (\<lambda>p r. r ^ 3 \<le> p * 2 ^ 96 \<and> p * 2 ^ 96 < Suc r ^ 3) first_primes cube_roots"
  by (simp add: first_primes_def cube_roots_def)

lemma square_roots_ok: "list_all2 (\<lambda>p r. r ^ 2 \<le> p * 2 ^ 64 \<and> p * 2 ^ 64 < Suc r ^ 2) (take 8 first_primes) square_roots"
  by (simp add: first_primes_def square_roots_def)

lemma lengths: "length first_primes = 64" "length cube_roots = 64" "length square_roots = 8"
  by (simp_all add: first_primes_def cube_roots_def square_roots_def)

lemma K256_roots: "map word_of_nat cube_roots = K256"
  by (simp add: cube_roots_def K256_def)

lemma H256_roots: "map word_of_nat square_roots = H256"
  by (simp add: square_roots_def H256_def)

lemma K256_eq: "t < 64 \<Longrightarrow> K256 ! t = fips_K t"
proof -
  assume t: "t < 64"
  then have "nth_prime t = first_primes ! t" by (simp add: nth_prime_filter[OF primes_filter] lengths)
  moreover have "fraction_bits (root 3 (real (first_primes ! t))) = word_of_nat (cube_roots ! t)"
    using list_all2_nthD[OF cube_roots_ok, of t] t by (intro cube_root_bits) (simp_all add: lengths)
  ultimately show ?thesis using t by (simp add: fips_K_def lengths flip: K256_roots)
qed

lemma H256_eq: "i < 8 \<Longrightarrow> H256 ! i = fips_H i"
proof -
  assume i: "i < 8"
  then have "nth_prime i = first_primes ! i" by (simp add: nth_prime_filter[OF primes_filter] lengths)
  moreover have "fraction_bits (sqrt (real (first_primes ! i))) = word_of_nat (square_roots ! i)"
    using list_all2_nthD[OF square_roots_ok, of i] i by (intro square_root_bits) (simp_all add: lengths)
  ultimately show ?thesis using i by (simp add: fips_H_def lengths flip: H256_roots)
qed

section \<open>The functions\<close>

lemma ROTR_eq: "n < 32 \<Longrightarrow> ROTR n x = word_rotr n x"
proof (rule bit_word_eqI)
  fix i assume n: "n < 32" and "i < LENGTH(32)"
  then have i: "i < 32" by simp
  have "bit (word_rotr n x) i = bit x ((i + n) mod 32)" using i by (simp add: bit_word_rotr_iff)
  moreover have "bit (ROTR n x) i = (bit x (i + n) \<or> 32 - n \<le> i \<and> bit x (i - (32 - n)))"
    using i by (simp add: ROTR_def bit_or_iff bit_drop_bit_eq bit_push_bit_iff add.commute)
  moreover have "\<not> bit x (i + n) \<and> (i + n) mod 32 = i - (32 - n)" if "\<not> i + n < 32"
    using that n i bit_imp_le_length[of x "i + n"] by (auto simp: le_mod_geq)
  ultimately show "bit (ROTR n x) i = bit (word_rotr n x) i"
    by (cases "i + n < 32") auto
qed

lemma sigmas: "sigma0 x = small_s0 x" "sigma1 x = small_s1 x"
  and SIGMAs: "SIGMA0 x = big_s0 x" "SIGMA1 x = big_s1 x"
  by (simp_all add: sigma0_def sigma1_def SIGMA0_def SIGMA1_def small_s0_def small_s1_def big_s0_def big_s1_def ROTR_eq)

section \<open>Bits and bytes\<close>

lemma length_bits [simp]: "length (bits bs) = 8 * length bs"
  by (induction bs) (simp_all add: byte_bits_def)

lemma take_bits: "take (8 * n) (bits bs) = bits (take n bs)"
  and drop_bits: "drop (8 * n) (bits bs) = bits (drop n bs)"
proof -
  have "take (8 * n) (bits bs) = bits (take n bs) \<and> drop (8 * n) (bits bs) = bits (drop n bs)"
  proof (induction bs arbitrary: n)
    case (Cons b bs)
    have "length (byte_bits b) = 8" by (simp add: byte_bits_def)
    then show ?case using Cons.IH[of "n - 1"] by (cases n) simp_all
  qed simp
  then show "take (8 * n) (bits bs) = bits (take n bs)" "drop (8 * n) (bits bs) = bits (drop n bs)" by simp_all
qed

lemma slice_bits: "take (8 * n) (drop (8 * k) (bits bs)) = bits (take n (drop k bs))"
  by (simp only: take_bits drop_bits)

lemma bits_zeros: "bits (replicate n 0) = replicate (8 * n) False"
proof -
  have "byte_bits 0 = replicate 8 False" by (simp add: byte_bits_def map_replicate_const)
  then show ?thesis by (induction n) (simp_all add: replicate_add)
qed

lemma be_bytes_Suc: "be_bytes (Suc n) v = be_bytes n (drop_bit 8 v) @ [ucast v]"
  by (simp add: be_bytes_def)

lemma bits_be_bytes: "bits (be_bytes n v) = map (\<lambda>i. bit v (8 * n - 1 - i)) [0..<8 * n]"
proof (induction n arbitrary: v)
  case (Suc n)
  have "[0..<8 * n + 8] = [0..<8 * n] @ [8 * n..<8 * n + 8]" by (rule upt_add_eq_append) simp
  then have "[0..<8 * Suc n] = [0..<8 * n] @ map (\<lambda>i. i + 8 * n) [0..<8]"
    by (simp only: map_add_upt mult_Suc_right add.commute)
  moreover have "byte_bits (ucast v) = map (\<lambda>i. bit v (7 - i)) [0..<8]"
    by (rule nth_equalityI) (auto simp: byte_bits_def bit_ucast_iff)
  ultimately show ?case
    by (simp add: be_bytes_Suc Suc.IH bit_drop_bit_eq del: upt_Suc)
qed (simp add: be_bytes_def)

lemma bits_u32_be: "bits (u32_be w) = bits_of_word w"
  by (simp add: bits_be_bytes bits_of_word_def del: upt_Suc upt_rec_numeral)

lemma word_of_bits_of_word: "word_of_bits (bits_of_word w) = w"
proof -
  have "rev (bits_of_word w) = map (bit w) [0..<32]"
  proof (rule nth_equalityI)
    fix i assume "i < length (rev (bits_of_word w))"
    then have i: "i < 32" by (simp add: bits_of_word_def)
    then have "[0..<32] ! (31 - i) = 31 - i" "[0..<32] ! i = i" by (subst nth_upt; simp)+
    then show "rev (bits_of_word w) ! i = map (bit w) [0..<32] ! i"
      using i by (simp add: bits_of_word_def rev_nth)
  qed (simp add: bits_of_word_def)
  then show ?thesis by (simp add: word_of_bits_def horner_sum_bit_eq_take_bit del: upt_rec_numeral)
qed

lemma word_of_bits_of_be: "length bs = 4 \<Longrightarrow> word_of_bits (bits bs) = of_be bs"
  using be_bytes_of_be[of bs, where 'a = 32] bits_u32_be[of "of_be bs"] word_of_bits_of_word[of "of_be bs"]
  by simp

section \<open>Padding, schedule and rounds\<close>

lemma least_zero_bits: "(LEAST k. (8 * n + 1 + k) mod 512 = 448) = 7 + 8 * zero_fill (n + 1)"
proof (rule Least_equality)
  have m: "(8 * x) mod 512 = 8 * (x mod 64)" for x :: nat
    using mult_mod_right[of 8 x 64] by simp
  have "8 * n + 1 + (7 + 8 * zero_fill (n + 1)) = 8 * (n + 1 + zero_fill (n + 1))" by simp
  then show "(8 * n + 1 + (7 + 8 * zero_fill (n + 1))) mod 512 = 448"
    using zero_fill_fills[of "n + 1"] by (simp only: m)
  fix k assume k: "(8 * n + 1 + k) mod 512 = 448"
  then have "(8 * n + 1 + k) mod 512 mod 8 = 0" by simp
  then have "(1 + k) mod 8 = 0" by (simp add: mod_mod_cancel)
  then have "\<exists>j. k = 7 + 8 * j" by presburger
  then obtain j where j: "k = 7 + 8 * j" by blast
  then have "8 * n + 1 + k = 8 * (n + 1 + j)" by simp
  then have "8 * ((n + 1 + j) mod 64) = 448" using k by (simp only: m)
  then have "(n + 1 + j) mod 64 = 56" by simp
  then have "zero_fill (n + 1) \<le> j" unfolding zero_fill_least by (rule Least_le)
  then show "7 + 8 * zero_fill (n + 1) \<le> k" by (simp add: j)
qed

lemma bit_word_of_nat: "bit (word_of_nat n :: u64) i \<longleftrightarrow> i < 64 \<and> bit n i"
proof -
  have "unat (word_of_nat n :: u64) = take_bit 64 n" by (simp add: unsigned_of_nat)
  moreover have "bit (unat (word_of_nat n :: u64)) i \<longleftrightarrow> bit (word_of_nat n :: u64) i" by (simp add: bit_unsigned_iff)
  ultimately show ?thesis by (simp add: bit_take_bit_iff)
qed

lemma bits_sha_pad: "bits (sha_pad data) = fips_pad (bits data)"
proof -
  have "byte_bits 0x80 = True # replicate 7 False" by code_simp
  moreover have "bits (u64_be (word_of_nat (length data) * 8)) = number_bits 64 (8 * length data)"
  proof -
    have "word_of_nat (length data) * (8 :: u64) = word_of_nat (8 * length data)" by simp
    then show ?thesis
      unfolding number_bits_def bits_be_bytes
      by (intro map_cong) (auto simp: bit_word_of_nat simp del: of_nat_mult)
  qed
  ultimately show ?thesis
    by (simp add: sha_pad_def fips_pad_def Let_def bits_zeros least_zero_bits[simplified] replicate_add del: map_replicate)
qed

lemma fips_W_eq: "length chunk = 64 \<Longrightarrow> t < 64 \<Longrightarrow> fips_W (bits chunk) t = schedule_word chunk t"
proof (induction t rule: less_induct)
  case (less t)
  show ?case
  proof (cases "t < 16")
    case True
    have "take 32 (drop (32 * t) (bits chunk)) = bits (take 4 (drop (4 * t) chunk))"
      using slice_bits[of 4 "4 * t" chunk] by (simp add: mult.assoc[symmetric])
    moreover have "length (take 4 (drop (4 * t) chunk)) = 4" using True less.prems by simp
    ultimately show ?thesis
      using True by (simp add: fips_W.simps[of _ t] schedule_word.simps[of _ t] word_of_bits_of_be)
  next
    case False
    then have "fips_W (bits chunk) (t - 2) = schedule_word chunk (t - 2)"
      "fips_W (bits chunk) (t - 7) = schedule_word chunk (t - 7)"
      "fips_W (bits chunk) (t - 15) = schedule_word chunk (t - 15)"
      "fips_W (bits chunk) (t - 16) = schedule_word chunk (t - 16)"
      using less by simp_all
    with False show ?thesis
      by (simp add: fips_W.simps[of _ t] schedule_word.simps[of _ t] sigmas)
  qed
qed

lemma fips_round_eq:
  assumes "length chunk = 64" and "t < 64"
  shows "sha_round (map (schedule_word chunk) [0..<64]) t = fips_round (bits chunk) t"
  by (rule ext) (use assms in \<open>auto simp: sha_round_def Let_def Ch_def Maj_def SIGMAs fips_W_eq K256_eq
      simp del: upt_rec_numeral split: prod.splits\<close>)

lemma fips_block_eq: "length chunk = 64 \<Longrightarrow> pure_block chunk h = fips_block (bits chunk) h"
proof -
  assume "length chunk = 64"
  then have "fold (sha_round (map (schedule_word chunk) [0..<64])) [0..<64] h = fold (fips_round (bits chunk)) [0..<64] h"
    by (intro fold_cong refl fips_round_eq) simp_all
  then show ?thesis
    unfolding pure_block_def by (cases h) (simp add: fips_block_def add_regs_def add.commute split: prod.split)
qed

lemma bits_sha256: "bits (sha256 data) = fips_sha256 (bits data)"
proof -
  let ?msg = "sha_pad data" and ?H = "(fips_H 0, fips_H 1, fips_H 2, fips_H 3, fips_H 4, fips_H 5, fips_H 6, fips_H 7)"
  have H: "regs_of H256 = ?H" by (simp add: regs_of_def H256_eq)
  have N: "length (fips_pad (bits data)) div 512 = length ?msg div 64"
    by (simp flip: bits_sha_pad) 
  have block: "pure_block (take 64 (drop (64 * i) ?msg)) h = fips_block (take 512 (drop (512 * i) (fips_pad (bits data)))) h"
    if "i < length ?msg div 64" for i h
  proof -
    have "64 * Suc i \<le> 64 * (length ?msg div 64)" using that by (intro mult_le_mono2) simp
    then have "length (take 64 (drop (64 * i) ?msg)) = 64" by simp
    then show ?thesis
      using slice_bits[of 64 "64 * i" ?msg] by (simp add: fips_block_eq bits_sha_pad mult.assoc[symmetric])
  qed
  have "fold pure_block (map (\<lambda>i. take 64 (drop (64 * i) ?msg)) [0..<length ?msg div 64]) ?H
      = fold (\<lambda>i. fips_block (take 512 (drop (512 * i) (fips_pad (bits data))))) [0..<length ?msg div 64] ?H"
    unfolding fold_map comp_def by (rule fold_cong[OF refl refl]) (auto simp: block intro!: ext)
  then show ?thesis
    unfolding sha256_eq_pure pure_sha256_def fips_sha256_def Let_def H N
    by (simp add: list_of_regs_def bits_u32_be split: prod.split)
qed

section \<open>A test vector\<close>

text \<open>The routine of the code on the message of the standard's one-block example, \<open>abc\<close>.\<close>

definition abc_schedule :: "u32 list" where
  "abc_schedule =
      [0x61626380, 0x0, 0x0, 0x0, 0x0, 0x0, 0x0, 0x0,
       0x0, 0x0, 0x0, 0x0, 0x0, 0x0, 0x0, 0x18,
       0x61626380, 0xf0000, 0x7da86405, 0x600003c6, 0x3e9d7b78, 0x183fc00, 0x12dcbfdb, 0xe2e2c38e,
       0xc8215c1a, 0xb73679a2, 0xe5bc3909, 0x32663c5b, 0x9d209d67, 0xec8726cb, 0x702138a4, 0xd3b7973b,
       0x93f5997f, 0x3b68ba73, 0xaff4ffc1, 0xf10a5c62, 0xa8b3996, 0x72af830a, 0x9409e33e, 0x24641522,
       0x9f47bf94, 0xf0a64f5a, 0x3e246a79, 0x27333ba3, 0xc4763f2, 0x840abf27, 0x7a290d5d, 0x65c43da,
       0xfb3e89cb, 0xcc7617db, 0xb9e66c34, 0xa9993667, 0x84badedd, 0xc21462bc, 0x1487472c, 0xb20f7a99,
       0xef57b9cd, 0xebe6b238, 0x9fe3095e, 0x78bc8d4b, 0xa43fcf15, 0x668b2ff8, 0xeeaba2cc, 0x12b1edeb]"

lemma schedule_check:
  assumes "length w = 64" and "\<And>t. t < 16 \<Longrightarrow> w ! t = of_be (take 4 (drop (4 * t) chunk))"
    and "drop 16 w = map (\<lambda>(a, b, c, d). small_s1 d + c + small_s0 b + a)
      (zip (take 48 w) (zip (take 48 (drop 1 w)) (zip (take 48 (drop 9 w)) (drop 14 w))))"
  shows "map (schedule_word chunk) [0..<64] = w"
proof -
  have "t < 64 \<Longrightarrow> schedule_word chunk t = w ! t" for t
  proof (induction t rule: less_induct)
    case (less t)
    show ?case
    proof (cases "t < 16")
      case False
      then obtain k where k: "t = 16 + k" using le_Suc_ex[of 16 t] by auto
      have "w ! t = drop 16 w ! k" using assms(1) by (simp add: k)
      also have "\<dots> = small_s1 (w ! (14 + k)) + w ! (9 + k) + small_s0 (w ! (1 + k)) + w ! k"
        unfolding assms(3) using less.prems assms(1) by (simp add: k)
      finally show ?thesis using less by (simp add: k schedule_word.simps[of _ "k + 16"] add.commute)
    qed (simp add: schedule_word.simps assms(2))
  qed
  then show ?thesis by (intro nth_equalityI) (simp_all add: assms(1))
qed

definition kw_round :: "u32 \<Rightarrow> sha_regs \<Rightarrow> sha_regs" where
  "kw_round kw = (\<lambda>(a, b, c, d, e, f, g, h).
     let t1 = h + big_s1 e + Ch e f g + kw
     in (t1 + (big_s0 a + Maj a b c), a, b, c, d + t1, e, f, g))"

lemmas sha_ev = kw_round_def Ch_def Maj_def big_s0_def big_s1_def small_s0_def small_s1_def ROTR_eq[symmetric] ROTR_def

lemma abc_pad: "sha_pad [0x61, 0x62, 0x63] =
      [0x61, 0x62, 0x63, 0x80, 0x0, 0x0, 0x0, 0x0, 0x0, 0x0, 0x0, 0x0, 0x0, 0x0, 0x0, 0x0,
      0x0, 0x0, 0x0, 0x0, 0x0, 0x0, 0x0, 0x0, 0x0, 0x0, 0x0, 0x0, 0x0, 0x0, 0x0, 0x0,
      0x0, 0x0, 0x0, 0x0, 0x0, 0x0, 0x0, 0x0, 0x0, 0x0, 0x0, 0x0, 0x0, 0x0, 0x0, 0x0,
      0x0, 0x0, 0x0, 0x0, 0x0, 0x0, 0x0, 0x0, 0x0, 0x0, 0x0, 0x0, 0x0, 0x0, 0x0, 0x18]"
proof -
  have "u64_be 24 = [0, 0, 0, 0, 0, 0, 0, 24]" by code_simp
  moreover have "replicate 52 (0 :: u8) =
      [0, 0, 0, 0, 0, 0, 0, 0, 0, 0, 0, 0, 0, 0, 0, 0, 0, 0, 0, 0, 0, 0, 0, 0, 0, 0,
      0, 0, 0, 0, 0, 0, 0, 0, 0, 0, 0, 0, 0, 0, 0, 0, 0, 0, 0, 0, 0, 0, 0, 0, 0, 0]" by code_simp
  ultimately show ?thesis by (simp add: sha_pad_def zero_fill_def)
qed

lemma abc_schedule: "map (schedule_word (sha_pad [0x61, 0x62, 0x63])) [0..<64] = abc_schedule"
proof (rule schedule_check)
  show "drop 16 abc_schedule = map (\<lambda>(a, b, c, d). small_s1 d + c + small_s0 b + a)
      (zip (take 48 abc_schedule) (zip (take 48 (drop 1 abc_schedule))
        (zip (take 48 (drop 9 abc_schedule)) (drop 14 abc_schedule))))"
    by (simp add: abc_schedule_def sha_ev)
  fix t :: nat assume "t < 16"
  then have "t \<in> {0, 1, 2, 3, 4, 5, 6, 7, 8, 9, 10, 11, 12, 13, 14, 15}" by (simp, arith)
  then show "abc_schedule ! t = of_be (take 4 (drop (4 * t) (sha_pad [0x61, 0x62, 0x63])))"
    by (elim insertE emptyE) (simp_all add: abc_schedule_def abc_pad of_be_def)
qed (simp add: abc_schedule_def)

lemma regs_of_H256: "regs_of H256 = (0x6a09e667, 0xbb67ae85, 0x3c6ef372, 0xa54ff53a, 0x510e527f, 0x9b05688c, 0x1f83d9ab, 0x5be0cd19)"
  by (simp add: regs_of_def H256_def)

lemma sha_rounds_terms:
  assumes "length w = 64"
  shows "fold (sha_round w) [0..<64] h = fold kw_round (map2 (+) K256 w) h"
proof -
  have "length K256 = 64" by (simp add: K256_def)
  then have terms: "map2 (+) K256 w = map (\<lambda>i. K256 ! i + w ! i) [0..<64]"
    using assms by (intro nth_equalityI) simp_all
  have "sha_round w = (\<lambda>i. kw_round (K256 ! i + w ! i))"
    by (auto simp: fun_eq_iff sha_round_def kw_round_def Let_def Ch_def Maj_def algebra_simps)
  then show ?thesis by (simp only: terms fold_map comp_def)
qed

lemma abc_rounds:
  "fold (sha_round abc_schedule) [0..<64] (regs_of H256) =
     (0x506e3058, 0xd39a2165, 0x4d24d6c, 0xb85e2ce9, 0x5ef50f24, 0xfb121210, 0x948d25b6, 0x961f4894)"
proof -
  let ?R = "fold kw_round"
  have r0: "?R [0xa3ec9318, 0x71374491, 0xb5c0fbcf, 0xe9b5dba5] (0x6a09e667, 0xbb67ae85, 0x3c6ef372, 0xa54ff53a, 0x510e527f, 0x9b05688c, 0x1f83d9ab, 0x5be0cd19) =
      (0xd550f666, 0xc8c347a7, 0x5a6ad9ad, 0x5d6aebcd, 0x24e00850, 0xf92939eb, 0x78ce7989, 0xfa2a4622)"
    by (simp add: sha_ev)
  have r1: "?R [0x3956c25b, 0x59f111f1, 0x923f82a4, 0xab1c5ed5] (0xd550f666, 0xc8c347a7, 0x5a6ad9ad, 0x5d6aebcd, 0x24e00850, 0xf92939eb, 0x78ce7989, 0xfa2a4622) =
      (0x85a07b5f, 0xe5030380, 0x2b4209f5, 0x4409a6a, 0xc657a79, 0x9b27a401, 0x714260ad, 0x43ada245)"
    by (simp add: sha_ev)
  have r2: "?R [0xd807aa98, 0x12835b01, 0x243185be, 0x550c7dc3] (0x85a07b5f, 0xe5030380, 0x2b4209f5, 0x4409a6a, 0xc657a79, 0x9b27a401, 0x714260ad, 0x43ada245) =
      (0xf71fc5a9, 0x4798a3f4, 0x8c87346b, 0x8e04ecb9, 0x816fd6e9, 0x436b23e8, 0x1cc92596, 0x32ca2d8c)"
    by (simp add: sha_ev)
  have r3: "?R [0x72be5d74, 0x80deb1fe, 0x9bdc06a7, 0xc19bf18c] (0xf71fc5a9, 0x4798a3f4, 0x8c87346b, 0x8e04ecb9, 0x816fd6e9, 0x436b23e8, 0x1cc92596, 0x32ca2d8c) =
      (0xb0fa238e, 0xc0645fde, 0xd932eb16, 0x87912990, 0x7590dcd, 0xb92f20c, 0x745a48de, 0x1e578218)"
    by (simp add: sha_ev)
  have r4: "?R [0x45fdcd41, 0xefcd4786, 0x8d6a01cb, 0x840ca592] (0xb0fa238e, 0xc0645fde, 0xd932eb16, 0x87912990, 0x7590dcd, 0xb92f20c, 0x745a48de, 0x1e578218) =
      (0xe1f20c33, 0xfe777bbf, 0xc2fbd9d1, 0x21da9a9b, 0xb0638179, 0xcc899961, 0x846ee454, 0x8034229c)"
    by (simp add: sha_ev)
  have r5: "?R [0x6c86a7e7, 0x4bf880aa, 0x6f8d69b7, 0x59dc4c68] (0xe1f20c33, 0xfe777bbf, 0xc2fbd9d1, 0x21da9a9b, 0xb0638179, 0xcc899961, 0x846ee454, 0x8034229c) =
      (0xc5d53d8d, 0xa7a3623f, 0xc2606d6d, 0x9dc68b63, 0xaa47c347, 0x49f5114a, 0xe1257970, 0x8ada8930)"
    by (simp add: sha_ev)
  have r6: "?R [0x605fad6c, 0x5f68400f, 0x95bf60d1, 0xf1bfbc22] (0xc5d53d8d, 0xa7a3623f, 0xc2606d6d, 0x9dc68b63, 0xaa47c347, 0x49f5114a, 0xe1257970, 0x8ada8930) =
      (0x77d37528, 0xb62ec4bc, 0xcde8037d, 0x1c2c2838, 0xedffbff8, 0xc74c6516, 0x14383d8e, 0x2823ef91)"
    by (simp add: sha_ev)
  have r7: "?R [0x6400a95a, 0xc22eb812, 0x76eb9bf5, 0xe7e0c0a2] (0x77d37528, 0xb62ec4bc, 0xcde8037d, 0x1c2c2838, 0xedffbff8, 0xc74c6516, 0x14383d8e, 0x2823ef91) =
      (0x73b33bf5, 0xea992a22, 0xa0060b30, 0x363482c9, 0xba591112, 0x109ab3a, 0xade79437, 0x6112a3b7)"
    by (simp add: sha_ev)
  have r8: "?R [0xbbaca404, 0x6983dbab, 0xfd216dbd, 0x44426975] (0x73b33bf5, 0xea992a22, 0xa0060b30, 0x363482c9, 0xba591112, 0x109ab3a, 0xade79437, 0x6112a3b7) =
      (0x65a0cfe4, 0xa9a7738c, 0xfe604df5, 0x98e12507, 0xf4b002d6, 0x85f3833, 0x59249dd3, 0x9cd9f5f6)"
    by (simp add: sha_ev)
  have r9: "?R [0x6f95acea, 0xe9198dc5, 0x15ccac6c, 0xb6d641a7] (0x65a0cfe4, 0xa9a7738c, 0xfe604df5, 0x98e12507, 0xf4b002d6, 0x85f3833, 0x59249dd3, 0x9cd9f5f6) =
      (0x79ea687a, 0x6dc57a8a, 0x34df1604, 0x41a65cb1, 0x1efbc0a0, 0xf0781bc8, 0xa507a53d, 0x772a26b)"
    by (simp add: sha_ev)
  have r10: "?R [0x4207a835, 0x98c0b5a5, 0x6ff5e9, 0xee9f8d46] (0x79ea687a, 0x6dc57a8a, 0x34df1604, 0x41a65cb1, 0x1efbc0a0, 0xf0781bc8, 0xa507a53d, 0x772a26b) =
      (0x9d4baf93, 0x17aa0dfe, 0xdf46652f, 0xd6670766, 0xfda24c2e, 0xdecd4715, 0x838b2711, 0x26352d63)"
    by (simp add: sha_ev)
  have r11: "?R [0xddda4c0b, 0x5aa3c54b, 0x6e3742e2, 0x16c6e44a] (0x9d4baf93, 0x17aa0dfe, 0xdf46652f, 0xd6670766, 0xfda24c2e, 0xdecd4715, 0x838b2711, 0x26352d63) =
      (0x4172328d, 0xa14c14b0, 0x72ab4b91, 0x26628815, 0xfecf0bc6, 0xd57b94a9, 0xb7755da1, 0xa80f11f0)"
    by (simp add: sha_ev)
  have r12: "?R [0x14e34ae1, 0xeaad83e3, 0xe12ee380, 0xde49f31c] (0x4172328d, 0xa14c14b0, 0x72ab4b91, 0x26628815, 0xfecf0bc6, 0xd57b94a9, 0xb7755da1, 0xa80f11f0) =
      (0x886e7a22, 0x7a0508a1, 0xf11bfaa8, 0x5757ceb, 0x49231c1e, 0x52f1ccf7, 0x6e5c390c, 0xbd714038)"
    by (simp add: sha_ev)
  have r13: "?R [0xbdd6eb90, 0x10ed0d06, 0x7024117b, 0x1a3dea8c] (0x886e7a22, 0x7a0508a1, 0xf11bfaa8, 0x5757ceb, 0x49231c1e, 0x52f1ccf7, 0x6e5c390c, 0xbd714038) =
      (0x38cc9913, 0x3ec45cdb, 0xf5702fdb, 0x101fd28f, 0x54cb266b, 0xe50e1b4f, 0x9f4787c3, 0x529e7d00)"
    by (simp add: sha_ev)
  have r14: "?R [0x63e73cbb, 0x648c15a7, 0x24ab8172, 0x5838f53] (0x38cc9913, 0x3ec45cdb, 0xf5702fdb, 0x101fd28f, 0x54cb266b, 0xe50e1b4f, 0x9f4787c3, 0x529e7d00) =
      (0xb6ae8fff, 0xffb70472, 0xc062d46f, 0xfcd1887b, 0xb21bad3d, 0x6d83bfc6, 0x7e44008e, 0x9b5e906c)"
    by (simp add: sha_ev)
  have r15: "?R [0x34fecf0f, 0xadb9ce3, 0xada546c3, 0xd92366dd] (0xb6ae8fff, 0xffb70472, 0xc062d46f, 0xfcd1887b, 0xb21bad3d, 0x6d83bfc6, 0x7e44008e, 0x9b5e906c) =
      (0x506e3058, 0xd39a2165, 0x4d24d6c, 0xb85e2ce9, 0x5ef50f24, 0xfb121210, 0x948d25b6, 0x961f4894)"
    by (simp add: sha_ev)
  have "map2 (+) K256 abc_schedule =
      [0xa3ec9318, 0x71374491, 0xb5c0fbcf, 0xe9b5dba5] @ [0x3956c25b, 0x59f111f1, 0x923f82a4, 0xab1c5ed5] @
      [0xd807aa98, 0x12835b01, 0x243185be, 0x550c7dc3] @ [0x72be5d74, 0x80deb1fe, 0x9bdc06a7, 0xc19bf18c] @
      [0x45fdcd41, 0xefcd4786, 0x8d6a01cb, 0x840ca592] @ [0x6c86a7e7, 0x4bf880aa, 0x6f8d69b7, 0x59dc4c68] @
      [0x605fad6c, 0x5f68400f, 0x95bf60d1, 0xf1bfbc22] @ [0x6400a95a, 0xc22eb812, 0x76eb9bf5, 0xe7e0c0a2] @
      [0xbbaca404, 0x6983dbab, 0xfd216dbd, 0x44426975] @ [0x6f95acea, 0xe9198dc5, 0x15ccac6c, 0xb6d641a7] @
      [0x4207a835, 0x98c0b5a5, 0x6ff5e9, 0xee9f8d46] @ [0xddda4c0b, 0x5aa3c54b, 0x6e3742e2, 0x16c6e44a] @
      [0x14e34ae1, 0xeaad83e3, 0xe12ee380, 0xde49f31c] @ [0xbdd6eb90, 0x10ed0d06, 0x7024117b, 0x1a3dea8c] @
      [0x63e73cbb, 0x648c15a7, 0x24ab8172, 0x5838f53] @ [0x34fecf0f, 0xadb9ce3, 0xada546c3, 0xd92366dd]"
    by (simp add: abc_schedule_def K256_def)
  moreover have "fold (sha_round abc_schedule) [0..<64] (regs_of H256) = fold kw_round (map2 (+) K256 abc_schedule) (regs_of H256)"
    by (rule sha_rounds_terms) (simp add: abc_schedule_def)
  ultimately show ?thesis
    by (simp only: fold_append comp_apply regs_of_H256 r0 r1 r2 r3 r4 r5 r6 r7 r8 r9 r10 r11 r12 r13 r14 r15)
qed

lemma sha256_abc:
  "sha256 [0x61, 0x62, 0x63] =
     [0xba, 0x78, 0x16, 0xbf, 0x8f, 0x1, 0xcf, 0xea, 0x41, 0x41, 0x40, 0xde, 0x5d, 0xae, 0x22, 0x23,
      0xb0, 0x3, 0x61, 0xa3, 0x96, 0x17, 0x7a, 0x9c, 0xb4, 0x10, 0xff, 0x61, 0xf2, 0x0, 0x15, 0xad]"
proof -
  have "length (sha_pad [0x61, 0x62, 0x63]) = 64" by (simp add: abc_pad)
  then have "sha256 [0x61, 0x62, 0x63] =
      concat (map u32_be (list_of_regs (add_regs (regs_of H256) (0x506e3058, 0xd39a2165, 0x4d24d6c, 0xb85e2ce9, 0x5ef50f24, 0xfb121210, 0x948d25b6, 0x961f4894))))"
    by (simp add: sha256_eq_pure pure_sha256_def pure_block_def abc_schedule abc_rounds)
  then show ?thesis
    unfolding regs_of_H256 add_regs_def list_of_regs_def by (simp add: be_bytes_unfold)
qed

section \<open>Properties\<close>

text \<open>
  C28. The SHA-256 routine computes the function of FIPS 180-4: read as bit strings, the digest of
  every input is the hash of the standard, whose constants are the first 32 bits of the fractional
  parts of the square and cube roots of the first primes, whose rotations and sums are those of
  its section 4.1.2, whose padding is the least solution of its congruence, and whose schedule is
  its recurrence; the array that the code updates in place and reuses from block to block leaves
  no trace.  On the message \<open>abc\<close> it gives the digest that the standard's example lists.
\<close>

theorem sha256_is_fips:
  "bits (sha256 data) = fips_sha256 (bits data)
   \<and> length (sha256 data) = SHA256_LEN
   \<and> sha256 [0x61, 0x62, 0x63] =
     [0xba, 0x78, 0x16, 0xbf, 0x8f, 0x1, 0xcf, 0xea, 0x41, 0x41, 0x40, 0xde, 0x5d, 0xae, 0x22, 0x23,
      0xb0, 0x3, 0x61, 0xa3, 0x96, 0x17, 0x7a, 0x9c, 0xb4, 0x10, 0xff, 0x61, 0xf2, 0x0, 0x15, 0xad]"
  using bits_sha256 sha256_abc by (simp add: SHA256_LEN_def)

lemma bits_xor:
  "bits (map (\<lambda>b. b XOR c) bs) = map2 (\<noteq>) (bits bs) (bits (replicate (length bs) c))"
proof (induction bs)
  case (Cons b bs)
  have "byte_bits (b XOR c) = map2 (\<noteq>) (byte_bits b) (byte_bits c)"
    by (rule nth_equalityI) (simp_all add: byte_bits_def bit_xor_iff)
  moreover have "length (byte_bits b) = length (byte_bits c)" by (simp add: byte_bits_def)
  ultimately show ?case using Cons by (simp add: zip_append)
qed simp

text \<open>
  HMAC is RFC 2104 over that hash: the key, hashed first when it is longer than a block, is padded
  with zeros to a block; the tag is \<open>H((K xor opad) @ H((K xor ipad) @ text))\<close>.  A key and its
  zero-padded form give the same tag, and so do a long key and its digest.
\<close>

theorem hmac_is_rfc2104:
  "bits (hmac_sha256 key m) = rfc_hmac (bits key) (bits m)
   \<and> hmac_sha256 (hmac_key_block key) m = hmac_sha256 key m
   \<and> length (hmac_sha256 key m) = 32"
proof -
  have len: "length (hmac_key_block key) = 64"
    by (auto simp: hmac_key_block_def SHA_BLOCK_LEN_def Let_def)
  then have "hmac_key_block (hmac_key_block key) = hmac_key_block key"
    by (simp add: hmac_key_block_def[of "hmac_key_block key"] SHA_BLOCK_LEN_def)
  then have "hmac_sha256 (hmac_key_block key) m = hmac_sha256 key m" by (simp add: hmac_sha256_def)
  moreover have "bits (hmac_sha256 key m) = rfc_hmac (bits key) (bits m)"
  proof -
    let ?k = "if 512 < length (bits key) then fips_sha256 (bits key) else bits key"
    have "bits (hmac_key_block key) = ?k @ replicate (512 - length ?k) False"
      by (simp add: hmac_key_block_def SHA_BLOCK_LEN_def Let_def bits_zeros diff_mult_distrib2
          del: map_replicate flip: bits_sha256)
    then show ?thesis
      by (simp only: hmac_sha256_def rfc_hmac_def Let_def bits_sha256 map_append concat_append bits_xor len)
  qed
  ultimately show ?thesis by (intro conjI length_hmac)
qed

end
