(* ===== verification/Proc.thy ===== *)
theory Proc
  imports Cursor
begin

text \<open>
  Programs that talk over a byte stream (\<open>S: Read + Write\<close>).  A blocking routine is a value of
  \<open>proc\<close>: it writes, waits for exactly \<open>n\<close> bytes (\<open>read_exact\<close>), or returns.  \<open>run_proc\<close> runs
  it on a given input; \<open>pstep\<close> is the interleaving of two of them connected by a FIFO in each
  direction (TCP between a client and a server, every write accepted).  Two programs never race
  for the same end of a queue, so steps commute: from one finished schedule follows that every
  schedule finishes, in the same state and after the same number of steps.
\<close>

datatype 'a proc =
    Done "'a result"
  | Write "u8 list" "'a proc"
  | Recv nat "u8 list \<Rightarrow> 'a proc"

primrec run_proc :: "'a proc \<Rightarrow> u8 list \<Rightarrow> 'a result \<times> u8 list \<times> u8 list" where
  "run_proc (Done r) = (\<lambda>inp. (r, [], inp))"
| "run_proc (Write bs p) = (\<lambda>inp. case run_proc p inp of (r, out, rest) \<Rightarrow> (r, bs @ out, rest))"
| "run_proc (Recv n k) = (\<lambda>inp.
     if length inp < n then (Inl (Io IoUnexpectedEof), [], [])
     else run_proc (k (take n inp)) (drop n inp))"

type_synonym ('a, 'b) conf = "'a proc \<times> 'b proc \<times> u8 list \<times> u8 list"

inductive pstep :: "('a, 'b) conf \<Rightarrow> ('a, 'b) conf \<Rightarrow> bool" where
  left_write: "pstep (Write bs p, q, cs, sc) (p, q, cs @ bs, sc)"
| left_recv: "n \<le> length sc \<Longrightarrow> pstep (Recv n k, q, cs, sc) (k (take n sc), q, cs, drop n sc)"
| right_write: "pstep (p, Write bs q, cs, sc) (p, q, cs, sc @ bs)"
| right_recv: "n \<le> length cs \<Longrightarrow> pstep (p, Recv n k, cs, sc) (p, k (take n cs), drop n cs, sc)"

inductive_cases pstep_cases: "pstep (p, q, cs, sc) t"
inductive_simps pstep_done: "pstep (Done r, Done r', cs, sc) t"

text \<open>The two ends as functions: at most one step each.\<close>

fun left_step :: "('a, 'b) conf \<Rightarrow> ('a, 'b) conf option" where
  "left_step (Write bs p, q, cs, sc) = Some (p, q, cs @ bs, sc)"
| "left_step (Recv n k, q, cs, sc) =
     (if n \<le> length sc then Some (k (take n sc), q, cs, drop n sc) else None)"
| "left_step (Done r, q, cs, sc) = None"

fun right_step :: "('a, 'b) conf \<Rightarrow> ('a, 'b) conf option" where
  "right_step (p, Write bs q, cs, sc) = Some (p, q, cs, sc @ bs)"
| "right_step (p, Recv n k, cs, sc) =
     (if n \<le> length cs then Some (p, k (take n cs), drop n cs, sc) else None)"
| "right_step (p, Done r, cs, sc) = None"

lemma pstep_iff: "pstep s t \<longleftrightarrow> left_step s = Some t \<or> right_step s = Some t"
proof
  show "pstep s t \<Longrightarrow> left_step s = Some t \<or> right_step s = Some t"
    by (induction rule: pstep.induct) simp_all
next
  obtain p q cs sc where s: "s = (p, q, cs, sc)" by (rule prod_cases4)
  assume "left_step s = Some t \<or> right_step s = Some t"
  then show "pstep s t"
  proof
    assume "left_step s = Some t"
    then show ?thesis unfolding s by (cases p) (auto intro: pstep.intros split: if_splits)
  next
    assume "right_step s = Some t"
    then show ?thesis unfolding s by (cases q) (auto intro: pstep.intros split: if_splits)
  qed
qed

lemma steps_commute:
  assumes "left_step s = Some a" and "right_step s = Some b"
  shows "\<exists>d. right_step a = Some d \<and> left_step b = Some d"
proof -
  obtain p q cs sc where s: "s = (p, q, cs, sc)" by (rule prod_cases4)
  show ?thesis
    using assms unfolding s by (cases p; cases q) (auto split: if_splits)
qed

lemma pstep_diamond:
  "pstep s a \<Longrightarrow> pstep s b \<Longrightarrow> a \<noteq> b \<Longrightarrow> \<exists>d. pstep a d \<and> pstep b d"
  unfolding pstep_iff using steps_commute[of s a b] steps_commute[of s b a] by (metis option.inject)

definition finished :: "('a, 'b) conf \<Rightarrow> bool" where
  "finished s \<longleftrightarrow> (\<exists>r r' cs sc. s = (Done r, Done r', cs, sc))"

lemma finished_stuck: "finished s \<Longrightarrow> \<not> pstep s t"
  by (auto simp: finished_def pstep_iff)

text \<open>
  From one schedule that finishes after \<open>n\<close> steps, every first step leads to the same end in
  \<open>n - 1\<close> steps, hence every schedule does.
\<close>

lemma descent:
  "(pstep ^^ n) s f \<Longrightarrow> finished f \<Longrightarrow> pstep s t \<Longrightarrow> \<exists>m. n = Suc m \<and> (pstep ^^ m) t f"
proof (induction n arbitrary: s t)
  case 0
  then have "s = f" by simp
  with 0 finished_stuck[of f t] show ?case by blast
next
  case (Suc n)
  from Suc.prems(1) obtain c where c: "pstep s c" "(pstep ^^ n) c f"
    by (rule relpowp_Suc_E2)
  show ?case
  proof (cases "c = t")
    case False
    then obtain d where d: "pstep c d" "pstep t d" using pstep_diamond[OF c(1) Suc.prems(3)] by blast
    from Suc.IH[OF c(2) Suc.prems(2) d(1)] obtain m where "n = Suc m" "(pstep ^^ m) d f" by blast
    then show ?thesis using d(2) relpowp_Suc_I2[of pstep t d m f] by auto
  qed (use c in auto)
qed

lemma every_schedule_finishes:
  "(pstep ^^ n) s f \<Longrightarrow> finished f \<Longrightarrow> (pstep ^^ k) s t \<Longrightarrow> k \<le> n \<and> (pstep ^^ (n - k)) t f"
proof (induction k arbitrary: s n)
  case (Suc k)
  from Suc.prems(3) obtain c where c: "pstep s c" "(pstep ^^ k) c t" by (rule relpowp_Suc_E2)
  from descent[OF Suc.prems(1,2) c(1)] obtain m where "n = Suc m" "(pstep ^^ m) c f" by blast
  with Suc.IH[OF _ Suc.prems(2) c(2)] show ?case by auto
qed simp

text \<open>A schedule as the list of the ends that move (\<open>True\<close> for the left one).\<close>

fun schedule :: "bool list \<Rightarrow> ('a, 'b) conf \<Rightarrow> ('a, 'b) conf option" where
  "schedule [] s = Some s"
| "schedule (b # bs) s = (case (if b then left_step s else right_step s) of
     None \<Rightarrow> None | Some t \<Rightarrow> schedule bs t)"

lemma schedule_steps: "schedule bs s = Some f \<Longrightarrow> (pstep ^^ length bs) s f"
proof (induction bs arbitrary: s)
  case (Cons b bs)
  then obtain t where t: "(if b then left_step s else right_step s) = Some t" "schedule bs t = Some f"
    by (auto split: option.splits)
  have "pstep s t" using t(1) by (auto simp: pstep_iff split: if_splits)
  from relpowp_Suc_I2[OF this Cons.IH[OF t(2)]] show ?case by simp
qed simp

end
