(* ===== verification/Handshake.thy ===== *)
theory Handshake
  imports Proc Hmac
begin

text \<open>
  \<open>handshake.rs\<close>: the plain and the digest handshake, as programs of \<open>proc\<close>.  The wall clock
  (\<open>now_secs\<close>) is a parameter: \<open>t1\<close> is its value at the first call of a routine, \<open>t2\<close> at
  the second.  The functions on packets take the fixed 1536-byte arrays of the source; their
  \<open>assert_eq\<close> on the length is a precondition of the lemmas.
\<close>

section \<open>Packets\<close>

definition RTMP_VERSION :: u8 where "RTMP_VERSION = 0x03"
definition HANDSHAKE_PAYLOAD_LEN :: nat where "HANDSHAKE_PAYLOAD_LEN = 1536"
definition HANDSHAKE_DIGEST_LEN :: nat where "HANDSHAKE_DIGEST_LEN = 32"
definition HANDSHAKE_DH_KEY_LEN :: nat where "HANDSHAKE_DH_KEY_LEN = 128"
definition HS_BLOCK_LEN :: nat where "HS_BLOCK_LEN = 764"
definition DIGEST_OFFSET_MOD :: nat where "DIGEST_OFFSET_MOD = 728"
definition KEY_OFFSET_MOD :: nat where "KEY_OFFSET_MOD = 632"
definition HANDSHAKE_CLIENT_VERSION :: u32 where "HANDSHAKE_CLIENT_VERSION = 0x80000702"
definition HANDSHAKE_SERVER_VERSION :: u32 where "HANDSHAKE_SERVER_VERSION = 0x0D0E0A0D"
definition FP_LABEL_LEN :: nat where "FP_LABEL_LEN = 30"
definition FMS_LABEL_LEN :: nat where "FMS_LABEL_LEN = 36"

lemmas hs_consts = RTMP_VERSION_def HANDSHAKE_PAYLOAD_LEN_def HANDSHAKE_DIGEST_LEN_def
  HANDSHAKE_DH_KEY_LEN_def HS_BLOCK_LEN_def DIGEST_OFFSET_MOD_def KEY_OFFSET_MOD_def

definition KEY_SUFFIX :: "u8 list" where
  "KEY_SUFFIX = [
    0xF0, 0xEE, 0xC2, 0x4A, 0x80, 0x68, 0xBE, 0xE8, 0x2E, 0x00, 0xD0, 0xD1, 0x02, 0x9E, 0x7E, 0x57,
    0x6E, 0xEC, 0x5D, 0x2D, 0x29, 0x80, 0x6F, 0xAB, 0x93, 0xB8, 0xE6, 0x36, 0xCF, 0xEB, 0x31, 0xAE]"

definition GENUINE_FP_KEY :: "u8 list" where
  "GENUINE_FP_KEY = lit ''Genuine Adobe Flash Player 001'' @ KEY_SUFFIX"

definition GENUINE_FMS_KEY :: "u8 list" where
  "GENUINE_FMS_KEY = lit ''Genuine Adobe Flash Media Server 001'' @ KEY_SUFFIX"

abbreviation "c1_key \<equiv> take FP_LABEL_LEN GENUINE_FP_KEY"
abbreviation "s1_key \<equiv> take FMS_LABEL_LEN GENUINE_FMS_KEY"

text \<open>\<open>fill_random\<close>: xorshift64*, eight bytes per round, the last chunk shortened.\<close>

function fill_random_from :: "nat \<Rightarrow> u64 \<Rightarrow> u8 list" where
  "fill_random_from n state0 =
    (if n = 0 then []
     else
       let state1 = state0 XOR push_bit 13 state0;
           state2 = state1 XOR drop_bit 7 state1;
           state3 = state2 XOR push_bit 17 state2
       in take n (u64_be (state3 * 0x2545F4914F6CDD1D)) @ fill_random_from (n - 8) state3)"
  by pat_completeness auto
termination by (relation "measure fst") auto

declare fill_random_from.simps [simp del]

definition fill_random :: "nat \<Rightarrow> u64 \<Rightarrow> u8 list" where
  "fill_random n seed = fill_random_from n (seed OR push_bit 32 seed OR 0x9E3779B97F4A7C15)"

definition fill_outgoing_payload :: "u32 \<Rightarrow> u8 list" where
  "fill_outgoing_payload secs = u32_be secs @ [0, 0, 0, 0] @ fill_random (HANDSHAKE_PAYLOAD_LEN - 8) (ucast secs)"

datatype digest_scheme = Schema0 | Schema1

definition digest_block_start :: "digest_scheme \<Rightarrow> nat" where
  "digest_block_start s = (case s of Schema0 \<Rightarrow> 8 + HS_BLOCK_LEN | Schema1 \<Rightarrow> 8)"

definition key_block_start :: "digest_scheme \<Rightarrow> nat" where
  "key_block_start s = (case s of Schema0 \<Rightarrow> 8 | Schema1 \<Rightarrow> 8 + HS_BLOCK_LEN)"

datatype handshake_kind = Simple | Digest digest_scheme bool

definition digest_offset :: "u8 list \<Rightarrow> digest_scheme \<Rightarrow> nat" where
  "digest_offset packet scheme =
    (let bs = digest_block_start scheme;
         total = unat (packet ! bs) + unat (packet ! (bs + 1)) + unat (packet ! (bs + 2))
           + unat (packet ! (bs + 3))
     in bs + 4 + total mod DIGEST_OFFSET_MOD)"

definition key_offset :: "u8 list \<Rightarrow> digest_scheme \<Rightarrow> nat" where
  "key_offset packet scheme =
    (let bs = key_block_start scheme;
         tail = bs + HS_BLOCK_LEN - 4;
         total = unat (packet ! tail) + unat (packet ! (tail + 1)) + unat (packet ! (tail + 2))
           + unat (packet ! (tail + 3))
     in bs + total mod KEY_OFFSET_MOD)"

definition digest_message :: "u8 list \<Rightarrow> nat \<Rightarrow> u8 list" where
  "digest_message packet pos = take pos packet @ drop (pos + HANDSHAKE_DIGEST_LEN) packet"

text \<open>\<open>packet[pos..pos + bytes.len()].copy_from_slice(&bytes)\<close>\<close>

definition splice :: "'a list \<Rightarrow> nat \<Rightarrow> 'a list \<Rightarrow> 'a list" where
  "splice packet pos bytes = take pos packet @ bytes @ drop (pos + length bytes) packet"

definition install_digest :: "u8 list \<Rightarrow> digest_scheme \<Rightarrow> u8 list \<Rightarrow> u8 list \<times> u8 list" where
  "install_digest packet scheme key =
    (let pos = digest_offset packet scheme;
         digest = hmac_sha256 key (digest_message packet pos)
     in (splice packet pos digest, digest))"

definition verify_digest :: "u8 list \<Rightarrow> digest_scheme \<Rightarrow> u8 list \<Rightarrow> u8 list option" where
  "verify_digest packet scheme key =
    (let pos = digest_offset packet scheme;
         expect = hmac_sha256 key (digest_message packet pos)
     in if take HANDSHAKE_DIGEST_LEN (drop pos packet) = expect then Some expect else None)"

definition find_digest :: "u8 list \<Rightarrow> u8 list \<Rightarrow> (digest_scheme \<times> u8 list) option" where
  "find_digest packet key =
    (case verify_digest packet Schema0 key of
       Some d \<Rightarrow> Some (Schema0, d)
     | None \<Rightarrow> (case verify_digest packet Schema1 key of Some d \<Rightarrow> Some (Schema1, d) | None \<Rightarrow> None))"

definition response_tail :: nat where
  "response_tail = HANDSHAKE_PAYLOAD_LEN - HANDSHAKE_DIGEST_LEN"

definition install_response_digest :: "u8 list \<Rightarrow> u8 list \<Rightarrow> u8 list \<Rightarrow> u8 list" where
  "install_response_digest packet peer_digest full_key =
    (let tmp = hmac_sha256 full_key peer_digest;
         d = hmac_sha256 tmp (take response_tail packet)
     in splice packet response_tail d)"

definition verify_response_digest :: "u8 list \<Rightarrow> u8 list \<Rightarrow> u8 list \<Rightarrow> bool" where
  "verify_response_digest packet own_digest full_key =
    (let tmp = hmac_sha256 full_key own_digest;
         expect = hmac_sha256 tmp (take response_tail packet)
     in drop response_tail packet = expect)"

definition build_digest_packet ::
    "u32 \<Rightarrow> u32 \<Rightarrow> digest_scheme \<Rightarrow> u8 list \<Rightarrow> u64 \<Rightarrow> u8 list \<times> u8 list" where
  "build_digest_packet now version scheme key seed =
     install_digest (u32_be now @ u32_be version @ fill_random (HANDSHAKE_PAYLOAD_LEN - 8) seed) scheme key"

section \<open>The routines\<close>

definition client_handshake :: "u32 \<Rightarrow> unit proc" where
  "client_handshake t1 =
    Write (RTMP_VERSION # fill_outgoing_payload t1) (Recv 1 (\<lambda>s0.
    if s0 ! 0 \<noteq> RTMP_VERSION then Done (Inl (UnsupportedHandshakeVersion (s0 ! 0)))
    else Recv HANDSHAKE_PAYLOAD_LEN (\<lambda>s1.
      Write s1 (Recv HANDSHAKE_PAYLOAD_LEN (\<lambda>s2. Done (Inr ()))))))"

definition client_handshake_digest :: "u32 \<Rightarrow> u32 \<Rightarrow> digest_scheme \<Rightarrow> handshake_kind proc" where
  "client_handshake_digest t1 t2 scheme =
    (let seed = ucast t1 :: u64;
         (c1, c1_digest) = build_digest_packet t2 HANDSHAKE_CLIENT_VERSION scheme c1_key seed
     in Write (RTMP_VERSION # c1) (Recv 1 (\<lambda>s0.
        if s0 ! 0 \<noteq> RTMP_VERSION then Done (Inl (UnsupportedHandshakeVersion (s0 ! 0)))
        else Recv HANDSHAKE_PAYLOAD_LEN (\<lambda>s1.
          case find_digest s1 s1_key of
            Some (s1_scheme, s1_digest) \<Rightarrow>
              Write (install_response_digest
                (fill_random HANDSHAKE_PAYLOAD_LEN (seed XOR 0x00C200C200C200C2)) s1_digest GENUINE_FP_KEY)
              (Recv HANDSHAKE_PAYLOAD_LEN (\<lambda>s2.
                Done (Inr (Digest s1_scheme (verify_response_digest s2 c1_digest GENUINE_FMS_KEY)))))
          | None \<Rightarrow>
              Write s1 (Recv HANDSHAKE_PAYLOAD_LEN (\<lambda>s2. Done (Inr Simple)))))))"

definition detect_client :: "u8 list \<Rightarrow> (digest_scheme \<times> u8 list) option" where
  "detect_client c1 =
    (if (of_be (take 4 (drop 4 c1)) :: u32) = 0 then None else find_digest c1 c1_key)"

definition server_handshake_negotiated :: "u32 \<Rightarrow> u32 \<Rightarrow> handshake_kind proc" where
  "server_handshake_negotiated t1 t2 =
    Recv 1 (\<lambda>c0.
    if c0 ! 0 \<noteq> RTMP_VERSION then Done (Inl (UnsupportedHandshakeVersion (c0 ! 0)))
    else Recv HANDSHAKE_PAYLOAD_LEN (\<lambda>c1.
      case detect_client c1 of
        None \<Rightarrow>
          Write (RTMP_VERSION # fill_outgoing_payload t1 @ c1)
            (Recv HANDSHAKE_PAYLOAD_LEN (\<lambda>c2. Done (Inr Simple)))
      | Some (scheme, c1_digest) \<Rightarrow>
          let seed = ucast t1 XOR 0x5EED000000005EED :: u64;
              (s1, s1_digest) = build_digest_packet t2 HANDSHAKE_SERVER_VERSION scheme s1_key seed;
              s2 = install_response_digest
                (fill_random HANDSHAKE_PAYLOAD_LEN (seed XOR 0x0052005200520052)) c1_digest GENUINE_FMS_KEY
          in Write (RTMP_VERSION # s1 @ s2) (Recv HANDSHAKE_PAYLOAD_LEN (\<lambda>c2.
               Done (Inr (Digest scheme (verify_response_digest c2 s1_digest GENUINE_FP_KEY)))))))"

text \<open>\<open>server_handshake\<close> drops the flavour (\<open>.map(|_| ())\<close>): \<open>map_proc\<close> maps what a program returns.\<close>

definition server_handshake :: "u32 \<Rightarrow> u32 \<Rightarrow> unit proc" where
  "server_handshake t1 t2 = map_proc (\<lambda>_. ()) (server_handshake_negotiated t1 t2)"

section \<open>Slots of a packet\<close>

locale packet_mac =
  fixes mac :: "u8 list \<Rightarrow> u8 list \<Rightarrow> u8 list"
  assumes mac_length: "length (mac k m) = HANDSHAKE_DIGEST_LEN"
begin

lemma length_splice: "pos + HANDSHAKE_DIGEST_LEN \<le> length p \<Longrightarrow> length (splice p pos (mac k m)) = length p"
  by (simp add: splice_def mac_length)

lemma splice_slot:
  "pos + HANDSHAKE_DIGEST_LEN \<le> length p \<Longrightarrow>
   take HANDSHAKE_DIGEST_LEN (drop pos (splice p pos (mac k m))) = mac k m"
  using mac_length[of k m] by (simp add: splice_def)

lemma splice_excised:
  "pos + HANDSHAKE_DIGEST_LEN \<le> length p \<Longrightarrow>
   digest_message (splice p pos (mac k m)) pos = digest_message p pos"
  using mac_length[of k m] by (simp add: splice_def digest_message_def)

lemma splice_below: "i < pos \<Longrightarrow> pos \<le> length p \<Longrightarrow> splice p pos (mac k m) ! i = p ! i"
  by (simp add: splice_def nth_append)

lemma splice_take: "j \<le> pos \<Longrightarrow> pos \<le> length p \<Longrightarrow> take j (splice p pos (mac k m)) = take j p"
  by (simp add: splice_def min_def)

end

interpretation hm: packet_mac hmac_sha256
  by unfold_locales (simp add: HANDSHAKE_DIGEST_LEN_def)

lemma digest_offset_bounds:
  "digest_block_start s + 4 \<le> digest_offset p s"
  "digest_offset p s + HANDSHAKE_DIGEST_LEN \<le> digest_block_start s + HS_BLOCK_LEN"
proof -
  obtain n where "digest_offset p s = digest_block_start s + 4 + n mod DIGEST_OFFSET_MOD"
    by (simp add: digest_offset_def Let_def)
  moreover have "n mod DIGEST_OFFSET_MOD < DIGEST_OFFSET_MOD" by (simp add: DIGEST_OFFSET_MOD_def)
  ultimately show "digest_block_start s + 4 \<le> digest_offset p s"
    "digest_offset p s + HANDSHAKE_DIGEST_LEN \<le> digest_block_start s + HS_BLOCK_LEN"
    by (simp_all add: hs_consts)
qed

lemma key_offset_bounds:
  "key_block_start s \<le> key_offset p s"
  "key_offset p s + HANDSHAKE_DH_KEY_LEN + 4 \<le> key_block_start s + HS_BLOCK_LEN"
proof -
  obtain n where "key_offset p s = key_block_start s + n mod KEY_OFFSET_MOD"
    by (simp add: key_offset_def Let_def)
  moreover have "n mod KEY_OFFSET_MOD < KEY_OFFSET_MOD" by (simp add: KEY_OFFSET_MOD_def)
  ultimately show "key_block_start s \<le> key_offset p s"
    "key_offset p s + HANDSHAKE_DH_KEY_LEN + 4 \<le> key_block_start s + HS_BLOCK_LEN"
    by (simp_all add: hs_consts)
qed

lemma block_starts: "8 \<le> digest_block_start s" "digest_block_start s + HS_BLOCK_LEN \<le> HANDSHAKE_PAYLOAD_LEN"
  by (cases s; simp add: digest_block_start_def hs_consts)+

lemma digest_offset_fits:
  "length p = HANDSHAKE_PAYLOAD_LEN \<Longrightarrow> digest_offset p s + HANDSHAKE_DIGEST_LEN \<le> length p"
  "12 \<le> digest_offset p s"
  using digest_offset_bounds(1)[of s p] digest_offset_bounds(2)[of p s] block_starts[of s] by (simp_all add: hs_consts)

lemma digest_offset_install:
  assumes "length p = HANDSHAKE_PAYLOAD_LEN"
  shows "digest_offset (splice p (digest_offset p s) (hmac_sha256 k m)) s = digest_offset p s"
proof -
  let ?pos = "digest_offset p s"
  have "?pos \<le> length p" using digest_offset_fits(1)[OF assms, of s] by simp
  then have "splice p ?pos (hmac_sha256 k m) ! (digest_block_start s + i) = p ! (digest_block_start s + i)" if "i < 4" for i
    using that digest_offset_bounds(1)[of s p] by (intro hm.splice_below) auto
  from this[of 0] this[of 1] this[of 2] this[of 3] show ?thesis
    by (simp add: digest_offset_def[of "splice _ _ _"] Let_def) (simp add: digest_offset_def Let_def)
qed

lemma installed_verifies:
  assumes "length p = HANDSHAKE_PAYLOAD_LEN" and "install_digest p s k = (p', d)"
  shows "verify_digest p' s k = Some d" and "length p' = HANDSHAKE_PAYLOAD_LEN" and "take 12 p' = take 12 p"
    and "length d = HANDSHAKE_DIGEST_LEN"
proof -
  let ?pos = "digest_offset p s"
  note fits = digest_offset_fits(1)[OF assms(1), of s]
  have p': "p' = splice p ?pos d" "d = hmac_sha256 k (digest_message p ?pos)"
    using assms(2) by (auto simp: install_digest_def Let_def)
  show "verify_digest p' s k = Some d"
    using hm.splice_slot[OF fits] hm.splice_excised[OF fits] digest_offset_install[OF assms(1)]
    by (simp add: verify_digest_def Let_def p')
  show "length p' = HANDSHAKE_PAYLOAD_LEN" using hm.length_splice[OF fits] assms(1) by (simp add: p')
  show "take 12 p' = take 12 p" using hm.splice_take fits digest_offset_fits(2)[of p s] by (simp add: p')
  show "length d = HANDSHAKE_DIGEST_LEN" using hm.mac_length by (simp add: p')
qed

lemma response_verifies:
  assumes "length p = HANDSHAKE_PAYLOAD_LEN"
  shows "verify_response_digest (install_response_digest p d k) d k"
    and "length (install_response_digest p d k) = HANDSHAKE_PAYLOAD_LEN"
proof -
  have fit: "response_tail + HANDSHAKE_DIGEST_LEN = length p"
    using assms by (simp add: response_tail_def hs_consts)
  then have eq: "splice p response_tail (hmac_sha256 t m) = take response_tail p @ hmac_sha256 t m" for t m
    by (simp add: splice_def HANDSHAKE_DIGEST_LEN_def)
  show "verify_response_digest (install_response_digest p d k) d k"
    using fit by (simp add: verify_response_digest_def install_response_digest_def Let_def eq)
  show "length (install_response_digest p d k) = HANDSHAKE_PAYLOAD_LEN"
    using fit assms by (simp add: install_response_digest_def Let_def eq HANDSHAKE_DIGEST_LEN_def)
qed

lemma length_fill_random_from [simp]: "length (fill_random_from n seed) = n"
  by (induction n seed rule: fill_random_from.induct)
    (subst fill_random_from.simps, simp add: Let_def min_def)

lemma length_fill_random [simp]: "length (fill_random n seed) = n"
  by (simp add: fill_random_def)

lemma length_outgoing [simp]: "length (fill_outgoing_payload t) = HANDSHAKE_PAYLOAD_LEN"
  by (simp add: fill_outgoing_payload_def hs_consts)

lemma built_packet:
  assumes "build_digest_packet now version s k seed = (p, d)"
  shows "verify_digest p s k = Some d" and "length p = HANDSHAKE_PAYLOAD_LEN"
    and "of_be (take 4 (drop 4 p)) = version"
proof -
  let ?p = "u32_be now @ u32_be version @ fill_random (HANDSHAKE_PAYLOAD_LEN - 8) seed"
  have len: "length ?p = HANDSHAKE_PAYLOAD_LEN" by (simp add: hs_consts)
  note inst = installed_verifies[OF len assms[unfolded build_digest_packet_def]]
  show "verify_digest p s k = Some d" "length p = HANDSHAKE_PAYLOAD_LEN" using inst by blast+
  have "take 4 (drop 4 p) = take 4 (drop 4 (take 12 p))" by (simp add: drop_take min_def)
  also have "\<dots> = u32_be version" using inst(3) by simp
  finally show "of_be (take 4 (drop 4 p)) = version" by simp
qed

text \<open>A packet digested under schema 1 that happens to validate under schema 0 too is misread.\<close>

definition unambiguous :: "u8 list \<Rightarrow> digest_scheme \<Rightarrow> u8 list \<Rightarrow> bool" where
  "unambiguous p s k \<longleftrightarrow> s = Schema0 \<or> verify_digest p Schema0 k = None"

lemma find_digest_eq: "verify_digest p s k = Some d \<Longrightarrow> unambiguous p s k \<Longrightarrow> find_digest p k = Some (s, d)"
  by (cases s) (auto simp: find_digest_def unambiguous_def)

section \<open>Properties\<close>

text \<open>
  The layout of a digested packet: whatever the packet and the block order, the digest lies
  in the digest block after its four offset bytes, the key in the key block before its four,
  the blocks share no byte, and both are inside the packet after its eight header bytes.
\<close>

theorem digest_layout:
  "{digest_offset p s..<digest_offset p s + HANDSHAKE_DIGEST_LEN}
      \<subseteq> {digest_block_start s + 4..<digest_block_start s + HS_BLOCK_LEN}
   \<and> {key_offset p s..<key_offset p s + HANDSHAKE_DH_KEY_LEN}
      \<subseteq> {key_block_start s..<key_block_start s + HS_BLOCK_LEN - 4}
   \<and> {digest_block_start s..<digest_block_start s + HS_BLOCK_LEN}
      \<inter> {key_block_start s..<key_block_start s + HS_BLOCK_LEN} = {}
   \<and> {digest_block_start s..<digest_block_start s + HS_BLOCK_LEN}
      \<union> {key_block_start s..<key_block_start s + HS_BLOCK_LEN} = {8..<HANDSHAKE_PAYLOAD_LEN}"
proof (intro conjI)
  show "{digest_offset p s..<digest_offset p s + HANDSHAKE_DIGEST_LEN}
      \<subseteq> {digest_block_start s + 4..<digest_block_start s + HS_BLOCK_LEN}"
    using digest_offset_bounds(1)[of s p] digest_offset_bounds(2)[of p s] by auto
  show "{key_offset p s..<key_offset p s + HANDSHAKE_DH_KEY_LEN}
      \<subseteq> {key_block_start s..<key_block_start s + HS_BLOCK_LEN - 4}"
    using key_offset_bounds(1)[of s p] key_offset_bounds(2)[of p s] by auto
qed (cases s; auto simp: digest_block_start_def key_block_start_def hs_consts)+

text \<open>
  C26. Digests verify: an installed digest is found by the peer with the same key (under the
  block order it was built for, or under schema 0 when it happens to validate there), it leaves
  the header bytes alone, and a response digest chains from the digest it answers.
\<close>

theorem digests_verify:
  assumes "length p = HANDSHAKE_PAYLOAD_LEN" and "length q = HANDSHAKE_PAYLOAD_LEN"
    and "install_digest p s k = (p', d)"
  shows "verify_digest p' s k = Some d
    \<and> (find_digest p' k = Some (s, d) \<or> s = Schema1 \<and> verify_digest p' Schema0 k \<noteq> None)
    \<and> length p' = HANDSHAKE_PAYLOAD_LEN \<and> take 8 p' = take 8 p
    \<and> verify_response_digest (install_response_digest q d k') d k'"
proof -
  note inst = installed_verifies[OF assms(1,3)]
  have "take 8 p' = take 8 (take 12 p')" by simp
  also have "\<dots> = take 8 p" using inst(3) by simp
  finally have "take 8 p' = take 8 p" .
  moreover have "find_digest p' k = Some (s, d) \<or> s = Schema1 \<and> verify_digest p' Schema0 k \<noteq> None"
    using find_digest_eq[OF inst(1)] by (cases s) (auto simp: unambiguous_def)
  ultimately show ?thesis using inst response_verifies(1)[OF assms(2)] by blast
qed

theorem digests_verify_witness:
  "let p = replicate 1536 0; r = install_digest p Schema1 c1_key in
    verify_digest (fst r) Schema1 c1_key = Some (snd r)
    \<and> (find_digest (fst r) c1_key = Some (Schema1, snd r)
       \<or> Schema1 = Schema1 \<and> verify_digest (fst r) Schema0 c1_key \<noteq> None)
    \<and> length (fst r) = HANDSHAKE_PAYLOAD_LEN \<and> take 8 (fst r) = take 8 p
    \<and> verify_response_digest (install_response_digest p (snd r) GENUINE_FMS_KEY) (snd r) GENUINE_FMS_KEY"
  unfolding Let_def
  by (rule digests_verify) (simp_all add: HANDSHAKE_PAYLOAD_LEN_def)

definition digest_c1 :: "u32 \<Rightarrow> u32 \<Rightarrow> digest_scheme \<Rightarrow> u8 list" where
  "digest_c1 t1 t2 s = fst (build_digest_packet t2 HANDSHAKE_CLIENT_VERSION s c1_key (ucast t1))"

definition digest_s1 :: "u32 \<Rightarrow> u32 \<Rightarrow> digest_scheme \<Rightarrow> u8 list" where
  "digest_s1 t1 t2 s = fst (build_digest_packet t2 HANDSHAKE_SERVER_VERSION s s1_key
     (ucast t1 XOR 0x5EED000000005EED))"

text \<open>The turns of one complete exchange: client, server, client, server.\<close>

definition handshake_turns :: "bool list" where
  "handshake_turns = [True, False, False, False, True, True, True, True, False]"

lemma nine_turns: "length handshake_turns = 9"
  by (simp add: handshake_turns_def)

lemmas finish_after_nine = every_schedule_finishes[OF schedule_steps[of handshake_turns, unfolded nine_turns]]

lemma digest_schedule:
  assumes "unambiguous (digest_c1 t1 t2 s) s c1_key" and "unambiguous (digest_s1 t3 t4 s) s s1_key"
  shows "schedule handshake_turns (client_handshake_digest t1 t2 s, server_handshake_negotiated t3 t4, [], [])
    = Some (Done (Inr (Digest s True)), Done (Inr (Digest s True)), [], [])"
proof -
  obtain c1 dc where c1: "build_digest_packet t2 HANDSHAKE_CLIENT_VERSION s c1_key (ucast t1) = (c1, dc)"
    by (rule prod.exhaust)
  obtain s1 ds where s1: "build_digest_packet t4 HANDSHAKE_SERVER_VERSION s s1_key
      (ucast t3 XOR 0x5EED000000005EED) = (s1, ds)"
    by (rule prod.exhaust)
  note bc = built_packet[OF c1] and bs = built_packet[OF s1]
  have "unambiguous c1 s c1_key" "unambiguous s1 s s1_key"
    using assms by (simp_all add: digest_c1_def digest_s1_def c1 s1)
  then have fc: "detect_client c1 = Some (s, dc)" and fs: "find_digest s1 s1_key = Some (s, ds)"
    using find_digest_eq[OF bc(1)] find_digest_eq[OF bs(1)] bc(3)
    by (simp_all add: detect_client_def HANDSHAKE_CLIENT_VERSION_def)
  show ?thesis
    unfolding handshake_turns_def client_handshake_digest_def server_handshake_negotiated_def
    by (simp add: c1 Let_def bc(2) bs(2) fc fs s1 response_verifies)
qed

text \<open>
  C15. The digest handshake completes: under every interleaving of the client and the server and
  for all clock values, no reachable state is stuck, after at most nine steps both have
  returned, both report the digest flavour with the peer's response verified, and no byte is
  left on the wire.  (For schema 1, unless a packet validates under schema 0 as well.)
\<close>

theorem digest_handshake_completes:
  assumes "unambiguous (digest_c1 t1 t2 s) s c1_key" and "unambiguous (digest_s1 t3 t4 s) s s1_key"
    and "(pstep ^^ k) (client_handshake_digest t1 t2 s, server_handshake_negotiated t3 t4, [], []) st"
  shows "k \<le> 9 \<and> (pstep ^^ (9 - k)) st (Done (Inr (Digest s True)), Done (Inr (Digest s True)), [], [])"
  using finish_after_nine[OF digest_schedule[OF assms(1,2)] _ assms(3)]
  by (simp add: finished_def)

theorem digest_handshake_completes_witness:
  "0 \<le> (9 :: nat) \<and> (pstep ^^ (9 - 0)) (client_handshake_digest 5 6 Schema0, server_handshake_negotiated 7 8, [], [])
     (Done (Inr (Digest Schema0 True)), Done (Inr (Digest Schema0 True)), [], [])"
  by (rule digest_handshake_completes) (simp_all add: unambiguous_def)

text \<open>
  The plain handshake completes with the same server under every interleaving: the server
  sees the zero version field and settles on the echo exchange.
\<close>

theorem simple_handshake_completes:
  assumes "(pstep ^^ k) (client_handshake t1, server_handshake_negotiated t3 t4, [], []) st"
  shows "k \<le> 9 \<and> (pstep ^^ (9 - k)) st (Done (Inr ()), Done (Inr Simple), [], [])"
proof -
  have "drop 4 (fill_outgoing_payload t1) = [0, 0, 0, 0] @ fill_random (HANDSHAKE_PAYLOAD_LEN - 8) (ucast t1)"
    by (simp add: fill_outgoing_payload_def)
  then have "detect_client (fill_outgoing_payload t1) = None"
    by (simp add: detect_client_def of_be_def)
  then have "schedule handshake_turns (client_handshake t1, server_handshake_negotiated t3 t4, [], [])
    = Some (Done (Inr ()), Done (Inr Simple), [], [])"
    unfolding handshake_turns_def client_handshake_def server_handshake_negotiated_def by simp
  from finish_after_nine[OF this _ assms] show ?thesis
    by (simp add: finished_def)
qed

theorem simple_handshake_completes_witness:
  "0 \<le> (9 :: nat) \<and> (pstep ^^ (9 - 0)) (client_handshake 5, server_handshake_negotiated 7 8, [], [])
     (Done (Inr ()), Done (Inr Simple), [], [])"
  by (rule simple_handshake_completes) simp


lemma built_length: "length (fst (build_digest_packet n v s k seed)) = HANDSHAKE_PAYLOAD_LEN"
  using built_packet(2)[of n v s k seed] by (cases "build_digest_packet n v s k seed") simp





end
