(* ===== verification/Control_Msg.thy ===== *)
theory Control_Msg
  imports Chunk_Link
begin

text \<open>
  The protocol-control half of \<open>message.rs\<close>: the message type numbers, the builders of the
  control messages, \<open>PeerBandwidthLimiter\<close> (\<open>peer_bandwidth_limiter\<close>) and the User Control
  events (\<open>user_control_event\<close>, with \<open>ucm_parse\<close> and \<open>ucm_to_message\<close>).
\<close>

section \<open>Numbers\<close>

definition MSG_SET_CHUNK_SIZE :: u8 where "MSG_SET_CHUNK_SIZE = 1"
definition MSG_ABORT :: u8 where "MSG_ABORT = 2"
definition MSG_ACK :: u8 where "MSG_ACK = 3"
definition MSG_USER_CONTROL :: u8 where "MSG_USER_CONTROL = 4"
definition MSG_WINDOW_ACK_SIZE :: u8 where "MSG_WINDOW_ACK_SIZE = 5"
definition MSG_SET_PEER_BANDWIDTH :: u8 where "MSG_SET_PEER_BANDWIDTH = 6"
definition MSG_AUDIO :: u8 where "MSG_AUDIO = 8"
definition MSG_VIDEO :: u8 where "MSG_VIDEO = 9"
definition MSG_DATA_AMF3 :: u8 where "MSG_DATA_AMF3 = 15"
definition MSG_SHARED_OBJECT_AMF3 :: u8 where "MSG_SHARED_OBJECT_AMF3 = 16"
definition MSG_COMMAND_AMF3 :: u8 where "MSG_COMMAND_AMF3 = 17"
definition MSG_DATA_AMF0 :: u8 where "MSG_DATA_AMF0 = 18"
definition MSG_SHARED_OBJECT_AMF0 :: u8 where "MSG_SHARED_OBJECT_AMF0 = 19"
definition MSG_COMMAND_AMF0 :: u8 where "MSG_COMMAND_AMF0 = 20"
definition MSG_AGGREGATE :: u8 where "MSG_AGGREGATE = 22"

definition USR_STREAM_BEGIN :: u16 where "USR_STREAM_BEGIN = 0"
definition USR_STREAM_EOF :: u16 where "USR_STREAM_EOF = 1"
definition USR_STREAM_DRY :: u16 where "USR_STREAM_DRY = 2"
definition USR_SET_BUFFER_LENGTH :: u16 where "USR_SET_BUFFER_LENGTH = 3"
definition USR_STREAM_IS_RECORDED :: u16 where "USR_STREAM_IS_RECORDED = 4"
definition USR_PING_REQUEST :: u16 where "USR_PING_REQUEST = 6"
definition USR_PING_RESPONSE :: u16 where "USR_PING_RESPONSE = 7"

definition CSID_PROTOCOL_CONTROL :: u32 where "CSID_PROTOCOL_CONTROL = 2"
definition CSID_COMMAND :: u32 where "CSID_COMMAND = 3"
definition CSID_AUDIO :: u32 where "CSID_AUDIO = 4"
definition CSID_VIDEO :: u32 where "CSID_VIDEO = 5"
definition CSID_DATA :: u32 where "CSID_DATA = 6"

lemmas msg_types = MSG_SET_CHUNK_SIZE_def MSG_ABORT_def MSG_ACK_def MSG_USER_CONTROL_def
  MSG_WINDOW_ACK_SIZE_def MSG_SET_PEER_BANDWIDTH_def MSG_AUDIO_def MSG_VIDEO_def MSG_DATA_AMF3_def
  MSG_SHARED_OBJECT_AMF3_def MSG_COMMAND_AMF3_def MSG_DATA_AMF0_def MSG_SHARED_OBJECT_AMF0_def
  MSG_COMMAND_AMF0_def MSG_AGGREGATE_def

lemmas usr_types = USR_STREAM_BEGIN_def USR_STREAM_EOF_def USR_STREAM_DRY_def
  USR_SET_BUFFER_LENGTH_def USR_STREAM_IS_RECORDED_def USR_PING_REQUEST_def USR_PING_RESPONSE_def

section \<open>Builders\<close>

definition control_message :: "u8 \<Rightarrow> u8 list \<Rightarrow> message" where
  "control_message t p = \<lparr>msg_type_id = t, msg_stream_id = 0, msg_timestamp = 0, msg_payload = p\<rparr>"

definition build_set_chunk_size :: "u32 \<Rightarrow> message" where
  "build_set_chunk_size n = control_message MSG_SET_CHUNK_SIZE (u32_be (n AND 0x7FFFFFFF))"

definition build_abort :: "u32 \<Rightarrow> message" where
  "build_abort chunk_stream_id = control_message MSG_ABORT (u32_be chunk_stream_id)"

definition build_window_ack_size :: "u32 \<Rightarrow> message" where
  "build_window_ack_size n = control_message MSG_WINDOW_ACK_SIZE (u32_be n)"

definition build_ack :: "u32 \<Rightarrow> message" where
  "build_ack bytes_received = control_message MSG_ACK (u32_be bytes_received)"

definition build_set_peer_bandwidth :: "u32 \<Rightarrow> u8 \<Rightarrow> message" where
  "build_set_peer_bandwidth n limit_type =
     control_message MSG_SET_PEER_BANDWIDTH (u32_be n @ [limit_type])"

definition build_user_control_stream_begin :: "u32 \<Rightarrow> message" where
  "build_user_control_stream_begin i = control_message MSG_USER_CONTROL (u16_be USR_STREAM_BEGIN @ u32_be i)"

definition build_user_control_stream_eof :: "u32 \<Rightarrow> message" where
  "build_user_control_stream_eof i = control_message MSG_USER_CONTROL (u16_be USR_STREAM_EOF @ u32_be i)"

definition build_user_control_stream_dry :: "u32 \<Rightarrow> message" where
  "build_user_control_stream_dry i = control_message MSG_USER_CONTROL (u16_be USR_STREAM_DRY @ u32_be i)"

definition build_user_control_set_buffer_length :: "u32 \<Rightarrow> u32 \<Rightarrow> message" where
  "build_user_control_set_buffer_length i ms =
     control_message MSG_USER_CONTROL (u16_be USR_SET_BUFFER_LENGTH @ u32_be i @ u32_be ms)"

definition build_user_control_stream_is_recorded :: "u32 \<Rightarrow> message" where
  "build_user_control_stream_is_recorded i =
     control_message MSG_USER_CONTROL (u16_be USR_STREAM_IS_RECORDED @ u32_be i)"

definition build_user_control_ping_request :: "u32 \<Rightarrow> message" where
  "build_user_control_ping_request t = control_message MSG_USER_CONTROL (u16_be USR_PING_REQUEST @ u32_be t)"

definition build_user_control_ping_response :: "u32 \<Rightarrow> message" where
  "build_user_control_ping_response t = control_message MSG_USER_CONTROL (u16_be USR_PING_RESPONSE @ u32_be t)"

lemmas control_builders = build_set_chunk_size_def build_abort_def build_window_ack_size_def
  build_ack_def build_set_peer_bandwidth_def build_user_control_stream_begin_def
  build_user_control_stream_eof_def build_user_control_stream_dry_def
  build_user_control_set_buffer_length_def build_user_control_stream_is_recorded_def
  build_user_control_ping_request_def build_user_control_ping_response_def

section \<open>Peer bandwidth\<close>

definition PEER_BANDWIDTH_LIMIT_HARD :: u8 where "PEER_BANDWIDTH_LIMIT_HARD = 0"
definition PEER_BANDWIDTH_LIMIT_SOFT :: u8 where "PEER_BANDWIDTH_LIMIT_SOFT = 1"
definition PEER_BANDWIDTH_LIMIT_DYNAMIC :: u8 where "PEER_BANDWIDTH_LIMIT_DYNAMIC = 2"

lemmas limit_types = PEER_BANDWIDTH_LIMIT_HARD_def PEER_BANDWIDTH_LIMIT_SOFT_def
  PEER_BANDWIDTH_LIMIT_DYNAMIC_def

definition parse_set_peer_bandwidth :: "u8 list \<Rightarrow> (u32 \<times> u8) result" where
  "parse_set_peer_bandwidth payload =
    (if length payload < 4 then Inl InvalidChunk
     else Inr (of_be (take 4 payload),
       if 4 < length payload then payload ! 4 else PEER_BANDWIDTH_LIMIT_HARD))"

record peer_bandwidth_limiter =
  pb_window :: "u32 option"
  pb_last_was_hard :: bool

definition limiter_new :: peer_bandwidth_limiter where
  "limiter_new = \<lparr>pb_window = None, pb_last_was_hard = False\<rparr>"

definition adopt :: "u32 \<Rightarrow> peer_bandwidth_limiter \<Rightarrow> u32 option \<times> peer_bandwidth_limiter" where
  "adopt window l =
    (if pb_window l = Some window then (None, l) else (Some window, l\<lparr>pb_window := Some window\<rparr>))"

definition limiter_apply ::
    "u32 \<Rightarrow> u8 \<Rightarrow> peer_bandwidth_limiter \<Rightarrow> u32 option \<times> peer_bandwidth_limiter" where
  "limiter_apply window limit_type l =
    (if limit_type = PEER_BANDWIDTH_LIMIT_HARD then adopt window (l\<lparr>pb_last_was_hard := True\<rparr>)
     else if limit_type = PEER_BANDWIDTH_LIMIT_SOFT then
       adopt (case pb_window l of None \<Rightarrow> window | Some cur \<Rightarrow> min cur window)
         (l\<lparr>pb_last_was_hard := False\<rparr>)
     else if limit_type = PEER_BANDWIDTH_LIMIT_DYNAMIC then
       (if pb_last_was_hard l then adopt window l else (None, l))
     else (None, l))"

section \<open>User Control events\<close>

datatype user_control_event =
    UcStreamBegin u32
  | UcStreamEof u32
  | UcStreamDry u32
  | UcSetBufferLength u32 u32
  | UcStreamIsRecorded u32
  | UcPingRequest u32
  | UcPingResponse u32
  | UcUnknown u16 "u8 list"

definition ucm_read_u32_be :: "u8 list \<Rightarrow> u32 result" where
  "ucm_read_u32_be data = (if length data < 4 then Inl ProtocolViolation else Inr (of_be (take 4 data)))"

definition ucm_parse :: "u8 list \<Rightarrow> user_control_event result" where
  "ucm_parse payload =
    (if length payload < 2 then Inl ProtocolViolation
     else
       let event_type = of_be (take 2 payload) :: u16; data = drop 2 payload;
         one = (\<lambda>c. res_bind (ucm_read_u32_be data) (\<lambda>v. Inr (c v))) in
       if event_type = USR_STREAM_BEGIN then one UcStreamBegin
       else if event_type = USR_STREAM_EOF then one UcStreamEof
       else if event_type = USR_STREAM_DRY then one UcStreamDry
       else if event_type = USR_SET_BUFFER_LENGTH then
         (if length data < 8 then Inl ProtocolViolation
          else Inr (UcSetBufferLength (of_be (take 4 data)) (of_be (take 4 (drop 4 data)))))
       else if event_type = USR_STREAM_IS_RECORDED then one UcStreamIsRecorded
       else if event_type = USR_PING_REQUEST then one UcPingRequest
       else if event_type = USR_PING_RESPONSE then one UcPingResponse
       else Inr (UcUnknown event_type data))"

definition ucm_event_type :: "user_control_event \<Rightarrow> u16" where
  "ucm_event_type e =
    (case e of UcStreamBegin _ \<Rightarrow> USR_STREAM_BEGIN | UcStreamEof _ \<Rightarrow> USR_STREAM_EOF
     | UcStreamDry _ \<Rightarrow> USR_STREAM_DRY | UcSetBufferLength _ _ \<Rightarrow> USR_SET_BUFFER_LENGTH
     | UcStreamIsRecorded _ \<Rightarrow> USR_STREAM_IS_RECORDED | UcPingRequest _ \<Rightarrow> USR_PING_REQUEST
     | UcPingResponse _ \<Rightarrow> USR_PING_RESPONSE | UcUnknown t _ \<Rightarrow> t)"

definition is_spec_defined :: "user_control_event \<Rightarrow> bool" where
  "is_spec_defined e = (case e of UcUnknown _ _ \<Rightarrow> False | _ \<Rightarrow> True)"

definition ucm_to_message :: "user_control_event \<Rightarrow> message" where
  "ucm_to_message e =
    (case e of UcStreamBegin i \<Rightarrow> build_user_control_stream_begin i
     | UcStreamEof i \<Rightarrow> build_user_control_stream_eof i
     | UcStreamDry i \<Rightarrow> build_user_control_stream_dry i
     | UcSetBufferLength i ms \<Rightarrow> build_user_control_set_buffer_length i ms
     | UcStreamIsRecorded i \<Rightarrow> build_user_control_stream_is_recorded i
     | UcPingRequest t \<Rightarrow> build_user_control_ping_request t
     | UcPingResponse t \<Rightarrow> build_user_control_ping_response t
     | UcUnknown t data \<Rightarrow> control_message MSG_USER_CONTROL (u16_be t @ data))"

section \<open>Lemmas\<close>

definition softs :: "(u32 \<times> u8) list \<Rightarrow> u32 list" where
  "softs ms = map fst (filter (\<lambda>m. snd m = PEER_BANDWIDTH_LIMIT_SOFT) ms)"

definition dynamics :: "(u32 \<times> u8) list \<Rightarrow> u32 list" where
  "dynamics ms = map fst (filter (\<lambda>m. snd m = PEER_BANDWIDTH_LIMIT_DYNAMIC) ms)"

definition limiter_run :: "(u32 \<times> u8) list \<Rightarrow> peer_bandwidth_limiter \<Rightarrow> peer_bandwidth_limiter" where
  "limiter_run ms l = fold (\<lambda>(w, k) l. snd (limiter_apply w k l)) ms l"

lemma adopt_window [simp]: "pb_window (snd (adopt w l)) = Some w"
  "pb_last_was_hard (snd (adopt w l)) = pb_last_was_hard l"
  by (auto simp: adopt_def)

lemma limiter_soft_run:
  "\<not> pb_last_was_hard l \<Longrightarrow> \<forall>m \<in> set ms. snd m \<noteq> PEER_BANDWIDTH_LIMIT_HARD \<Longrightarrow>
   pb_window (limiter_run ms l) =
     (case pb_window l of Some w \<Rightarrow> Some (fold min (softs ms) w)
      | None \<Rightarrow> (case softs ms of [] \<Rightarrow> None | w # ws \<Rightarrow> Some (fold min ws w)))"
proof (induction ms arbitrary: l)
  case Nil
  then show ?case by (simp add: limiter_run_def softs_def split: option.split)
next
  case (Cons m ms)
  obtain w k where m: "m = (w, k)" by (rule prod.exhaust)
  let ?l = "snd (limiter_apply w k l)"
  have nh: "k \<noteq> PEER_BANDWIDTH_LIMIT_HARD" using Cons.prems m by simp
  then have "\<not> pb_last_was_hard ?l" using Cons.prems(1) by (simp add: limiter_apply_def)
  note IH = Cons.IH[OF this]
  have run: "limiter_run (m # ms) l = limiter_run ms ?l" by (simp add: limiter_run_def m)
  show ?case
  proof (cases "k = PEER_BANDWIDTH_LIMIT_SOFT")
    case True
    then have "pb_window ?l = Some (case pb_window l of None \<Rightarrow> w | Some cur \<Rightarrow> min cur w)"
      by (simp add: limiter_apply_def limit_types)
    moreover have "softs (m # ms) = w # softs ms" by (simp add: softs_def m True)
    ultimately show ?thesis
      using IH Cons.prems(2) run by (simp add: min.commute split: option.split)
  next
    case False
    then have "?l = l" using Cons.prems(1) nh by (simp add: limiter_apply_def)
    moreover have "softs (m # ms) = softs ms" by (simp add: softs_def m False)
    ultimately show ?thesis using IH Cons.prems(2) run by (simp split: option.split)
  qed
qed

lemma limiter_hard_run:
  "pb_last_was_hard l \<Longrightarrow> pb_window l = Some w0 \<Longrightarrow>
   \<forall>m \<in> set ms. snd m \<noteq> PEER_BANDWIDTH_LIMIT_HARD \<Longrightarrow>
   pb_window (limiter_run ms l) =
     Some (fold min (softs ms)
       (last (w0 # dynamics (takeWhile (\<lambda>m. snd m \<noteq> PEER_BANDWIDTH_LIMIT_SOFT) ms))))"
proof (induction ms arbitrary: l w0)
  case Nil
  then show ?case by (simp add: limiter_run_def softs_def dynamics_def)
next
  case (Cons m ms)
  obtain w k where m: "m = (w, k)" by (rule prod.exhaust)
  let ?l = "snd (limiter_apply w k l)"
  have nh: "k \<noteq> PEER_BANDWIDTH_LIMIT_HARD" using Cons.prems m by simp
  have run: "limiter_run (m # ms) l = limiter_run ms ?l" by (simp add: limiter_run_def m)
  consider (soft) "k = PEER_BANDWIDTH_LIMIT_SOFT" | (dyn) "k = PEER_BANDWIDTH_LIMIT_DYNAMIC"
    | (other) "k \<noteq> PEER_BANDWIDTH_LIMIT_SOFT" "k \<noteq> PEER_BANDWIDTH_LIMIT_DYNAMIC" by blast
  then show ?case
  proof cases
    case soft
    then have "pb_window ?l = Some (min w0 w)" "\<not> pb_last_was_hard ?l"
      using Cons.prems(2) by (simp_all add: limiter_apply_def limit_types)
    moreover have "softs (m # ms) = w # softs ms" by (simp add: softs_def m soft)
    ultimately show ?thesis
      using limiter_soft_run[of ?l ms] Cons.prems(3) run soft
      by (simp add: m dynamics_def min.commute)
  next
    case dyn
    then have "pb_window ?l = Some w" "pb_last_was_hard ?l"
      using Cons.prems(1) by (simp_all add: limiter_apply_def limit_types)
    from Cons.IH[OF this(2,1)] show ?thesis
      using Cons.prems(3) run dyn
      by (simp add: m softs_def dynamics_def limit_types)
  next
    case other
    then have "?l = l" using nh by (simp add: limiter_apply_def)
    with Cons.IH[OF Cons.prems(1,2)] show ?thesis
      using Cons.prems(3) run other by (simp add: m softs_def dynamics_def)
  qed
qed

lemma limiter_run_append: "limiter_run (xs @ ys) l = limiter_run ys (limiter_run xs l)"
  by (simp add: limiter_run_def)

text \<open>Fixed-width fields at the head of a payload.\<close>

lemma of_be_take_u16: "of_be (take 2 (u16_be v @ r)) = v"
  and of_be_take_u32: "of_be (take 4 (u32_be w @ r)) = w"
  and drop_u16: "drop 2 (u16_be v @ r) = r"
  and drop_u32: "drop 4 (u32_be w @ r) = r"
  by simp_all

lemma u16_be_take: "2 \<le> length p \<Longrightarrow> u16_be (of_be (take 2 p)) = take 2 p"
  using be_bytes_of_be[of "take 2 p", where 'a = 16] by simp

lemma u32_be_take: "4 \<le> length p \<Longrightarrow> u32_be (of_be (take 4 p)) = take 4 p"
  using be_bytes_of_be[of "take 4 p", where 'a = 32] by simp

section \<open>Properties\<close>

text \<open>
  The limit-type state machine of section 5.4.5, on every history: after the last Hard
  message the window in effect is that of the last Dynamic message before the first Soft one
  (the Hard window when there is none), lowered to the minimum of the Soft windows; reserved
  types and Dynamic messages after a Soft one change nothing.
\<close>

theorem limiter_history:
  assumes "\<forall>m \<in> set post. snd m \<noteq> PEER_BANDWIDTH_LIMIT_HARD"
  shows "pb_window (limiter_run (pre @ (w0, PEER_BANDWIDTH_LIMIT_HARD) # post) limiter_new) =
      Some (fold min (softs post)
        (last (w0 # dynamics (takeWhile (\<lambda>m. snd m \<noteq> PEER_BANDWIDTH_LIMIT_SOFT) post))))
    \<and> pb_window (limiter_run post limiter_new) =
      (case softs post of [] \<Rightarrow> None | w # ws \<Rightarrow> Some (fold min ws w))"
proof -
  let ?l = "snd (limiter_apply w0 PEER_BANDWIDTH_LIMIT_HARD (limiter_run pre limiter_new))"
  have "pb_window ?l = Some w0" "pb_last_was_hard ?l" by (simp_all add: limiter_apply_def)
  from limiter_hard_run[OF this(2,1) assms] limiter_soft_run[of limiter_new, OF _ assms]
  show ?thesis by (simp add: limiter_run_append limiter_new_def) (simp add: limiter_run_def)
qed

theorem limiter_history_witness:
  "pb_window (limiter_run ([] @ (5000, PEER_BANDWIDTH_LIMIT_HARD) # [(7000, 2), (6000, 1), (9000, 2)]) limiter_new) =
      Some (fold min (softs [(7000, 2), (6000, 1), (9000, 2)])
        (last (5000 # dynamics (takeWhile (\<lambda>m. snd m \<noteq> PEER_BANDWIDTH_LIMIT_SOFT)
           [(7000, 2), (6000, 1), (9000, 2)]))))
    \<and> pb_window (limiter_run [(7000, 2), (6000, 1), (9000, 2)] limiter_new) =
      (case softs [(7000, 2), (6000, 1), (9000, 2)] of [] \<Rightarrow> None | w # ws \<Rightarrow> Some (fold min ws w))"
  by (rule limiter_history) (simp add: limit_types)

text \<open>
  \<open>apply\<close> answers with a window exactly when the window in effect changed, so a peer that
  repeats itself triggers no second Window Acknowledgement Size; and the payload it is fed
  with is the one \<open>build_set_peer_bandwidth\<close> writes, a missing limit byte meaning Hard.
\<close>

theorem limiter_reports_changes:
  "fst (limiter_apply w k l) =
      (if pb_window (snd (limiter_apply w k l)) = pb_window l then None
       else pb_window (snd (limiter_apply w k l)))
   \<and> fst (limiter_apply w k (snd (limiter_apply w k l))) = None
   \<and> parse_set_peer_bandwidth (msg_payload (build_set_peer_bandwidth w k)) = Inr (w, k)
   \<and> parse_set_peer_bandwidth (u32_be w) = Inr (w, PEER_BANDWIDTH_LIMIT_HARD)"
  by (auto simp: limiter_apply_def adopt_def limit_types parse_set_peer_bandwidth_def
      build_set_peer_bandwidth_def control_message_def nth_append split: option.splits)

definition ucm_types :: "u16 set" where
  "ucm_types = {0, 1, 2, 3, 4, 6, 7}"

definition ucm_canonical :: "user_control_event \<Rightarrow> bool" where
  "ucm_canonical e \<longleftrightarrow> (case e of UcUnknown t _ \<Rightarrow> t \<notin> ucm_types | _ \<Rightarrow> True)"

text \<open>The bytes \<open>parse\<close> needs, by event type.\<close>

definition ucm_min_length :: "u16 \<Rightarrow> nat" where
  "ucm_min_length t = (if t = 3 then 10 else if t \<in> ucm_types then 6 else 2)"

lemmas ucm_defs = ucm_parse_def ucm_to_message_def ucm_read_u32_be_def control_builders
  control_message_def usr_types Let_def

lemma ucm_roundtrip_bytes:
  "ucm_canonical e \<Longrightarrow> ucm_parse (msg_payload (ucm_to_message e) @ (if is_spec_defined e then r else [])) = Inr e"
  by (cases e) (simp_all add: ucm_defs is_spec_defined_def ucm_canonical_def ucm_types_def)

text \<open>
  User Control events round trip: the payload of \<open>to_message\<close> parses back to the event,
  bytes after the fixed fields of a defined event are ignored, and the message passes the
  protocol-control check.
\<close>

theorem ucm_roundtrip:
  assumes "ucm_canonical e"
  shows "ucm_parse (msg_payload (ucm_to_message e)) = Inr e
    \<and> ucm_parse (msg_payload (ucm_to_message e) @ (if is_spec_defined e then extra else [])) = Inr e
    \<and> validate_protocol_control_invariants (ucm_to_message e) = Inr ()"
proof -
  have "validate_protocol_control_invariants (ucm_to_message e) = Inr ()"
    by (cases e) (simp_all add: ucm_defs validate_protocol_control_invariants_def stream_kind_def)
  then show ?thesis
    using ucm_roundtrip_bytes[OF assms, of "[]"] ucm_roundtrip_bytes[OF assms, of extra] by simp
qed

theorem ucm_roundtrip_witness:
  "ucm_parse (msg_payload (ucm_to_message (UcUnknown 31 [1, 2]))) = Inr (UcUnknown 31 [1, 2])
    \<and> ucm_parse (msg_payload (ucm_to_message (UcUnknown 31 [1, 2]))
        @ (if is_spec_defined (UcUnknown 31 [1, 2]) then [9] else [])) = Inr (UcUnknown 31 [1, 2])
    \<and> validate_protocol_control_invariants (ucm_to_message (UcUnknown 31 [1, 2])) = Inr ()"
  by (rule ucm_roundtrip) (simp add: ucm_canonical_def ucm_types_def)

lemma ucm_parse_short:
  "length p < max 2 (ucm_min_length (of_be (take 2 p))) \<Longrightarrow> ucm_parse p = Inl ProtocolViolation"
  by (auto simp: ucm_defs ucm_min_length_def ucm_types_def res_bind_def split: if_splits)

lemma ucm_payloads:
  "msg_payload (ucm_to_message (UcStreamBegin v)) = u16_be 0 @ u32_be v"
  "msg_payload (ucm_to_message (UcStreamEof v)) = u16_be 1 @ u32_be v"
  "msg_payload (ucm_to_message (UcStreamDry v)) = u16_be 2 @ u32_be v"
  "msg_payload (ucm_to_message (UcSetBufferLength v w)) = u16_be 3 @ u32_be v @ u32_be w"
  "msg_payload (ucm_to_message (UcStreamIsRecorded v)) = u16_be 4 @ u32_be v"
  "msg_payload (ucm_to_message (UcPingRequest v)) = u16_be 6 @ u32_be v"
  "msg_payload (ucm_to_message (UcPingResponse v)) = u16_be 7 @ u32_be v"
  "msg_payload (ucm_to_message (UcUnknown t data)) = u16_be t @ data"
  by (simp_all add: ucm_defs)

text \<open>What \<open>parse\<close> returns for each event type when the payload is long enough.\<close>

definition ucm_of_type :: "u16 \<Rightarrow> u8 list \<Rightarrow> user_control_event" where
  "ucm_of_type t d = (let v = of_be (take 4 d); w = of_be (take 4 (drop 4 d)) in
     if t = 0 then UcStreamBegin v else if t = 1 then UcStreamEof v else if t = 2 then UcStreamDry v
     else if t = 3 then UcSetBufferLength v w else if t = 4 then UcStreamIsRecorded v
     else if t = 6 then UcPingRequest v else if t = 7 then UcPingResponse v else UcUnknown t d)"

lemma ucm_parse_long:
  assumes "2 \<le> length p" and "ucm_min_length (of_be (take 2 p)) \<le> length p"
  shows "ucm_parse p = Inr (ucm_of_type (of_be (take 2 p)) (drop 2 p))"
  using assms
  by (auto simp: ucm_parse_def ucm_read_u32_be_def ucm_of_type_def ucm_min_length_def ucm_types_def
      usr_types Let_def)

lemma ucm_of_type_sel:
  "ucm_event_type (ucm_of_type t d) = t" "ucm_canonical (ucm_of_type t d)"
  "is_spec_defined (ucm_of_type t d) \<longleftrightarrow> t \<in> ucm_types"
  by (simp_all add: ucm_of_type_def ucm_event_type_def ucm_canonical_def is_spec_defined_def usr_types
      ucm_types_def Let_def)

lemma ucm_of_type_payload:
  assumes "2 \<le> length p" and "t = of_be (take 2 p)" and "ucm_min_length t \<le> length p"
  shows "msg_payload (ucm_to_message (ucm_of_type t (drop 2 p))) =
    (if t \<in> ucm_types then take (ucm_min_length t) p else p)"
proof -
  let ?d = "drop 2 p"
  have t: "u16_be t = take 2 p" using u16_be_take[OF assms(1)] assms(2) by simp
  have four: "take 2 p @ u32_be (of_be (take 4 ?d)) = take 6 p" if "6 \<le> length p"
    using u32_be_take[of ?d] that take_add[of 2 4 p] by simp
  have eight: "take 2 p @ u32_be (of_be (take 4 ?d)) @ u32_be (of_be (take 4 (drop 4 ?d))) = take 10 p"
    if "10 \<le> length p"
    using u32_be_take[of ?d] u32_be_take[of "drop 4 ?d"] that take_add[of 2 8 p] take_add[of 4 4 ?d]
    by simp
  show ?thesis
  proof (cases "t = 3")
    case True
    then have "10 \<le> length p" using assms(3) by (simp add: ucm_min_length_def)
    moreover have "msg_payload (ucm_to_message (ucm_of_type t ?d)) =
        u16_be t @ u32_be (of_be (take 4 ?d)) @ u32_be (of_be (take 4 (drop 4 ?d)))"
      using True by (simp add: ucm_of_type_def ucm_payloads)
    ultimately show ?thesis using t eight True by (simp add: ucm_types_def ucm_min_length_def)
  next
    case not3: False
    show ?thesis
    proof (cases "t \<in> ucm_types")
      case True
      then have len: "ucm_min_length t = 6" using not3 by (simp add: ucm_min_length_def)
      have "msg_payload (ucm_to_message (ucm_of_type t ?d)) = u16_be t @ u32_be (of_be (take 4 ?d))"
        using True not3 by (auto simp: ucm_of_type_def ucm_payloads ucm_types_def)
      then show ?thesis using t four True len assms(3) by simp
    next
      case False
      then have "ucm_of_type t ?d = UcUnknown t ?d"
        by (simp add: ucm_of_type_def ucm_types_def)
      then show ?thesis using t False by (simp add: ucm_payloads)
    qed
  qed
qed

text \<open>
  The parser accepts exactly the payloads that are long enough for their event type, and
  refuses the others with a protocol violation; what it accepts re-encodes to a prefix of the
  payload, to all of it for an unknown event type.
\<close>

theorem ucm_parse_exact:
  "if length p < max 2 (ucm_min_length (of_be (take 2 p))) then ucm_parse p = Inl ProtocolViolation
   else \<exists>e. ucm_parse p = Inr e \<and> ucm_event_type e = of_be (take 2 p) \<and> ucm_canonical e
     \<and> msg_payload (ucm_to_message e) =
         (if is_spec_defined e then take (ucm_min_length (of_be (take 2 p))) p else p)"
proof (cases "length p < max 2 (ucm_min_length (of_be (take 2 p)))")
  case True
  then show ?thesis using ucm_parse_short by (simp only: if_True)
next
  case False
  then have "2 \<le> length p" "ucm_min_length (of_be (take 2 p)) \<le> length p" by auto
  from ucm_parse_long[OF this] ucm_of_type_payload[OF this(1) refl this(2)] show ?thesis
    unfolding if_not_P[OF False] by (auto simp: ucm_of_type_sel)
qed

end
