(* ===== verification/Aggregate.thy ===== *)
theory Aggregate
  imports Control_Msg
begin

text \<open>
  \<open>aggregate.rs\<close>: the Aggregate Message (type 22), a sequence of FLV-shaped sub-messages in
  one payload.  The user state of the parser is \<open>offset: Option<i64>\<close>, fixed by the first
  sub-message; its values stay far inside \<open>i64\<close>, so it is an \<open>int\<close>.
\<close>

section \<open>The code\<close>

definition SUB_HEADER_SIZE :: nat where "SUB_HEADER_SIZE = 11"
definition BACK_POINTER_SIZE :: nat where "BACK_POINTER_SIZE = 4"
definition UI24_MAX :: nat where "UI24_MAX = 0xFFFFFF"

lemmas aggregate_sizes = SUB_HEADER_SIZE_def BACK_POINTER_SIZE_def UI24_MAX_def

definition sat_add_u32 :: "u32 \<Rightarrow> u32 \<Rightarrow> u32" where
  "sat_add_u32 a b = (if unat a + unat b < 2 ^ 32 then a + b else 0xFFFFFFFF)"

type_synonym 'a agg = "(int option \<times> u8 list, 'a) st"

definition renormalize :: "message \<Rightarrow> u32 \<Rightarrow> int agg" where
  "renormalize msg wire_ts = st_bind st_get_user (\<lambda>offset.
     case offset of
       Some o' \<Rightarrow> st_return o'
     | None \<Rightarrow>
         let o' = uint (msg_timestamp msg) - uint wire_ts
         in st_bind (st_put_user (Some o')) (\<lambda>_. st_return o'))"

definition parse_sub :: "message \<Rightarrow> message agg" where
  "parse_sub msg =
     st_bind (cur_take UnexpectedEof SUB_HEADER_SIZE) (\<lambda>h.
     let tag_type = h ! 0;
         data_size = of_u24 (h ! 1) (h ! 2) (h ! 3);
         wire_ts = push_bit 24 (ucast (h ! 7)) OR of_u24 (h ! 4) (h ! 5) (h ! 6)
     in
     st_bind (cur_take UnexpectedEof (unat data_size)) (\<lambda>payload.
     st_bind (cur_be UnexpectedEof BACK_POINTER_SIZE) (\<lambda>prev_tag_size :: u32.
     if prev_tag_size \<noteq> sat_add_u32 (word_of_nat SUB_HEADER_SIZE) data_size
     then st_throw InvalidChunk
     else
       st_bind (renormalize msg wire_ts) (\<lambda>off.
       st_return \<lparr>msg_type_id = tag_type, msg_stream_id = msg_stream_id msg,
         msg_timestamp = word_of_int (uint wire_ts + off), msg_payload = payload\<rparr>))))"

definition parse_aggregate :: "message \<Rightarrow> message list result" where
  "parse_aggregate msg =
    (if msg_type_id msg \<noteq> MSG_AGGREGATE then Inl InvalidChunk
     else fst (while_input (parse_sub msg) (None, msg_payload msg)))"

definition sub_bytes :: "message \<Rightarrow> u8 list" where
  "sub_bytes s =
    (let data_size = word_of_nat (length (msg_payload s)) :: u32; ts = msg_timestamp s in
     [msg_type_id s] @ u24_be data_size @ u24_be ts @ [ucast (drop_bit 24 ts)] @ [0, 0, 0]
       @ msg_payload s @ u32_be (sat_add_u32 (word_of_nat SUB_HEADER_SIZE) data_size))"

primrec build_subs :: "u8 list \<Rightarrow> message list \<Rightarrow> u8 list result" where
  "build_subs body [] = Inr body"
| "build_subs body (s # ss) =
    (if UI24_MAX < length (msg_payload s) then Inl InvalidChunk
     else if 0xFFFFFFFF < length body + (SUB_HEADER_SIZE + length (msg_payload s) + BACK_POINTER_SIZE)
     then Inl InvalidChunk
     else build_subs (body @ sub_bytes s) ss)"

definition build_aggregate :: "u32 \<Rightarrow> message list \<Rightarrow> message result" where
  "build_aggregate stream_id subs =
    (let agg_ts = (case subs of [] \<Rightarrow> 0 | s # _ \<Rightarrow> msg_timestamp s) in
     res_bind (build_subs [] subs) (\<lambda>body. Inr
       \<lparr>msg_type_id = MSG_AGGREGATE, msg_stream_id = stream_id, msg_timestamp = agg_ts,
        msg_payload = body\<rparr>))"

section \<open>One sub-message\<close>

lemma length_sub_bytes [simp]: "length (sub_bytes s) = 15 + length (msg_payload s)"
  by (simp add: sub_bytes_def Let_def)

lemma payload_size_24:
  "n \<le> UI24_MAX \<Longrightarrow> take_bit 24 (word_of_nat n :: u32) = word_of_nat n \<and> unat (word_of_nat n :: u32) = n"
  using unat_u24_of_nat[of n] by (simp add: UI24_MAX_def)

text \<open>The shift of a timestamp onto the stream clock of the aggregate.\<close>

definition shifted :: "u32 \<Rightarrow> int \<Rightarrow> message \<Rightarrow> message" where
  "shifted stream_id off s =
     \<lparr>msg_type_id = msg_type_id s, msg_stream_id = stream_id,
      msg_timestamp = word_of_int (uint (msg_timestamp s) + off), msg_payload = msg_payload s\<rparr>"

definition first_offset :: "message \<Rightarrow> int option \<Rightarrow> message \<Rightarrow> int" where
  "first_offset msg u s = (case u of Some o' \<Rightarrow> o' | None \<Rightarrow> uint (msg_timestamp msg) - uint (msg_timestamp s))"

lemma parse_sub_run:
  assumes "length (msg_payload s) \<le> UI24_MAX"
  shows "parse_sub msg (u, sub_bytes s @ rest) =
    (Inr (shifted (msg_stream_id msg) (first_offset msg u s) s), (Some (first_offset msg u s), rest))"
proof -
  let ?n = "word_of_nat (length (msg_payload s)) :: u32" and ?ts = "msg_timestamp s"
  define h where "h = [msg_type_id s] @ u24_be ?n @ u24_be ?ts @ [ucast (drop_bit 24 ?ts)] @ [0, 0, 0]"
  define p where "p = u32_be (sat_add_u32 (word_of_nat SUB_HEADER_SIZE) ?n)"
  have n: "unat ?n = length (msg_payload s)" "take_bit 24 ?n = ?n"
    using payload_size_24[OF assms] by blast+
  have fields: "h ! 0 = msg_type_id s" "of_u24 (h ! 1) (h ! 2) (h ! 3) = ?n"
    "push_bit 24 (ucast (h ! 7)) OR of_u24 (h ! 4) (h ! 5) (h ! 6) = ?ts"
    using n(2) by (simp_all add: h_def u24_be_def split_timestamp)
  have 1: "cur_take UnexpectedEof SUB_HEADER_SIZE (u, h @ r) = (Inr h, (u, r))" for r
    by (rule cur_take_run) (simp add: SUB_HEADER_SIZE_def h_def)
  have 2: "cur_take UnexpectedEof (unat ?n) (u, msg_payload s @ r) = (Inr (msg_payload s), (u, r))" for r
    by (rule cur_take_run) (simp add: n)
  have 3: "cur_be UnexpectedEof BACK_POINTER_SIZE (u, p @ r)
      = (Inr (sat_add_u32 (word_of_nat SUB_HEADER_SIZE) ?n), (u, r))" for r
    using cur_be_run[of p BACK_POINTER_SIZE UnexpectedEof u r] by (simp add: BACK_POINTER_SIZE_def p_def)
  have bytes: "sub_bytes s @ rest = h @ msg_payload s @ p @ rest"
    by (simp add: sub_bytes_def Let_def h_def p_def)
  show ?thesis
    unfolding bytes parse_sub_def Let_def
    by (simp add: st_bind_def 1 fields[unfolded One_nat_def] 2 3 Let_def renormalize_def first_offset_def shifted_def split: option.split)
qed

lemma shrinks_sub: "shrinks 1 (parse_sub msg)"
proof -
  have "shrinks SUB_HEADER_SIZE (parse_sub msg)"
    unfolding parse_sub_def renormalize_def Let_def
    by (rule shrinks_bind_first[OF shrinks_take]) (auto intro!: shrink_intro split: option.split)
  then show ?thesis by (rule shrinks_mono) (simp add: SUB_HEADER_SIZE_def)
qed

lemma safe_sub: "safe (parse_sub msg)"
  unfolding parse_sub_def renormalize_def Let_def
  by (auto intro!: safe_intro split: option.split)

interpretation sub: item_parser "parse_sub msg"
  by unfold_locales (rule shrinks_sub, rule safe_sub)

lemma parse_subs_run:
  "\<forall>s \<in> set ss. length (msg_payload s) \<le> UI24_MAX \<Longrightarrow>
   \<exists>u'. while_input (parse_sub msg) (Some off, concat (map sub_bytes ss)) =
     (Inr (map (shifted (msg_stream_id msg) off) ss), (u', []))"
proof (induction ss)
  case Nil
  show ?case by (simp add: sub.while_unfold)
next
  case (Cons s ss)
  then obtain u' where IH: "while_input (parse_sub msg) (Some off, concat (map sub_bytes ss)) =
     (Inr (map (shifted (msg_stream_id msg) off) ss), (u', []))" by auto
  have s: "length (msg_payload s) \<le> UI24_MAX" using Cons.prems by simp
  have "sub_bytes s \<noteq> []" by (simp add: sub_bytes_def Let_def)
  then show ?case
    using parse_sub_run[OF s, of msg "Some off" "concat (map sub_bytes ss)"] IH
    by (subst sub.while_unfold) (simp add: st_bind_def first_offset_def)
qed

lemma build_subs_iff:
  "build_subs body ss = Inr b \<longleftrightarrow>
    (\<forall>s \<in> set ss. length (msg_payload s) \<le> UI24_MAX)
    \<and> (ss = [] \<or> length body + (\<Sum>s \<leftarrow> ss. 15 + length (msg_payload s)) < 2 ^ 32)
    \<and> b = body @ concat (map sub_bytes ss)"
proof (induction ss arbitrary: body)
  case (Cons s ss)
  show ?case
    unfolding build_subs.simps
    by (auto simp: Cons.IH aggregate_sizes)
qed auto

section \<open>Properties\<close>

lemma parse_built:
  assumes "\<forall>s \<in> set ss. length (msg_payload s) \<le> UI24_MAX" and "msg_type_id m = MSG_AGGREGATE"
    and "msg_payload m = concat (map sub_bytes ss)"
  shows "parse_aggregate m = Inr (map (shifted (msg_stream_id m)
    (case ss of [] \<Rightarrow> 0 | s # _ \<Rightarrow> uint (msg_timestamp m) - uint (msg_timestamp s))) ss)"
proof (cases ss)
  case Nil
  then show ?thesis using assms by (simp add: parse_aggregate_def sub.while_unfold)
next
  case (Cons s rest)
  let ?off = "first_offset m None s"
  have s: "length (msg_payload s) \<le> UI24_MAX" "\<forall>s \<in> set rest. length (msg_payload s) \<le> UI24_MAX"
    using assms(1) Cons by simp_all
  obtain u' where "while_input (parse_sub m) (Some ?off, concat (map sub_bytes rest)) =
      (Inr (map (shifted (msg_stream_id m) ?off) rest), (u', []))"
    using parse_subs_run[OF s(2), of m ?off] by blast
  moreover have "sub_bytes s \<noteq> []" by (simp add: sub_bytes_def Let_def)
  ultimately show ?thesis
    using parse_sub_run[OF s(1), of m None "concat (map sub_bytes rest)"] assms Cons
    by (simp add: parse_aggregate_def sub.while_unfold[of m None] st_bind_def first_offset_def)
qed

definition fits_aggregate :: "message list \<Rightarrow> bool" where
  "fits_aggregate subs \<longleftrightarrow> list_all (\<lambda>s. length (msg_payload s) < 2 ^ 24) subs
     \<and> (\<Sum>s \<leftarrow> subs. 15 + length (msg_payload s)) < 2 ^ 32"

definition aggregate_of :: "u32 \<Rightarrow> message list \<Rightarrow> message" where
  "aggregate_of stream_id subs = \<lparr>msg_type_id = MSG_AGGREGATE, msg_stream_id = stream_id,
     msg_timestamp = (case subs of [] \<Rightarrow> 0 | s # _ \<Rightarrow> msg_timestamp s),
     msg_payload = concat (map sub_bytes subs)\<rparr>"

lemma build_aggregate_run:
  "build_aggregate stream_id subs =
     (if fits_aggregate subs then Inr (aggregate_of stream_id subs) else Inl InvalidChunk)"
proof -
  let ?body = "concat (map sub_bytes subs)"
  have lt: "length xs \<le> UI24_MAX \<longleftrightarrow> length xs < 2 ^ 24" for xs :: "u8 list"
    by (auto simp: UI24_MAX_def)
  have err: "build_subs b ss = Inl e \<Longrightarrow> e = InvalidChunk" for b ss e
    by (induction ss arbitrary: b) (auto split: if_splits)
  have iff: "build_subs [] subs = Inr b \<longleftrightarrow> fits_aggregate subs \<and> b = ?body" for b
    unfolding build_subs_iff fits_aggregate_def list_all_iff by (cases subs) (simp_all add: lt)
  have "build_subs [] subs = (if fits_aggregate subs then Inr ?body else Inl InvalidChunk)"
  proof (cases "fits_aggregate subs")
    case True
    then show ?thesis using iff by presburger
  next
    case False
    then obtain e where e: "build_subs [] subs = Inl e" using iff by (cases "build_subs [] subs") blast+
    then show ?thesis unfolding if_not_P[OF False] using err[OF e] by simp
  qed
  then show ?thesis by (simp add: build_aggregate_def aggregate_of_def)
qed

lemma parse_aggregate_run:
  assumes "fits_aggregate subs"
  shows "parse_aggregate ((aggregate_of stream_id subs)\<lparr>msg_timestamp := msg_timestamp (aggregate_of stream_id subs) + d\<rparr>)
    = Inr (map (\<lambda>s. s\<lparr>msg_stream_id := stream_id, msg_timestamp := msg_timestamp s + d\<rparr>) subs)"
proof -
  have sizes: "\<forall>s \<in> set subs. length (msg_payload s) \<le> UI24_MAX"
    using assms by (auto simp: fits_aggregate_def list_all_iff UI24_MAX_def)
  show ?thesis
    using parse_built[OF sizes, of "(aggregate_of stream_id subs)\<lparr>msg_timestamp := msg_timestamp (aggregate_of stream_id subs) + d\<rparr>"]
    by (cases subs) (simp_all add: shifted_def aggregate_of_def)
qed

text \<open>
  C29. Aggregates round trip and renormalise: packing succeeds exactly when every payload fits
  24 bits and the body 32, unpacking the result gives the same messages on the aggregate's
  stream with their timestamps, and an aggregate re-stamped by any amount shifts all of them by
  that amount modulo 2^32.
\<close>

theorem aggregate_roundtrip:
  "build_aggregate stream_id subs =
     (if list_all (\<lambda>s. length (msg_payload s) < 2 ^ 24) subs
         \<and> (\<Sum>s \<leftarrow> subs. 15 + length (msg_payload s)) < 2 ^ 32
      then Inr \<lparr>msg_type_id = MSG_AGGREGATE, msg_stream_id = stream_id,
        msg_timestamp = (case subs of [] \<Rightarrow> 0 | s # _ \<Rightarrow> msg_timestamp s),
        msg_payload = concat (map sub_bytes subs)\<rparr>
      else Inl InvalidChunk)
   \<and> (case build_aggregate stream_id subs of Inl _ \<Rightarrow> True | Inr m \<Rightarrow>
        parse_aggregate m = Inr (map (\<lambda>s. s\<lparr>msg_stream_id := stream_id\<rparr>) subs)
        \<and> parse_aggregate (m\<lparr>msg_timestamp := msg_timestamp m + d\<rparr>) =
            Inr (map (\<lambda>s. s\<lparr>msg_stream_id := stream_id, msg_timestamp := msg_timestamp s + d\<rparr>) subs))"
  using build_aggregate_run[of stream_id subs] parse_aggregate_run[of subs stream_id 0]
    parse_aggregate_run[of subs stream_id d]
  by (cases "fits_aggregate subs") (simp_all add: fits_aggregate_def aggregate_of_def)

end
