(* ===== verification/Float64.thy ===== *)
theory Float64
  imports Prelude
begin

text \<open>
  The conversions between \<open>f64\<close> and the integer types that the crate uses, on IEEE bit
  patterns: \<open>f64::from(i32)\<close>, \<open>f64::from(u32)\<close>, \<open>f64::from(u8)\<close> (exact, as every such
  integer has a double), and the saturating casts \<open>x as u32\<close> and comparisons built on them.
\<close>

type_synonym i16 = "16 word"
type_synonym i32 = "32 word"

fun bit_length :: "nat \<Rightarrow> nat" where
  "bit_length n = (if n = 0 then 0 else Suc (bit_length (n div 2)))"

declare bit_length.simps [simp del]

text \<open>The pattern of a positive integer below \<open>2^53\<close>: biased exponent and fraction.\<close>

definition f64_of_nat :: "nat \<Rightarrow> f64" where
  "f64_of_nat n =
    (if n = 0 then 0
     else let e = bit_length n - 1 in
       word_of_nat ((1023 + e) * 2 ^ 52 + (n * 2 ^ (52 - e) - 2 ^ 52)))"

definition f64_of_int :: "int \<Rightarrow> f64" where
  "f64_of_int i = (if i < 0 then push_bit 63 1 OR f64_of_nat (nat (- i)) else f64_of_nat (nat i))"

definition f64_of_i32 :: "i32 \<Rightarrow> f64" where "f64_of_i32 n = f64_of_int (sint n)"
definition f64_of_u32 :: "u32 \<Rightarrow> f64" where "f64_of_u32 n = f64_of_nat (unat n)"
definition f64_of_u8 :: "u8 \<Rightarrow> f64" where "f64_of_u8 n = f64_of_nat (unat n)"

definition f64_sign :: "f64 \<Rightarrow> bool" where "f64_sign x \<longleftrightarrow> bit x 63"
definition f64_exp :: "f64 \<Rightarrow> nat" where "f64_exp x = unat x div 2 ^ 52 mod 2 ^ 11"
definition f64_frac :: "f64 \<Rightarrow> nat" where "f64_frac x = unat x mod 2 ^ 52"

definition f64_is_nan :: "f64 \<Rightarrow> bool" where
  "f64_is_nan x \<longleftrightarrow> f64_exp x = 2047 \<and> f64_frac x \<noteq> 0"

text \<open>The magnitude of a finite number, rounded towards zero.\<close>

definition f64_trunc_abs :: "f64 \<Rightarrow> nat" where
  "f64_trunc_abs x =
    (let e = f64_exp x; m = f64_frac x + 2 ^ 52 in
     if e < 1023 then 0
     else if e \<le> 1075 then m div 2 ^ (1075 - e)
     else m * 2 ^ (e - 1075))"

text \<open>\<open>x as u32\<close>: NaN and negatives give 0, too large values saturate.\<close>

definition f64_as_u32 :: "f64 \<Rightarrow> u32" where
  "f64_as_u32 x =
    (if f64_is_nan x \<or> f64_sign x then 0
     else if f64_exp x = 2047 then 0xFFFFFFFF
     else if 2 ^ 32 \<le> f64_trunc_abs x then 0xFFFFFFFF
     else word_of_nat (f64_trunc_abs x))"

section \<open>Round trip\<close>

lemma bit_length_bounds: "0 < n \<Longrightarrow> (2::nat) ^ (bit_length n - 1) \<le> n \<and> n < 2 ^ bit_length n \<and> 0 < bit_length n"
proof (induction n rule: bit_length.induct)
  case (1 n)
  show ?case
  proof (cases "n div 2 = 0")
    case True
    then have "n = 1" using 1 by simp
    then show ?thesis by (simp add: bit_length.simps)
  next
    case False
    then have IH: "2 ^ (bit_length (n div 2) - 1) \<le> n div 2" "n div 2 < 2 ^ bit_length (n div 2)"
      "0 < bit_length (n div 2)" using 1 by auto
    have bl: "bit_length n = Suc (bit_length (n div 2))" using 1 by (simp add: bit_length.simps[of n])
    have "(2::nat) ^ bit_length (n div 2) = 2 * 2 ^ (bit_length (n div 2) - 1)"
      using IH(3) by (cases "bit_length (n div 2)") auto
    moreover have "a \<le> n div 2 \<Longrightarrow> 2 * a \<le> n" "n div 2 < 2 * a \<Longrightarrow> n < 4 * a" for a :: nat
      by presburger+
    ultimately show ?thesis using IH by (simp add: bl)
  qed
qed

lemma bit_length_le: "n < 2 ^ k \<Longrightarrow> bit_length n \<le> k"
proof (cases "n = 0")
  case False
  assume "n < 2 ^ k"
  then have "(2::nat) ^ (bit_length n - 1) < 2 ^ k"
    using bit_length_bounds[of n] False by (meson le_less_trans neq0_conv)
  then have "bit_length n - 1 < k" by (rule power_less_imp_less_exp[rotated]) simp
  then show ?thesis by simp
qed (simp add: bit_length.simps)

lemma scaled_mantissa:
  assumes "0 < n" and "n < 2 ^ 53"
  defines "e \<equiv> bit_length n - 1"
  shows "e \<le> 52" and "2 ^ 52 \<le> n * 2 ^ (52 - e)" and "n * 2 ^ (52 - e) < 2 * 2 ^ 52"
proof -
  show e: "e \<le> 52" using bit_length_le[OF assms(2)] by (simp add: e_def)
  have b: "2 ^ e \<le> n" "n < 2 ^ bit_length n" "bit_length n = Suc e"
    using bit_length_bounds[OF assms(1)] by (auto simp: e_def)
  have p: "(2::nat) ^ e * 2 ^ (52 - e) = 2 ^ 52" using e by (simp flip: power_add)
  show "2 ^ 52 \<le> n * 2 ^ (52 - e)" using mult_le_mono1[OF b(1), of "2 ^ (52 - e)"] p by simp
  have "n * 2 ^ (52 - e) < (2 * 2 ^ e) * 2 ^ (52 - e)"
    using b(2,3) by (intro mult_strict_right_mono) auto
  also have "\<dots> = 2 * 2 ^ 52" using p by (simp only: mult.assoc)
  finally show "n * 2 ^ (52 - e) < 2 * 2 ^ 52" .
qed

lemma f64_fields_of_parts:
  assumes "e < 2 ^ 11" and "f < 2 ^ 52" and u: "unat x = e * 2 ^ 52 + f"
  shows "f64_exp x = e" and "f64_frac x = f" and "\<not> f64_sign x"
proof -
  show "f64_exp x = e" "f64_frac x = f"
    using assms by (simp_all add: f64_exp_def f64_frac_def)
  have "e * 2 ^ 52 + f < 2 ^ 63" using assms by simp
  have "\<not> bit (unat x) 63"
    unfolding u bit_iff_odd using assms \<open>e * 2 ^ 52 + f < 2 ^ 63\<close> by simp
  then show "\<not> f64_sign x" by (simp add: f64_sign_def bit_unsigned_iff)
qed

lemma f64_of_nat_fields:
  assumes "0 < n" and "n < 2 ^ 53"
  defines "e \<equiv> bit_length n - 1"
  shows "f64_exp (f64_of_nat n) = 1023 + e" and "f64_frac (f64_of_nat n) = n * 2 ^ (52 - e) - 2 ^ 52"
    and "\<not> f64_sign (f64_of_nat n)"
proof -
  note m = scaled_mantissa[OF assms(1,2), folded e_def]
  define f where "f = n * 2 ^ (52 - e) - 2 ^ 52"
  have f: "f < 2 ^ 52" using m by (simp add: f_def)
  have e: "1023 + e < 2 ^ 11" using m by simp
  have small: "(1023 + e) * 2 ^ 52 + f < 2 ^ 64" using e f by simp
  have "unat (word_of_nat k :: f64) = k" if "k < 2 ^ 64" for k
    using that by (simp add: unat_of_nat take_bit_nat_eq_self)
  note this[OF small]
  moreover have "f64_of_nat n = word_of_nat ((1023 + e) * 2 ^ 52 + f)"
    using assms(1) unfolding f64_of_nat_def Let_def e_def f_def by (simp only: if_not_P neq0_conv)
  ultimately have "unat (f64_of_nat n) = (1023 + e) * 2 ^ 52 + f" by simp
  from f64_fields_of_parts[OF e f this]
  show "f64_exp (f64_of_nat n) = 1023 + e" "f64_frac (f64_of_nat n) = n * 2 ^ (52 - e) - 2 ^ 52"
    "\<not> f64_sign (f64_of_nat n)"
    by (simp_all add: f_def)
qed

lemma f64_trunc_abs_of_nat: "n < 2 ^ 53 \<Longrightarrow> f64_trunc_abs (f64_of_nat n) = n"
proof (cases "n = 0")
  case False
  assume n: "n < 2 ^ 53"
  then have pos: "0 < n" using False by simp
  define e where "e = bit_length n - 1"
  note m = scaled_mantissa[OF pos n, folded e_def]
  note fields = f64_of_nat_fields[OF pos n, folded e_def]
  show ?thesis
    unfolding f64_trunc_abs_def Let_def fields using m by simp
next
  case True
  then show ?thesis by (simp add: f64_of_nat_def f64_trunc_abs_def f64_exp_def)
qed

lemma f64_as_u32_of_u32: "f64_as_u32 (f64_of_u32 w) = w"
proof (cases "w = 0")
  case True
  then show ?thesis by (simp add: f64_of_u32_def f64_of_nat_def f64_as_u32_def f64_is_nan_def
        f64_sign_def f64_exp_def f64_trunc_abs_def)
next
  case False
  have u: "unat w < 2 ^ LENGTH(32)" by (rule unsigned_less)
  then have n: "0 < unat w" "unat w < 2 ^ 53" using False by (auto simp: unat_gt_0)
  define e where "e = bit_length (unat w) - 1"
  note m = scaled_mantissa[OF n, folded e_def]
  note fields = f64_of_nat_fields[OF n, folded e_def]
  have "1023 + e \<noteq> 2047" using m by simp
  then show ?thesis
    using fields(3) u
    by (simp add: f64_of_u32_def f64_as_u32_def f64_is_nan_def fields f64_trunc_abs_of_nat[OF n(2)])
qed

section \<open>Comparisons\<close>

text \<open>
  \<open>x <= y\<close> on doubles: false when either is NaN, otherwise the order of the
  sign-magnitude patterns, in which the two zeros are equal.
\<close>

definition f64_key :: "f64 \<Rightarrow> int" where
  "f64_key x = (if f64_sign x then - int (unat x mod 2 ^ 63) else int (unat x))"

definition f64_le :: "f64 \<Rightarrow> f64 \<Rightarrow> bool" where
  "f64_le x y \<longleftrightarrow> \<not> f64_is_nan x \<and> \<not> f64_is_nan y \<and> f64_key x \<le> f64_key y"

definition f64_is_finite :: "f64 \<Rightarrow> bool" where
  "f64_is_finite x \<longleftrightarrow> f64_exp x \<noteq> 2047"

text \<open>\<open>x as u8\<close>\<close>

definition f64_as_u8 :: "f64 \<Rightarrow> u8" where
  "f64_as_u8 x =
    (if f64_is_nan x \<or> f64_sign x then 0
     else if f64_exp x = 2047 then 0xFF
     else if 2 ^ 8 \<le> f64_trunc_abs x then 0xFF
     else word_of_nat (f64_trunc_abs x))"

lemma f64_zero_fields: "f64_exp 0 = 0" "f64_frac 0 = 0" "\<not> f64_sign 0"
  by (simp_all add: f64_exp_def f64_frac_def f64_sign_def)

lemma f64_of_nat_0: "f64_of_nat 0 = 0"
  by (simp add: f64_of_nat_def)

lemma f64_of_nat_finite:
  assumes "n < 2 ^ 53"
  shows "f64_is_finite (f64_of_nat n)" "\<not> f64_is_nan (f64_of_nat n)" "\<not> f64_sign (f64_of_nat n)"
    "f64_exp (f64_of_nat n) \<noteq> 2047"
proof -
  have "f64_exp (f64_of_nat n) \<noteq> 2047 \<and> \<not> f64_sign (f64_of_nat n)"
  proof (cases "n = 0")
    case False
    then show ?thesis
      using f64_of_nat_fields[of n] scaled_mantissa(1)[of n] assms by simp
  qed (simp add: f64_of_nat_0 f64_zero_fields)
  then show "f64_is_finite (f64_of_nat n)" "\<not> f64_is_nan (f64_of_nat n)" "\<not> f64_sign (f64_of_nat n)"
    "f64_exp (f64_of_nat n) \<noteq> 2047"
    by (simp_all add: f64_is_finite_def f64_is_nan_def)
qed

lemma unat_f64_of_nat:
  assumes "0 < n" and "n < 2 ^ 53"
  defines "e \<equiv> bit_length n - 1"
  shows "unat (f64_of_nat n) = (1023 + e) * 2 ^ 52 + (n * 2 ^ (52 - e) - 2 ^ 52)"
proof -
  note m = scaled_mantissa[OF assms(1,2), folded e_def]
  have small: "(1023 + e) * 2 ^ 52 + (n * 2 ^ (52 - e) - 2 ^ 52) < 2 ^ 64" using m by simp
  have "unat (word_of_nat k :: f64) = k" if "k < 2 ^ 64" for k
    using that by (simp add: unat_of_nat take_bit_nat_eq_self)
  note this[OF small]
  moreover have "f64_of_nat n = word_of_nat ((1023 + e) * 2 ^ 52 + (n * 2 ^ (52 - e) - 2 ^ 52))"
    using assms(1) unfolding f64_of_nat_def Let_def e_def by (simp only: if_not_P neq0_conv)
  ultimately show ?thesis by simp
qed

lemma bit_length_mono: "m \<le> n \<Longrightarrow> bit_length m \<le> bit_length n"
proof (cases "n = 0")
  case False
  assume "m \<le> n"
  then have "m < 2 ^ bit_length n" using bit_length_bounds[of n] False by linarith
  then show ?thesis by (rule bit_length_le)
qed simp

lemma f64_of_nat_strict_mono:
  assumes "m < n" and "n < 2 ^ 53"
  shows "unat (f64_of_nat m) < unat (f64_of_nat n)"
proof -
  have n: "0 < n" using assms by simp
  note un = unat_f64_of_nat[OF n assms(2)] and sn = scaled_mantissa[OF n assms(2)]
  show ?thesis
  proof (cases "m = 0")
    case False
    then have m: "0 < m" "m < 2 ^ 53" using assms by simp_all
    note um = unat_f64_of_nat[OF m] and sm = scaled_mantissa[OF m]
    have le: "bit_length m - 1 \<le> bit_length n - 1" using bit_length_mono[of m n] assms by simp
    show ?thesis
    proof (cases "bit_length m - 1 = bit_length n - 1")
      case True
      have "m * 2 ^ (52 - (bit_length n - 1)) < n * 2 ^ (52 - (bit_length n - 1))"
        using assms by simp
      then show ?thesis using un um sn sm True by simp
    next
      case False
      then have "Suc (bit_length m - 1) \<le> bit_length n - 1" using le by simp
      then have "(1023 + Suc (bit_length m - 1)) * 2 ^ 52 \<le> (1023 + (bit_length n - 1)) * 2 ^ 52"
        by (intro mult_right_mono) simp_all
      then show ?thesis using un um sn sm by (simp add: algebra_simps)
    qed
  qed (use un n in \<open>simp add: f64_of_nat_0\<close>)
qed

lemma f64_le_of_nat:
  assumes "m < 2 ^ 53" and "n < 2 ^ 53"
  shows "f64_le (f64_of_nat m) (f64_of_nat n) \<longleftrightarrow> m \<le> n"
proof -
  have "f64_le (f64_of_nat m) (f64_of_nat n) \<longleftrightarrow> unat (f64_of_nat m) \<le> unat (f64_of_nat n)"
    unfolding f64_le_def f64_key_def using assms by (simp add: f64_of_nat_finite del: power_numeral)
      (simp add: word_le_def flip: word_le_nat_alt)
  also have "\<dots> \<longleftrightarrow> m \<le> n"
    using f64_of_nat_strict_mono[OF _ assms(1), of n] f64_of_nat_strict_mono[OF _ assms(2), of m]
    by (metis le_less linorder_not_less)
  finally show ?thesis .
qed

lemma f64_as_u8_of_u8: "f64_as_u8 (f64_of_u8 b) = b"
proof -
  have u: "unat b < 2 ^ LENGTH(8)" by (rule unsigned_less)
  then have n: "unat b < 2 ^ 53" by simp
  show ?thesis
    using u by (simp add: f64_as_u8_def f64_of_u8_def f64_of_nat_finite[OF n] f64_trunc_abs_of_nat[OF n])
qed

lemma u32_small: "unat (w :: u32) < 2 ^ 53"
  using unsigned_less[of w, where 'a = nat] by simp

lemma u8_small: "unat (b :: u8) < 2 ^ 53"
  using unsigned_less[of b, where 'a = nat] by simp

lemma f64_of_u32_range:
  "f64_is_finite (f64_of_u32 w)" "f64_le 0 (f64_of_u32 w)"
  "f64_le (f64_of_u32 v) (f64_of_u32 w) \<longleftrightarrow> v \<le> w"
  using f64_le_of_nat[of 0 "unat w"] f64_of_nat_finite(1)[OF u32_small]
  by (simp_all add: f64_of_u32_def f64_of_nat_0 u32_small f64_le_of_nat word_le_nat_alt del: power_numeral)

lemma f64_of_u8_range:
  "f64_is_finite (f64_of_u8 b)" "f64_le 0 (f64_of_u8 b)" "f64_le (f64_of_u8 b) (f64_of_u8 c) \<longleftrightarrow> b \<le> c"
  using f64_le_of_nat[of 0 "unat b"] f64_of_nat_finite(1)[OF u8_small]
  by (simp_all add: f64_of_u8_def f64_of_nat_0 u8_small f64_le_of_nat word_le_nat_alt del: power_numeral)

section \<open>Integral doubles\<close>

text \<open>\<open>x < y\<close>, and \<open>x.fract() == 0.0\<close> for a finite \<open>x\<close>.\<close>

definition f64_lt :: "f64 \<Rightarrow> f64 \<Rightarrow> bool" where
  "f64_lt x y \<longleftrightarrow> \<not> f64_is_nan x \<and> \<not> f64_is_nan y \<and> f64_key x < f64_key y"

definition f64_is_integral :: "f64 \<Rightarrow> bool" where
  "f64_is_integral x =
    (let e = f64_exp x; m = f64_frac x + 2 ^ 52 in
     if e = 0 \<and> f64_frac x = 0 then True
     else if e < 1023 then False
     else if e \<le> 1075 then m mod 2 ^ (1075 - e) = 0
     else True)"

lemma bit_length_unique:
  assumes "2 ^ a \<le> n" and "n < 2 ^ Suc a"
  shows "bit_length n = Suc a"
proof -
  have pos: "0 < n" using assms(1) by (rule less_le_trans[OF zero_less_power, rotated]) simp
  note b = bit_length_bounds[OF pos]
  have "(2::nat) ^ (bit_length n - 1) < 2 ^ Suc a"
    by (rule le_less_trans[OF _ assms(2)]) (use b in simp)
  moreover have "(2::nat) ^ a < 2 ^ bit_length n"
    by (rule le_less_trans[OF assms(1)]) (use b in simp)
  ultimately have "bit_length n - 1 < Suc a" "a < bit_length n"
    by (simp_all only: power_strict_increasing_iff one_less_numeral_iff semiring_norm(76))
  then show ?thesis by simp
qed

lemma unat_parts: "\<not> f64_sign x \<Longrightarrow> unat x = f64_exp x * 2 ^ 52 + f64_frac x"
proof -
  assume s: "\<not> f64_sign x"
  have u: "unat x < 2 ^ LENGTH(64)" by (rule unsigned_less)
  have "even (unat x div 2 ^ 63)" 
  proof -
    have "\<not> bit (unat x) 63" using s by (simp add: f64_sign_def bit_unsigned_iff)
    then show ?thesis unfolding bit_iff_odd by simp
  qed
  moreover have "unat x div 2 ^ 63 < 2" using u by (simp add: div_less_iff_less_mult)
  ultimately have "unat x div 2 ^ 63 = 0" by (metis One_nat_def less_2_cases odd_one)
  then have "unat x < 2 ^ 63" by (simp add: div_eq_0_iff)
  then have "unat x div 2 ^ 52 < 2 ^ 11" by (simp add: div_less_iff_less_mult)
  then have "f64_exp x = unat x div 2 ^ 52" by (simp add: f64_exp_def)
  then show ?thesis unfolding f64_frac_def by (metis div_mult_mod_eq)
qed

lemma f64_of_nat_trunc:
  assumes "\<not> f64_sign x" and "f64_is_integral x" and "f64_trunc_abs x < 2 ^ 53"
  shows "f64_of_nat (f64_trunc_abs x) = x"
proof (cases "f64_exp x = 0 \<and> f64_frac x = 0")
  case True
  then have "unat x = 0" using unat_parts[OF assms(1)] by simp
  then have "x = 0" by (metis unsigned_0 word_unat_eq_iff)
  then show ?thesis using f64_trunc_abs_of_nat[of 0] by (simp add: f64_of_nat_0)
next
  case False
  define m where "m = f64_frac x + 2 ^ 52"
  have e: "1023 \<le> f64_exp x" using assms(2) False by (auto simp: f64_is_integral_def Let_def split: if_splits)
  have fr: "f64_frac x < 2 ^ 52" by (simp add: f64_frac_def)
  have m: "2 ^ 52 \<le> m" "m < 2 * 2 ^ 52" using fr by (simp_all add: m_def)
  have e2: "f64_exp x \<le> 1075"
  proof (rule ccontr)
    assume "\<not> f64_exp x \<le> 1075"
    then have t: "f64_trunc_abs x = m * 2 ^ (f64_exp x - 1075)" "1 \<le> f64_exp x - 1075"
      by (simp_all add: f64_trunc_abs_def Let_def m_def)
    from t(2) have "(2::nat) ^ 1 \<le> 2 ^ (f64_exp x - 1075)" by (rule power_increasing) simp
    with m(1) have "2 ^ 52 * 2 ^ 1 \<le> m * 2 ^ (f64_exp x - 1075)" by (rule mult_le_mono)
    with assms(3) t(1) show False by simp
  qed
  define k where "k = 1075 - f64_exp x"
  have k: "k \<le> 52" "f64_exp x = 1075 - k" using e e2 by (simp_all add: k_def)
  define n where "n = f64_trunc_abs x"
  have "n = m div 2 ^ k" "m mod 2 ^ k = 0"
    using e e2 assms(2) False by (auto simp: n_def f64_trunc_abs_def f64_is_integral_def Let_def m_def k_def)
  then have nk: "n * 2 ^ k = m" by (metis add.right_neutral div_mult_mod_eq)
  have p: "(2::nat) ^ (52 - k) * 2 ^ k = 2 ^ 52" using k(1) by (simp flip: power_add)
  have lo: "2 ^ (52 - k) \<le> n"
    using m(1) unfolding nk[symmetric] p[symmetric] by simp
  have "n * 2 ^ k < (2 * 2 ^ (52 - k)) * 2 ^ k" using m(2) unfolding nk[symmetric] p[symmetric] by simp
  then have hi: "n < 2 ^ Suc (52 - k)" by simp
  have bl: "bit_length n - 1 = 52 - k" using bit_length_unique[OF lo hi] by simp
  have pos: "0 < n" using lo by (rule less_le_trans[OF zero_less_power, rotated]) simp
  have "unat (f64_of_nat n) = (1023 + (52 - k)) * 2 ^ 52 + (n * 2 ^ (52 - (52 - k)) - 2 ^ 52)"
    using unat_f64_of_nat[OF pos] assms(3) bl by (simp only: n_def)
  also have "\<dots> = f64_exp x * 2 ^ 52 + f64_frac x"
    using k nk by (simp add: m_def)
  also have "\<dots> = unat x" using unat_parts[OF assms(1)] by simp
  finally show ?thesis by (simp add: word_unat_eq_iff n_def)
qed

lemma f64_of_nat_integral: "n < 2 ^ 53 \<Longrightarrow> f64_is_integral (f64_of_nat n)"
proof (cases "n = 0")
  case False
  assume n: "n < 2 ^ 53"
  then have pos: "0 < n" using False by simp
  define e where "e = bit_length n - 1"
  note m = scaled_mantissa[OF pos n, folded e_def]
  note fields = f64_of_nat_fields[OF pos n, folded e_def]
  show ?thesis unfolding f64_is_integral_def Let_def fields using m by simp
qed (simp add: f64_of_nat_0 f64_zero_fields f64_is_integral_def)

lemma f64_of_u32_as_u32:
  assumes "f64_is_integral x" and "f64_is_finite x" and "f64_as_u32 x \<noteq> 0" and "f64_as_u32 x \<noteq> 0xFFFFFFFF"
  shows "f64_of_u32 (f64_as_u32 x) = x"
proof -
  have s: "\<not> f64_sign x" and t: "f64_trunc_abs x < 2 ^ 32" and w: "f64_as_u32 x = word_of_nat (f64_trunc_abs x)"
    using assms by (auto simp: f64_as_u32_def f64_is_finite_def split: if_splits)
  have "unat (f64_as_u32 x) = f64_trunc_abs x" using t by (simp add: w unat_of_nat take_bit_nat_eq_self)
  moreover have "f64_of_nat (f64_trunc_abs x) = x" using f64_of_nat_trunc[OF s assms(1)] t by simp
  ultimately show ?thesis by (simp add: f64_of_u32_def)
qed

lemma f64_lt_not_le: "f64_lt x y \<Longrightarrow> \<not> f64_le y x"
  by (auto simp: f64_lt_def f64_le_def)

end
