(* ===== verification/Decimal.thy ===== *)
theory Decimal
  imports Prelude
begin

text \<open>
  Decimal text of integers (\<open>to_string\<close> of an integer, \<open>str::parse\<close> to an unsigned one) and the
  operations of \<open>str\<close> that cut a URL.
\<close>

fun dec_nat :: "nat \<Rightarrow> rstring" where
  "dec_nat n = (if n < 10 then [word_of_nat (48 + n)] else dec_nat (n div 10) @ [word_of_nat (48 + n mod 10)])"

declare dec_nat.simps [simp del]

definition dec_int :: "int \<Rightarrow> rstring" where
  "dec_int i = (if i < 0 then 45 # dec_nat (nat (- i)) else dec_nat (nat i))"

text \<open>
  \<open>str::parse::<uN>\<close>: an optional plus sign, then at least one digit, refused when the value
  does not fit below \<open>max\<close>.
\<close>

definition is_digit :: "u8 \<Rightarrow> bool" where
  "is_digit d \<longleftrightarrow> 48 \<le> d \<and> d \<le> 57"

definition dec_value :: "rstring \<Rightarrow> nat" where
  "dec_value ds = foldl (\<lambda>a d. 10 * a + (unat d - 48)) 0 ds"

definition parse_uint :: "nat \<Rightarrow> rstring \<Rightarrow> nat option" where
  "parse_uint maximum s =
    (let ds = (case s of [] \<Rightarrow> [] | c # r \<Rightarrow> if c = 43 then r else s) in
     if ds = [] \<or> \<not> list_all is_digit ds \<or> maximum < dec_value ds then None
     else Some (dec_value ds))"

lemma unat_digit: "n < 10 \<Longrightarrow> unat (48 + word_of_nat n :: u8) = 48 + n"
proof -
  assume "n < 10"
  then have "unat (word_of_nat (48 + n) :: u8) = 48 + n"
    unfolding unat_of_nat by (simp add: take_bit_nat_eq_self)
  then show ?thesis by simp
qed

lemma is_digit_of_nat: "n < 10 \<Longrightarrow> is_digit (48 + word_of_nat n)"
  using unat_digit[of n] by (simp add: is_digit_def word_le_nat_alt)

lemma dec_nat_digits: "dec_nat n \<noteq> [] \<and> list_all is_digit (dec_nat n) \<and> dec_value (dec_nat n) = n"
proof (induction n rule: dec_nat.induct)
  case (1 n)
  show ?case
  proof (cases "n < 10")
    case True
    then show ?thesis using is_digit_of_nat[OF True] unat_digit[OF True]
      by (simp add: dec_nat.simps[of n] dec_value_def)
  next
    case False
    have d: "n mod 10 < 10" by simp
    show ?thesis using 1[OF False] False is_digit_of_nat[OF d] unat_digit[OF d]
      by (simp add: dec_nat.simps[of n] dec_value_def)
  qed
qed

lemma parse_uint_dec: "n \<le> maximum \<Longrightarrow> parse_uint maximum (dec_nat n) = Some n"
proof -
  assume n: "n \<le> maximum"
  obtain c r where s: "dec_nat n = c # r" using dec_nat_digits[of n] by (cases "dec_nat n") auto
  then have "is_digit c" using dec_nat_digits[of n] by simp
  then have "c \<noteq> 43" by (auto simp: is_digit_def)
  then show ?thesis using dec_nat_digits[of n] n by (simp add: parse_uint_def s)
qed

section \<open>Cutting text\<close>

text \<open>\<open>find(c)\<close> / \<open>split_once\<close>, \<open>rsplit_once\<close> and \<open>strip_prefix\<close> of \<open>str\<close>.\<close>

definition split_at :: "u8 \<Rightarrow> rstring \<Rightarrow> (rstring \<times> rstring) option" where
  "split_at c s = (if c \<in> set s then Some (takeWhile (\<lambda>x. x \<noteq> c) s, tl (dropWhile (\<lambda>x. x \<noteq> c) s)) else None)"

definition rsplit_at :: "u8 \<Rightarrow> rstring \<Rightarrow> (rstring \<times> rstring) option" where
  "rsplit_at c s = map_option (\<lambda>(b, a). (rev a, rev b)) (split_at c (rev s))"

definition strip_prefix :: "rstring \<Rightarrow> rstring \<Rightarrow> rstring option" where
  "strip_prefix p s = (if take (length p) s = p then Some (drop (length p) s) else None)"

lemma split_at_first: "c \<notin> set a \<Longrightarrow> split_at c (a @ c # b) = Some (a, b)"
  by (auto simp: split_at_def takeWhile_append dropWhile_append)

lemma rsplit_at_last: "c \<notin> set b \<Longrightarrow> rsplit_at c (a @ c # b) = Some (a, b)"
  using split_at_first[of c "rev b" "rev a"] by (simp add: rsplit_at_def)

lemma strip_prefix_append [simp]: "strip_prefix p (p @ s) = Some s"
  by (simp add: strip_prefix_def)

lemma dec_nat_no: "\<not> is_digit c \<Longrightarrow> c \<notin> set (dec_nat n)"
  using dec_nat_digits[of n] by (auto simp: list_all_iff)

end
