(* ===== verification/Amf_Value.thy ===== *)
theory Amf_Value
  imports Cursor Float64 Decimal
begin

text \<open>
  The values of the two Action Message Formats: \<open>Amf0Value\<close> of \<open>amf.rs\<close> and \<open>Amf3Value\<close>
  of \<open>amf3.rs\<close> with their accessors, and the bridge \<open>to_amf0\<close> from AMF3 to AMF0.  An
  \<open>f64\<close> is its bit pattern; \<open>fmt_f64\<close> stands for \<open>f64::to_string\<close>, which the bridge
  uses for the keys of a dictionary that are doubles.
\<close>

datatype amf0_value =
    A0Number f64
  | A0Boolean bool
  | A0String rstring
  | A0Object "(rstring \<times> amf0_value) list"
  | A0Null
  | A0Undefined
  | A0EcmaArray "(rstring \<times> amf0_value) list"
  | A0StrictArray "amf0_value list"
  | A0Date f64 i16
  | A0Unsupported
  | A0XmlDocument rstring
  | A0TypedObject rstring "(rstring \<times> amf0_value) list"

datatype amf3_value =
    A3Undefined
  | A3Null
  | A3Boolean bool
  | A3Integer i32
  | A3Double f64
  | A3String rstring
  | A3XmlDocument rstring
  | A3Xml rstring
  | A3Date f64
  | A3Array "amf3_value list" "(rstring \<times> amf3_value) list"
  | A3Object rstring bool "(rstring \<times> amf3_value) list" "(rstring \<times> amf3_value) list" "u8 list option"
  | A3ByteArray "u8 list"
  | A3VectorInt bool "i32 list"
  | A3VectorUInt bool "u32 list"
  | A3VectorDouble bool "f64 list"
  | A3VectorObject bool rstring "amf3_value list"
  | A3Dictionary bool "(amf3_value \<times> amf3_value) list"

section \<open>Accessors\<close>

text \<open>\<open>iter().find(|(k, _)| k == key).map(|(_, v)| v)\<close> is \<open>map_of\<close>: the first match.\<close>

definition a0_get :: "amf0_value \<Rightarrow> rstring \<Rightarrow> amf0_value option" where
  "a0_get v key =
    (case v of A0Object ps \<Rightarrow> map_of ps key
     | A0EcmaArray ps \<Rightarrow> map_of ps key
     | A0TypedObject _ ps \<Rightarrow> map_of ps key
     | _ \<Rightarrow> None)"

definition a0_as_str :: "amf0_value \<Rightarrow> rstring option" where
  "a0_as_str v = (case v of A0String s \<Rightarrow> Some s | _ \<Rightarrow> None)"

definition a0_as_f64 :: "amf0_value \<Rightarrow> f64 option" where
  "a0_as_f64 v = (case v of A0Number n \<Rightarrow> Some n | _ \<Rightarrow> None)"

definition a0_as_bool :: "amf0_value \<Rightarrow> bool option" where
  "a0_as_bool v = (case v of A0Boolean b \<Rightarrow> Some b | _ \<Rightarrow> None)"

definition a3_get :: "amf3_value \<Rightarrow> rstring \<Rightarrow> amf3_value option" where
  "a3_get v key = (case v of A3Object _ _ sealed dyn _ \<Rightarrow> map_of (sealed @ dyn) key | _ \<Rightarrow> None)"

definition a3_as_str :: "amf3_value \<Rightarrow> rstring option" where
  "a3_as_str v =
    (case v of A3String s \<Rightarrow> Some s | A3Xml s \<Rightarrow> Some s | A3XmlDocument s \<Rightarrow> Some s | _ \<Rightarrow> None)"

definition a3_as_i32 :: "amf3_value \<Rightarrow> i32 option" where
  "a3_as_i32 v = (case v of A3Integer n \<Rightarrow> Some n | _ \<Rightarrow> None)"

definition a3_as_f64 :: "amf3_value \<Rightarrow> f64 option" where
  "a3_as_f64 v = (case v of A3Double n \<Rightarrow> Some n | A3Integer n \<Rightarrow> Some (f64_of_i32 n) | _ \<Rightarrow> None)"

definition a3_as_bool :: "amf3_value \<Rightarrow> bool option" where
  "a3_as_bool v = (case v of A3Boolean b \<Rightarrow> Some b | _ \<Rightarrow> None)"

lemmas a0_accessors = a0_get_def a0_as_str_def a0_as_f64_def a0_as_bool_def

section \<open>From AMF3 to AMF0\<close>

definition amf3_key_to_string :: "(f64 \<Rightarrow> rstring) \<Rightarrow> amf3_value \<Rightarrow> rstring" where
  "amf3_key_to_string fmt_f64 k =
    (case k of A3String s \<Rightarrow> s | A3Xml s \<Rightarrow> s | A3XmlDocument s \<Rightarrow> s
     | A3Integer n \<Rightarrow> dec_int (sint n)
     | A3Double n \<Rightarrow> fmt_f64 n
     | A3Boolean b \<Rightarrow> (if b then lit ''true'' else lit ''false'')
     | A3Null \<Rightarrow> lit ''null''
     | A3Undefined \<Rightarrow> lit ''undefined''
     | _ \<Rightarrow> lit ''[object]'')"

fun to_amf0 :: "(f64 \<Rightarrow> rstring) \<Rightarrow> amf3_value \<Rightarrow> amf0_value" where
  "to_amf0 fmt A3Undefined = A0Undefined"
| "to_amf0 fmt A3Null = A0Null"
| "to_amf0 fmt (A3Boolean b) = A0Boolean b"
| "to_amf0 fmt (A3Integer n) = A0Number (f64_of_i32 n)"
| "to_amf0 fmt (A3Double n) = A0Number n"
| "to_amf0 fmt (A3String s) = A0String s"
| "to_amf0 fmt (A3XmlDocument s) = A0String s"
| "to_amf0 fmt (A3Xml s) = A0String s"
| "to_amf0 fmt (A3Date ms) = A0Date ms 0"
| "to_amf0 fmt (A3Array dense assoc) =
     A0EcmaArray (zip (map dec_nat [0..<length dense]) (map (\<lambda>v. to_amf0 fmt v) dense)
       @ map (\<lambda>(k, v). (k, to_amf0 fmt v)) assoc)"
| "to_amf0 fmt (A3Object cn dyn sealed dms ext) =
     A0Object (map (\<lambda>(k, v). (k, to_amf0 fmt v)) sealed @ map (\<lambda>(k, v). (k, to_amf0 fmt v)) dms)"
| "to_amf0 fmt (A3ByteArray bytes) = A0StrictArray (map (\<lambda>b. A0Number (f64_of_u8 b)) bytes)"
| "to_amf0 fmt (A3VectorInt f items) = A0StrictArray (map (\<lambda>n. A0Number (f64_of_i32 n)) items)"
| "to_amf0 fmt (A3VectorUInt f items) = A0StrictArray (map (\<lambda>n. A0Number (f64_of_u32 n)) items)"
| "to_amf0 fmt (A3VectorDouble f items) = A0StrictArray (map A0Number items)"
| "to_amf0 fmt (A3VectorObject f t items) = A0StrictArray (map (\<lambda>v. to_amf0 fmt v) items)"
| "to_amf0 fmt (A3Dictionary w entries) =
     A0EcmaArray (map (\<lambda>(k, v). (amf3_key_to_string fmt k, to_amf0 fmt v)) entries)"

end
