(* ===== verification/Amf3.thy ===== *)
theory Amf3
  imports Amf_Value
begin

text \<open>
  \<open>amf3.rs\<close>: the AMF3 decoder with its three reference tables, and the literal encoder.

  \<^item> \<open>amf3_tables\<close> are the fields \<open>strings\<close>, \<open>objects\<close> and \<open>traits\<close> of
    \<open>Decoder\<close>.  The field \<open>depth\<close> is the parameter of \<open>amf3_decode\<close>: every
    \<open>decode\<close> restores it before it returns, so its value on entry is the nesting depth.
  \<^item> \<open>ext\<close> is \<open>externalizable_handlers\<close>: the body-length resolver of a class, called
    with the whole buffer and the offset of the body.  It is caller-supplied code, hence a
    parameter; \<open>no_handlers\<close> is the table of \<open>Decoder::new\<close>.
  \<^item> The readers of containers take the decoder of their elements as the argument \<open>dec\<close>
    (the recursive call of \<open>self.decode\<close>).
\<close>

section \<open>U29 and the other primitives\<close>

abbreviation amf_err :: rtmp_error where "amf_err \<equiv> InvalidAmf0"

text \<open>The loop \<open>for i in 0..3\<close>; the fourth byte is taken in its last iteration.\<close>

primrec u29_loop :: "nat \<Rightarrow> u32 \<Rightarrow> ('u \<times> u8 list, u32) st" where
  "u29_loop 0 v = st_throw Panic"
| "u29_loop (Suc k) v = st_bind (cur_u8 amf_err) (\<lambda>b8.
     let b = ucast b8 :: u32 in
     if b AND 0x80 = 0 then st_return (push_bit 7 v OR b)
     else
       let v' = push_bit 7 v OR (b AND 0x7F) in
       if k = 0 then st_bind (cur_u8 amf_err) (\<lambda>b4. st_return (push_bit 8 v' OR ucast b4))
       else u29_loop k v')"

definition read_u29 :: "('u \<times> u8 list, u32) st" where
  "read_u29 = u29_loop 3 0"

definition read_i29 :: "('u \<times> u8 list, i32) st" where
  "read_i29 = st_bind read_u29 (\<lambda>v. st_return (if v AND 0x10000000 \<noteq> 0 then v OR 0xE0000000 else v))"

definition write_u29 :: "u32 \<Rightarrow> u8 list" where
  "write_u29 v0 =
    (let v = v0 AND 0x1FFFFFFF in
     if v < 0x80 then [ucast v]
     else if v < 0x4000 then [ucast (drop_bit 7 v OR 0x80), ucast (v AND 0x7F)]
     else if v < 0x200000 then
       [ucast (drop_bit 14 v OR 0x80), ucast ((drop_bit 7 v AND 0x7F) OR 0x80), ucast (v AND 0x7F)]
     else
       [ucast ((drop_bit 22 v AND 0x7F) OR 0x80), ucast ((drop_bit 15 v AND 0x7F) OR 0x80),
        ucast ((drop_bit 8 v AND 0x7F) OR 0x80), ucast (v AND 0xFF)])"

definition write_i29 :: "i32 \<Rightarrow> u8 list" where
  "write_i29 v = write_u29 (v AND 0x1FFFFFFF)"

definition u29_len :: "nat \<Rightarrow> u32" where
  "u29_len n = push_bit 1 (word_of_nat n) OR 1"

definition write_u29_string :: "rstring \<Rightarrow> u8 list" where
  "write_u29_string s = write_u29 (u29_len (length s)) @ s"

definition read_utf8_body :: "nat \<Rightarrow> ('u \<times> u8 list, rstring) st" where
  "read_utf8_body n = (\<lambda>(u, bs).
     if length bs < n then (Inl amf_err, (u, bs))
     else if utf8_valid (take n bs) then (Inr (take n bs), (u, drop n bs))
     else (Inl amf_err, (u, bs)))"

abbreviation read_bytes :: "nat \<Rightarrow> ('u \<times> u8 list, u8 list) st" where
  "read_bytes \<equiv> cur_take amf_err"

section \<open>The decoder\<close>

record trait_def =
  td_class_name :: rstring
  td_dynamic :: bool
  td_externalizable :: bool
  td_sealed_members :: "rstring list"

record amf3_tables =
  t_strings :: "rstring list"
  t_objects :: "amf3_value list"
  t_traits :: "trait_def list"

definition empty_tables :: amf3_tables where
  "empty_tables = \<lparr>t_strings = [], t_objects = [], t_traits = []\<rparr>"

type_synonym 'a a3 = "(amf3_tables \<times> u8 list, 'a) st"
type_synonym ext_handlers = "rstring \<Rightarrow> (u8 list \<Rightarrow> nat \<Rightarrow> nat result) option"

definition no_handlers :: ext_handlers where "no_handlers = (\<lambda>_. None)"

definition register_externalizable ::
    "rstring \<Rightarrow> (u8 list \<Rightarrow> nat \<Rightarrow> nat result) \<Rightarrow> ext_handlers \<Rightarrow> ext_handlers" where
  "register_externalizable class_name reader ext = ext(class_name \<mapsto> reader)"

definition nth_ref :: "'a list \<Rightarrow> nat \<Rightarrow> 'a a3" where
  "nth_ref xs i = (if i < length xs then st_return (xs ! i) else st_throw amf_err)"

definition modify_tables :: "(amf3_tables \<Rightarrow> amf3_tables) \<Rightarrow> unit a3" where
  "modify_tables f = st_bind st_get_user (\<lambda>t. st_put_user (f t))"

definition push_string :: "rstring \<Rightarrow> unit a3" where
  "push_string s = modify_tables (\<lambda>t. t\<lparr>t_strings := t_strings t @ [s]\<rparr>)"

definition push_object :: "amf3_value \<Rightarrow> unit a3" where
  "push_object v = modify_tables (\<lambda>t. t\<lparr>t_objects := t_objects t @ [v]\<rparr>)"

text \<open>\<open>let slot = self.objects.len(); self.objects.push(Null)\<close>, and \<open>objects[slot] = v\<close>.\<close>

definition reserve_slot :: "nat a3" where
  "reserve_slot = st_bind st_get_user (\<lambda>t.
     st_bind (push_object A3Null) (\<lambda>_. st_return (length (t_objects t))))"

definition fill_slot :: "nat \<Rightarrow> amf3_value \<Rightarrow> amf3_value a3" where
  "fill_slot slot v = st_bind (modify_tables (\<lambda>t. t\<lparr>t_objects := (t_objects t)[slot := v]\<rparr>))
     (\<lambda>_. st_return v)"

definition lookup_object :: "nat \<Rightarrow> amf3_value a3" where
  "lookup_object i = st_bind st_get_user (\<lambda>t. nth_ref (t_objects t) i)"

definition is_ref :: "u32 \<Rightarrow> bool" where "is_ref header \<longleftrightarrow> header AND 1 = 0"
definition ref_arg :: "u32 \<Rightarrow> nat" where "ref_arg header = unat (drop_bit 1 header)"

definition read_string :: "rstring a3" where
  "read_string = st_bind read_u29 (\<lambda>header.
     if is_ref header then st_bind st_get_user (\<lambda>t. nth_ref (t_strings t) (ref_arg header))
     else st_bind (read_utf8_body (ref_arg header)) (\<lambda>s.
       if s \<noteq> [] then st_bind (push_string s) (\<lambda>_. st_return s) else st_return s))"

definition read_object_string :: "rstring a3" where
  "read_object_string = st_bind read_u29 (\<lambda>header.
     if is_ref header then
       st_bind st_get_user (\<lambda>t. st_bind (nth_ref (t_objects t) (ref_arg header)) (\<lambda>v.
         case v of A3Xml s \<Rightarrow> st_return s | A3XmlDocument s \<Rightarrow> st_return s | _ \<Rightarrow> st_throw amf_err))
     else st_bind (read_utf8_body (ref_arg header)) (\<lambda>s.
       st_bind (push_object (A3XmlDocument s)) (\<lambda>_. st_return s)))"

text \<open>The shape the object-table readers share: a reference, or a literal with its U29 argument.\<close>

definition ref_or :: "(nat \<Rightarrow> amf3_value a3) \<Rightarrow> amf3_value a3" where
  "ref_or literal = st_bind read_u29 (\<lambda>header.
     if is_ref header then lookup_object (ref_arg header) else literal (ref_arg header))"

definition pushed :: "amf3_value \<Rightarrow> amf3_value a3" where
  "pushed v = st_bind (push_object v) (\<lambda>_. st_return v)"

definition read_date :: "amf3_value a3" where
  "read_date = ref_or (\<lambda>_. st_bind (cur_be amf_err 8) (\<lambda>bits. pushed (A3Date bits)))"

definition read_byte_array :: "amf3_value a3" where
  "read_byte_array = ref_or (\<lambda>n. st_bind (read_bytes n) (\<lambda>bs. pushed (A3ByteArray bs)))"

text \<open>\<open>loop { let k = self.read_string()?; if k.is_empty() { break; } ... }\<close>\<close>

definition read_member :: "amf3_value a3 \<Rightarrow> (rstring \<times> amf3_value) option a3" where
  "read_member dec = st_bind read_string (\<lambda>k.
     if k = [] then st_return None
     else st_bind dec (\<lambda>v. st_return (Some (k, v))))"

definition read_members :: "amf3_value a3 \<Rightarrow> (rstring \<times> amf3_value) list a3" where
  "read_members dec = st_many (read_member dec)"

definition read_array :: "amf3_value a3 \<Rightarrow> amf3_value a3" where
  "read_array dec = ref_or (\<lambda>dense_count.
     st_bind reserve_slot (\<lambda>slot.
     st_bind (read_members dec) (\<lambda>assoc.
     st_bind (st_times dense_count dec) (\<lambda>dense.
     fill_slot slot (A3Array dense assoc)))))"

definition read_traits :: "u32 \<Rightarrow> trait_def a3" where
  "read_traits header =
    (if header AND 2 = 0 then
       st_bind st_get_user (\<lambda>t. nth_ref (t_traits t) (unat (drop_bit 2 header)))
     else
       st_bind read_string (\<lambda>class_name.
       st_bind (st_times (unat (drop_bit 4 header)) read_string) (\<lambda>sealed_members.
       let td = \<lparr>td_class_name = class_name, td_dynamic = (header AND 8 \<noteq> 0),
         td_externalizable = (header AND 4 \<noteq> 0), td_sealed_members = sealed_members\<rparr> in
       st_bind (modify_tables (\<lambda>t. t\<lparr>t_traits := t_traits t @ [td]\<rparr>)) (\<lambda>_. st_return td))))"

definition read_external :: "ext_handlers \<Rightarrow> u8 list \<Rightarrow> rstring \<Rightarrow> u8 list a3" where
  "read_external ext buf class_name =
    (case ext class_name of
       None \<Rightarrow> st_throw amf_err
     | Some reader \<Rightarrow>
        st_bind st_rest (\<lambda>rest.
        st_bind (st_lift (reader buf (length buf - length rest))) (\<lambda>n.
        cur_take amf_err n)))"

primrec read_sealed :: "amf3_value a3 \<Rightarrow> rstring list \<Rightarrow> (rstring \<times> amf3_value) list a3" where
  "read_sealed dec [] = st_return []"
| "read_sealed dec (name # names) =
     st_bind dec (\<lambda>v. st_bind (read_sealed dec names) (\<lambda>vs. st_return ((name, v) # vs)))"

definition read_object :: "ext_handlers \<Rightarrow> u8 list \<Rightarrow> amf3_value a3 \<Rightarrow> amf3_value a3" where
  "read_object ext buf dec = st_bind read_u29 (\<lambda>header.
     if is_ref header then lookup_object (ref_arg header)
     else
       st_bind (read_traits header) (\<lambda>td.
       st_bind reserve_slot (\<lambda>slot.
       if td_externalizable td then
         st_bind (read_external ext buf (td_class_name td)) (\<lambda>body.
         fill_slot slot (A3Object (td_class_name td) False [] [] (Some body)))
       else
         st_bind (read_sealed dec (td_sealed_members td)) (\<lambda>sealed.
         st_bind (if td_dynamic td then read_members dec else st_return []) (\<lambda>members.
         fill_slot slot (A3Object (td_class_name td) (td_dynamic td) sealed members None))))))"

text \<open>The vectors share the count and the \<open>fixed\<close> byte.\<close>

definition read_flag :: "bool a3" where
  "read_flag = st_bind (cur_u8 amf_err) (\<lambda>b. st_return (b \<noteq> 0))"

definition read_vector_int :: "amf3_value a3" where
  "read_vector_int = ref_or (\<lambda>count.
     st_bind read_flag (\<lambda>fixed.
     st_bind (st_times count (cur_be amf_err 4)) (\<lambda>items. pushed (A3VectorInt fixed items))))"

definition read_vector_uint :: "amf3_value a3" where
  "read_vector_uint = ref_or (\<lambda>count.
     st_bind read_flag (\<lambda>fixed.
     st_bind (st_times count (cur_be amf_err 4)) (\<lambda>items. pushed (A3VectorUInt fixed items))))"

definition read_vector_double :: "amf3_value a3" where
  "read_vector_double = ref_or (\<lambda>count.
     st_bind read_flag (\<lambda>fixed.
     st_bind (st_times count (cur_be amf_err 8)) (\<lambda>items. pushed (A3VectorDouble fixed items))))"

definition read_vector_object :: "amf3_value a3 \<Rightarrow> amf3_value a3" where
  "read_vector_object dec = ref_or (\<lambda>count.
     st_bind read_flag (\<lambda>fixed.
     st_bind read_string (\<lambda>object_type_name.
     st_bind reserve_slot (\<lambda>slot.
     st_bind (st_times count dec) (\<lambda>items.
     fill_slot slot (A3VectorObject fixed object_type_name items))))))"

definition read_entry :: "amf3_value a3 \<Rightarrow> (amf3_value \<times> amf3_value) a3" where
  "read_entry dec = st_bind dec (\<lambda>k. st_bind dec (\<lambda>v. st_return (k, v)))"

definition read_dictionary :: "amf3_value a3 \<Rightarrow> amf3_value a3" where
  "read_dictionary dec = ref_or (\<lambda>count.
     st_bind read_flag (\<lambda>weak_keys.
     st_bind reserve_slot (\<lambda>slot.
     st_bind (st_times count (read_entry dec)) (\<lambda>entries.
     fill_slot slot (A3Dictionary weak_keys entries)))))"

definition decode_inner :: "ext_handlers \<Rightarrow> u8 list \<Rightarrow> amf3_value a3 \<Rightarrow> amf3_value a3" where
  "decode_inner ext buf dec = st_bind (cur_u8 amf_err) (\<lambda>marker.
     if marker = 0x00 then st_return A3Undefined
     else if marker = 0x01 then st_return A3Null
     else if marker = 0x02 then st_return (A3Boolean False)
     else if marker = 0x03 then st_return (A3Boolean True)
     else if marker = 0x04 then st_bind read_i29 (\<lambda>n. st_return (A3Integer n))
     else if marker = 0x05 then st_bind (cur_be amf_err 8) (\<lambda>bits. st_return (A3Double bits))
     else if marker = 0x06 then st_bind read_string (\<lambda>s. st_return (A3String s))
     else if marker = 0x07 then st_bind read_object_string (\<lambda>s. st_return (A3XmlDocument s))
     else if marker = 0x0B then st_bind read_object_string (\<lambda>s. st_return (A3Xml s))
     else if marker = 0x08 then read_date
     else if marker = 0x09 then read_array dec
     else if marker = 0x0A then read_object ext buf dec
     else if marker = 0x0C then read_byte_array
     else if marker = 0x0D then read_vector_int
     else if marker = 0x0E then read_vector_uint
     else if marker = 0x0F then read_vector_double
     else if marker = 0x10 then read_vector_object dec
     else if marker = 0x11 then read_dictionary dec
     else st_throw amf_err)"

definition MAX_DECODE_DEPTH :: nat where "MAX_DECODE_DEPTH = 64"

function amf3_decode :: "ext_handlers \<Rightarrow> u8 list \<Rightarrow> nat \<Rightarrow> amf3_value a3" where
  "amf3_decode ext buf depth =
    (if MAX_DECODE_DEPTH \<le> depth then st_throw amf_err
     else decode_inner ext buf (amf3_decode ext buf (Suc depth)))"
  by pat_completeness auto
termination by (relation "measure (\<lambda>(_, _, d). MAX_DECODE_DEPTH - d)") auto

declare amf3_decode.simps [simp del]

text \<open>\<open>decode\<close> and \<open>decode_all\<close> with a fresh decoder.\<close>

definition amf3_decode_value :: "u8 list \<Rightarrow> amf3_value a3" where
  "amf3_decode_value buf = amf3_decode no_handlers buf 0"

definition amf3_decode_all :: "u8 list \<Rightarrow> amf3_value list result" where
  "amf3_decode_all buf = fst (while_input (amf3_decode_value buf) (empty_tables, buf))"

definition data_item :: "u8 list \<Rightarrow> amf3_value a3" where
  "data_item buf = st_bind st_rest (\<lambda>rest.
     if rest \<noteq> [] \<and> hd rest = 0x11 then
       st_bind (cur_u8 amf_err) (\<lambda>_.
       st_bind st_rest (\<lambda>rest'.
       if rest' = [] then st_throw amf_err else amf3_decode_value buf))
     else amf3_decode_value buf)"

definition decode_data_message :: "u8 list \<Rightarrow> amf3_value list result" where
  "decode_data_message buf = fst (while_input (data_item buf) (empty_tables, buf))"

section \<open>The encoder\<close>

definition flag_byte :: "bool \<Rightarrow> u8" where "flag_byte b = (if b then 1 else 0)"

definition object_header :: "bool \<Rightarrow> nat \<Rightarrow> u32" where
  "object_header dynamic sealed_len =
     (if dynamic then 3 OR 8 else 3) OR push_bit 4 (word_of_nat sealed_len)"

fun amf3_encode :: "amf3_value \<Rightarrow> u8 list" where
  "amf3_encode A3Undefined = [0x00]"
| "amf3_encode A3Null = [0x01]"
| "amf3_encode (A3Boolean b) = [if b then 0x03 else 0x02]"
| "amf3_encode (A3Integer n) =
    (if - (2 ^ 28) \<le> sint n \<and> sint n < 2 ^ 28 then 0x04 # write_i29 n
     else 0x05 # u64_be (f64_of_i32 n))"
| "amf3_encode (A3Double d) = 0x05 # u64_be d"
| "amf3_encode (A3String s) = 0x06 # write_u29_string s"
| "amf3_encode (A3XmlDocument s) = 0x07 # write_u29_string s"
| "amf3_encode (A3Xml s) = 0x0B # write_u29_string s"
| "amf3_encode (A3Date ms) = 0x08 # write_u29 1 @ u64_be ms"
| "amf3_encode (A3ByteArray b) = 0x0C # write_u29 (u29_len (length b)) @ b"
| "amf3_encode (A3Array dense assoc) =
     0x09 # write_u29 (u29_len (length dense))
       @ concat (map (\<lambda>(k, v). write_u29_string k @ amf3_encode v) assoc)
       @ write_u29 1
       @ concat (map (\<lambda>v. amf3_encode v) dense)"
| "amf3_encode (A3Object class_name dynamic sealed members ext_body) =
     0x0A # (case ext_body of
        Some body \<Rightarrow> write_u29 7 @ write_u29_string class_name @ body
      | None \<Rightarrow>
          write_u29 (object_header dynamic (length sealed))
            @ write_u29_string class_name
            @ concat (map (\<lambda>(name, _). write_u29_string name) sealed)
            @ concat (map (\<lambda>(_, v). amf3_encode v) sealed)
            @ (if dynamic then
                 concat (map (\<lambda>(k, v). write_u29_string k @ amf3_encode v) members) @ write_u29 1
               else []))"
| "amf3_encode (A3VectorInt fixed items) =
     0x0D # write_u29 (u29_len (length items)) @ [flag_byte fixed] @ concat (map u32_be items)"
| "amf3_encode (A3VectorUInt fixed items) =
     0x0E # write_u29 (u29_len (length items)) @ [flag_byte fixed] @ concat (map u32_be items)"
| "amf3_encode (A3VectorDouble fixed items) =
     0x0F # write_u29 (u29_len (length items)) @ [flag_byte fixed] @ concat (map u64_be items)"
| "amf3_encode (A3VectorObject fixed object_type_name items) =
     0x10 # write_u29 (u29_len (length items)) @ [flag_byte fixed]
       @ write_u29_string object_type_name @ concat (map (\<lambda>v. amf3_encode v) items)"
| "amf3_encode (A3Dictionary weak_keys entries) =
     0x11 # write_u29 (u29_len (length entries)) @ [flag_byte weak_keys]
       @ concat (map (\<lambda>(k, v). amf3_encode k @ amf3_encode v) entries)"

definition amf3_encode_all :: "amf3_value list \<Rightarrow> u8 list" where
  "amf3_encode_all vs = concat (map amf3_encode vs)"

definition anon_object :: "(rstring \<times> amf3_value) list \<Rightarrow> amf3_value" where
  "anon_object ps = A3Object [] False ps [] None"

definition dynamic_object :: "(rstring \<times> amf3_value) list \<Rightarrow> amf3_value" where
  "dynamic_object ps = A3Object [] True [] ps None"

section \<open>U29\<close>

text \<open>The bits of the masks; the simplifier turns a bit of a word literal into one of an \<open>int\<close>.\<close>

lemma bit_masks:
  "bit (0x80 :: int) n \<longleftrightarrow> n = 7" "bit (0x7F :: int) n \<longleftrightarrow> n < 7" "bit (0xFF :: int) n \<longleftrightarrow> n < 8"
proof -
  have "(0x80 :: int) = push_bit 7 1" "(0x7F :: int) = mask 7" "(0xFF :: int) = mask 8"
    by (simp_all add: mask_eq_exp_minus_1)
  then show "bit (0x80 :: int) n \<longleftrightarrow> n = 7" "bit (0x7F :: int) n \<longleftrightarrow> n < 7"
      "bit (0xFF :: int) n \<longleftrightarrow> n < 8"
    by (simp_all only: bit_push_bit_iff bit_mask_iff bit_1_iff) auto
qed

lemma bit_masks_u32:
  "bit (0x80 :: u32) n \<longleftrightarrow> n = 7" "bit (0x7F :: u32) n \<longleftrightarrow> n < 7" "bit (0xFF :: u32) n \<longleftrightarrow> n < 8"
  by (auto simp: bit_masks)

lemma mask_29_id: "v < 2 ^ 29 \<Longrightarrow> v AND 0x1FFFFFFF = (v :: u32)"
proof -
  assume "v < 2 ^ 29"
  then have "take_bit 29 v = v" by (intro word_take_bit_id) (simp add: word_less_nat_alt)
  then show ?thesis by (simp add: take_bit_eq_mask mask_eq_exp_minus_1)
qed

lemma cont_byte:
  fixes x :: u32
  shows "(ucast (ucast (x OR 0x80) :: u8) :: u32) AND 0x80 \<noteq> 0"
    and "(ucast (ucast (x OR 0x80) :: u8) :: u32) AND 0x7F = x AND 0x7F"
proof -
  have "bit ((ucast (ucast (x OR 0x80) :: u8) :: u32) AND 0x80) 7"
    by (simp add: bit_and_iff bit_ucast_iff bit_or_iff bit_masks)
  then show "(ucast (ucast (x OR 0x80) :: u8) :: u32) AND 0x80 \<noteq> 0" by auto
  show "(ucast (ucast (x OR 0x80) :: u8) :: u32) AND 0x7F = x AND 0x7F"
    by (rule bit_word_eqI) (auto simp: bit_and_iff bit_ucast_iff bit_or_iff bit_masks)
qed

lemma last_byte:
  fixes x :: u32
  assumes "x < 0x80"
  shows "(ucast (ucast x :: u8) :: u32) = x" and "x AND 0x80 = 0"
proof -
  have b: "bit x n \<Longrightarrow> n < 7" for n
    by (rule word_bit_bound[of x 7]) (use assms in \<open>simp_all add: word_less_nat_alt\<close>)
  show "(ucast (ucast x :: u8) :: u32) = x"
    by (rule bit_word_eqI) (auto simp: bit_ucast_iff dest: b)
  show "x AND 0x80 = 0"
    by (rule bit_word_eqI) (auto simp: bit_and_iff bit_masks dest: b)
qed

lemma mask_7_less: "(x :: u32) AND 0x7F < 0x80"
proof -
  have "x AND 0x7F \<le> 0x7F" by (rule word_and_le1)
  then show ?thesis by (simp add: word_le_nat_alt word_less_nat_alt)
qed

lemmas bit_u29 = bit_or_iff bit_and_iff bit_push_bit_iff bit_drop_bit_eq o_apply bit_masks_u32

lemma u29_parts:
  fixes v :: u32
  shows "v < 0x4000 \<Longrightarrow> push_bit 7 (drop_bit 7 v AND 0x7F) OR (v AND 0x7F) = v"
    and "v < 0x200000 \<Longrightarrow> push_bit 7 (push_bit 7 (drop_bit 14 v AND 0x7F) OR (drop_bit 7 v AND 0x7F))
      OR (v AND 0x7F) = v"
    and "v < 2 ^ 29 \<Longrightarrow> push_bit 8 (push_bit 7 (push_bit 7 (drop_bit 22 v AND 0x7F)
      OR (drop_bit 15 v AND 0x7F)) OR (drop_bit 8 v AND 0x7F)) OR (v AND 0xFF) = v"
proof -
  have b: "bit v n \<Longrightarrow> n < k" if "unat v < 2 ^ k" for n k
    by (rule word_bit_bound[OF that])
  show "push_bit 7 (drop_bit 7 v AND 0x7F) OR (v AND 0x7F) = v" if "v < 0x4000"
  proof (rule bit_word_eqI)
    fix n have "bit v n \<Longrightarrow> n < 14" by (rule b) (use that in \<open>simp_all add: word_less_nat_alt\<close>)
    then show "bit (push_bit 7 (drop_bit 7 v AND 0x7F) OR (v AND 0x7F)) n = bit v n"
      using bit_imp_le_length[of v n] by (cases "n < 7"; simp only: bit_u29; auto)
  qed
  show "push_bit 7 (push_bit 7 (drop_bit 14 v AND 0x7F) OR (drop_bit 7 v AND 0x7F))
      OR (v AND 0x7F) = v" if "v < 0x200000"
  proof (rule bit_word_eqI)
    fix n have "bit v n \<Longrightarrow> n < 21" by (rule b) (use that in \<open>simp_all add: word_less_nat_alt\<close>)
    then show "bit (push_bit 7 (push_bit 7 (drop_bit 14 v AND 0x7F) OR (drop_bit 7 v AND 0x7F))
      OR (v AND 0x7F)) n = bit v n"
      using bit_imp_le_length[of v n] by (cases "n < 7"; cases "n < 14"; simp only: bit_u29; auto)
  qed
  show "push_bit 8 (push_bit 7 (push_bit 7 (drop_bit 22 v AND 0x7F)
      OR (drop_bit 15 v AND 0x7F)) OR (drop_bit 8 v AND 0x7F)) OR (v AND 0xFF) = v" if "v < 2 ^ 29"
  proof (rule bit_word_eqI)
    fix n have "bit v n \<Longrightarrow> n < 29" by (rule b) (use that in \<open>simp_all add: word_less_nat_alt\<close>)
    then show "bit (push_bit 8 (push_bit 7 (push_bit 7 (drop_bit 22 v AND 0x7F)
      OR (drop_bit 15 v AND 0x7F)) OR (drop_bit 8 v AND 0x7F)) OR (v AND 0xFF)) n = bit v n"
      using bit_imp_le_length[of v n] by (cases "n < 8"; cases "n < 15"; cases "n < 22"; simp only: bit_u29; auto)
  qed
qed

lemma u8_full: "(ucast (ucast (x AND 0xFF) :: u8) :: u32) = x AND 0xFF"
  by (rule bit_word_eqI) (auto simp: bit_and_iff bit_ucast_iff bit_masks)

text \<open>One more continuation byte, and the last byte, of the loop.\<close>

lemma u29_cont:
  "reads (u29_loop (Suc k) (push_bit 7 v OR (x AND 0x7F)) :: ('u \<times> u8 list, u32) st) bs y \<Longrightarrow>
   reads (u29_loop (Suc (Suc k)) v :: ('u \<times> u8 list, u32) st) (ucast (x OR 0x80) # bs) y"
  unfolding u29_loop.simps(2)[of "Suc k"] Let_def
  by (rule reads_u8_bind) (simp only: cont_byte if_False nat.distinct simp_thms)

lemma u29_last: "x < 0x80 \<Longrightarrow> reads (u29_loop (Suc k) v) [ucast x] (push_bit 7 v OR x)"
  unfolding u29_loop.simps Let_def
  by (rule reads_u8_bind) (simp add: last_byte reads_return)

lemma u29_fourth:
  "reads (u29_loop (Suc 0) v) [ucast (x OR 0x80), ucast (y AND 0xFF)]
     (push_bit 8 (push_bit 7 v OR (x AND 0x7F)) OR (y AND 0xFF))"
  unfolding u29_loop.simps(2) Let_def
  by (rule reads_u8_bind, simp only: cont_byte if_False if_True simp_thms, rule reads_u8_bind)
    (simp only: u8_full reads_return)

lemma reads_u29:
  assumes "v < 2 ^ 29"
  shows "reads read_u29 (write_u29 v) v"
proof -
  note id = mask_29_id[OF assms]
  have mask: "(x AND 0x7F) AND 0x7F = x AND 0x7F" for x :: u32 by (simp add: and.assoc)
  have zero: "push_bit 7 0 OR (x AND 0x7F) = x AND 0x7F" for x :: u32 by simp
  have three: "(3::nat) = Suc (Suc (Suc 0))" by simp
  note run = read_u29_def three
  note bytes = write_u29_def id Let_def
  consider "v < 0x80" | "\<not> v < 0x80" "v < 0x4000" | "\<not> v < 0x80" "\<not> v < 0x4000" "v < 0x200000"
    | "\<not> v < 0x80" "\<not> v < 0x4000" "\<not> v < 0x200000" by blast
  then show ?thesis
  proof cases
    case 1
    from u29_last[OF 1, of "Suc (Suc 0)" 0] show ?thesis
      using 1 by (simp add: run bytes del: u29_loop.simps)
  next
    case 2
    from u29_cont[OF u29_last[OF mask_7_less], of "Suc 0" 0 "drop_bit 7 v" v] show ?thesis
      unfolding run bytes zero u29_parts(1)[OF 2(2)] using 2 by (simp del: u29_loop.simps)
  next
    case 3
    from u29_cont[OF u29_cont[OF u29_last[OF mask_7_less]],
        of 0 0 "drop_bit 14 v" "drop_bit 7 v AND 0x7F" v]
    show ?thesis
      unfolding run bytes mask zero u29_parts(2)[OF 3(3)]
      using 3 by (simp only: if_False if_True simp_thms)
  next
    case 4
    from u29_cont[OF u29_cont[OF u29_fourth], of 0 "drop_bit 22 v AND 0x7F" "drop_bit 15 v AND 0x7F"
      "drop_bit 8 v AND 0x7F" v]
    show ?thesis
      unfolding run bytes mask zero u29_parts(3)[OF assms] using 4 by (simp del: u29_loop.simps)
  qed
qed

section \<open>Bounds, safety and progress of the decoder\<close>

lemma shrinks_u29_loop: "shrinks 1 (u29_loop k v)"
proof (induction k arbitrary: v)
  case (Suc k)
  show ?case
    unfolding u29_loop.simps(2) Let_def
    by (intro shrinks_bind_first[OF shrinks_u8] shrink_intro) (rule shrinks_mono[OF Suc], simp)
qed (simp add: shrinks_throw)

lemma shrinks_u29: "shrinks 1 read_u29"
  unfolding read_u29_def by (rule shrinks_u29_loop)

lemma shrinks_u29_0 [shrink_intro]: "shrinks 0 read_u29"
  by (rule shrinks_mono[OF shrinks_u29]) simp

lemma shrinks_utf8 [shrink_intro]: "shrinks 0 (read_utf8_body n)"
  by (auto simp: shrinks_def read_utf8_body_def split: if_splits)

lemma shrinks_tables [shrink_intro]:
  "shrinks 0 (nth_ref xs i)" "shrinks 0 (modify_tables f)" "shrinks 0 (push_string s)"
  "shrinks 0 (push_object v)" "shrinks 0 reserve_slot" "shrinks 0 (fill_slot n v)"
  "shrinks 0 (lookup_object i)" "shrinks 0 (pushed v)"
  unfolding nth_ref_def modify_tables_def push_string_def push_object_def reserve_slot_def
    fill_slot_def lookup_object_def pushed_def
  by (intro shrink_intro)+

lemma shrinks_string: "shrinks 1 read_string"
  unfolding read_string_def
  by (rule shrinks_bind_first[OF shrinks_u29]) (intro shrink_intro)

lemma shrinks_string_0 [shrink_intro]: "shrinks 0 read_string"
  by (rule shrinks_mono[OF shrinks_string]) simp

lemma shrinks_object_string [shrink_intro]: "shrinks 0 read_object_string"
  unfolding read_object_string_def
  by (intro shrink_intro) (auto split: amf3_value.split intro: shrink_intro)

lemma shrinks_ref_or [shrink_intro]: "(\<And>n. shrinks 0 (f n)) \<Longrightarrow> shrinks 0 (ref_or f)"
  unfolding ref_or_def by (intro shrink_intro) auto

lemma shrinks_read_flag [shrink_intro]: "shrinks 0 read_flag"
  unfolding read_flag_def by (intro shrink_intro)

lemma steps_member:
  assumes "shrinks 0 dec"
  shows "steps (read_member dec)"
proof -
  have "shrinks 1 (read_member dec)"
    unfolding read_member_def
    by (rule shrinks_bind_first[OF shrinks_string]) (intro shrink_intro assms)
  then show ?thesis by (fastforce simp: steps_def dest: shrinksD)
qed

lemma shrinks_members [shrink_intro]: "shrinks 0 dec \<Longrightarrow> shrinks 0 (read_members dec)"
  unfolding read_members_def read_member_def by (intro shrink_intro) auto

lemma shrinks_traits [shrink_intro]: "shrinks 0 (read_traits header)"
  unfolding read_traits_def Let_def by (intro shrink_intro)

lemma shrinks_sealed [shrink_intro]: "shrinks 0 dec \<Longrightarrow> shrinks 0 (read_sealed dec names)"
  by (induction names) (auto intro!: shrink_intro)

lemma shrinks_external [shrink_intro]: "shrinks 0 (read_external ext buf cn)"
  unfolding read_external_def by (auto split: option.split intro!: shrink_intro)

lemma shrinks_inner: "shrinks 0 dec \<Longrightarrow> shrinks 1 (decode_inner ext buf dec)"
  unfolding decode_inner_def read_i29_def read_date_def read_array_def read_object_def
    read_byte_array_def read_vector_int_def read_vector_uint_def read_vector_double_def
    read_vector_object_def read_dictionary_def read_entry_def
  by (rule shrinks_bind_first[OF shrinks_u8]) (intro shrink_intro; assumption)

lemma shrinks_amf3: "shrinks 1 (amf3_decode ext buf depth)"
proof (induction ext buf depth rule: amf3_decode.induct)
  case (1 ext buf depth)
  show ?case
  proof (cases "MAX_DECODE_DEPTH \<le> depth")
    case False
    then have "shrinks 0 (amf3_decode ext buf (Suc depth))"
      by (intro shrinks_mono[OF 1]) simp_all
    with False show ?thesis by (subst amf3_decode.simps) (simp add: shrinks_inner[simplified])
  qed (subst amf3_decode.simps, simp add: shrinks_throw)
qed

lemma shrinks_amf3_0 [shrink_intro]: "shrinks 0 (amf3_decode ext buf depth)"
  by (rule shrinks_mono[OF shrinks_amf3]) simp

lemma safe_u29 [safe_intro]: "safe read_u29"
  unfolding read_u29_def numeral_3_eq_3
  by (simp only: u29_loop.simps Let_def nat.distinct if_False if_True simp_thms)
    (intro safe_intro; simp)

lemma safe_utf8 [safe_intro]: "safe (read_utf8_body n)"
  by (auto simp: safe_def read_utf8_body_def)

lemma safe_tables [safe_intro]:
  "safe (nth_ref xs i)" "safe (modify_tables f)" "safe (push_string s)"
  "safe (push_object v)" "safe reserve_slot" "safe (fill_slot n v)"
  "safe (lookup_object i)" "safe (pushed v)"
  unfolding nth_ref_def modify_tables_def push_string_def push_object_def reserve_slot_def
    fill_slot_def lookup_object_def pushed_def
  by (intro safe_intro; simp)+

lemma safe_string [safe_intro]: "safe read_string"
  unfolding read_string_def by (intro safe_intro)

lemma safe_object_string [safe_intro]: "safe read_object_string"
  unfolding read_object_string_def
  by (intro safe_intro) (auto split: amf3_value.split intro: safe_intro)

lemma safe_ref_or [safe_intro]: "(\<And>n. safe (f n)) \<Longrightarrow> safe (ref_or f)"
  unfolding ref_or_def by (intro safe_intro) auto

lemma safe_read_flag [safe_intro]: "safe read_flag"
  unfolding read_flag_def by (intro safe_intro) simp_all

lemma safe_members:
  assumes "shrinks 0 dec" and "safe dec"
  shows "safe (read_members dec)"
  unfolding read_members_def
proof (rule safe_many[OF steps_member[OF assms(1)]])
  show "safe (read_member dec)"
    unfolding read_member_def by (intro safe_intro assms(2))
qed

lemma safe_traits [safe_intro]: "safe (read_traits header)"
  unfolding read_traits_def Let_def by (intro safe_intro)

lemma safe_sealed [safe_intro]: "safe dec \<Longrightarrow> safe (read_sealed dec names)"
  by (induction names) (auto intro!: safe_intro)

text \<open>The caller's resolvers are asked for real errors only.\<close>

definition handlers_ok :: "ext_handlers \<Rightarrow> bool" where
  "handlers_ok ext \<longleftrightarrow> (\<forall>cn reader buf off. ext cn = Some reader \<longrightarrow>
     reader buf off \<noteq> Inl Panic \<and> reader buf off \<noteq> Inl OutOfFuel)"

lemma handlers_ok_none [simp]: "handlers_ok no_handlers"
  by (simp add: handlers_ok_def no_handlers_def)

lemma safe_external:
  assumes "handlers_ok ext"
  shows "safe (read_external ext buf cn)"
proof (cases "ext cn")
  case (Some reader)
  have "safe (st_lift (reader buf off))" for off
    using assms Some by (auto simp: handlers_ok_def safe_def st_lift_def)
  then show ?thesis
    by (auto simp: read_external_def Some intro!: safe_intro)
qed (simp add: read_external_def safe_throw)

lemma safe_inner:
  assumes "handlers_ok ext" and "shrinks 0 dec" and "safe dec"
  shows "safe (decode_inner ext buf dec)"
  unfolding decode_inner_def read_i29_def read_date_def read_array_def read_object_def
    read_byte_array_def read_vector_int_def read_vector_uint_def read_vector_double_def
    read_vector_object_def read_dictionary_def read_entry_def
  by (intro safe_intro safe_members safe_external assms; simp)

lemma safe_amf3:
  assumes "handlers_ok ext"
  shows "safe (amf3_decode ext buf depth)"
  using assms
proof (induction ext buf depth rule: amf3_decode.induct)
  case (1 ext buf depth)
  show ?case
  proof (cases "MAX_DECODE_DEPTH \<le> depth")
    case False
    with 1 have "safe (decode_inner ext buf (amf3_decode ext buf (Suc depth)))"
      by (intro safe_inner shrinks_amf3_0) simp_all
    with False show ?thesis by (subst amf3_decode.simps) simp
  qed (subst amf3_decode.simps, simp add: safe_throw)
qed

section \<open>Reading back what the encoder wrote\<close>

lemma u29_len_eq: "u29_len n = word_of_nat (2 * n + 1)"
  by (simp add: u29_len_def push_bit_eq_mult or_one_eq)

lemma u29_len_facts:
  assumes "n < 2 ^ 28"
  shows "u29_len n < 2 ^ 29" and "\<not> is_ref (u29_len n)" and "ref_arg (u29_len n) = n"
proof -
  have u: "unat (u29_len n) = 2 * n + 1"
    unfolding u29_len_eq using assms by (intro unat_u32_of_nat) simp
  show "u29_len n < 2 ^ 29" using u assms by (simp add: word_less_nat_alt)
  have "bit (u29_len n AND 1) 0" by (simp add: u29_len_def bit_simps)
  then show "\<not> is_ref (u29_len n)" unfolding is_ref_def by auto
  show "ref_arg (u29_len n) = n"
    using assms
    by (simp only: ref_arg_def unsigned_drop_bit_eq u) (simp add: drop_bit_eq_div take_bit_nat_eq_self)
qed

lemma reads_ref_or:
  assumes "n < 2 ^ 28" and "reads (f n) bs x"
  shows "reads (ref_or f) (write_u29 (u29_len n) @ bs) x"
  unfolding ref_or_def
  by (rule reads_bind[OF reads_u29[OF u29_len_facts(1)[OF assms(1)]]])
    (simp add: u29_len_facts[OF assms(1)] assms(2))

lemma reads_modify [reads_intro]: "reads (modify_tables f) [] ()"
  unfolding modify_tables_def by (intro reads_intro)

lemma reads_push_bind:
  "reads (f ()) bs x \<Longrightarrow> reads (st_bind (modify_tables g) f) bs x"
  using reads_bind[OF reads_modify] by fastforce

lemma reads_pushed [reads_intro]: "reads (pushed v) [] v"
  unfolding pushed_def push_object_def by (rule reads_push_bind) (rule reads_return)

lemma reads_fill [reads_intro]: "reads (fill_slot n v) [] v"
  unfolding fill_slot_def by (rule reads_push_bind) (rule reads_return)

lemma reads_reserve_bind [reads_intro]:
  "(\<And>slot. reads (f slot) bs x) \<Longrightarrow> reads (st_bind reserve_slot f) bs x"
  unfolding reserve_slot_def push_object_def st_bind_assoc
  by (rule reads_get_bind, rule reads_push_bind) simp

definition str_ok :: "rstring \<Rightarrow> bool" where
  "str_ok s \<longleftrightarrow> utf8_valid s \<and> length s < 2 ^ 28"

lemma reads_utf8_body: "utf8_valid s \<Longrightarrow> reads (read_utf8_body (length s)) s s"
  by (simp add: reads_def read_utf8_body_def)

lemma str_okD: "str_ok s \<Longrightarrow> utf8_valid s" "str_ok s \<Longrightarrow> length s < 2 ^ 28"
  by (simp_all add: str_ok_def)

lemma reads_string: "str_ok s \<Longrightarrow> reads read_string (write_u29_string s) s"
  unfolding read_string_def write_u29_string_def
  by (rule reads_bind[OF reads_u29[OF u29_len_facts(1)[OF str_okD(2)]]], assumption)
    (auto simp: u29_len_facts[OF str_okD(2)] push_string_def
      intro!: reads_bind_nil[OF reads_utf8_body] reads_push_bind reads_return dest: str_okD(1))

lemma reads_object_string: "str_ok s \<Longrightarrow> reads read_object_string (write_u29_string s) s"
  unfolding read_object_string_def write_u29_string_def
  by (rule reads_bind[OF reads_u29[OF u29_len_facts(1)[OF str_okD(2)]]], assumption)
    (auto simp: u29_len_facts[OF str_okD(2)] push_object_def
      intro!: reads_bind_nil[OF reads_utf8_body] reads_push_bind reads_return dest: str_okD(1))

lemma reads_flag: "reads read_flag [flag_byte b] b"
  unfolding read_flag_def
  by (rule reads_u8_bind) (cases b, simp_all add: flag_byte_def reads_return)

lemma reads_flag_bind: "reads (f b) bs x \<Longrightarrow> reads (st_bind read_flag f) (flag_byte b # bs) x"
  using reads_bind[OF reads_flag, of f b bs x] by simp

lemma write_u29_1: "write_u29 1 = write_u29_string []"
  by (simp add: write_u29_string_def u29_len_def)

lemma reads_member:
  assumes "str_ok k" and "k \<noteq> []" and "reads dec bs v"
  shows "reads (read_member dec) (write_u29_string k @ bs) (Some (k, v))"
  unfolding read_member_def
  by (rule reads_bind[OF reads_string[OF assms(1)]])
    (simp only: assms(2) if_False, rule reads_bind_nil[OF assms(3)], rule reads_return)

lemma reads_member_end: "reads (read_member dec) (write_u29 1) None"
  unfolding read_member_def write_u29_1
  by (rule reads_bind_nil[OF reads_string]) (simp_all add: str_ok_def reads_return)

lemma reads_members:
  assumes "shrinks 0 dec" and "\<And>k v. (k, v) \<in> set ps \<Longrightarrow> str_ok k \<and> k \<noteq> [] \<and> reads dec (enc v) v"
  shows "reads (read_members dec)
    (concat (map (\<lambda>(k, v). write_u29_string k @ enc v) ps) @ write_u29 1) ps"
  unfolding read_members_def
  by (rule reads_many[OF steps_member[OF assms(1)] _ reads_member_end])
    (use assms(2) in \<open>auto intro!: reads_member\<close>)

lemma reads_sealed:
  assumes "\<And>k v. (k, v) \<in> set ps \<Longrightarrow> reads dec (enc v) v"
  shows "reads (read_sealed dec (map fst ps)) (concat (map (\<lambda>(_, v). enc v) ps)) ps"
  using assms
proof (induction ps)
  case Nil
  show ?case by (simp add: reads_return)
next
  case (Cons p ps)
  obtain k v where p: "p = (k, v)" by (rule prod.exhaust)
  have 1: "reads dec (enc v) v" using Cons.prems p by auto
  have 2: "reads (read_sealed dec (map fst ps)) (concat (map (\<lambda>(_, v). enc v) ps)) ps"
    by (rule Cons.IH) (meson Cons.prems list.set_intros(2))
  have "reads (st_bind dec (\<lambda>v. st_bind (read_sealed dec (map fst ps)) (\<lambda>vs. st_return ((k, v) # vs))))
      (enc v @ concat (map (\<lambda>(_, v). enc v) ps)) ((k, v) # ps)"
    by (rule reads_bind[OF 1], rule reads_bind_nil[OF 2], rule reads_return)
  then show ?case by (simp add: p)
qed

lemma bit_small:
  "bit (2 :: int) n \<longleftrightarrow> n = 1" "bit (3 :: int) n \<longleftrightarrow> n < 2" "bit (4 :: int) n \<longleftrightarrow> n = 2"
  "bit (8 :: int) n \<longleftrightarrow> n = 3" "bit (11 :: int) n \<longleftrightarrow> n < 2 \<or> n = 3"
proof -
  have "(2 :: int) = push_bit 1 1" "(4 :: int) = push_bit 2 1" "(8 :: int) = push_bit 3 1"
      "(3 :: int) = mask 2" "(11 :: int) = mask 2 OR push_bit 3 1"
    by (simp_all add: mask_eq_exp_minus_1)
  then show "bit (2 :: int) n \<longleftrightarrow> n = 1" "bit (3 :: int) n \<longleftrightarrow> n < 2" "bit (4 :: int) n \<longleftrightarrow> n = 2"
      "bit (8 :: int) n \<longleftrightarrow> n = 3" "bit (11 :: int) n \<longleftrightarrow> n < 2 \<or> n = 3"
    by (simp_all only: bit_push_bit_iff bit_mask_iff bit_1_iff bit_or_iff) auto
qed

text \<open>The trait header of an inline object.\<close>

lemma object_header_facts:
  assumes "n < 2 ^ 25"
  shows "object_header dyn n < 2 ^ 29" and "\<not> is_ref (object_header dyn n)"
    and "object_header dyn n AND 2 \<noteq> 0" and "object_header dyn n AND 4 = 0"
    and "object_header dyn n AND 8 \<noteq> 0 \<longleftrightarrow> dyn"
    and "unat (drop_bit 4 (object_header dyn n)) = n"
proof -
  have b: "bit (word_of_nat n :: u32) k \<Longrightarrow> k < 25" for k
    by (rule word_bit_bound[of _ 25]) (use assms in \<open>simp_all add: unat_u32_of_nat\<close>)
  let ?h = "object_header dyn n"
  have bits: "bit ?h k \<longleftrightarrow>
      k < 32 \<and> ((k < 2 \<or> k = 3 \<and> dyn) \<or> 4 \<le> k \<and> bit (word_of_nat n :: u32) (k - 4))" for k
    by (auto simp: object_header_def bit_or_iff bit_push_bit_iff bit_small)
  show "?h < 2 ^ 29"
  proof -
    have "take_bit 29 ?h = ?h"
    proof (rule bit_word_eqI)
      fix k
      have "bit ?h k \<Longrightarrow> k < 29" using b[of "k - 4"] by (auto simp: bits)
      then show "bit (take_bit 29 ?h) k = bit ?h k" by (auto simp: bit_take_bit_iff)
    qed
    then have "unat ?h = take_bit 29 (unat ?h)" by (metis unsigned_take_bit_eq)
    then have "unat ?h < 2 ^ 29" by (metis take_bit_nat_less_exp)
    then show ?thesis by (simp add: word_less_nat_alt)
  qed
  have "bit (?h AND 1) 0" by (simp add: bit_and_iff bits)
  then show "\<not> is_ref ?h" unfolding is_ref_def by auto
  have "bit (?h AND 2) 1" by (simp add: bit_and_iff bits bit_small)
  then show "?h AND 2 \<noteq> 0" by auto
  show "?h AND 4 = 0" by (rule bit_word_eqI) (auto simp: bit_and_iff bits bit_small)
  show "?h AND 8 \<noteq> 0 \<longleftrightarrow> dyn"
  proof (cases dyn)
    case True
    then have "bit (?h AND 8) 3" using bits[of 3] by (simp add: bit_and_iff bit_small)
    then show ?thesis using True by auto
  next
    case False
    then have "\<not> bit ?h 3" using bits[of 3] by simp
    then have "?h AND 8 = 0" by (intro bit_word_eqI) (auto simp: bit_and_iff bit_small)
    then show ?thesis using False by simp
  qed
  have "drop_bit 4 ?h = word_of_nat n"
    by (rule bit_word_eqI) (auto simp: bit_drop_bit_eq bits dest: b)
  then show "unat (drop_bit 4 ?h) = n" using assms by (simp add: unat_u32_of_nat)
qed


section \<open>The round trip of values\<close>

text \<open>
  The values the generic decoder (no registered class) can get back from the wire at a given
  nesting depth: lengths that fit the U29 header, member names that are not the empty
  terminator, integers in the 29-bit range, and no externalizable body.
\<close>

definition key_ok :: "rstring \<Rightarrow> bool" where "key_ok k \<longleftrightarrow> str_ok k \<and> k \<noteq> []"

fun amf3_fits :: "nat \<Rightarrow> amf3_value \<Rightarrow> bool" where
  "amf3_fits d (A3Integer n) \<longleftrightarrow> d < MAX_DECODE_DEPTH \<and> - (2 ^ 28) \<le> sint n \<and> sint n < 2 ^ 28"
| "amf3_fits d (A3String s) \<longleftrightarrow> d < MAX_DECODE_DEPTH \<and> str_ok s"
| "amf3_fits d (A3XmlDocument s) \<longleftrightarrow> d < MAX_DECODE_DEPTH \<and> str_ok s"
| "amf3_fits d (A3Xml s) \<longleftrightarrow> d < MAX_DECODE_DEPTH \<and> str_ok s"
| "amf3_fits d (A3ByteArray b) \<longleftrightarrow> d < MAX_DECODE_DEPTH \<and> length b < 2 ^ 28"
| "amf3_fits d (A3Array dense assoc) \<longleftrightarrow> d < MAX_DECODE_DEPTH \<and> length dense < 2 ^ 28
     \<and> list_all (\<lambda>v. amf3_fits (Suc d) v) dense
     \<and> list_all (\<lambda>(k, v). key_ok k \<and> amf3_fits (Suc d) v) assoc"
| "amf3_fits d (A3Object cn dyn sealed members ext_body) \<longleftrightarrow> d < MAX_DECODE_DEPTH
     \<and> ext_body = None \<and> str_ok cn \<and> length sealed < 2 ^ 25
     \<and> list_all (\<lambda>(k, v). str_ok k \<and> amf3_fits (Suc d) v) sealed
     \<and> (if dyn then list_all (\<lambda>(k, v). key_ok k \<and> amf3_fits (Suc d) v) members else members = [])"
| "amf3_fits d (A3VectorInt f items) \<longleftrightarrow> d < MAX_DECODE_DEPTH \<and> length items < 2 ^ 28"
| "amf3_fits d (A3VectorUInt f items) \<longleftrightarrow> d < MAX_DECODE_DEPTH \<and> length items < 2 ^ 28"
| "amf3_fits d (A3VectorDouble f items) \<longleftrightarrow> d < MAX_DECODE_DEPTH \<and> length items < 2 ^ 28"
| "amf3_fits d (A3VectorObject f t items) \<longleftrightarrow> d < MAX_DECODE_DEPTH \<and> length items < 2 ^ 28
     \<and> str_ok t \<and> list_all (\<lambda>v. amf3_fits (Suc d) v) items"
| "amf3_fits d (A3Dictionary w entries) \<longleftrightarrow> d < MAX_DECODE_DEPTH \<and> length entries < 2 ^ 28
     \<and> list_all (\<lambda>(k, v). amf3_fits (Suc d) k \<and> amf3_fits (Suc d) v) entries"
| "amf3_fits d v \<longleftrightarrow> d < MAX_DECODE_DEPTH"

lemma bit_i29:
  assumes "- (2 ^ 28) \<le> sint n" and "sint n < 2 ^ 28" and "28 \<le> k" and "k < 32"
  shows "bit (n :: i32) k = bit n 28"
proof -
  have s: "bit (sint n) j = bit n j" if "j < 32" for j
    using that by (simp add: bit_sint_iff)
  have "signed_take_bit 28 (sint n) = sint n"
    using assms(1,2) by (simp add: signed_take_bit_int_eq_self)
  moreover have "bit (signed_take_bit 28 (sint n)) k = bit (signed_take_bit 28 (sint n)) 28"
    using assms(3) by (simp add: bit_signed_take_bit_iff min.absorb1)
  ultimately have "bit (sint n) k = bit (sint n) 28" by simp
  then show ?thesis using assms(4) by (simp add: s)
qed

lemma i29_bits:
  "bit (0x1FFFFFFF :: int) k \<longleftrightarrow> k < 29" "bit (0x10000000 :: int) k \<longleftrightarrow> k = 28"
  "k < 32 \<Longrightarrow> bit (0xE0000000 :: int) k \<longleftrightarrow> 29 \<le> k"
proof -
  have "(0x1FFFFFFF :: int) = mask 29" "(0x10000000 :: int) = push_bit 28 1"
      "(0xE0000000 :: int) = push_bit 29 (mask 3)"
    by (simp_all add: mask_eq_exp_minus_1)
  then show "bit (0x1FFFFFFF :: int) k \<longleftrightarrow> k < 29" "bit (0x10000000 :: int) k \<longleftrightarrow> k = 28"
      "k < 32 \<Longrightarrow> bit (0xE0000000 :: int) k \<longleftrightarrow> 29 \<le> k"
    by (simp_all only: bit_push_bit_iff bit_mask_iff bit_1_iff) auto
qed

lemma i29_low: "bit (n AND 0x1FFFFFFF :: i32) k \<longleftrightarrow> k < 29 \<and> bit n k"
  using bit_imp_le_length[of n k] by (auto simp: bit_and_iff i29_bits)

lemma i29_small: "n AND 0x1FFFFFFF < (2 ^ 29 :: i32)"
proof -
  have "(n AND 0x1FFFFFFF) = take_bit 29 n" by (rule bit_word_eqI) (auto simp: i29_low bit_take_bit_iff)
  then have "unat (n AND 0x1FFFFFFF) < 2 ^ 29"
    using take_bit_nat_less_exp[of 29 "unat n"] by (simp only: unsigned_take_bit_eq)
  then show ?thesis by (simp add: word_less_nat_alt)
qed

lemma i29_sign_bit: "(n AND 0x1FFFFFFF) AND 0x10000000 \<noteq> 0 \<longleftrightarrow> bit (n :: i32) 28"
proof
  assume "bit n 28"
  then have "bit ((n AND 0x1FFFFFFF) AND 0x10000000) 28" by (simp add: bit_and_iff i29_bits)
  then show "(n AND 0x1FFFFFFF) AND 0x10000000 \<noteq> 0" by auto
next
  assume nz: "(n AND 0x1FFFFFFF) AND 0x10000000 \<noteq> 0"
  show "bit n 28"
  proof (rule ccontr)
    assume "\<not> bit n 28"
    then have "(n AND 0x1FFFFFFF) AND 0x10000000 = 0" by (intro bit_word_eqI) (auto simp: bit_and_iff i29_bits)
    with nz show False by simp
  qed
qed

lemma i29_extends:
  assumes "- (2 ^ 28) \<le> sint n" and "sint n < 2 ^ 28"
  shows "(if (n AND 0x1FFFFFFF) AND 0x10000000 \<noteq> 0 then (n AND 0x1FFFFFFF) OR 0xE0000000 else (n AND 0x1FFFFFFF)) = (n :: i32)"
  unfolding i29_sign_bit
proof (rule bit_word_eqI)
  fix k assume k: "k < LENGTH(32)"
  have "bit (if bit n 28 then (n AND 0x1FFFFFFF) OR 0xE0000000 else (n AND 0x1FFFFFFF)) k =
      (k < 29 \<and> bit n k \<or> bit n 28 \<and> 29 \<le> k)"
    using k i29_low[of n k] i29_bits(3)[of k] by (cases "bit n 28") (simp_all add: bit_or_iff)
  also have "\<dots> = bit n k"
  proof (cases "k < 29")
    case False
    have "bit n k = bit n 28" by (rule bit_i29[OF assms(1,2)]) (use False k in simp_all)
    then show ?thesis using False by auto
  qed simp
  finally show "bit (if bit n 28 then (n AND 0x1FFFFFFF) OR 0xE0000000 else (n AND 0x1FFFFFFF)) k = bit n k" .
qed

lemma i29_roundtrip:
  assumes "- (2 ^ 28) \<le> sint n" and "sint n < 2 ^ 28"
  shows "reads read_i29 (write_i29 n) (n :: i32)"
proof -
  let ?v = "n AND 0x1FFFFFFF"
  have "reads (st_return (if ?v AND 0x10000000 \<noteq> 0 then ?v OR 0xE0000000 else ?v)) [] n"
    by (simp only: reads_return i29_extends[OF assms])
  then show ?thesis
    unfolding read_i29_def write_i29_def by (rule reads_bind_nil[OF reads_u29[OF i29_small]])
qed

lemma reads_decode:
  "d < MAX_DECODE_DEPTH \<Longrightarrow> reads (decode_inner ext buf (amf3_decode ext buf (Suc d))) bs v \<Longrightarrow>
   reads (amf3_decode ext buf d) bs v"
  by (subst amf3_decode.simps) simp

lemma amf3_fits_depth: "amf3_fits d v \<Longrightarrow> d < MAX_DECODE_DEPTH"
  by (cases v) auto

lemma reads_marker:
  "reads (decode_inner ext buf dec) (0x00 # []) A3Undefined"
  "reads (decode_inner ext buf dec) (0x01 # []) A3Null"
  "reads (decode_inner ext buf dec) (0x02 # []) (A3Boolean False)"
  "reads (decode_inner ext buf dec) (0x03 # []) (A3Boolean True)"
  "reads (st_bind read_i29 (\<lambda>n. st_return (A3Integer n)) :: amf3_value a3) bs v \<Longrightarrow> reads (decode_inner ext buf dec) (0x04 # bs) v"
  "reads (st_bind (cur_be amf_err 8) (\<lambda>b. st_return (A3Double b)) :: amf3_value a3) bs v \<Longrightarrow> reads (decode_inner ext buf dec) (0x05 # bs) v"
  "reads (st_bind read_string (\<lambda>s. st_return (A3String s))) bs v \<Longrightarrow> reads (decode_inner ext buf dec) (0x06 # bs) v"
  "reads (st_bind read_object_string (\<lambda>s. st_return (A3XmlDocument s))) bs v \<Longrightarrow> reads (decode_inner ext buf dec) (0x07 # bs) v"
  "reads (st_bind read_object_string (\<lambda>s. st_return (A3Xml s))) bs v \<Longrightarrow> reads (decode_inner ext buf dec) (0x0B # bs) v"
  "reads read_date bs v \<Longrightarrow> reads (decode_inner ext buf dec) (0x08 # bs) v"
  "reads (read_array dec) bs v \<Longrightarrow> reads (decode_inner ext buf dec) (0x09 # bs) v"
  "reads (read_object ext buf dec) bs v \<Longrightarrow> reads (decode_inner ext buf dec) (0x0A # bs) v"
  "reads read_byte_array bs v \<Longrightarrow> reads (decode_inner ext buf dec) (0x0C # bs) v"
  "reads read_vector_int bs v \<Longrightarrow> reads (decode_inner ext buf dec) (0x0D # bs) v"
  "reads read_vector_uint bs v \<Longrightarrow> reads (decode_inner ext buf dec) (0x0E # bs) v"
  "reads read_vector_double bs v \<Longrightarrow> reads (decode_inner ext buf dec) (0x0F # bs) v"
  "reads (read_vector_object dec) bs v \<Longrightarrow> reads (decode_inner ext buf dec) (0x10 # bs) v"
  "reads (read_dictionary dec) bs v \<Longrightarrow> reads (decode_inner ext buf dec) (0x11 # bs) v"
  unfolding decode_inner_def by (rule reads_u8_bind, simp add: reads_return)+

lemma reads_be8: "reads (cur_be e 8 :: ('u \<times> u8 list, u64) st) (u64_be x) x"
proof -
  have "reads (cur_be e 8 :: ('u \<times> u8 list, u64) st) (u64_be x) (of_be (u64_be x))"
    by (rule reads_be) simp
  then show ?thesis by simp
qed

lemma reads_be4: "reads (cur_be e 4 :: ('u \<times> u8 list, u32) st) (u32_be x) x"
proof -
  have "reads (cur_be e 4 :: ('u \<times> u8 list, u32) st) (u32_be x) (of_be (u32_be x))"
    by (rule reads_be) simp
  then show ?thesis by simp
qed

lemma write_u29_1_len: "write_u29 1 = write_u29 (u29_len 0)"
  by (simp add: u29_len_def)

lemma reads_date: "reads read_date (write_u29 1 @ u64_be ms) (A3Date ms)"
  unfolding read_date_def write_u29_1_len
  by (rule reads_ref_or, simp, rule reads_bind_nil[OF reads_be8], rule reads_pushed)

lemma reads_byte_array:
  "length b < 2 ^ 28 \<Longrightarrow> reads read_byte_array (write_u29 (u29_len (length b)) @ b) (A3ByteArray b)"
  unfolding read_byte_array_def
  by (rule reads_ref_or, assumption, rule reads_bind_nil[OF reads_take], rule refl, rule reads_pushed)

lemma reads_vector_int:
  "length xs < 2 ^ 28 \<Longrightarrow> reads read_vector_int
     (write_u29 (u29_len (length xs)) @ flag_byte f # concat (map u32_be xs)) (A3VectorInt f xs)"
  unfolding read_vector_int_def
  by (rule reads_ref_or, assumption, rule reads_flag_bind,
      rule reads_bind_nil[OF reads_times], rule reads_be4, rule reads_pushed)

lemma reads_vector_uint:
  "length xs < 2 ^ 28 \<Longrightarrow> reads read_vector_uint
     (write_u29 (u29_len (length xs)) @ flag_byte f # concat (map u32_be xs)) (A3VectorUInt f xs)"
  unfolding read_vector_uint_def
  by (rule reads_ref_or, assumption, rule reads_flag_bind,
      rule reads_bind_nil[OF reads_times], rule reads_be4, rule reads_pushed)

lemma reads_vector_double:
  "length xs < 2 ^ 28 \<Longrightarrow> reads read_vector_double
     (write_u29 (u29_len (length xs)) @ flag_byte f # concat (map u64_be xs)) (A3VectorDouble f xs)"
  unfolding read_vector_double_def
  by (rule reads_ref_or, assumption, rule reads_flag_bind,
      rule reads_bind_nil[OF reads_times], rule reads_be8, rule reads_pushed)

lemma reads_array:
  assumes "length dense < 2 ^ 28" and "shrinks 0 dec"
    and "\<And>v. v \<in> set dense \<Longrightarrow> reads dec (amf3_encode v) v"
    and "\<And>k v. (k, v) \<in> set assoc \<Longrightarrow> str_ok k \<and> k \<noteq> [] \<and> reads dec (amf3_encode v) v"
  shows "reads (read_array dec)
    (write_u29 (u29_len (length dense))
       @ (concat (map (\<lambda>(k, v). write_u29_string k @ amf3_encode v) assoc) @ write_u29 1)
       @ concat (map (\<lambda>v. amf3_encode v) dense)) (A3Array dense assoc)"
  unfolding read_array_def
  by (rule reads_ref_or[OF assms(1)], rule reads_reserve_bind,
      rule reads_bind[OF reads_members[OF assms(2,4)]], assumption,
      rule reads_bind_nil[OF reads_times[OF assms(3)]], assumption, rule reads_fill)

lemma reads_vector_object:
  assumes "length items < 2 ^ 28" and "str_ok t"
    and "\<And>v. v \<in> set items \<Longrightarrow> reads dec (amf3_encode v) v"
  shows "reads (read_vector_object dec)
    (write_u29 (u29_len (length items)) @ flag_byte f # write_u29_string t
       @ concat (map (\<lambda>v. amf3_encode v) items)) (A3VectorObject f t items)"
  unfolding read_vector_object_def
  by (rule reads_ref_or[OF assms(1)], rule reads_flag_bind, rule reads_bind[OF reads_string[OF assms(2)]],
      rule reads_reserve_bind, rule reads_bind_nil[OF reads_times[OF assms(3)]], assumption,
      rule reads_fill)

lemma reads_dictionary:
  assumes "length entries < 2 ^ 28"
    and "\<And>k v. (k, v) \<in> set entries \<Longrightarrow> reads dec (amf3_encode k) k \<and> reads dec (amf3_encode v) v"
  shows "reads (read_dictionary dec)
    (write_u29 (u29_len (length entries)) @ flag_byte w
       # concat (map (\<lambda>(k, v). amf3_encode k @ amf3_encode v) entries)) (A3Dictionary w entries)"
proof -
  have entry: "reads (read_entry dec) (case e of (k, v) \<Rightarrow> amf3_encode k @ amf3_encode v) e"
    if e: "e \<in> set entries" for e
  proof -
    obtain k v where kv: "e = (k, v)" by (rule prod.exhaust)
    with assms(2) e have 1: "reads dec (amf3_encode k) k" and 2: "reads dec (amf3_encode v) v" by auto
    show ?thesis
      unfolding kv read_entry_def prod.case
      by (rule reads_bind[OF 1], rule reads_bind_nil[OF 2], rule reads_return)
  qed
  show ?thesis
    unfolding read_dictionary_def
    by (rule reads_ref_or[OF assms(1)], rule reads_flag_bind, rule reads_reserve_bind,
        rule reads_bind_nil[OF reads_times[OF entry]], assumption, rule reads_fill)
qed

lemma reads_traits:
  assumes "str_ok cn" and "length names < 2 ^ 25" and "\<And>s. s \<in> set names \<Longrightarrow> str_ok s"
  shows "reads (read_traits (object_header dyn (length names)))
    (write_u29_string cn @ concat (map write_u29_string names))
    \<lparr>td_class_name = cn, td_dynamic = dyn, td_externalizable = False, td_sealed_members = names\<rparr>"
  unfolding read_traits_def
  by (simp only: object_header_facts[OF assms(2)] if_False Let_def simp_thms not_False_eq_True,
      rule reads_bind[OF reads_string[OF assms(1)]],
      rule reads_bind_nil[OF reads_times[OF reads_string[OF assms(3)]]], assumption,
      rule reads_push_bind, rule reads_return)

lemma reads_object:
  assumes cn: "str_ok cn" and len: "length sealed < 2 ^ 25" and sh: "shrinks 0 dec"
    and sealed: "\<And>k v. (k, v) \<in> set sealed \<Longrightarrow> str_ok k \<and> reads dec (amf3_encode v) v"
    and members: "\<And>k v. (k, v) \<in> set members \<Longrightarrow> str_ok k \<and> k \<noteq> [] \<and> reads dec (amf3_encode v) v"
    and nondyn: "\<not> dyn \<Longrightarrow> members = []"
  shows "reads (read_object ext buf dec)
    (write_u29 (object_header dyn (length sealed))
       @ ((write_u29_string cn @ concat (map write_u29_string (map fst sealed)))
       @ (concat (map (\<lambda>(_, v). amf3_encode v) sealed)
       @ (if dyn then concat (map (\<lambda>(k, v). write_u29_string k @ amf3_encode v) members) @ write_u29 1
          else []))))
    (A3Object cn dyn sealed members None)"
proof -
  have len': "length (map fst sealed) < 2 ^ 25" using len by simp
  have names: "s \<in> set (map fst sealed) \<Longrightarrow> str_ok s" for s using sealed by auto
  note facts = object_header_facts[OF len, of dyn]
  have tail: "reads (if dyn then read_members dec else st_return [])
     (if dyn then concat (map (\<lambda>(k, v). write_u29_string k @ amf3_encode v) members) @ write_u29 1
      else []) members"
    using nondyn by (auto intro: reads_members[OF sh members] reads_return)
  have seal: "reads (read_sealed dec (map fst sealed)) (concat (map (\<lambda>(_, v). amf3_encode v) sealed)) sealed"
    by (rule reads_sealed) (use sealed in blast)
  show ?thesis
    unfolding read_object_def
    apply (rule reads_bind[OF reads_u29[OF facts(1)]])
    apply (simp only: facts(2) if_False)
    apply (rule reads_bind)
     apply (rule reads_traits[OF cn len' names, unfolded length_map])
     apply assumption
    apply (simp only: trait_def.simps if_False)
    apply (rule reads_reserve_bind)
    apply (rule reads_bind[OF seal])
    apply (rule reads_bind_nil[OF tail])
    apply (rule reads_fill)
    done
qed


lemma amf3_reads: "amf3_fits d v \<Longrightarrow> reads (amf3_decode ext buf d) (amf3_encode v) v"
proof (induction v arbitrary: d)
  case (A3Integer n)
  then have "reads read_i29 (write_i29 n) n" by (intro i29_roundtrip) auto
  then show ?case
    using A3Integer by (intro reads_decode) (auto intro!: reads_marker reads_bind_nil reads_return)
next
  case (A3Array dense assoc)
  let ?dec = "amf3_decode ext buf (Suc d)"
  have 1: "reads ?dec (amf3_encode v) v" if "v \<in> set dense" for v
    using A3Array.prems that by (intro A3Array.IH(1)) (auto simp: list_all_iff)
  have 2: "str_ok k \<and> k \<noteq> [] \<and> reads ?dec (amf3_encode v) v" if "(k, v) \<in> set assoc" for k v
    using A3Array.prems that A3Array.IH(2)[OF that, of v "Suc d"] by (auto simp: list_all_iff key_ok_def)
  have "length dense < 2 ^ 28" "d < MAX_DECODE_DEPTH" using A3Array.prems by auto
  from reads_array[OF this(1) shrinks_amf3_0 1 2] this(2) show ?case
    by (intro reads_decode) (auto intro!: reads_marker)
next
  case (A3Object cn dyn sealed members body)
  let ?dec = "amf3_decode ext buf (Suc d)"
  have 1: "str_ok k \<and> reads ?dec (amf3_encode v) v" if "(k, v) \<in> set sealed" for k v
    using A3Object.prems that A3Object.IH(1)[OF that, of v "Suc d"] by (auto simp: list_all_iff)
  have 2: "str_ok k \<and> k \<noteq> [] \<and> reads ?dec (amf3_encode v) v" if "(k, v) \<in> set members" for k v
    using A3Object.prems that A3Object.IH(2)[OF that, of v "Suc d"]
    by (auto simp: list_all_iff key_ok_def split: if_splits)
  have 3: "str_ok cn" "length sealed < 2 ^ 25" "d < MAX_DECODE_DEPTH" "body = None"
      "\<not> dyn \<Longrightarrow> members = []"
    using A3Object.prems by (auto split: if_splits)
  have names: "concat (map write_u29_string (map fst sealed)) =
      concat (map (\<lambda>(name, _). write_u29_string name) sealed)"
    by (simp add: comp_def case_prod_unfold)
  note obj = reads_marker(12)[OF reads_object[OF 3(1,2) shrinks_amf3_0 1 2 3(5)],
      where ext = ext and buf = buf, unfolded names append_assoc]
  show ?case
    by (rule reads_decode[OF 3(3)],
        simp only: 3(4) amf3_encode.simps option.case append_assoc, rule obj)
next
  case (A3VectorObject f t items)
  let ?dec = "amf3_decode ext buf (Suc d)"
  have 1: "reads ?dec (amf3_encode v) v" if "v \<in> set items" for v
    using A3VectorObject.prems that by (intro A3VectorObject.IH) (auto simp: list_all_iff)
  have "length items < 2 ^ 28" "str_ok t" "d < MAX_DECODE_DEPTH" using A3VectorObject.prems by auto
  from reads_vector_object[OF this(1,2) 1] this(3) show ?case
    by (intro reads_decode) (auto intro!: reads_marker)
next
  case (A3Dictionary w entries)
  let ?dec = "amf3_decode ext buf (Suc d)"
  have 1: "reads ?dec (amf3_encode k) k \<and> reads ?dec (amf3_encode v) v" if "(k, v) \<in> set entries" for k v
    using A3Dictionary.prems that A3Dictionary.IH(1)[OF that, of k "Suc d"]
      A3Dictionary.IH(2)[OF that, of v "Suc d"]
    by (auto simp: list_all_iff)
  have "length entries < 2 ^ 28" "d < MAX_DECODE_DEPTH" using A3Dictionary.prems by auto
  from reads_dictionary[OF this(1) 1] this(2) show ?case
    by (intro reads_decode) (auto intro!: reads_marker)
qed (auto intro!: reads_decode reads_marker reads_bind_nil reads_return reads_string
    reads_object_string reads_be8 reads_date reads_byte_array reads_vector_int reads_vector_uint
    reads_vector_double)


text \<open>The decoder and the encoder satisfy the contract of a value codec.\<close>

interpretation amf3_codec: value_codec "amf3_decode_value buf" amf3_encode "amf3_fits 0" for buf
  by unfold_locales
    (auto simp: amf3_decode_value_def shrinks_amf3 safe_amf3 amf3_reads shrinks_amf3[simplified])

lemma amf3_encode_head: "\<exists>b bs. amf3_encode v = b # bs \<and> (b = 0x11 \<longleftrightarrow> (\<exists>w es. v = A3Dictionary w es))"
  by (cases v) auto

lemma data_item_switched:
  assumes "amf3_fits 0 v"
  shows "reads (data_item buf) (0x11 # amf3_encode v) v"
proof (rule readsI)
  fix u rest
  obtain u' where "amf3_decode_value buf (u, amf3_encode v @ rest) = (Inr v, (u', rest))"
    using amf3_codec.codec_reads[OF assms] by (rule readsE)
  then show "\<exists>u'. data_item buf (u, (0x11 # amf3_encode v) @ rest) = (Inr v, (u', rest))"
    using amf3_encode_head[of v] by (auto simp: data_item_def st_bind_def)
qed

lemma data_item_bare:
  assumes "amf3_fits 0 v" and "\<nexists>w es. v = A3Dictionary w es"
  shows "reads (data_item buf) (amf3_encode v) v"
proof (rule readsI)
  fix u rest
  obtain u' where "amf3_decode_value buf (u, amf3_encode v @ rest) = (Inr v, (u', rest))"
    using amf3_codec.codec_reads[OF assms(1)] by (rule readsE)
  then show "\<exists>u'. data_item buf (u, amf3_encode v @ rest) = (Inr v, (u', rest))"
    using amf3_encode_head[of v] assms(2) by (auto simp: data_item_def st_bind_def)
qed

lemma shrinks_data_item: "shrinks 1 (data_item buf)"
proof (rule shrinksI)
  fix u bs x u' bs'
  assume run: "data_item buf (u, bs) = (Inr x, (u', bs'))"
  show "length bs' + 1 \<le> length bs"
  proof (cases "bs \<noteq> [] \<and> hd bs = 0x11")
    case True
    then obtain r where bs: "bs = 0x11 # r" by (cases bs) auto
    then have "r \<noteq> []" using run by (auto simp: data_item_def st_bind_def)
    then have "amf3_decode_value buf (u, r) = (Inr x, (u', bs'))"
      using run bs by (simp add: data_item_def st_bind_def)
    then show ?thesis using shrinksD[OF amf3_codec.item_shrinks] bs by fastforce
  next
    case False
    then have "amf3_decode_value buf (u, bs) = (Inr x, (u', bs'))"
      using run by (auto simp: data_item_def st_bind_def split: if_splits)
    then show ?thesis by (rule shrinksD[OF amf3_codec.item_shrinks])
  qed
qed

lemma safe_data_item: "safe (data_item buf)"
  unfolding data_item_def
  by (intro safe_intro amf3_codec.item_safe) simp_all

interpretation data_items: item_parser "data_item buf" for buf
  by unfold_locales (rule shrinks_data_item safe_data_item)+

section \<open>Properties\<close>

text \<open>
  U29 round trip: for every value below 2^29 the reader returns exactly the value the
  writer wrote and stops right after it, and the writer uses one to four bytes, never more
  than the value needs.
\<close>

theorem u29_roundtrip:
  assumes "v < 2 ^ 29"
  shows "\<exists>u'. read_u29 (u, write_u29 v @ rest) = (Inr v, (u', rest))
    \<and> length (write_u29 v) = (if v < 0x80 then 1 else if v < 0x4000 then 2 else if v < 0x200000 then 3 else 4)"
proof -
  obtain u' where "read_u29 (u, write_u29 v @ rest) = (Inr v, (u', rest))"
    using reads_u29[OF assms] by (rule readsE)
  then show ?thesis using mask_29_id[OF assms] by (auto simp: write_u29_def Let_def)
qed

theorem u29_roundtrip_witness:
  "\<exists>u'. read_u29 ((), write_u29 0x1FFFFFFF @ [7]) = (Inr 0x1FFFFFFF, (u', [7]))
    \<and> length (write_u29 0x1FFFFFFF) = 4"
  using u29_roundtrip[where v = "0x1FFFFFFF" and u = "()" and rest = "[7]"] by simp

text \<open>
  C22. AMF3 round trip: a sequence of values of any type that the format can carry (\<open>amf3_fits\<close>: nested fewer
  than 64 levels deep, integers of 29 bits, strings of valid UTF-8 and counts within their length fields, keys of arrays
  and names of dynamic members not empty, objects without an externalizable body) is written by the encoder so that
  \<open>decode_all\<close> returns exactly that sequence.
\<close>

theorem amf3_roundtrip:
  assumes "\<forall>v \<in> set vs. amf3_fits 0 v"
  shows "amf3_decode_all (amf3_encode_all vs) = Inr vs"
  using amf3_codec.all_reads[OF assms, where buf = "amf3_encode_all vs"]
  by (auto simp: amf3_decode_all_def reads_all_def amf3_encode_all_def dest!: spec[of _ empty_tables])

definition sample_amf3 :: amf3_value where
  "sample_amf3 = A3Object [] True [(lit ''a'', A3Integer (- 1))]
     [(lit ''b'', A3Array [A3Dictionary False [(A3Null, A3String (lit ''x''))]] [])] None"

theorem amf3_roundtrip_witness:
  "amf3_decode_all (amf3_encode_all [sample_amf3, A3Double 5]) = Inr [sample_amf3, A3Double 5]"
  by (rule amf3_roundtrip)
    (simp add: sample_amf3_def MAX_DECODE_DEPTH_def str_ok_def key_ok_def lit_def)

definition data_bytes :: "bool \<times> amf3_value \<Rightarrow> u8 list" where
  "data_bytes item = (case item of (switched, v) \<Rightarrow> (if switched then [0x11] else []) @ amf3_encode v)"

text \<open>
  Type-15 and type-17 bodies: each value may be introduced by the \<open>0x11\<close> switch or
  stand bare; every mixture decodes to the values, provided a bare value is not a
  dictionary, whose own marker is \<open>0x11\<close>.
\<close>

theorem data_message_roundtrip:
  assumes "\<forall>(switched, v) \<in> set items. amf3_fits 0 v \<and> (switched \<or> (\<nexists>w es. v = A3Dictionary w es))"
  shows "decode_data_message (concat (map data_bytes items)) = Inr (map snd items)"
proof -
  have "reads_all (while_input (data_item buf)) (concat (map data_bytes items)) (map snd items)" for buf
    using assms
  proof (induction items)
    case Nil
    show ?case by (simp add: reads_all_def data_items.while_unfold)
  next
    case (Cons i items)
    obtain s v where i: "i = (s, v)" by (rule prod.exhaust)
    have r: "reads (data_item buf) (data_bytes i) v"
      using Cons.prems data_item_switched[of v buf] data_item_bare[of v buf]
      by (auto simp: i data_bytes_def)
    have ne: "data_bytes i \<noteq> []" by (rule reads_nonempty[OF shrinks_data_item r])
    have IH: "reads_all (while_input (data_item buf)) (concat (map data_bytes items)) (map snd items)"
      by (rule Cons.IH) (use Cons.prems in auto)
    show ?case
      using reads_all_while_Cons[OF shrinks_data_item r IH] by (simp add: i)
  qed
  from this[of "concat (map data_bytes items)"] show ?thesis
    by (auto simp: decode_data_message_def reads_all_def dest!: spec[of _ empty_tables])
qed

theorem data_message_roundtrip_witness:
  "decode_data_message (concat (map data_bytes [(True, A3Null), (False, sample_amf3)]))
    = Inr [A3Null, sample_amf3]"
  by (subst data_message_roundtrip)
    (simp_all add: sample_amf3_def MAX_DECODE_DEPTH_def str_ok_def key_ok_def lit_def)

end
