(* ===== verification/Amf0.thy ===== *)
theory Amf0
  imports Amf3
begin

text \<open>
  \<open>amf.rs\<close>: the AMF0 decoder with its reference table (\<open>RefTable\<close>, the user state of
  the readers) and the encoder.  The depth is a parameter as in the source.  A value after
  the \<open>avmplus-object-marker\<close> is handed to the AMF3 decoder with fresh tables and bridged
  back by \<open>to_amf0\<close>; \<open>fmt\<close> is its \<open>f64::to_string\<close>.
\<close>

section \<open>The decoder\<close>

type_synonym 'a a0 = "(amf0_value list \<times> u8 list, 'a) st"

definition read_utf8_short :: "('u \<times> u8 list, rstring) st" where
  "read_utf8_short = st_bind (cur_be amf_err 2) (\<lambda>n :: u16. read_utf8_body (unat n))"

definition read_utf8_long :: "('u \<times> u8 list, rstring) st" where
  "read_utf8_long = st_bind (cur_be amf_err 4) (\<lambda>n :: u32. read_utf8_body (unat n))"

text \<open>\<open>let slot = refs.len(); refs.push(placeholder)\<close>, and \<open>refs[slot] = v.clone()\<close>.\<close>

definition ref_slot :: "amf0_value \<Rightarrow> nat a0" where
  "ref_slot placeholder = st_bind st_get_user (\<lambda>refs.
     st_bind (st_put_user (refs @ [placeholder])) (\<lambda>_. st_return (length refs)))"

definition set_ref :: "nat \<Rightarrow> amf0_value \<Rightarrow> amf0_value a0" where
  "set_ref slot v = st_bind st_get_user (\<lambda>refs.
     st_bind (st_put_user (refs[slot := v])) (\<lambda>_. st_return v))"

definition get_ref :: "nat \<Rightarrow> amf0_value a0" where
  "get_ref i = st_bind st_get_user (\<lambda>refs.
     if i < length refs then st_return (refs ! i) else st_throw amf_err)"

definition object_pair :: "amf0_value a0 \<Rightarrow> (rstring \<times> amf0_value) option a0" where
  "object_pair dec = st_bind read_utf8_short (\<lambda>key.
     if key = [] then
       st_bind (cur_u8 amf_err) (\<lambda>end_marker.
         if end_marker = 0x09 then st_return None else st_throw amf_err)
     else st_bind dec (\<lambda>v. st_return (Some (key, v))))"

definition read_object_body :: "amf0_value a0 \<Rightarrow> (rstring \<times> amf0_value) list a0" where
  "read_object_body dec = st_many (object_pair dec)"

text \<open>\<open>crate::amf3::decode(buf, pos)\<close> on the same bytes, then \<open>to_amf0\<close>.\<close>

definition embedded_amf3 :: "(f64 \<Rightarrow> rstring) \<Rightarrow> amf0_value a0" where
  "embedded_amf3 fmt = (\<lambda>(refs, bs).
     case amf3_decode_value bs (empty_tables, bs) of
       (Inl e, (_, bs')) \<Rightarrow> (Inl amf_err, (refs, bs'))
     | (Inr v, (_, bs')) \<Rightarrow> (Inr (to_amf0 fmt v), (refs, bs')))"

definition container :: "amf0_value \<Rightarrow> 'a a0 \<Rightarrow> ('a \<Rightarrow> amf0_value) \<Rightarrow> amf0_value a0" where
  "container placeholder body mk = st_bind (ref_slot placeholder) (\<lambda>slot.
     st_bind body (\<lambda>x. set_ref slot (mk x)))"

definition amf0_inner :: "(f64 \<Rightarrow> rstring) \<Rightarrow> amf0_value a0 \<Rightarrow> amf0_value a0" where
  "amf0_inner fmt dec = st_bind (cur_u8 amf_err) (\<lambda>marker.
     if marker = 0x00 then st_bind (cur_be amf_err 8) (\<lambda>bits. st_return (A0Number bits))
     else if marker = 0x01 then st_bind (cur_u8 amf_err) (\<lambda>b. st_return (A0Boolean (b \<noteq> 0)))
     else if marker = 0x02 then st_bind read_utf8_short (\<lambda>s. st_return (A0String s))
     else if marker = 0x0C then st_bind read_utf8_long (\<lambda>s. st_return (A0String s))
     else if marker = 0x05 then st_return A0Null
     else if marker = 0x06 then st_return A0Undefined
     else if marker = 0x03 then container (A0Object []) (read_object_body dec) A0Object
     else if marker = 0x08 then
       st_bind (cur_be amf_err 4) (\<lambda>count :: u32.
       container (A0EcmaArray []) (read_object_body dec) A0EcmaArray)
     else if marker = 0x0A then
       st_bind (cur_be amf_err 4) (\<lambda>count :: u32.
       container (A0StrictArray []) (st_times (unat count) dec) A0StrictArray)
     else if marker = 0x0B then
       st_bind (cur_be amf_err 8) (\<lambda>bits.
       st_bind (cur_be amf_err 2) (\<lambda>tz. st_return (A0Date bits tz)))
     else if marker = 0x11 then embedded_amf3 fmt
     else if marker = 0x0D then st_return A0Unsupported
     else if marker = 0x0F then st_bind read_utf8_long (\<lambda>s. st_return (A0XmlDocument s))
     else if marker = 0x10 then
       st_bind read_utf8_short (\<lambda>class_name.
       container (A0TypedObject class_name []) (read_object_body dec) (A0TypedObject class_name))
     else if marker = 0x07 then st_bind (cur_be amf_err 2) (\<lambda>i :: u16. get_ref (unat i))
     else st_throw amf_err)"

function decode_at_depth :: "(f64 \<Rightarrow> rstring) \<Rightarrow> nat \<Rightarrow> amf0_value a0" where
  "decode_at_depth fmt depth =
    (if MAX_DECODE_DEPTH \<le> depth then st_throw amf_err
     else amf0_inner fmt (decode_at_depth fmt (Suc depth)))"
  by pat_completeness auto
termination by (relation "measure (\<lambda>(_, d). MAX_DECODE_DEPTH - d)") auto

declare decode_at_depth.simps [simp del]

text \<open>\<open>decode\<close>: one value from a position, with its own table; the rest of the input is left.\<close>

definition amf0_decode :: "(f64 \<Rightarrow> rstring) \<Rightarrow> u8 list \<Rightarrow> amf0_value result \<times> u8 list" where
  "amf0_decode fmt bs = (case decode_at_depth fmt 0 ([], bs) of (r, (_, rest)) \<Rightarrow> (r, rest))"

definition amf0_decode_all :: "(f64 \<Rightarrow> rstring) \<Rightarrow> u8 list \<Rightarrow> amf0_value list result" where
  "amf0_decode_all fmt buf = fst (while_input (decode_at_depth fmt 0) ([], buf))"

text \<open>\<open>amf3::decode_message_to_amf0\<close>: type-15 and type-17 bodies.\<close>

definition decode_message_to_amf0 :: "(f64 \<Rightarrow> rstring) \<Rightarrow> u8 list \<Rightarrow> amf0_value list result" where
  "decode_message_to_amf0 fmt buf =
    (if buf \<noteq> [] \<and> hd buf = 0 then amf0_decode_all fmt (tl buf)
     else res_bind (decode_data_message buf) (\<lambda>vs. Inr (map (to_amf0 fmt) vs)))"

section \<open>The encoder\<close>

definition utf8_short :: "rstring \<Rightarrow> u8 list" where
  "utf8_short s = u16_be (word_of_nat (length s)) @ s"

definition utf8_long :: "rstring \<Rightarrow> u8 list" where
  "utf8_long s = u32_be (word_of_nat (length s)) @ s"

fun amf0_encode :: "amf0_value \<Rightarrow> u8 list" where
  "amf0_encode (A0Number n) = 0x00 # u64_be n"
| "amf0_encode (A0Boolean b) = [0x01, if b then 1 else 0]"
| "amf0_encode (A0String s) =
    (if length s \<le> 65535 then 0x02 # utf8_short s else 0x0C # utf8_long s)"
| "amf0_encode A0Null = [0x05]"
| "amf0_encode A0Undefined = [0x06]"
| "amf0_encode (A0Object ps) =
     0x03 # concat (map (\<lambda>(k, v). utf8_short k @ amf0_encode v) ps) @ [0, 0, 0x09]"
| "amf0_encode (A0EcmaArray ps) =
     0x08 # u32_be (word_of_nat (length ps))
       @ concat (map (\<lambda>(k, v). utf8_short k @ amf0_encode v) ps) @ [0, 0, 0x09]"
| "amf0_encode (A0StrictArray items) =
     0x0A # u32_be (word_of_nat (length items)) @ concat (map (\<lambda>v. amf0_encode v) items)"
| "amf0_encode (A0Date millis tz) = 0x0B # u64_be millis @ u16_be tz"
| "amf0_encode A0Unsupported = [0x0D]"
| "amf0_encode (A0XmlDocument s) = 0x0F # utf8_long s"
| "amf0_encode (A0TypedObject class_name ps) =
     0x10 # utf8_short class_name
       @ concat (map (\<lambda>(k, v). utf8_short k @ amf0_encode v) ps) @ [0, 0, 0x09]"

definition encode_command :: "rstring \<Rightarrow> f64 \<Rightarrow> amf0_value \<Rightarrow> amf0_value list \<Rightarrow> u8 list" where
  "encode_command name transaction_id command_object args =
     amf0_encode (A0String name) @ amf0_encode (A0Number transaction_id)
       @ amf0_encode command_object @ concat (map amf0_encode args)"

section \<open>Progress and safety\<close>

lemma shrinks_utf8_short [shrink_intro]: "shrinks 0 read_utf8_short"
  and shrinks_utf8_long [shrink_intro]: "shrinks 0 read_utf8_long"
  unfolding read_utf8_short_def read_utf8_long_def by (intro shrink_intro)+

lemma shrinks_refs [shrink_intro]:
  "shrinks 0 (ref_slot v)" "shrinks 0 (set_ref n v)" "shrinks 0 (get_ref n)"
  unfolding ref_slot_def set_ref_def get_ref_def by (intro shrink_intro)+

lemma shrinks_container [shrink_intro]: "shrinks 0 body \<Longrightarrow> shrinks 0 (container p body mk)"
  unfolding container_def by (intro shrink_intro)

lemma shrinks_pair: "shrinks 0 dec \<Longrightarrow> shrinks 1 (object_pair dec)"
proof -
  assume dec: "shrinks 0 dec"
  have "shrinks 2 read_utf8_short"
    unfolding read_utf8_short_def by (rule shrinks_bind_first[OF shrinks_be]) (intro shrink_intro)
  then have "shrinks 2 (object_pair dec)"
    unfolding object_pair_def by (rule shrinks_bind_first) (intro shrink_intro dec)
  then show ?thesis by (rule shrinks_mono) simp
qed

lemma steps_pair: "shrinks 0 dec \<Longrightarrow> steps (object_pair dec)"
  using shrinks_pair[of dec] by (fastforce simp: steps_def dest: shrinksD)

lemma shrinks_object_body [shrink_intro]: "shrinks 0 dec \<Longrightarrow> shrinks 0 (read_object_body dec)"
  unfolding read_object_body_def
  by (intro shrink_intro) (rule shrinks_mono[OF shrinks_pair], assumption, simp)

lemma shrinks_embedded [shrink_intro]: "shrinks 0 (embedded_amf3 fmt)"
proof (rule shrinksI)
  fix u bs x u' bs'
  assume "embedded_amf3 fmt (u, bs) = (Inr x, (u', bs'))"
  then obtain v t where "amf3_decode_value bs (empty_tables, bs) = (Inr v, (t, bs'))"
    by (auto simp: embedded_amf3_def split: prod.splits sum.splits)
  then show "length bs' + 0 \<le> length bs"
    using shrinksD[OF amf3_codec.item_shrinks] by fastforce
qed

lemma shrinks_amf0_inner: "shrinks 0 dec \<Longrightarrow> shrinks 1 (amf0_inner fmt dec)"
  unfolding amf0_inner_def
  by (rule shrinks_bind_first[OF shrinks_u8]) (intro shrink_intro; assumption)

lemma shrinks_amf0: "shrinks 1 (decode_at_depth fmt depth)"
proof (induction fmt depth rule: decode_at_depth.induct)
  case (1 fmt depth)
  show ?case
  proof (cases "MAX_DECODE_DEPTH \<le> depth")
    case False
    then have "shrinks 0 (decode_at_depth fmt (Suc depth))"
      by (intro shrinks_mono[OF 1]) simp_all
    with False show ?thesis
      by (subst decode_at_depth.simps) (simp add: shrinks_amf0_inner[simplified])
  qed (subst decode_at_depth.simps, simp add: shrinks_throw)
qed

lemma shrinks_amf0_0 [shrink_intro]: "shrinks 0 (decode_at_depth fmt depth)"
  by (rule shrinks_mono[OF shrinks_amf0]) simp

lemma safe_utf8_short [safe_intro]: "safe read_utf8_short"
  and safe_utf8_long [safe_intro]: "safe read_utf8_long"
  unfolding read_utf8_short_def read_utf8_long_def by (intro safe_intro; simp)+

lemma safe_refs [safe_intro]: "safe (ref_slot v)" "safe (set_ref n v)" "safe (get_ref n)"
  unfolding ref_slot_def set_ref_def get_ref_def by (intro safe_intro; simp)+

lemma safe_container [safe_intro]: "safe body \<Longrightarrow> safe (container p body mk)"
  unfolding container_def by (intro safe_intro)

lemma safe_object_body: "shrinks 0 dec \<Longrightarrow> safe dec \<Longrightarrow> safe (read_object_body dec)"
  unfolding read_object_body_def
  by (rule safe_many[OF steps_pair]) (auto simp: object_pair_def intro!: safe_intro)

lemma safe_embedded [safe_intro]: "safe (embedded_amf3 fmt)"
  by (auto simp: safe_def embedded_amf3_def split: prod.splits sum.splits)

lemma safe_amf0_inner: "shrinks 0 dec \<Longrightarrow> safe dec \<Longrightarrow> safe (amf0_inner fmt dec)"
  unfolding amf0_inner_def by (intro safe_intro safe_object_body; simp)

lemma safe_amf0: "safe (decode_at_depth fmt depth)"
proof (induction fmt depth rule: decode_at_depth.induct)
  case (1 fmt depth)
  show ?case
  proof (cases "MAX_DECODE_DEPTH \<le> depth")
    case False
    with 1 have "safe (amf0_inner fmt (decode_at_depth fmt (Suc depth)))"
      by (intro safe_amf0_inner shrinks_amf0_0) simp_all
    with False show ?thesis by (subst decode_at_depth.simps) simp
  qed (subst decode_at_depth.simps, simp add: safe_throw)
qed

section \<open>Reading back what the encoder wrote\<close>

text \<open>
  The values that survive the wire at a nesting depth: names of one to 65535 bytes, and
  counts and texts below 2^32.
\<close>

definition short_ok :: "rstring \<Rightarrow> bool" where
  "short_ok s \<longleftrightarrow> utf8_valid s \<and> length s < 2 ^ 16"

definition long_ok :: "rstring \<Rightarrow> bool" where
  "long_ok s \<longleftrightarrow> utf8_valid s \<and> length s < 2 ^ 32"

definition name_ok :: "rstring \<Rightarrow> bool" where
  "name_ok s \<longleftrightarrow> short_ok s \<and> s \<noteq> []"

fun amf0_fits :: "nat \<Rightarrow> amf0_value \<Rightarrow> bool" where
  "amf0_fits d (A0String s) \<longleftrightarrow> d < MAX_DECODE_DEPTH \<and> long_ok s"
| "amf0_fits d (A0XmlDocument s) \<longleftrightarrow> d < MAX_DECODE_DEPTH \<and> long_ok s"
| "amf0_fits d (A0Object ps) \<longleftrightarrow> d < MAX_DECODE_DEPTH
     \<and> list_all (\<lambda>(k, v). name_ok k \<and> amf0_fits (Suc d) v) ps"
| "amf0_fits d (A0EcmaArray ps) \<longleftrightarrow> d < MAX_DECODE_DEPTH
     \<and> list_all (\<lambda>(k, v). name_ok k \<and> amf0_fits (Suc d) v) ps"
| "amf0_fits d (A0TypedObject cn ps) \<longleftrightarrow> d < MAX_DECODE_DEPTH \<and> short_ok cn
     \<and> list_all (\<lambda>(k, v). name_ok k \<and> amf0_fits (Suc d) v) ps"
| "amf0_fits d (A0StrictArray items) \<longleftrightarrow> d < MAX_DECODE_DEPTH \<and> length items < 2 ^ 32
     \<and> list_all (\<lambda>v. amf0_fits (Suc d) v) items"
| "amf0_fits d v \<longleftrightarrow> d < MAX_DECODE_DEPTH"

lemma reads_be2: "reads (cur_be e 2 :: ('u \<times> u8 list, u16) st) (u16_be x) x"
proof -
  have "reads (cur_be e 2 :: ('u \<times> u8 list, u16) st) (u16_be x) (of_be (u16_be x))"
    by (rule reads_be) simp
  then show ?thesis by simp
qed

lemma reads_utf8_short: "short_ok s \<Longrightarrow> reads read_utf8_short (utf8_short s) s"
  unfolding read_utf8_short_def utf8_short_def
  by (rule reads_bind[OF reads_be2])
    (simp add: short_ok_def unat_u16_of_nat reads_utf8_body)

lemma reads_utf8_long: "long_ok s \<Longrightarrow> reads read_utf8_long (utf8_long s) s"
  unfolding read_utf8_long_def utf8_long_def
  by (rule reads_bind[OF reads_be4])
    (simp add: long_ok_def unat_u32_of_nat reads_utf8_body)

lemma reads_object_pair:
  assumes "name_ok k" and "reads dec bs v"
  shows "reads (object_pair dec) (utf8_short k @ bs) (Some (k, v))"
proof -
  have k: "short_ok k" "k \<noteq> []" using assms(1) by (simp_all add: name_ok_def)
  show ?thesis
    unfolding object_pair_def
    by (rule reads_bind[OF reads_utf8_short[OF k(1)]])
      (simp only: k(2) if_False, rule reads_bind_nil[OF assms(2)], rule reads_return)
qed

lemma utf8_short_nil: "utf8_short [] = [0, 0]"
  by (simp add: utf8_short_def be_bytes_unfold)

lemma reads_object_end: "reads (object_pair dec) [0, 0, 0x09] None"
proof -
  have "reads (object_pair dec) (utf8_short [] @ [0x09]) None"
    unfolding object_pair_def
    by (rule reads_bind[OF reads_utf8_short])
      (auto simp: short_ok_def intro!: reads_u8_bind reads_return)
  then show ?thesis by (simp add: utf8_short_nil)
qed

lemma reads_object_body:
  assumes "shrinks 0 dec" and "\<And>k v. (k, v) \<in> set ps \<Longrightarrow> name_ok k \<and> reads dec (enc v) v"
  shows "reads (read_object_body dec)
    (concat (map (\<lambda>(k, v). utf8_short k @ enc v) ps) @ [0, 0, 0x09]) ps"
  unfolding read_object_body_def
  by (rule reads_many[OF steps_pair[OF assms(1)] _ reads_object_end])
    (use assms(2) in \<open>auto intro!: reads_object_pair\<close>)

lemma reads_ref_slot_bind:
  "(\<And>slot. reads (f slot) bs x) \<Longrightarrow> reads (st_bind (ref_slot p) f) bs x"
  unfolding ref_slot_def st_bind_assoc
  by (rule reads_get_bind, rule reads_put_bind) simp

lemma reads_set_ref: "reads (set_ref slot v) [] v"
  unfolding set_ref_def by (rule reads_get_bind, rule reads_put_bind, rule reads_return)

lemma reads_container: "reads body bs x \<Longrightarrow> reads (container p body mk) bs (mk x)"
  unfolding container_def
  by (rule reads_ref_slot_bind, rule reads_bind_nil, assumption, rule reads_set_ref)

lemma reads_amf0_marker:
  "reads (st_bind (cur_be amf_err 8) (\<lambda>b. st_return (A0Number b)) :: amf0_value a0) bs v \<Longrightarrow> reads (amf0_inner fmt dec) (0x00 # bs) v"
  "reads (st_bind (cur_u8 amf_err) (\<lambda>b. st_return (A0Boolean (b \<noteq> 0))) :: amf0_value a0) bs v \<Longrightarrow> reads (amf0_inner fmt dec) (0x01 # bs) v"
  "reads (st_bind read_utf8_short (\<lambda>s. st_return (A0String s)) :: amf0_value a0) bs v \<Longrightarrow> reads (amf0_inner fmt dec) (0x02 # bs) v"
  "reads (st_bind read_utf8_long (\<lambda>s. st_return (A0String s)) :: amf0_value a0) bs v \<Longrightarrow> reads (amf0_inner fmt dec) (0x0C # bs) v"
  "reads (amf0_inner fmt dec) (0x05 # []) A0Null"
  "reads (amf0_inner fmt dec) (0x06 # []) A0Undefined"
  "reads (container (A0Object []) (read_object_body dec) A0Object) bs v \<Longrightarrow> reads (amf0_inner fmt dec) (0x03 # bs) v"
  "reads (st_bind (cur_be amf_err 4) (\<lambda>count :: u32.
     container (A0EcmaArray []) (read_object_body dec) A0EcmaArray)) bs v \<Longrightarrow> reads (amf0_inner fmt dec) (0x08 # bs) v"
  "reads (st_bind (cur_be amf_err 4) (\<lambda>count :: u32.
     container (A0StrictArray []) (st_times (unat count) dec) A0StrictArray)) bs v \<Longrightarrow> reads (amf0_inner fmt dec) (0x0A # bs) v"
  "reads (st_bind (cur_be amf_err 8) (\<lambda>bits. st_bind (cur_be amf_err 2) (\<lambda>tz. st_return (A0Date bits tz))) :: amf0_value a0) bs v
    \<Longrightarrow> reads (amf0_inner fmt dec) (0x0B # bs) v"
  "reads (amf0_inner fmt dec) (0x0D # []) A0Unsupported"
  "reads (st_bind read_utf8_long (\<lambda>s. st_return (A0XmlDocument s)) :: amf0_value a0) bs v \<Longrightarrow> reads (amf0_inner fmt dec) (0x0F # bs) v"
  "reads (st_bind read_utf8_short (\<lambda>class_name.
     container (A0TypedObject class_name []) (read_object_body dec) (A0TypedObject class_name))) bs v \<Longrightarrow> reads (amf0_inner fmt dec) (0x10 # bs) v"
  unfolding amf0_inner_def by (rule reads_u8_bind, simp add: reads_return)+

lemma reads_amf0_decode:
  "d < MAX_DECODE_DEPTH \<Longrightarrow> reads (amf0_inner fmt (decode_at_depth fmt (Suc d))) bs v \<Longrightarrow>
   reads (decode_at_depth fmt d) bs v"
  by (subst decode_at_depth.simps) simp

lemma amf0_reads: "amf0_fits d v \<Longrightarrow> reads (decode_at_depth fmt d) (amf0_encode v) v"
proof (induction v arbitrary: d)
  case (A0Boolean b)
  then show ?case
    by (intro reads_amf0_decode)
      (cases b; auto intro!: reads_amf0_marker(2) reads_u8_bind simp: reads_return)+
next
  case (A0String s)
  show ?case
  proof (cases "length s \<le> 65535")
    case True
    then have "short_ok s" using A0String by (auto simp: short_ok_def long_ok_def)
    with True A0String show ?thesis
      by (intro reads_amf0_decode)
        (auto intro!: reads_amf0_marker reads_bind_nil[OF reads_utf8_short] reads_return)
  next
    case False
    with A0String show ?thesis
      by (intro reads_amf0_decode)
        (auto intro!: reads_amf0_marker reads_bind_nil[OF reads_utf8_long] reads_return)
  qed
next
  case (A0Object ps)
  let ?dec = "decode_at_depth fmt (Suc d)"
  have 1: "name_ok k \<and> reads ?dec (amf0_encode v) v" if "(k, v) \<in> set ps" for k v
    using A0Object.prems that A0Object.IH[OF that, of v "Suc d"] by (auto simp: list_all_iff)
  have d: "d < MAX_DECODE_DEPTH" using A0Object.prems by simp
  show ?case
    unfolding amf0_encode.simps
    by (rule reads_amf0_decode[OF d], rule reads_amf0_marker, rule reads_container,
        rule reads_object_body[OF shrinks_amf0_0 1], assumption)
next
  case (A0EcmaArray ps)
  let ?dec = "decode_at_depth fmt (Suc d)"
  have 1: "name_ok k \<and> reads ?dec (amf0_encode v) v" if "(k, v) \<in> set ps" for k v
    using A0EcmaArray.prems that A0EcmaArray.IH[OF that, of v "Suc d"] by (auto simp: list_all_iff)
  have d: "d < MAX_DECODE_DEPTH" using A0EcmaArray.prems by simp
  show ?case
    unfolding amf0_encode.simps
    by (rule reads_amf0_decode[OF d], rule reads_amf0_marker, rule reads_bind[OF reads_be4],
        rule reads_container, rule reads_object_body[OF shrinks_amf0_0 1], assumption)
next
  case (A0TypedObject cn ps)
  let ?dec = "decode_at_depth fmt (Suc d)"
  have 1: "name_ok k \<and> reads ?dec (amf0_encode v) v" if "(k, v) \<in> set ps" for k v
    using A0TypedObject.prems that A0TypedObject.IH[OF that, of v "Suc d"] by (auto simp: list_all_iff)
  have d: "d < MAX_DECODE_DEPTH" and cn: "short_ok cn" using A0TypedObject.prems by simp_all
  show ?case
    unfolding amf0_encode.simps
    by (rule reads_amf0_decode[OF d], rule reads_amf0_marker, rule reads_bind[OF reads_utf8_short[OF cn]],
        rule reads_container, rule reads_object_body[OF shrinks_amf0_0 1], assumption)
next
  case (A0StrictArray items)
  let ?dec = "decode_at_depth fmt (Suc d)"
  have 1: "reads ?dec (amf0_encode v) v" if "v \<in> set items" for v
    using A0StrictArray.prems that by (intro A0StrictArray.IH) (auto simp: list_all_iff)
  have d: "d < MAX_DECODE_DEPTH" and n: "length items < 2 ^ 32" using A0StrictArray.prems by simp_all
  show ?case
    unfolding amf0_encode.simps
    by (rule reads_amf0_decode[OF d], rule reads_amf0_marker, rule reads_bind[OF reads_be4],
        unfold unat_u32_of_nat[OF n], rule reads_container, rule reads_times, rule 1, assumption)
qed (auto intro!: reads_amf0_decode reads_amf0_marker reads_bind_nil[OF reads_be8]
    reads_bind[OF reads_be8] reads_bind_nil[OF reads_be2] reads_bind_nil[OF reads_utf8_long] reads_return)

interpretation amf0_codec: value_codec "decode_at_depth fmt 0" amf0_encode "amf0_fits 0" for fmt
  by unfold_locales (simp_all add: shrinks_amf0[simplified] safe_amf0 amf0_reads)

lemma amf0_decode_all_encode:
  "\<forall>v \<in> set vs. amf0_fits 0 v \<Longrightarrow> amf0_decode_all fmt (concat (map amf0_encode vs)) = Inr vs"
  using amf0_codec.all_reads[of vs fmt]
  by (auto simp: amf0_decode_all_def reads_all_def dest!: spec[of _ "[]"])

section \<open>Mixed packets\<close>

lemma amf0_encode_nonempty: "amf0_encode v \<noteq> []"
  by (cases v) auto

text \<open>A packet of AMF0 values and switched AMF3 values.\<close>

definition mixed_bytes :: "amf0_value + amf3_value \<Rightarrow> u8 list" where
  "mixed_bytes i = (case i of Inl v \<Rightarrow> amf0_encode v | Inr v \<Rightarrow> 0x11 # amf3_encode v)"

definition mixed_value :: "(f64 \<Rightarrow> rstring) \<Rightarrow> amf0_value + amf3_value \<Rightarrow> amf0_value" where
  "mixed_value fmt i = (case i of Inl v \<Rightarrow> v | Inr v \<Rightarrow> to_amf0 fmt v)"

definition mixed_ok :: "amf0_value + amf3_value \<Rightarrow> bool" where
  "mixed_ok i = (case i of Inl v \<Rightarrow> amf0_fits 0 v | Inr v \<Rightarrow> amf3_fits 0 v)"

lemma reads_embedded:
  assumes "amf3_fits 0 v"
  shows "reads (decode_at_depth fmt 0) (0x11 # amf3_encode v) (to_amf0 fmt v)"
proof (rule reads_amf0_decode)
  have "reads (embedded_amf3 fmt) (amf3_encode v) (to_amf0 fmt v)"
  proof (rule readsI)
    fix u rest
    obtain t where "amf3_decode_value (amf3_encode v @ rest) (empty_tables, amf3_encode v @ rest)
        = (Inr v, (t, rest))"
      using amf3_codec.codec_reads[OF assms] by (rule readsE)
    then show "\<exists>u'. embedded_amf3 fmt (u, amf3_encode v @ rest) = (Inr (to_amf0 fmt v), (u', rest))"
      by (simp add: embedded_amf3_def)
  qed
  then show "reads (amf0_inner fmt (decode_at_depth fmt (Suc 0))) (0x11 # amf3_encode v) (to_amf0 fmt v)"
    unfolding amf0_inner_def by (intro reads_u8_bind) simp
qed (simp add: MAX_DECODE_DEPTH_def)

lemma reads_mixed: "mixed_ok i \<Longrightarrow> reads (decode_at_depth fmt 0) (mixed_bytes i) (mixed_value fmt i)"
  by (auto simp: mixed_ok_def mixed_bytes_def mixed_value_def amf0_codec.codec_reads reads_embedded
      split: sum.splits)

lemma reads_all_mixed:
  "\<forall>i \<in> set items. mixed_ok i \<Longrightarrow>
   reads_all (while_input (decode_at_depth fmt 0)) (concat (map mixed_bytes items)) (map (mixed_value fmt) items)"
proof (induction items)
  case Nil
  show ?case by (simp add: reads_all_def amf0_codec.while_unfold)
next
  case (Cons i items)
  then show ?case
    using reads_all_while_Cons[OF amf0_codec.item_shrinks reads_mixed[of i fmt]] by simp
qed

lemma decode_all_mixed:
  "\<forall>i \<in> set items. mixed_ok i \<Longrightarrow>
   amf0_decode_all fmt (concat (map mixed_bytes items)) = Inr (map (mixed_value fmt) items)"
  using reads_all_mixed[of items fmt]
  by (auto simp: amf0_decode_all_def reads_all_def dest!: spec[of _ "[]"])

section \<open>An empty member name\<close>

text \<open>
  The encoder writes an empty member name as it is; its two zero bytes are how the end of an object begins, so the
  decoder refuses what comes after them.
\<close>

lemma amf0_encode_first: "\<exists>m bs. amf0_encode v = m # bs \<and> m \<noteq> 0x09"
  by (cases v) auto

lemma empty_name_pair: "\<exists>s. object_pair dec (refs, [0, 0] @ amf0_encode v @ rest) = (Inl amf_err, s)"
proof -
  obtain m bs where m: "amf0_encode v = m # bs" "m \<noteq> 0x09" using amf0_encode_first by blast
  have "read_utf8_short (refs, utf8_short [] @ x) = (Inr [], (refs, x))" for x
    by (simp add: read_utf8_short_def utf8_short_def read_utf8_body_def st_run st_bind_def)
  then show ?thesis
    using m(2) by (simp add: object_pair_def st_bind_def m(1) st_run flip: utf8_short_nil)
qed

lemma empty_name_body: "\<exists>s. read_object_body dec (refs, [0, 0] @ amf0_encode v @ rest) = (Inl amf_err, s)"
proof -
  obtain s where "object_pair dec (refs, [0, 0] @ amf0_encode v @ rest) = (Inl amf_err, s)"
    using empty_name_pair by blast
  then show ?thesis by (simp add: read_object_body_def st_many_def st_bind_def)
qed

lemma empty_name_refused:
  "amf0_decode_all fmt (amf0_encode (A0Object (([], v) # ps))) = Inl amf_err"
proof -
  define X where "X = concat (map (\<lambda>(k, v). utf8_short k @ amf0_encode v) ps) @ [0, 0, 0x09]"
  define dec where "dec = decode_at_depth fmt (Suc 0)"
  obtain s where s: "read_object_body dec ([A0Object []], [0, 0] @ amf0_encode v @ X) = (Inl amf_err, s)"
    using empty_name_body[of dec "[A0Object []]" v X] by blast
  have "decode_at_depth fmt 0 ([], 0x03 # [0, 0] @ amf0_encode v @ X) = (Inl amf_err, s)"
    by (subst decode_at_depth.simps)
      (use s in \<open>simp add: MAX_DECODE_DEPTH_def amf0_inner_def container_def ref_slot_def st_bind_def st_run dec_def\<close>)
  moreover have "amf0_encode (A0Object (([], v) # ps)) = 0x03 # [0, 0] @ amf0_encode v @ X"
    by (simp add: X_def utf8_short_nil)
  ultimately show ?thesis
    by (simp add: amf0_decode_all_def while_input_def st_many_def more_input_def st_bind_def st_run)
qed

section \<open>Properties\<close>

text \<open>
  C21. AMF0 round trip over mixed packets, for the values the two wire formats can carry: a sequence of such values,
  each written by the AMF0 encoder or, after the \<open>0x11\<close> switch, by the AMF3 encoder, decodes to exactly the
  AMF0 values, the AMF3 ones bridged by \<open>to_amf0\<close>.  What the formats can carry (\<open>amf0_fits\<close>,
  \<open>amf3_fits\<close>): values nested fewer than 64 levels deep; strings and names of valid UTF-8 within the length field
  they are written with, member names of objects and keys of AMF3 arrays and dynamic members not empty; element counts
  within their fields; AMF3 integers of 29 bits, and AMF3 objects without an externalizable body.  The condition on
  names is needed: an object whose first member has the empty name is written, and refused by the decoder.
\<close>

theorem amf0_roundtrip:
  assumes "\<forall>i \<in> set items. mixed_ok i"
  shows "amf0_decode_all fmt (concat (map mixed_bytes items)) = Inr (map (mixed_value fmt) items)
    \<and> amf0_decode_all fmt (amf0_encode (A0Object (([], v) # ps))) = Inl amf_err"
  by (intro conjI decode_all_mixed[OF assms] empty_name_refused)

definition sample_amf0 :: amf0_value where
  "sample_amf0 = A0Object [(lit ''app'', A0String (lit ''live'')),
     (lit ''list'', A0StrictArray [A0Null, A0Date 0 0xFFFF])]"

lemma sample_amf0_ok: "amf0_fits 0 sample_amf0" "amf3_fits 0 sample_amf3"
  by (simp_all add: sample_amf0_def sample_amf3_def MAX_DECODE_DEPTH_def name_ok_def short_ok_def
      long_ok_def str_ok_def key_ok_def lit_def)

theorem amf0_roundtrip_witness:
  "amf0_decode_all (\<lambda>_. []) (concat (map mixed_bytes [Inl sample_amf0, Inr sample_amf3]))
    = Inr (map (mixed_value (\<lambda>_. [])) [Inl sample_amf0, Inr sample_amf3])"
  by (rule amf0_roundtrip[THEN conjunct1]) (simp add: mixed_ok_def sample_amf0_ok)

lemma safe_run: "safe p \<Longrightarrow> fst (p s) \<notin> {Inl Panic, Inl OutOfFuel}"
  by (simp add: safe_def)

lemma decode_all_safe: "amf0_decode_all fmt b \<notin> {Inl Panic, Inl OutOfFuel}"
  unfolding amf0_decode_all_def by (rule safe_run[OF amf0_codec.while_safe])

lemma decode_data_safe: "decode_data_message b \<notin> {Inl Panic, Inl OutOfFuel}"
  unfolding decode_data_message_def by (rule safe_run[OF data_items.while_safe])

lemma decode_to_amf0_safe: "decode_message_to_amf0 fmt b \<notin> {Inl Panic, Inl OutOfFuel}"
  using decode_all_safe[of fmt "tl b"] decode_data_safe[of b]
  by (auto simp: decode_message_to_amf0_def res_bind_eq_Inl)

text \<open>
  C23. Both AMF decoders are total on untrusted input: on every byte string \<open>decode_all\<close>
  (AMF0), \<open>decode_all\<close> and \<open>decode_data_message\<close> (AMF3) and \<open>decode_message_to_amf0\<close>
  return values or an error of the crate; they do not panic, and no loop outlasts the input.
\<close>

theorem amf_decoders_total:
  "amf0_decode_all fmt buf \<notin> {Inl Panic, Inl OutOfFuel}
   \<and> amf3_decode_all buf \<notin> {Inl Panic, Inl OutOfFuel}
   \<and> decode_data_message buf \<notin> {Inl Panic, Inl OutOfFuel}
   \<and> decode_message_to_amf0 fmt buf \<notin> {Inl Panic, Inl OutOfFuel}"
proof -
  have "amf3_decode_all buf \<notin> {Inl Panic, Inl OutOfFuel}"
    unfolding amf3_decode_all_def by (rule safe_run[OF amf3_codec.while_safe])
  with decode_all_safe decode_data_safe decode_to_amf0_safe show ?thesis by blast
qed

primrec nested :: "nat \<Rightarrow> amf0_value" where
  "nested 0 = A0Null"
| "nested (Suc n) = A0StrictArray [nested n]"

lemma u32_be_1: "u32_be (word_of_nat 1) = [0, 0, 0, 1]"
  by (simp add: be_bytes_unfold)

lemma strict_array_1_run:
  "d < MAX_DECODE_DEPTH \<Longrightarrow>
   decode_at_depth fmt d (refs, 0x0A # [0, 0, 0, 1] @ bs) =
   (case decode_at_depth fmt (Suc d) (refs @ [A0StrictArray []], bs) of
      (Inl e, s) \<Rightarrow> (Inl e, s)
    | (Inr v, s) \<Rightarrow> set_ref (length refs) (A0StrictArray [v]) s)"
proof -
  assume d: "d < MAX_DECODE_DEPTH"
  have "cur_be amf_err 4 (refs, [0, 0, 0, 1] @ bs) = (Inr (of_be [0, 0, 0, 1] :: u32), (refs, bs))"
    by (rule cur_be_run) simp
  moreover have "of_be [0, 0, 0, 1] = (1 :: u32)" by (simp add: of_be_def)
  ultimately show ?thesis
    using d by (subst decode_at_depth.simps)
      (auto simp: amf0_inner_def st_bind_def container_def ref_slot_def
        split: prod.split sum.split)
qed

text \<open>
  The depth guard: an AMF0 value nested 64 levels or deeper inside arrays, whatever the
  bytes after it, is refused; 63 levels are decoded.
\<close>

theorem amf0_depth_guard:
  "amf0_decode_all fmt (amf0_encode (nested (64 + n)) @ rest) = Inl InvalidAmf0
   \<and> amf0_decode_all fmt (amf0_encode (nested 63)) = Inr [nested 63]"
proof
  have "fst (decode_at_depth fmt d (refs, amf0_encode (nested k) @ bs)) = Inl amf_err"
    if "MAX_DECODE_DEPTH \<le> d + k" for d k refs bs
    using that
  proof (induction k arbitrary: d refs)
    case 0
    then show ?case by (subst decode_at_depth.simps) (simp add: st_run)
  next
    case (Suc k)
    show ?case
    proof (cases "d < MAX_DECODE_DEPTH")
      case True
      have "fst (decode_at_depth fmt (Suc d) (r, amf0_encode (nested k) @ bs)) = Inl amf_err" for r
        by (rule Suc.IH) (use Suc.prems in simp)
      from this[of "refs @ [A0StrictArray []]"] show ?thesis
        using strict_array_1_run[OF True, of fmt refs "amf0_encode (nested k) @ bs"]
        by (auto simp: u32_be_1[simplified] split: prod.splits sum.splits)
    qed (subst decode_at_depth.simps, simp add: st_run)
  qed
  from this[of 0 "64 + n" "[]" rest]
  have "fst (decode_at_depth fmt 0 ([], amf0_encode (nested (64 + n)) @ rest)) = Inl amf_err"
    by (simp add: MAX_DECODE_DEPTH_def)
  moreover have "amf0_encode (nested (64 + n)) \<noteq> []" by (rule amf0_encode_nonempty)
  ultimately show "amf0_decode_all fmt (amf0_encode (nested (64 + n)) @ rest) = Inl InvalidAmf0"
    unfolding amf0_decode_all_def
    by (subst amf0_codec.while_unfold) (auto simp: st_bind_def split: prod.splits sum.splits)
  have "amf0_fits d (nested k)" if "d + k < MAX_DECODE_DEPTH" for d k
    using that by (induction k arbitrary: d) auto
  from this[of 0 63] have "amf0_fits 0 (nested 63)" by (simp add: MAX_DECODE_DEPTH_def del: nested.simps)
  then show "amf0_decode_all fmt (amf0_encode (nested 63)) = Inr [nested 63]"
    using amf0_decode_all_encode[of "[nested 63]"] by simp
qed


lemma amf0_encode_head: "\<exists>b bs. amf0_encode v = b # bs \<and> b \<noteq> 0x09"
  by (cases v) auto

text \<open>
  An object with an empty member name cannot be decoded: the encoder writes the empty
  name as it is, the decoder takes it for the terminator and finds no object-end marker.
\<close>

theorem empty_name_not_decodable:
  "amf0_decode_all fmt (amf0_encode (A0Object (([], v) # ps))) = Inl InvalidAmf0"
proof -
  obtain b bs where v: "amf0_encode v = b # bs" "b \<noteq> 0x09" using amf0_encode_head by blast
  have len: "cur_be amf_err 2 (u, 0 # 0 # r) = (Inr (0 :: u16), (u, r))" for u :: "amf0_value list" and r
    using cur_be_run[of "[0, 0]" 2 amf_err u r] by (simp add: of_be_def)
  have key: "read_utf8_short (u, 0 # 0 # r) = (Inr [], (u, r))" for u :: "amf0_value list" and r
    by (simp add: read_utf8_short_def st_bind_def len read_utf8_body_def)
  have shrink: "shrinks 0 (decode_at_depth fmt (Suc 0))" by (rule shrinks_amf0_0)
  have body: "read_object_body (decode_at_depth fmt (Suc 0)) (u, 0 # 0 # b # r) = (Inl amf_err, (u, r))" for u r
    unfolding read_object_body_def
    by (subst st_many_unfold[OF steps_pair[OF shrink]])
      (simp add: object_pair_def st_bind_def key v)
  have "fst (decode_at_depth fmt 0 ([], amf0_encode (A0Object (([], v) # ps)))) = Inl amf_err"
    unfolding amf0_encode.simps
    by (subst decode_at_depth.simps)
      (simp add: MAX_DECODE_DEPTH_def amf0_inner_def st_bind_def container_def ref_slot_def
        utf8_short_nil body v)
  then show ?thesis
    unfolding amf0_decode_all_def
    by (subst amf0_codec.while_unfold) (auto simp: st_bind_def split: prod.splits sum.splits)
qed

definition bomb_item :: "nat \<Rightarrow> u8 list" where
  "bomb_item k = (case k of 0 \<Rightarrow> 0x0A # [0, 0, 0, 0]
     | Suc j \<Rightarrow> 0x0A # [0, 0, 0, 2] @ (0x07 # u16_be (word_of_nat j)) @ (0x07 # u16_be (word_of_nat j)))"

primrec bomb_value :: "nat \<Rightarrow> amf0_value" where
  "bomb_value 0 = A0StrictArray []"
| "bomb_value (Suc k) = A0StrictArray [bomb_value k, bomb_value k]"

fun array_depth :: "amf0_value \<Rightarrow> nat" where
  "array_depth (A0StrictArray items) = Suc (fold max (map (\<lambda>v. array_depth v) items) 0)"
| "array_depth _ = 0"

fun array_count :: "amf0_value \<Rightarrow> nat" where
  "array_count (A0StrictArray items) = Suc (sum_list (map (\<lambda>v. array_count v) items))"
| "array_count _ = 0"

lemma bomb_measures: "array_depth (bomb_value n) = n + 1" "array_count (bomb_value n) = 2 ^ (n + 1) - 1"
proof -
  show "array_depth (bomb_value n) = n + 1" by (induction n) auto
  have "array_count (bomb_value n) + 1 = 2 ^ (n + 1)" by (induction n) auto
  then show "array_count (bomb_value n) = 2 ^ (n + 1) - 1" by simp
qed

lemma read_reference:
  assumes "j < length refs" and "j < 65536" and "d < MAX_DECODE_DEPTH"
  shows "decode_at_depth fmt d (refs, (0x07 # u16_be (word_of_nat j)) @ rest) = (Inr (refs ! j), (refs, rest))"
proof -
  have "cur_be amf_err 2 (refs, u16_be (word_of_nat j) @ rest) =
      (Inr (of_be (u16_be (word_of_nat j))), (refs, rest))"
    by (rule cur_be_run) simp
  then show ?thesis
    using assms
    by (subst decode_at_depth.simps)
      (simp add: amf0_inner_def st_bind_def get_ref_def unat_u16_of_nat)
qed

lemma bomb_step:
  assumes "k < 65536"
  shows "decode_at_depth fmt 0 (map bomb_value [0..<k], bomb_item k @ rest) =
    (Inr (bomb_value k), (map bomb_value [0..<Suc k], rest))"
proof -
  let ?refs = "map bomb_value [0..<k]"
  have be: "cur_be amf_err 4 (?refs, [0, 0, 0, n] @ r) = (Inr (of_be [0, 0, 0, n] :: u32), (?refs, r))" for n r
    by (rule cur_be_run) simp
  have lits: "of_be [0, 0, 0, 0] = (0 :: u32)" "of_be [0, 0, 0, 2] = (2 :: u32)"
    by (simp_all add: of_be_def)
  have one: "1 < MAX_DECODE_DEPTH" by (simp add: MAX_DECODE_DEPTH_def)
  show ?thesis
  proof (cases k)
    case 0
    then show ?thesis
      using be[of 0 rest] by (subst decode_at_depth.simps)
        (simp add: MAX_DECODE_DEPTH_def bomb_item_def amf0_inner_def st_bind_def lits container_def
          ref_slot_def set_ref_def)
  next
    case (Suc j)
    let ?p = "?refs @ [A0StrictArray []]"
    have look: "?p ! j = bomb_value j" "j < length ?p" "j < 65536"
      using Suc assms by (simp_all add: nth_append del: upt_Suc)
    have ref: "decode_at_depth fmt (Suc 0) (?p, 0x07 # u16_be (word_of_nat j) @ r) = (Inr (bomb_value j), (?p, r))" for r
      using read_reference[OF look(2,3), of "Suc 0" fmt r] one look(1) by simp
    have two: "st_times 2 (decode_at_depth fmt (Suc 0))
        (?p, 0x07 # u16_be (word_of_nat j) @ 0x07 # u16_be (word_of_nat j) @ rest) =
        (Inr [bomb_value j, bomb_value j], (?p, rest))"
    proof -
      have "st_times 2 p = st_bind p (\<lambda>x. st_bind (st_bind p (\<lambda>y. st_return [y])) (\<lambda>xs. st_return (x # xs)))"
        for p :: "amf0_value a0"
        by (simp add: numeral_2_eq_2)
      then show ?thesis using ref by (simp add: st_bind_def)
    qed
    have upd: "?p[k := bomb_value k] = map bomb_value [0..<Suc k]" by (simp add: list_update_append)
    show ?thesis
      using be[of 2] two upd Suc
      by (subst decode_at_depth.simps)
        (simp add: MAX_DECODE_DEPTH_def bomb_item_def amf0_inner_def st_bind_def lits container_def
          ref_slot_def set_ref_def del: upt_Suc)
  qed
qed

lemma bomb_run:
  "k + m \<le> 65536 \<Longrightarrow>
   while_input (decode_at_depth fmt 0) (map bomb_value [0..<k], concat (map bomb_item [k..<k + m])) =
   (Inr (map bomb_value [k..<k + m]), (map bomb_value [0..<k + m], []))"
proof (induction m arbitrary: k)
  case 0
  then show ?case by (simp add: amf0_codec.while_unfold)
next
  case (Suc m)
  have "k < 65536" using Suc.prems by simp
  note step = bomb_step[OF this, of fmt "concat (map bomb_item [Suc k..<Suc (k + m)])"]
  have upt: "[k..<k + Suc m] = k # [Suc k..<Suc k + m]" by (simp add: upt_rec)
  have ne: "bomb_item k \<noteq> []" by (simp add: bomb_item_def split: nat.split)
  have "while_input (decode_at_depth fmt 0)
      (map bomb_value [0..<Suc k], concat (map bomb_item [Suc k..<Suc k + m])) =
      (Inr (map bomb_value [Suc k..<Suc k + m]), (map bomb_value [0..<Suc k + m], []))"
    by (rule Suc.IH) (use Suc.prems in simp)
  then show ?case
    unfolding upt using ne
    by (subst amf0_codec.while_unfold) (simp add: st_bind_def step del: upt_Suc)
qed

text \<open>
  C24. The depth guard does not bound what references build: 11n + 5 bytes decode to a value
  nested n + 1 deep, with 2^(n+1) - 1 arrays in it, for every n below 65536 (marker 0x07
  clones the referenced value).
\<close>

theorem amf0_reference_bomb:
  assumes "n < 65536"
  shows "\<exists>vs. amf0_decode_all fmt (concat (map bomb_item [0..<Suc n])) = Inr vs
    \<and> array_depth (last vs) = n + 1 \<and> array_count (last vs) = 2 ^ (n + 1) - 1
    \<and> length (concat (map bomb_item [0..<Suc n])) = 11 * n + 5"
proof -
  have len: "length (concat (map bomb_item [0..<Suc n])) = 11 * n + 5"
    by (induction n) (auto simp: bomb_item_def)
  have "amf0_decode_all fmt (concat (map bomb_item [0..<Suc n])) = Inr (map bomb_value [0..<Suc n])"
    using bomb_run[of 0 "Suc n" fmt] assms by (simp add: amf0_decode_all_def del: upt_Suc)
  then show ?thesis using len by (auto simp: bomb_measures last_map)
qed

theorem amf0_reference_bomb_witness:
  "\<exists>vs. amf0_decode_all (\<lambda>_. []) (concat (map bomb_item [0..<Suc 100])) = Inr vs
    \<and> array_depth (last vs) = 100 + 1 \<and> array_count (last vs) = 2 ^ (100 + 1) - 1
    \<and> length (concat (map bomb_item [0..<Suc 100])) = 11 * 100 + 5"
  by (rule amf0_reference_bomb) simp

end
