(* ===== verification/Caps.thy ===== *)
theory Caps
  imports Amf0
begin

text \<open>
  \<open>caps.rs\<close>: the capability properties of the \<open>connect\<close> command.  \<open>fourcc_info_map\<close> is
  \<open>FourCcInfoMap\<close> (an association list in insertion order), \<open>connect_capabilities\<close> is
  \<open>ConnectCapabilities\<close>; \<open>encode_into\<close> appends the non-default fields to a pair list and
  \<open>caps_from_amf0\<close> reads any subset of them back.  The locale \<open>keyed_table\<close> is what the
  readers rely on of \<open>insert\<close> and \<open>get\<close>.
\<close>

section \<open>Lossy UTF-8\<close>

text \<open>
  \<open>String::from_utf8_lossy\<close>: every maximal ill-formed piece becomes U+FFFD.
\<close>

definition utf8_replacement :: rstring where
  "utf8_replacement = [0xEF, 0xBF, 0xBD]"

fun utf8_lossy :: "u8 list \<Rightarrow> rstring" where
  "utf8_lossy [] = []"
| "utf8_lossy (a # bs) =
     (if a < 0x80 then a # utf8_lossy bs
      else if 0xC2 \<le> a \<and> a \<le> 0xDF then
        (case bs of [] \<Rightarrow> utf8_replacement
         | b # r \<Rightarrow> if is_cont b then a # b # utf8_lossy r else utf8_replacement @ utf8_lossy bs)
      else if 0xE0 \<le> a \<and> a \<le> 0xEF then
        (case bs of [] \<Rightarrow> utf8_replacement
         | b # r \<Rightarrow>
            if utf8_second3 a b then
              (case r of [] \<Rightarrow> utf8_replacement
               | c # r' \<Rightarrow> if is_cont c then a # b # c # utf8_lossy r'
                   else utf8_replacement @ utf8_lossy r)
            else utf8_replacement @ utf8_lossy bs)
      else if 0xF0 \<le> a \<and> a \<le> 0xF4 then
        (case bs of [] \<Rightarrow> utf8_replacement
         | b # r \<Rightarrow>
            if utf8_second4 a b then
              (case r of [] \<Rightarrow> utf8_replacement
               | c # r' \<Rightarrow>
                  if is_cont c then
                    (case r' of [] \<Rightarrow> utf8_replacement
                     | d # r'' \<Rightarrow> if is_cont d then a # b # c # d # utf8_lossy r''
                         else utf8_replacement @ utf8_lossy r')
                  else utf8_replacement @ utf8_lossy r)
            else utf8_replacement @ utf8_lossy bs)
      else utf8_replacement @ utf8_lossy bs)"

text \<open>One step of each, so that the simplifier does not unfold the rest of the input.\<close>

lemmas utf8_step = utf8_lossy.simps(2)
lemmas utf8_valid_step = utf8_valid.simps(2)

lemma utf8_lossy_valid_id: "utf8_valid bs \<Longrightarrow> utf8_lossy bs = bs"
proof (induction bs rule: length_induct)
  case (1 xs)
  show ?case
  proof (cases xs)
    case (Cons a bs)
    have IH: "utf8_lossy ys = ys" if "utf8_valid ys" "length ys \<le> length bs" for ys
      using 1 that Cons by simp
    have "utf8_valid (a # bs)" using 1 Cons by simp
    then show ?thesis
      unfolding Cons utf8_step
      by (subst (asm) utf8_valid_step)
        (auto simp: IH simp del: utf8_lossy.simps utf8_valid.simps split: if_splits list.splits)
  qed simp
qed

lemma utf8_valid_replacement: "utf8_valid (utf8_replacement @ bs) = utf8_valid bs"
  by (simp add: utf8_replacement_def utf8_second3_def is_cont_def)

lemma utf8_lossy_valid: "utf8_valid (utf8_lossy bs)"
proof (induction bs rule: length_induct)
  case (1 xs)
  show ?case
  proof (cases xs)
    case (Cons a bs)
    have IH: "utf8_valid (utf8_lossy ys)" if "length ys \<le> length bs" for ys
      using 1 that Cons by simp
    have r: "utf8_valid utf8_replacement" using utf8_valid_replacement[of "[]"] by simp
    have parts: "a < 0x80 \<Longrightarrow> utf8_valid (a # ys) = utf8_valid ys"
      "\<not> a < 0x80 \<Longrightarrow> 0xC2 \<le> a \<Longrightarrow> a \<le> 0xDF \<Longrightarrow> utf8_valid (a # b # ys) = (is_cont b \<and> utf8_valid ys)"
      "\<not> a < 0x80 \<Longrightarrow> 0xE0 \<le> a \<Longrightarrow> a \<le> 0xEF \<Longrightarrow> utf8_valid (a # b # c # ys)
        = (utf8_second3 a b \<and> is_cont c \<and> utf8_valid ys)"
      "\<not> a < 0x80 \<Longrightarrow> 0xF0 \<le> a \<Longrightarrow> a \<le> 0xF4 \<Longrightarrow> utf8_valid (a # b # c # d # ys)
        = (utf8_second4 a b \<and> is_cont c \<and> is_cont d \<and> utf8_valid ys)" for b c d ys
      unfolding utf8_valid_step by (auto simp: word_le_nat_alt word_less_nat_alt)
    show ?thesis
      unfolding Cons utf8_step
      by (auto simp: IH r utf8_valid_replacement parts
          simp del: utf8_lossy.simps utf8_valid.simps(2) split: list.splits)
  qed simp
qed

section \<open>Keyed tables\<close>

locale keyed_table =
  fixes get :: "'t \<Rightarrow> 'k \<Rightarrow> 'v option" and put :: "'k \<Rightarrow> 'v \<Rightarrow> 't \<Rightarrow> 't"
  assumes get_put: "get (put k v t) k' = (if k' = k then Some v else get t k')"
begin

text \<open>A sequence of insertions: the last one for a key decides.\<close>

lemma get_puts:
  "get (fold (\<lambda>(k, v). put k v) kvs t) k = (case map_of (rev kvs) k of Some v \<Rightarrow> Some v | None \<Rightarrow> get t k)"
  by (induction kvs arbitrary: t)
    (auto simp: get_put map_add_def map_of_append split: option.split)

lemma get_put_same: "get (put k v t) k = Some v"
  by (simp add: get_put)

end

section \<open>FourCcInfoMap\<close>

definition FOURCC_INFO_CAN_DECODE :: u32 where "FOURCC_INFO_CAN_DECODE = 0x01"
definition FOURCC_INFO_CAN_ENCODE :: u32 where "FOURCC_INFO_CAN_ENCODE = 0x02"
definition FOURCC_INFO_CAN_FORWARD :: u32 where "FOURCC_INFO_CAN_FORWARD = 0x04"
definition CAPS_EX_RECONNECT :: u32 where "CAPS_EX_RECONNECT = 0x01"
definition CAPS_EX_MULTITRACK :: u32 where "CAPS_EX_MULTITRACK = 0x02"
definition CAPS_EX_MOD_EX :: u32 where "CAPS_EX_MOD_EX = 0x04"
definition CAPS_EX_TIMESTAMP_NANO_OFFSET :: u32 where "CAPS_EX_TIMESTAMP_NANO_OFFSET = 0x08"
definition FOURCC_WILDCARD :: rstring where "FOURCC_WILDCARD = lit ''*''"

record fourcc_info_map =
  fm_entries :: "(rstring \<times> u32) list"

definition fm_new :: fourcc_info_map where "fm_new = \<lparr>fm_entries = []\<rparr>"

primrec set_entry :: "'k \<Rightarrow> 'v \<Rightarrow> ('k \<times> 'v) list \<Rightarrow> ('k \<times> 'v) list" where
  "set_entry key flags [] = [(key, flags)]"
| "set_entry key flags (e # es) =
     (if fst e = key then (fst e, flags) # es else e # set_entry key flags es)"

definition fm_insert :: "rstring \<Rightarrow> u32 \<Rightarrow> fourcc_info_map \<Rightarrow> fourcc_info_map" where
  "fm_insert key flags m = m\<lparr>fm_entries := set_entry key flags (fm_entries m)\<rparr>"

definition insert_fourcc :: "u8 list \<Rightarrow> u32 \<Rightarrow> fourcc_info_map \<Rightarrow> fourcc_info_map" where
  "insert_fourcc fourcc flags m = fm_insert (utf8_lossy fourcc) flags m"

definition fm_get :: "fourcc_info_map \<Rightarrow> rstring \<Rightarrow> u32 option" where
  "fm_get m key = map_of (fm_entries m) key"

definition wildcard :: "fourcc_info_map \<Rightarrow> u32 option" where
  "wildcard m = fm_get m FOURCC_WILDCARD"

definition unwrap_or :: "'a \<Rightarrow> 'a option \<Rightarrow> 'a" where
  "unwrap_or d x = (case x of None \<Rightarrow> d | Some y \<Rightarrow> y)"

definition effective_mask :: "fourcc_info_map \<Rightarrow> rstring \<Rightarrow> u32" where
  "effective_mask m key = unwrap_or 0 (fm_get m key) OR unwrap_or 0 (wildcard m)"

definition fm_to_amf0 :: "fourcc_info_map \<Rightarrow> amf0_value" where
  "fm_to_amf0 m = A0Object (map (\<lambda>(k, n). (k, A0Number (f64_of_u32 n))) (fm_entries m))"

text \<open>
  \<open>if let Number(n) = val && n.is_finite() && *n >= 0.0\<close>, saturating at \<open>u32::MAX\<close>: the
  test that masks and \<open>capsEx\<close> share.
\<close>

definition mask_of_value :: "amf0_value \<Rightarrow> u32 option" where
  "mask_of_value v =
    (case v of A0Number n \<Rightarrow>
       if f64_is_finite n \<and> f64_le 0 n then
         Some (if f64_le (f64_of_u32 0xFFFFFFFF) n then 0xFFFFFFFF else f64_as_u32 n)
       else None
     | _ \<Rightarrow> None)"

definition fm_step :: "rstring \<times> amf0_value \<Rightarrow> fourcc_info_map \<Rightarrow> fourcc_info_map" where
  "fm_step kv out = (case mask_of_value (snd kv) of None \<Rightarrow> out | Some m \<Rightarrow> fm_insert (fst kv) m out)"

definition fm_from_amf0 :: "amf0_value \<Rightarrow> fourcc_info_map" where
  "fm_from_amf0 v =
    (case v of A0Object ps \<Rightarrow> fold fm_step ps fm_new | A0EcmaArray ps \<Rightarrow> fold fm_step ps fm_new
     | _ \<Rightarrow> fm_new)"

section \<open>ConnectCapabilities\<close>

record connect_capabilities =
  cc_fourcc_list :: "rstring list"
  cc_video :: fourcc_info_map
  cc_audio :: fourcc_info_map
  cc_caps_ex :: u32
  cc_object_encoding :: "u8 option"

definition caps_new :: connect_capabilities where
  "caps_new = \<lparr>cc_fourcc_list = [], cc_video = fm_new, cc_audio = fm_new, cc_caps_ex = 0,
     cc_object_encoding = None\<rparr>"

definition caps_is_empty :: "connect_capabilities \<Rightarrow> bool" where
  "caps_is_empty c \<longleftrightarrow> cc_fourcc_list c = [] \<and> fm_entries (cc_video c) = []
     \<and> fm_entries (cc_audio c) = [] \<and> cc_caps_ex c = 0 \<and> cc_object_encoding c = None"

definition supports_caps_ex :: "connect_capabilities \<Rightarrow> u32 \<Rightarrow> bool" where
  "supports_caps_ex c flags \<longleftrightarrow> cc_caps_ex c AND flags \<noteq> 0"

definition has_fourcc :: "connect_capabilities \<Rightarrow> rstring \<Rightarrow> bool" where
  "has_fourcc c key \<longleftrightarrow> list_ex (\<lambda>s. s = key \<or> s = FOURCC_WILDCARD) (cc_fourcc_list c)"

definition encode_into ::
    "connect_capabilities \<Rightarrow> (rstring \<times> amf0_value) list \<Rightarrow> (rstring \<times> amf0_value) list" where
  "encode_into c pairs = pairs
     @ (case cc_object_encoding c of None \<Rightarrow> []
        | Some enc \<Rightarrow> [(lit ''objectEncoding'', A0Number (f64_of_u8 enc))])
     @ (if cc_fourcc_list c = [] then []
        else [(lit ''fourCcList'', A0StrictArray (map A0String (cc_fourcc_list c)))])
     @ (if fm_entries (cc_video c) = [] then []
        else [(lit ''videoFourCcInfoMap'', fm_to_amf0 (cc_video c))])
     @ (if fm_entries (cc_audio c) = [] then []
        else [(lit ''audioFourCcInfoMap'', fm_to_amf0 (cc_audio c))])
     @ (if cc_caps_ex c = 0 then [] else [(lit ''capsEx'', A0Number (f64_of_u32 (cc_caps_ex c)))])"

definition object_encoding_of :: "amf0_value \<Rightarrow> u8 option" where
  "object_encoding_of v =
    (case v of A0Number n \<Rightarrow>
       if f64_is_finite n \<and> f64_le 0 n \<and> f64_le n (f64_of_u8 0xFF) then Some (f64_as_u8 n) else None
     | _ \<Rightarrow> None)"

definition caps_step :: "rstring \<times> amf0_value \<Rightarrow> connect_capabilities \<Rightarrow> connect_capabilities" where
  "caps_step kv out =
    (let k = fst kv; val = snd kv in
     if k = lit ''objectEncoding'' then
       (case object_encoding_of val of None \<Rightarrow> out | Some e \<Rightarrow> out\<lparr>cc_object_encoding := Some e\<rparr>)
     else if k = lit ''fourCcList'' then
       (case val of A0StrictArray items \<Rightarrow>
          out\<lparr>cc_fourcc_list := List.map_filter a0_as_str items\<rparr>
        | _ \<Rightarrow> out)
     else if k = lit ''videoFourCcInfoMap'' then out\<lparr>cc_video := fm_from_amf0 val\<rparr>
     else if k = lit ''audioFourCcInfoMap'' then out\<lparr>cc_audio := fm_from_amf0 val\<rparr>
     else if k = lit ''capsEx'' then
       (case mask_of_value val of None \<Rightarrow> out | Some m \<Rightarrow> out\<lparr>cc_caps_ex := m\<rparr>)
     else out)"

definition caps_from_amf0 :: "amf0_value \<Rightarrow> connect_capabilities" where
  "caps_from_amf0 v =
    (case v of A0Object ps \<Rightarrow> fold caps_step ps caps_new
     | A0EcmaArray ps \<Rightarrow> fold caps_step ps caps_new
     | _ \<Rightarrow> caps_new)"

section \<open>The table\<close>

definition fm_ok :: "fourcc_info_map \<Rightarrow> bool" where
  "fm_ok m \<longleftrightarrow> distinct (map fst (fm_entries m))"

lemma set_entry_keys:
  "map fst (set_entry k v es) = (if k \<in> fst ` set es then map fst es else map fst es @ [k])"
  by (induction es) auto

lemma map_of_set_entry: "map_of (set_entry k v es) k' = (if k' = k then Some v else map_of es k')"
  by (induction es) auto

interpretation fm: keyed_table fm_get fm_insert
  by unfold_locales (simp add: fm_get_def fm_insert_def map_of_set_entry)

lemma fm_new_ok [simp]: "fm_ok fm_new"
  by (simp add: fm_ok_def fm_new_def)

lemma fm_insert_ok: "fm_ok m \<Longrightarrow> fm_ok (fm_insert k v m)"
  by (auto simp: fm_ok_def fm_insert_def set_entry_keys)

lemma fm_step_ok: "fm_ok m \<Longrightarrow> fm_ok (fm_step kv m)"
  by (auto simp: fm_step_def fm_insert_ok split: option.split)

lemma fold_fm_step_ok: "fm_ok m \<Longrightarrow> fm_ok (fold fm_step ps m)"
  by (induction ps arbitrary: m) (auto simp: fm_step_ok)

lemma fm_from_amf0_ok [simp]: "fm_ok (fm_from_amf0 v)"
  by (simp add: fm_from_amf0_def fold_fm_step_ok split: amf0_value.split)

lemma u32_max_iff: "0xFFFFFFFF \<le> (w :: u32) \<longleftrightarrow> w = 0xFFFFFFFF"
proof -
  have "unat w < 2 ^ LENGTH(32)" by (rule unsigned_less)
  then show ?thesis by (auto simp: word_le_nat_alt word_unat_eq_iff)
qed

lemma u8_max: "(b :: u8) \<le> 0xFF"
proof -
  have "unat b < 2 ^ LENGTH(8)" by (rule unsigned_less)
  then show ?thesis by (simp add: word_le_nat_alt)
qed

lemma mask_of_u32 [simp]: "mask_of_value (A0Number (f64_of_u32 w)) = Some w"
  by (auto simp: mask_of_value_def f64_of_u32_range f64_as_u32_of_u32 u32_max_iff)

lemma object_encoding_of_u8 [simp]: "object_encoding_of (A0Number (f64_of_u8 b)) = Some b"
  by (simp add: object_encoding_of_def f64_of_u8_range f64_as_u8_of_u8 u8_max)

text \<open>Inserting pairs with fresh keys appends them.\<close>

lemma set_entry_fresh: "k \<notin> fst ` set es \<Longrightarrow> set_entry k v es = es @ [(k, v)]"
  by (induction es) auto

lemma fold_fm_step_fresh:
  "distinct (map fst (fm_entries m) @ map fst es) \<Longrightarrow>
   fold fm_step (map (\<lambda>(k, n). (k, A0Number (f64_of_u32 n))) es) m = m\<lparr>fm_entries := fm_entries m @ es\<rparr>"
proof (induction es arbitrary: m)
  case (Cons e es)
  have "fst e \<notin> fst ` set (fm_entries m)" using Cons.prems by auto
  then have step: "fm_step (fst e, A0Number (f64_of_u32 (snd e))) m = m\<lparr>fm_entries := fm_entries m @ [e]\<rparr>"
    by (simp add: fm_step_def fm_insert_def set_entry_fresh)
  have "distinct (map fst (fm_entries (m\<lparr>fm_entries := fm_entries m @ [e]\<rparr>)) @ map fst es)"
    using Cons.prems by auto
  from Cons.IH[OF this] show ?case by (simp add: step split_beta)
qed simp

lemma fm_roundtrip: "fm_ok m \<Longrightarrow> fm_from_amf0 (fm_to_amf0 m) = m"
  using fold_fm_step_fresh[of fm_new "fm_entries m"]
  by (simp add: fm_from_amf0_def fm_to_amf0_def fm_ok_def) (simp add: fm_new_def)

section \<open>The property block\<close>

definition caps_keys :: "rstring set" where
  "caps_keys = {lit ''objectEncoding'', lit ''fourCcList'', lit ''videoFourCcInfoMap'',
     lit ''audioFourCcInfoMap'', lit ''capsEx''}"

definition caps_ok :: "connect_capabilities \<Rightarrow> bool" where
  "caps_ok c \<longleftrightarrow> fm_ok (cc_video c) \<and> fm_ok (cc_audio c)"

lemma caps_step_ok: "caps_ok c \<Longrightarrow> caps_ok (caps_step kv c)"
  by (auto simp: caps_step_def caps_ok_def Let_def split: option.split amf0_value.split)

lemma fold_caps_step_ok: "caps_ok c \<Longrightarrow> caps_ok (fold caps_step ps c)"
  by (induction ps arbitrary: c) (auto simp: caps_step_ok)

lemma caps_new_ok [simp]: "caps_ok caps_new"
  by (simp add: caps_new_def caps_ok_def)

lemma caps_from_amf0_ok: "caps_ok (caps_from_amf0 v)"
  by (simp add: caps_from_amf0_def fold_caps_step_ok split: amf0_value.split)

lemma caps_step_other: "fst kv \<notin> caps_keys \<Longrightarrow> caps_step kv c = c"
  by (simp add: caps_step_def caps_keys_def Let_def)

lemma fold_caps_step_other: "fst ` set ps \<inter> caps_keys = {} \<Longrightarrow> fold caps_step ps c = c"
  by (induction ps arbitrary: c) (auto simp: caps_step_other)

lemma map_filter_strings: "List.map_filter a0_as_str (map A0String xs) = xs"
  by (induction xs) (simp_all add: List.map_filter_simps a0_as_str_def)

lemma caps_step_keys:
  "caps_step (lit ''objectEncoding'', A0Number (f64_of_u8 e)) c = c\<lparr>cc_object_encoding := Some e\<rparr>"
  "caps_step (lit ''fourCcList'', A0StrictArray (map A0String xs)) c = c\<lparr>cc_fourcc_list := xs\<rparr>"
  "fm_ok m \<Longrightarrow> caps_step (lit ''videoFourCcInfoMap'', fm_to_amf0 m) c = c\<lparr>cc_video := m\<rparr>"
  "fm_ok m \<Longrightarrow> caps_step (lit ''audioFourCcInfoMap'', fm_to_amf0 m) c = c\<lparr>cc_audio := m\<rparr>"
  "caps_step (lit ''capsEx'', A0Number (f64_of_u32 w)) c = c\<lparr>cc_caps_ex := w\<rparr>"
  by (simp_all add: caps_step_def fm_roundtrip map_filter_strings)

lemma fm_entries_nil: "fm_entries m = [] \<Longrightarrow> m = fm_new"
  by (simp add: fm_new_def)

lemma fold_encode_into:
  assumes "caps_ok c" and "fst ` set ps \<inter> caps_keys = {}"
  shows "fold caps_step (encode_into c ps) caps_new = c"
  using assms
  by (simp add: encode_into_def fold_caps_step_other caps_ok_def caps_step_keys caps_new_def
      fm_new_def split: option.split)

section \<open>Properties\<close>

text \<open>What the AMF0 wire can carry of a block.\<close>

definition caps_fits :: "connect_capabilities \<Rightarrow> bool" where
  "caps_fits c \<longleftrightarrow> caps_ok c \<and> list_all long_ok (cc_fourcc_list c) \<and> length (cc_fourcc_list c) < 2 ^ 32
     \<and> list_all name_ok (map fst (fm_entries (cc_video c)))
     \<and> list_all name_ok (map fst (fm_entries (cc_audio c)))"

lemma lit_name_ok: "s \<noteq> [] \<Longrightarrow> length s < 2 ^ 16 \<Longrightarrow> list_all (\<lambda>c. (of_char c :: u8) < 0x80) s \<Longrightarrow> name_ok (lit s)"
  by (auto simp: name_ok_def short_ok_def list_all_iff lit_def intro!: utf8_valid_ascii)

lemma caps_names_ok:
  "name_ok (lit ''objectEncoding'')" "name_ok (lit ''fourCcList'')" "name_ok (lit ''videoFourCcInfoMap'')"
  "name_ok (lit ''audioFourCcInfoMap'')" "name_ok (lit ''capsEx'')"
  by (rule lit_name_ok; simp)+

lemma fits_fm:
  "Suc d < MAX_DECODE_DEPTH \<Longrightarrow> list_all name_ok (map fst (fm_entries m)) \<Longrightarrow> amf0_fits d (fm_to_amf0 m)"
  by (auto simp: fm_to_amf0_def list_all_iff)

lemma fits_encode_into:
  assumes "caps_fits c" and "amf0_fits 0 (A0Object ps)"
  shows "amf0_fits 0 (A0Object (encode_into c ps))"
proof -
  have d: "Suc (Suc 0) < MAX_DECODE_DEPTH" by (simp add: MAX_DECODE_DEPTH_def)
  then have "amf0_fits (Suc 0) (fm_to_amf0 (cc_video c))" "amf0_fits (Suc 0) (fm_to_amf0 (cc_audio c))"
    "amf0_fits (Suc 0) (A0StrictArray (map A0String (cc_fourcc_list c)))"
    using assms(1) by (auto simp: caps_fits_def fits_fm list_all_iff)
  then show ?thesis
    using assms(2) d unfolding encode_into_def
    by (auto simp: caps_names_ok list_all_iff split: option.splits)
qed

text \<open>
  C25. Capability negotiation round trip: a command object to which \<open>encode_into\<close> appended a
  capability block goes over the AMF0 wire unchanged, and \<open>from_amf0\<close> gets exactly that block
  back from it, as an object or as an ECMA array, whatever the other properties are.
\<close>

theorem caps_wire_roundtrip:
  assumes "caps_fits c" and "amf0_fits 0 (A0Object ps)" and "\<forall>k \<in> fst ` set ps. k \<notin> caps_keys"
  shows "amf0_decode_all fmt (amf0_encode (A0Object (encode_into c ps))) = Inr [A0Object (encode_into c ps)]
    \<and> caps_from_amf0 (A0Object (encode_into c ps)) = c
    \<and> caps_from_amf0 (A0EcmaArray (encode_into c ps)) = c"
proof -
  have "caps_ok c" using assms(1) by (simp add: caps_fits_def)
  moreover have "fst ` set ps \<inter> caps_keys = {}" using assms(3) by auto
  ultimately have "fold caps_step (encode_into c ps) caps_new = c" by (rule fold_encode_into)
  then show ?thesis
    using amf0_decode_all_encode[of "[A0Object (encode_into c ps)]" fmt] fits_encode_into[OF assms(1,2)]
    by (simp add: caps_from_amf0_def)
qed

definition sample_caps :: connect_capabilities where
  "sample_caps = \<lparr>cc_fourcc_list = [lit ''av01'', lit ''hvc1''],
     cc_video = \<lparr>fm_entries = [(lit ''*'', 0x04), (lit ''hvc1'', 0x03)]\<rparr>,
     cc_audio = fm_new, cc_caps_ex = 0x0F, cc_object_encoding = Some 3\<rparr>"

lemma sample_caps_fits: "caps_fits sample_caps"
  by (simp add: sample_caps_def caps_fits_def caps_ok_def fm_ok_def fm_new_def name_ok_def short_ok_def
      long_ok_def lit_def)

theorem caps_wire_roundtrip_witness:
  "amf0_decode_all (\<lambda>_. []) (amf0_encode (A0Object (encode_into sample_caps [(lit ''app'', A0Null)])))
     = Inr [A0Object (encode_into sample_caps [(lit ''app'', A0Null)])]
   \<and> caps_from_amf0 (A0Object (encode_into sample_caps [(lit ''app'', A0Null)])) = sample_caps
   \<and> caps_from_amf0 (A0EcmaArray (encode_into sample_caps [(lit ''app'', A0Null)])) = sample_caps"
  by (rule caps_wire_roundtrip)
    (simp_all add: sample_caps_fits MAX_DECODE_DEPTH_def caps_keys_def name_ok_def short_ok_def lit_def)

text \<open>
  Forwarding is stable: whatever value a peer sent, the block read from it is written and
  read back unchanged, so a relay does not alter what it understood.
\<close>

theorem caps_forward_stable:
  "caps_from_amf0 (A0Object (encode_into (caps_from_amf0 v) [])) = caps_from_amf0 v"
  using fold_encode_into[OF caps_from_amf0_ok, of "[]" v] by (simp add: caps_from_amf0_def)

definition accepted :: "(rstring \<times> amf0_value) list \<Rightarrow> (rstring \<times> u32) list" where
  "accepted ps = concat (map (\<lambda>(k, v). case mask_of_value v of None \<Rightarrow> [] | Some m \<Rightarrow> [(k, m)]) ps)"

lemma fold_fm_step_accepted:
  "fold fm_step ps m = fold (\<lambda>(k, n). fm_insert k n) (accepted ps) m"
  by (induction ps arbitrary: m) (auto simp: accepted_def fm_step_def split: option.split)

text \<open>
  A FourCC map read from a property list holds one entry per key that had an acceptable
  number, the last one for each key, and the effective mask adds the flags of the wildcard.
\<close>

theorem fourcc_map_last_wins:
  "fm_get (fm_from_amf0 (A0Object ps)) k = map_of (rev (accepted ps)) k
   \<and> effective_mask (fm_from_amf0 (A0Object ps)) k
     = unwrap_or 0 (map_of (rev (accepted ps)) k) OR unwrap_or 0 (map_of (rev (accepted ps)) (lit ''*''))
   \<and> distinct (map fst (fm_entries (fm_from_amf0 (A0Object ps))))"
proof -
  have get: "fm_get (fm_from_amf0 (A0Object ps)) j = map_of (rev (accepted ps)) j" for j
    using fm.get_puts[of "accepted ps" fm_new j]
    by (simp add: fm_from_amf0_def fold_fm_step_accepted)
      (simp add: fm_get_def fm_new_def split: option.split)
  moreover have "fm_ok (fm_from_amf0 (A0Object ps))" by simp
  ultimately show ?thesis
    by (simp add: effective_mask_def wildcard_def FOURCC_WILDCARD_def fm_ok_def)
qed

definition bad_number :: "amf0_value \<Rightarrow> bool" where
  "bad_number v \<longleftrightarrow> (case v of A0Number x \<Rightarrow> f64_key x < 0 \<or> f64_exp x = 2047 | _ \<Rightarrow> True)"

definition malformed :: "rstring \<Rightarrow> amf0_value \<Rightarrow> bool" where
  "malformed k v \<longleftrightarrow> (k = lit ''capsEx'' \<or> k = lit ''objectEncoding'') \<and> bad_number v
     \<or> k = lit ''fourCcList'' \<and> (case v of A0StrictArray _ \<Rightarrow> False | _ \<Rightarrow> True)"

lemma f64_key_0: "f64_key 0 = 0"
  by (simp add: f64_key_def f64_zero_fields)

lemma bad_number_mask: "bad_number v \<Longrightarrow> mask_of_value v = None \<and> object_encoding_of v = None"
  by (cases v) (auto simp: bad_number_def mask_of_value_def object_encoding_of_def f64_is_finite_def
      f64_le_def f64_key_0)

lemma caps_step_malformed: "malformed k v \<Longrightarrow> caps_step (k, v) c = c"
  by (auto simp: malformed_def caps_step_def bad_number_mask split: amf0_value.splits)

text \<open>
  Malformed values: a \<open>capsEx\<close>, \<open>objectEncoding\<close> or \<open>fourCcList\<close> of the wrong type, or a
  number that is negative, NaN or infinite, is skipped wherever it stands; a malformed
  \<open>videoFourCcInfoMap\<close> instead erases the map read before it.
\<close>

theorem caps_malformed:
  assumes "malformed k v"
  shows "caps_from_amf0 (A0Object (ps @ (k, v) # qs)) = caps_from_amf0 (A0Object (ps @ qs))
    \<and> cc_video (caps_from_amf0 (A0Object (ps @ [(lit ''videoFourCcInfoMap'', A0String s)]))) = fm_new"
  using assms by (simp add: caps_from_amf0_def caps_step_malformed)
    (simp add: caps_step_def fm_from_amf0_def)

theorem caps_malformed_witness:
  "caps_from_amf0 (A0Object ([] @ (lit ''capsEx'', A0String (lit ''abc'')) # encode_into sample_caps []))
      = caps_from_amf0 (A0Object ([] @ encode_into sample_caps []))
    \<and> cc_video (caps_from_amf0 (A0Object ([] @ [(lit ''videoFourCcInfoMap'', A0String [])]))) = fm_new"
  by (rule caps_malformed) (simp add: malformed_def bad_number_def)

text \<open>
  A FourCC of four arbitrary bytes becomes a well-formed key: the bytes themselves when they
  are UTF-8, with U+FFFD for the ill-formed pieces otherwise; its mask is what a lookup finds.
\<close>

theorem insert_fourcc_key:
  "fm_get (insert_fourcc fourcc flags m) (utf8_lossy fourcc) = Some flags
   \<and> utf8_valid (utf8_lossy fourcc)
   \<and> utf8_lossy (utf8_lossy fourcc) = utf8_lossy fourcc"
  by (simp add: insert_fourcc_def fm.get_put_same utf8_lossy_valid utf8_lossy_valid_id)

end
