(* ===== verification/Command.thy ===== *)
theory Command
  imports Control_Msg Caps
begin

text \<open>
  The AMF0 command half of \<open>message.rs\<close>: the NetConnection and NetStream builders, the data
  frames (\<open>data_frame_command\<close>), the remote calls (\<open>call_command\<close>) and the subscriber's
  commands (\<open>netstream_command\<close>), with the parsers of a decoded command frame.
\<close>

section \<open>Envelopes\<close>

definition command_message :: "u32 \<Rightarrow> u8 list \<Rightarrow> message" where
  "command_message stream_id p =
     \<lparr>msg_type_id = MSG_COMMAND_AMF0, msg_stream_id = stream_id, msg_timestamp = 0, msg_payload = p\<rparr>"

definition data_message :: "u32 \<Rightarrow> u8 list \<Rightarrow> message" where
  "data_message stream_id p =
     \<lparr>msg_type_id = MSG_DATA_AMF0, msg_stream_id = stream_id, msg_timestamp = 0, msg_payload = p\<rparr>"

definition num :: "int \<Rightarrow> amf0_value" where "num i = A0Number (f64_of_int i)"
definition str :: "string \<Rightarrow> amf0_value" where "str s = A0String (lit s)"

section \<open>NetConnection commands\<close>

definition connect_pairs :: "rstring \<Rightarrow> rstring \<Rightarrow> rstring \<Rightarrow> (rstring \<times> amf0_value) list" where
  "connect_pairs app tc_url flash_ver =
    [(lit ''app'', A0String app), (lit ''type'', str ''nonprivate''),
     (lit ''flashVer'', A0String flash_ver), (lit ''tcUrl'', A0String tc_url),
     (lit ''fpad'', A0Boolean False), (lit ''capabilities'', num 15),
     (lit ''audioCodecs'', num 0x0FFF), (lit ''videoCodecs'', num 0x00FF),
     (lit ''videoFunction'', num 1)]"

definition build_connect_with_caps ::
    "f64 \<Rightarrow> rstring \<Rightarrow> rstring \<Rightarrow> rstring \<Rightarrow> connect_capabilities \<Rightarrow> message" where
  "build_connect_with_caps transaction_id app tc_url flash_ver caps =
     command_message 0 (encode_command (lit ''connect'') transaction_id
       (A0Object (encode_into caps (connect_pairs app tc_url flash_ver))) [])"

definition build_connect :: "f64 \<Rightarrow> rstring \<Rightarrow> rstring \<Rightarrow> rstring \<Rightarrow> message" where
  "build_connect transaction_id app tc_url flash_ver =
     build_connect_with_caps transaction_id app tc_url flash_ver caps_new"

definition connect_props :: amf0_value where
  "connect_props = A0Object [(lit ''fmsVer'', str ''FMS/3,0,1,123''), (lit ''capabilities'', num 31),
     (lit ''mode'', num 1)]"

definition connect_info_pairs :: "connect_capabilities \<Rightarrow> (rstring \<times> amf0_value) list" where
  "connect_info_pairs caps =
     [(lit ''level'', str ''status''), (lit ''code'', str ''NetConnection.Connect.Success''),
      (lit ''description'', str ''Connection accepted.'')]
     @ (if cc_object_encoding caps = None then [(lit ''objectEncoding'', num 0)] else [])"

definition build_connect_result_with_caps :: "f64 \<Rightarrow> connect_capabilities \<Rightarrow> message" where
  "build_connect_result_with_caps transaction_id caps =
     command_message 0 (encode_command (lit ''_result'') transaction_id connect_props
       [A0Object (encode_into caps (connect_info_pairs caps))])"

definition build_connect_result :: "f64 \<Rightarrow> message" where
  "build_connect_result transaction_id = build_connect_result_with_caps transaction_id caps_new"

definition build_release_stream :: "f64 \<Rightarrow> rstring \<Rightarrow> message" where
  "build_release_stream transaction_id stream_name =
     command_message 0 (encode_command (lit ''releaseStream'') transaction_id A0Null [A0String stream_name])"

definition build_fc_publish :: "f64 \<Rightarrow> rstring \<Rightarrow> message" where
  "build_fc_publish transaction_id stream_name =
     command_message 0 (encode_command (lit ''FCPublish'') transaction_id A0Null [A0String stream_name])"

definition build_create_stream :: "f64 \<Rightarrow> message" where
  "build_create_stream transaction_id =
     command_message 0 (encode_command (lit ''createStream'') transaction_id A0Null [])"

definition build_create_stream_result :: "f64 \<Rightarrow> f64 \<Rightarrow> message" where
  "build_create_stream_result transaction_id stream_id =
     command_message 0 (encode_command (lit ''_result'') transaction_id A0Null [A0Number stream_id])"

definition build_publish :: "f64 \<Rightarrow> u32 \<Rightarrow> rstring \<Rightarrow> rstring \<Rightarrow> message" where
  "build_publish transaction_id stream_id stream_name publish_type =
     command_message stream_id (encode_command (lit ''publish'') transaction_id A0Null
       [A0String stream_name, A0String publish_type])"

definition build_on_status :: "u32 \<Rightarrow> rstring \<Rightarrow> rstring \<Rightarrow> rstring \<Rightarrow> message" where
  "build_on_status stream_id level code description =
     command_message stream_id (encode_command (lit ''onStatus'') 0 A0Null
       [A0Object [(lit ''level'', A0String level), (lit ''code'', A0String code),
          (lit ''description'', A0String description)]])"

definition RECONNECT_REQUEST_CODE :: rstring where
  "RECONNECT_REQUEST_CODE = lit ''NetConnection.Connect.ReconnectRequest''"

definition reconnect_props :: "rstring option \<Rightarrow> rstring option \<Rightarrow> (rstring \<times> amf0_value) list" where
  "reconnect_props tc_url description =
     [(lit ''code'', A0String RECONNECT_REQUEST_CODE), (lit ''level'', str ''status'')]
     @ (case description of None \<Rightarrow> [] | Some d \<Rightarrow> [(lit ''description'', A0String d)])
     @ (case tc_url of None \<Rightarrow> [] | Some u \<Rightarrow> [(lit ''tcUrl'', A0String u)])"

definition build_reconnect_request :: "rstring option \<Rightarrow> rstring option \<Rightarrow> message" where
  "build_reconnect_request tc_url description =
     command_message 0 (encode_command (lit ''onStatus'') 0 A0Null
       [A0Object (reconnect_props tc_url description)])"

section \<open>Data frames\<close>

definition SET_DATA_FRAME :: rstring where "SET_DATA_FRAME = lit ''@setDataFrame''"
definition CLEAR_DATA_FRAME :: rstring where "CLEAR_DATA_FRAME = lit ''@clearDataFrame''"

definition build_set_data_frame_named :: "u32 \<Rightarrow> rstring \<Rightarrow> amf0_value \<Rightarrow> message" where
  "build_set_data_frame_named stream_id handler v =
     data_message stream_id (amf0_encode (A0String SET_DATA_FRAME)
       @ amf0_encode (A0String handler) @ amf0_encode v)"

definition build_set_data_frame :: "u32 \<Rightarrow> amf0_value \<Rightarrow> message" where
  "build_set_data_frame stream_id metadata =
     build_set_data_frame_named stream_id (lit ''onMetaData'') metadata"

definition build_clear_data_frame :: "u32 \<Rightarrow> rstring \<Rightarrow> message" where
  "build_clear_data_frame stream_id handler =
     data_message stream_id (amf0_encode (A0String CLEAR_DATA_FRAME) @ amf0_encode (A0String handler))"

definition build_data_message :: "u32 \<Rightarrow> rstring \<Rightarrow> amf0_value \<Rightarrow> message" where
  "build_data_message stream_id handler v =
     data_message stream_id (amf0_encode (A0String handler) @ amf0_encode v)"

definition build_on_meta_data :: "u32 \<Rightarrow> amf0_value \<Rightarrow> message" where
  "build_on_meta_data stream_id metadata = build_data_message stream_id (lit ''onMetaData'') metadata"

datatype data_frame_command = DfSet rstring amf0_value | DfClear rstring

text \<open>\<open>values.get(i)\<close>, and \<open>.and_then(Amf0Value::as_str)\<close> on it.\<close>

definition arg :: "'a list \<Rightarrow> nat \<Rightarrow> 'a option" where
  "arg xs i = (if i < length xs then Some (xs ! i) else None)"

definition arg_as :: "(amf0_value \<Rightarrow> 'b option) \<Rightarrow> amf0_value list \<Rightarrow> nat \<Rightarrow> 'b option" where
  "arg_as f xs i = Option.bind (arg xs i) f"

definition parse_data_frame :: "amf0_value list \<Rightarrow> data_frame_command option" where
  "parse_data_frame vs =
    Option.bind (arg_as a0_as_str vs 0) (\<lambda>name.
     if name = SET_DATA_FRAME then
       Option.bind (arg_as a0_as_str vs 1) (\<lambda>handler.
       Option.bind (arg vs 2) (\<lambda>v. Some (DfSet handler v)))
     else if name = CLEAR_DATA_FRAME then
       Option.bind (arg_as a0_as_str vs 1) (\<lambda>handler. Some (DfClear handler))
     else None)"

section \<open>Remote calls\<close>

record call_command =
  call_procedure :: rstring
  call_transaction_id :: f64
  call_command_object :: amf0_value
  call_arguments :: "amf0_value list"

definition build_call :: "rstring \<Rightarrow> f64 \<Rightarrow> amf0_value \<Rightarrow> amf0_value list \<Rightarrow> message" where
  "build_call procedure transaction_id command_object arguments =
     command_message 0 (encode_command procedure transaction_id command_object arguments)"

definition build_call_result :: "f64 \<Rightarrow> amf0_value \<Rightarrow> amf0_value \<Rightarrow> message" where
  "build_call_result transaction_id command_object response =
     command_message 0 (encode_command (lit ''_result'') transaction_id command_object [response])"

definition build_call_error :: "f64 \<Rightarrow> amf0_value \<Rightarrow> amf0_value \<Rightarrow> message" where
  "build_call_error transaction_id command_object response =
     command_message 0 (encode_command (lit ''_error'') transaction_id command_object [response])"

definition call_parse :: "amf0_value list \<Rightarrow> call_command option" where
  "call_parse vs =
    Option.bind (arg_as a0_as_str vs 0) (\<lambda>procedure.
    Option.bind (arg_as a0_as_f64 vs 1) (\<lambda>transaction_id.
    Some \<lparr>call_procedure = procedure, call_transaction_id = transaction_id,
      call_command_object = unwrap_or A0Null (arg vs 2), call_arguments = drop 3 vs\<rparr>))"

definition call_to_message :: "call_command \<Rightarrow> message" where
  "call_to_message c = build_call (call_procedure c) (call_transaction_id c) (call_command_object c)
     (call_arguments c)"

text \<open>\<open>self.transaction_id != 0.0\<close>: every double but the two zeros.\<close>

definition expects_response :: "call_command \<Rightarrow> bool" where
  "expects_response c \<longleftrightarrow> f64_is_nan (call_transaction_id c) \<or> f64_key (call_transaction_id c) \<noteq> 0"

definition reserved_names :: "string list" where
  "reserved_names = [''connect'', ''close'', ''createStream'', ''play'', ''play2'', ''deleteStream'',
     ''closeStream'', ''receiveAudio'', ''receiveVideo'', ''publish'', ''seek'', ''pause'',
     ''_result'', ''_error'', ''onStatus'', ''releaseStream'', ''FCPublish'', ''FCUnpublish'']"

definition is_reserved_command_name :: "rstring \<Rightarrow> bool" where
  "is_reserved_command_name name \<longleftrightarrow> name \<in> set (map lit reserved_names)"

section \<open>NetStream commands\<close>

datatype netstream_command =
    NsPlay rstring "f64 option" "f64 option" "bool option"
  | NsPlay2 amf0_value
  | NsSeek f64
  | NsPause bool f64
  | NsReceiveAudio bool
  | NsReceiveVideo bool

definition ok_or :: "rtmp_error \<Rightarrow> 'a option \<Rightarrow> 'a result" where
  "ok_or e x = (case x of None \<Rightarrow> Inl e | Some y \<Rightarrow> Inr y)"

definition ns_parse :: "amf0_value list \<Rightarrow> netstream_command option result" where
  "ns_parse vs =
    (case arg_as a0_as_str vs 0 of
       None \<Rightarrow> Inr None
     | Some name \<Rightarrow>
        let args = drop 3 vs in
        if name = lit ''play'' then
          res_bind (ok_or InvalidCommand (arg_as a0_as_str args 0)) (\<lambda>stream_name.
            Inr (Some (NsPlay stream_name (arg_as a0_as_f64 args 1) (arg_as a0_as_f64 args 2)
              (arg_as a0_as_bool args 3))))
        else if name = lit ''play2'' then
          res_bind (ok_or InvalidCommand (arg args 0)) (\<lambda>params. Inr (Some (NsPlay2 params)))
        else if name = lit ''seek'' then
          res_bind (ok_or InvalidCommand (arg_as a0_as_f64 args 0)) (\<lambda>ms. Inr (Some (NsSeek ms)))
        else if name = lit ''pause'' then
          res_bind (ok_or InvalidCommand (arg_as a0_as_bool args 0)) (\<lambda>p.
          res_bind (ok_or InvalidCommand (arg_as a0_as_f64 args 1)) (\<lambda>ms.
            Inr (Some (NsPause p ms))))
        else if name = lit ''receiveAudio'' then
          res_bind (ok_or InvalidCommand (arg_as a0_as_bool args 0)) (\<lambda>f. Inr (Some (NsReceiveAudio f)))
        else if name = lit ''receiveVideo'' then
          res_bind (ok_or InvalidCommand (arg_as a0_as_bool args 0)) (\<lambda>f. Inr (Some (NsReceiveVideo f)))
        else Inr None)"

definition command_name :: "netstream_command \<Rightarrow> rstring" where
  "command_name c =
    (case c of NsPlay _ _ _ _ \<Rightarrow> lit ''play'' | NsPlay2 _ \<Rightarrow> lit ''play2'' | NsSeek _ \<Rightarrow> lit ''seek''
     | NsPause _ _ \<Rightarrow> lit ''pause'' | NsReceiveAudio _ \<Rightarrow> lit ''receiveAudio''
     | NsReceiveVideo _ \<Rightarrow> lit ''receiveVideo'')"

definition ns_args :: "netstream_command \<Rightarrow> amf0_value list" where
  "ns_args c =
    (case c of NsPlay stream_name start duration reset \<Rightarrow>
       [A0String stream_name]
       @ (if start \<noteq> None \<or> duration \<noteq> None \<or> reset \<noteq> None
          then [A0Number (unwrap_or (f64_of_int (- 2)) start)] else [])
       @ (if duration \<noteq> None \<or> reset \<noteq> None
          then [A0Number (unwrap_or (f64_of_int (- 1)) duration)] else [])
       @ (case reset of None \<Rightarrow> [] | Some r \<Rightarrow> [A0Boolean r])
     | NsPlay2 params \<Rightarrow> [params]
     | NsSeek ms \<Rightarrow> [A0Number ms]
     | NsPause p ms \<Rightarrow> [A0Boolean p, A0Number ms]
     | NsReceiveAudio f \<Rightarrow> [A0Boolean f]
     | NsReceiveVideo f \<Rightarrow> [A0Boolean f])"

definition ns_to_message :: "netstream_command \<Rightarrow> u32 \<Rightarrow> message" where
  "ns_to_message c stream_id =
     command_message stream_id (encode_command (command_name c) 0 A0Null (ns_args c))"

section \<open>Frames on the wire\<close>

lemma command_decodes:
  assumes "long_ok name" and "amf0_fits 0 obj" and "\<forall>v \<in> set args. amf0_fits 0 v"
  shows "amf0_decode_all fmt (encode_command name t obj args) = Inr (A0String name # A0Number t # obj # args)"
proof -
  have "\<forall>v \<in> set (A0String name # A0Number t # obj # args). amf0_fits 0 v"
    using assms by (simp add: MAX_DECODE_DEPTH_def)
  from amf0_decode_all_encode[OF this, of fmt] show ?thesis by (simp add: encode_command_def)
qed

lemma lit_long_ok: "length s < 2 ^ 32 \<Longrightarrow> list_all (\<lambda>c. (of_char c :: u8) < 0x80) s \<Longrightarrow> long_ok (lit s)"
  by (auto simp: long_ok_def list_all_iff lit_def intro!: utf8_valid_ascii)

lemma fits_str: "d < MAX_DECODE_DEPTH \<Longrightarrow> long_ok (lit s) \<Longrightarrow> amf0_fits d (str s)"
  and fits_num: "d < MAX_DECODE_DEPTH \<Longrightarrow> amf0_fits d (num i)"
  by (simp_all add: str_def num_def)

lemma f64_of_int_0: "f64_of_int 0 = f64_of_u8 0"
  by (simp add: f64_of_int_def f64_of_u8_def)

text \<open>The names and texts of the source, all ASCII.\<close>

lemmas lit_ok = lit_long_ok lit_name_ok

lemma connect_pairs_fits:
  assumes "long_ok app" "long_ok tc_url" "long_ok flash_ver"
  shows "amf0_fits 0 (A0Object (connect_pairs app tc_url flash_ver))"
    and "fst ` set (connect_pairs app tc_url flash_ver) \<inter> caps_keys = {}"
  using assms
  by (simp_all add: connect_pairs_def lit_ok fits_str fits_num MAX_DECODE_DEPTH_def caps_keys_def)

lemma connect_props_fits: "amf0_fits 0 connect_props"
  by (simp add: connect_props_def fits_num fits_str lit_ok MAX_DECODE_DEPTH_def)

definition info_base :: "(rstring \<times> amf0_value) list" where
  "info_base = [(lit ''level'', str ''status''), (lit ''code'', str ''NetConnection.Connect.Success''),
      (lit ''description'', str ''Connection accepted.'')]"

text \<open>The reply states an object encoding even when the block has none: AMF0.\<close>

definition with_encoding :: "connect_capabilities \<Rightarrow> connect_capabilities" where
  "with_encoding caps = caps\<lparr>cc_object_encoding := Some (unwrap_or 0 (cc_object_encoding caps))\<rparr>"

lemma connect_info_encoded: "encode_into caps (connect_info_pairs caps) = encode_into (with_encoding caps) info_base"
  by (cases "cc_object_encoding caps")
    (simp_all add: encode_into_def connect_info_pairs_def info_base_def with_encoding_def unwrap_or_def
      num_def f64_of_int_0)

lemma info_base_fits: "amf0_fits 0 (A0Object info_base)" "fst ` set info_base \<inter> caps_keys = {}"
  by (simp_all add: info_base_def fits_str lit_ok MAX_DECODE_DEPTH_def caps_keys_def)

lemma with_encoding_ok: "caps_fits caps \<Longrightarrow> caps_fits (with_encoding caps)"
  by (simp add: caps_fits_def caps_ok_def with_encoding_def)

lemma map_of_encode_into: "k \<notin> caps_keys \<Longrightarrow> map_of (encode_into c ps) k = map_of ps k"
  by (auto simp: encode_into_def map_add_def caps_keys_def split: option.split)

lemma connect_decodes:
  assumes "caps_fits caps" and "long_ok app" and "long_ok tc_url" and "long_ok flash_ver"
  defines "obj \<equiv> A0Object (encode_into caps (connect_pairs app tc_url flash_ver))"
  shows "amf0_decode_all fmt (msg_payload (build_connect_with_caps t app tc_url flash_ver caps))
      = Inr [A0String (lit ''connect''), A0Number t, obj]"
    and "caps_from_amf0 obj = caps"
    and "a0_get obj (lit ''app'') = Some (A0String app)"
    and "a0_get obj (lit ''tcUrl'') = Some (A0String tc_url)"
proof -
  let ?ps = "connect_pairs app tc_url flash_ver"
  note ps = connect_pairs_fits[OF assms(2-4)]
  have ok: "caps_ok caps" using assms(1) by (simp add: caps_fits_def)
  show "amf0_decode_all fmt (msg_payload (build_connect_with_caps t app tc_url flash_ver caps))
      = Inr [A0String (lit ''connect''), A0Number t, obj]"
    unfolding build_connect_with_caps_def command_message_def obj_def
    using command_decodes[OF _ fits_encode_into[OF assms(1) ps(1)], of "lit ''connect''" "[]"]
    by (simp add: lit_ok)
  show "caps_from_amf0 obj = caps"
    using fold_encode_into[OF ok ps(2)] by (simp add: caps_from_amf0_def obj_def)
  show "a0_get obj (lit ''app'') = Some (A0String app)" "a0_get obj (lit ''tcUrl'') = Some (A0String tc_url)"
    by (simp_all add: a0_get_def map_of_encode_into caps_keys_def connect_pairs_def obj_def)
qed

lemma connect_reply_decodes:
  assumes "caps_fits caps"
  defines "info \<equiv> A0Object (encode_into (with_encoding caps) info_base)"
  shows "amf0_decode_all fmt (msg_payload (build_connect_result_with_caps t caps))
      = Inr [A0String (lit ''_result''), A0Number t, connect_props, info]"
    and "caps_from_amf0 info = with_encoding caps"
    and "a0_get info (lit ''code'') = Some (A0String (lit ''NetConnection.Connect.Success''))"
proof -
  have ok: "caps_ok (with_encoding caps)"
    using with_encoding_ok[OF assms(1)] by (simp add: caps_fits_def)
  show "amf0_decode_all fmt (msg_payload (build_connect_result_with_caps t caps))
      = Inr [A0String (lit ''_result''), A0Number t, connect_props, info]"
    unfolding build_connect_result_with_caps_def command_message_def connect_info_encoded info_def
    using command_decodes[OF _ connect_props_fits, of "lit ''_result''"
        "[A0Object (encode_into (with_encoding caps) info_base)]"]
      fits_encode_into[OF with_encoding_ok[OF assms(1)] info_base_fits(1)]
    by (simp add: lit_ok)
  show "caps_from_amf0 info = with_encoding caps"
    using fold_encode_into[OF ok info_base_fits(2)] by (simp add: caps_from_amf0_def info_def)
  show "a0_get info (lit ''code'') = Some (A0String (lit ''NetConnection.Connect.Success''))"
    by (simp add: a0_get_def map_of_encode_into caps_keys_def info_base_def str_def info_def)
qed

section \<open>Properties\<close>

text \<open>
  Capability negotiation over \<open>connect\<close>: the server that decodes the client's command finds
  the application, the URL and exactly the client's capability block; the client that decodes
  the reply finds the success code and the server's block, with object encoding 0 when the
  server named none.
\<close>

theorem connect_negotiation:
  assumes "caps_fits caps" and "long_ok app" and "long_ok tc_url" and "long_ok flash_ver"
  shows "(\<exists>obj. amf0_decode_all fmt (msg_payload (build_connect_with_caps t app tc_url flash_ver caps))
        = Inr [A0String (lit ''connect''), A0Number t, obj]
      \<and> caps_from_amf0 obj = caps
      \<and> a0_get obj (lit ''app'') = Some (A0String app)
      \<and> a0_get obj (lit ''tcUrl'') = Some (A0String tc_url))
    \<and> (\<exists>info. amf0_decode_all fmt (msg_payload (build_connect_result_with_caps t caps))
        = Inr [A0String (lit ''_result''), A0Number t, connect_props, info]
      \<and> caps_from_amf0 info = caps\<lparr>cc_object_encoding := Some (unwrap_or 0 (cc_object_encoding caps))\<rparr>
      \<and> a0_get info (lit ''code'') = Some (A0String (lit ''NetConnection.Connect.Success'')))"
  using connect_decodes[OF assms] connect_reply_decodes[OF assms(1)] unfolding with_encoding_def by blast

theorem connect_negotiation_witness:
  "(\<exists>obj. amf0_decode_all (\<lambda>_. []) (msg_payload (build_connect_with_caps (f64_of_nat 1) (lit ''live'')
          (lit ''rtmp://h/live'') (lit ''FMLE/3.0'') sample_caps))
        = Inr [A0String (lit ''connect''), A0Number (f64_of_nat 1), obj]
      \<and> caps_from_amf0 obj = sample_caps
      \<and> a0_get obj (lit ''app'') = Some (A0String (lit ''live''))
      \<and> a0_get obj (lit ''tcUrl'') = Some (A0String (lit ''rtmp://h/live'')))
    \<and> (\<exists>info. amf0_decode_all (\<lambda>_. []) (msg_payload (build_connect_result_with_caps (f64_of_nat 1) sample_caps))
        = Inr [A0String (lit ''_result''), A0Number (f64_of_nat 1), connect_props, info]
      \<and> caps_from_amf0 info = sample_caps\<lparr>cc_object_encoding := Some (unwrap_or 0 (cc_object_encoding sample_caps))\<rparr>
      \<and> a0_get info (lit ''code'') = Some (A0String (lit ''NetConnection.Connect.Success'')))"
  by (rule connect_negotiation) (simp_all add: sample_caps_fits lit_ok)

lemma lit_reserved: "is_reserved_command_name (lit s) \<longleftrightarrow> s \<in> set reserved_names"
  by (auto simp: is_reserved_command_name_def)

definition ns_names :: "string list" where
  "ns_names = [''play'', ''play2'', ''seek'', ''pause'', ''receiveAudio'', ''receiveVideo'']"

lemma arg_Cons [simp]: "arg (x # xs) 0 = Some x" "arg (x # xs) (Suc n) = arg xs n" "arg [] n = None"
  by (simp_all add: arg_def)

lemma arg_numeral [simp]: "arg (x # xs) (numeral k) = arg xs (pred_numeral k)"
  by (simp add: arg_def numeral_eq_Suc)

lemma arg_1 [simp]: "arg (x # xs) 1 = arg xs 0"
  by (simp add: arg_def)

lemma ns_parse_other: "arg_as a0_as_str vs 0 \<notin> Some ` set (map lit ns_names) \<Longrightarrow> ns_parse vs = Inr None"
  by (auto simp: ns_parse_def Let_def ns_names_def split: option.split)

lemma ns_names_reserved: "n \<in> set (map lit ns_names) \<Longrightarrow> is_reserved_command_name n"
  by (auto simp: ns_names_def lit_reserved reserved_names_def)

text \<open>
  Remote calls: a \<open>call\<close> that goes over the wire is parsed back to the same procedure,
  transaction id, command object and arguments; one without a reserved name is not taken for a
  NetStream command; and no reply is expected exactly for the two zeros.
\<close>

theorem call_roundtrip:
  assumes "long_ok (call_procedure c)" and "amf0_fits 0 (call_command_object c)"
    and "\<forall>v \<in> set (call_arguments c). amf0_fits 0 v"
  shows "\<exists>vs. amf0_decode_all fmt (msg_payload (call_to_message c)) = Inr vs \<and> call_parse vs = Some c
      \<and> (is_reserved_command_name (call_procedure c) \<or> ns_parse vs = Inr None)"
proof -
  let ?vs = "A0String (call_procedure c) # A0Number (call_transaction_id c) # call_command_object c # call_arguments c"
  have "amf0_decode_all fmt (msg_payload (call_to_message c)) = Inr ?vs"
    using command_decodes[OF assms] by (simp add: call_to_message_def build_call_def command_message_def)
  moreover have "call_parse ?vs = Some c"
    by (simp add: call_parse_def arg_as_def a0_accessors unwrap_or_def)
  moreover have "is_reserved_command_name (call_procedure c) \<or> ns_parse ?vs = Inr None"
    using ns_parse_other[of ?vs] ns_names_reserved[of "call_procedure c"]
    by (auto simp: arg_as_def a0_accessors)
  ultimately show ?thesis by blast
qed

theorem call_roundtrip_witness:
  "\<exists>vs. amf0_decode_all (\<lambda>_. []) (msg_payload (call_to_message \<lparr>call_procedure = lit ''getTime'',
        call_transaction_id = f64_of_nat 7, call_command_object = A0Null, call_arguments = [A0Boolean True]\<rparr>)) = Inr vs
      \<and> call_parse vs = Some \<lparr>call_procedure = lit ''getTime'', call_transaction_id = f64_of_nat 7,
          call_command_object = A0Null, call_arguments = [A0Boolean True]\<rparr>
      \<and> (is_reserved_command_name (call_procedure \<lparr>call_procedure = lit ''getTime'',
          call_transaction_id = f64_of_nat 7, call_command_object = A0Null, call_arguments = [A0Boolean True]\<rparr>)
        \<or> ns_parse vs = Inr None)"
  by (rule call_roundtrip) (simp_all add: lit_ok MAX_DECODE_DEPTH_def)

definition ns_explicit :: "netstream_command \<Rightarrow> netstream_command" where
  "ns_explicit c =
    (case c of NsPlay n start duration reset \<Rightarrow>
       NsPlay n (if start = None \<and> (duration \<noteq> None \<or> reset \<noteq> None) then Some (f64_of_int (- 2)) else start)
         (if duration = None \<and> reset \<noteq> None then Some (f64_of_int (- 1)) else duration) reset
     | _ \<Rightarrow> c)"

definition ns_fits :: "netstream_command \<Rightarrow> bool" where
  "ns_fits c = (case c of NsPlay n _ _ _ \<Rightarrow> long_ok n | NsPlay2 v \<Rightarrow> amf0_fits 0 v | _ \<Rightarrow> True)"

lemma ns_args_fits: "ns_fits c \<Longrightarrow> \<forall>v \<in> set (ns_args c). amf0_fits 0 v"
  by (cases c) (auto simp: ns_args_def ns_fits_def MAX_DECODE_DEPTH_def split: option.splits if_splits)

lemma ns_parse_args:
  "ns_parse (A0String (command_name c) # A0Number 0 # A0Null # ns_args c) = Inr (Some (ns_explicit c))"
proof (cases c)
  case (NsPlay n start duration reset)
  then show ?thesis
    by (cases start; cases duration; cases reset)
      (simp_all add: ns_parse_def arg_as_def a0_accessors command_name_def ns_args_def ok_or_def
        ns_explicit_def unwrap_or_def)
qed (simp_all add: ns_parse_def arg_as_def a0_accessors command_name_def ns_args_def ok_or_def
      ns_explicit_def)

text \<open>
  NetStream commands round trip over the wire. An absent optional argument of \<open>play\<close>
  before a present one comes back as the default the specification gives it; everything else
  comes back as it was.
\<close>

theorem netstream_roundtrip:
  assumes "ns_fits c"
  shows "\<exists>vs. amf0_decode_all fmt (msg_payload (ns_to_message c stream_id)) = Inr vs
      \<and> ns_parse vs = Inr (Some (ns_explicit c)) \<and> ns_explicit (ns_explicit c) = ns_explicit c
      \<and> msg_stream_id (ns_to_message c stream_id) = stream_id"
proof -
  have "long_ok (command_name c)" by (cases c) (simp_all add: command_name_def lit_ok)
  from command_decodes[OF this _ ns_args_fits[OF assms], of A0Null fmt 0]
  have "amf0_decode_all fmt (msg_payload (ns_to_message c stream_id))
      = Inr (A0String (command_name c) # A0Number 0 # A0Null # ns_args c)"
    by (simp add: ns_to_message_def command_message_def MAX_DECODE_DEPTH_def)
  moreover have "ns_explicit (ns_explicit c) = ns_explicit c"
    by (cases c) (auto simp: ns_explicit_def)
  moreover have "msg_stream_id (ns_to_message c stream_id) = stream_id"
    by (simp add: ns_to_message_def command_message_def)
  ultimately show ?thesis using ns_parse_args by blast
qed

theorem netstream_roundtrip_witness:
  "\<exists>vs. amf0_decode_all (\<lambda>_. []) (msg_payload (ns_to_message (NsPlay (lit ''mp4:a'') None None (Some True)) 1)) = Inr vs
      \<and> ns_parse vs = Inr (Some (ns_explicit (NsPlay (lit ''mp4:a'') None None (Some True))))
      \<and> ns_explicit (ns_explicit (NsPlay (lit ''mp4:a'') None None (Some True)))
          = ns_explicit (NsPlay (lit ''mp4:a'') None None (Some True))
      \<and> msg_stream_id (ns_to_message (NsPlay (lit ''mp4:a'') None None (Some True)) 1) = 1"
  by (rule netstream_roundtrip) (simp add: ns_fits_def lit_ok)

text \<open>
  What the NetStream parser makes of any frame: a command whose name is the frame's first
  string, an \<open>InvalidCommand\<close> for one of the six names with a required argument missing, or
  nothing for every other frame; only reserved names are ever taken.
\<close>

theorem ns_parse_classifies:
  "case ns_parse vs of
     Inr (Some c) \<Rightarrow> arg_as a0_as_str vs 0 = Some (command_name c) \<and> is_reserved_command_name (command_name c)
   | Inr None \<Rightarrow> arg_as a0_as_str vs 0 \<notin> Some ` set (map lit ns_names)
   | Inl e \<Rightarrow> e = InvalidCommand \<and> arg_as a0_as_str vs 0 \<in> Some ` set (map lit ns_names)
       \<and> \<not> (3 < length vs \<and> arg_as a0_as_str vs 0 = Some (lit ''play2''))"
proof (cases "arg_as a0_as_str vs 0 \<in> Some ` set (map lit ns_names)")
  case False
  then show ?thesis by (simp add: ns_parse_other)
next
  case True
  then obtain s where n: "arg_as a0_as_str vs 0 = Some (lit s)" and s: "s \<in> set ns_names" by auto
  have r: "is_reserved_command_name (command_name c)" for c
    by (cases c) (simp_all add: command_name_def lit_reserved reserved_names_def)
  have m: "arg_as a0_as_str vs 0 \<in> Some ` set (map lit ns_names)" by (rule True)
  let ?args = "drop 3 vs"
  note defs = ns_parse_def Let_def ok_or_def command_name_def
  from s consider "s = ''play''" | "s = ''play2''" | "s = ''seek''" | "s = ''pause''"
    | "s = ''receiveAudio''" | "s = ''receiveVideo''"
    unfolding ns_names_def list.set insert_iff empty_iff by blast
  then show ?thesis
  proof cases
    case 1 then show ?thesis using m n r[of "NsPlay _ _ _ _"]
      by (cases "arg_as a0_as_str ?args 0") (simp_all add: defs)
  next
    case 2 then show ?thesis using m n r[of "NsPlay2 _"]
      by (cases "arg ?args 0") (simp_all add: defs arg_def split: if_splits)
  next
    case 3 then show ?thesis using m n r[of "NsSeek _"]
      by (cases "arg_as a0_as_f64 ?args 0") (simp_all add: defs)
  next
    case 4 then show ?thesis using m n r[of "NsPause _ _"]
      by (cases "arg_as a0_as_bool ?args 0"; cases "arg_as a0_as_f64 ?args 1") (simp_all add: defs)
  next
    case 5 then show ?thesis using m n r[of "NsReceiveAudio _"]
      by (cases "arg_as a0_as_bool ?args 0") (simp_all add: defs)
  next
    case 6 then show ?thesis using m n r[of "NsReceiveVideo _"]
      by (cases "arg_as a0_as_bool ?args 0") (simp_all add: defs)
  qed
qed

text \<open>
  Data frames: \<open>@setDataFrame\<close> and \<open>@clearDataFrame\<close> messages are classified as what they
  are after the wire, and a bare data message for any other handler is not taken for one.
\<close>

theorem data_frame_roundtrip:
  assumes "long_ok handler" and "amf0_fits 0 v"
  shows "\<exists>vs ws us. amf0_decode_all fmt (msg_payload (build_set_data_frame_named i handler v)) = Inr vs
      \<and> parse_data_frame vs = Some (DfSet handler v)
      \<and> amf0_decode_all fmt (msg_payload (build_clear_data_frame i handler)) = Inr ws
      \<and> parse_data_frame ws = Some (DfClear handler)
      \<and> amf0_decode_all fmt (msg_payload (build_data_message i handler v)) = Inr us
      \<and> us = [A0String handler, v]
      \<and> (handler \<in> {SET_DATA_FRAME, CLEAR_DATA_FRAME} \<or> parse_data_frame us = None)"
proof -
  have names: "long_ok SET_DATA_FRAME" "long_ok CLEAR_DATA_FRAME"
    by (simp_all add: SET_DATA_FRAME_def CLEAR_DATA_FRAME_def lit_ok)
  have d: "0 < MAX_DECODE_DEPTH" by (simp add: MAX_DECODE_DEPTH_def)
  have 1: "amf0_decode_all fmt (msg_payload (build_set_data_frame_named i handler v))
      = Inr [A0String SET_DATA_FRAME, A0String handler, v]"
    using amf0_decode_all_encode[of "[A0String SET_DATA_FRAME, A0String handler, v]" fmt] assms names d
    by (simp add: build_set_data_frame_named_def data_message_def)
  have 2: "amf0_decode_all fmt (msg_payload (build_clear_data_frame i handler))
      = Inr [A0String CLEAR_DATA_FRAME, A0String handler]"
    using amf0_decode_all_encode[of "[A0String CLEAR_DATA_FRAME, A0String handler]" fmt] assms names d
    by (simp add: build_clear_data_frame_def data_message_def)
  have 3: "amf0_decode_all fmt (msg_payload (build_data_message i handler v)) = Inr [A0String handler, v]"
    using amf0_decode_all_encode[of "[A0String handler, v]" fmt] assms d
    by (simp add: build_data_message_def data_message_def)
  have 4: "parse_data_frame [A0String SET_DATA_FRAME, A0String handler, v] = Some (DfSet handler v)"
    "parse_data_frame [A0String CLEAR_DATA_FRAME, A0String handler] = Some (DfClear handler)"
    "handler \<in> {SET_DATA_FRAME, CLEAR_DATA_FRAME} \<or> parse_data_frame [A0String handler, v] = None"
    by (auto simp: parse_data_frame_def arg_as_def a0_accessors)
      (simp add: SET_DATA_FRAME_def CLEAR_DATA_FRAME_def)
  show ?thesis using 1 2 3 4 by blast
qed

theorem data_frame_roundtrip_witness:
  "\<exists>vs ws us. amf0_decode_all (\<lambda>_. []) (msg_payload (build_set_data_frame_named 1 (lit ''onMetaData'') sample_amf0)) = Inr vs
      \<and> parse_data_frame vs = Some (DfSet (lit ''onMetaData'') sample_amf0)
      \<and> amf0_decode_all (\<lambda>_. []) (msg_payload (build_clear_data_frame 1 (lit ''onMetaData''))) = Inr ws
      \<and> parse_data_frame ws = Some (DfClear (lit ''onMetaData''))
      \<and> amf0_decode_all (\<lambda>_. []) (msg_payload (build_data_message 1 (lit ''onMetaData'') sample_amf0)) = Inr us
      \<and> us = [A0String (lit ''onMetaData''), sample_amf0]
      \<and> (lit ''onMetaData'' \<in> {SET_DATA_FRAME, CLEAR_DATA_FRAME} \<or> parse_data_frame us = None)"
  by (rule data_frame_roundtrip) (simp_all add: lit_ok sample_amf0_ok)

end
