(* ===== verification/Shared_Object.thy ===== *)
theory Shared_Object
  imports Command
begin

text \<open>
  \<open>shared_object.rs\<close>: Shared Object messages (types 19 and 16).  The parser and the builder are
  generic in the value codec, as in the source: they take the decoder \<open>dec\<close> and the encoder
  \<open>enc\<close>, and what they need of the two is the interface \<open>value_codec\<close>, in whose context the
  round trip is proved once.  \<open>so_dec0\<close> and \<open>so_dec3\<close> are \<open>amf::decode\<close> and
  \<open>amf3::decode\<close>, each value with fresh tables.
\<close>

section \<open>Data\<close>

datatype 'v so_event =
    SoUse
  | SoRelease
  | SoRequestChange rstring 'v
  | SoChange "(rstring \<times> 'v) list"
  | SoSuccess rstring
  | SoSendMessage rstring "'v list"
  | SoStatus rstring rstring
  | SoClear
  | SoRemove rstring
  | SoRequestRemove rstring
  | SoUseSuccess
  | SoUnknown u8 "u8 list"

record 'v shared_object =
  so_name :: rstring
  so_version :: u32
  so_flags :: u32
  so_events :: "'v so_event list"

definition SO_FLAG_PERSISTENT :: u32 where "SO_FLAG_PERSISTENT = 2"

definition so_event_type :: "'v so_event \<Rightarrow> u8" where
  "so_event_type e =
    (case e of SoUse \<Rightarrow> 1 | SoRelease \<Rightarrow> 2 | SoRequestChange _ _ \<Rightarrow> 3 | SoChange _ \<Rightarrow> 4 | SoSuccess _ \<Rightarrow> 5
     | SoSendMessage _ _ \<Rightarrow> 6 | SoStatus _ _ \<Rightarrow> 7 | SoClear \<Rightarrow> 8 | SoRemove _ \<Rightarrow> 9 | SoRequestRemove _ \<Rightarrow> 10
     | SoUseSuccess \<Rightarrow> 11 | SoUnknown t _ \<Rightarrow> t)"

definition so_new :: "rstring \<Rightarrow> 'v shared_object" where
  "so_new name = \<lparr>so_name = name, so_version = 0, so_flags = 0, so_events = []\<rparr>"

definition so_is_persistent :: "'v shared_object \<Rightarrow> bool" where
  "so_is_persistent m \<longleftrightarrow> so_flags m AND SO_FLAG_PERSISTENT \<noteq> 0"

section \<open>Bare strings\<close>

abbreviation so_err :: rtmp_error where "so_err \<equiv> ProtocolViolation"

definition utf8_text :: "u8 list \<Rightarrow> rstring result" where
  "utf8_text bs = (if utf8_valid bs then Inr bs else Inl so_err)"

definition read_bare_string :: "('u \<times> u8 list, rstring) st" where
  "read_bare_string = st_bind (cur_be so_err 2) (\<lambda>n :: u16.
     st_bind (cur_take so_err (unat n)) (\<lambda>bs. st_lift (utf8_text bs)))"

definition write_bare_string :: "rstring \<Rightarrow> u8 list result" where
  "write_bare_string s =
    (if 0xFFFF < length s then Inl so_err else Inr (u16_be (word_of_nat (length s)) @ s))"

section \<open>Events\<close>

definition so_pair :: "('u \<times> u8 list, 'v) st \<Rightarrow> ('u \<times> u8 list, rstring \<times> 'v) st" where
  "so_pair dec = st_bind read_bare_string (\<lambda>name. st_bind dec (\<lambda>v. st_return (name, v)))"

definition so_event_body :: "('u \<times> u8 list, 'v) st \<Rightarrow> u8 \<Rightarrow> ('u \<times> u8 list, 'v so_event) st" where
  "so_event_body dec t =
    (if t = 1 then st_return SoUse
     else if t = 2 then st_return SoRelease
     else if t = 3 then st_bind (so_pair dec) (\<lambda>(name, v). st_return (SoRequestChange name v))
     else if t = 4 then st_bind (while_input (so_pair dec)) (\<lambda>ps. st_return (SoChange ps))
     else if t = 5 then st_bind st_rest (\<lambda>data.
       if data = [] then st_return (SoSuccess [])
       else st_bind read_bare_string (\<lambda>name. st_return (SoSuccess name)))
     else if t = 6 then st_bind read_bare_string (\<lambda>handler.
       st_bind (while_input dec) (\<lambda>args. st_return (SoSendMessage handler args)))
     else if t = 7 then st_bind read_bare_string (\<lambda>code.
       st_bind read_bare_string (\<lambda>level. st_return (SoStatus code level)))
     else if t = 8 then st_return SoClear
     else if t = 9 then st_bind read_bare_string (\<lambda>name. st_return (SoRemove name))
     else if t = 10 then st_bind read_bare_string (\<lambda>name. st_return (SoRequestRemove name))
     else if t = 11 then st_return SoUseSuccess
     else st_bind st_rest (\<lambda>data. st_return (SoUnknown t data)))"

definition parse_events :: "(unit \<times> u8 list, 'v) st \<Rightarrow> u8 list \<Rightarrow> u8 \<Rightarrow> 'v so_event result" where
  "parse_events dec data t = fst (so_event_body dec t ((), data))"

primrec concat_results :: "u8 list result list \<Rightarrow> u8 list result" where
  "concat_results [] = Inr []"
| "concat_results (r # rs) = res_bind r (\<lambda>bs. res_bind (concat_results rs) (\<lambda>cs. Inr (bs @ cs)))"

definition write_pair :: "('v \<Rightarrow> u8 list) \<Rightarrow> rstring \<times> 'v \<Rightarrow> u8 list result" where
  "write_pair enc p = res_bind (write_bare_string (fst p)) (\<lambda>bs. Inr (bs @ enc (snd p)))"

definition build_event :: "('v \<Rightarrow> u8 list) \<Rightarrow> 'v so_event \<Rightarrow> u8 list result" where
  "build_event enc e =
    (case e of SoUse \<Rightarrow> Inr [] | SoRelease \<Rightarrow> Inr [] | SoClear \<Rightarrow> Inr [] | SoUseSuccess \<Rightarrow> Inr []
     | SoRequestChange name v \<Rightarrow> write_pair enc (name, v)
     | SoChange ps \<Rightarrow> concat_results (map (write_pair enc) ps)
     | SoSuccess name \<Rightarrow> if name \<noteq> [] then write_bare_string name else Inr []
     | SoSendMessage handler args \<Rightarrow>
         res_bind (write_bare_string handler) (\<lambda>bs. Inr (bs @ concat (map enc args)))
     | SoStatus code level \<Rightarrow>
         res_bind (write_bare_string code) (\<lambda>bs. res_bind (write_bare_string level) (\<lambda>cs. Inr (bs @ cs)))
     | SoRemove name \<Rightarrow> write_bare_string name
     | SoRequestRemove name \<Rightarrow> write_bare_string name
     | SoUnknown _ raw \<Rightarrow> Inr raw)"

section \<open>Messages\<close>

definition so_frame :: "(unit \<times> u8 list, 'v) st \<Rightarrow> ('u \<times> u8 list, 'v so_event) st" where
  "so_frame dec = st_bind (cur_take so_err 5) (\<lambda>h.
     st_bind (cur_take so_err (unat (of_be (drop 1 h) :: u32))) (\<lambda>data.
     st_lift (parse_events dec data (h ! 0))))"

definition so_message_reader :: "(unit \<times> u8 list, 'v) st \<Rightarrow> ('u \<times> u8 list, 'v shared_object) st" where
  "so_message_reader dec = st_bind read_bare_string (\<lambda>name.
     st_bind (cur_take so_err 12) (\<lambda>h.
     st_bind (while_input (so_frame dec)) (\<lambda>events.
     st_return \<lparr>so_name = name, so_version = of_be (take 4 h), so_flags = of_be (take 4 (drop 4 h)),
       so_events = events\<rparr>)))"

definition parse_message :: "(unit \<times> u8 list, 'v) st \<Rightarrow> u8 list \<Rightarrow> 'v shared_object result" where
  "parse_message dec payload = fst (so_message_reader dec ((), payload))"

definition build_frame :: "('v \<Rightarrow> u8 list) \<Rightarrow> 'v so_event \<Rightarrow> u8 list result" where
  "build_frame enc e = res_bind (build_event enc e) (\<lambda>data.
     if 0xFFFFFFFF < length data then Inl so_err
     else Inr (so_event_type e # u32_be (word_of_nat (length data)) @ data))"

definition build_message :: "('v \<Rightarrow> u8 list) \<Rightarrow> 'v shared_object \<Rightarrow> u8 list result" where
  "build_message enc m = res_bind (write_bare_string (so_name m)) (\<lambda>name.
     res_bind (concat_results (map (build_frame enc) (so_events m))) (\<lambda>events.
     Inr (name @ u32_be (so_version m) @ u32_be (so_flags m) @ [0, 0, 0, 0] @ events)))"

section \<open>The two flavours\<close>

definition so_dec0 :: "(f64 \<Rightarrow> rstring) \<Rightarrow> ('u \<times> u8 list, amf0_value) st" where
  "so_dec0 fmt = with_fresh [] (decode_at_depth fmt 0)"

text \<open>Without handlers the AMF3 decoder does not look at the buffer behind the cursor.\<close>

definition so_dec3 :: "('u \<times> u8 list, amf3_value) st" where
  "so_dec3 = with_fresh empty_tables (amf3_decode_value [])"

definition so_parse_amf0 :: "(f64 \<Rightarrow> rstring) \<Rightarrow> u8 list \<Rightarrow> amf0_value shared_object result" where
  "so_parse_amf0 fmt = parse_message (so_dec0 fmt)"
definition so_build_amf0 :: "amf0_value shared_object \<Rightarrow> u8 list result" where
  "so_build_amf0 = build_message amf0_encode"
definition so_parse_amf3 :: "u8 list \<Rightarrow> amf3_value shared_object result" where
  "so_parse_amf3 = parse_message so_dec3"
definition so_build_amf3 :: "amf3_value shared_object \<Rightarrow> u8 list result" where
  "so_build_amf3 = build_message amf3_encode"

definition so_message :: "u8 \<Rightarrow> u32 \<Rightarrow> u8 list \<Rightarrow> message" where
  "so_message t stream_id p =
     \<lparr>msg_type_id = t, msg_stream_id = stream_id, msg_timestamp = 0, msg_payload = p\<rparr>"

definition to_message_amf0 :: "amf0_value shared_object \<Rightarrow> u32 \<Rightarrow> message result" where
  "to_message_amf0 m stream_id =
     res_bind (so_build_amf0 m) (\<lambda>p. Inr (so_message MSG_SHARED_OBJECT_AMF0 stream_id p))"

definition to_message_amf3 :: "amf3_value shared_object \<Rightarrow> u32 \<Rightarrow> message result" where
  "to_message_amf3 m stream_id =
     res_bind (so_build_amf3 m) (\<lambda>p. Inr (so_message MSG_SHARED_OBJECT_AMF3 stream_id p))"

definition so_event_to_amf0 :: "(f64 \<Rightarrow> rstring) \<Rightarrow> amf3_value so_event \<Rightarrow> amf0_value so_event" where
  "so_event_to_amf0 fmt e =
    (case e of SoUse \<Rightarrow> SoUse | SoRelease \<Rightarrow> SoRelease
     | SoRequestChange name v \<Rightarrow> SoRequestChange name (to_amf0 fmt v)
     | SoChange ps \<Rightarrow> SoChange (map (\<lambda>(k, v). (k, to_amf0 fmt v)) ps)
     | SoSuccess name \<Rightarrow> SoSuccess name
     | SoSendMessage handler args \<Rightarrow> SoSendMessage handler (map (to_amf0 fmt) args)
     | SoStatus code level \<Rightarrow> SoStatus code level
     | SoClear \<Rightarrow> SoClear | SoRemove name \<Rightarrow> SoRemove name | SoRequestRemove name \<Rightarrow> SoRequestRemove name
     | SoUseSuccess \<Rightarrow> SoUseSuccess | SoUnknown t data \<Rightarrow> SoUnknown t data)"

definition so_to_amf0 :: "(f64 \<Rightarrow> rstring) \<Rightarrow> amf3_value shared_object \<Rightarrow> amf0_value shared_object" where
  "so_to_amf0 fmt m = \<lparr>so_name = so_name m, so_version = so_version m, so_flags = so_flags m,
     so_events = map (so_event_to_amf0 fmt) (so_events m)\<rparr>"

definition parse_shared_object :: "(f64 \<Rightarrow> rstring) \<Rightarrow> message \<Rightarrow> amf0_value shared_object result" where
  "parse_shared_object fmt msg =
    (if msg_type_id msg = MSG_SHARED_OBJECT_AMF0 then so_parse_amf0 fmt (msg_payload msg)
     else if msg_type_id msg = MSG_SHARED_OBJECT_AMF3 then
       res_bind (so_parse_amf3 (msg_payload msg)) (\<lambda>m. Inr (so_to_amf0 fmt m))
     else Inl so_err)"

section \<open>Strings and pairs\<close>

lemma bare_reads:
  assumes "write_bare_string s = Inr bs" and "utf8_valid s"
  shows "reads read_bare_string bs s"
proof -
  let ?n = "word_of_nat (length s) :: u16"
  from assms(1) have len: "length s < 2 ^ 16" and bs: "bs = u16_be ?n @ s"
    by (auto simp: write_bare_string_def split: if_splits)
  have n: "unat ?n = length s" using len by (rule unat_u16_of_nat)
  show ?thesis
    unfolding bs read_bare_string_def
    by (rule reads_bind[OF reads_be[of "u16_be ?n" 2, unfolded of_be_u16]],
        simp, rule reads_bind_nil[OF reads_take])
      (simp_all add: n utf8_text_def assms(2) reads_def)
qed

lemma shrinks_bare: "shrinks 2 read_bare_string"
  unfolding read_bare_string_def by (rule shrinks_bind_first[OF shrinks_be]) (auto intro!: shrink_intro)

lemma safe_bare [safe_intro]: "safe read_bare_string"
  unfolding read_bare_string_def utf8_text_def by (auto intro!: safe_intro safe_lift split: if_splits)

lemma concat_results_Inr:
  "concat_results (map f xs) = Inr bs \<longleftrightarrow>
     (\<forall>x \<in> set xs. \<exists>b. f x = Inr b) \<and> bs = concat (map (\<lambda>x. projr (f x)) xs)"
  by (induction xs arbitrary: bs) (auto simp: res_bind_eq_Inr)

section \<open>The round trip, for any codec\<close>

definition so_event_ok :: "('v \<Rightarrow> bool) \<Rightarrow> 'v so_event \<Rightarrow> bool" where
  "so_event_ok fits e =
    (case e of SoRequestChange name v \<Rightarrow> utf8_valid name \<and> fits v
     | SoChange ps \<Rightarrow> list_all (\<lambda>(k, v). utf8_valid k \<and> fits v) ps
     | SoSuccess name \<Rightarrow> utf8_valid name
     | SoSendMessage handler args \<Rightarrow> utf8_valid handler \<and> list_all fits args
     | SoStatus code level \<Rightarrow> utf8_valid code \<and> utf8_valid level
     | SoRemove name \<Rightarrow> utf8_valid name
     | SoRequestRemove name \<Rightarrow> utf8_valid name
     | SoUnknown t _ \<Rightarrow> t = 0 \<or> 11 < t
     | _ \<Rightarrow> True)"

definition so_ok :: "('v \<Rightarrow> bool) \<Rightarrow> 'v shared_object \<Rightarrow> bool" where
  "so_ok fits m \<longleftrightarrow> utf8_valid (so_name m) \<and> list_all (so_event_ok fits) (so_events m)"

locale unit_codec = value_codec dec enc fits
  for dec :: "(unit \<times> u8 list, 'v) st" and enc :: "'v \<Rightarrow> u8 list" and fits :: "'v \<Rightarrow> bool"
begin

lemma pair_reads:
  assumes "write_pair enc (name, v) = Inr bs" and "utf8_valid name" and "fits v"
  shows "reads (so_pair dec) bs (name, v)"
proof -
  obtain ns where ns: "write_bare_string name = Inr ns" and bs: "bs = ns @ enc v"
    using assms(1) by (auto simp: write_pair_def res_bind_eq_Inr)
  show ?thesis
    unfolding bs so_pair_def
    by (rule reads_bind[OF bare_reads[OF ns assms(2)] reads_bind_nil[OF codec_reads[OF assms(3)] reads_return]])
qed

lemma so_pair_shrinks: "shrinks 1 (so_pair dec)"
  unfolding so_pair_def
  by (rule shrinks_bind_first[OF shrinks_mono[OF shrinks_bare]]) (auto intro!: shrink_intro item_shrinks0)

lemma safe_pair: "safe (so_pair dec)"
  unfolding so_pair_def by (auto intro!: safe_intro item_safe)

end

sublocale unit_codec \<subseteq> pairs: item_parser "so_pair dec"
  by unfold_locales (rule so_pair_shrinks, rule safe_pair)

context unit_codec
begin

lemma safe_event: "safe (so_event_body dec t)"
  unfolding so_event_body_def
  by (intro safe_if) (auto intro!: safe_intro safe_pair pairs.while_safe while_safe)

lemma event_parses:
  assumes b: "build_event enc e = Inr data" and ok: "so_event_ok fits e"
  shows "parse_events dec data (so_event_type e) = Inr e"
proof -
  have str: "fst (st_bind read_bare_string f ((), bs @ r)) = fst (f s ((), r))"
    if "write_bare_string s = Inr bs" "utf8_valid s" for s bs r and f :: "rstring \<Rightarrow> (unit \<times> u8 list, 'v so_event) st"
  proof -
    note rd = bare_reads[OF that]
    obtain u' where "read_bare_string ((), bs @ r) = (Inr s, (u', r))"
      using rd by (rule readsE)
    then show ?thesis by (simp add: st_bind_def)
  qed
  have str0: "fst (st_bind read_bare_string f ((), bs)) = fst (f s ((), []))"
    if "write_bare_string s = Inr bs" "utf8_valid s" for s bs and f :: "rstring \<Rightarrow> (unit \<times> u8 list, 'v so_event) st"
    using str[OF that, of f "[]"] by simp
  show ?thesis
  proof (cases e)
    case (SoRequestChange name v)
    then show ?thesis using b ok pair_reads[of name v data]
      by (auto simp: build_event_def so_event_ok_def parse_events_def so_event_type_def so_event_body_def
          reads_def st_bind_def dest: spec[of _ "[]"])
  next
    case (SoChange ps)
    have each: "reads (so_pair dec) (projr (write_pair enc p)) p" if "p \<in> set ps" for p
      
    proof -
      obtain k v where p: "p = (k, v)" by (rule prod.exhaust)
      have "utf8_valid k \<and> fits v" and "\<exists>bs. write_pair enc (k, v) = Inr bs"
        using that b ok SoChange p by (auto simp: build_event_def so_event_ok_def list_all_iff concat_results_Inr)
      then show ?thesis using pair_reads[of k v] p by auto
    qed
    have "data = concat (map (\<lambda>p. projr (write_pair enc p)) ps)"
      using b SoChange by (simp add: build_event_def concat_results_Inr)
    then have "reads_all (while_input (so_pair dec)) data ps"
      using reads_all_while[OF so_pair_shrinks each] by simp
    then show ?thesis using SoChange
      by (auto simp: parse_events_def so_event_type_def so_event_body_def reads_all_def st_bind_def)
  next
    case (SoSuccess name)
    have "data = [] \<longleftrightarrow> name = []" using b SoSuccess
      by (auto simp: build_event_def write_bare_string_def be_bytes_unfold split: if_splits)
    then show ?thesis using b ok SoSuccess
      by (auto simp: build_event_def so_event_ok_def parse_events_def so_event_type_def so_event_body_def
          st_bind_def[of st_rest] str0)
  next
    case (SoSendMessage handler args)
    obtain bs where bs: "write_bare_string handler = Inr bs" "data = bs @ concat (map enc args)"
      using b SoSendMessage by (auto simp: build_event_def res_bind_eq_Inr)
    have "reads_all (while_input dec) (concat (map enc args)) args"
      using ok SoSendMessage by (intro all_reads) (simp add: so_event_ok_def list_all_iff)
    then show ?thesis using bs ok SoSendMessage
      by (auto simp: so_event_ok_def parse_events_def so_event_type_def so_event_body_def str
          reads_all_def st_bind_def[of "while_input dec"])
  next
    case (SoStatus code level)
    then obtain bs cs where "write_bare_string code = Inr bs" "write_bare_string level = Inr cs" "data = bs @ cs"
      using b by (auto simp: build_event_def res_bind_eq_Inr)
    then show ?thesis using ok SoStatus
      by (simp add: so_event_ok_def parse_events_def so_event_type_def so_event_body_def str str0)
  next
    case (SoUnknown t raw)
    then have "t \<notin> {1, 2, 3, 4, 5, 6, 7, 8, 9, 10, 11}" using ok by (auto simp: so_event_ok_def)
    then show ?thesis using b SoUnknown
      by (simp add: build_event_def parse_events_def so_event_type_def so_event_body_def st_bind_def st_rest_def)
  qed (use b ok in \<open>simp_all add: build_event_def so_event_ok_def parse_events_def so_event_type_def so_event_body_def str0\<close>)
qed

end

section \<open>Messages\<close>

context unit_codec
begin

lemma frame_reads:
  assumes "build_frame enc e = Inr bs" and "so_event_ok fits e"
  shows "reads (so_frame dec) bs e"
proof -
  obtain data where data: "build_event enc e = Inr data" "length data < 2 ^ 32"
    and bs: "bs = (so_event_type e # u32_be (word_of_nat (length data))) @ data"
    using assms(1) by (auto simp: build_frame_def res_bind_eq_Inr split: if_splits)
  define h where "h = so_event_type e # u32_be (word_of_nat (length data))"
  have h: "length h = 5" "h ! 0 = so_event_type e" "unat (of_be (drop 1 h) :: u32) = length data"
    using unat_u32_of_nat[OF data(2)] by (simp_all add: h_def)
  show ?thesis
    unfolding bs so_frame_def h_def[symmetric]
    by (rule reads_bind[OF reads_take[OF h(1)] reads_bind_nil[OF reads_take]])
      (simp_all add: h[unfolded One_nat_def] event_parses[OF data(1) assms(2)] reads_def)
qed

lemma shrinks_frame: "shrinks 1 (so_frame dec)"
  unfolding so_frame_def
  by (rule shrinks_bind_first[OF shrinks_mono[OF shrinks_take]]) (auto intro!: shrink_intro)

lemma parse_events_safe: "parse_events dec data t \<noteq> Inl Panic" "parse_events dec data t \<noteq> Inl OutOfFuel"
  using safe_event[of t] unfolding parse_events_def safe_def by blast+

lemma safe_frame: "safe (so_frame dec)"
  unfolding so_frame_def by (auto intro!: safe_intro safe_lift simp: parse_events_safe)

end

sublocale unit_codec \<subseteq> frames: item_parser "so_frame dec"
  by unfold_locales (rule shrinks_frame, rule safe_frame)

context unit_codec
begin

lemma message_parses:
  assumes b: "build_message enc m = Inr bs" and ok: "so_ok fits m"
  shows "parse_message dec bs = Inr m"
proof -
  obtain ns es where ns: "write_bare_string (so_name m) = Inr ns"
    and es: "concat_results (map (build_frame enc) (so_events m)) = Inr es"
    and bs: "bs = ns @ (u32_be (so_version m) @ u32_be (so_flags m) @ [0, 0, 0, 0]) @ es"
    using b by (auto simp: build_message_def res_bind_eq_Inr)
  define h where "h = u32_be (so_version m) @ u32_be (so_flags m) @ [0, 0, 0, 0]"
  have h: "length h = 12" "of_be (take 4 h) = so_version m" "of_be (take 4 (drop 4 h)) = so_flags m"
    by (simp_all add: h_def)
  have each: "reads (so_frame dec) (projr (build_frame enc e)) e" if "e \<in> set (so_events m)" for e
    using that es ok by (intro frame_reads) (force simp: concat_results_Inr so_ok_def list_all_iff)+
  have all: "reads_all (while_input (so_frame dec)) es (so_events m)"
    using reads_all_while[OF shrinks_frame each] es by (simp add: concat_results_Inr)
  have name: "utf8_valid (so_name m)" using ok by (simp add: so_ok_def)
  have "reads_all (so_message_reader dec) (ns @ h @ es)
      \<lparr>so_name = so_name m, so_version = of_be (take 4 h), so_flags = of_be (take 4 (drop 4 h)), so_events = so_events m\<rparr>"
    unfolding so_message_reader_def
    by (intro reads_all_bind[OF bare_reads[OF ns name]] reads_all_bind[OF reads_take[OF h(1)]] reads_all_return[OF all])
  then show ?thesis
    unfolding parse_message_def reads_all_def bs h_def[symmetric] by (auto simp: h dest!: spec[of _ "()"])
qed

lemma message_safe: "parse_message dec bs \<noteq> Inl Panic \<and> parse_message dec bs \<noteq> Inl OutOfFuel"
proof -
  have "safe (so_message_reader dec)"
    unfolding so_message_reader_def by (auto intro!: safe_intro frames.while_safe)
  then show ?thesis unfolding parse_message_def safe_def by blast
qed

end

section \<open>The two codecs\<close>

interpretation so0: unit_codec "so_dec0 fmt" amf0_encode "amf0_fits 0" for fmt
  unfolding so_dec0_def
  by unfold_locales (auto intro: with_fresh_shrinks with_fresh_safe with_fresh_reads
    amf0_codec.item_shrinks[unfolded One_nat_def] amf0_codec.item_safe amf0_codec.codec_reads)

interpretation so3: unit_codec so_dec3 amf3_encode "amf3_fits 0"
  unfolding so_dec3_def
  by unfold_locales (auto intro: with_fresh_shrinks with_fresh_safe with_fresh_reads
    amf3_codec.item_shrinks[unfolded One_nat_def] amf3_codec.item_safe amf3_codec.codec_reads)

section \<open>Properties\<close>

lemma build_message_error: "build_message enc m = Inl e \<Longrightarrow> e = so_err"
proof -
  have w: "write_bare_string n = Inl e \<Longrightarrow> e = so_err" for n e
    by (simp add: write_bare_string_def split: if_splits)
  have p: "write_pair enc q = Inl e \<Longrightarrow> e = so_err" for q e
    by (auto simp: write_pair_def res_bind_eq_Inl dest: w)
  have c: "concat_results (map f xs) = Inl e \<Longrightarrow> (\<And>x e. f x = Inl e \<Longrightarrow> e = so_err) \<Longrightarrow> e = so_err"
    for f and xs :: "'z list" and e
    by (induction xs) (auto simp: res_bind_eq_Inl)
  have f: "build_frame enc ev = Inl e \<Longrightarrow> e = so_err" for ev e
    by (auto simp: build_frame_def build_event_def res_bind_eq_Inl split: so_event.splits if_splits dest: w p c)
  show "build_message enc m = Inl e \<Longrightarrow> e = so_err"
    by (auto simp: build_message_def res_bind_eq_Inl dest: w c f)
qed

text \<open>
  C30. A shared-object message written by \<open>to_message\<close> is read back by \<open>parse_shared_object\<close>:
  for the AMF0 flavour as it was, for the AMF3 flavour with its values bridged to AMF0, and by
  \<open>parse_amf3\<close> as it was; where \<open>to_message\<close> refuses, it is with the shared-object error.  The
  names must be UTF-8, the values fit the codec, and an unknown event type be outside the
  documented range.
\<close>

theorem shared_object_roundtrip:
  assumes "so_ok (amf0_fits 0) m" and "so_ok (amf3_fits 0) m3"
  shows "(case to_message_amf0 m sid of Inl e \<Rightarrow> e = so_err | Inr msg \<Rightarrow>
      parse_shared_object fmt msg = Inr m)
    \<and> (case to_message_amf3 m3 sid of Inl e \<Rightarrow> e = so_err | Inr msg \<Rightarrow>
      so_parse_amf3 (msg_payload msg) = Inr m3 \<and> parse_shared_object fmt msg = Inr (so_to_amf0 fmt m3))"
  using so0.message_parses[OF _ assms(1)] so3.message_parses[OF _ assms(2)]
  by (auto simp: to_message_amf0_def to_message_amf3_def so_build_amf0_def so_build_amf3_def
      parse_shared_object_def so_message_def so_parse_amf0_def so_parse_amf3_def MSG_SHARED_OBJECT_AMF0_def
      MSG_SHARED_OBJECT_AMF3_def res_bind_eq_Inr res_bind_eq_Inl dest: build_message_error split: sum.split)

definition sample_so0 :: "amf0_value shared_object" where
  "sample_so0 = \<lparr>so_name = lit ''chat'', so_version = 3, so_flags = 2, so_events =
     [SoUse, SoChange [(lit ''a'', A0Number 1), (lit ''b'', A0Null)], SoUnknown 12 [1, 2]]\<rparr>"

definition sample_so3 :: "amf3_value shared_object" where
  "sample_so3 = \<lparr>so_name = lit ''chat'', so_version = 3, so_flags = 0, so_events =
     [SoSendMessage (lit ''f'') [A3Integer 7, A3Null], SoStatus (lit ''c'') (lit ''error''), SoClear]\<rparr>"

lemma sample_so_ok: "so_ok (amf0_fits 0) sample_so0" "so_ok (amf3_fits 0) sample_so3"
  by (code_simp, code_simp)

theorem shared_object_roundtrip_witness:
  "(case to_message_amf0 sample_so0 1 of Inl e \<Rightarrow> False | Inr msg \<Rightarrow>
      parse_shared_object (\<lambda>_. []) msg = Inr sample_so0)
    \<and> (case to_message_amf3 sample_so3 1 of Inl e \<Rightarrow> False | Inr msg \<Rightarrow>
      so_parse_amf3 (msg_payload msg) = Inr sample_so3
      \<and> parse_shared_object (\<lambda>_. []) msg = Inr (so_to_amf0 (\<lambda>_. []) sample_so3))"
proof -
  have "\<exists>a b. to_message_amf0 sample_so0 1 = Inr a \<and> to_message_amf3 sample_so3 1 = Inr b"
    unfolding to_message_amf0_def to_message_amf3_def so_build_amf0_def so_build_amf3_def
    by (auto simp: sample_so0_def sample_so3_def build_message_def build_frame_def build_event_def write_pair_def
      write_bare_string_def write_i29_def write_u29_def)
  then show ?thesis
    using shared_object_roundtrip[OF sample_so_ok, where sid = 1 and fmt = "\<lambda>_. []"] by (auto split: sum.splits)
qed

text \<open>
  Every payload gets an answer: for any message the parser returns a message or an error of
  the program, it never panics, and its loops end by consuming their input.
\<close>

theorem parse_shared_object_total:
  "parse_shared_object fmt msg \<noteq> Inl Panic \<and> parse_shared_object fmt msg \<noteq> Inl OutOfFuel"
  using so0.message_safe[of fmt "msg_payload msg"] so3.message_safe[of "msg_payload msg"]
  by (auto simp: parse_shared_object_def so_parse_amf0_def so_parse_amf3_def res_bind_eq_Inl)

end
