(* ===== verification/Flv_Crypt.thy ===== *)
theory Flv_Crypt
  imports Cursor
begin

text \<open>
  \<open>flv_crypt.rs\<close>: the envelope of an encrypted FLV tag (Annex F): \<open>EncryptionTagHeader\<close>,
  \<open>FilterParams\<close> and the body, which stays ciphered.  \<open>[u8; IV_LEN]\<close> is a byte list
  whose length \<open>crypt_ok\<close> fixes.
\<close>

section \<open>The code\<close>

definition NUM_FILTERS :: u8 where "NUM_FILTERS = 1"
definition FILTER_NAME_ENCRYPTION :: rstring where "FILTER_NAME_ENCRYPTION = lit ''Encryption''"
definition FILTER_NAME_SELECTIVE :: rstring where "FILTER_NAME_SELECTIVE = lit ''SE''"
definition IV_LEN :: nat where "IV_LEN = 16"

datatype filter_params = FpEncryption "u8 list" | FpSelective "u8 list option"

definition fp_is_encrypted :: "filter_params \<Rightarrow> bool" where
  "fp_is_encrypted p = (case p of FpEncryption _ \<Rightarrow> True | FpSelective iv \<Rightarrow> iv \<noteq> None)"

definition fp_iv :: "filter_params \<Rightarrow> u8 list option" where
  "fp_iv p = (case p of FpEncryption iv \<Rightarrow> Some iv | FpSelective iv \<Rightarrow> iv)"

definition fp_encoded_len :: "filter_params \<Rightarrow> nat" where
  "fp_encoded_len p = (case p of FpEncryption _ \<Rightarrow> IV_LEN
     | FpSelective iv \<Rightarrow> 1 + (if iv \<noteq> None then IV_LEN else 0))"

definition fp_encode :: "filter_params \<Rightarrow> u8 list" where
  "fp_encode p = (case p of FpEncryption iv \<Rightarrow> iv
     | FpSelective None \<Rightarrow> [0x00]
     | FpSelective (Some iv) \<Rightarrow> 0x80 # iv)"

record encrypted_tag =
  et_filter_name :: rstring
  et_params :: filter_params
  et_body :: "u8 list"

definition et_encode :: "encrypted_tag \<Rightarrow> u8 list" where
  "et_encode t = NUM_FILTERS # et_filter_name t @ [0]
     @ u24_be (word_of_nat (fp_encoded_len (et_params t))) @ fp_encode (et_params t) @ et_body t"

definition parse_filter_params :: "rstring \<Rightarrow> u8 list \<Rightarrow> filter_params result" where
  "parse_filter_params name ps =
    (if name = FILTER_NAME_ENCRYPTION then
       if length ps < IV_LEN then Inl Other else Inr (FpEncryption (take IV_LEN ps))
     else if name = FILTER_NAME_SELECTIVE then
       case ps of [] \<Rightarrow> Inl Other
       | flags # r \<Rightarrow>
           if flags AND 0x80 \<noteq> 0 then
             if length ps < 1 + IV_LEN then Inl Other else Inr (FpSelective (Some (take IV_LEN r)))
           else Inr (FpSelective None)
     else Inl Other)"

definition read_filter_name :: "(unit \<times> u8 list, rstring) st" where
  "read_filter_name = st_bind st_rest (\<lambda>r.
     if 0 \<notin> set r then st_throw Other
     else
       let s = takeWhile (\<lambda>b. b \<noteq> 0) r in
       if \<not> utf8_valid s then st_throw Other
       else st_bind (cur_take Other (length s + 1)) (\<lambda>_. st_return s))"

definition encrypted_body_reader :: "(unit \<times> u8 list, encrypted_tag) st" where
  "encrypted_body_reader =
     st_bind (cur_u8 Other) (\<lambda>num_filters.
     if num_filters \<noteq> NUM_FILTERS then st_throw Other
     else
       st_bind read_filter_name (\<lambda>name.
       st_bind (cur_take Other 3) (\<lambda>l.
       st_bind (cur_take Other (unat (of_u24 (l ! 0) (l ! 1) (l ! 2)))) (\<lambda>ps.
       st_bind (st_lift (parse_filter_params name ps)) (\<lambda>params.
       st_bind st_rest (\<lambda>body.
       st_return \<lparr>et_filter_name = name, et_params = params, et_body = body\<rparr>))))))"

definition parse_encrypted_body :: "u8 list \<Rightarrow> encrypted_tag result" where
  "parse_encrypted_body body = fst (encrypted_body_reader ((), body))"

section \<open>The tags the parser produces\<close>

definition crypt_ok :: "encrypted_tag \<Rightarrow> bool" where
  "crypt_ok t = (case et_params t of
     FpEncryption iv \<Rightarrow> et_filter_name t = FILTER_NAME_ENCRYPTION \<and> length iv = IV_LEN
   | FpSelective None \<Rightarrow> et_filter_name t = FILTER_NAME_SELECTIVE
   | FpSelective (Some iv) \<Rightarrow> et_filter_name t = FILTER_NAME_SELECTIVE \<and> length iv = IV_LEN)"

lemma filter_names:
  "utf8_valid FILTER_NAME_ENCRYPTION" "utf8_valid FILTER_NAME_SELECTIVE"
  "0 \<notin> set FILTER_NAME_ENCRYPTION" "0 \<notin> set FILTER_NAME_SELECTIVE"
  "FILTER_NAME_ENCRYPTION \<noteq> FILTER_NAME_SELECTIVE"
  by (simp_all add: FILTER_NAME_ENCRYPTION_def FILTER_NAME_SELECTIVE_def lit_def)

lemma filter_name_run:
  "0 \<notin> set name \<Longrightarrow> utf8_valid name \<Longrightarrow> read_filter_name (u, name @ [0] @ r) = (Inr name, (u, r))"
proof -
  assume n: "0 \<notin> set name" "utf8_valid name"
  have tw: "takeWhile (\<lambda>b. b \<noteq> 0) (name @ 0 # r) = name" using n(1) by (subst takeWhile_append2) auto
  have "cur_take Other (length name + 1) (u, (name @ [0]) @ r) = (Inr (name @ [0]), (u, r))"
    by (rule cur_take_run) simp
  then show ?thesis using n by (simp add: read_filter_name_def st_bind_def Let_def tw)
qed

lemma params_parse:
  assumes "crypt_ok t"
  shows "parse_filter_params (et_filter_name t) (fp_encode (et_params t)) = Inr (et_params t)"
    and "length (fp_encode (et_params t)) = fp_encoded_len (et_params t)"
    and "fp_encoded_len (et_params t) < 2 ^ 24"
    and "0 \<notin> set (et_filter_name t)" and "utf8_valid (et_filter_name t)"
  using assms filter_names filter_names(5)[symmetric]
  by (auto simp: crypt_ok_def parse_filter_params_def fp_encode_def fp_encoded_len_def IV_LEN_def
      split: filter_params.splits option.splits)

lemma encoded_parses:
  assumes "crypt_ok t"
  shows "parse_encrypted_body (et_encode t) = Inr t"
proof -
  note p = params_parse[OF assms]
  define l where "l = u24_be (word_of_nat (fp_encoded_len (et_params t)))"
  have l: "length l = 3" "unat (of_u24 (l ! 0) (l ! 1) (l ! 2)) = length (fp_encode (et_params t))"
    using p(2,3) by (simp_all add: l_def u24_be_def of_u24_u24_be word_take_bit_id unat_of_nat take_bit_nat_eq_self)
  show ?thesis
    unfolding parse_encrypted_body_def encrypted_body_reader_def et_encode_def l_def[symmetric]
    using filter_name_run[OF p(4,5)] l[unfolded One_nat_def]
    by (simp add: st_bind_def p(1) cur_take_run)
qed

lemma parsed_params_ok: "parse_filter_params name ps = Inr p \<Longrightarrow>
   crypt_ok \<lparr>et_filter_name = name, et_params = p, et_body = b\<rparr>"
  by (auto simp: parse_filter_params_def crypt_ok_def split: if_splits list.splits)

lemma parsed_ok:
  assumes "parse_encrypted_body b = Inr t"
  shows "crypt_ok t"
proof -
  obtain s' where "encrypted_body_reader ((), b) = (Inr t, s')"
    using assms unfolding parse_encrypted_body_def by (metis prod.collapse)
  then obtain name ps p body where "parse_filter_params name ps = Inr p"
      and t: "t = \<lparr>et_filter_name = name, et_params = p, et_body = body\<rparr>"
    unfolding encrypted_body_reader_def
    by (auto simp: st_bind_eq_Inr st_return_run st_lift_def st_throw_run split: if_splits)
  then show ?thesis by (simp add: parsed_params_ok)
qed

lemma parse_params_error: "parse_filter_params name ps = Inl e \<Longrightarrow> e = Other"
  by (auto simp: parse_filter_params_def split: if_splits list.splits)

lemma filter_name_error: "read_filter_name s = (Inl e, s') \<Longrightarrow> e = Other"
  by (cases s) (auto simp: read_filter_name_def st_bind_def cur_take_def Let_def split: if_splits)

lemma parse_error: "parse_encrypted_body b = Inl e \<Longrightarrow> e = Other"
  unfolding parse_encrypted_body_def encrypted_body_reader_def
  by (auto simp: st_bind_def cur_u8_def cur_take_def dest: parse_params_error filter_name_error
      split: prod.splits sum.splits if_splits list.splits)

text \<open>
  A tag survives its own serialisation exactly when it is one the format has: the filter
  name selects the kind of the parameters and an initialisation vector has 16 bytes.  Parsing
  any bytes gives such a tag, which \<open>encode\<close> therefore carries over, or the error
  \<open>Other\<close>.
\<close>

theorem crypt_roundtrip:
  "(parse_encrypted_body (et_encode t) = Inr t \<longleftrightarrow> crypt_ok t)
   \<and> (case parse_encrypted_body b of Inl e \<Rightarrow> e = Other
       | Inr t' \<Rightarrow> crypt_ok t' \<and> parse_encrypted_body (et_encode t') = Inr t'
           \<and> (fp_is_encrypted (et_params t') \<longleftrightarrow> fp_iv (et_params t') \<noteq> None))"
  using encoded_parses parsed_ok parse_error
  by (auto simp: fp_is_encrypted_def fp_iv_def split: sum.split filter_params.split)

end
