(* ===== verification/Flv_Tag.thy ===== *)
theory Flv_Tag
  imports Cursor
begin

text \<open>
  The parts of \<open>flv.rs\<close> that video and audio tags share: the ModEx prelude chain, the
  Multitrack track list, and the plan that joins single-track tags into one.  A FourCC
  \<open>[u8; 4]\<close> is a byte list; the well-formedness predicates fix its length.
\<close>

section \<open>ModEx\<close>

type_synonym fourcc = "u8 list"

definition MOD_EX_TYPE_TIMESTAMP_OFFSET_NANO :: u8 where "MOD_EX_TYPE_TIMESTAMP_OFFSET_NANO = 0"

record mod_ex =
  me_type :: u8
  me_data :: "u8 list"

definition me_timestamp_offset_nano :: "mod_ex \<Rightarrow> u32 option" where
  "me_timestamp_offset_nano e =
    (if me_type e \<noteq> MOD_EX_TYPE_TIMESTAMP_OFFSET_NANO \<or> length (me_data e) < 3 then None
     else Some (of_u24 (me_data e ! 0) (me_data e ! 1) (me_data e ! 2)))"

definition timestamp_offset_nano_entry :: "u32 \<Rightarrow> mod_ex" where
  "timestamp_offset_nano_entry nano =
     \<lparr>me_type = MOD_EX_TYPE_TIMESTAMP_OFFSET_NANO, me_data = u24_be nano\<rparr>"

text \<open>\<open>u32::saturating_add\<close> folded over the entries that are offsets.\<close>

definition u32_saturating_add :: "u32 \<Rightarrow> u32 \<Rightarrow> u32" where
  "u32_saturating_add a b = (if unat a + unat b < 2 ^ 32 then a + b else 0xFFFFFFFF)"

definition sum_offset_nano :: "mod_ex list \<Rightarrow> u32" where
  "sum_offset_nano es = foldl u32_saturating_add 0 (List.map_filter me_timestamp_offset_nano es)"

text \<open>
  The loop of \<open>parse_mod_ex_chain\<close>: the user state is the chain so far, and the result
  \<open>Some t\<close> is the packet type that ends it.
\<close>

definition mod_ex_size :: "('u \<times> u8 list, nat) st" where
  "mod_ex_size = st_bind (cur_u8 Other) (\<lambda>s.
     if unat s + 1 = 256 then st_bind (cur_be Other 2) (\<lambda>w :: u16. st_return (unat w + 1))
     else st_return (unat s + 1))"

definition mod_ex_step :: "u8 \<Rightarrow> (mod_ex list \<times> u8 list, u8 option) st" where
  "mod_ex_step mod_ex_value =
     st_bind mod_ex_size (\<lambda>n.
     st_bind (cur_take Other n) (\<lambda>data.
     st_bind (cur_u8 Other) (\<lambda>nibble.
     st_bind st_get_user (\<lambda>chain.
     st_bind (st_put_user (chain @ [\<lparr>me_type = drop_bit 4 nibble AND 0x0F, me_data = data\<rparr>])) (\<lambda>_.
     st_return (if nibble AND 0x0F \<noteq> mod_ex_value then Some (nibble AND 0x0F) else None))))))"

definition parse_mod_ex_chain :: "u8 \<Rightarrow> ('u \<times> u8 list, mod_ex list \<times> u8) st" where
  "parse_mod_ex_chain mod_ex_value = with_fresh []
     (st_bind (st_until (mod_ex_step mod_ex_value)) (\<lambda>real_pt.
      st_bind st_get_user (\<lambda>chain. st_return (chain, real_pt))))"

definition mod_ex_bytes :: "mod_ex \<Rightarrow> u8 \<Rightarrow> u8 list" where
  "mod_ex_bytes e next =
    (let n = length (me_data e) in
     (if 1 \<le> n \<and> n \<le> 255 then [word_of_nat (n - 1)]
      else 0xFF # u16_be (word_of_nat (min (n - 1) 0xFFFF)))
     @ me_data e @ [push_bit 4 (me_type e AND 0x0F) OR (next AND 0x0F)])"

fun build_mod_ex_chain :: "u8 \<Rightarrow> u8 \<Rightarrow> mod_ex list \<Rightarrow> u8 list" where
  "build_mod_ex_chain mod_ex_value real_pt [] = []"
| "build_mod_ex_chain mod_ex_value real_pt [e] = mod_ex_bytes e real_pt"
| "build_mod_ex_chain mod_ex_value real_pt (e # es) =
     mod_ex_bytes e mod_ex_value @ build_mod_ex_chain mod_ex_value real_pt es"

section \<open>Multitrack\<close>

definition AV_MULTITRACK_TYPE_ONE_TRACK :: u8 where "AV_MULTITRACK_TYPE_ONE_TRACK = 0"
definition AV_MULTITRACK_TYPE_MANY_TRACKS :: u8 where "AV_MULTITRACK_TYPE_MANY_TRACKS = 1"
definition AV_MULTITRACK_TYPE_MANY_TRACKS_MANY_CODECS :: u8 where
  "AV_MULTITRACK_TYPE_MANY_TRACKS_MANY_CODECS = 2"

lemmas multitrack_types = AV_MULTITRACK_TYPE_ONE_TRACK_def AV_MULTITRACK_TYPE_MANY_TRACKS_def
  AV_MULTITRACK_TYPE_MANY_TRACKS_MANY_CODECS_def

record mt_track =
  mtt_fourcc :: "fourcc option"
  mtt_track_id :: u8
  mtt_body :: "u8 list"

record multitrack =
  mt_type :: u8
  mt_tracks :: "mt_track list"

definition mt_track_reader :: "u8 \<Rightarrow> ('u \<times> u8 list, mt_track) st" where
  "mt_track_reader ty =
     st_bind (if ty = AV_MULTITRACK_TYPE_MANY_TRACKS_MANY_CODECS
       then st_bind (cur_take Other 4) (\<lambda>f. st_return (Some f)) else st_return None) (\<lambda>f.
     st_bind (cur_u8 Other) (\<lambda>tid.
     st_bind (if ty = AV_MULTITRACK_TYPE_ONE_TRACK
       then st_bind st_rest (\<lambda>r. cur_take Other (length r))
       else st_bind (cur_take Other 3) (\<lambda>l. cur_take Other (unat (of_u24 (l ! 0) (l ! 1) (l ! 2))))) (\<lambda>body.
     st_return \<lparr>mtt_fourcc = f, mtt_track_id = tid, mtt_body = body\<rparr>)))"

text \<open>
  The track loop.  The list can only be empty where the loop is left at its first test, so
  that test stands in front of it; \<open>OneTrack\<close> leaves the loop after its first round.
\<close>

definition multitrack_reader :: "u8 \<Rightarrow> ('u \<times> u8 list, multitrack) st" where
  "multitrack_reader ty = st_bind st_rest (\<lambda>r.
     if r = [] then st_throw Other
     else st_bind (if ty = AV_MULTITRACK_TYPE_ONE_TRACK
         then st_bind (mt_track_reader ty) (\<lambda>t. st_return [t])
         else while_input (mt_track_reader ty)) (\<lambda>ts.
       st_return \<lparr>mt_type = ty, mt_tracks = ts\<rparr>))"

definition multitrack_parse :: "u8 list \<Rightarrow> u8 \<Rightarrow> multitrack result" where
  "multitrack_parse body ty = fst (multitrack_reader ty ((), body))"

definition mt_track_bytes :: "u8 \<Rightarrow> mt_track \<Rightarrow> u8 list" where
  "mt_track_bytes ty t =
     (if ty = AV_MULTITRACK_TYPE_MANY_TRACKS_MANY_CODECS
      then (case mtt_fourcc t of Some f \<Rightarrow> f | None \<Rightarrow> [0, 0, 0, 0]) else [])
     @ [mtt_track_id t]
     @ (if ty = AV_MULTITRACK_TYPE_ONE_TRACK then [] else u24_be (word_of_nat (length (mtt_body t))))
     @ mtt_body t"

definition multitrack_encode :: "multitrack \<Rightarrow> u8 list" where
  "multitrack_encode m = concat (map (mt_track_bytes (mt_type m))
     (if mt_type m = AV_MULTITRACK_TYPE_ONE_TRACK then take 1 (mt_tracks m) else mt_tracks m))"

section \<open>The preludes of an extended tag header\<close>

text \<open>
  \<open>parse_video\<close> and \<open>parse_audio\<close> have the same three steps between the header byte and
  the body, for their own values of the ModEx and Multitrack packet types.
\<close>

definition mod_ex_prelude :: "u8 \<Rightarrow> u8 \<Rightarrow> ('u \<times> u8 list, mod_ex list \<times> u8) st" where
  "mod_ex_prelude mod_ex_value pt =
    (if pt = mod_ex_value then parse_mod_ex_chain mod_ex_value else st_return ([], pt))"

definition multitrack_prelude :: "u8 \<Rightarrow> u8 \<Rightarrow> ('u \<times> u8 list, u8 option \<times> u8) st" where
  "multitrack_prelude mt_value pt =
    (if pt = mt_value then
       st_bind (cur_u8 Other) (\<lambda>nibble.
       let mt_type = drop_bit 4 nibble AND 0x0F; inner_pt = nibble AND 0x0F in
       if inner_pt = mt_value then st_throw Other
       else st_return (Some mt_type, inner_pt))
     else st_return (None, pt))"

definition shared_fourcc :: "u8 option \<Rightarrow> ('u \<times> u8 list, fourcc option) st" where
  "shared_fourcc mt =
    (if (case mt of Some t \<Rightarrow> t \<noteq> AV_MULTITRACK_TYPE_MANY_TRACKS_MANY_CODECS | None \<Rightarrow> True)
     then st_bind (cur_take Other 4) (\<lambda>f. st_return (Some f))
     else st_return None)"

definition ex_preludes ::
  "u8 \<Rightarrow> u8 \<Rightarrow> u8 \<Rightarrow> ('u \<times> u8 list, mod_ex list \<times> u8 option \<times> u8 \<times> fourcc option) st" where
  "ex_preludes mt_value mod_ex_value packet_type =
     st_bind (mod_ex_prelude mod_ex_value packet_type) (\<lambda>(chain, pt1).
     st_bind (multitrack_prelude mt_value pt1) (\<lambda>(mt, pt).
     st_bind (shared_fourcc mt) (\<lambda>f. st_return (chain, mt, pt, f))))"

text \<open>
  What \<open>build_video\<close> and \<open>build_audio\<close> write for them: the packet type of the header byte,
  and the bytes between it and the body; \<open>mt\<close> is the type of a Multitrack tag.
\<close>

definition post_mod_ex_pt :: "u8 \<Rightarrow> u8 option \<Rightarrow> u8 \<Rightarrow> u8" where
  "post_mod_ex_pt mt_value mt real_pt = (if mt \<noteq> None then mt_value else real_pt)"

definition ex_header_pt :: "u8 \<Rightarrow> u8 \<Rightarrow> mod_ex list \<Rightarrow> u8 option \<Rightarrow> u8 \<Rightarrow> u8" where
  "ex_header_pt mt_value mod_ex_value chain mt real_pt =
    (if chain = [] then post_mod_ex_pt mt_value mt real_pt else mod_ex_value)"

definition ex_prelude_bytes :: "u8 \<Rightarrow> u8 \<Rightarrow> mod_ex list \<Rightarrow> u8 option \<Rightarrow> u8 \<Rightarrow> fourcc option \<Rightarrow> u8 list" where
  "ex_prelude_bytes mt_value mod_ex_value chain mt real_pt f =
     build_mod_ex_chain mod_ex_value (post_mod_ex_pt mt_value mt real_pt) chain
     @ (case mt of Some ty \<Rightarrow> [push_bit 4 (ty AND 0x0F) OR (real_pt AND 0x0F)] | None \<Rightarrow> [])
     @ (if mt \<noteq> Some AV_MULTITRACK_TYPE_MANY_TRACKS_MANY_CODECS
        then (case f of Some g \<Rightarrow> g | None \<Rightarrow> [0, 0, 0, 0]) else [])"

text \<open>\<open>payload[pos..].to_vec()\<close>\<close>

definition take_rest :: "('u \<times> u8 list, u8 list) st" where
  "take_rest = (\<lambda>(u, bs). (Inr bs, (u, [])))"

section \<open>Joining and splitting tags\<close>

record mt_plan =
  mp_inner_packet_type :: u8
  mp_shared_fourcc :: "fourcc option"
  mp_per_track_fourcc :: bool

definition plan_multitrack ::
  "('t \<Rightarrow> fourcc option) \<Rightarrow> ('t \<Rightarrow> u8 option) \<Rightarrow> ('t \<Rightarrow> bool) \<Rightarrow> ('t \<Rightarrow> bool) \<Rightarrow> u8 \<Rightarrow> u8 \<Rightarrow>
   u8 \<Rightarrow> (u8 \<times> 't) list \<Rightarrow> mt_plan result" where
  "plan_multitrack fourcc ex_pt is_mt has_mod_ex pt_multitrack pt_mod_ex ty tracks =
    (let one_track = (ty = AV_MULTITRACK_TYPE_ONE_TRACK);
         many_codecs = (ty = AV_MULTITRACK_TYPE_MANY_TRACKS_MANY_CODECS)
     in
     if tracks = [] then Inl Other
     else if one_track \<and> length tracks \<noteq> 1 then Inl Other
     else (case ex_pt (snd (hd tracks)) of None \<Rightarrow> Inl Other | Some inner_pt \<Rightarrow>
       if inner_pt = pt_multitrack \<or> inner_pt = pt_mod_ex then Inl Other
       else if list_ex (\<lambda>(i, t). is_mt t \<or> has_mod_ex t \<or> ex_pt t \<noteq> Some inner_pt \<or> fourcc t = None) tracks
       then Inl Other
       else if many_codecs then
         Inr \<lparr>mp_inner_packet_type = inner_pt, mp_shared_fourcc = None, mp_per_track_fourcc = True\<rparr>
       else
         let fcc = fourcc (snd (hd tracks)) in
         if list_ex (\<lambda>(i, t). fourcc t \<noteq> fcc) tracks then Inl Other
         else Inr \<lparr>mp_inner_packet_type = inner_pt, mp_shared_fourcc = fcc, mp_per_track_fourcc = False\<rparr>))"

text \<open>
  The loops of \<open>multitrack_from_tags\<close> and \<open>demux_tracks\<close>, which the two kinds of tag
  share up to their builder, parser and header byte.  \<open>wire[5..]\<close> does not panic: the built
  tag has a header byte and a FourCC of four bytes.
\<close>

definition mux_with :: "('t \<Rightarrow> u8 list) \<Rightarrow> ('t \<Rightarrow> fourcc option) \<Rightarrow> bool \<Rightarrow> (u8 \<times> 't) list \<Rightarrow> mt_track list" where
  "mux_with build fourcc per_track tracks = map (\<lambda>(i, t).
     \<lparr>mtt_fourcc = (if per_track then fourcc t else None), mtt_track_id = i, mtt_body = drop 5 (build t)\<rparr>) tracks"

primrec demux_with :: "(u8 list \<Rightarrow> 't result) \<Rightarrow> u8 \<Rightarrow> fourcc option \<Rightarrow> mt_track list \<Rightarrow> (u8 \<times> 't) list result" where
  "demux_with parse head shared [] = Inr []"
| "demux_with parse head shared (t # ts) =
    (case (case mtt_fourcc t of Some f \<Rightarrow> Some f | None \<Rightarrow> shared) of
       None \<Rightarrow> Inl Other
     | Some fcc \<Rightarrow>
         (case parse (head # fcc @ mtt_body t) of
            Inl _ \<Rightarrow> Inl Other
          | Inr tag \<Rightarrow> res_bind (demux_with parse head shared ts) (\<lambda>r. Inr ((mtt_track_id t, tag) # r))))"

section \<open>Nibbles\<close>

lemma nibbles:
  "drop_bit 4 (push_bit 4 (a AND 0x0F) OR (b AND 0x0F)) AND 0x0F = a AND (0x0F :: u8)"
  "(push_bit 4 (a AND 0x0F) OR (b AND 0x0F)) AND 0x0F = b AND (0x0F :: u8)"
proof -
  have m: "(0x0F :: u8) = mask 4" by (simp add: mask_eq_exp_minus_1)
  show "drop_bit 4 (push_bit 4 (a AND 0x0F) OR (b AND 0x0F)) AND 0x0F = a AND (0x0F :: u8)"
    "(push_bit 4 (a AND 0x0F) OR (b AND 0x0F)) AND 0x0F = b AND (0x0F :: u8)"
    unfolding m by (rule bit_word_eqI, auto simp: bit_simps)+
qed

lemma low_nibble: "(x AND 0x0F = (x :: u8)) \<longleftrightarrow> x < 16" "x AND (0x0F :: u8) < 16"
proof -
  have m: "unat (x AND (0x0F :: u8)) = unat x mod 16"
  proof -
    have "x AND 0x0F = take_bit 4 x" by (simp add: take_bit_eq_mask mask_eq_exp_minus_1)
    then have "unat (x AND (0x0F :: u8)) = take_bit 4 (unat x)" by (simp only: unsigned_take_bit_eq)
    then show ?thesis by (simp add: take_bit_eq_mod)
  qed
  show "x AND (0x0F :: u8) < 16" unfolding word_less_nat_alt m by simp
  show "(x AND 0x0F = x) \<longleftrightarrow> x < 16" unfolding word_less_nat_alt word_unat_eq_iff m by auto
qed

lemma high_nibble_bound: "drop_bit 4 (b :: u8) < 16"
proof -
  have "take_bit 4 (drop_bit 4 b) = drop_bit 4 b"
    by (rule bit_word_eqI) (auto simp: bit_take_bit_iff bit_drop_bit_eq dest: bit_imp_le_length)
  then show ?thesis using low_nibble(1)[of "drop_bit 4 b"] by (simp add: take_bit_eq_mask mask_eq_exp_minus_1)
qed

section \<open>The ModEx chain\<close>

definition mod_ex_ok :: "mod_ex \<Rightarrow> bool" where
  "mod_ex_ok e \<longleftrightarrow> me_data e \<noteq> [] \<and> length (me_data e) \<le> 65536 \<and> me_type e < 16"

lemma mod_ex_size_run:
  assumes "1 \<le> n" and "n \<le> 65536"
  shows "mod_ex_size (u, (if 1 \<le> n \<and> n \<le> 255 then [word_of_nat (n - 1)]
      else 0xFF # u16_be (word_of_nat (min (n - 1) 0xFFFF))) @ r) = (Inr n, (u, r))"
proof (cases "n \<le> 255")
  case True
  define b where "b = (word_of_nat (n - 1) :: u8)"
  have "unat b = n - 1" using True by (simp add: b_def unat_of_nat take_bit_nat_eq_self)
  then have "unat b + 1 = n" "unat b + 1 \<noteq> 256" using True assms(1) by simp_all
  then show ?thesis using True assms(1) unfolding b_def[symmetric] by (simp add: mod_ex_size_def st_bind_def)
next
  case False
  have "unat (word_of_nat (n - 1) :: u16) = n - 1" using assms by (intro unat_u16_of_nat) simp
  moreover have "cur_be Other 2 (u, u16_be (word_of_nat (n - 1)) @ r) = (Inr (word_of_nat (n - 1) :: u16), (u, r))"
    by (subst cur_be_run) simp_all
  ultimately show ?thesis using False assms by (simp add: mod_ex_size_def st_bind_def)
qed

lemma mod_ex_step_run:
  assumes "mod_ex_ok e" and "next < 16"
  shows "mod_ex_step v (acc, mod_ex_bytes e next @ r) =
    (Inr (if next \<noteq> v then Some next else None), (acc @ [e], r))"
proof -
  define size where "size = (if 1 \<le> length (me_data e) \<and> length (me_data e) \<le> 255 then [word_of_nat (length (me_data e) - 1)]
    else 0xFF # u16_be (word_of_nat (min (length (me_data e) - 1) 0xFFFF)))"
  define b where "b = push_bit 4 (me_type e AND 0x0F) OR (next AND 0x0F)"
  have n: "1 \<le> length (me_data e)" "length (me_data e) \<le> 65536" "me_type e AND 0x0F = me_type e" "next AND 0x0F = next"
    using assms by (simp_all add: mod_ex_ok_def low_nibble Suc_le_eq)
  have b: "drop_bit 4 b AND 0x0F = me_type e" "b AND 0x0F = next"
    unfolding b_def nibbles by (rule n(3), rule n(4))
  have 1: "mod_ex_size (acc, size @ q) = (Inr (length (me_data e)), (acc, q))" for q
    unfolding size_def by (rule mod_ex_size_run[OF n(1,2)])
  have bytes: "mod_ex_bytes e next = size @ me_data e @ [b]"
    by (simp add: mod_ex_bytes_def size_def b_def Let_def)
  show ?thesis
    unfolding bytes by (simp add: mod_ex_step_def st_bind_def 1 b)
qed

lemma shrinks_mod_ex_step: "shrinks 1 (mod_ex_step v)"
  unfolding mod_ex_step_def mod_ex_size_def st_bind_assoc
  by (rule shrinks_bind_first[OF shrinks_u8]) (auto intro!: shrink_intro)

lemma build_mod_ex_chain_Cons:
  "build_mod_ex_chain v pt (e # es) = mod_ex_bytes e (if es = [] then pt else v) @ build_mod_ex_chain v pt es"
  by (cases es) simp_all

lemma mod_ex_until_run:
  assumes "es \<noteq> []" and "list_all mod_ex_ok es" and "v < 16" and "pt < 16" and "pt \<noteq> v"
  shows "st_until (mod_ex_step v) (acc, build_mod_ex_chain v pt es @ r) = (Inr pt, (acc @ es, r))"
  using assms(1,2)
proof (induction es arbitrary: acc)
  case (Cons e es)
  have "mod_ex_step v (acc, build_mod_ex_chain v pt (e # es) @ r) =
    (Inr (if es = [] then Some pt else None), (acc @ [e], build_mod_ex_chain v pt es @ r))"
    using mod_ex_step_run[of e "if es = [] then pt else v" v acc "build_mod_ex_chain v pt es @ r"] Cons.prems assms(3-)
    by (simp add: build_mod_ex_chain_Cons split: if_splits)
  then show ?case using Cons
    by (subst st_until_unfold[OF shrinks_mod_ex_step]) (cases "es = []"; simp add: st_bind_def)
qed simp

lemma mod_ex_chain_reads:
  assumes "es \<noteq> []" and "list_all mod_ex_ok es" and "v < 16" and "pt < 16" and "pt \<noteq> v"
  shows "reads (parse_mod_ex_chain v) (build_mod_ex_chain v pt es) (es, pt)"
  by (simp add: reads_def parse_mod_ex_chain_def with_fresh_def st_bind_def
      mod_ex_until_run[OF assms, of "[]", simplified])

definition chain_result :: "u8 \<Rightarrow> mod_ex list \<times> u8 \<Rightarrow> bool" where
  "chain_result v r \<longleftrightarrow> fst r \<noteq> [] \<and> list_all mod_ex_ok (fst r) \<and> snd r < 16 \<and> snd r \<noteq> v"

lemma fails_mod_ex_step: "fails_with Other (mod_ex_step v)"
  unfolding mod_ex_step_def mod_ex_size_def by (intro fails_intro)

lemma mod_ex_step_hoare:
  "hoare (\<lambda>s. list_all mod_ex_ok (fst s)) (mod_ex_step v)
    (\<lambda>r s. case r of None \<Rightarrow> list_all mod_ex_ok (fst s) | Some pt \<Rightarrow> chain_result v (fst s, pt)) (\<lambda>_. True)"
proof (rule hoareI)
  fix s :: "mod_ex list \<times> u8 list"
  assume I: "list_all mod_ex_ok (fst s)"
  obtain acc bs where s: "s = (acc, bs)" by (rule prod.exhaust)
  have size: "n \<ge> 1 \<and> n \<le> 65536" if "mod_ex_size q = (Inr n, q')" for n and q q' :: "mod_ex list \<times> u8 list"
  proof -
    have "unat (w :: u16) + 1 \<le> 65536" for w using unsigned_less[of w, where ?'a = nat] by simp
    moreover have "unat (b :: u8) + 1 \<le> 65536" for b using unsigned_less[of b, where ?'a = nat] by simp
    ultimately show ?thesis using that by (auto simp: mod_ex_size_def st_bind_eq_Inr st_return_run split: if_splits)
  qed
  have good: "if r = None then list_all mod_ex_ok (fst s') else chain_result v (fst s', the r)"
    if "mod_ex_step v s = (Inr r, s')" for r s'
  proof -
    note step = that
    obtain n a rest1 where n: "mod_ex_size (acc, bs) = (Inr n, (a, rest1))"
      and 1: "st_bind (cur_take Other n) (\<lambda>data. st_bind (cur_u8 Other) (\<lambda>nb.
        st_bind st_get_user (\<lambda>chain. st_bind (st_put_user (chain @ [\<lparr>me_type = drop_bit 4 nb AND 0x0F, me_data = data\<rparr>]))
        (\<lambda>_. st_return (if nb AND 0x0F \<noteq> v then Some (nb AND 0x0F) else None))))) (a, rest1) = (Inr r, s')"
      using step unfolding mod_ex_step_def s by (auto simp: st_bind_eq_Inr[of "mod_ex_size :: (mod_ex list \<times> u8 list, nat) st"])
    obtain nb q data where "drop n rest1 = nb # q" and s': "r = (if nb AND 0x0F \<noteq> v then Some (nb AND 0x0F) else None)"
        "fst s' = a @ [\<lparr>me_type = drop_bit 4 nb AND 0x0F, me_data = data\<rparr>]" "length data = n"
      using 1 by (auto simp: st_bind_def cur_take_def cur_u8_def split: if_splits list.splits)
    have "a = acc"
      using n by (auto simp: mod_ex_size_def st_bind_def cur_u8_def cur_be_def cur_take_def st_return_run
          split: if_splits list.splits sum.splits prod.splits)
    moreover have "mod_ex_ok \<lparr>me_type = drop_bit 4 nb AND 0x0F, me_data = data\<rparr>"
      using size[OF n] s'(3) by (auto simp: mod_ex_ok_def low_nibble(2))
    ultimately show ?thesis using I s s' by (auto simp: chain_result_def low_nibble(2))
  qed
  show "case mod_ex_step v s of (Inr r, s') \<Rightarrow>
      (case r of None \<Rightarrow> list_all mod_ex_ok (fst s') | Some pt \<Rightarrow> chain_result v (fst s', pt))
    | (Inl e, s') \<Rightarrow> e \<noteq> Panic \<and> e \<noteq> OutOfFuel \<and> True"
    using good failsD[OF fails_mod_ex_step[of v], of s] by (auto split: prod.splits sum.splits option.splits)
qed

lemma mod_ex_chain_yields: "yields (parse_mod_ex_chain v) (chain_result v)"
proof -
  have "chain_result v (fst s', pt)"
    if "st_until (mod_ex_step v) ([], bs) = (Inr pt, s')" for bs pt s'
    by (rule hoareD[OF hoare_until[OF shrinks_mod_ex_step mod_ex_step_hoare] _ that]) simp
  then show ?thesis
    by (fastforce simp: yields_def parse_mod_ex_chain_def with_fresh_def st_bind_def st_get_user_def
        split: prod.splits sum.splits)
qed

lemma mod_ex_chain_fails: "fails_with Other (parse_mod_ex_chain v)"
  unfolding parse_mod_ex_chain_def
  by (intro fails_intro fails_until shrinks_mod_ex_step fails_mod_ex_step)

section \<open>The track list\<close>

definition fourcc_ok :: "fourcc \<Rightarrow> bool" where
  "fourcc_ok f \<longleftrightarrow> length f = 4"

definition mt_track_ok :: "u8 \<Rightarrow> mt_track \<Rightarrow> bool" where
  "mt_track_ok ty t \<longleftrightarrow>
     (case mtt_fourcc t of Some f \<Rightarrow> ty = AV_MULTITRACK_TYPE_MANY_TRACKS_MANY_CODECS \<and> fourcc_ok f
      | None \<Rightarrow> ty \<noteq> AV_MULTITRACK_TYPE_MANY_TRACKS_MANY_CODECS)
     \<and> (ty = AV_MULTITRACK_TYPE_ONE_TRACK \<or> length (mtt_body t) < 2 ^ 24)"

definition multitrack_ok :: "multitrack \<Rightarrow> bool" where
  "multitrack_ok m \<longleftrightarrow> mt_type m < 16 \<and> mt_tracks m \<noteq> [] \<and> list_all (mt_track_ok (mt_type m)) (mt_tracks m)
     \<and> (mt_type m = AV_MULTITRACK_TYPE_ONE_TRACK \<longrightarrow> length (mt_tracks m) = 1)"

lemma u24_len: "n < 2 ^ 24 \<Longrightarrow> length l = 3 \<Longrightarrow> l = u24_be (word_of_nat n) \<Longrightarrow> unat (of_u24 (l ! 0) (l ! 1) (l ! 2)) = n"
  by (simp add: u24_be_def of_u24_u24_be word_take_bit_id unat_of_nat take_bit_nat_eq_self)

lemma mt_track_run:
  assumes "mt_track_ok ty t" and "ty = AV_MULTITRACK_TYPE_ONE_TRACK \<longrightarrow> r = []"
  shows "mt_track_reader ty (u, mt_track_bytes ty t @ r) = (Inr t, (u, r))"
proof (cases "ty = AV_MULTITRACK_TYPE_ONE_TRACK")
  case True
  then show ?thesis using assms
    by (cases "mtt_fourcc t")
      (simp_all add: mt_track_reader_def mt_track_bytes_def mt_track_ok_def st_bind_def multitrack_types cur_take_def)
next
  case False
  define l where "l = u24_be (word_of_nat (length (mtt_body t)))"
  have l: "length l = 3" "unat (of_u24 (l ! 0) (l ! 1) (l ! 2)) = length (mtt_body t)"
    using u24_len[OF _ _ l_def] assms(1) False by (simp_all add: l_def mt_track_ok_def)
  show ?thesis
  proof (cases "mtt_fourcc t")
    case None
    then show ?thesis using assms(1) False
      by (simp add: mt_track_reader_def mt_track_bytes_def mt_track_ok_def st_bind_def l_def[symmetric]
          l[unfolded One_nat_def])
  next
    case (Some f)
    then show ?thesis using assms(1) False
      by (simp add: mt_track_reader_def mt_track_bytes_def mt_track_ok_def st_bind_def l_def[symmetric]
          l[unfolded One_nat_def] fourcc_ok_def)
  qed
qed

lemma shrinks_u8_bind: "(\<And>b. shrinks 0 (f b)) \<Longrightarrow> shrinks 1 (st_bind (cur_u8 e) f)"
  by (rule shrinks_bind_first[OF shrinks_u8])

lemma shrinks_mt_track: "shrinks 1 (mt_track_reader ty)"
  unfolding mt_track_reader_def
  by (rule shrinks_bind[of 0 _ 1, unfolded add_0])
    (auto intro!: shrink_intro shrinks_u8_bind[unfolded One_nat_def])

lemma fails_mt_track: "fails_with Other (mt_track_reader ty)"
  unfolding mt_track_reader_def by (intro fails_intro)

interpretation mt_items: item_parser "mt_track_reader ty" for ty
  by unfold_locales (rule shrinks_mt_track, rule fails_safe[OF fails_mt_track], simp_all)

lemma yields_mt_track: "yields (mt_track_reader ty) (mt_track_ok ty)"
proof -
  have u24: "unat (of_u24 a b c) < 2 ^ 24" for a b c
  proof -
    have "of_u24 a b c = take_bit 24 (of_u24 a b c)"
      by (rule bit_word_eqI) (auto simp: of_u24_def bit_simps dest: bit_imp_le_length)
    then show ?thesis by (metis take_bit_nat_less_exp unsigned_take_bit_eq)
  qed
  show ?thesis
    unfolding mt_track_reader_def
    by (rule yields_bind[where R = "\<lambda>f. case f of Some g \<Rightarrow> ty = AV_MULTITRACK_TYPE_MANY_TRACKS_MANY_CODECS \<and> fourcc_ok g
        | None \<Rightarrow> ty \<noteq> AV_MULTITRACK_TYPE_MANY_TRACKS_MANY_CODECS"],
      force intro!: yields_intro simp: fourcc_ok_def,
      rule yields_bind_any,
      rule yields_bind[where R = "\<lambda>b. ty = AV_MULTITRACK_TYPE_ONE_TRACK \<or> length b < 2 ^ 24"],
      auto intro!: yields_intro yields_mono[OF yields_take] simp: u24[simplified] mt_track_ok_def yields_any)
qed

lemma multitrack_parses:
  assumes "multitrack_ok m"
  shows "reads_all (multitrack_reader (mt_type m) :: ('u \<times> u8 list, multitrack) st) (multitrack_encode m) m"
proof -
  let ?ty = "mt_type m"
  have ne: "multitrack_encode m \<noteq> []"
    using assms by (cases "mt_tracks m") (auto simp: multitrack_ok_def multitrack_encode_def mt_track_bytes_def)
  define P :: "('u \<times> u8 list, mt_track list) st" where
    "P = (if ?ty = AV_MULTITRACK_TYPE_ONE_TRACK
          then st_bind (mt_track_reader ?ty) (\<lambda>t. st_return [t]) else while_input (mt_track_reader ?ty))"
  have "reads_all P (multitrack_encode m) (mt_tracks m)"
  proof (cases "?ty = AV_MULTITRACK_TYPE_ONE_TRACK")
    case True
    then obtain t where t: "mt_tracks m = [t]"
      using assms by (auto simp: multitrack_ok_def length_Suc_conv)
    have "mt_track_reader ?ty (u, mt_track_bytes ?ty t) = (Inr t, (u, []))" for u :: 'u
      using mt_track_run[of ?ty t "[]" u] assms t by (simp add: multitrack_ok_def)
    then show ?thesis using True t by (simp add: P_def reads_all_def st_bind_def multitrack_encode_def)
  next
    case False
    have "reads (mt_track_reader ?ty :: ('u \<times> u8 list, mt_track) st) (mt_track_bytes ?ty t) t" if "t \<in> set (mt_tracks m)" for t
      using that assms False by (auto simp: reads_def multitrack_ok_def list_all_iff intro!: exI mt_track_run)
    from reads_all_while[OF shrinks_mt_track this]
    show ?thesis using False by (simp add: P_def multitrack_encode_def)
  qed
  note reads_all_return[OF this, of "\<lambda>ts. \<lparr>mt_type = ?ty, mt_tracks = ts\<rparr>"]
  moreover have "\<lparr>mt_type = ?ty, mt_tracks = mt_tracks m\<rparr> = m" by (cases m) simp
  ultimately show ?thesis using ne unfolding multitrack_reader_def P_def[symmetric] by (simp add: reads_all_def st_bind_def[of st_rest])
qed

lemma yields_multitrack:
  assumes "ty < 16"
  shows "yields (multitrack_reader ty :: ('u \<times> u8 list, multitrack) st) (\<lambda>m. multitrack_ok m \<and> mt_type m = ty)"
proof -
  have one: "yields (st_bind (mt_track_reader ty :: ('u \<times> u8 list, mt_track) st) (\<lambda>t. st_return [t])) (\<lambda>ts. length ts = 1 \<and> list_all (mt_track_ok ty) ts)"
    by (rule yields_bind[OF yields_mt_track]) (simp add: yields_return)
  have many: "ts \<noteq> [] \<and> list_all (mt_track_ok ty) ts"
    if "while_input (mt_track_reader ty) (u, bs) = (Inr ts, s')" and "bs \<noteq> []" for u :: 'u and bs ts s'
  proof -
    have "list_all (mt_track_ok ty) ts" by (rule yieldsD[OF yields_while[OF yields_mt_track] that(1)])
    moreover have "ts \<noteq> []" using that
      by (auto simp: mt_items.while_unfold[of _ _ bs] st_bind_eq_Inr st_return_run)
    ultimately show ?thesis by simp
  qed
  show ?thesis
  proof (cases "ty = AV_MULTITRACK_TYPE_ONE_TRACK")
    case True
    show ?thesis unfolding multitrack_reader_def if_P[OF True]
      by (intro yields_bind_any yields_if yields_throw yields_bind[OF one] yields_return)
        (use assms in \<open>auto simp: multitrack_ok_def\<close>)
  next
    case False
    have "multitrack_ok m \<and> mt_type m = ty" if "multitrack_reader ty (u, bs) = (Inr m, s')" for u :: 'u and bs m s'
      using that assms False unfolding multitrack_reader_def if_not_P[OF False]
      by (auto simp: st_bind_def[of st_rest] st_bind_eq_Inr[of "while_input _"] st_return_run multitrack_ok_def
          dest: many split: if_splits)
    then show ?thesis unfolding yields_def by (metis prod.exhaust)
  qed
qed

lemma fails_multitrack: "fails_with Other (multitrack_reader ty)"
  unfolding multitrack_reader_def
  by (intro fails_intro fails_while shrinks_mt_track fails_mt_track)

lemma yields_bind_pair:
  "yields p R \<Longrightarrow> (\<And>a b. R (a, b) \<Longrightarrow> yields (f a b) Q) \<Longrightarrow> yields (st_bind p (\<lambda>(a, b). f a b)) Q"
  by (rule yields_bind[of p R]) (auto split: prod.split)

lemma fails_bind_yields:
  "yields p R \<Longrightarrow> fails_with e p \<Longrightarrow> (\<And>x. R x \<Longrightarrow> fails_with e (f x)) \<Longrightarrow> fails_with e (st_bind p f)"
  by (fastforce simp: fails_with_def yields_def st_bind_def split: prod.splits sum.splits)

lemma reads_all_returnI:
  "reads_all p bs x \<Longrightarrow> y = g x \<Longrightarrow> reads_all (st_bind p (\<lambda>x. st_return (g x))) bs y"
  by (simp add: reads_all_return)

section \<open>The preludes\<close>

lemma mod_ex_prelude_reads:
  assumes "list_all mod_ex_ok es" and "v < 16" and "pt < 16" and "pt \<noteq> v"
  shows "reads (mod_ex_prelude v (if es = [] then pt else v)) (build_mod_ex_chain v pt es) (es, pt)"
  using assms mod_ex_chain_reads[of es v pt] by (auto simp: mod_ex_prelude_def reads_return)

lemma mod_ex_prelude_yields:
  "pt < 16 \<Longrightarrow> yields (mod_ex_prelude v pt) (\<lambda>r. list_all mod_ex_ok (fst r) \<and> snd r < 16 \<and> snd r \<noteq> v)"
  unfolding mod_ex_prelude_def
  by (intro yields_if yields_mono[OF mod_ex_chain_yields] yields_return) (auto simp: chain_result_def)

lemma mod_ex_prelude_fails: "fails_with Other (mod_ex_prelude v pt)"
  unfolding mod_ex_prelude_def by (intro fails_intro mod_ex_chain_fails)

lemma multitrack_prelude_reads:
  "pt \<noteq> v \<Longrightarrow> reads (multitrack_prelude v pt) [] (None, pt)"
  "pt \<noteq> v \<Longrightarrow> pt < 16 \<Longrightarrow> ty < 16 \<Longrightarrow>
     reads (multitrack_prelude v v) [push_bit 4 (ty AND 0x0F) OR (pt AND 0x0F)] (Some ty, pt)"
proof -
  show "pt \<noteq> v \<Longrightarrow> reads (multitrack_prelude v pt) [] (None, pt)"
    by (simp add: multitrack_prelude_def reads_return)
  assume a: "pt \<noteq> v" "pt < 16" "ty < 16"
  define b where "b = push_bit 4 (ty AND 0x0F) OR (pt AND 0x0F)"
  have b: "drop_bit 4 b AND 0x0F = ty" "b AND 0x0F = pt"
    using a low_nibble(1) unfolding b_def nibbles by blast+
  show "reads (multitrack_prelude v v) [push_bit 4 (ty AND 0x0F) OR (pt AND 0x0F)] (Some ty, pt)"
    using a unfolding b_def[symmetric] by (simp add: multitrack_prelude_def reads_u8_bind b reads_return)
qed

lemma multitrack_prelude_yields:
  "pt < 16 \<Longrightarrow> yields (multitrack_prelude v pt) (\<lambda>r. snd r < 16 \<and> snd r \<noteq> v \<and>
     (case fst r of Some ty \<Rightarrow> ty < 16 | None \<Rightarrow> snd r = pt))"
  unfolding multitrack_prelude_def Let_def by (auto intro!: yields_intro simp: low_nibble(2))

lemma multitrack_prelude_fails: "fails_with Other (multitrack_prelude v pt)"
  unfolding multitrack_prelude_def Let_def by (intro fails_intro)

lemma shared_fourcc_reads:
  "fourcc_ok f \<Longrightarrow> mt \<noteq> Some AV_MULTITRACK_TYPE_MANY_TRACKS_MANY_CODECS \<Longrightarrow> reads (shared_fourcc mt) f (Some f)"
  "reads (shared_fourcc (Some AV_MULTITRACK_TYPE_MANY_TRACKS_MANY_CODECS)) [] None"
  by (auto simp: shared_fourcc_def fourcc_ok_def reads_return split: option.splits
      intro!: reads_bind_nil reads_take)

lemma shared_fourcc_yields:
  "yields (shared_fourcc mt) (\<lambda>r. case r of Some f \<Rightarrow> fourcc_ok f \<and> mt \<noteq> Some AV_MULTITRACK_TYPE_MANY_TRACKS_MANY_CODECS
     | None \<Rightarrow> mt = Some AV_MULTITRACK_TYPE_MANY_TRACKS_MANY_CODECS)"
  unfolding shared_fourcc_def by (auto intro!: yields_intro simp: fourcc_ok_def split: option.splits)

lemma shared_fourcc_fails: "fails_with Other (shared_fourcc mt)"
  unfolding shared_fourcc_def by (intro fails_intro)

definition preludes_ok :: "u8 \<Rightarrow> u8 \<Rightarrow> mod_ex list \<Rightarrow> u8 option \<Rightarrow> u8 \<Rightarrow> fourcc option \<Rightarrow> bool" where
  "preludes_ok mtv mev chain mt pt f \<longleftrightarrow> list_all mod_ex_ok chain \<and> pt < 16 \<and> pt \<noteq> mtv
     \<and> (case mt of Some ty \<Rightarrow> ty < 16 | None \<Rightarrow> pt \<noteq> mev)
     \<and> (case f of Some g \<Rightarrow> fourcc_ok g \<and> mt \<noteq> Some AV_MULTITRACK_TYPE_MANY_TRACKS_MANY_CODECS
        | None \<Rightarrow> mt = Some AV_MULTITRACK_TYPE_MANY_TRACKS_MANY_CODECS)"

lemma ex_preludes_reads:
  assumes ok: "preludes_ok mtv mev chain mt pt f" and v: "mtv < 16" "mev < 16" "mtv \<noteq> mev"
  shows "reads (ex_preludes mtv mev (ex_header_pt mtv mev chain mt pt)) (ex_prelude_bytes mtv mev chain mt pt f)
    (chain, mt, pt, f)"
proof -
  define post where "post = post_mod_ex_pt mtv mt pt"
  have post: "post < 16" "post \<noteq> mev" and c: "list_all mod_ex_ok chain"
    using ok v by (auto simp: post_def post_mod_ex_pt_def preludes_ok_def split: option.splits)
  let ?nib = "case mt of Some ty \<Rightarrow> [push_bit 4 (ty AND 0x0F) OR (pt AND 0x0F)] | None \<Rightarrow> []"
  have 1: "reads (mod_ex_prelude mev (ex_header_pt mtv mev chain mt pt)) (build_mod_ex_chain mev post chain) (chain, post)"
    unfolding ex_header_pt_def post_def[symmetric] by (rule mod_ex_prelude_reads[OF c v(2) post])
  have 2: "reads (multitrack_prelude mtv post) ?nib (mt, pt)"
  proof (cases mt)
    case None
    then show ?thesis using ok multitrack_prelude_reads(1)[of pt mtv] by (simp add: post_def post_mod_ex_pt_def preludes_ok_def)
  next
    case (Some ty)
    then have "pt \<noteq> mtv" "pt < 16" "ty < 16" using ok by (simp_all add: preludes_ok_def)
    from multitrack_prelude_reads(2)[OF this] show ?thesis unfolding Some post_def post_mod_ex_pt_def by simp
  qed
  have 3: "reads (shared_fourcc mt) (if mt \<noteq> Some AV_MULTITRACK_TYPE_MANY_TRACKS_MANY_CODECS
        then (case f of Some g \<Rightarrow> g | None \<Rightarrow> [0, 0, 0, 0]) else []) f"
    using ok by (auto simp: preludes_ok_def shared_fourcc_reads split: option.splits)
  show ?thesis
    unfolding ex_preludes_def ex_prelude_bytes_def post_def[symmetric]
    by (rule reads_bind[OF 1], unfold prod.case, rule reads_bind[OF 2], unfold prod.case,
        rule reads_bind_nil[OF 3 reads_return])
qed

lemma ex_preludes_yields:
  "pt0 < 16 \<Longrightarrow> yields (ex_preludes mtv mev pt0) (\<lambda>(chain, mt, pt, f). preludes_ok mtv mev chain mt pt f)"
  unfolding ex_preludes_def
  by (rule yields_bind_pair[OF mod_ex_prelude_yields], assumption,
      rule yields_bind_pair[OF multitrack_prelude_yields], simp,
      rule yields_bind[OF shared_fourcc_yields], rule yields_return)
    (auto simp: preludes_ok_def split: option.splits)

lemma take_rest_reads: "reads_all take_rest bs bs"
  by (simp add: reads_all_def take_rest_def)

lemma take_rest_fails: "fails_with e take_rest"
  by (auto simp: fails_with_def take_rest_def)

lemma ex_preludes_fails: "fails_with Other (ex_preludes mtv mev pt0)"
  unfolding ex_preludes_def
  by (auto intro!: fails_intro mod_ex_prelude_fails multitrack_prelude_fails shared_fourcc_fails split: prod.split)

section \<open>The plan\<close>

lemma plan_error: "plan_multitrack fc ep im hm ptm ptx ty tracks = Inl e \<Longrightarrow> e = Other"
  by (auto simp: plan_multitrack_def Let_def split: if_splits option.splits)

lemma plan_facts:
  assumes "plan_multitrack fc ep im hm ptm ptx ty tracks = Inr p"
  shows "tracks \<noteq> []" "ty = AV_MULTITRACK_TYPE_ONE_TRACK \<Longrightarrow> length tracks = 1"
    "mp_inner_packet_type p \<noteq> ptm" "mp_inner_packet_type p \<noteq> ptx"
    "mp_per_track_fourcc p \<longleftrightarrow> ty = AV_MULTITRACK_TYPE_MANY_TRACKS_MANY_CODECS"
    "(i, t) \<in> set tracks \<Longrightarrow> ep t = Some (mp_inner_packet_type p) \<and> \<not> im t \<and> \<not> hm t
      \<and> (\<exists>f. fc t = Some f \<and> mp_shared_fourcc p = (if mp_per_track_fourcc p then None else Some f))"
  using assms unfolding plan_multitrack_def Let_def
  by (fastforce simp: list_ex_iff split: if_splits option.splits)+

section \<open>Splitting what was joined\<close>

text \<open>
  What the two kinds of tag have in common: a parser that inverts the builder, and the shape
  of a built single-track tag (header byte, FourCC, body).  In this contract splitting a joined
  tag gives the tracks back.
\<close>

locale track_codec =
  fixes parse :: "u8 list \<Rightarrow> 't result" and build :: "'t \<Rightarrow> u8 list" and ok :: "'t \<Rightarrow> bool"
    and fourcc :: "'t \<Rightarrow> fourcc option" and ex_pt :: "'t \<Rightarrow> u8 option"
    and is_mt :: "'t \<Rightarrow> bool" and has_mod_ex :: "'t \<Rightarrow> bool"
    and head :: "'t \<Rightarrow> u8" and pt_multitrack :: u8 and pt_mod_ex :: u8
  assumes parse_build: "ok t \<Longrightarrow> parse (build t) = Inr t"
    and build_single: "ok t \<Longrightarrow> \<not> is_mt t \<Longrightarrow> \<not> has_mod_ex t \<Longrightarrow> fourcc t = Some f \<Longrightarrow>
      \<exists>body. build t = head t # f @ body \<and> length f = 4"
    and pt_nibble: "ok t \<Longrightarrow> ex_pt t = Some pt \<Longrightarrow> pt < 16"
begin

lemma demux_mux:
  assumes plan: "plan_multitrack fourcc ex_pt is_mt has_mod_ex pt_multitrack pt_mod_ex ty tracks = Inr p"
    and ok: "\<forall>(i, t) \<in> set tracks. ok t \<and> head t = h"
  shows "demux_with parse h (mp_shared_fourcc p) (mux_with build fourcc (mp_per_track_fourcc p) tracks) = Inr tracks"
proof -
  have single: "list_all (\<lambda>(i, t). \<not> is_mt t \<and> \<not> has_mod_ex t \<and>
      (\<exists>f. fourcc t = Some f \<and> (if mp_per_track_fourcc p then mp_shared_fourcc p = None else mp_shared_fourcc p = Some f))) tracks"
    using plan_facts(6)[OF plan] unfolding list_all_iff by fastforce
  have "\<forall>(i, t) \<in> set ts. ok t \<and> head t = h \<Longrightarrow> list_all (\<lambda>(i, t). \<not> is_mt t \<and> \<not> has_mod_ex t \<and>
      (\<exists>f. fourcc t = Some f \<and> (if mp_per_track_fourcc p then mp_shared_fourcc p = None else mp_shared_fourcc p = Some f))) ts \<Longrightarrow>
    demux_with parse h (mp_shared_fourcc p) (mux_with build fourcc (mp_per_track_fourcc p) ts) = Inr ts" for ts
  proof (induction ts)
    case (Cons x ts)
    obtain i t where x: "x = (i, t)" by (rule prod.exhaust)
    obtain f where f: "fourcc t = Some f" "\<not> is_mt t" "\<not> has_mod_ex t"
        "if mp_per_track_fourcc p then mp_shared_fourcc p = None else mp_shared_fourcc p = Some f"
      using Cons.prems(2) x by auto
    have t: "ok t" "head t = h" using Cons.prems(1) x by auto
    obtain body where b: "build t = h # f @ body" "length f = 4"
      using build_single[OF t(1) f(2,3,1)] t(2) by auto
    have "parse (h # f @ body) = Inr t" using parse_build[OF t(1)] b by simp
    then show ?case using Cons x f b by (auto simp: mux_with_def split: if_splits)
  qed (simp add: mux_with_def)
  from this[OF ok single] show ?thesis .
qed

lemma joined_ok:
  assumes plan: "plan_multitrack fourcc ex_pt is_mt has_mod_ex pt_multitrack pt_mod_ex ty tracks = Inr p"
    and ok: "\<forall>(i, t) \<in> set tracks. ok t" and ty: "ty < 16"
    and size: "\<forall>(i, t) \<in> set tracks. length (build t) < 2 ^ 24 + 5"
  shows "multitrack_ok \<lparr>mt_type = ty, mt_tracks = mux_with build fourcc (mp_per_track_fourcc p) tracks\<rparr>"
    and "preludes_ok pt_multitrack pt_mod_ex [] (Some ty) (mp_inner_packet_type p) (mp_shared_fourcc p)"
proof -
  note f = plan_facts[OF plan]
  obtain i t where x: "(i, t) \<in> set tracks" using f(1) by (cases tracks) auto
  have fo: "fourcc_ok g" if "(i, t) \<in> set tracks" "fourcc t = Some g" for i t g
    using build_single[of t g] that ok f(6)[OF that(1)] by (auto simp: fourcc_ok_def)
  have "mp_inner_packet_type p < 16" using pt_nibble[of t] ok x f(6)[OF x] by auto
  then show "preludes_ok pt_multitrack pt_mod_ex [] (Some ty) (mp_inner_packet_type p) (mp_shared_fourcc p)"
    using f(3,5) f(6)[OF x] fo[OF x] ty by (auto simp: preludes_ok_def)
  have "mt_track_ok ty \<lparr>mtt_fourcc = if mp_per_track_fourcc p then fourcc t else None, mtt_track_id = i,
      mtt_body = drop 5 (build t)\<rparr>" if "(i, t) \<in> set tracks" for i t
    using that f(5) f(6)[OF that] fo[OF that] size by (auto simp: mt_track_ok_def)
  then show "multitrack_ok \<lparr>mt_type = ty, mt_tracks = mux_with build fourcc (mp_per_track_fourcc p) tracks\<rparr>"
    using f(1,2) ty by (auto simp: multitrack_ok_def mux_with_def list_all_iff)
qed

end

end
