(* ===== verification/Flv_Video.thy ===== *)
theory Flv_Video
  imports Flv_Tag Float64
begin

text \<open>
  Video tags of \<open>flv.rs\<close>: \<open>parse_video\<close> and \<open>build_video\<close> for the legacy and the
  Enhanced-RTMP framing, the tag constructors and predicates, and Multitrack tags split into and
  joined from single tracks.
\<close>

section \<open>The code\<close>

definition VIDEO_FRAME_KEYFRAME :: u8 where "VIDEO_FRAME_KEYFRAME = 1"
definition VIDEO_FRAME_INTER :: u8 where "VIDEO_FRAME_INTER = 2"
definition VIDEO_FRAME_GENERATED_KEY :: u8 where "VIDEO_FRAME_GENERATED_KEY = 4"
definition VIDEO_FRAME_INFO :: u8 where "VIDEO_FRAME_INFO = 5"
definition VIDEO_FRAME_COMMAND :: u8 where "VIDEO_FRAME_COMMAND = 5"
definition VIDEO_CODEC_AVC :: u8 where "VIDEO_CODEC_AVC = 7"
definition AVC_PACKET_TYPE_SEQUENCE_HEADER :: u8 where "AVC_PACKET_TYPE_SEQUENCE_HEADER = 0"
definition AVC_PACKET_TYPE_NALU :: u8 where "AVC_PACKET_TYPE_NALU = 1"
definition VIDEO_IS_EX_HEADER :: u8 where "VIDEO_IS_EX_HEADER = 0x80"
definition EX_PACKET_TYPE_SEQUENCE_START :: u8 where "EX_PACKET_TYPE_SEQUENCE_START = 0"
definition EX_PACKET_TYPE_CODED_FRAMES :: u8 where "EX_PACKET_TYPE_CODED_FRAMES = 1"
definition EX_PACKET_TYPE_SEQUENCE_END :: u8 where "EX_PACKET_TYPE_SEQUENCE_END = 2"
definition EX_PACKET_TYPE_METADATA :: u8 where "EX_PACKET_TYPE_METADATA = 4"
definition EX_PACKET_TYPE_MPEG2TS_SEQUENCE_START :: u8 where "EX_PACKET_TYPE_MPEG2TS_SEQUENCE_START = 5"
definition EX_PACKET_TYPE_MULTITRACK :: u8 where "EX_PACKET_TYPE_MULTITRACK = 6"
definition EX_PACKET_TYPE_MOD_EX :: u8 where "EX_PACKET_TYPE_MOD_EX = 7"
definition FOURCC_AV1 :: fourcc where "FOURCC_AV1 = lit ''av01''"
definition FOURCC_HEVC :: fourcc where "FOURCC_HEVC = lit ''hvc1''"
definition FOURCC_AVC :: fourcc where "FOURCC_AVC = lit ''avc1''"
definition FOURCC_VVC :: fourcc where "FOURCC_VVC = lit ''vvc1''"

lemmas video_consts = VIDEO_FRAME_COMMAND_def VIDEO_CODEC_AVC_def VIDEO_IS_EX_HEADER_def
  EX_PACKET_TYPE_CODED_FRAMES_def EX_PACKET_TYPE_METADATA_def EX_PACKET_TYPE_MULTITRACK_def
  EX_PACKET_TYPE_MOD_EX_def AVC_PACKET_TYPE_NALU_def

record video_tag =
  vt_frame_type :: u8
  vt_codec_id :: u8
  vt_avc_packet_type :: "u8 option"
  vt_composition_time :: i32
  vt_body :: "u8 list"
  vt_ex_packet_type :: "u8 option"
  vt_fourcc :: "fourcc option"
  vt_mod_ex :: "mod_ex list"
  vt_multitrack :: "multitrack option"

definition vt_is_keyframe :: "video_tag \<Rightarrow> bool" where
  "vt_is_keyframe t \<longleftrightarrow> vt_frame_type t = VIDEO_FRAME_KEYFRAME \<or> vt_frame_type t = VIDEO_FRAME_GENERATED_KEY"

definition vt_is_avc_sequence_header :: "video_tag \<Rightarrow> bool" where
  "vt_is_avc_sequence_header t \<longleftrightarrow>
     vt_codec_id t = VIDEO_CODEC_AVC \<and> vt_avc_packet_type t = Some AVC_PACKET_TYPE_SEQUENCE_HEADER"

definition vt_is_ex_sequence_header :: "video_tag \<Rightarrow> bool" where
  "vt_is_ex_sequence_header t \<longleftrightarrow>
     vt_fourcc t \<noteq> None \<and> vt_ex_packet_type t = Some EX_PACKET_TYPE_SEQUENCE_START"

definition vt_is_ex_mpeg2ts_sequence_start :: "video_tag \<Rightarrow> bool" where
  "vt_is_ex_mpeg2ts_sequence_start t \<longleftrightarrow>
     vt_fourcc t \<noteq> None \<and> vt_ex_packet_type t = Some EX_PACKET_TYPE_MPEG2TS_SEQUENCE_START"

definition mpeg2ts_video_descriptor :: "video_tag \<Rightarrow> u8 list option" where
  "mpeg2ts_video_descriptor t =
    (if vt_is_ex_mpeg2ts_sequence_start t \<and> vt_fourcc t = Some FOURCC_AV1 then Some (vt_body t) else None)"

definition vt_is_ex_metadata :: "video_tag \<Rightarrow> bool" where
  "vt_is_ex_metadata t \<longleftrightarrow> vt_fourcc t \<noteq> None \<and> vt_ex_packet_type t = Some EX_PACKET_TYPE_METADATA"

definition vt_is_ex_sequence_end :: "video_tag \<Rightarrow> bool" where
  "vt_is_ex_sequence_end t \<longleftrightarrow> vt_fourcc t \<noteq> None \<and> vt_ex_packet_type t = Some EX_PACKET_TYPE_SEQUENCE_END"

definition vt_is_command :: "video_tag \<Rightarrow> bool" where
  "vt_is_command t \<longleftrightarrow>
     vt_frame_type t = VIDEO_FRAME_COMMAND \<and> vt_ex_packet_type t \<noteq> Some EX_PACKET_TYPE_METADATA"

definition video_command :: "video_tag \<Rightarrow> u8 option" where
  "video_command t = (if \<not> vt_is_command t then None else (case vt_body t of [] \<Rightarrow> None | b # _ \<Rightarrow> Some b))"

definition vt_timestamp_offset_nano :: "video_tag \<Rightarrow> u32" where
  "vt_timestamp_offset_nano t = sum_offset_nano (vt_mod_ex t)"

definition vt_is_multitrack :: "video_tag \<Rightarrow> bool" where
  "vt_is_multitrack t \<longleftrightarrow> vt_multitrack t \<noteq> None"

subsection \<open>Constructors\<close>

definition mpeg2ts_sequence_start_tag :: "fourcc \<Rightarrow> u8 list \<Rightarrow> video_tag" where
  "mpeg2ts_sequence_start_tag f body = \<lparr>vt_frame_type = VIDEO_FRAME_KEYFRAME, vt_codec_id = 0,
     vt_avc_packet_type = None, vt_composition_time = 0, vt_body = body,
     vt_ex_packet_type = Some EX_PACKET_TYPE_MPEG2TS_SEQUENCE_START, vt_fourcc = Some f, vt_mod_ex = [],
     vt_multitrack = None\<rparr>"

definition video_sequence_end_tag :: "fourcc \<Rightarrow> video_tag" where
  "video_sequence_end_tag f = \<lparr>vt_frame_type = VIDEO_FRAME_INTER, vt_codec_id = 0,
     vt_avc_packet_type = None, vt_composition_time = 0, vt_body = [],
     vt_ex_packet_type = Some EX_PACKET_TYPE_SEQUENCE_END, vt_fourcc = Some f, vt_mod_ex = [],
     vt_multitrack = None\<rparr>"

definition command_tag :: "u8 \<Rightarrow> u8 \<Rightarrow> video_tag" where
  "command_tag codec_id command = \<lparr>vt_frame_type = VIDEO_FRAME_COMMAND, vt_codec_id = codec_id,
     vt_avc_packet_type = None, vt_composition_time = 0, vt_body = [command],
     vt_ex_packet_type = None, vt_fourcc = None, vt_mod_ex = [], vt_multitrack = None\<rparr>"

definition command_tag_ex :: "fourcc \<Rightarrow> u8 \<Rightarrow> video_tag" where
  "command_tag_ex f command = \<lparr>vt_frame_type = VIDEO_FRAME_COMMAND, vt_codec_id = 0,
     vt_avc_packet_type = None, vt_composition_time = 0, vt_body = [command],
     vt_ex_packet_type = Some EX_PACKET_TYPE_CODED_FRAMES, vt_fourcc = Some f, vt_mod_ex = [],
     vt_multitrack = None\<rparr>"

definition video_multitrack_tag :: "u8 \<Rightarrow> u8 \<Rightarrow> fourcc option \<Rightarrow> multitrack \<Rightarrow> video_tag" where
  "video_multitrack_tag frame_type real_pt shared m = \<lparr>vt_frame_type = frame_type, vt_codec_id = 0,
     vt_avc_packet_type = None, vt_composition_time = 0, vt_body = [],
     vt_ex_packet_type = Some real_pt, vt_fourcc = shared, vt_mod_ex = [], vt_multitrack = Some m\<rparr>"

subsection \<open>Parsing\<close>

definition sign_extend_si24 :: "i32 \<Rightarrow> i32" where
  "sign_extend_si24 raw = (if raw AND 0x00800000 \<noteq> 0 then raw OR (- 0x01000000) else raw)"

text \<open>The condition for a composition time on the wire, which parser and builder both spell out.\<close>

definition needs_cts :: "u8 \<Rightarrow> u8 \<Rightarrow> fourcc \<Rightarrow> bool" where
  "needs_cts frame_type pt fcc \<longleftrightarrow>
     \<not> (frame_type = VIDEO_FRAME_COMMAND \<and> pt \<noteq> EX_PACKET_TYPE_METADATA)
     \<and> pt = EX_PACKET_TYPE_CODED_FRAMES \<and> (fcc = FOURCC_HEVC \<or> fcc = FOURCC_AVC \<or> fcc = FOURCC_VVC)"

definition read_cts :: "('u \<times> u8 list, i32) st" where
  "read_cts = st_bind (cur_take Other 3) (\<lambda>l. st_return (sign_extend_si24 (of_u24 (l ! 0) (l ! 1) (l ! 2))))"

definition ex_video_body ::
  "u8 \<Rightarrow> mod_ex list \<Rightarrow> u8 option \<Rightarrow> u8 \<Rightarrow> fourcc option \<Rightarrow> ('u \<times> u8 list, video_tag) st" where
  "ex_video_body frame_type chain mt pt fcc_opt =
    (case mt of
       Some ty \<Rightarrow> st_bind (multitrack_reader ty) (\<lambda>m.
         st_return \<lparr>vt_frame_type = frame_type, vt_codec_id = 0, vt_avc_packet_type = None,
           vt_composition_time = 0, vt_body = [], vt_ex_packet_type = Some pt, vt_fourcc = fcc_opt,
           vt_mod_ex = chain, vt_multitrack = Some m\<rparr>)
     | None \<Rightarrow>
         let fcc = (case fcc_opt of Some f \<Rightarrow> f | None \<Rightarrow> [0, 0, 0, 0]) in
         st_bind (if needs_cts frame_type pt fcc then read_cts else st_return 0) (\<lambda>cts.
         st_bind take_rest (\<lambda>body.
         st_return \<lparr>vt_frame_type = frame_type, vt_codec_id = 0, vt_avc_packet_type = None,
           vt_composition_time = cts, vt_body = body, vt_ex_packet_type = Some pt,
           vt_fourcc = Some fcc, vt_mod_ex = chain, vt_multitrack = None\<rparr>)))"

definition ex_video_reader :: "u8 \<Rightarrow> ('u \<times> u8 list, video_tag) st" where
  "ex_video_reader b0 =
     st_bind (ex_preludes EX_PACKET_TYPE_MULTITRACK EX_PACKET_TYPE_MOD_EX (b0 AND 0x0F)) (\<lambda>(chain, mt, pt, fcc_opt).
     ex_video_body (drop_bit 4 b0 AND 0x07) chain mt pt fcc_opt)"

definition legacy_avc_fields :: "u8 \<Rightarrow> u8 \<Rightarrow> ('u \<times> u8 list, u8 option \<times> i32) st" where
  "legacy_avc_fields frame_type codec_id =
    (if frame_type = VIDEO_FRAME_COMMAND then st_return (None, 0)
     else if codec_id = VIDEO_CODEC_AVC then
       st_bind (cur_take Other 4) (\<lambda>h.
       st_return (Some (h ! 0), sign_extend_si24 (of_u24 (h ! 1) (h ! 2) (h ! 3))))
     else st_return (None, 0))"

definition legacy_video_reader :: "u8 \<Rightarrow> ('u \<times> u8 list, video_tag) st" where
  "legacy_video_reader b0 =
    (let frame_type = drop_bit 4 b0; codec_id = b0 AND 0x0F in
     st_bind (legacy_avc_fields frame_type codec_id) (\<lambda>(apt, cts).
     st_bind take_rest (\<lambda>body.
     st_return \<lparr>vt_frame_type = frame_type, vt_codec_id = codec_id, vt_avc_packet_type = apt,
       vt_composition_time = cts, vt_body = body, vt_ex_packet_type = None, vt_fourcc = None,
       vt_mod_ex = [], vt_multitrack = None\<rparr>)))"

definition video_reader :: "('u \<times> u8 list, video_tag) st" where
  "video_reader = st_bind (cur_u8 Other) (\<lambda>b0.
     if b0 AND VIDEO_IS_EX_HEADER \<noteq> 0 then ex_video_reader b0 else legacy_video_reader b0)"

definition parse_video :: "u8 list \<Rightarrow> video_tag result" where
  "parse_video payload = fst (video_reader ((), payload))"

subsection \<open>Building\<close>

definition cts_bytes :: "i32 \<Rightarrow> u8 list" where
  "cts_bytes ct = u24_be (ct AND 0x00FFFFFF)"

definition ex_video_head :: "u8 \<Rightarrow> u8 \<Rightarrow> u8" where
  "ex_video_head frame_type pt = VIDEO_IS_EX_HEADER OR (push_bit 4 (frame_type AND 0x07) OR (pt AND 0x0F))"

definition build_ex_video :: "video_tag \<Rightarrow> u8 list" where
  "build_ex_video t =
    (let real_pt = (case vt_ex_packet_type t of Some p \<Rightarrow> p | None \<Rightarrow> EX_PACKET_TYPE_CODED_FRAMES);
         mt = map_option mt_type (vt_multitrack t)
     in
     ex_video_head (vt_frame_type t)
       (ex_header_pt EX_PACKET_TYPE_MULTITRACK EX_PACKET_TYPE_MOD_EX (vt_mod_ex t) mt real_pt)
     # ex_prelude_bytes EX_PACKET_TYPE_MULTITRACK EX_PACKET_TYPE_MOD_EX (vt_mod_ex t) mt real_pt (vt_fourcc t)
     @ (case vt_multitrack t of
          Some m \<Rightarrow> multitrack_encode m
        | None \<Rightarrow>
            (if needs_cts (vt_frame_type t) real_pt (the (vt_fourcc t)) then cts_bytes (vt_composition_time t) else [])
            @ vt_body t))"

definition build_legacy_video :: "video_tag \<Rightarrow> u8 list" where
  "build_legacy_video t =
     (push_bit 4 (vt_frame_type t) OR (vt_codec_id t AND 0x0F))
     # (if vt_codec_id t = VIDEO_CODEC_AVC \<and> vt_frame_type t \<noteq> VIDEO_FRAME_COMMAND
        then (case vt_avc_packet_type t of Some a \<Rightarrow> a | None \<Rightarrow> AVC_PACKET_TYPE_NALU)
             # cts_bytes (vt_composition_time t)
        else [])
     @ vt_body t"

definition build_video :: "video_tag \<Rightarrow> u8 list" where
  "build_video t = (if vt_fourcc t \<noteq> None \<or> vt_multitrack t \<noteq> None then build_ex_video t else build_legacy_video t)"

subsection \<open>Joining and splitting\<close>

definition video_demux_tracks :: "video_tag \<Rightarrow> (u8 \<times> video_tag) list result" where
  "video_demux_tracks t =
    (case vt_multitrack t of None \<Rightarrow> Inl Other | Some m \<Rightarrow>
     case vt_ex_packet_type t of None \<Rightarrow> Inl Other | Some inner_pt \<Rightarrow>
     demux_with parse_video (ex_video_head (vt_frame_type t) inner_pt) (vt_fourcc t) (mt_tracks m))"

definition video_multitrack_from_tags :: "u8 \<Rightarrow> (u8 \<times> video_tag) list \<Rightarrow> video_tag result" where
  "video_multitrack_from_tags ty tracks =
     res_bind (plan_multitrack vt_fourcc vt_ex_packet_type (\<lambda>t. vt_multitrack t \<noteq> None) (\<lambda>t. vt_mod_ex t \<noteq> [])
       EX_PACKET_TYPE_MULTITRACK EX_PACKET_TYPE_MOD_EX ty tracks) (\<lambda>plan.
     let frame_type = vt_frame_type (snd (hd tracks)) in
     if list_ex (\<lambda>(i, t). vt_frame_type t \<noteq> frame_type) tracks then Inl Other
     else Inr (video_multitrack_tag frame_type (mp_inner_packet_type plan) (mp_shared_fourcc plan)
       \<lparr>mt_type = ty, mt_tracks = mux_with build_video vt_fourcc (mp_per_track_fourcc plan) tracks\<rparr>))"

section \<open>Bits of the header bytes\<close>

lemma ex_header_bit: "x AND VIDEO_IS_EX_HEADER \<noteq> 0 \<longleftrightarrow> bit x 7"
  using and_exp_eq_0_iff_not_bit[of x 7] by (simp add: VIDEO_IS_EX_HEADER_def)

lemma low_bits3: "x < 8 \<longleftrightarrow> x AND 0x07 = (x :: u8)" "x AND (0x07 :: u8) < 8" "x AND 0x07 AND 0x0F = x AND (0x07 :: u8)"
proof -
  have t: "x AND 0x07 = take_bit 3 x" by (simp add: take_bit_eq_mask mask_eq_exp_minus_1)
  have m: "unat (x AND (0x07 :: u8)) = unat x mod 8" unfolding t unsigned_take_bit_eq by (simp add: take_bit_eq_mod)
  show "x AND (0x07 :: u8) < 8" unfolding word_less_nat_alt m by simp
  show "x < 8 \<longleftrightarrow> x AND 0x07 = x" unfolding word_less_nat_alt word_unat_eq_iff m by auto
  show "x AND 0x07 AND 0x0F = x AND (0x07 :: u8)" by (simp add: and.assoc)
qed

lemma video_head_bits:
  "ex_video_head ft pt AND VIDEO_IS_EX_HEADER \<noteq> 0"
  "drop_bit 4 (ex_video_head ft pt) AND 0x07 = ft AND 0x07"
  "ex_video_head ft pt AND 0x0F = pt AND 0x0F"
proof -
  define z where "z = push_bit 4 ((ft AND 0x07) AND 0x0F) OR (pt AND 0x0F)"
  have head: "ex_video_head ft pt = 0x80 OR z"
    unfolding ex_video_head_def VIDEO_IS_EX_HEADER_def z_def and.assoc by simp
  have "bit (0x80 :: u8) 7" by simp
  then show "ex_video_head ft pt AND VIDEO_IS_EX_HEADER \<noteq> 0"
    unfolding ex_header_bit head bit_or_iff by blast
  have "drop_bit 4 (ex_video_head ft pt) AND 0x07 = (drop_bit 4 z AND 0x0F) AND 0x07"
    unfolding head drop_bit_or bit.conj_disj_distrib2 and.assoc by simp
  also have "\<dots> = ft AND 0x07" unfolding z_def nibbles by (simp add: and.assoc)
  finally show "drop_bit 4 (ex_video_head ft pt) AND 0x07 = ft AND 0x07" .
  have "ex_video_head ft pt AND 0x0F = z AND 0x0F"
    unfolding head bit.conj_disj_distrib2 by simp
  also have "\<dots> = pt AND 0x0F" unfolding z_def nibbles by (rule refl)
  finally show "ex_video_head ft pt AND 0x0F = pt AND 0x0F" .
qed

lemma legacy_head_bits:
  assumes "ft < 8"
  shows "\<not> bit (push_bit 4 ft OR (c AND 0x0F)) 7"
    "drop_bit 4 (push_bit 4 ft OR (c AND 0x0F)) = (ft :: u8)"
    "(push_bit 4 ft OR (c AND 0x0F)) AND 0x0F = c AND 0x0F"
proof -
  have b: "bit ft n \<Longrightarrow> n < 3" for n
    by (rule word_bit_bound[of ft 3 n]) (use assms in \<open>simp_all add: word_less_nat_alt\<close>)
  have m: "(0x0F :: u8) = mask 4" by (simp add: mask_eq_exp_minus_1)
  show "\<not> bit (push_bit 4 ft OR (c AND 0x0F)) 7" using b[of 3] unfolding m by (auto simp: bit_simps)
  have "ft AND 0x0F = ft" using assms low_nibble(1)[of ft] by (simp add: word_less_nat_alt)
  with nibbles[of ft c] show "(push_bit 4 ft OR (c AND 0x0F)) AND 0x0F = c AND 0x0F" by simp
  show "drop_bit 4 (push_bit 4 ft OR (c AND 0x0F)) = ft"
    unfolding m by (rule bit_word_eqI) (auto simp: bit_simps simp del: take_bit_push_bit dest: b)
qed

section \<open>The tags the parser produces\<close>

definition si24_ok :: "i32 \<Rightarrow> bool" where
  "si24_ok ct \<longleftrightarrow> sign_extend_si24 (ct AND 0x00FFFFFF) = ct"

definition video_ok :: "video_tag \<Rightarrow> bool" where
  "video_ok t \<longleftrightarrow> vt_frame_type t < 8 \<and>
    (case vt_ex_packet_type t of
       None \<Rightarrow> vt_multitrack t = None \<and> vt_fourcc t = None \<and> vt_codec_id t < 16 \<and> vt_mod_ex t = []
         \<and> (if vt_codec_id t = VIDEO_CODEC_AVC \<and> vt_frame_type t \<noteq> VIDEO_FRAME_COMMAND
            then vt_avc_packet_type t \<noteq> None \<and> si24_ok (vt_composition_time t)
            else vt_avc_packet_type t = None \<and> vt_composition_time t = 0)
     | Some pt \<Rightarrow> vt_codec_id t = 0 \<and> vt_avc_packet_type t = None
         \<and> preludes_ok EX_PACKET_TYPE_MULTITRACK EX_PACKET_TYPE_MOD_EX (vt_mod_ex t)
             (map_option mt_type (vt_multitrack t)) pt (vt_fourcc t)
         \<and> (case vt_multitrack t of
              Some m \<Rightarrow> multitrack_ok m \<and> vt_composition_time t = 0 \<and> vt_body t = []
            | None \<Rightarrow> if needs_cts (vt_frame_type t) pt (the (vt_fourcc t)) then si24_ok (vt_composition_time t)
                else vt_composition_time t = 0))"

lemma si24_u24: "si24_ok (sign_extend_si24 (of_u24 a b c))"
proof -
  define x where "x = of_u24 a b c"
  have x: "x AND 0x00FFFFFF = x"
  proof -
    have "take_bit 24 x = x"
      unfolding x_def of_u24_def by (rule bit_word_eqI) (auto simp: bit_simps dest: bit_imp_le_length)
    then show ?thesis by (simp add: take_bit_eq_mask mask_eq_exp_minus_1)
  qed
  have "(x OR (- 0x01000000)) AND 0x00FFFFFF = x"
    unfolding bit.conj_disj_distrib2 x by simp
  then show ?thesis unfolding x_def[symmetric] by (simp add: si24_ok_def sign_extend_si24_def x)
qed

lemma read_cts_reads: "si24_ok ct \<Longrightarrow> reads read_cts (cts_bytes ct) ct"
proof -
  assume ok: "si24_ok ct"
  define v where "v = ct AND 0x00FFFFFF"
  have v: "take_bit 24 v = v" unfolding v_def
    by (simp add: take_bit_eq_mask mask_eq_exp_minus_1 and.assoc)
  have "length (u24_be v) = 3" by simp
  moreover have "of_u24 (u24_be v ! 0) (u24_be v ! 1) (u24_be v ! 2) = v" using v by (simp add: u24_be_def)
  ultimately show ?thesis using ok unfolding read_cts_def cts_bytes_def v_def[symmetric]
    by (intro reads_bind_nil[OF reads_take]) (simp_all add: si24_ok_def v_def[symmetric] reads_return)
qed

lemma yields_read_cts: "yields read_cts si24_ok"
  unfolding read_cts_def by (intro yields_intro si24_u24)

lemma nalu_needs_cts:
  "needs_cts ft pt fcc \<Longrightarrow> ft \<noteq> VIDEO_FRAME_COMMAND \<and> pt = EX_PACKET_TYPE_CODED_FRAMES"
  by (auto simp: needs_cts_def video_consts)

lemma ex_video_body_reads:
  assumes ok: "video_ok t" and pt: "vt_ex_packet_type t = Some pt"
  shows "reads_all (ex_video_body (vt_frame_type t) (vt_mod_ex t) (map_option mt_type (vt_multitrack t)) pt (vt_fourcc t))
    (case vt_multitrack t of Some m \<Rightarrow> multitrack_encode m
     | None \<Rightarrow> (if needs_cts (vt_frame_type t) pt (the (vt_fourcc t)) then cts_bytes (vt_composition_time t) else [])
         @ vt_body t) t"
proof (cases "vt_multitrack t")
  case (Some m)
  then have tag: "t = \<lparr>vt_frame_type = vt_frame_type t, vt_codec_id = 0, vt_avc_packet_type = None,
      vt_composition_time = 0, vt_body = [], vt_ex_packet_type = Some pt,
      vt_fourcc = vt_fourcc t, vt_mod_ex = vt_mod_ex t, vt_multitrack = Some m\<rparr>" and mok: "multitrack_ok m"
    using ok pt by (cases t; auto simp: video_ok_def)+
  show ?thesis
    unfolding ex_video_body_def Some option.case option.map
    by (rule reads_all_returnI[OF multitrack_parses[OF mok]]) (rule tag)
next
  case None
  then obtain f where f: "vt_fourcc t = Some f" using ok pt by (auto simp: video_ok_def preludes_ok_def split: option.splits)
  have tag: "t = \<lparr>vt_frame_type = vt_frame_type t, vt_codec_id = 0, vt_avc_packet_type = None,
      vt_composition_time = vt_composition_time t, vt_body = vt_body t, vt_ex_packet_type = Some pt,
      vt_fourcc = Some f, vt_mod_ex = vt_mod_ex t, vt_multitrack = None\<rparr>"
    using ok pt f None by (cases t) (auto simp: video_ok_def)
  have "if needs_cts (vt_frame_type t) pt f then si24_ok (vt_composition_time t) else vt_composition_time t = 0"
    using ok pt f None by (simp add: video_ok_def)
  then have cts: "reads (if needs_cts (vt_frame_type t) pt f then read_cts else st_return 0)
      (if needs_cts (vt_frame_type t) pt f then cts_bytes (vt_composition_time t) else []) (vt_composition_time t)"
    by (auto simp: read_cts_reads reads_return)
  show ?thesis
    unfolding ex_video_body_def None f option.case option.map option.sel Let_def
    by (rule reads_all_bind[OF cts], rule reads_all_returnI[OF take_rest_reads]) (rule tag)
qed

lemma ex_video_parses:
  assumes ok: "video_ok t" and ex: "vt_fourcc t \<noteq> None \<or> vt_multitrack t \<noteq> None"
  shows "reads_all video_reader (build_video t) t"
proof -
  obtain pt where pt: "vt_ex_packet_type t = Some pt" and ft: "vt_frame_type t AND 0x07 = vt_frame_type t"
    using ok ex low_bits3(1) by (auto simp: video_ok_def split: option.splits)
  let ?mt = "map_option mt_type (vt_multitrack t)"
  define hp where "hp = ex_header_pt EX_PACKET_TYPE_MULTITRACK EX_PACKET_TYPE_MOD_EX (vt_mod_ex t) ?mt pt"
  have pre_ok: "preludes_ok EX_PACKET_TYPE_MULTITRACK EX_PACKET_TYPE_MOD_EX (vt_mod_ex t) ?mt pt (vt_fourcc t)"
    using ok pt by (simp add: video_ok_def)
  have hp: "hp AND 0x0F = hp"
    using pre_ok low_nibble(1)[of hp] by (auto simp: hp_def ex_header_pt_def post_mod_ex_pt_def preludes_ok_def video_consts)
  have pre: "reads (ex_preludes EX_PACKET_TYPE_MULTITRACK EX_PACKET_TYPE_MOD_EX (hp AND 0x0F))
      (ex_prelude_bytes EX_PACKET_TYPE_MULTITRACK EX_PACKET_TYPE_MOD_EX (vt_mod_ex t) ?mt pt (vt_fourcc t))
      (vt_mod_ex t, ?mt, pt, vt_fourcc t)"
    unfolding hp unfolding hp_def by (rule ex_preludes_reads[OF pre_ok]) (simp_all add: video_consts)
  have "build_video t = ex_video_head (vt_frame_type t) hp
      # ex_prelude_bytes EX_PACKET_TYPE_MULTITRACK EX_PACKET_TYPE_MOD_EX (vt_mod_ex t) ?mt pt (vt_fourcc t)
      @ (case vt_multitrack t of Some m \<Rightarrow> multitrack_encode m
         | None \<Rightarrow> (if needs_cts (vt_frame_type t) pt (the (vt_fourcc t)) then cts_bytes (vt_composition_time t) else [])
             @ vt_body t)" (is "_ = ?h # ?pre @ ?body")
    unfolding build_video_def if_P[OF ex] build_ex_video_def pt Let_def option.case hp_def by (rule refl)
  moreover have "reads_all (ex_video_reader ?h) (?pre @ ?body) t"
    unfolding ex_video_reader_def video_head_bits ft
    by (rule reads_all_bind[OF pre], unfold prod.case, rule ex_video_body_reads[OF ok pt])
  ultimately show ?thesis
    using video_head_bits(1) by (simp add: video_reader_def reads_all_def st_bind_def[of "cur_u8 Other"])
qed

lemma legacy_video_parses:
  assumes ok: "video_ok t" and ex: "vt_fourcc t = None" "vt_multitrack t = None"
  shows "reads_all (video_reader :: ('u \<times> u8 list, video_tag) st) (build_video t) t"
proof -
  have t: "vt_frame_type t < 8" "vt_codec_id t < 16" "vt_mod_ex t = []" "vt_ex_packet_type t = None"
    using ok ex by (auto simp: video_ok_def preludes_ok_def split: option.splits)
  have c: "vt_codec_id t AND 0x0F = vt_codec_id t" using t(2) low_nibble(1) by blast
  define h where "h = push_bit 4 (vt_frame_type t) OR (vt_codec_id t AND 0x0F)"
  have h: "\<not> bit h 7" "drop_bit 4 h = vt_frame_type t" "h AND 0x0F = vt_codec_id t"
    unfolding h_def legacy_head_bits(2,3)[OF t(1)] by (rule legacy_head_bits(1)[OF t(1)], rule refl, rule c)
  have head: "reads_all (video_reader :: ('u \<times> u8 list, video_tag) st) (h # bs) t"
    if "reads_all (legacy_video_reader h :: ('u \<times> u8 list, video_tag) st) bs t" for bs
    using that h(1) by (simp add: reads_all_def video_reader_def st_bind_def[of "cur_u8 Other"] ex_header_bit)
  let ?avc = "vt_codec_id t = VIDEO_CODEC_AVC \<and> vt_frame_type t \<noteq> VIDEO_FRAME_COMMAND"
  let ?q = "if ?avc then the (vt_avc_packet_type t) # cts_bytes (vt_composition_time t) else []"
  have fields: "reads (legacy_avc_fields (vt_frame_type t) (vt_codec_id t) :: ('u \<times> u8 list, u8 option \<times> i32) st) ?q
      (vt_avc_packet_type t, vt_composition_time t)"
  proof (cases ?avc)
    case True
    then obtain a where a: "vt_avc_packet_type t = Some a" and ct: "si24_ok (vt_composition_time t)"
      using ok ex t by (auto simp: video_ok_def)
    define v where "v = vt_composition_time t AND 0x00FFFFFF"
    have v: "take_bit 24 v = v" unfolding v_def
      by (simp add: take_bit_eq_mask mask_eq_exp_minus_1 and.assoc)
    define q where "q = a # u24_be v"
    have q: "length q = 4" "q ! 0 = a" "of_u24 (q ! 1) (q ! 2) (q ! 3) = v"
      using v by (simp_all add: q_def u24_be_def)
    have "reads (st_bind (cur_take Other 4) (\<lambda>h. st_return (Some (h ! 0), sign_extend_si24 (of_u24 (h ! 1) (h ! 2) (h ! 3))))
        :: ('u \<times> u8 list, u8 option \<times> i32) st) q (Some a, vt_composition_time t)"
      by (rule reads_bind_nil[OF reads_take[OF q(1)]])
        (use ct in \<open>simp add: q[unfolded One_nat_def] reads_return si24_ok_def v_def\<close>)
    then show ?thesis using True a by (simp add: legacy_avc_fields_def q_def v_def cts_bytes_def)
  next
    case False
    then have "vt_avc_packet_type t = None" "vt_composition_time t = 0"
      using ok ex t by (auto simp: video_ok_def)
    then show ?thesis using False by (auto simp: legacy_avc_fields_def reads_return)
  qed
  have tag: "t = \<lparr>vt_frame_type = vt_frame_type t, vt_codec_id = vt_codec_id t, vt_avc_packet_type = vt_avc_packet_type t,
      vt_composition_time = vt_composition_time t, vt_body = vt_body t, vt_ex_packet_type = None, vt_fourcc = None,
      vt_mod_ex = [], vt_multitrack = None\<rparr>"
    using t ex by (cases t) simp
  have "reads_all (legacy_video_reader h :: ('u \<times> u8 list, video_tag) st) (?q @ vt_body t) t"
    unfolding legacy_video_reader_def Let_def h
    by (rule reads_all_bind[OF fields], unfold prod.case, rule reads_all_returnI[OF take_rest_reads]) (rule tag)
  moreover have "build_video t = h # ?q @ vt_body t"
    using ok ex t by (auto simp: build_video_def build_legacy_video_def h_def video_ok_def)
  ultimately show ?thesis using head by simp
qed

lemma video_parses: "video_ok t \<Longrightarrow> parse_video (build_video t) = Inr t"
  using ex_video_parses[of t] legacy_video_parses[of t] unfolding parse_video_def reads_all_def
  by (cases "vt_fourcc t \<noteq> None \<or> vt_multitrack t \<noteq> None") (fastforce dest: spec[of _ "()"])+

lemma video_fails: "fails_with Other video_reader"
  unfolding video_reader_def ex_video_reader_def ex_video_body_def legacy_video_reader_def legacy_avc_fields_def Let_def
    read_cts_def
  by (auto intro!: fails_intro ex_preludes_fails take_rest_fails fails_multitrack split: option.split)

lemma high_nibble: "\<not> bit b 7 \<Longrightarrow> drop_bit 4 b < (8 :: u8)"
proof -
  assume b: "\<not> bit b 7"
  have "take_bit 3 (drop_bit 4 b) = drop_bit 4 b"
  proof (rule bit_word_eqI)
    fix n assume "n < LENGTH(8)"
    have "bit b (4 + n) \<Longrightarrow> n < 3" using b bit_imp_le_length[of b "4 + n"] by (cases "n = 3") auto
    then show "bit (take_bit 3 (drop_bit 4 b)) n = bit (drop_bit 4 b) n"
      by (auto simp: bit_take_bit_iff bit_drop_bit_eq)
  qed
  then show ?thesis using low_bits3(1)[of "drop_bit 4 b"] by (simp add: take_bit_eq_mask mask_eq_exp_minus_1)
qed

lemma legacy_video_yields:
  assumes "\<not> bit b0 7"
  shows "yields (legacy_video_reader b0) video_ok"
  unfolding legacy_video_reader_def legacy_avc_fields_def Let_def
  by (rule yields_bind[where R = "\<lambda>(a, ct). if b0 AND 0x0F = VIDEO_CODEC_AVC \<and> drop_bit 4 b0 \<noteq> VIDEO_FRAME_COMMAND
        then a \<noteq> None \<and> si24_ok ct else a = None \<and> ct = 0"])
    (auto intro!: yields_intro simp: si24_u24 video_ok_def low_nibble(2) high_nibble[OF assms] VIDEO_CODEC_AVC_def
      VIDEO_FRAME_COMMAND_def split: if_splits)

lemma ex_video_yields: "yields (ex_video_reader b0) video_ok"
proof -
  have body: "yields (ex_video_body ft chain mt pt fo) video_ok"
    if "ft < 8" and pre: "preludes_ok EX_PACKET_TYPE_MULTITRACK EX_PACKET_TYPE_MOD_EX chain mt pt fo" for ft chain mt pt fo
  proof (cases mt)
    case None
    then have "\<exists>f. fo = Some f" using pre by (auto simp: preludes_ok_def split: option.splits)
    then obtain f where f: "fo = Some f" by blast
    show ?thesis unfolding ex_video_body_def None f option.case Let_def
      by (rule yields_bind[where R = "\<lambda>ct. if needs_cts ft pt f then si24_ok ct else ct = 0"])
        (use that None f in \<open>auto intro!: yields_intro yields_read_cts simp: video_ok_def\<close>)
  next
    case (Some ty)
    then have ty: "ty < 16" using pre by (simp add: preludes_ok_def)
    show ?thesis unfolding ex_video_body_def Some option.case
      by (rule yields_bind[OF yields_multitrack[OF ty]], rule yields_return)
        (use that Some in \<open>auto simp: video_ok_def\<close>)
  qed
  show ?thesis
    unfolding ex_video_reader_def
    by (rule yields_bind[OF ex_preludes_yields[OF low_nibble(2)]]) (auto intro!: body low_bits3(2))
qed

lemma video_yields: "yields video_reader video_ok"
  unfolding video_reader_def ex_header_bit
  by (intro yields_bind_any yields_if ex_video_yields legacy_video_yields)

lemma video_parse_ok: "parse_video b = Inr t \<Longrightarrow> video_ok t"
  unfolding parse_video_def by (rule yields_fst[OF video_yields])

lemma video_parse_error: "parse_video b = Inl e \<Longrightarrow> e = Other"
  unfolding parse_video_def by (rule fails_fst[OF video_fails])

section \<open>Properties\<close>

text \<open>
  C31. A video tag survives being built and parsed exactly when it is one the format has (both
  framings, the ModEx chain, every Multitrack mode, the signed composition time where the
  FourCC and the packet type carry it).  Any payload parses to such a tag, which therefore can be
  rebuilt and parsed to the same tag, or is refused with \<open>Other\<close>.
\<close>

theorem video_tag_roundtrip:
  "(parse_video (build_video t) = Inr t \<longleftrightarrow> video_ok t)
   \<and> (case parse_video b of Inl e \<Rightarrow> e = Other
       | Inr t' \<Rightarrow> video_ok t' \<and> parse_video (build_video t') = Inr t')"
  using video_parses video_parse_ok video_parse_error by (auto split: sum.split)

section \<open>Multitrack\<close>

definition video_head :: "video_tag \<Rightarrow> u8" where
  "video_head t = ex_video_head (vt_frame_type t) (the (vt_ex_packet_type t))"

interpretation video: track_codec parse_video build_video video_ok vt_fourcc vt_ex_packet_type
    "\<lambda>t. vt_multitrack t \<noteq> None" "\<lambda>t. vt_mod_ex t \<noteq> []" video_head
    EX_PACKET_TYPE_MULTITRACK EX_PACKET_TYPE_MOD_EX
proof
  show "pt < 16" if "video_ok t" "vt_ex_packet_type t = Some pt" for t pt
    using that by (simp add: video_ok_def preludes_ok_def)
  show "parse_video (build_video t) = Inr t" if "video_ok t" for t using that by (rule video_parses)
  fix t f
  assume a: "video_ok t" "\<not> vt_multitrack t \<noteq> None" "\<not> vt_mod_ex t \<noteq> []" "vt_fourcc t = Some f"
  then have "\<exists>pt. vt_ex_packet_type t = Some pt \<and> fourcc_ok f"
    by (auto simp: video_ok_def preludes_ok_def split: option.splits)
  then show "\<exists>body. build_video t = video_head t # f @ body \<and> length f = 4"
    using a by (auto simp: build_video_def build_ex_video_def video_head_def Let_def fourcc_ok_def
        ex_prelude_bytes_def ex_header_pt_def post_mod_ex_pt_def)
qed

lemma video_joined_ok:
  "ft < 8 \<Longrightarrow> multitrack_ok m \<Longrightarrow> preludes_ok EX_PACKET_TYPE_MULTITRACK EX_PACKET_TYPE_MOD_EX [] (Some (mt_type m)) pt f \<Longrightarrow>
   video_ok (video_multitrack_tag ft pt f m)"
  by (simp add: video_ok_def video_multitrack_tag_def)

text \<open>
  C33. Joining single-track tags and splitting the result gives the tracks back, with their ids,
  in every mode; and the joined tag survives the wire where the mode fits its nibble and no
  track exceeds the 24-bit size field.  Tracks that cannot share one message are refused.
\<close>

theorem video_mux_demux:
  assumes "list_all (\<lambda>(i, t). video_ok t) tracks"
  shows "case video_multitrack_from_tags ty tracks of Inl e \<Rightarrow> e = Other
    | Inr t \<Rightarrow> video_demux_tracks t = Inr tracks
        \<and> (if ty < 16 \<and> list_all (\<lambda>(i, t). length (build_video t) < 2 ^ 24 + 5) tracks
           then parse_video (build_video t) = Inr t else True)"
proof (cases "video_multitrack_from_tags ty tracks")
  case (Inl e)
  then show ?thesis
    by (auto simp: video_multitrack_from_tags_def res_bind_eq_Inl Let_def dest: plan_error split: if_splits)
next
  case (Inr t)
  let ?ft = "vt_frame_type (snd (hd tracks))"
  obtain p where plan: "plan_multitrack vt_fourcc vt_ex_packet_type (\<lambda>t. vt_multitrack t \<noteq> None) (\<lambda>t. vt_mod_ex t \<noteq> [])
       EX_PACKET_TYPE_MULTITRACK EX_PACKET_TYPE_MOD_EX ty tracks = Inr p"
    and same: "\<forall>(i, t) \<in> set tracks. vt_frame_type t = ?ft"
    and t: "t = video_multitrack_tag ?ft (mp_inner_packet_type p) (mp_shared_fourcc p)
       \<lparr>mt_type = ty, mt_tracks = mux_with build_video vt_fourcc (mp_per_track_fourcc p) tracks\<rparr>"
    using Inr by (auto simp: video_multitrack_from_tags_def res_bind_eq_Inr Let_def list_ex_iff split: if_splits)
  have ok: "\<forall>(i, t) \<in> set tracks. video_ok t" using assms by (auto simp: list_all_iff)
  have "\<forall>(i, t) \<in> set tracks. video_ok t \<and> video_head t = ex_video_head ?ft (mp_inner_packet_type p)"
    using ok same plan_facts(6)[OF plan] by (fastforce simp: video_head_def)
  from video.demux_mux[OF plan this] have "video_demux_tracks t = Inr tracks"
    by (simp add: video_demux_tracks_def t video_multitrack_tag_def)
  moreover have "?ft < 8"
    using ok plan_facts(1)[OF plan] by (cases tracks) (auto simp: video_ok_def)
  then have "parse_video (build_video t) = Inr t"
    if "ty < 16" "list_all (\<lambda>(i, t). length (build_video t) < 2 ^ 24 + 5) tracks"
    unfolding t using that video.joined_ok[OF plan ok that(1)]
    by (intro video_parses video_joined_ok) (auto simp: list_all_iff)
  ultimately show ?thesis using Inr by simp
qed

definition sample_nalu :: "i32 \<Rightarrow> video_tag" where
  "sample_nalu ct = \<lparr>vt_frame_type = 1, vt_codec_id = 0, vt_avc_packet_type = None, vt_composition_time = ct,
     vt_body = [1, 2, 3], vt_ex_packet_type = Some 1, vt_fourcc = Some FOURCC_HEVC, vt_mod_ex = [], vt_multitrack = None\<rparr>"

lemma sample_nalu_ok: "video_ok (sample_nalu (- 2))" "video_ok (sample_nalu 7)"
  by (simp_all add: video_ok_def preludes_ok_def sample_nalu_def video_consts fourcc_ok_def FOURCC_HEVC_def needs_cts_def si24_ok_def
      sign_extend_si24_def)

theorem video_mux_demux_witness:
  "case video_multitrack_from_tags 1 [(0, sample_nalu (- 2)), (3, sample_nalu 7)] of Inl e \<Rightarrow> False
    | Inr t \<Rightarrow> video_demux_tracks t = Inr [(0, sample_nalu (- 2)), (3, sample_nalu 7)]
        \<and> parse_video (build_video t) = Inr t"
proof -
  let ?ts = "[(0, sample_nalu (- 2)), (3, sample_nalu 7)]"
  have ok: "list_all (\<lambda>(i, t). video_ok t) ?ts" using sample_nalu_ok by simp
  have "\<exists>t. video_multitrack_from_tags 1 ?ts = Inr t"
    by (simp add: video_multitrack_from_tags_def plan_multitrack_def sample_nalu_def multitrack_types video_consts)
  moreover have "list_all (\<lambda>(i, t). length (build_video t) < 2 ^ 24 + 5) ?ts"
    by (simp add: build_video_def build_ex_video_def sample_nalu_def Let_def FOURCC_HEVC_def cts_bytes_def
        ex_prelude_bytes_def)
  ultimately show ?thesis using video_mux_demux[OF ok, of 1] by auto
qed

text \<open>
  Only a nested Multitrack is refused as the inner packet type; with ModEx inside,
  \<open>demux_tracks\<close> reads the FourCC of the track as a ModEx entry, and the tag it returns has
  neither that FourCC nor the packet type of the message.
\<close>

definition nested_mod_ex_wire :: "u8 list" where
  "nested_mod_ex_wire = [0x96, 0x27, 0x00, 0x05, 0x03, 0x61, 9, 0, 0, 3, 0x76, 0x63, 0x31]"

theorem demux_nested_mod_ex:
  "case parse_video nested_mod_ex_wire of Inl _ \<Rightarrow> False
   | Inr t \<Rightarrow> vt_ex_packet_type t = Some EX_PACKET_TYPE_MOD_EX
       \<and> map mtt_fourcc (mt_tracks (the (vt_multitrack t))) = [Some [0x00, 0x05, 0x03, 0x61]]
       \<and> (case video_demux_tracks t of Inl _ \<Rightarrow> False
          | Inr r \<Rightarrow> map (\<lambda>(i, s). (i, vt_ex_packet_type s, vt_fourcc s)) r = [(9, Some 3, Some FOURCC_AVC)])"
  by code_simp

end
