(* ===== verification/Flv_Meta.thy ===== *)
theory Flv_Meta
  imports Caps Flv_Video "HOL-Library.Multiset"
begin

text \<open>
  The metadata objects of \<open>flv.rs\<close>: the HDR \<open>ColorInfo\<close> of a metadata video tag, the
  \<open>onMetaData\<close> argument and its per-track maps.  An \<open>Option<f64>\<close> field is a bit pattern, so
  the round trips below are bit-exact.  The locale \<open>property_object\<close> is what the two typed
  views with an \<open>extra\<close> list promise about the properties they do not know.
\<close>

section \<open>Optional properties\<close>

definition num_pair :: "rstring \<Rightarrow> f64 option \<Rightarrow> (rstring \<times> amf0_value) list" where
  "num_pair key v = (case v of None \<Rightarrow> [] | Some n \<Rightarrow> [(key, A0Number n)])"

definition bool_pair :: "rstring \<Rightarrow> bool option \<Rightarrow> (rstring \<times> amf0_value) list" where
  "bool_pair key v = (case v of None \<Rightarrow> [] | Some b \<Rightarrow> [(key, A0Boolean b)])"

definition value_pair :: "rstring \<Rightarrow> ('a \<Rightarrow> amf0_value) \<Rightarrow> 'a option \<Rightarrow> (rstring \<times> amf0_value) list" where
  "value_pair key f v = (case v of None \<Rightarrow> [] | Some x \<Rightarrow> [(key, f x)])"

lemmas opt_pair_defs = num_pair_def bool_pair_def value_pair_def

definition opt_num :: "amf0_value \<Rightarrow> rstring \<Rightarrow> f64 option" where
  "opt_num v key = Option.bind (a0_get v key) a0_as_f64"

section \<open>ColorInfo\<close>

record color_config =
  cfg_bit_depth :: "f64 option"
  cfg_color_primaries :: "f64 option"
  cfg_transfer_characteristics :: "f64 option"
  cfg_matrix_coefficients :: "f64 option"

record hdr_cll =
  cll_max_fall :: "f64 option"
  cll_max_cll :: "f64 option"

record hdr_mdcv =
  mdcv_red_x :: "f64 option"
  mdcv_red_y :: "f64 option"
  mdcv_green_x :: "f64 option"
  mdcv_green_y :: "f64 option"
  mdcv_blue_x :: "f64 option"
  mdcv_blue_y :: "f64 option"
  mdcv_white_point_x :: "f64 option"
  mdcv_white_point_y :: "f64 option"
  mdcv_max_luminance :: "f64 option"
  mdcv_min_luminance :: "f64 option"

record color_info =
  ci_color_config :: "color_config option"
  ci_hdr_cll :: "hdr_cll option"
  ci_hdr_mdcv :: "hdr_mdcv option"

definition cfg_is_empty :: "color_config \<Rightarrow> bool" where
  "cfg_is_empty c \<longleftrightarrow> cfg_bit_depth c = None \<and> cfg_color_primaries c = None
     \<and> cfg_transfer_characteristics c = None \<and> cfg_matrix_coefficients c = None"

definition cll_is_empty :: "hdr_cll \<Rightarrow> bool" where
  "cll_is_empty c \<longleftrightarrow> cll_max_fall c = None \<and> cll_max_cll c = None"

definition mdcv_is_empty :: "hdr_mdcv \<Rightarrow> bool" where
  "mdcv_is_empty c \<longleftrightarrow> mdcv_red_x c = None \<and> mdcv_red_y c = None \<and> mdcv_green_x c = None
     \<and> mdcv_green_y c = None \<and> mdcv_blue_x c = None \<and> mdcv_blue_y c = None
     \<and> mdcv_white_point_x c = None \<and> mdcv_white_point_y c = None
     \<and> mdcv_max_luminance c = None \<and> mdcv_min_luminance c = None"

definition parse_color_config :: "amf0_value \<Rightarrow> color_config" where
  "parse_color_config v =
    \<lparr>cfg_bit_depth = opt_num v (lit ''bitDepth''),
     cfg_color_primaries = opt_num v (lit ''colorPrimaries''),
     cfg_transfer_characteristics = opt_num v (lit ''transferCharacteristics''),
     cfg_matrix_coefficients = opt_num v (lit ''matrixCoefficients'')\<rparr>"

definition parse_hdr_cll :: "amf0_value \<Rightarrow> hdr_cll" where
  "parse_hdr_cll v = \<lparr>cll_max_fall = opt_num v (lit ''maxFall''), cll_max_cll = opt_num v (lit ''maxCLL'')\<rparr>"

definition parse_hdr_mdcv :: "amf0_value \<Rightarrow> hdr_mdcv" where
  "parse_hdr_mdcv v =
    \<lparr>mdcv_red_x = opt_num v (lit ''redX''), mdcv_red_y = opt_num v (lit ''redY''),
     mdcv_green_x = opt_num v (lit ''greenX''), mdcv_green_y = opt_num v (lit ''greenY''),
     mdcv_blue_x = opt_num v (lit ''blueX''), mdcv_blue_y = opt_num v (lit ''blueY''),
     mdcv_white_point_x = opt_num v (lit ''whitePointX''), mdcv_white_point_y = opt_num v (lit ''whitePointY''),
     mdcv_max_luminance = opt_num v (lit ''maxLuminance''),
     mdcv_min_luminance = opt_num v (lit ''minLuminance'')\<rparr>"

definition color_config_to_amf0 :: "color_config \<Rightarrow> amf0_value" where
  "color_config_to_amf0 c = A0Object
    (num_pair (lit ''bitDepth'') (cfg_bit_depth c)
     @ num_pair (lit ''colorPrimaries'') (cfg_color_primaries c)
     @ num_pair (lit ''transferCharacteristics'') (cfg_transfer_characteristics c)
     @ num_pair (lit ''matrixCoefficients'') (cfg_matrix_coefficients c))"

definition hdr_cll_to_amf0 :: "hdr_cll \<Rightarrow> amf0_value" where
  "hdr_cll_to_amf0 c = A0Object
    (num_pair (lit ''maxFall'') (cll_max_fall c) @ num_pair (lit ''maxCLL'') (cll_max_cll c))"

definition hdr_mdcv_to_amf0 :: "hdr_mdcv \<Rightarrow> amf0_value" where
  "hdr_mdcv_to_amf0 c = A0Object
    (num_pair (lit ''redX'') (mdcv_red_x c) @ num_pair (lit ''redY'') (mdcv_red_y c)
     @ num_pair (lit ''greenX'') (mdcv_green_x c) @ num_pair (lit ''greenY'') (mdcv_green_y c)
     @ num_pair (lit ''blueX'') (mdcv_blue_x c) @ num_pair (lit ''blueY'') (mdcv_blue_y c)
     @ num_pair (lit ''whitePointX'') (mdcv_white_point_x c)
     @ num_pair (lit ''whitePointY'') (mdcv_white_point_y c)
     @ num_pair (lit ''maxLuminance'') (mdcv_max_luminance c)
     @ num_pair (lit ''minLuminance'') (mdcv_min_luminance c))"

definition ci_default :: color_info where
  "ci_default = \<lparr>ci_color_config = None, ci_hdr_cll = None, ci_hdr_mdcv = None\<rparr>"

definition ci_from_amf0 :: "amf0_value \<Rightarrow> color_info result" where
  "ci_from_amf0 v =
    (let walk = Inr \<lparr>ci_color_config = map_option parse_color_config (a0_get v (lit ''colorConfig'')),
       ci_hdr_cll = map_option parse_hdr_cll (a0_get v (lit ''hdrCll'')),
       ci_hdr_mdcv = map_option parse_hdr_mdcv (a0_get v (lit ''hdrMdcv''))\<rparr>
     in case v of A0Undefined \<Rightarrow> Inr ci_default | A0Null \<Rightarrow> Inr ci_default
      | A0Object _ \<Rightarrow> walk | A0EcmaArray _ \<Rightarrow> walk | _ \<Rightarrow> Inl Other)"

definition ci_is_reset :: "color_info \<Rightarrow> bool" where
  "ci_is_reset c \<longleftrightarrow> ci_color_config c = None \<and> ci_hdr_cll c = None \<and> ci_hdr_mdcv c = None"

definition ci_to_amf0 :: "color_info \<Rightarrow> amf0_value" where
  "ci_to_amf0 c =
    (if ci_is_reset c then A0Undefined
     else A0Object (value_pair (lit ''colorConfig'') color_config_to_amf0 (ci_color_config c)
       @ value_pair (lit ''hdrCll'') hdr_cll_to_amf0 (ci_hdr_cll c)
       @ value_pair (lit ''hdrMdcv'') hdr_mdcv_to_amf0 (ci_hdr_mdcv c)))"

text \<open>The scan over \<open>name, value, name, value, ...\<close>, and \<open>color_info\<close> of a tag.\<close>

fun find_color_info :: "amf0_value list \<Rightarrow> color_info option result" where
  "find_color_info (n # v # vs) =
     (if a0_as_str n = Some (lit ''colorInfo'') then res_bind (ci_from_amf0 v) (\<lambda>c. Inr (Some c))
      else find_color_info vs)"
| "find_color_info _ = Inr None"

definition color_info_of :: "(f64 \<Rightarrow> rstring) \<Rightarrow> video_tag \<Rightarrow> color_info option result" where
  "color_info_of fmt_f64 t =
    (if \<not> vt_is_ex_metadata t then Inr None
     else res_bind (amf0_decode_all fmt_f64 (vt_body t)) find_color_info)"

definition color_info_tag :: "fourcc \<Rightarrow> color_info \<Rightarrow> video_tag" where
  "color_info_tag f c =
    \<lparr>vt_frame_type = VIDEO_FRAME_INFO, vt_codec_id = 0, vt_avc_packet_type = None,
     vt_composition_time = 0,
     vt_body = amf0_encode (A0String (lit ''colorInfo'')) @ amf0_encode (ci_to_amf0 c),
     vt_ex_packet_type = Some EX_PACKET_TYPE_METADATA, vt_fourcc = Some f, vt_mod_ex = [],
     vt_multitrack = None\<rparr>"


section \<open>ColorInfo survives\<close>

lemma map_of_opt_pairs [simp]:
  "map_of (num_pair k v @ r) k' = (if k = k' \<and> v \<noteq> None then map_option A0Number v else map_of r k')"
  "map_of (num_pair k v) k' = (if k = k' then map_option A0Number v else None)"
  "map_of (value_pair k f w @ r) k' = (if k = k' \<and> w \<noteq> None then map_option f w else map_of r k')"
  "map_of (value_pair k f w) k' = (if k = k' then map_option f w else None)"
  by (auto simp: opt_pair_defs split: option.split)

lemma opt_num_object: "opt_num (A0Object ps) k = Option.bind (map_of ps k) a0_as_f64"
  by (simp add: opt_num_def a0_get_def)

lemma bind_number [simp]: "Option.bind (map_option A0Number v) a0_as_f64 = v"
  by (cases v) (simp_all add: a0_as_f64_def)

lemma if_none_bind [simp]: "(if v \<noteq> None then map_option f v else None) = map_option f v"
  by (cases v) simp_all


lemma sub_objects_inverse [simp]:
  "parse_color_config (color_config_to_amf0 c) = c"
  "parse_hdr_cll (hdr_cll_to_amf0 l) = l"
  "parse_hdr_mdcv (hdr_mdcv_to_amf0 m) = m"
  by (simp_all add: parse_color_config_def color_config_to_amf0_def parse_hdr_cll_def hdr_cll_to_amf0_def
      parse_hdr_mdcv_def hdr_mdcv_to_amf0_def opt_num_object del: map_of_append)

lemma ci_roundtrip: "ci_from_amf0 (ci_to_amf0 c) = Inr c"
  by (cases c) (simp add: ci_to_amf0_def ci_from_amf0_def ci_is_reset_def ci_default_def a0_get_def
      option.map_comp comp_def option.map_ident del: map_of_append)

lemma list_all_opt_pairs [simp]:
  "list_all P (num_pair k v) = (case v of None \<Rightarrow> True | Some n \<Rightarrow> P (k, A0Number n))"
  "list_all P (bool_pair k b) = (case b of None \<Rightarrow> True | Some x \<Rightarrow> P (k, A0Boolean x))"
  "list_all P (value_pair k f w) = (case w of None \<Rightarrow> True | Some x \<Rightarrow> P (k, f x))"
  by (simp_all add: opt_pair_defs split: option.split)


lemma name_ok_lit: "s \<noteq> [] \<Longrightarrow> length s < 2 ^ 16 \<Longrightarrow> list_all (\<lambda>c. of_char c < (0x80 :: u8)) s \<Longrightarrow> name_ok (lit s)"
  by (auto simp: name_ok_def short_ok_def lit_def list_all_iff intro!: utf8_valid_ascii)

text \<open>The names of the properties are well-formed member names.\<close>

lemma ci_names_ok:
  "list_all (\<lambda>s. name_ok (lit s)) [''bitDepth'', ''colorPrimaries'', ''transferCharacteristics'',
     ''matrixCoefficients'', ''maxFall'', ''maxCLL'', ''redX'', ''redY'', ''greenX'', ''greenY'', ''blueX'',
     ''blueY'', ''whitePointX'', ''whitePointY'', ''maxLuminance'', ''minLuminance'',
     ''colorConfig'', ''hdrCll'', ''hdrMdcv'']"
  unfolding list.pred_inject by (intro conjI TrueI name_ok_lit) simp_all

lemma fits_sub_objects:
  "amf0_fits (Suc 0) (color_config_to_amf0 a)" "amf0_fits (Suc 0) (hdr_cll_to_amf0 l)"
  "amf0_fits (Suc 0) (hdr_mdcv_to_amf0 m)"
  using ci_names_ok by (simp_all add: color_config_to_amf0_def hdr_cll_to_amf0_def hdr_mdcv_to_amf0_def
      MAX_DECODE_DEPTH_def split: option.split)

lemma fits_ci: "amf0_fits 0 (ci_to_amf0 c)"
  using ci_names_ok by (simp add: ci_to_amf0_def fits_sub_objects MAX_DECODE_DEPTH_def split: option.split)

text \<open>
  The HDR metadata of a stream survives the wire: the tag \<open>color_info_tag\<close> makes is parsed
  back from its payload, and \<open>color_info\<close> of it is the very object, every subset of the
  optional fields and the reset signal included, bit for bit.
\<close>

theorem color_info_roundtrip:
  "res_bind (parse_video (build_video (color_info_tag [f1, f2, f3, f4] c))) (color_info_of fmt) = Inr (Some c)
   \<and> (ci_is_reset c \<longleftrightarrow> amf0_encode (ci_to_amf0 c) = [6])"
proof -
  let ?t = "color_info_tag [f1, f2, f3, f4] c"
  have "video_ok ?t"
    by (simp add: video_ok_def color_info_tag_def video_consts VIDEO_FRAME_INFO_def EX_PACKET_TYPE_METADATA_def
        preludes_ok_def fourcc_ok_def needs_cts_def)
  then have wire: "parse_video (build_video ?t) = Inr ?t" by (rule video_parses)
  have "long_ok (lit ''colorInfo'')"
    using name_ok_lit[of "''colorInfo''"] by (simp add: name_ok_def short_ok_def long_ok_def)
  then have "amf0_decode_all fmt (vt_body ?t) = Inr [A0String (lit ''colorInfo''), ci_to_amf0 c]"
    using amf0_decode_all_encode[of "[A0String (lit ''colorInfo''), ci_to_amf0 c]" fmt] fits_ci[of c]
    by (simp add: color_info_tag_def MAX_DECODE_DEPTH_def)
  then have "color_info_of fmt ?t = Inr (Some c)"
    unfolding color_info_of_def
    by (simp add: vt_is_ex_metadata_def a0_as_str_def ci_roundtrip)
      (simp add: color_info_tag_def)
  moreover have "ci_is_reset c \<longleftrightarrow> amf0_encode (ci_to_amf0 c) = [6]" by (simp add: ci_to_amf0_def)
  ultimately show ?thesis by (simp add: wire)
qed

section \<open>Reading a property list\<close>

text \<open>
  A typed view that is read property by property and writes its named fields, then \<open>extra\<close>:
  \<open>pairs\<close> lists what it writes, \<open>lossless\<close> says which properties a step keeps.
\<close>

locale property_object =
  fixes step :: "rstring \<times> amf0_value \<Rightarrow> 'o \<Rightarrow> 'o" and initial :: 'o
    and pairs :: "'o \<Rightarrow> (rstring \<times> amf0_value) list" and lossless :: "rstring \<times> amf0_value \<Rightarrow> bool"
  assumes initial_pairs: "pairs initial = []"
    and step_pairs: "lossless kv \<Longrightarrow> fst kv \<notin> fst ` set (pairs a) \<Longrightarrow>
      mset (pairs (step kv a)) = add_mset kv (mset (pairs a))"
begin

lemma fold_pairs:
  "list_all lossless ps \<Longrightarrow> distinct (map fst ps) \<Longrightarrow> fst ` set ps \<inter> fst ` set (pairs a) = {} \<Longrightarrow>
   mset (pairs (fold step ps a)) = mset ps + mset (pairs a)"
proof (induction ps arbitrary: a)
  case (Cons kv ps)
  have one: "mset (pairs (step kv a)) = add_mset kv (mset (pairs a))"
    using Cons.prems by (intro step_pairs) auto
  then have "set (pairs (step kv a)) = insert kv (set (pairs a))"
    by (metis set_mset_add_mset_insert set_mset_mset)
  then have "mset (pairs (fold step ps (step kv a))) = mset ps + mset (pairs (step kv a))"
    using Cons.prems by (intro Cons.IH) auto
  then show ?case by (simp add: one)
qed simp

text \<open>What is read from a list of distinct properties is written back, in some order.\<close>

lemma read_write_mset:
  "list_all lossless ps \<Longrightarrow> distinct (map fst ps) \<Longrightarrow> mset (pairs (fold step ps initial)) = mset ps"
  using fold_pairs[of ps initial] by (simp add: initial_pairs)

end

section \<open>OnMetaData\<close>

record on_metadata =
  om_audiocodecid :: "f64 option"
  om_audiodatarate :: "f64 option"
  om_audiodelay :: "f64 option"
  om_audiosamplerate :: "f64 option"
  om_audiosamplesize :: "f64 option"
  om_can_seek_to_end :: "bool option"
  om_creationdate :: "rstring option"
  om_duration :: "f64 option"
  om_filesize :: "f64 option"
  om_framerate :: "f64 option"
  om_height :: "f64 option"
  om_stereo :: "bool option"
  om_videocodecid :: "f64 option"
  om_videodatarate :: "f64 option"
  om_width :: "f64 option"
  om_audio_map :: "amf0_value option"
  om_video_map :: "amf0_value option"
  om_extra :: "(rstring \<times> amf0_value) list"

definition om_default :: on_metadata where
  "om_default = \<lparr>om_audiocodecid = None, om_audiodatarate = None, om_audiodelay = None,
     om_audiosamplerate = None, om_audiosamplesize = None, om_can_seek_to_end = None,
     om_creationdate = None, om_duration = None, om_filesize = None, om_framerate = None,
     om_height = None, om_stereo = None, om_videocodecid = None, om_videodatarate = None,
     om_width = None, om_audio_map = None, om_video_map = None, om_extra = []\<rparr>"

definition om_step :: "rstring \<times> amf0_value \<Rightarrow> on_metadata \<Rightarrow> on_metadata" where
  "om_step kv m =
    (let k = fst kv; v = snd kv in
     if k = lit ''audiocodecid'' then m\<lparr>om_audiocodecid := a0_as_f64 v\<rparr>
     else if k = lit ''audiodatarate'' then m\<lparr>om_audiodatarate := a0_as_f64 v\<rparr>
     else if k = lit ''audiodelay'' then m\<lparr>om_audiodelay := a0_as_f64 v\<rparr>
     else if k = lit ''audiosamplerate'' then m\<lparr>om_audiosamplerate := a0_as_f64 v\<rparr>
     else if k = lit ''audiosamplesize'' then m\<lparr>om_audiosamplesize := a0_as_f64 v\<rparr>
     else if k = lit ''canSeekToEnd'' then m\<lparr>om_can_seek_to_end := a0_as_bool v\<rparr>
     else if k = lit ''creationdate'' then m\<lparr>om_creationdate := a0_as_str v\<rparr>
     else if k = lit ''duration'' then m\<lparr>om_duration := a0_as_f64 v\<rparr>
     else if k = lit ''filesize'' then m\<lparr>om_filesize := a0_as_f64 v\<rparr>
     else if k = lit ''framerate'' then m\<lparr>om_framerate := a0_as_f64 v\<rparr>
     else if k = lit ''height'' then m\<lparr>om_height := a0_as_f64 v\<rparr>
     else if k = lit ''stereo'' then m\<lparr>om_stereo := a0_as_bool v\<rparr>
     else if k = lit ''videocodecid'' then m\<lparr>om_videocodecid := a0_as_f64 v\<rparr>
     else if k = lit ''videodatarate'' then m\<lparr>om_videodatarate := a0_as_f64 v\<rparr>
     else if k = lit ''width'' then m\<lparr>om_width := a0_as_f64 v\<rparr>
     else if k = lit ''audioTrackIdInfoMap'' then m\<lparr>om_audio_map := Some v\<rparr>
     else if k = lit ''videoTrackIdInfoMap'' then m\<lparr>om_video_map := Some v\<rparr>
     else m\<lparr>om_extra := om_extra m @ [kv]\<rparr>)"

definition om_from_amf0 :: "amf0_value \<Rightarrow> on_metadata result" where
  "om_from_amf0 v =
    (case v of A0EcmaArray ps \<Rightarrow> Inr (fold om_step ps om_default)
     | A0Object ps \<Rightarrow> Inr (fold om_step ps om_default)
     | _ \<Rightarrow> Inl Other)"

definition om_pairs :: "on_metadata \<Rightarrow> (rstring \<times> amf0_value) list" where
  "om_pairs m =
     num_pair (lit ''audiocodecid'') (om_audiocodecid m)
     @ num_pair (lit ''audiodatarate'') (om_audiodatarate m)
     @ num_pair (lit ''audiodelay'') (om_audiodelay m)
     @ num_pair (lit ''audiosamplerate'') (om_audiosamplerate m)
     @ num_pair (lit ''audiosamplesize'') (om_audiosamplesize m)
     @ bool_pair (lit ''canSeekToEnd'') (om_can_seek_to_end m)
     @ value_pair (lit ''creationdate'') A0String (om_creationdate m)
     @ num_pair (lit ''duration'') (om_duration m)
     @ num_pair (lit ''filesize'') (om_filesize m)
     @ num_pair (lit ''framerate'') (om_framerate m)
     @ num_pair (lit ''height'') (om_height m)
     @ bool_pair (lit ''stereo'') (om_stereo m)
     @ num_pair (lit ''videocodecid'') (om_videocodecid m)
     @ num_pair (lit ''videodatarate'') (om_videodatarate m)
     @ num_pair (lit ''width'') (om_width m)
     @ value_pair (lit ''audioTrackIdInfoMap'') (\<lambda>v. v) (om_audio_map m)
     @ value_pair (lit ''videoTrackIdInfoMap'') (\<lambda>v. v) (om_video_map m)
     @ om_extra m"

definition om_to_amf0 :: "on_metadata \<Rightarrow> amf0_value" where
  "om_to_amf0 m = A0EcmaArray (om_pairs m)"

definition om_keys :: "rstring list" where
  "om_keys = map lit [''audiocodecid'', ''audiodatarate'', ''audiodelay'', ''audiosamplerate'',
     ''audiosamplesize'', ''canSeekToEnd'', ''creationdate'', ''duration'', ''filesize'', ''framerate'',
     ''height'', ''stereo'', ''videocodecid'', ''videodatarate'', ''width'', ''audioTrackIdInfoMap'',
     ''videoTrackIdInfoMap'']"

text \<open>A known property of another type than its field is dropped; every other one is kept.\<close>

definition om_typed :: "rstring \<times> amf0_value \<Rightarrow> bool" where
  "om_typed kv = (let k = fst kv; v = snd kv in
     if k \<in> set (map lit [''canSeekToEnd'', ''stereo'']) then a0_as_bool v \<noteq> None
     else if k = lit ''creationdate'' then a0_as_str v \<noteq> None
     else if k \<in> set (map lit [''audioTrackIdInfoMap'', ''videoTrackIdInfoMap'']) \<or> k \<notin> set om_keys then True
     else a0_as_f64 v \<noteq> None)"

lemma fold_opt_pairs:
  "fold f (num_pair k n) a = (case n of None \<Rightarrow> a | Some x \<Rightarrow> f (k, A0Number x) a)"
  "fold f (bool_pair k b) a = (case b of None \<Rightarrow> a | Some x \<Rightarrow> f (k, A0Boolean x) a)"
  "fold f (value_pair k g w) a = (case w of None \<Rightarrow> a | Some x \<Rightarrow> f (k, g x) a)"
  by (simp_all add: opt_pair_defs split: option.split)

lemma om_field_steps:
  "om_audiocodecid a = None \<Longrightarrow> fold om_step (num_pair (lit ''audiocodecid'') n) a = a\<lparr>om_audiocodecid := n\<rparr>"
  "om_audiodatarate a = None \<Longrightarrow> fold om_step (num_pair (lit ''audiodatarate'') n) a = a\<lparr>om_audiodatarate := n\<rparr>"
  "om_audiodelay a = None \<Longrightarrow> fold om_step (num_pair (lit ''audiodelay'') n) a = a\<lparr>om_audiodelay := n\<rparr>"
  "om_audiosamplerate a = None \<Longrightarrow> fold om_step (num_pair (lit ''audiosamplerate'') n) a = a\<lparr>om_audiosamplerate := n\<rparr>"
  "om_audiosamplesize a = None \<Longrightarrow> fold om_step (num_pair (lit ''audiosamplesize'') n) a = a\<lparr>om_audiosamplesize := n\<rparr>"
  "om_can_seek_to_end a = None \<Longrightarrow> fold om_step (bool_pair (lit ''canSeekToEnd'') b) a = a\<lparr>om_can_seek_to_end := b\<rparr>"
  "om_creationdate a = None \<Longrightarrow> fold om_step (value_pair (lit ''creationdate'') A0String s) a = a\<lparr>om_creationdate := s\<rparr>"
  "om_duration a = None \<Longrightarrow> fold om_step (num_pair (lit ''duration'') n) a = a\<lparr>om_duration := n\<rparr>"
  "om_filesize a = None \<Longrightarrow> fold om_step (num_pair (lit ''filesize'') n) a = a\<lparr>om_filesize := n\<rparr>"
  "om_framerate a = None \<Longrightarrow> fold om_step (num_pair (lit ''framerate'') n) a = a\<lparr>om_framerate := n\<rparr>"
  "om_height a = None \<Longrightarrow> fold om_step (num_pair (lit ''height'') n) a = a\<lparr>om_height := n\<rparr>"
  "om_stereo a = None \<Longrightarrow> fold om_step (bool_pair (lit ''stereo'') b) a = a\<lparr>om_stereo := b\<rparr>"
  "om_videocodecid a = None \<Longrightarrow> fold om_step (num_pair (lit ''videocodecid'') n) a = a\<lparr>om_videocodecid := n\<rparr>"
  "om_videodatarate a = None \<Longrightarrow> fold om_step (num_pair (lit ''videodatarate'') n) a = a\<lparr>om_videodatarate := n\<rparr>"
  "om_width a = None \<Longrightarrow> fold om_step (num_pair (lit ''width'') n) a = a\<lparr>om_width := n\<rparr>"
  "om_audio_map a = None \<Longrightarrow> fold om_step (value_pair (lit ''audioTrackIdInfoMap'') (\<lambda>v. v) w) a = a\<lparr>om_audio_map := w\<rparr>"
  "om_video_map a = None \<Longrightarrow> fold om_step (value_pair (lit ''videoTrackIdInfoMap'') (\<lambda>v. v) w) a = a\<lparr>om_video_map := w\<rparr>"
  by (cases a, simp add: fold_opt_pairs om_step_def a0_as_f64_def a0_as_bool_def a0_as_str_def split: option.split)+

lemma om_step_extra: "fst kv \<notin> set om_keys \<Longrightarrow> om_step kv m = m\<lparr>om_extra := om_extra m @ [kv]\<rparr>"
  by (simp add: om_keys_def om_step_def)

lemma om_fold_extra:
  "list_all (\<lambda>kv. fst kv \<notin> set om_keys) ps \<Longrightarrow> fold om_step ps m = m\<lparr>om_extra := om_extra m @ ps\<rparr>"
  by (induction ps arbitrary: m) (simp_all add: om_step_extra)

lemma om_roundtrip:
  "list_all (\<lambda>kv. fst kv \<notin> set om_keys) (om_extra m) \<Longrightarrow> fold om_step (om_pairs m) om_default = m"
  by (simp add: om_pairs_def om_default_def om_field_steps om_fold_extra)

lemma om_extra_step: "om_extra (om_step kv m) = (if fst kv \<in> set om_keys then om_extra m else om_extra m @ [kv])"
  by (cases m) (simp add: om_step_def om_keys_def)

lemma om_extra_fold: "om_extra (fold om_step ps m) = om_extra m @ filter (\<lambda>kv. fst kv \<notin> set om_keys) ps"
  by (induction ps arbitrary: m) (simp_all add: om_extra_step)

lemma om_extra_read: "list_all (\<lambda>kv. fst kv \<notin> set om_keys) (om_extra (fold om_step ps om_default))"
  by (simp add: om_extra_fold list_all_iff) (simp add: om_default_def)

lemma opt_pair_keys:
  "k' \<notin> fst ` set (num_pair k n) \<longleftrightarrow> n = None \<or> k \<noteq> k'"
  "k' \<notin> fst ` set (bool_pair k b) \<longleftrightarrow> b = None \<or> k \<noteq> k'"
  "k' \<notin> fst ` set (value_pair k g w) \<longleftrightarrow> w = None \<or> k \<noteq> k'"
  by (auto simp: opt_pair_defs split: option.split)

lemma opt_pair_values:
  "num_pair k (Some n) = [(k, A0Number n)]" "num_pair k None = []"
  "bool_pair k (Some b) = [(k, A0Boolean b)]" "bool_pair k None = []"
  "value_pair k g (Some w) = [(k, g w)]" "value_pair k g None = []"
  by (simp_all add: opt_pair_defs)

lemma a0_accessor_Some:
  "a0_as_f64 v = Some n \<longleftrightarrow> v = A0Number n" "a0_as_bool v = Some b \<longleftrightarrow> v = A0Boolean b"
  "a0_as_str v = Some s \<longleftrightarrow> v = A0String s"
  by (cases v; simp add: a0_accessors)+

lemma a0_accessor_values:
  "a0_as_f64 (A0Number n) = Some n" "a0_as_bool (A0Boolean b) = Some b" "a0_as_str (A0String s) = Some s"
  by (simp_all add: a0_accessors)

lemma om_step_known:
  assumes "fst kv \<in> set om_keys" and "om_typed kv" and "fst kv \<notin> fst ` set (om_pairs a)"
  shows "mset (om_pairs (om_step kv a)) = add_mset kv (mset (om_pairs a))"
proof -
  obtain k v where kv: "kv = (k, v)" by (cases kv)
  have "k \<in> set om_keys" using assms(1) by (simp add: kv)
  then show ?thesis
    using assms(2,3) unfolding kv om_keys_def list.map list.set insert_iff empty_iff
    by (elim disjE FalseE; hypsubst)
      (auto simp: om_typed_def om_keys_def om_step_def om_pairs_def image_Un opt_pair_keys opt_pair_values
        a0_accessor_Some a0_accessor_values)
qed

interpretation om: property_object om_step om_default om_pairs om_typed
proof
  show "om_pairs om_default = []" by (simp add: om_pairs_def om_default_def opt_pair_defs)
  show "mset (om_pairs (om_step kv a)) = add_mset kv (mset (om_pairs a))"
    if "om_typed kv" "fst kv \<notin> fst ` set (om_pairs a)" for kv a
  proof (cases "fst kv \<in> set om_keys")
    case False
    then show ?thesis by (simp add: om_step_extra) (simp add: om_pairs_def)
  qed (use that om_step_known in simp)
qed

section \<open>TrackInfo\<close>

record track_info =
  ti_width :: "f64 option"
  ti_height :: "f64 option"
  ti_videodatarate :: "f64 option"
  ti_videocodecid :: "f64 option"
  ti_audiodatarate :: "f64 option"
  ti_channels :: "f64 option"
  ti_samplerate :: "f64 option"
  ti_audiocodecid :: "f64 option"
  ti_extra :: "(rstring \<times> amf0_value) list"

definition ti_default :: track_info where
  "ti_default = \<lparr>ti_width = None, ti_height = None, ti_videodatarate = None, ti_videocodecid = None,
     ti_audiodatarate = None, ti_channels = None, ti_samplerate = None, ti_audiocodecid = None,
     ti_extra = []\<rparr>"

definition ti_step :: "rstring \<times> amf0_value \<Rightarrow> track_info \<Rightarrow> track_info" where
  "ti_step kv m =
    (let k = fst kv; other = m\<lparr>ti_extra := ti_extra m @ [kv]\<rparr> in
     case snd kv of A0Number n \<Rightarrow>
       if k = lit ''width'' then m\<lparr>ti_width := Some n\<rparr>
       else if k = lit ''height'' then m\<lparr>ti_height := Some n\<rparr>
       else if k = lit ''videodatarate'' then m\<lparr>ti_videodatarate := Some n\<rparr>
       else if k = lit ''videocodecid'' then m\<lparr>ti_videocodecid := Some n\<rparr>
       else if k = lit ''audiodatarate'' then m\<lparr>ti_audiodatarate := Some n\<rparr>
       else if k = lit ''channels'' then m\<lparr>ti_channels := Some n\<rparr>
       else if k = lit ''samplerate'' then m\<lparr>ti_samplerate := Some n\<rparr>
       else if k = lit ''audiocodecid'' then m\<lparr>ti_audiocodecid := Some n\<rparr>
       else other
     | _ \<Rightarrow> other)"

definition ti_from_amf0 :: "amf0_value \<Rightarrow> track_info result" where
  "ti_from_amf0 v =
    (case v of A0EcmaArray ps \<Rightarrow> Inr (fold ti_step ps ti_default)
     | A0Object ps \<Rightarrow> Inr (fold ti_step ps ti_default)
     | _ \<Rightarrow> Inl Other)"

definition ti_pairs :: "track_info \<Rightarrow> (rstring \<times> amf0_value) list" where
  "ti_pairs m =
     num_pair (lit ''width'') (ti_width m) @ num_pair (lit ''height'') (ti_height m)
     @ num_pair (lit ''videodatarate'') (ti_videodatarate m)
     @ num_pair (lit ''videocodecid'') (ti_videocodecid m)
     @ num_pair (lit ''audiodatarate'') (ti_audiodatarate m)
     @ num_pair (lit ''channels'') (ti_channels m)
     @ num_pair (lit ''samplerate'') (ti_samplerate m)
     @ num_pair (lit ''audiocodecid'') (ti_audiocodecid m)
     @ ti_extra m"

definition ti_to_amf0 :: "track_info \<Rightarrow> amf0_value" where
  "ti_to_amf0 m = A0Object (ti_pairs m)"

definition ti_keys :: "rstring list" where
  "ti_keys = map lit [''width'', ''height'', ''videodatarate'', ''videocodecid'', ''audiodatarate'',
     ''channels'', ''samplerate'', ''audiocodecid'']"

text \<open>A property that becomes a field, and one that is kept in \<open>extra\<close>.\<close>

definition ti_field :: "rstring \<times> amf0_value \<Rightarrow> bool" where
  "ti_field kv \<longleftrightarrow> fst kv \<in> set ti_keys \<and> a0_as_f64 (snd kv) \<noteq> None"

lemma ti_step_extra: "\<not> ti_field kv \<Longrightarrow> ti_step kv m = m\<lparr>ti_extra := ti_extra m @ [kv]\<rparr>"
  by (cases kv; cases "snd kv") (simp_all add: ti_field_def ti_keys_def ti_step_def a0_as_f64_def)

lemma ti_step_field: "ti_field kv \<Longrightarrow> ti_extra (ti_step kv m) = ti_extra m"
  by (cases kv, cases m) (auto simp: ti_field_def ti_keys_def ti_step_def a0_accessor_Some)

lemma ti_extra_fold: "ti_extra (fold ti_step ps m) = ti_extra m @ filter (\<lambda>kv. \<not> ti_field kv) ps"
  by (induction ps arbitrary: m) (auto simp: ti_step_extra ti_step_field)

lemma ti_extra_read: "list_all (\<lambda>kv. \<not> ti_field kv) (ti_extra (fold ti_step ps ti_default))"
  by (simp add: ti_extra_fold list_all_iff) (simp add: ti_default_def)

lemma ti_field_steps:
  "ti_width a = None \<Longrightarrow> fold ti_step (num_pair (lit ''width'') n) a = a\<lparr>ti_width := n\<rparr>"
  "ti_height a = None \<Longrightarrow> fold ti_step (num_pair (lit ''height'') n) a = a\<lparr>ti_height := n\<rparr>"
  "ti_videodatarate a = None \<Longrightarrow> fold ti_step (num_pair (lit ''videodatarate'') n) a = a\<lparr>ti_videodatarate := n\<rparr>"
  "ti_videocodecid a = None \<Longrightarrow> fold ti_step (num_pair (lit ''videocodecid'') n) a = a\<lparr>ti_videocodecid := n\<rparr>"
  "ti_audiodatarate a = None \<Longrightarrow> fold ti_step (num_pair (lit ''audiodatarate'') n) a = a\<lparr>ti_audiodatarate := n\<rparr>"
  "ti_channels a = None \<Longrightarrow> fold ti_step (num_pair (lit ''channels'') n) a = a\<lparr>ti_channels := n\<rparr>"
  "ti_samplerate a = None \<Longrightarrow> fold ti_step (num_pair (lit ''samplerate'') n) a = a\<lparr>ti_samplerate := n\<rparr>"
  "ti_audiocodecid a = None \<Longrightarrow> fold ti_step (num_pair (lit ''audiocodecid'') n) a = a\<lparr>ti_audiocodecid := n\<rparr>"
  by (cases a, simp add: fold_opt_pairs ti_step_def split: option.split)+

lemma ti_fold_extra:
  "list_all (\<lambda>kv. \<not> ti_field kv) ps \<Longrightarrow> fold ti_step ps m = m\<lparr>ti_extra := ti_extra m @ ps\<rparr>"
  by (induction ps arbitrary: m) (simp_all add: ti_step_extra)

lemma ti_roundtrip:
  "list_all (\<lambda>kv. \<not> ti_field kv) (ti_extra m) \<Longrightarrow> fold ti_step (ti_pairs m) ti_default = m"
  by (simp add: ti_pairs_def ti_default_def ti_field_steps ti_fold_extra)

lemma ti_step_known:
  assumes "ti_field kv" and "fst kv \<notin> fst ` set (ti_pairs a)"
  shows "mset (ti_pairs (ti_step kv a)) = add_mset kv (mset (ti_pairs a))"
proof -
  obtain k n where kv: "kv = (k, A0Number n)" using assms(1) by (cases kv) (auto simp: ti_field_def a0_accessor_Some)
  have "k \<in> set ti_keys" using assms(1) by (simp add: kv ti_field_def)
  then show ?thesis
    using assms(2) unfolding kv ti_keys_def list.map list.set insert_iff empty_iff
    by (elim disjE FalseE; hypsubst)
      (auto simp: ti_step_def ti_pairs_def image_Un opt_pair_keys opt_pair_values)
qed

interpretation ti: property_object ti_step ti_default ti_pairs "\<lambda>_. True"
proof
  show "ti_pairs ti_default = []" by (simp add: ti_pairs_def ti_default_def opt_pair_defs)
  show "mset (ti_pairs (ti_step kv a)) = add_mset kv (mset (ti_pairs a))"
    if "fst kv \<notin> fst ` set (ti_pairs a)" for kv a
  proof (cases "ti_field kv")
    case False
    then show ?thesis by (simp add: ti_step_extra) (simp add: ti_pairs_def)
  qed (use that ti_step_known in simp)
qed

section \<open>What the typed views keep\<close>

definition object_pairs :: "amf0_value \<Rightarrow> (rstring \<times> amf0_value) list option" where
  "object_pairs v = (case v of A0EcmaArray ps \<Rightarrow> Some ps | A0Object ps \<Rightarrow> Some ps | _ \<Rightarrow> None)"

lemma from_amf0_pairs:
  "om_from_amf0 v = (case object_pairs v of Some ps \<Rightarrow> Inr (fold om_step ps om_default) | None \<Rightarrow> Inl Other)"
  "ti_from_amf0 v = (case object_pairs v of Some ps \<Rightarrow> Inr (fold ti_step ps ti_default) | None \<Rightarrow> Inl Other)"
  by (simp_all add: om_from_amf0_def ti_from_amf0_def object_pairs_def split: amf0_value.split)

lemma to_amf0_pairs: "object_pairs (om_to_amf0 m) = Some (om_pairs m)" "object_pairs (ti_to_amf0 t) = Some (ti_pairs t)"
  "object_pairs (A0Object ps) = Some ps" "object_pairs (A0EcmaArray ps) = Some ps"
  by (simp_all add: om_to_amf0_def ti_to_amf0_def object_pairs_def)

text \<open>
  C34. Typed metadata survives re-encoding: an \<open>onMetaData\<close> object is read back from what it is
  written as exactly when its \<open>extra\<close> list holds no property of the table, and so it is
  whenever it was read from a peer; the same for the description of a track, whose \<open>extra\<close>
  may hold a property of the table that is not a number.
\<close>

theorem metadata_roundtrip:
  "(om_from_amf0 (om_to_amf0 m) = Inr m \<longleftrightarrow> list_all (\<lambda>kv. fst kv \<notin> set om_keys) (om_extra m))
   \<and> (case om_from_amf0 v of Inl e \<Rightarrow> object_pairs v = None
      | Inr m' \<Rightarrow> om_from_amf0 (om_to_amf0 m') = Inr m')
   \<and> (ti_from_amf0 (ti_to_amf0 t) = Inr t \<longleftrightarrow> list_all (\<lambda>kv. \<not> ti_field kv) (ti_extra t))
   \<and> (case ti_from_amf0 v of Inl e \<Rightarrow> object_pairs v = None
      | Inr t' \<Rightarrow> ti_from_amf0 (ti_to_amf0 t') = Inr t')"
proof -
  have om: "om_from_amf0 (om_to_amf0 m) = Inr m \<longleftrightarrow> list_all (\<lambda>kv. fst kv \<notin> set om_keys) (om_extra m)" for m
    using om_roundtrip[of m] om_extra_read[of "om_pairs m"] by (auto simp: from_amf0_pairs to_amf0_pairs)
  have ti: "ti_from_amf0 (ti_to_amf0 t) = Inr t \<longleftrightarrow> list_all (\<lambda>kv. \<not> ti_field kv) (ti_extra t)" for t
    using ti_roundtrip[of t] ti_extra_read[of "ti_pairs t"] by (auto simp: from_amf0_pairs to_amf0_pairs)
  show ?thesis
    unfolding om ti by (auto simp: om ti from_amf0_pairs om_extra_read ti_extra_read split: option.split sum.split)
qed

text \<open>
  Nothing a peer sent is lost: with distinct names, the properties of a track description
  are written again as they were read, in some order, and so are those of \<open>onMetaData\<close> when
  each property of its table has the type of its field.
\<close>

theorem metadata_lossless:
  assumes "distinct (map fst ps)"
  shows "(case ti_from_amf0 (A0Object ps) of Inl e \<Rightarrow> False
     | Inr t \<Rightarrow> (case object_pairs (ti_to_amf0 t) of None \<Rightarrow> False | Some qs \<Rightarrow> mset qs = mset ps))
    \<and> (if list_all om_typed ps then
       (case om_from_amf0 (A0EcmaArray ps) of Inl e \<Rightarrow> False
        | Inr m \<Rightarrow> (case object_pairs (om_to_amf0 m) of None \<Rightarrow> False | Some qs \<Rightarrow> mset qs = mset ps))
     else True)"
  using ti.read_write_mset[OF _ assms] om.read_write_mset[OF _ assms]
  by (auto simp: from_amf0_pairs to_amf0_pairs list_all_iff)

theorem metadata_lossless_witness:
  "(case ti_from_amf0 (A0Object [(lit ''codec'', A0Null), (lit ''width'', A0Number 7)]) of Inl e \<Rightarrow> False
     | Inr t \<Rightarrow> (case object_pairs (ti_to_amf0 t) of None \<Rightarrow> False
         | Some qs \<Rightarrow> mset qs = mset [(lit ''codec'', A0Null), (lit ''width'', A0Number 7)]))"
  using metadata_lossless[of "[(lit ''codec'', A0Null), (lit ''width'', A0Number 7)]"] by simp

section \<open>FourCC numbers\<close>

definition num_to_fourcc :: "f64 \<Rightarrow> fourcc option" where
  "num_to_fourcc n =
    (if \<not> f64_is_finite n \<or> f64_lt n 0 \<or> f64_lt (f64_of_u32 0xFFFFFFFF) n \<or> \<not> f64_is_integral n then None
     else let bytes = u32_be (f64_as_u32 n) in
       if list_all (\<lambda>b. 0x20 \<le> b \<and> b \<le> 0x7E) bytes then Some bytes else None)"

definition om_audio_fourcc :: "on_metadata \<Rightarrow> fourcc option" where
  "om_audio_fourcc m = Option.bind (om_audiocodecid m) num_to_fourcc"

definition om_video_fourcc :: "on_metadata \<Rightarrow> fourcc option" where
  "om_video_fourcc m = Option.bind (om_videocodecid m) num_to_fourcc"

definition ti_video_fourcc :: "track_info \<Rightarrow> fourcc option" where
  "ti_video_fourcc t = Option.bind (ti_videocodecid t) num_to_fourcc"

definition ti_audio_fourcc :: "track_info \<Rightarrow> fourcc option" where
  "ti_audio_fourcc t = Option.bind (ti_audiocodecid t) num_to_fourcc"

lemma u32_max: "(w :: u32) \<le> 0xFFFFFFFF"
proof -
  have "unat w < 2 ^ LENGTH(32)" by (rule unsigned_less)
  then show ?thesis by (simp add: word_le_nat_alt)
qed

text \<open>
  FourCC recognition is exact: a codec number stands for a FourCC only when it is the number
  of four printable characters, big-endian, and every such number is recognised; a legacy codec
  id never is.
\<close>

theorem num_to_fourcc_exact:
  "num_to_fourcc n = Some f \<longleftrightarrow>
     length f = 4 \<and> list_all (\<lambda>b. 0x20 \<le> b \<and> b \<le> 0x7E) f \<and> n = f64_of_u32 (of_be f)"
proof
  assume l: "num_to_fourcc n = Some f"
  define w where "w = f64_as_u32 n"
  have f: "f = u32_be w" "list_all (\<lambda>b. 0x20 \<le> b \<and> b \<le> 0x7E) f" and n: "f64_is_integral n" "f64_is_finite n"
    using l by (auto simp: num_to_fourcc_def Let_def w_def split: if_splits)
  have "w \<noteq> 0" "w \<noteq> 0xFFFFFFFF" using f by (auto simp: be_bytes_unfold)
  then have "f64_of_u32 w = n" using f64_of_u32_as_u32[OF n] by (simp add: w_def)
  with f show "length f = 4 \<and> list_all (\<lambda>b. 0x20 \<le> b \<and> b \<le> 0x7E) f \<and> n = f64_of_u32 (of_be f)"
    by simp
next
  assume r: "length f = 4 \<and> list_all (\<lambda>b. 0x20 \<le> b \<and> b \<le> 0x7E) f \<and> n = f64_of_u32 (of_be f)"
  define w :: u32 where "w = of_be f"
  have f: "u32_be w = f" using be_bytes_of_be[of f, where 'a = 32] r by (simp add: w_def)
  have n: "n = f64_of_u32 w" using r by (simp add: w_def)
  have "f64_is_integral n" using f64_of_nat_integral[OF u32_small] by (simp add: n f64_of_u32_def)
  moreover have "\<not> f64_lt n 0" "\<not> f64_lt (f64_of_u32 0xFFFFFFFF) n"
    using f64_lt_not_le f64_of_u32_range(2)[of w] f64_of_u32_range(3)[of w "0xFFFFFFFF"] u32_max[of w]
    by (auto simp: n)
  ultimately show "num_to_fourcc n = Some f"
    using conjunct1[OF conjunct2[OF r]]
    by (simp add: num_to_fourcc_def n f64_of_u32_range f64_as_u32_of_u32 f)
qed

section \<open>Track maps\<close>

definition track_map_pairs :: "amf0_value option \<Rightarrow> (rstring \<times> amf0_value) list" where
  "track_map_pairs m = (case Option.bind m object_pairs of Some ps \<Rightarrow> ps | None \<Rightarrow> [])"

text \<open>\<open>str::parse::<u8>\<close>\<close>

definition parse_u8 :: "rstring \<Rightarrow> u8 option" where
  "parse_u8 s = map_option word_of_nat (parse_uint 255 s)"

definition track_ids :: "amf0_value option \<Rightarrow> u8 list" where
  "track_ids m = remdups_adj (sort (List.map_filter (\<lambda>(k, _). parse_u8 k) (track_map_pairs m)))"

definition track_info_of :: "amf0_value option \<Rightarrow> u8 \<Rightarrow> track_info option result" where
  "track_info_of m track_id =
    (case map_of (track_map_pairs m) (dec_nat (unat track_id)) of
       Some v \<Rightarrow> res_bind (ti_from_amf0 v) (\<lambda>t. Inr (Some t))
     | None \<Rightarrow> Inr None)"

definition set_track_value :: "rstring \<Rightarrow> amf0_value \<Rightarrow> amf0_value option \<Rightarrow> amf0_value option" where
  "set_track_value key v m =
    (case m of
       Some (A0EcmaArray ps) \<Rightarrow> Some (A0EcmaArray (set_entry key v ps))
     | Some (A0Object ps) \<Rightarrow> Some (A0Object (set_entry key v ps))
     | _ \<Rightarrow> Some (A0Object [(key, v)]))"

definition set_track_info :: "amf0_value option \<Rightarrow> u8 \<Rightarrow> track_info \<Rightarrow> amf0_value option" where
  "set_track_info m track_id info = set_track_value (dec_nat (unat track_id)) (ti_to_amf0 info) m"

definition om_video_track_ids :: "on_metadata \<Rightarrow> u8 list" where
  "om_video_track_ids m = track_ids (om_video_map m)"

definition om_audio_track_ids :: "on_metadata \<Rightarrow> u8 list" where
  "om_audio_track_ids m = track_ids (om_audio_map m)"

definition om_video_track_info :: "on_metadata \<Rightarrow> u8 \<Rightarrow> track_info option result" where
  "om_video_track_info m i = track_info_of (om_video_map m) i"

definition om_audio_track_info :: "on_metadata \<Rightarrow> u8 \<Rightarrow> track_info option result" where
  "om_audio_track_info m i = track_info_of (om_audio_map m) i"

definition om_set_video_track_info :: "u8 \<Rightarrow> track_info \<Rightarrow> on_metadata \<Rightarrow> on_metadata" where
  "om_set_video_track_info i info m = m\<lparr>om_video_map := set_track_info (om_video_map m) i info\<rparr>"

definition om_set_audio_track_info :: "u8 \<Rightarrow> track_info \<Rightarrow> on_metadata \<Rightarrow> on_metadata" where
  "om_set_audio_track_info i info m = m\<lparr>om_audio_map := set_track_info (om_audio_map m) i info\<rparr>"

lemma track_map_pairs_set: "track_map_pairs (set_track_value k v m) = set_entry k v (track_map_pairs m)"
  by (auto simp: track_map_pairs_def set_track_value_def object_pairs_def split: option.split amf0_value.split)

interpretation tracks: keyed_table "\<lambda>m. map_of (track_map_pairs m)" set_track_value
  by unfold_locales (simp add: track_map_pairs_set map_of_set_entry)

subsection \<open>The decimal keys\<close>

lemma parse_u8_dec: "parse_u8 (dec_nat (unat (b :: u8))) = Some b"
proof -
  have "unat b < 2 ^ LENGTH(8)" by (rule unsigned_less)
  then show ?thesis using parse_uint_dec[of "unat b" 255] by (simp add: parse_u8_def)
qed

lemma dec_u8_inj: "dec_nat (unat a) = dec_nat (unat b) \<longleftrightarrow> a = (b :: u8)"
  by (metis parse_u8_dec option.inject)

lemma in_map_filter: "i \<in> set (List.map_filter f xs) \<longleftrightarrow> (\<exists>x \<in> set xs. f x = Some i)"
  by (force simp: List.map_filter_def)

lemma map_filter_keys: "set (List.map_filter (\<lambda>(k, _). g k) ps) = {i. Some i \<in> g ` fst ` set ps}"
proof (rule set_eqI)
  fix i
  have "i \<in> set (List.map_filter (\<lambda>(k, _). g k) ps) \<longleftrightarrow> (\<exists>x \<in> set ps. g (fst x) = Some i)"
    by (simp add: in_map_filter split_beta)
  also have "\<dots> \<longleftrightarrow> Some i \<in> g ` fst ` set ps" by (simp add: image_iff eq_commute[of _ "Some i"])
  finally show "i \<in> set (List.map_filter (\<lambda>(k, _). g k) ps) \<longleftrightarrow> i \<in> {i. Some i \<in> g ` fst ` set ps}" by simp
qed

lemma distinct_remdups_adj_sorted: "sorted xs \<Longrightarrow> distinct (remdups_adj (xs :: 'a::linorder list))"
  by (induction xs rule: remdups_adj.induct) (auto simp: order_le_less)

lemma ids_set_entry:
  "g k = Some i \<Longrightarrow> {j. Some j \<in> g ` fst ` set (set_entry k v ps)} = insert i {j. Some j \<in> g ` fst ` set ps}"
proof -
  assume g: "g k = Some i"
  have "fst ` set (set_entry k v ps) = insert k (fst ` set ps)"
    using set_entry_keys[of k v ps] by (metis image_set insert_absorb list.set(2) set_append Un_insert_right
        list.simps(15) sup_bot_right list.set(1))
  then show ?thesis using g by auto
qed

text \<open>
  The per-track maps are tables keyed by the track number: a description stored for a track
  is the one found for it, every other track keeps its own, whatever value the map held before;
  the listed numbers are ascending without repetition, and the stored one is added to them.
\<close>

theorem track_map_laws:
  "track_info_of (set_track_info m i info) j =
     (if j = i then res_bind (ti_from_amf0 (ti_to_amf0 info)) (\<lambda>t. Inr (Some t)) else track_info_of m j)
   \<and> sorted (track_ids m) \<and> distinct (track_ids m)
   \<and> set (track_ids (set_track_info m i info)) = insert i (set (track_ids m))
   \<and> map fst (track_map_pairs (set_track_info m i info)) =
       (if dec_nat (unat i) \<in> fst ` set (track_map_pairs m) then map fst (track_map_pairs m)
        else map fst (track_map_pairs m) @ [dec_nat (unat i)])"
proof (intro conjI)
  show "track_info_of (set_track_info m i info) j =
     (if j = i then res_bind (ti_from_amf0 (ti_to_amf0 info)) (\<lambda>t. Inr (Some t)) else track_info_of m j)"
    by (auto simp: track_info_of_def set_track_info_def tracks.get_put dec_u8_inj)
  show "sorted (track_ids m)" by (simp add: track_ids_def sorted_remdups_adj)
  show "distinct (track_ids m)" by (simp add: track_ids_def distinct_remdups_adj_sorted)
  show "set (track_ids (set_track_info m i info)) = insert i (set (track_ids m))"
    by (simp add: track_ids_def map_filter_keys set_track_info_def track_map_pairs_set
        ids_set_entry[where g = parse_u8, OF parse_u8_dec])
  show "map fst (track_map_pairs (set_track_info m i info)) =
       (if dec_nat (unat i) \<in> fst ` set (track_map_pairs m) then map fst (track_map_pairs m)
        else map fst (track_map_pairs m) @ [dec_nat (unat i)])"
    by (simp add: set_track_info_def track_map_pairs_set set_entry_keys)
qed

text \<open>
  A peer may name a track \<open>01\<close> or \<open>+1\<close>: the number is listed, but the description is then
  looked for under \<open>1\<close> and not found.
\<close>

lemma track_id_listed_not_found:
  "list_all (\<lambda>k. let m = Some (A0Object [(lit k, ti_to_amf0 info)]) in
      track_ids m = [1] \<and> track_info_of m 1 = Inr None) [''01'', ''+1'']"
  by (simp add: track_ids_def track_info_of_def track_map_pairs_def object_pairs_def parse_u8_def parse_uint_def lit_def
      List.map_filter_simps is_digit_def dec_value_def dec_nat.simps)

end
