(* ===== verification/Session.thy ===== *)
theory Session
  imports Command Aggregate Chunk_Link
begin

text \<open>
  What \<open>RtmpSession\<close> and \<open>PlaySession\<close> (\<open>server.rs\<close>), \<open>RtmpClient\<close> (\<open>client.rs\<close>) and
  \<open>RtmpPlayer\<close> (\<open>player.rs\<close>) have in common.

  The socket: the bytes the peer will still send are the second half of the state, after which
  it closes (a read past them is \<open>UnexpectedEof\<close>); what is written is appended to the sink of
  the chunk writer, every write accepted, and \<open>flush\<close> is the identity.  \<open>link\<close> is the pair
  of chunk reader and writer, \<open>conn\<close> the fields the four session structs share; each struct
  extends it.

  The loops that pump a session may run for ever in principle, so they are partial functions:
  \<open>None\<close> is a call that never returns.  \<open>session_loop\<close> states what such a loop relies on:
  the dispatch of one message leaves the input alone, queues at most the sub-messages the
  payload holds, and keeps the reader and the writer sound.  From it follow that every call
  returns, without a panic, and that acknowledgements are never overdue when it does.
\<close>

section \<open>The connection\<close>

record link =
  lk_reader :: chunk_reader
  lk_writer :: chunk_writer

record conn = link +
  cn_stream_id :: u32
  cn_ended :: bool
  cn_pending :: "message list"
  cn_peer_bw :: peer_bandwidth_limiter

type_synonym ('x, 'a) on_link = "('x link_scheme \<times> u8 list, 'a) st"
type_synonym ('x, 'a) on_conn = "('x conn_scheme \<times> u8 list, 'a) st"

definition modify :: "('u \<Rightarrow> 'u) \<Rightarrow> ('u \<times> u8 list, unit) st" where
  "modify f = (\<lambda>(u, bs). (Inr (), (f u, bs)))"

definition receive :: "('x, message) on_link" where
  "receive = (\<lambda>(c, bs). case read_message (lk_reader c, bs) of
     (r, (rd, bs')) \<Rightarrow> (r, (c\<lparr>lk_reader := rd\<rparr>, bs')))"

definition transmit :: "u32 \<Rightarrow> message \<Rightarrow> ('x, unit) on_link" where
  "transmit csid m = (\<lambda>(c, bs). case write_message csid m (lk_writer c) of
     (r, w) \<Rightarrow> (r, (c\<lparr>lk_writer := w\<rparr>, bs)))"

definition on_reader :: "(chunk_reader \<Rightarrow> chunk_reader) \<Rightarrow> ('x, unit) on_link" where
  "on_reader f = modify (\<lambda>c. c\<lparr>lk_reader := f (lk_reader c)\<rparr>)"

definition resize_writer :: "nat \<Rightarrow> ('x, unit) on_link" where
  "resize_writer n = modify (\<lambda>c. c\<lparr>lk_writer := writer_set_chunk_size n (lk_writer c)\<rparr>)"

text \<open>\<open>let _ = \<dots>;\<close>: an error is dropped.\<close>

definition attempt :: "('s, 'a) st \<Rightarrow> ('s, unit) st" where
  "attempt p = (\<lambda>s. (Inr (), snd (p s)))"

definition maybe_send_ack :: "('x, unit) on_link" where
  "maybe_send_ack = (\<lambda>(c, bs). case ack_due (lk_reader c) of
     (None, r) \<Rightarrow> (Inr (), (c\<lparr>lk_reader := r\<rparr>, bs))
   | (Some seq, r) \<Rightarrow> transmit CSID_PROTOCOL_CONTROL (build_ack seq) (c\<lparr>lk_reader := r\<rparr>, bs))"

section \<open>Protocol control\<close>

text \<open>\<open>read_u32_be\<close> of \<open>server.rs\<close> and \<open>client.rs\<close>.\<close>

definition payload_u32_be :: "u8 list \<Rightarrow> u32 result" where
  "payload_u32_be buf = (if length buf < 4 then Inl ProtocolViolation else Inr (of_be (take 4 buf)))"

definition take_chunk_size :: "u8 list \<Rightarrow> ('x, unit) on_link" where
  "take_chunk_size payload =
     st_bind (st_lift (payload_u32_be payload)) (\<lambda>size.
     on_reader (reader_set_chunk_size (unat (size AND 0x7FFFFFFF))))"

definition take_window_ack_size :: "u8 list \<Rightarrow> ('x, unit) on_link" where
  "take_window_ack_size payload =
     st_bind (st_lift (payload_u32_be payload)) (\<lambda>size. on_reader (set_window_ack_size size))"

definition take_peer_bandwidth :: "u8 list \<Rightarrow> ('x, unit) on_conn" where
  "take_peer_bandwidth payload =
     st_bind (st_lift (parse_set_peer_bandwidth payload)) (\<lambda>(window, limit) (c, bs).
       case limiter_apply window limit (cn_peer_bw c) of
         (None, l) \<Rightarrow> (Inr (), (c\<lparr>cn_peer_bw := l\<rparr>, bs))
       | (Some w, l) \<Rightarrow>
           st_bind (on_reader (set_window_ack_size w)) (\<lambda>_.
             transmit CSID_PROTOCOL_CONTROL (build_window_ack_size w))
           (c\<lparr>cn_peer_bw := l\<rparr>, bs))"

definition queue_aggregate :: "message \<Rightarrow> ('x, unit) on_conn" where
  "queue_aggregate msg =
     st_bind (st_lift (parse_aggregate msg)) (\<lambda>subs.
     modify (\<lambda>c. c\<lparr>cn_pending := cn_pending c @ subs\<rparr>))"

definition latch_ended :: "('x, unit) on_conn" where
  "latch_ended = modify (\<lambda>c. c\<lparr>cn_ended := True\<rparr>)"

section \<open>Pumping a session\<close>

text \<open>
  \<open>matches!(e.kind(), UnexpectedEof | ConnectionReset)\<close>, and the further arm for
  \<open>Error::UnexpectedEof\<close> that three of the four loops have.
\<close>

definition is_hangup :: "rtmp_error \<Rightarrow> bool" where
  "is_hangup e \<longleftrightarrow> e = Io IoUnexpectedEof \<or> e = Io IoConnectionReset"

text \<open>
  One round of \<open>while !self.ended { \<dots> }\<close>: \<open>Some r\<close> is \<open>return Ok(r)\<close>, \<open>None\<close> goes round
  again.  \<open>hangup e\<close> is the arm an error of \<open>read_message\<close> selects: what to do before
  \<open>return Ok(None)\<close>, or nothing.  \<open>on_sub\<close> dispatches a queued sub-message, \<open>on_wire\<close> a
  message just read; the server's sessions and the player use one routine for both.
\<close>

definition session_round ::
    "(rtmp_error \<Rightarrow> ('x, unit) on_conn option) \<Rightarrow> (message \<Rightarrow> ('x, 'p option) on_conn)
     \<Rightarrow> (message \<Rightarrow> ('x, 'p option) on_conn) \<Rightarrow> ('x, 'p option option) on_conn" where
  "session_round hangup on_sub on_wire = (\<lambda>(c, bs).
     if cn_ended c then (Inr (Some None), (c, bs))
     else (case cn_pending c of
       sub # rest \<Rightarrow>
         st_bind (on_sub sub) (\<lambda>r. st_return (map_option Some r)) (c\<lparr>cn_pending := rest\<rparr>, bs)
     | [] \<Rightarrow>
         (case receive (c, bs) of
            (Inl e, s) \<Rightarrow> (case hangup e of
                Some arm \<Rightarrow> st_bind arm (\<lambda>_. st_return (Some None)) s
              | None \<Rightarrow> (Inl e, s))
          | (Inr msg, s) \<Rightarrow>
              st_bind maybe_send_ack (\<lambda>_.
              st_bind (on_wire msg) (\<lambda>r. st_return (map_option Some r))) s)))"

partial_function (option) pump ::
    "('s, 'r option) st \<Rightarrow> 's \<Rightarrow> ('r result \<times> 's) option" where
  "pump p s = (case p s of
     (Inl e, s') \<Rightarrow> Some (Inl e, s')
   | (Inr (Some r), s') \<Rightarrow> Some (Inr r, s')
   | (Inr None, s') \<Rightarrow> pump p s')"

section \<open>What the operations keep\<close>

definition link_ok :: "'x link_scheme \<Rightarrow> bool" where
  "link_ok c \<longleftrightarrow> reader_inv (lk_reader c) \<and> 1 \<le> cw_chunk_size (lk_writer c)"

definition ack_current :: "chunk_reader \<Rightarrow> bool" where
  "ack_current r \<longleftrightarrow>
     cr_window_ack_size r = 0 \<or> cr_received_bytes r - cr_last_ack_bytes r < cr_window_ack_size r"

definition backlog :: "message list \<Rightarrow> nat" where
  "backlog ms = (\<Sum>m \<leftarrow> ms. Suc (length (msg_payload m)))"

lemma backlog_simps [simp]:
  "backlog [] = 0" "backlog (m # ms) = Suc (length (msg_payload m)) + backlog ms"
  "backlog (xs @ ys) = backlog xs + backlog ys"
  by (simp_all add: backlog_def)

text \<open>
  \<open>keeps k p\<close>: from a sound connection with no acknowledgement overdue, \<open>p\<close> neither panics
  nor reads from the socket, leaves such a connection, and queues messages of at most \<open>k\<close>.
\<close>

definition kept :: "nat \<Rightarrow> 'x conn_scheme \<times> u8 list \<Rightarrow> 'a result \<times> 'x conn_scheme \<times> u8 list \<Rightarrow> bool" where
  "kept k = (\<lambda>(c, bs) (r, (c', bs')). link_ok c \<longrightarrow> ack_current (lk_reader c) \<longrightarrow>
     link_ok c' \<and> ack_current (lk_reader c') \<and> backlog (cn_pending c') \<le> backlog (cn_pending c) + k
     \<and> bs' = bs \<and> r \<noteq> Inl Panic \<and> r \<noteq> Inl OutOfFuel)"

definition keeps :: "nat \<Rightarrow> ('x, 'a) on_conn \<Rightarrow> bool" where
  "keeps k p \<longleftrightarrow> (\<forall>s. kept k s (p s))"

named_theorems keeps_intro \<open>operations that keep a connection sound\<close>

lemma keepsI: "(\<And>c bs. kept k (c, bs) (p (c, bs))) \<Longrightarrow> keeps k p"
  by (auto simp: keeps_def)

lemma keepsD:
  assumes "keeps k p" and "p (c, bs) = (r, (c', bs'))" and "link_ok c" and "ack_current (lk_reader c)"
  shows "link_ok c'" "ack_current (lk_reader c')" "backlog (cn_pending c') \<le> backlog (cn_pending c) + k"
    "bs' = bs" "r \<noteq> Inl Panic" "r \<noteq> Inl OutOfFuel"
  using assms(1)[unfolded keeps_def, rule_format, of "(c, bs)"] assms(2-) by (simp_all add: kept_def)

lemma keeps_mono: "keeps j p \<Longrightarrow> j \<le> k \<Longrightarrow> keeps k p"
proof (rule keepsI)
  fix c :: "'a conn_scheme" and bs
  assume p: "keeps j p" and jk: "j \<le> k"
  obtain r c1 bs1 where run: "p (c, bs) = (r, (c1, bs1))" by (metis surj_pair)
  have "link_ok c \<Longrightarrow> ack_current (lk_reader c) \<Longrightarrow> backlog (cn_pending c1) \<le> backlog (cn_pending c) + k"
    using keepsD(3)[OF p run] jk by linarith
  with keepsD[OF p run] show "kept k (c, bs) (p (c, bs))" by (simp add: kept_def run)
qed

lemma keeps_bind:
  assumes "keeps j p" and "\<And>x. keeps k (f x)"
  shows "keeps (j + k) (st_bind p f)"
proof (rule keepsI)
  fix c :: "'a conn_scheme" and bs
  obtain r c1 bs1 where run: "p (c, bs) = (r, (c1, bs1))" by (metis surj_pair)
  note p = keepsD[OF assms(1) run]
  show "kept (j + k) (c, bs) (st_bind p f (c, bs))"
  proof (cases r)
    case (Inl e)
    with keepsD[OF keeps_mono[OF assms(1), of "j + k"] run] show ?thesis
      by (simp add: kept_def st_bind_Inl[of p, OF run[unfolded Inl]])
  next
    case (Inr x)
    obtain r2 c2 bs2 where run2: "f x (c1, bs1) = (r2, (c2, bs2))" by (metis surj_pair)
    note q = keepsD[OF assms(2) run2]
    have "link_ok c \<Longrightarrow> ack_current (lk_reader c) \<Longrightarrow>
        backlog (cn_pending c2) \<le> backlog (cn_pending c) + (j + k)"
      using p(1-3) q(3) by linarith
    with p q show ?thesis by (simp add: kept_def st_bind_Inr[of p, OF run[unfolded Inr]] run2)
  qed
qed

lemma keeps_bind0 [keeps_intro]: "keeps 0 p \<Longrightarrow> (\<And>x. keeps k (f x)) \<Longrightarrow> keeps k (st_bind p f)"
  using keeps_bind[of 0 p k f] by simp

lemma keeps_return [keeps_intro]: "keeps k (st_return x)"
  by (simp add: keeps_def kept_def st_return_def)

lemma keeps_lift [keeps_intro]: "x \<noteq> Inl Panic \<Longrightarrow> x \<noteq> Inl OutOfFuel \<Longrightarrow> keeps k (st_lift x)"
  by (simp add: keeps_def kept_def st_lift_def)

lemma keeps_throw [keeps_intro]: "e \<noteq> Panic \<Longrightarrow> e \<noteq> OutOfFuel \<Longrightarrow> keeps k (st_throw e)"
  by (simp add: keeps_def kept_def st_throw_def)

lemma keeps_if [keeps_intro]: "keeps k p \<Longrightarrow> keeps k q \<Longrightarrow> keeps k (if b then p else q)"
  by simp

lemma keeps_option [keeps_intro]:
  "keeps k p \<Longrightarrow> (\<And>x. keeps k (f x)) \<Longrightarrow> keeps k (case z of None \<Rightarrow> p | Some x \<Rightarrow> f x)"
  by (cases z) auto

lemma keeps_lift_bind:
  assumes "x \<noteq> Inl Panic" "x \<noteq> Inl OutOfFuel" "\<And>y. x = Inr y \<Longrightarrow> keeps k (f y)"
  shows "keeps k (st_bind (st_lift x) f)"
proof (cases x)
  case (Inl e)
  then have "st_bind (st_lift x) f = st_lift (Inl e)" by (simp add: fun_eq_iff st_bind_def st_lift_def)
  then show ?thesis using assms(1,2) Inl by (simp add: keeps_lift)
next
  case (Inr y)
  then have "st_bind (st_lift x) f = f y" by (simp add: fun_eq_iff st_bind_def st_lift_def)
  then show ?thesis using assms(3)[OF Inr] by simp
qed

lemma keeps_modify:
  "(\<And>c. link_ok c \<Longrightarrow> ack_current (lk_reader c) \<Longrightarrow>
     link_ok (f c) \<and> ack_current (lk_reader (f c)) \<and> backlog (cn_pending (f c)) \<le> backlog (cn_pending c) + k)
   \<Longrightarrow> keeps k (modify f)"
  by (simp add: keeps_def kept_def modify_def)

lemma write_message_keeps:
  assumes "csid_ok csid" "1 \<le> cw_chunk_size w" "write_message csid m w = (r, w')"
  shows "r = Inr ()" "cw_chunk_size w' = cw_chunk_size w"
  using assms(3) by (auto simp: write_message_run[OF assms(1,2)])

lemma keeps_transmit [keeps_intro]: "csid_ok csid \<Longrightarrow> keeps k (transmit csid m)"
  by (rule keepsI) (auto simp: kept_def transmit_def link_ok_def split: prod.splits
      dest: write_message_keeps)

lemma csids_ok [keeps_intro]:
  "csid_ok CSID_PROTOCOL_CONTROL" "csid_ok CSID_COMMAND" "csid_ok CSID_AUDIO" "csid_ok CSID_VIDEO"
  "csid_ok CSID_DATA"
  by (simp_all add: csid_ok_def CSID_PROTOCOL_CONTROL_def CSID_COMMAND_def CSID_AUDIO_def
      CSID_VIDEO_def CSID_DATA_def)

lemma payload_u32_be_total: "payload_u32_be b \<noteq> Inl Panic" "payload_u32_be b \<noteq> Inl OutOfFuel"
  by (simp_all add: payload_u32_be_def)

lemma peer_bandwidth_total: "parse_set_peer_bandwidth b \<noteq> Inl Panic" "parse_set_peer_bandwidth b \<noteq> Inl OutOfFuel"
  by (simp_all add: parse_set_peer_bandwidth_def)

lemma reader_ops_ok [simp]:
  "reader_inv (set_window_ack_size w r) = reader_inv r"
  "reader_inv r \<Longrightarrow> reader_inv (reader_set_chunk_size n r)"
  "ack_current (set_window_ack_size w r)"
  "ack_current (reader_set_chunk_size n r) = ack_current r"
  using clamp_bounds[of n]
  by (auto simp: reader_inv_def set_window_ack_size_def reader_set_chunk_size_def ack_current_def word_gt_0)

lemma keeps_chunk_size [keeps_intro]: "keeps k (take_chunk_size p)"
  unfolding take_chunk_size_def on_reader_def
  by (intro keeps_intro payload_u32_be_total keeps_modify) (simp add: link_ok_def)

lemma keeps_window_ack [keeps_intro]: "keeps k (take_window_ack_size p)"
  unfolding take_window_ack_size_def on_reader_def
  by (intro keeps_intro payload_u32_be_total keeps_modify) (simp add: link_ok_def)

lemma keeps_peer_bandwidth [keeps_intro]: "keeps k (take_peer_bandwidth p)"
proof -
  have "keeps k (\<lambda>(c, bs). case limiter_apply window limit (cn_peer_bw c) of
         (None, l) \<Rightarrow> (Inr (), (c\<lparr>cn_peer_bw := l\<rparr>, bs))
       | (Some w, l) \<Rightarrow>
           st_bind (on_reader (set_window_ack_size w)) (\<lambda>_.
             transmit CSID_PROTOCOL_CONTROL (build_window_ack_size w))
           (c\<lparr>cn_peer_bw := l\<rparr>, bs))" for window limit
  proof (rule keepsI, goal_cases)
    case (1 c bs)
    obtain o' l where o': "limiter_apply window limit (cn_peer_bw c) = (o', l)" by fastforce
    have w: "keeps k (st_bind (on_reader (set_window_ack_size w)) (\<lambda>_.
             transmit CSID_PROTOCOL_CONTROL (build_window_ack_size w)))" for w
      unfolding on_reader_def by (intro keeps_intro keeps_modify) (simp add: link_ok_def)
    show ?case
    proof (cases o')
      case None
      then show ?thesis by (simp add: o' kept_def link_ok_def)
    next
      case (Some w')
      show ?thesis
        using w[of w', unfolded keeps_def, rule_format, of "(c\<lparr>cn_peer_bw := l\<rparr>, bs)"]
        by (auto simp: o' Some kept_def link_ok_def split: prod.splits)
    qed
  qed
  then show ?thesis
    unfolding take_peer_bandwidth_def by (intro keeps_intro peer_bandwidth_total) auto
qed

lemma keeps_latch [keeps_intro]: "keeps k latch_ended"
  unfolding latch_ended_def by (rule keeps_modify) (simp add: link_ok_def)

lemma keeps_attempt [keeps_intro]: "keeps k p \<Longrightarrow> keeps k (attempt p)"
proof (rule keepsI)
  fix c :: "'a conn_scheme" and bs
  assume p: "keeps k p"
  obtain r c1 bs1 where run: "p (c, bs) = (r, (c1, bs1))" by (metis surj_pair)
  show "kept k (c, bs) (attempt p (c, bs))"
    using keepsD[OF p run] by (simp add: kept_def attempt_def run)
qed

lemma keeps_queue:
  assumes "\<And>subs. parse_aggregate m = Inr subs \<Longrightarrow> backlog subs \<le> k"
    and "parse_aggregate m \<noteq> Inl Panic" "parse_aggregate m \<noteq> Inl OutOfFuel"
  shows "keeps k (queue_aggregate m)"
  unfolding queue_aggregate_def
  by (rule keeps_lift_bind[OF assms(2,3)], rule keeps_modify) (simp add: link_ok_def assms(1))

lemma renormalize_rest: "renormalize msg ts (u, bs) = (r, (u', bs')) \<Longrightarrow> bs' = bs"
  by (auto simp: renormalize_def Let_def st_bind_def st_get_user_def st_put_user_def st_return_def split: option.splits)

lemma parse_sub_size:
  "parse_sub msg (u, bs) = (Inr s, (u', bs')) \<Longrightarrow> length bs' + Suc (length (msg_payload s)) \<le> length bs"
  by (auto simp: parse_sub_def Let_def st_bind_def cur_take_def cur_be_def st_return_def st_throw_def
      aggregate_sizes split: if_splits sum.splits prod.splits dest!: renormalize_rest)

lemma parse_subs_size:
  "while_input (parse_sub msg) (u, bs) = (Inr ss, s') \<Longrightarrow> backlog ss \<le> length bs"
proof (induction "length bs" arbitrary: u bs ss s' rule: less_induct)
  case less
  show ?case
  proof (cases "bs = []")
    case True
    then show ?thesis using less.prems by (simp add: sub.while_unfold)
  next
    case False
    from less.prems False obtain x u1 bs1 xs where 1: "parse_sub msg (u, bs) = (Inr x, (u1, bs1))"
      and 2: "while_input (parse_sub msg) (u1, bs1) = (Inr xs, s')" and ss: "ss = x # xs"
      by (subst (asm) sub.while_unfold) (auto simp: st_bind_eq_Inr st_return_def)
    from parse_sub_size[OF 1] have lt: "length bs1 + Suc (length (msg_payload x)) \<le> length bs" .
    from less.hyps[OF _ 2] lt have "backlog xs \<le> length bs1" by simp
    with lt show ?thesis by (simp add: ss)
  qed
qed

lemma keeps_aggregate [keeps_intro]: "keeps (length (msg_payload m)) (queue_aggregate m)"
proof (rule keeps_queue)
  show "backlog subs \<le> length (msg_payload m)" if "parse_aggregate m = Inr subs" for subs
    using that parse_subs_size[of m None "msg_payload m" subs]
    by (auto simp: parse_aggregate_def split: if_splits) (metis prod.collapse)
  show "parse_aggregate m \<noteq> Inl Panic" "parse_aggregate m \<noteq> Inl OutOfFuel"
    using sub.while_safe[of m] by (auto simp: parse_aggregate_def safe_def)
qed

section \<open>The loop\<close>

definition conn_inv :: "'x conn_scheme \<Rightarrow> bool" where
  "conn_inv c \<longleftrightarrow> link_ok c \<and> (cn_pending c = [] \<or> ack_current (lk_reader c))"

lemma receive_run:
  assumes "receive (c, bs) = (r, (c', bs'))" and "link_ok c"
  shows "link_ok c'" "c' = c\<lparr>lk_reader := lk_reader c'\<rparr>" "r \<noteq> Inl Panic" "r \<noteq> Inl OutOfFuel"
    "r = Inr m \<Longrightarrow> length bs' < length bs"
proof -
  obtain rd where run: "read_message (lk_reader c, bs) = (r, (rd, bs'))" and c': "c' = c\<lparr>lk_reader := rd\<rparr>"
    using assms(1) by (auto simp: receive_def split: prod.splits)
  have inv: "reader_inv (lk_reader c)" using assms(2) by (simp add: link_ok_def)
  have "reader_inv rd \<and> r \<noteq> Inl Panic \<and> r \<noteq> Inl OutOfFuel"
    using hoareD[OF hoare_read_message, of "(lk_reader c, bs)"]
      hoareD_err[OF hoare_read_message, of "(lk_reader c, bs)"] run inv
    by (cases r) auto
  then show "link_ok c'" "c' = c\<lparr>lk_reader := lk_reader c'\<rparr>" "r \<noteq> Inl Panic" "r \<noteq> Inl OutOfFuel"
    using assms(2) by (auto simp: link_ok_def c')
  show "length bs' < length bs" if "r = Inr m"
    using shrinksD[OF shrinks_read_message, of "lk_reader c" bs m rd bs'] run that by simp
qed

lemma maybe_send_ack_run:
  assumes "maybe_send_ack (c, bs) = (r, (c', bs'))" and "link_ok c"
  shows "link_ok c'" "ack_current (lk_reader c')" "bs' = bs" "r = Inr ()" "conn.more c' = conn.more c"
    "cn_pending c' = cn_pending c" "cn_ended c' = cn_ended c"
proof -
  obtain o' rd where ack: "ack_due (lk_reader c) = (o', rd)" by fastforce
  have rd: "ack_current rd" "reader_inv rd"
    using ack assms(2) reader_inv_ops(3)[of "lk_reader c"]
    by (auto simp: ack_due_def Let_def ack_current_def link_ok_def word_gt_0 split: if_splits)
  have "link_ok c' \<and> ack_current (lk_reader c') \<and> bs' = bs \<and> r = Inr () \<and> conn.more c' = conn.more c
    \<and> cn_pending c' = cn_pending c \<and> cn_ended c' = cn_ended c"
  proof (cases o')
    case None
    then show ?thesis using assms rd by (auto simp: maybe_send_ack_def ack link_ok_def)
  next
    case (Some seq)
    have csid: "csid_ok CSID_PROTOCOL_CONTROL" by (rule csids_ok)
    show ?thesis
      using assms rd by (auto simp: maybe_send_ack_def ack Some transmit_def link_ok_def
          write_message_run[OF csid, unfolded One_nat_def])
  qed
  then show "link_ok c'" "ack_current (lk_reader c')" "bs' = bs" "r = Inr ()" "conn.more c' = conn.more c"
    "cn_pending c' = cn_pending c" "cn_ended c' = cn_ended c" by blast+
qed

text \<open>
  What a pumping loop relies on: the dispatch of a message keeps the connection sound, queues
  at most what its payload holds, and a hang-up at most latches the end.
\<close>

locale session_loop =
  fixes hangup :: "rtmp_error \<Rightarrow> ('x, unit) on_conn option"
    and on_sub on_wire :: "message \<Rightarrow> ('x, 'p option) on_conn"
  assumes hangup_arms: "hangup e \<in> {None, Some (st_return ()), Some latch_ended}"
    and on_sub_keeps: "keeps (length (msg_payload m)) (on_sub m)"
    and on_wire_keeps: "keeps (length (msg_payload m)) (on_wire m)"
begin

abbreviation "round_order \<equiv> measures [\<lambda>(c :: 'x conn_scheme, bs :: u8 list). length bs, \<lambda>(c, bs). backlog (cn_pending c)]"

definition settles :: "'p option option result \<Rightarrow> 'x conn_scheme \<Rightarrow> bool" where
  "settles r c \<longleftrightarrow> conn_inv c \<and> r \<noteq> Inl Panic \<and> r \<noteq> Inl OutOfFuel
     \<and> (\<forall>p. r = Inr (Some (Some p)) \<longrightarrow> ack_current (lk_reader c))"

lemma dispatch_settles:
  assumes "keeps k h" and "link_ok c" and "ack_current (lk_reader c)"
    and "st_bind h (\<lambda>r. st_return (map_option Some r)) (c, bs) = (r, (c', bs'))"
  shows "settles r c' \<and> bs' = bs \<and> backlog (cn_pending c') \<le> backlog (cn_pending c) + k"
proof -
  have "keeps k (st_bind h (\<lambda>r. st_return (map_option Some r)))"
    using keeps_bind[OF assms(1) keeps_return[of 0]] by simp
  from keepsD[OF this assms(4) assms(2,3)] show ?thesis by (simp add: settles_def conn_inv_def)
qed

lemma session_round_settles:
  assumes inv: "conn_inv c" and run: "session_round hangup on_sub on_wire (c, bs) = (r, (c', bs'))"
  shows "settles r c'" and "r = Inr x \<Longrightarrow> x \<noteq> Some None \<Longrightarrow> ((c', bs'), (c, bs)) \<in> round_order"
proof -
  have link: "link_ok c" using inv by (simp add: conn_inv_def)
  have "settles r c' \<and> (r = Inr x \<and> x \<noteq> Some None \<longrightarrow> ((c', bs'), (c, bs)) \<in> round_order)"
  proof (cases "cn_ended c")
    case True
    with run inv show ?thesis by (auto simp: session_round_def settles_def)
  next
    case running: False
    show ?thesis
    proof (cases "cn_pending c")
      case (Cons sub rest)
      with inv have ack: "ack_current (lk_reader c)" by (simp add: conn_inv_def)
      from run running Cons have "st_bind (on_sub sub) (\<lambda>r. st_return (map_option Some r))
          (c\<lparr>cn_pending := rest\<rparr>, bs) = (r, (c', bs'))" by (simp add: session_round_def)
      with dispatch_settles[OF on_sub_keeps _ _ this] link ack Cons show ?thesis
        by (auto simp: link_ok_def)
    next
      case Nil
      obtain m c1 bs1 where rec: "receive (c, bs) = (m, (c1, bs1))" by (metis surj_pair)
      note rec_ok = receive_run[OF rec link]
      have pending: "cn_pending c1 = []" using arg_cong[OF rec_ok(2), of cn_pending] Nil by simp
      show ?thesis
      proof (cases m)
        case (Inr msg)
        obtain u c2 bs2 where ack: "maybe_send_ack (c1, bs1) = (u, (c2, bs2))" by (metis surj_pair)
        note ack_ok = maybe_send_ack_run[OF ack rec_ok(1)]
        from run running Nil rec Inr have "st_bind maybe_send_ack (\<lambda>_. st_bind (on_wire msg)
            (\<lambda>r. st_return (map_option Some r))) (c1, bs1) = (r, (c', bs'))" by (simp add: session_round_def)
        then have "st_bind (on_wire msg) (\<lambda>r. st_return (map_option Some r)) (c2, bs2) = (r, (c', bs'))"
          using ack ack_ok(4) by (simp add: st_bind_def)
        from dispatch_settles[OF on_wire_keeps ack_ok(1,2) this] ack_ok(3) rec_ok(5)[OF Inr]
        show ?thesis by auto
      next
        case (Inl e)
        from run running Nil rec Inl have r: "(case hangup e of
              Some arm \<Rightarrow> st_bind arm (\<lambda>_. st_return (Some None)) (c1, bs1)
            | None \<Rightarrow> (Inl e, (c1, bs1))) = (r, (c', bs'))" by (simp add: session_round_def)
        with hangup_arms[of e] rec_ok(1,3,4) pending Inl show ?thesis
          by (auto simp: settles_def conn_inv_def latch_ended_def modify_def st_bind_def st_return_def link_ok_def)
      qed
    qed
  qed
  then show "settles r c'" and "r = Inr x \<Longrightarrow> x \<noteq> Some None \<Longrightarrow> ((c', bs'), (c, bs)) \<in> round_order" by blast+
qed

lemma pump_returns:
  assumes "conn_inv c"
  shows "\<exists>r c' bs'. pump (session_round hangup on_sub on_wire) (c, bs) = Some (r, (c', bs')) \<and> conn_inv c'
    \<and> r \<noteq> Inl Panic \<and> r \<noteq> Inl OutOfFuel
    \<and> (case r of Inr (Some p) \<Rightarrow> ack_current (lk_reader c') | _ \<Rightarrow> True)"
  using assms
proof (induction "(c, bs)" arbitrary: c bs rule: wf_induct_rule[OF wf_measures[of "[\<lambda>(c, bs). length bs, \<lambda>(c, bs). backlog (cn_pending c)]"]])
  case 1
  obtain r c' bs' where run: "session_round hangup on_sub on_wire (c, bs) = (r, (c', bs'))"
    by (metis surj_pair)
  note ok = session_round_settles[OF 1(2) run]
  show ?case
  proof (cases "r = Inr None")
    case True
    with 1(1)[OF ok(2)[of None]] ok(1) run show ?thesis
      by (subst pump.simps) (simp add: settles_def)
  next
    case False
    with ok(1) run show ?thesis
      by (subst pump.simps) (auto simp: settles_def split: sum.splits option.splits)
  qed
qed

text \<open>A call that hands a packet out has used up input or backlog.\<close>

lemma pump_descends:
  assumes "conn_inv c" and "pump (session_round hangup on_sub on_wire) (c, bs) = Some (Inr (Some p), (c', bs'))"
  shows "((c', bs'), (c, bs)) \<in> round_order"
  using assms
proof (induction "(c, bs)" arbitrary: c bs rule: wf_induct_rule[OF wf_measures[of "[\<lambda>(c, bs). length bs, \<lambda>(c, bs). backlog (cn_pending c)]"]])
  case 1
  obtain r c1 bs1 where run: "session_round hangup on_sub on_wire (c, bs) = (r, (c1, bs1))"
    by (metis surj_pair)
  note ok = session_round_settles[OF 1(2) run]
  show ?case
  proof (cases "r = Inr None")
    case True
    have inv: "conn_inv c1" using ok(1) by (simp add: settles_def)
    have rest: "pump (session_round hangup on_sub on_wire) (c1, bs1) = Some (Inr (Some p), (c', bs'))"
      using 1(3) run True by (subst (asm) pump.simps) simp
    have down: "((c1, bs1), (c, bs)) \<in> round_order" by (rule ok(2)[OF True]) simp
    from 1(1)[OF this inv rest] down show ?thesis by auto
  next
    case False
    then have "r = Inr (Some (Some p))" "c1 = c'" "bs1 = bs'"
      using 1(3) run by (subst (asm) pump.simps, auto split: sum.splits option.splits)+
    then show ?thesis using ok(2)[of "Some (Some p)"] by simp
  qed
qed

lemma ended_is_final: "cn_ended c \<Longrightarrow> pump (session_round hangup on_sub on_wire) (c, bs) = Some (Inr None, (c, bs))"
  by (subst pump.simps) (simp add: session_round_def)

end

end
