(* ===== verification/Wire.thy ===== *)
theory Wire
  imports Session Chunk_Link
begin

text \<open>
  What a party says on a linked connection, without naming its state: \<open>wire w ops\<close> are the bytes a
  writer \<open>w\<close> emits for a list of sends and chunk-size changes, \<open>after w ops\<close> the writer it becomes.
  \<open>converses\<close> is a Hoare triple for a routine that reads the one and writes the other; \<open>conv_bind\<close>
  and its variants compose them, so that a dialogue is proved one message at a time.
\<close>

section \<open>What a writer puts on the wire\<close>

definition write_bytes :: "chunk_writer \<Rightarrow> u32 \<Rightarrow> message \<Rightarrow> u8 list" where
  "write_bytes w csid m = message_bytes csid m (choose_head (out_state_of w csid) m) (cw_chunk_size w)"

definition write_after :: "chunk_writer \<Rightarrow> u32 \<Rightarrow> message \<Rightarrow> chunk_writer" where
  "write_after w csid m = snd (write_message csid m w)"

fun wire :: "chunk_writer \<Rightarrow> link_op list \<Rightarrow> u8 list" where
  "wire w [] = []"
| "wire w (Send csid m # ops) = write_bytes w csid m @ wire (write_after w csid m) ops"
| "wire w (Resize n # ops) = wire (writer_set_chunk_size n w) ops"

fun after :: "chunk_writer \<Rightarrow> link_op list \<Rightarrow> chunk_writer" where
  "after w [] = w"
| "after w (Send csid m # ops) = after (write_after w csid m) ops"
| "after w (Resize n # ops) = after (writer_set_chunk_size n w) ops"

lemma after_append: "after w (xs @ ys) = after (after w xs) ys"
  by (induction w xs rule: after.induct) auto

lemma wire_append: "wire w (xs @ ys) = wire w xs @ wire (after w xs) ys"
  by (induction w xs rule: after.induct) auto

lemma write_message_after:
  assumes "csid_ok csid" and "1 \<le> cw_chunk_size w"
  shows "write_message csid m w = (Inr (), write_after w csid m)"
    and "cw_stream (write_after w csid m) = cw_stream w @ write_bytes w csid m"
    and "cw_chunk_size (write_after w csid m) = cw_chunk_size w"
  by (simp_all add: write_after_def write_bytes_def write_message_run[OF assms])

definition ops_ok :: "link_op list \<Rightarrow> bool" where
  "ops_ok ops \<longleftrightarrow> list_all link_op_ok ops"

lemma ops_ok_simps [simp]:
  "ops_ok []" "ops_ok (op # ops) \<longleftrightarrow> link_op_ok op \<and> ops_ok ops" "ops_ok (xs @ ys) \<longleftrightarrow> ops_ok xs \<and> ops_ok ys"
  by (simp_all add: ops_ok_def)

lemma after_stream:
  "ops_ok ops \<Longrightarrow> 1 \<le> cw_chunk_size w \<Longrightarrow>
   cw_stream (after w ops) = cw_stream w @ wire w ops \<and> 1 \<le> cw_chunk_size (after w ops)"
proof (induction w ops rule: after.induct)
  case (2 w csid m ops)
  then show ?case using write_message_after[of csid w m] by simp
next
  case (3 w n ops)
  then show ?case using clamp_bounds(1)[of n] by (simp add: writer_set_chunk_size_def)
qed simp

lemma linked_window: "linked w (set_window_ack_size n r) = linked w r"
  by (simp add: linked_def set_window_ack_size_def)

lemma linked_chunk: "linked w r \<Longrightarrow> 1 \<le> cw_chunk_size w"
  by (simp add: linked_def)

lemma read_written:
  assumes "csid_ok csid" and "length (msg_payload m) < 2 ^ 24" and "linked w r"
  obtains r' where "\<And>tail. read_message (r, write_bytes w csid m @ tail) = (Inr m, (r', tail))"
    "linked (write_after w csid m) r'"
    "cr_window_ack_size r' = cr_window_ack_size r" "cr_last_ack_bytes r' = cr_last_ack_bytes r"
    "cr_received_bytes r' = cr_received_bytes r + word_of_nat (length (write_bytes w csid m))"
proof -
  let ?os = "out_state_of w csid"
  let ?r = "(charge (length (write_bytes w csid m)) r)\<lparr>cr_states := (cr_states r)(csid \<mapsto> in_of (committed ?os m))\<rparr>"
  have after: "write_after w csid m = w\<lparr>cw_stream := cw_stream w @ write_bytes w csid m,
      cw_states := (cw_states w)(csid \<mapsto> committed ?os m)\<rparr>"
    using assms(3) by (simp add: write_after_def write_bytes_def linked_def write_message_run[OF assms(1)])
  show thesis
  proof
    show "read_message (r, write_bytes w csid m @ tail) = (Inr m, (?r, tail))" for tail
      unfolding write_bytes_def by (rule read_message_bytes[OF assms])
    show "linked (write_after w csid m) ?r" unfolding after by (rule linked_step[OF assms(3)])
  qed (simp_all add: charge_def)
qed

section \<open>Steps of a conversation\<close>

lemma receive_written:
  assumes "csid_ok csid" and "length (msg_payload m) < 2 ^ 24" and "linked w (lk_reader c)"
  obtains r' where "\<And>tail. receive (c, write_bytes w csid m @ tail) = (Inr m, (c\<lparr>lk_reader := r'\<rparr>, tail))"
    "linked (write_after w csid m) r'"
  using read_written[OF assms] by (metis (mono_tags, lifting) receive_def case_prod_conv)

lemma transmit_run:
  "csid_ok csid \<Longrightarrow> 1 \<le> cw_chunk_size (lk_writer c) \<Longrightarrow>
   transmit csid m (c, bs) = (Inr (), (c\<lparr>lk_writer := write_after (lk_writer c) csid m\<rparr>, bs))"
  by (simp add: transmit_def write_message_after)

text \<open>
  \<open>converses m p ins outs x m'\<close>: a party whose further fields are \<open>m\<close> runs \<open>p\<close> while its
  peer's writer emits \<open>ins\<close>; it takes exactly those bytes off the wire, writes \<open>outs\<close>, returns
  \<open>x\<close>, ends with the fields \<open>m'\<close>, and its reader is in step with the peer's writer again.
\<close>

definition converses ::
    "'x \<Rightarrow> ('x, 'a) on_link \<Rightarrow> link_op list \<Rightarrow> link_op list \<Rightarrow> 'a \<Rightarrow> 'x \<Rightarrow> bool" where
  "converses m p ins outs x m' \<longleftrightarrow> (\<forall>r v w. linked w r \<longrightarrow> 1 \<le> cw_chunk_size v \<longrightarrow>
     (\<exists>r'. (\<forall>tail. p (\<lparr>lk_reader = r, lk_writer = v, \<dots> = m\<rparr>, wire w ins @ tail)
         = (Inr x, (\<lparr>lk_reader = r', lk_writer = after v outs, \<dots> = m'\<rparr>, tail)))
       \<and> linked (after w ins) r' \<and> 1 \<le> cw_chunk_size (after v outs)))"

lemma conversesI:
  assumes "\<And>r v w. linked w r \<Longrightarrow> 1 \<le> cw_chunk_size v \<Longrightarrow>
     \<exists>r'. (\<forall>tail. p (\<lparr>lk_reader = r, lk_writer = v, \<dots> = m\<rparr>, wire w ins @ tail)
         = (Inr x, (\<lparr>lk_reader = r', lk_writer = after v outs, \<dots> = m'\<rparr>, tail)))
       \<and> linked (after w ins) r' \<and> 1 \<le> cw_chunk_size (after v outs)"
  shows "converses m p ins outs x m'"
  using assms by (simp add: converses_def)

lemma conversesE:
  fixes v w :: chunk_writer
  assumes "converses m p ins outs x m'" and "linked w r" and "1 \<le> cw_chunk_size v"
  obtains r' where "\<And>tail. p (\<lparr>lk_reader = r, lk_writer = v, \<dots> = m\<rparr>, wire w ins @ tail)
         = (Inr x, (\<lparr>lk_reader = r', lk_writer = after v outs, \<dots> = m'\<rparr>, tail))"
    "linked (after w ins) r'" "1 \<le> cw_chunk_size (after v outs)"
  using assms unfolding converses_def by blast

lemma conv_bind:
  assumes p: "converses m p i1 o1 x m1" and q: "converses m1 (f x) i2 o2 y m2"
  shows "converses m (st_bind p f) (i1 @ i2) (o1 @ o2) y m2"
proof (rule conversesI)
  fix r :: chunk_reader and v w :: chunk_writer
  assume l: "linked w r" and v: "1 \<le> cw_chunk_size v"
  obtain r1 where 1: "\<And>tail. p (\<lparr>lk_reader = r, lk_writer = v, \<dots> = m\<rparr>, wire w i1 @ tail)
      = (Inr x, (\<lparr>lk_reader = r1, lk_writer = after v o1, \<dots> = m1\<rparr>, tail))"
    "linked (after w i1) r1" "1 \<le> cw_chunk_size (after v o1)"
    by (rule conversesE[OF p l v]) blast
  obtain r2 where 2: "\<And>tail. f x (\<lparr>lk_reader = r1, lk_writer = after v o1, \<dots> = m1\<rparr>, wire (after w i1) i2 @ tail)
      = (Inr y, (\<lparr>lk_reader = r2, lk_writer = after (after v o1) o2, \<dots> = m2\<rparr>, tail))"
    "linked (after (after w i1) i2) r2" "1 \<le> cw_chunk_size (after (after v o1) o2)"
    by (rule conversesE[OF q 1(2,3)]) blast
  show "\<exists>r'. (\<forall>tail. st_bind p f (\<lparr>lk_reader = r, lk_writer = v, \<dots> = m\<rparr>, wire w (i1 @ i2) @ tail)
      = (Inr y, (\<lparr>lk_reader = r', lk_writer = after v (o1 @ o2), \<dots> = m2\<rparr>, tail)))
    \<and> linked (after w (i1 @ i2)) r' \<and> 1 \<le> cw_chunk_size (after v (o1 @ o2))"
    using 1(1) 2 by (auto simp: st_bind_def wire_append after_append)
qed

lemma conv_then:
  assumes "converses m p [] [] x m1" and "converses m1 (f x) ins outs y m2"
  shows "converses m (st_bind p f) ins outs y m2"
  using conv_bind[of m p "[]" "[]" x m1 f ins outs y m2] assms by simp

lemma conv_return: "converses m (st_return x) [] [] x m"
  by (auto simp: converses_def st_return_def)

lemma conv_lift: "y = Inr x \<Longrightarrow> converses m (st_lift y) [] [] x m"
  by (auto simp: converses_def st_lift_def)

lemma conv_receive: "link_op_ok (Send csid msg) \<Longrightarrow> converses m receive [Send csid msg] [] msg m"
proof (rule conversesI)
  fix r :: chunk_reader and v w :: chunk_writer
  assume ok: "link_op_ok (Send csid msg)" and l: "linked w r" "1 \<le> cw_chunk_size v"
  obtain r' where "\<And>tail. read_message (r, write_bytes w csid msg @ tail) = (Inr msg, (r', tail))"
    "linked (write_after w csid msg) r'"
    using read_written[of csid msg w r] ok l by auto
  then show "\<exists>r'. (\<forall>tail. receive (\<lparr>lk_reader = r, lk_writer = v, \<dots> = m\<rparr>, wire w [Send csid msg] @ tail)
      = (Inr msg, (\<lparr>lk_reader = r', lk_writer = after v [], \<dots> = m\<rparr>, tail)))
    \<and> linked (after w [Send csid msg]) r' \<and> 1 \<le> cw_chunk_size (after v [])"
    using l(2) by (auto simp: receive_def)
qed

lemma conv_transmit: "csid_ok csid \<Longrightarrow> converses m (transmit csid msg) [] [Send csid msg] () m"
  by (rule conversesI) (simp add: transmit_def write_message_after)

lemma conv_on_reader:
  assumes "\<And>w r. linked w r \<Longrightarrow> linked (after w ops) (f r)" and "\<And>w. wire w ops = []"
  shows "converses m (on_reader f) ops [] () m"
  using assms by (auto simp: converses_def on_reader_def modify_def)

lemma conv_chunk_size:
  "payload_u32_be p = Inr n \<Longrightarrow>
   converses m (take_chunk_size p) [Resize (unat (n AND 0x7FFFFFFF))] [] () m"
proof -
  assume p: "payload_u32_be p = Inr n"
  have "converses m (on_reader (reader_set_chunk_size (unat (n AND 0x7FFFFFFF)))) [Resize (unat (n AND 0x7FFFFFFF))] [] () m"
    by (rule conv_on_reader) (simp_all add: linked_resize)
  with p show ?thesis unfolding take_chunk_size_def by (intro conv_then[OF conv_lift])
qed

lemma conv_window: "payload_u32_be p = Inr n \<Longrightarrow> converses m (take_window_ack_size p) [] [] () m"
proof -
  assume p: "payload_u32_be p = Inr n"
  have "converses m (on_reader (set_window_ack_size n)) [] [] () m"
    by (rule conv_on_reader) (simp_all add: linked_window)
  with p show ?thesis unfolding take_window_ack_size_def by (intro conv_then[OF conv_lift])
qed

lemma conv_resize: "converses m (resize_writer n) [] [Resize n] () m"
  by (rule conversesI) (simp add: resize_writer_def modify_def writer_set_chunk_size_def clamp_bounds[unfolded One_nat_def])

lemma conv_get:
  assumes "\<And>r v. converses m (f \<lparr>lk_reader = r, lk_writer = v, \<dots> = m\<rparr>) ins outs x m'"
  shows "converses m (st_bind st_get_user f) ins outs x m'"
  using assms by (simp add: converses_def st_bind_def st_get_user_def)

lemma conv_modify:
  "(\<And>r v. f \<lparr>lk_reader = r, lk_writer = v, \<dots> = m\<rparr> = \<lparr>lk_reader = r, lk_writer = v, \<dots> = m'\<rparr>) \<Longrightarrow>
   converses m (modify f) [] [] () m'"
  by (auto simp: converses_def modify_def)

lemma conv_until_step:
  assumes "shrinks 1 p" and "converses m p i1 o1 None m1" and "converses m1 (st_until p) i2 o2 x m2"
  shows "converses m (st_until p) (i1 @ i2) (o1 @ o2) x m2"
proof -
  have "converses m (st_bind p (\<lambda>r. case r of None \<Rightarrow> st_until p | Some x \<Rightarrow> st_return x)) (i1 @ i2) (o1 @ o2) x m2"
    by (rule conv_bind[OF assms(2)]) (simp add: assms(3))
  then show ?thesis by (subst st_until_unfold[OF assms(1)])
qed

lemma conv_until_done:
  assumes "shrinks 1 p" and "converses m p ins outs (Some x) m'"
  shows "converses m (st_until p) ins outs x m'"
proof -
  have "converses m (st_bind p (\<lambda>r. case r of None \<Rightarrow> st_until p | Some x \<Rightarrow> st_return x)) (ins @ []) (outs @ []) x m'"
    by (rule conv_bind[OF assms(2)]) (simp add: conv_return)
  then show ?thesis by (subst st_until_unfold[OF assms(1)]) simp
qed

lemma shrinks_transmit [shrink_intro]: "shrinks 0 (transmit csid m)"
  by (rule shrinksI) (auto simp: transmit_def split: prod.splits)

lemma shrinks_modify [shrink_intro]: "shrinks 0 (modify f)"
  by (rule shrinksI) (auto simp: modify_def)

lemma shrinks_st_lift [shrink_intro]: "shrinks 0 (st_lift x)"
  by (rule shrinksI) (auto simp: st_lift_def)

lemma shrinks_receive: "shrinks 1 receive"
proof (rule shrinksI)
  fix c :: "'a link_scheme" and bs m c' bs'
  assume "receive (c, bs) = (Inr m, (c', bs'))"
  then obtain rd where "read_message (lk_reader c, bs) = (Inr m, (rd, bs'))"
    by (auto simp: receive_def split: prod.splits)
  from shrinksD[OF shrinks_read_message this] show "length bs' + 1 \<le> length bs" .
qed


section \<open>Named messages\<close>

abbreviation "ctl_op \<equiv> Send CSID_PROTOCOL_CONTROL"
abbreviation "cmd_op \<equiv> Send CSID_COMMAND"

lemma op_ok_ctl: "length (msg_payload m) < 2 ^ 24 \<Longrightarrow> link_op_ok (ctl_op m)"
  and op_ok_cmd: "length (msg_payload m) < 2 ^ 24 \<Longrightarrow> link_op_ok (cmd_op m)"
  by (simp_all add: csids_ok)

lemma conv_receive_then:
  assumes "link_op_ok (Send csid msg)" and "converses m (f msg) ins outs x m'"
  shows "converses m (st_bind receive f) (Send csid msg # ins) outs x m'"
  using conv_bind[OF conv_receive[OF assms(1)], where f = f, OF assms(2)] by simp

lemma conv_transmit_then:
  assumes "csid_ok csid" and "converses m (f ()) ins outs x m'"
  shows "converses m (st_bind (transmit csid msg) f) ins (Send csid msg # outs) x m'"
  using conv_bind[OF conv_transmit[OF assms(1)], where f = f, OF assms(2)] by simp

lemma conv_resize_then:
  assumes "converses m (f ()) ins outs x m'"
  shows "converses m (st_bind (resize_writer n) f) ins (Resize n # outs) x m'"
  using conv_bind[OF conv_resize, where f = f, OF assms] by simp

lemma st_lift_Inr [simp]: "st_lift (Inr x) = st_return x" and st_lift_Inl [simp]: "st_lift (Inl e) = st_throw e"
  by (simp_all add: fun_eq_iff st_lift_def st_return_def st_throw_def)

lemmas conv_then_lift = conv_then[OF conv_lift]

lemma control_payload [simp]:
  "payload_u32_be (u32_be n) = Inr n" "payload_u32_be (take 4 (u32_be n @ r)) = Inr n"
  by (simp_all add: payload_u32_be_def)

lemma control_sizes [simp]:
  "length (msg_payload (build_set_chunk_size n)) = 4" "length (msg_payload (build_window_ack_size n)) = 4"
  "length (msg_payload (build_set_peer_bandwidth n k)) = 5"
  "length (msg_payload (build_user_control_stream_begin n)) = 6"
  by (simp_all add: control_builders control_message_def)

lemma conv_map: "converses m p ins outs x m' \<Longrightarrow> converses m (st_bind p (\<lambda>x. st_return (f x))) ins outs (f x) m'"
  using conv_bind[of m p ins outs x m' "\<lambda>x. st_return (f x)" "[]" "[]" "f x" m'] by (simp add: conv_return)


end
