(* ===== verification/Flv_Audio.thy ===== *)
theory Flv_Audio
  imports Flv_Tag
begin

text \<open>
  Audio tags of \<open>flv.rs\<close>: \<open>parse_audio\<close> and \<open>build_audio\<close> for the legacy and the
  Enhanced-RTMP framing, the \<open>MultichannelConfig\<close> body, silence messages, and Multitrack tags
  split into and joined from single tracks.
\<close>

section \<open>Multichannel configuration\<close>

definition AUDIO_CHANNEL_ORDER_UNSPECIFIED :: u8 where "AUDIO_CHANNEL_ORDER_UNSPECIFIED = 0"
definition AUDIO_CHANNEL_ORDER_NATIVE :: u8 where "AUDIO_CHANNEL_ORDER_NATIVE = 1"
definition AUDIO_CHANNEL_ORDER_CUSTOM :: u8 where "AUDIO_CHANNEL_ORDER_CUSTOM = 2"

lemmas channel_orders = AUDIO_CHANNEL_ORDER_UNSPECIFIED_def AUDIO_CHANNEL_ORDER_NATIVE_def AUDIO_CHANNEL_ORDER_CUSTOM_def

datatype mc_order = McUnspecified | McNative u32 | McCustom "u8 list" | McReserved u8

record multichannel_config =
  mc_order :: mc_order
  mc_channel_count :: u8
  mc_extra :: "u8 list"

definition mc_order_as_u8 :: "mc_order \<Rightarrow> u8" where
  "mc_order_as_u8 d = (case d of McUnspecified \<Rightarrow> AUDIO_CHANNEL_ORDER_UNSPECIFIED
     | McNative _ \<Rightarrow> AUDIO_CHANNEL_ORDER_NATIVE | McCustom _ \<Rightarrow> AUDIO_CHANNEL_ORDER_CUSTOM | McReserved v \<Rightarrow> v)"

definition mc_parse :: "u8 list \<Rightarrow> multichannel_config result" where
  "mc_parse body =
    (if length body < 2 then Inl Other
     else
       let order_byte = body ! 0; channel_count = body ! 1 in
       if order_byte = AUDIO_CHANNEL_ORDER_UNSPECIFIED then
         if length body \<noteq> 2 then Inl Other
         else Inr \<lparr>mc_order = McUnspecified, mc_channel_count = channel_count, mc_extra = []\<rparr>
       else if order_byte = AUDIO_CHANNEL_ORDER_NATIVE then
         if length body \<noteq> 6 then Inl Other
         else Inr \<lparr>mc_order = McNative (of_be (drop 2 body)), mc_channel_count = channel_count, mc_extra = []\<rparr>
       else if order_byte = AUDIO_CHANNEL_ORDER_CUSTOM then
         if length body \<noteq> 2 + unat channel_count then Inl Other
         else Inr \<lparr>mc_order = McCustom (drop 2 body), mc_channel_count = channel_count, mc_extra = []\<rparr>
       else Inr \<lparr>mc_order = McReserved order_byte, mc_channel_count = channel_count, mc_extra = drop 2 body\<rparr>)"

definition mc_encode :: "multichannel_config \<Rightarrow> u8 list" where
  "mc_encode c = mc_order_as_u8 (mc_order c) # mc_channel_count c
     # (case mc_order c of McUnspecified \<Rightarrow> [] | McNative flags \<Rightarrow> u32_be flags
        | McCustom mapping \<Rightarrow> mapping | McReserved _ \<Rightarrow> mc_extra c)"

definition mc_ok :: "multichannel_config \<Rightarrow> bool" where
  "mc_ok c = (case mc_order c of McUnspecified \<Rightarrow> mc_extra c = [] | McNative _ \<Rightarrow> mc_extra c = []
     | McCustom mapping \<Rightarrow> mc_extra c = [] \<and> length mapping = unat (mc_channel_count c)
     | McReserved v \<Rightarrow> 2 < v)"

lemma gt2: "2 < (v :: u8) \<longleftrightarrow> v \<noteq> 0 \<and> v \<noteq> 1 \<and> v \<noteq> 2"
proof -
  have "v = 0 \<or> v = 1 \<or> v = 2" if "\<not> 2 < v"
  proof -
    have "unat v \<le> 2" using that by (simp add: word_less_nat_alt)
    then have "unat v = 0 \<or> unat v = 1 \<or> unat v = 2" by linarith
    then show ?thesis by (auto simp: word_unat_eq_iff)
  qed
  then show ?thesis by auto
qed

lemma mc_roundtrip: "mc_parse (mc_encode c) = Inr c \<longleftrightarrow> mc_ok c"
  by (cases c; cases "mc_order c")
    (auto simp: mc_parse_def mc_encode_def mc_ok_def mc_order_as_u8_def channel_orders gt2 Let_def)

lemma mc_parse_ok: "mc_parse b = Inr c \<Longrightarrow> mc_ok c \<and> mc_encode c = b"
proof -
  assume p: "mc_parse b = Inr c"
  then obtain x y r where b: "b = x # y # r"
    by (cases b; cases "tl b") (auto simp: mc_parse_def)
  have be: "length r = 4 \<Longrightarrow> u32_be (of_be r) = r" using be_bytes_of_be[of r, where 'a = 32] by simp
  show ?thesis
    using p by (auto simp: b mc_parse_def mc_ok_def mc_encode_def mc_order_as_u8_def channel_orders gt2 Let_def be
        split: if_splits)
qed

section \<open>Audio tags\<close>

definition AUDIO_FORMAT_AAC :: u8 where "AUDIO_FORMAT_AAC = 10"
definition AUDIO_FORMAT_EX_HEADER :: u8 where "AUDIO_FORMAT_EX_HEADER = 9"
definition AUDIO_PACKET_TYPE_SEQUENCE_START :: u8 where "AUDIO_PACKET_TYPE_SEQUENCE_START = 0"
definition AUDIO_PACKET_TYPE_CODED_FRAMES :: u8 where "AUDIO_PACKET_TYPE_CODED_FRAMES = 1"
definition AUDIO_PACKET_TYPE_SEQUENCE_END :: u8 where "AUDIO_PACKET_TYPE_SEQUENCE_END = 2"
definition AUDIO_PACKET_TYPE_MULTICHANNEL_CONFIG :: u8 where "AUDIO_PACKET_TYPE_MULTICHANNEL_CONFIG = 4"
definition AUDIO_PACKET_TYPE_MULTITRACK :: u8 where "AUDIO_PACKET_TYPE_MULTITRACK = 5"
definition AUDIO_PACKET_TYPE_MOD_EX :: u8 where "AUDIO_PACKET_TYPE_MOD_EX = 7"
definition AAC_PACKET_TYPE_SEQUENCE_HEADER :: u8 where "AAC_PACKET_TYPE_SEQUENCE_HEADER = 0"
definition AAC_PACKET_TYPE_RAW :: u8 where "AAC_PACKET_TYPE_RAW = 1"

lemmas audio_consts = AUDIO_FORMAT_AAC_def AUDIO_FORMAT_EX_HEADER_def AUDIO_PACKET_TYPE_MULTITRACK_def
  AUDIO_PACKET_TYPE_MOD_EX_def AUDIO_PACKET_TYPE_CODED_FRAMES_def AUDIO_PACKET_TYPE_MULTICHANNEL_CONFIG_def
  AUDIO_PACKET_TYPE_SEQUENCE_END_def

record audio_tag =
  at_sound_format :: u8
  at_sound_rate :: u8
  at_sound_size_16bit :: bool
  at_stereo :: bool
  at_aac_packet_type :: "u8 option"
  at_ex_packet_type :: "u8 option"
  at_fourcc :: "fourcc option"
  at_body :: "u8 list"
  at_mod_ex :: "mod_ex list"
  at_multitrack :: "multitrack option"

definition at_is_enhanced :: "audio_tag \<Rightarrow> bool" where
  "at_is_enhanced t \<longleftrightarrow> at_fourcc t \<noteq> None"

definition at_is_aac_sequence_header :: "audio_tag \<Rightarrow> bool" where
  "at_is_aac_sequence_header t \<longleftrightarrow>
     at_sound_format t = AUDIO_FORMAT_AAC \<and> at_aac_packet_type t = Some AAC_PACKET_TYPE_SEQUENCE_HEADER"

definition at_is_ex_sequence_header :: "audio_tag \<Rightarrow> bool" where
  "at_is_ex_sequence_header t \<longleftrightarrow>
     at_fourcc t \<noteq> None \<and> at_ex_packet_type t = Some AUDIO_PACKET_TYPE_SEQUENCE_START"

definition at_is_ex_sequence_end :: "audio_tag \<Rightarrow> bool" where
  "at_is_ex_sequence_end t \<longleftrightarrow> at_fourcc t \<noteq> None \<and> at_ex_packet_type t = Some AUDIO_PACKET_TYPE_SEQUENCE_END"

definition at_timestamp_offset_nano :: "audio_tag \<Rightarrow> u32" where
  "at_timestamp_offset_nano t = sum_offset_nano (at_mod_ex t)"

definition at_is_multichannel_config :: "audio_tag \<Rightarrow> bool" where
  "at_is_multichannel_config t \<longleftrightarrow>
     at_fourcc t \<noteq> None \<and> at_ex_packet_type t = Some AUDIO_PACKET_TYPE_MULTICHANNEL_CONFIG"

definition at_multichannel_config :: "audio_tag \<Rightarrow> multichannel_config option result" where
  "at_multichannel_config t =
    (if at_is_multichannel_config t then res_bind (mc_parse (at_body t)) (\<lambda>c. Inr (Some c)) else Inr None)"

definition at_is_multitrack :: "audio_tag \<Rightarrow> bool" where
  "at_is_multitrack t \<longleftrightarrow> at_multitrack t \<noteq> None"

text \<open>The fields every Enhanced-RTMP tag has in common.\<close>

definition ex_audio_tag :: "u8 \<Rightarrow> fourcc option \<Rightarrow> u8 list \<Rightarrow> mod_ex list \<Rightarrow> multitrack option \<Rightarrow> audio_tag" where
  "ex_audio_tag pt f body chain mt = \<lparr>at_sound_format = AUDIO_FORMAT_EX_HEADER, at_sound_rate = 0,
     at_sound_size_16bit = False, at_stereo = False, at_aac_packet_type = None, at_ex_packet_type = Some pt,
     at_fourcc = f, at_body = body, at_mod_ex = chain, at_multitrack = mt\<rparr>"

definition audio_sequence_end_tag :: "fourcc \<Rightarrow> audio_tag" where
  "audio_sequence_end_tag f = ex_audio_tag AUDIO_PACKET_TYPE_SEQUENCE_END (Some f) [] [] None"

definition multichannel_config_tag :: "fourcc \<Rightarrow> multichannel_config \<Rightarrow> audio_tag" where
  "multichannel_config_tag f cfg = ex_audio_tag AUDIO_PACKET_TYPE_MULTICHANNEL_CONFIG (Some f) (mc_encode cfg) [] None"

definition audio_multitrack_tag :: "u8 \<Rightarrow> fourcc option \<Rightarrow> multitrack \<Rightarrow> audio_tag" where
  "audio_multitrack_tag real_pt shared m = ex_audio_tag real_pt shared [] [] (Some m)"

definition ex_audio_body :: "mod_ex list \<Rightarrow> u8 option \<Rightarrow> u8 \<Rightarrow> fourcc option \<Rightarrow> ('u \<times> u8 list, audio_tag) st" where
  "ex_audio_body chain mt pt fcc_opt =
    (case mt of
       Some ty \<Rightarrow> st_bind (multitrack_reader ty) (\<lambda>m. st_return (ex_audio_tag pt fcc_opt [] chain (Some m)))
     | None \<Rightarrow>
         (case fcc_opt of None \<Rightarrow> st_throw Panic
          | Some fcc \<Rightarrow> st_bind take_rest (\<lambda>body. st_return (ex_audio_tag pt (Some fcc) body chain None))))"

definition ex_audio_reader :: "u8 \<Rightarrow> ('u \<times> u8 list, audio_tag) st" where
  "ex_audio_reader b0 =
     st_bind (ex_preludes AUDIO_PACKET_TYPE_MULTITRACK AUDIO_PACKET_TYPE_MOD_EX (b0 AND 0x0F)) (\<lambda>(chain, mt, pt, fcc_opt).
     ex_audio_body chain mt pt fcc_opt)"

definition legacy_audio_reader :: "u8 \<Rightarrow> ('u \<times> u8 list, audio_tag) st" where
  "legacy_audio_reader b0 =
    (let sound_format = drop_bit 4 b0 in
     st_bind (if sound_format = AUDIO_FORMAT_AAC then st_bind (cur_u8 Other) (\<lambda>a. st_return (Some a))
       else st_return None) (\<lambda>aac.
     st_bind take_rest (\<lambda>body.
     st_return \<lparr>at_sound_format = sound_format, at_sound_rate = drop_bit 2 b0 AND 0x03,
       at_sound_size_16bit = (b0 AND 0x02 \<noteq> 0), at_stereo = (b0 AND 0x01 \<noteq> 0), at_aac_packet_type = aac,
       at_ex_packet_type = None, at_fourcc = None, at_body = body, at_mod_ex = [], at_multitrack = None\<rparr>)))"

definition audio_reader :: "('u \<times> u8 list, audio_tag) st" where
  "audio_reader = st_bind (cur_u8 Other) (\<lambda>b0.
     if drop_bit 4 b0 = AUDIO_FORMAT_EX_HEADER then ex_audio_reader b0 else legacy_audio_reader b0)"

definition parse_audio :: "u8 list \<Rightarrow> audio_tag result" where
  "parse_audio payload = fst (audio_reader ((), payload))"

definition ex_audio_head :: "u8 \<Rightarrow> u8" where
  "ex_audio_head pt = push_bit 4 AUDIO_FORMAT_EX_HEADER OR (pt AND 0x0F)"

definition build_ex_audio :: "audio_tag \<Rightarrow> u8 list" where
  "build_ex_audio t =
    (let real_pt = (case at_ex_packet_type t of Some p \<Rightarrow> p | None \<Rightarrow> AUDIO_PACKET_TYPE_CODED_FRAMES);
         mt = map_option mt_type (at_multitrack t)
     in
     ex_audio_head (ex_header_pt AUDIO_PACKET_TYPE_MULTITRACK AUDIO_PACKET_TYPE_MOD_EX (at_mod_ex t) mt real_pt)
     # ex_prelude_bytes AUDIO_PACKET_TYPE_MULTITRACK AUDIO_PACKET_TYPE_MOD_EX (at_mod_ex t) mt real_pt (at_fourcc t)
     @ (case at_multitrack t of Some m \<Rightarrow> multitrack_encode m | None \<Rightarrow> at_body t))"

definition legacy_audio_head :: "audio_tag \<Rightarrow> u8" where
  "legacy_audio_head t = push_bit 4 (at_sound_format t) OR (push_bit 2 (at_sound_rate t AND 0x03)
     OR ((if at_sound_size_16bit t then 0x02 else 0) OR (if at_stereo t then 0x01 else 0)))"

definition build_legacy_audio :: "audio_tag \<Rightarrow> u8 list" where
  "build_legacy_audio t = legacy_audio_head t
     # (if at_sound_format t = AUDIO_FORMAT_AAC
        then [case at_aac_packet_type t of Some a \<Rightarrow> a | None \<Rightarrow> AAC_PACKET_TYPE_RAW] else [])
     @ at_body t"

definition build_audio :: "audio_tag \<Rightarrow> u8 list" where
  "build_audio t = (if at_fourcc t \<noteq> None \<or> at_multitrack t \<noteq> None then build_ex_audio t else build_legacy_audio t)"

subsection \<open>Joining and splitting\<close>

definition audio_demux_tracks :: "audio_tag \<Rightarrow> (u8 \<times> audio_tag) list result" where
  "audio_demux_tracks t =
    (case at_multitrack t of None \<Rightarrow> Inl Other | Some m \<Rightarrow>
     case at_ex_packet_type t of None \<Rightarrow> Inl Other | Some inner_pt \<Rightarrow>
     demux_with parse_audio (ex_audio_head inner_pt) (at_fourcc t) (mt_tracks m))"

definition audio_multitrack_from_tags :: "u8 \<Rightarrow> (u8 \<times> audio_tag) list \<Rightarrow> audio_tag result" where
  "audio_multitrack_from_tags ty tracks =
     res_bind (plan_multitrack at_fourcc at_ex_packet_type (\<lambda>t. at_multitrack t \<noteq> None) (\<lambda>t. at_mod_ex t \<noteq> [])
       AUDIO_PACKET_TYPE_MULTITRACK AUDIO_PACKET_TYPE_MOD_EX ty tracks) (\<lambda>plan.
     Inr (audio_multitrack_tag (mp_inner_packet_type plan) (mp_shared_fourcc plan)
       \<lparr>mt_type = ty, mt_tracks = mux_with build_audio at_fourcc (mp_per_track_fourcc plan) tracks\<rparr>))"

subsection \<open>Messages\<close>

datatype audio_message = AmTag audio_tag | AmSilence

definition am_is_silence :: "audio_message \<Rightarrow> bool" where
  "am_is_silence m = (case m of AmSilence \<Rightarrow> True | AmTag _ \<Rightarrow> False)"

definition am_as_tag :: "audio_message \<Rightarrow> audio_tag option" where
  "am_as_tag m = (case m of AmTag t \<Rightarrow> Some t | AmSilence \<Rightarrow> None)"

definition is_silence_payload :: "u8 list \<Rightarrow> bool" where
  "is_silence_payload payload \<longleftrightarrow> payload = []"

definition build_silence_audio :: "u8 list" where
  "build_silence_audio = []"

definition parse_audio_message :: "u8 list \<Rightarrow> audio_message result" where
  "parse_audio_message payload =
    (if is_silence_payload payload then Inr AmSilence
     else res_bind (parse_audio payload) (\<lambda>t. Inr (AmTag t)))"

definition build_audio_message :: "audio_message \<Rightarrow> u8 list" where
  "build_audio_message m = (case m of AmSilence \<Rightarrow> build_silence_audio | AmTag t \<Rightarrow> build_audio t)"

section \<open>Bits of the header bytes\<close>

lemma byte_of_nibbles:
  assumes "hi < 16" and "lo < 16"
  shows "drop_bit 4 (push_bit 4 hi OR lo) = (hi :: u8)" "(push_bit 4 hi OR lo) AND 0x0F = lo"
proof -
  have n: "hi AND 0x0F = hi" "lo AND 0x0F = lo" using assms low_nibble(1) by blast+
  have "drop_bit 4 (push_bit 4 hi OR lo) AND 0x0F = drop_bit 4 (push_bit 4 hi OR lo)"
    using high_nibble_bound low_nibble(1) by blast
  then show "drop_bit 4 (push_bit 4 hi OR lo) = hi" "(push_bit 4 hi OR lo) AND 0x0F = lo"
    using nibbles[of hi lo] unfolding n by simp_all
qed

lemma ex_audio_head_bits:
  "drop_bit 4 (ex_audio_head pt) = AUDIO_FORMAT_EX_HEADER" "ex_audio_head pt AND 0x0F = pt AND 0x0F"
  unfolding ex_audio_head_def by (rule byte_of_nibbles, simp add: audio_consts, rule low_nibble(2))+

lemma less4: "x < 4 \<Longrightarrow> x = 0 \<or> x = 1 \<or> x = 2 \<or> x = (3 :: u8)"
proof -
  assume "x < 4"
  then have "unat x < 4" by (simp add: word_less_nat_alt)
  then have "unat x = 0 \<or> unat x = 1 \<or> unat x = 2 \<or> unat x = 3" by linarith
  then show ?thesis by (auto simp: word_unat_eq_iff)
qed

lemma legacy_audio_head_bits:
  assumes "at_sound_format t < 16" and "at_sound_rate t < 4"
  shows "drop_bit 4 (legacy_audio_head t) = at_sound_format t"
    "drop_bit 2 (legacy_audio_head t) AND 0x03 = at_sound_rate t"
    "legacy_audio_head t AND 0x02 \<noteq> 0 \<longleftrightarrow> at_sound_size_16bit t"
    "legacy_audio_head t AND 0x01 \<noteq> 0 \<longleftrightarrow> at_stereo t"
proof -
  define h where "h = legacy_audio_head t"
  define lo where "lo = push_bit 2 (at_sound_rate t AND 0x03)
     OR ((if at_sound_size_16bit t then 0x02 else 0) OR (if at_stereo t then 0x01 else (0 :: u8)))"
  have lo: "lo < 16" "drop_bit 2 lo AND 0x03 = at_sound_rate t" "lo AND 0x02 \<noteq> 0 \<longleftrightarrow> at_sound_size_16bit t"
    "lo AND 0x01 \<noteq> 0 \<longleftrightarrow> at_stereo t"
    unfolding lo_def using less4[OF assms(2)] by (elim disjE; simp)+
  have h: "h = push_bit 4 (at_sound_format t) OR lo" by (simp add: h_def legacy_audio_head_def lo_def)
  have h15: "h AND 0x0F = lo" unfolding h by (rule byte_of_nibbles(2)[OF assms(1) lo(1)])
  have "drop_bit 2 h AND 0x03 = drop_bit 2 (h AND 0x0F) AND 0x03"
    unfolding drop_bit_and and.assoc by simp
  moreover have "h AND 0x02 = (h AND 0x0F) AND 0x02" "h AND 0x01 = (h AND 0x0F) AND 0x01"
    unfolding and.assoc by simp_all
  ultimately show "drop_bit 4 (legacy_audio_head t) = at_sound_format t"
    "drop_bit 2 (legacy_audio_head t) AND 0x03 = at_sound_rate t"
    "legacy_audio_head t AND 0x02 \<noteq> 0 \<longleftrightarrow> at_sound_size_16bit t"
    "legacy_audio_head t AND 0x01 \<noteq> 0 \<longleftrightarrow> at_stereo t"
    using lo byte_of_nibbles(1)[OF assms(1) lo(1)] unfolding h_def[symmetric] h15 unfolding h by simp_all
qed

section \<open>The tags the parser produces\<close>

definition audio_ok :: "audio_tag \<Rightarrow> bool" where
  "audio_ok t \<longleftrightarrow>
    (case at_ex_packet_type t of
       None \<Rightarrow> at_multitrack t = None \<and> at_fourcc t = None \<and> at_mod_ex t = []
         \<and> at_sound_format t < 16 \<and> at_sound_format t \<noteq> AUDIO_FORMAT_EX_HEADER \<and> at_sound_rate t < 4
         \<and> (at_sound_format t = AUDIO_FORMAT_AAC \<longleftrightarrow> at_aac_packet_type t \<noteq> None)
     | Some pt \<Rightarrow> t = ex_audio_tag pt (at_fourcc t) (at_body t) (at_mod_ex t) (at_multitrack t)
         \<and> preludes_ok AUDIO_PACKET_TYPE_MULTITRACK AUDIO_PACKET_TYPE_MOD_EX (at_mod_ex t)
             (map_option mt_type (at_multitrack t)) pt (at_fourcc t)
         \<and> (case at_multitrack t of Some m \<Rightarrow> multitrack_ok m \<and> at_body t = [] | None \<Rightarrow> True))"

lemma ex_audio_body_reads:
  assumes ok: "audio_ok t" and pt: "at_ex_packet_type t = Some pt"
  shows "reads_all (ex_audio_body (at_mod_ex t) (map_option mt_type (at_multitrack t)) pt (at_fourcc t))
    (case at_multitrack t of Some m \<Rightarrow> multitrack_encode m | None \<Rightarrow> at_body t) t"
proof (cases "at_multitrack t")
  case (Some m)
  have shape: "t = ex_audio_tag pt (at_fourcc t) (at_body t) (at_mod_ex t) (Some m)"
    and mok: "multitrack_ok m" and body: "at_body t = []"
    using ok unfolding audio_ok_def pt Some option.case by blast+
  have tag: "t = ex_audio_tag pt (at_fourcc t) [] (at_mod_ex t) (Some m)"
    using shape unfolding body .
  show ?thesis
    unfolding ex_audio_body_def Some option.case option.map
    by (rule reads_all_returnI[OF multitrack_parses[OF mok]]) (rule tag)
next
  case None
  then obtain f where f: "at_fourcc t = Some f" using ok pt by (auto simp: audio_ok_def preludes_ok_def split: option.splits)
  have tag: "t = ex_audio_tag pt (Some f) (at_body t) (at_mod_ex t) None" using ok pt f None by (simp add: audio_ok_def)
  show ?thesis
    unfolding ex_audio_body_def None f option.case option.map
    by (rule reads_all_returnI[OF take_rest_reads]) (rule tag)
qed

lemma ex_audio_parses:
  assumes ok: "audio_ok t" and ex: "at_fourcc t \<noteq> None \<or> at_multitrack t \<noteq> None"
  shows "reads_all audio_reader (build_audio t) t"
proof -
  obtain pt where pt: "at_ex_packet_type t = Some pt"
    using ok ex by (auto simp: audio_ok_def split: option.splits)
  let ?mt = "map_option mt_type (at_multitrack t)"
  define hp where "hp = ex_header_pt AUDIO_PACKET_TYPE_MULTITRACK AUDIO_PACKET_TYPE_MOD_EX (at_mod_ex t) ?mt pt"
  have pre_ok: "preludes_ok AUDIO_PACKET_TYPE_MULTITRACK AUDIO_PACKET_TYPE_MOD_EX (at_mod_ex t) ?mt pt (at_fourcc t)"
    using ok pt by (simp add: audio_ok_def)
  have hp: "hp AND 0x0F = hp"
    using pre_ok low_nibble(1)[of hp] by (auto simp: hp_def ex_header_pt_def post_mod_ex_pt_def preludes_ok_def audio_consts)
  have pre: "reads (ex_preludes AUDIO_PACKET_TYPE_MULTITRACK AUDIO_PACKET_TYPE_MOD_EX (hp AND 0x0F))
      (ex_prelude_bytes AUDIO_PACKET_TYPE_MULTITRACK AUDIO_PACKET_TYPE_MOD_EX (at_mod_ex t) ?mt pt (at_fourcc t))
      (at_mod_ex t, ?mt, pt, at_fourcc t)"
    unfolding hp unfolding hp_def by (rule ex_preludes_reads[OF pre_ok]) (simp_all add: audio_consts)
  have "build_audio t = ex_audio_head hp
      # ex_prelude_bytes AUDIO_PACKET_TYPE_MULTITRACK AUDIO_PACKET_TYPE_MOD_EX (at_mod_ex t) ?mt pt (at_fourcc t)
      @ (case at_multitrack t of Some m \<Rightarrow> multitrack_encode m | None \<Rightarrow> at_body t)" (is "_ = ?h # ?pre @ ?body")
    unfolding build_audio_def if_P[OF ex] build_ex_audio_def pt Let_def option.case hp_def by (rule refl)
  moreover have "reads_all (ex_audio_reader ?h) (?pre @ ?body) t"
    unfolding ex_audio_reader_def ex_audio_head_bits
    by (rule reads_all_bind[OF pre], unfold prod.case, rule ex_audio_body_reads[OF ok pt])
  ultimately show ?thesis
    using ex_audio_head_bits(1) by (simp add: audio_reader_def reads_all_def st_bind_def[of "cur_u8 Other"])
qed

lemma legacy_audio_parses:
  assumes ok: "audio_ok t" and ex: "at_fourcc t = None" "at_multitrack t = None"
  shows "reads_all audio_reader (build_audio t) t"
proof -
  have t: "at_sound_format t < 16" "at_sound_rate t < 4" "at_ex_packet_type t = None" "at_mod_ex t = []"
      "at_sound_format t \<noteq> AUDIO_FORMAT_EX_HEADER"
      "at_sound_format t = AUDIO_FORMAT_AAC \<longleftrightarrow> at_aac_packet_type t \<noteq> None"
    using ok ex by (auto simp: audio_ok_def preludes_ok_def split: option.splits)
  note h = legacy_audio_head_bits[OF t(1,2)]
  have tag: "t = \<lparr>at_sound_format = at_sound_format t, at_sound_rate = at_sound_rate t,
      at_sound_size_16bit = at_sound_size_16bit t, at_stereo = at_stereo t, at_aac_packet_type = at_aac_packet_type t,
      at_ex_packet_type = None, at_fourcc = None, at_body = at_body t, at_mod_ex = [], at_multitrack = None\<rparr>"
    using t ex by (cases t) simp
  let ?q = "if at_sound_format t = AUDIO_FORMAT_AAC then [the (at_aac_packet_type t)] else []"
  have aac: "reads (if at_sound_format t = AUDIO_FORMAT_AAC then st_bind (cur_u8 Other) (\<lambda>a. st_return (Some a))
       else st_return None) ?q (at_aac_packet_type t)"
    using t(6) by (auto simp: reads_return intro!: reads_u8_bind)
  have "reads_all (legacy_audio_reader (legacy_audio_head t)) (?q @ at_body t) t"
    unfolding legacy_audio_reader_def Let_def h
    by (rule reads_all_bind[OF aac], rule reads_all_returnI[OF take_rest_reads]) (rule tag)
  moreover have "build_audio t = legacy_audio_head t # ?q @ at_body t"
    using ex t(6) by (auto simp: build_audio_def build_legacy_audio_def)
  ultimately show ?thesis
    using h(1) t(5) by (simp add: audio_reader_def reads_all_def st_bind_def[of "cur_u8 Other"])
qed

lemma audio_parses: "audio_ok t \<Longrightarrow> parse_audio (build_audio t) = Inr t"
  using ex_audio_parses[of t] legacy_audio_parses[of t] unfolding parse_audio_def reads_all_def
  by (cases "at_fourcc t \<noteq> None \<or> at_multitrack t \<noteq> None") (fastforce dest: spec[of _ "()"])+

lemma audio_fails: "fails_with Other audio_reader"
proof -
  have "fails_with Other (ex_audio_reader b0)" for b0
    unfolding ex_audio_reader_def
    by (rule fails_bind_yields[OF ex_preludes_yields[OF low_nibble(2)] ex_preludes_fails])
      (auto simp: ex_audio_body_def preludes_ok_def intro!: fails_intro fails_multitrack take_rest_fails split: option.splits)
  then show ?thesis
    unfolding audio_reader_def legacy_audio_reader_def Let_def by (intro fails_intro take_rest_fails)
qed

lemma audio_yields: "yields audio_reader audio_ok"
proof -
  have body: "yields (ex_audio_body chain mt pt fo) audio_ok"
    if pre: "preludes_ok AUDIO_PACKET_TYPE_MULTITRACK AUDIO_PACKET_TYPE_MOD_EX chain mt pt fo" for chain mt pt fo
  proof (cases mt)
    case None
    then have "\<exists>f. fo = Some f" using pre by (auto simp: preludes_ok_def split: option.splits)
    then obtain f where f: "fo = Some f" by blast
    show ?thesis unfolding ex_audio_body_def None f option.case
      by (intro yields_intro) (use pre None f in \<open>simp add: audio_ok_def ex_audio_tag_def\<close>)
  next
    case (Some ty)
    then have ty: "ty < 16" using pre by (simp add: preludes_ok_def)
    show ?thesis unfolding ex_audio_body_def Some option.case
      by (rule yields_bind[OF yields_multitrack[OF ty]], rule yields_return)
        (use pre Some in \<open>auto simp: audio_ok_def ex_audio_tag_def\<close>)
  qed
  have ex: "yields (ex_audio_reader b0) audio_ok" for b0
    unfolding ex_audio_reader_def
    by (rule yields_bind[OF ex_preludes_yields[OF low_nibble(2)]]) (auto intro!: body)
  have low2: "x AND (0x03 :: u8) < 4" for x
    using word_and_le1[of x 3] by (simp add: word_less_nat_alt word_le_nat_alt)
  have legacy: "yields (legacy_audio_reader b0) audio_ok" if "drop_bit 4 b0 \<noteq> AUDIO_FORMAT_EX_HEADER" for b0
    unfolding legacy_audio_reader_def Let_def
    by (rule yields_bind[where R = "\<lambda>a. drop_bit 4 b0 = AUDIO_FORMAT_AAC \<longleftrightarrow> a \<noteq> None"])
      (use that in \<open>auto intro!: yields_intro simp: audio_ok_def high_nibble_bound low2 AUDIO_FORMAT_AAC_def\<close>)
  show ?thesis unfolding audio_reader_def by (intro yields_bind_any yields_if ex legacy)
qed

lemma audio_parse_ok: "parse_audio b = Inr t \<Longrightarrow> audio_ok t"
  unfolding parse_audio_def by (rule yields_fst[OF audio_yields])

lemma audio_parse_error: "parse_audio b = Inl e \<Longrightarrow> e = Other"
  unfolding parse_audio_def by (rule fails_fst[OF audio_fails])

lemma audio_nonempty: "audio_ok t \<Longrightarrow> build_audio t \<noteq> []"
  by (simp add: build_audio_def build_ex_audio_def build_legacy_audio_def Let_def)

section \<open>Properties\<close>

text \<open>
  C32. An audio message survives being built and parsed exactly when it is silence or a tag the
  format has.  Any payload parses to such a message, which therefore can be rebuilt and parsed to
  the same message, or is refused with \<open>Other\<close>; the empty payload is silence.
\<close>

theorem audio_message_roundtrip:
  "(parse_audio_message (build_audio_message m) = Inr m \<longleftrightarrow> (case m of AmTag t \<Rightarrow> audio_ok t | AmSilence \<Rightarrow> True))
   \<and> (case parse_audio_message b of Inl e \<Rightarrow> e = Other
       | Inr m' \<Rightarrow> (m' = AmSilence \<longleftrightarrow> b = []) \<and> (case m' of AmTag t \<Rightarrow> audio_ok t | AmSilence \<Rightarrow> True)
           \<and> parse_audio_message (build_audio_message m') = Inr m')"
proof -
  have some: "parse_audio_message (build_audio_message (AmTag t)) = Inr (AmTag t)" if "audio_ok t" for t
    using audio_parses[OF that] audio_nonempty[OF that]
    by (simp add: parse_audio_message_def is_silence_payload_def build_audio_message_def)
  have ok: "audio_ok t" if "parse_audio_message p = Inr (AmTag t)" for p t
    using that audio_parse_ok by (auto simp: parse_audio_message_def res_bind_eq_Inr split: if_splits)
  have err: "e = Other" if "parse_audio_message p = Inl e" for p e
    using that audio_parse_error by (auto simp: parse_audio_message_def res_bind_eq_Inl split: if_splits)
  have silence: "parse_audio_message p = Inr AmSilence \<longleftrightarrow> p = []" for p
    by (auto simp: parse_audio_message_def is_silence_payload_def res_bind_eq_Inr)
  have "parse_audio_message (build_audio_message AmSilence) = Inr AmSilence"
    by (simp add: silence build_audio_message_def build_silence_audio_def)
  moreover have "parse_audio_message [] \<noteq> Inr (AmTag t)" for t
    by (simp add: parse_audio_message_def is_silence_payload_def)
  ultimately show ?thesis using some ok err silence by (auto split: audio_message.split sum.split)
qed

text \<open>
  The multichannel configuration an audio tag carries is read back from it exactly when
  its order, count and mapping agree, and a body that parses is the serialisation of what it
  parses to.
\<close>

theorem multichannel_roundtrip:
  "(at_multichannel_config (multichannel_config_tag f c) = Inr (Some c) \<longleftrightarrow> mc_ok c)
   \<and> (case mc_parse b of Inl e \<Rightarrow> e = Other | Inr c' \<Rightarrow> mc_ok c' \<and> mc_encode c' = b)"
proof -
  have "at_multichannel_config (multichannel_config_tag f c) = res_bind (mc_parse (mc_encode c)) (\<lambda>c. Inr (Some c))"
    by (simp add: at_multichannel_config_def multichannel_config_tag_def at_is_multichannel_config_def ex_audio_tag_def)
  moreover have "mc_parse b = Inl e \<Longrightarrow> e = Other" for e by (auto simp: mc_parse_def Let_def split: if_splits)
  ultimately show ?thesis using mc_parse_ok[of b] mc_roundtrip[of c]
    by (auto simp: res_bind_eq_Inr split: sum.split)
qed

section \<open>Multitrack\<close>

definition audio_head :: "audio_tag \<Rightarrow> u8" where
  "audio_head t = ex_audio_head (the (at_ex_packet_type t))"

interpretation audio: track_codec parse_audio build_audio audio_ok at_fourcc at_ex_packet_type
    "\<lambda>t. at_multitrack t \<noteq> None" "\<lambda>t. at_mod_ex t \<noteq> []" audio_head
    AUDIO_PACKET_TYPE_MULTITRACK AUDIO_PACKET_TYPE_MOD_EX
proof
  show "pt < 16" if "audio_ok t" "at_ex_packet_type t = Some pt" for t pt
    using that by (simp add: audio_ok_def preludes_ok_def)
  show "parse_audio (build_audio t) = Inr t" if "audio_ok t" for t using that by (rule audio_parses)
  fix t f
  assume a: "audio_ok t" "\<not> at_multitrack t \<noteq> None" "\<not> at_mod_ex t \<noteq> []" "at_fourcc t = Some f"
  then have "\<exists>pt. at_ex_packet_type t = Some pt \<and> fourcc_ok f"
    by (auto simp: audio_ok_def preludes_ok_def split: option.splits)
  then show "\<exists>body. build_audio t = audio_head t # f @ body \<and> length f = 4"
    using a by (auto simp: build_audio_def build_ex_audio_def audio_head_def Let_def fourcc_ok_def
        ex_prelude_bytes_def ex_header_pt_def post_mod_ex_pt_def)
qed

text \<open>
  Joining single-track audio tags and splitting the result gives the tracks back in every
  mode; the joined tag survives the wire where the mode fits its nibble and no track exceeds the
  24-bit size field.
\<close>

theorem audio_mux_demux:
  assumes "list_all (\<lambda>(i, t). audio_ok t) tracks"
  shows "case audio_multitrack_from_tags ty tracks of Inl e \<Rightarrow> e = Other
    | Inr t \<Rightarrow> audio_demux_tracks t = Inr tracks
        \<and> (if ty < 16 \<and> list_all (\<lambda>(i, t). length (build_audio t) < 2 ^ 24 + 5) tracks
           then parse_audio (build_audio t) = Inr t else True)"
proof (cases "audio_multitrack_from_tags ty tracks")
  case (Inl e)
  then show ?thesis
    by (auto simp: audio_multitrack_from_tags_def res_bind_eq_Inl dest: plan_error)
next
  case (Inr t)
  obtain p where plan: "plan_multitrack at_fourcc at_ex_packet_type (\<lambda>t. at_multitrack t \<noteq> None) (\<lambda>t. at_mod_ex t \<noteq> [])
       AUDIO_PACKET_TYPE_MULTITRACK AUDIO_PACKET_TYPE_MOD_EX ty tracks = Inr p"
    and t: "t = audio_multitrack_tag (mp_inner_packet_type p) (mp_shared_fourcc p)
       \<lparr>mt_type = ty, mt_tracks = mux_with build_audio at_fourcc (mp_per_track_fourcc p) tracks\<rparr>"
    using Inr by (auto simp: audio_multitrack_from_tags_def res_bind_eq_Inr)
  have ok: "\<forall>(i, t) \<in> set tracks. audio_ok t" using assms by (auto simp: list_all_iff)
  have "\<forall>(i, t) \<in> set tracks. audio_ok t \<and> audio_head t = ex_audio_head (mp_inner_packet_type p)"
    using ok plan_facts(6)[OF plan] by (fastforce simp: audio_head_def)
  from audio.demux_mux[OF plan this] have "audio_demux_tracks t = Inr tracks"
    by (simp add: audio_demux_tracks_def t audio_multitrack_tag_def ex_audio_tag_def)
  moreover have "parse_audio (build_audio t) = Inr t"
    if "ty < 16" "list_all (\<lambda>(i, t). length (build_audio t) < 2 ^ 24 + 5) tracks"
    unfolding t using that audio.joined_ok[OF plan ok that(1)]
    by (intro audio_parses) (auto simp: list_all_iff audio_ok_def audio_multitrack_tag_def ex_audio_tag_def)
  ultimately show ?thesis using Inr by simp
qed

definition sample_opus :: "u8 list \<Rightarrow> audio_tag" where
  "sample_opus body = ex_audio_tag 1 (Some (lit ''Opus'')) body [] None"

theorem audio_mux_demux_witness:
  "case audio_multitrack_from_tags 2 [(1, sample_opus [1, 2]), (4, sample_opus [])] of Inl e \<Rightarrow> False
    | Inr t \<Rightarrow> audio_demux_tracks t = Inr [(1, sample_opus [1, 2]), (4, sample_opus [])]
        \<and> parse_audio (build_audio t) = Inr t"
proof -
  let ?ts = "[(1, sample_opus [1, 2]), (4, sample_opus [])]"
  have ok: "list_all (\<lambda>(i, t). audio_ok t) ?ts"
    by (simp add: audio_ok_def preludes_ok_def sample_opus_def ex_audio_tag_def audio_consts fourcc_ok_def)
  have "\<exists>t. audio_multitrack_from_tags 2 ?ts = Inr t"
    by (simp add: audio_multitrack_from_tags_def plan_multitrack_def sample_opus_def ex_audio_tag_def multitrack_types
        audio_consts)
  moreover have "list_all (\<lambda>(i, t). length (build_audio t) < 2 ^ 24 + 5) ?ts"
    by (simp add: build_audio_def build_ex_audio_def sample_opus_def ex_audio_tag_def Let_def ex_prelude_bytes_def)
  ultimately show ?thesis using audio_mux_demux[OF ok, of 2] by auto
qed

section \<open>Speaker positions\<close>

text \<open>
  The constants of the modules \<open>audio_channel\<close> and \<open>audio_channel_mask\<close>, by name.  As the first says, its values
  are the bit indices of the second; the two without a position have no mask.
\<close>

definition audio_channel :: "(string \<times> u8) list" where
  "audio_channel =
    [(''FRONT_LEFT'', 0), (''FRONT_RIGHT'', 1), (''FRONT_CENTER'', 2), (''LOW_FREQUENCY1'', 3),
     (''BACK_LEFT'', 4), (''BACK_RIGHT'', 5), (''FRONT_LEFT_CENTER'', 6), (''FRONT_RIGHT_CENTER'', 7),
     (''BACK_CENTER'', 8), (''SIDE_LEFT'', 9), (''SIDE_RIGHT'', 10), (''TOP_CENTER'', 11),
     (''TOP_FRONT_LEFT'', 12), (''TOP_FRONT_CENTER'', 13), (''TOP_FRONT_RIGHT'', 14),
     (''TOP_BACK_LEFT'', 15), (''TOP_BACK_CENTER'', 16), (''TOP_BACK_RIGHT'', 17), (''LOW_FREQUENCY2'', 18),
     (''TOP_SIDE_LEFT'', 19), (''TOP_SIDE_RIGHT'', 20), (''BOTTOM_FRONT_CENTER'', 21),
     (''BOTTOM_FRONT_LEFT'', 22), (''BOTTOM_FRONT_RIGHT'', 23), (''UNUSED'', 0xfe), (''UNKNOWN'', 0xff)]"

definition audio_channel_mask :: "(string \<times> u32) list" where
  "audio_channel_mask =
    [(''FRONT_LEFT'', 0x000001), (''FRONT_RIGHT'', 0x000002), (''FRONT_CENTER'', 0x000004),
     (''LOW_FREQUENCY1'', 0x000008), (''BACK_LEFT'', 0x000010), (''BACK_RIGHT'', 0x000020),
     (''FRONT_LEFT_CENTER'', 0x000040), (''FRONT_RIGHT_CENTER'', 0x000080), (''BACK_CENTER'', 0x000100),
     (''SIDE_LEFT'', 0x000200), (''SIDE_RIGHT'', 0x000400), (''TOP_CENTER'', 0x000800),
     (''TOP_FRONT_LEFT'', 0x001000), (''TOP_FRONT_CENTER'', 0x002000), (''TOP_FRONT_RIGHT'', 0x004000),
     (''TOP_BACK_LEFT'', 0x008000), (''TOP_BACK_CENTER'', 0x010000), (''TOP_BACK_RIGHT'', 0x020000),
     (''LOW_FREQUENCY2'', 0x040000), (''TOP_SIDE_LEFT'', 0x080000), (''TOP_SIDE_RIGHT'', 0x100000),
     (''BOTTOM_FRONT_CENTER'', 0x200000), (''BOTTOM_FRONT_LEFT'', 0x400000),
     (''BOTTOM_FRONT_RIGHT'', 0x800000)]"

lemma channel_masks:
  "audio_channel_mask = map (\<lambda>(name, c). (name, push_bit (unat c) 1)) (filter (\<lambda>(_, c). c < 24) audio_channel)"
  by (simp add: audio_channel_def audio_channel_mask_def push_bit_eq_mult)

end
