(* ===== verification/Server.thy ===== *)
theory Server
  imports Session Shared_Object Flv_Video Flv_Audio Handshake
begin

text \<open>
  \<open>server.rs\<close>: the server side of a connection.

  \<^item> \<open>drive_until_request\<close> negotiates: handshake, \<open>connect\<close>, then commands until \<open>publish\<close> or
    \<open>play\<close>.  Its two loops are \<open>connect_round\<close> and \<open>request_round\<close>; the locals of the second
    are the fields of \<open>negotiation\<close>.  What it returns is a \<open>session_request\<close>; the socket it carries
    in \<open>pending\<close> is the state it leaves.
  \<^item> \<open>rtmp_session\<close> is the publishing session (\<open>next_packet\<close>), \<open>play_session\<close> the subscriber's
    (\<open>next_event\<close>); \<open>session_handle_message\<close> and \<open>handle_event_message\<close> dispatch one message.
  \<^item> \<open>accept_any\<close> and \<open>accept_publisher\<close> run the listener over the connections it is given, each
    with the two clock readings of its handshake and the bytes it will send.

  Not modelled: addresses, socket options and shutdown; \<open>serve\<close> is in \<open>Sources\<close>.
\<close>

section \<open>Status codes\<close>

definition STATUS_PLAY_START :: rstring where "STATUS_PLAY_START = lit ''NetStream.Play.Start''"
definition STATUS_PLAY_RESET :: rstring where "STATUS_PLAY_RESET = lit ''NetStream.Play.Reset''"
definition STATUS_PLAY_STREAM_NOT_FOUND :: rstring where
  "STATUS_PLAY_STREAM_NOT_FOUND = lit ''NetStream.Play.StreamNotFound''"
definition STATUS_SEEK_NOTIFY :: rstring where "STATUS_SEEK_NOTIFY = lit ''NetStream.Seek.Notify''"
definition STATUS_PAUSE_NOTIFY :: rstring where "STATUS_PAUSE_NOTIFY = lit ''NetStream.Pause.Notify''"
definition STATUS_UNPAUSE_NOTIFY :: rstring where
  "STATUS_UNPAUSE_NOTIFY = lit ''NetStream.Unpause.Notify''"
definition STATUS_PUBLISH_START :: rstring where "STATUS_PUBLISH_START = lit ''NetStream.Publish.Start''"
definition STATUS_UNPUBLISH_SUCCESS :: rstring where
  "STATUS_UNPUBLISH_SUCCESS = lit ''NetStream.Unpublish.Success''"
definition STATUS_PUBLISH_BAD_NAME :: rstring where
  "STATUS_PUBLISH_BAD_NAME = lit ''NetStream.Publish.BadName''"

definition SERVER_CHUNK_SIZE :: u32 where "SERVER_CHUNK_SIZE = 4096"
definition WINDOW_ACK_SIZE :: u32 where "WINDOW_ACK_SIZE = 5000000"
definition PEER_BW_LIMIT_DYNAMIC :: u8 where "PEER_BW_LIMIT_DYNAMIC = 2"

section \<open>Negotiation\<close>

text \<open>The protocol-control arms of the setup loops; \<open>True\<close> when one of them took the message.\<close>

definition setup_control :: "message \<Rightarrow> ('x, bool) on_link" where
  "setup_control msg =
    (if msg_type_id msg = MSG_SET_CHUNK_SIZE then
       st_bind (take_chunk_size (msg_payload msg)) (\<lambda>_. st_return True)
     else if msg_type_id msg = MSG_WINDOW_ACK_SIZE then
       st_bind (take_window_ack_size (msg_payload msg)) (\<lambda>_. st_return True)
     else if msg_type_id msg = MSG_SET_PEER_BANDWIDTH \<and> 4 \<le> length (msg_payload msg) then
       st_bind (take_window_ack_size (take 4 (msg_payload msg))) (\<lambda>_. st_return True)
     else st_return False)"

definition is_command :: "message \<Rightarrow> bool" where
  "is_command msg \<longleftrightarrow> msg_type_id msg = MSG_COMMAND_AMF0 \<or> msg_type_id msg = MSG_COMMAND_AMF3"

definition command_values :: "(f64 \<Rightarrow> rstring) \<Rightarrow> message \<Rightarrow> amf0_value list result" where
  "command_values fmt msg =
    (if msg_type_id msg = MSG_COMMAND_AMF3 then decode_message_to_amf0 fmt (msg_payload msg)
     else amf0_decode_all fmt (msg_payload msg))"

record connect_info =
  ci_tc_url :: rstring
  ci_app :: rstring
  ci_capabilities :: connect_capabilities

definition get_str :: "amf0_value \<Rightarrow> string \<Rightarrow> rstring" where
  "get_str v key = unwrap_or [] (Option.bind (a0_get v (lit key)) a0_as_str)"

definition reply_connect :: "f64 \<Rightarrow> connect_capabilities \<Rightarrow> ('x, unit) on_link" where
  "reply_connect tx_id server_caps =
     st_bind (transmit CSID_PROTOCOL_CONTROL (build_window_ack_size WINDOW_ACK_SIZE)) (\<lambda>_.
     st_bind (transmit CSID_PROTOCOL_CONTROL (build_set_peer_bandwidth WINDOW_ACK_SIZE PEER_BW_LIMIT_DYNAMIC)) (\<lambda>_.
     st_bind (transmit CSID_PROTOCOL_CONTROL (build_user_control_stream_begin 0)) (\<lambda>_.
     st_bind (transmit CSID_COMMAND (build_connect_result_with_caps tx_id server_caps)) (\<lambda>_.
     st_bind (transmit CSID_PROTOCOL_CONTROL (build_set_chunk_size SERVER_CHUNK_SIZE)) (\<lambda>_.
     resize_writer (unat SERVER_CHUNK_SIZE))))))"

definition take_connect ::
    "connect_capabilities \<Rightarrow> amf0_value list \<Rightarrow> ('x, connect_info) on_link" where
  "take_connect server_caps values =
     st_bind (st_lift (ok_or InvalidCommand (arg_as a0_as_str values 0))) (\<lambda>name.
     if name \<noteq> lit ''connect'' then st_throw InvalidCommand
     else
       let tx_id = unwrap_or (f64_of_int 1) (arg_as a0_as_f64 values 1) in
       st_bind (st_lift (ok_or InvalidCommand (arg values 2))) (\<lambda>cmd_obj.
       st_bind (reply_connect tx_id server_caps) (\<lambda>_.
       st_return \<lparr>ci_tc_url = get_str cmd_obj ''tcUrl'', ci_app = get_str cmd_obj ''app'',
         ci_capabilities = caps_from_amf0 cmd_obj\<rparr>)))"

definition connect_round ::
    "(f64 \<Rightarrow> rstring) \<Rightarrow> connect_capabilities \<Rightarrow> ('x, connect_info option) on_link" where
  "connect_round fmt server_caps =
     st_bind receive (\<lambda>msg.
     st_bind (setup_control msg) (\<lambda>taken.
     if taken \<or> \<not> is_command msg then st_return None
     else
       st_bind (st_lift (command_values fmt msg)) (\<lambda>values.
       st_bind (take_connect server_caps values) (\<lambda>info. st_return (Some info)))))"

record publish_request =
  pr_app :: rstring
  pr_stream_name :: rstring
  pr_publish_type :: rstring
  pr_tc_url :: rstring
  pr_capabilities :: connect_capabilities
  pr_stream_id :: u32
  pr_tx_id :: f64

record play_request =
  pl_app :: rstring
  pl_stream_name :: rstring
  pl_start :: "f64 option"
  pl_duration :: "f64 option"
  pl_reset :: "bool option"
  pl_buffer_length_ms :: "u32 option"
  pl_tc_url :: rstring
  pl_capabilities :: connect_capabilities
  pl_stream_id :: u32
  pl_tx_id :: f64

datatype session_request = ReqPublish publish_request | ReqPlay play_request

record negotiation = link +
  ng_next_stream_id :: u32
  ng_buffer_length_ms :: "u32 option"

text \<open>The stream id a request carries: \<open>msg.msg_stream_id.max(1)\<close>.\<close>

definition publish_of ::
    "connect_info \<Rightarrow> message \<Rightarrow> f64 \<Rightarrow> amf0_value list \<Rightarrow> session_request result" where
  "publish_of info msg tx_id values =
     res_bind (ok_or InvalidCommand (arg_as a0_as_str values 3)) (\<lambda>stream_name.
     Inr (ReqPublish \<lparr>pr_app = ci_app info, pr_stream_name = stream_name,
       pr_publish_type = unwrap_or (lit ''live'') (arg_as a0_as_str values 4),
       pr_tc_url = ci_tc_url info, pr_capabilities = ci_capabilities info,
       pr_stream_id = max (msg_stream_id msg) 1, pr_tx_id = tx_id\<rparr>))"

definition play_of ::
    "connect_info \<Rightarrow> message \<Rightarrow> f64 \<Rightarrow> u32 option \<Rightarrow> amf0_value list \<Rightarrow> session_request result" where
  "play_of info msg tx_id buffer_length_ms values =
     res_bind (ns_parse values) (\<lambda>cmd.
     case cmd of
       Some (NsPlay stream_name start duration reset) \<Rightarrow>
         Inr (ReqPlay \<lparr>pl_app = ci_app info, pl_stream_name = stream_name, pl_start = start,
           pl_duration = duration, pl_reset = reset, pl_buffer_length_ms = buffer_length_ms,
           pl_tc_url = ci_tc_url info, pl_capabilities = ci_capabilities info,
           pl_stream_id = max (msg_stream_id msg) 1, pl_tx_id = tx_id\<rparr>)
     | _ \<Rightarrow> Inl InvalidCommand)"

text \<open>
  \<open>next_stream_id += 1\<close> would overflow at the \<open>2^32\<close>-th \<open>createStream\<close> (a panic in a debug
  build); here it wraps as in a release build.
\<close>

definition answer_create_stream :: "f64 \<Rightarrow> (negotiation \<times> u8 list, unit) st" where
  "answer_create_stream tx_id =
     st_bind st_get_user (\<lambda>s. let sid = ng_next_stream_id s in
     st_bind (modify (\<lambda>s. s\<lparr>ng_next_stream_id := sid + 1\<rparr>)) (\<lambda>_.
     transmit CSID_COMMAND (build_create_stream_result tx_id (f64_of_u32 sid))))"

definition request_command ::
    "connect_info \<Rightarrow> message \<Rightarrow> amf0_value list \<Rightarrow> (negotiation \<times> u8 list, session_request option) st" where
  "request_command info msg values =
     st_bind (st_lift (ok_or InvalidCommand (arg_as a0_as_str values 0))) (\<lambda>name.
     let tx_id = unwrap_or 0 (arg_as a0_as_f64 values 1) in
     if name = lit ''releaseStream'' \<or> name = lit ''FCPublish'' then
       st_bind (transmit CSID_COMMAND (command_message 0
         (encode_command (lit ''_result'') tx_id A0Null [A0Undefined]))) (\<lambda>_. st_return None)
     else if name = lit ''createStream'' then
       st_bind (answer_create_stream tx_id) (\<lambda>_. st_return None)
     else if name = lit ''publish'' then
       st_bind (st_lift (publish_of info msg tx_id values)) (\<lambda>r. st_return (Some r))
     else if name = lit ''play'' then
       st_bind st_get_user (\<lambda>s.
       st_bind (st_lift (play_of info msg tx_id (ng_buffer_length_ms s) values)) (\<lambda>r.
       st_return (Some r)))
     else st_return None)"

definition request_round ::
    "(f64 \<Rightarrow> rstring) \<Rightarrow> connect_info \<Rightarrow> (negotiation \<times> u8 list, session_request option) st" where
  "request_round fmt info =
     st_bind receive (\<lambda>msg.
     st_bind (setup_control msg) (\<lambda>taken.
     if taken then st_return None
     else if msg_type_id msg = MSG_USER_CONTROL then
       (case ucm_parse (msg_payload msg) of
          Inr (UcSetBufferLength _ buffer_ms) \<Rightarrow>
            st_bind (modify (\<lambda>s. s\<lparr>ng_buffer_length_ms := Some buffer_ms\<rparr>)) (\<lambda>_. st_return None)
        | _ \<Rightarrow> st_return None)
     else if is_command msg then
       st_bind (st_lift (command_values fmt msg)) (\<lambda>values. request_command info msg values)
     else st_return None))"

text \<open>
  \<open>st_until\<close> is \<open>loop { \<dots> }\<close> left by \<open>break\<close> or \<open>return\<close>; every round takes a byte off the wire,
  so its bound is never met (\<open>Safety.sound_negotiate\<close>).
\<close>

definition negotiate ::
    "(f64 \<Rightarrow> rstring) \<Rightarrow> connect_capabilities \<Rightarrow> (negotiation \<times> u8 list, session_request) st" where
  "negotiate fmt server_caps =
     st_bind (st_until (connect_round fmt server_caps)) (\<lambda>info.
     st_until (request_round fmt info))"

definition negotiation_new :: "u8 list \<Rightarrow> negotiation" where
  "negotiation_new out = \<lparr>lk_reader = reader_new, lk_writer = writer_new out, ng_next_stream_id = 1,
     ng_buffer_length_ms = None\<rparr>"

definition drive_until_request ::
    "(f64 \<Rightarrow> rstring) \<Rightarrow> connect_capabilities \<Rightarrow> u32 \<Rightarrow> u32 \<Rightarrow> u8 list \<Rightarrow> session_request result \<times> negotiation \<times> u8 list" where
  "drive_until_request fmt server_caps t1 t2 inp =
    (case run_proc (server_handshake t1 t2) inp of
       (Inl e, out, rest) \<Rightarrow> (Inl e, (negotiation_new out, rest))
     | (Inr _, out, rest) \<Rightarrow> negotiate fmt server_caps (negotiation_new out, rest))"

end
