(* ===== verification/Server_Session.thy ===== *)
theory Server_Session
  imports Server
begin

text \<open>
  \<open>server.rs\<close>, the two sessions: \<open>rtmp_session\<close> is \<open>RtmpSession\<close> (a publisher sends to us),
  \<open>play_session\<close> is \<open>PlaySession\<close> (a subscriber receives from us).  The constructors of
  \<open>stream_packet\<close> and \<open>play_event\<close> are those of \<open>StreamPacket\<close> and \<open>PlaySessionEvent\<close>.
\<close>

section \<open>Requests\<close>

record rtmp_session = conn +
  rs_app :: rstring
  rs_stream_name :: rstring
  rs_publish_type :: rstring
  rs_data_frames :: "(rstring \<times> amf0_value) list"

record play_session = conn +
  ps_app :: rstring
  ps_stream_name :: rstring

definition send_on_status :: "u32 \<Rightarrow> rstring \<Rightarrow> rstring \<Rightarrow> rstring \<Rightarrow> ('x, unit) on_link" where
  "send_on_status stream_id level code description =
     transmit CSID_COMMAND (build_on_status stream_id level code description)"

definition publish_accept :: "publish_request \<Rightarrow> (negotiation \<times> u8 list, rtmp_session) st" where
  "publish_accept req =
     st_bind (transmit CSID_PROTOCOL_CONTROL (build_user_control_stream_begin (pr_stream_id req))) (\<lambda>_.
     st_bind (send_on_status (pr_stream_id req) (lit ''status'') STATUS_PUBLISH_START
       (lit ''Started publishing '' @ pr_stream_name req)) (\<lambda>_.
     st_bind st_get_user (\<lambda>s. st_return
       \<lparr>lk_reader = lk_reader s, lk_writer = lk_writer s, cn_stream_id = pr_stream_id req,
        cn_ended = False, cn_pending = [], cn_peer_bw = limiter_new, rs_app = pr_app req,
        rs_stream_name = pr_stream_name req, rs_publish_type = pr_publish_type req,
        rs_data_frames = []\<rparr>)))"

definition publish_reject :: "rstring \<Rightarrow> publish_request \<Rightarrow> (negotiation \<times> u8 list, unit) st" where
  "publish_reject reason req =
     st_bind (attempt (send_on_status (pr_stream_id req) (lit ''error'') STATUS_PUBLISH_BAD_NAME reason)) (\<lambda>_.
     st_throw (Rejected reason))"

definition accept_mode :: "bool \<Rightarrow> play_request \<Rightarrow> (negotiation \<times> u8 list, play_session) st" where
  "accept_mode recorded req =
    (let stream_id = pl_stream_id req in
     st_bind (if recorded
       then transmit CSID_PROTOCOL_CONTROL (build_user_control_stream_is_recorded stream_id)
       else st_return ()) (\<lambda>_.
     st_bind (transmit CSID_PROTOCOL_CONTROL (build_user_control_stream_begin stream_id)) (\<lambda>_.
     st_bind (if pl_reset req = Some True
       then send_on_status stream_id (lit ''status'') STATUS_PLAY_RESET
         (lit ''Playing and resetting '' @ pl_stream_name req)
       else st_return ()) (\<lambda>_.
     st_bind (send_on_status stream_id (lit ''status'') STATUS_PLAY_START
       (lit ''Started playing '' @ pl_stream_name req)) (\<lambda>_.
     st_bind st_get_user (\<lambda>s. st_return
       \<lparr>lk_reader = lk_reader s, lk_writer = lk_writer s, cn_stream_id = stream_id,
        cn_ended = False, cn_pending = [], cn_peer_bw = limiter_new, ps_app = pl_app req,
        ps_stream_name = pl_stream_name req\<rparr>))))))"

definition play_accept :: "play_request \<Rightarrow> (negotiation \<times> u8 list, play_session) st" where
  "play_accept req = accept_mode False req"

definition play_accept_recorded :: "play_request \<Rightarrow> (negotiation \<times> u8 list, play_session) st" where
  "play_accept_recorded req = accept_mode True req"

definition play_reject :: "rstring \<Rightarrow> play_request \<Rightarrow> (negotiation \<times> u8 list, unit) st" where
  "play_reject reason req =
     st_bind (attempt (send_on_status (pl_stream_id req) (lit ''error'') STATUS_PLAY_STREAM_NOT_FOUND reason)) (\<lambda>_.
     st_throw (Rejected reason))"

text \<open>
  The listener.  A connection is the two clock readings its handshake takes and the bytes the
  peer will send; \<open>None\<close> is \<open>listener.accept()\<close> waiting for a connection that never comes.
\<close>

type_synonym connection = "u32 \<times> u32 \<times> u8 list"

fun accept_any ::
    "(f64 \<Rightarrow> rstring) \<Rightarrow> connect_capabilities \<Rightarrow> connection list
     \<Rightarrow> ((session_request \<times> negotiation \<times> u8 list) \<times> connection list) option" where
  "accept_any fmt caps [] = None"
| "accept_any fmt caps ((t1, t2, inp) # conns) =
    (case drive_until_request fmt caps t1 t2 inp of
       (Inr req, s) \<Rightarrow> Some ((req, s), conns)
     | (Inl e, s) \<Rightarrow> accept_any fmt caps conns)"

lemma accept_any_shorter: "accept_any fmt caps conns = Some (r, conns') \<Longrightarrow> length conns' < length conns"
  by (induction fmt caps conns rule: accept_any.induct) (auto split: prod.splits sum.splits)

text \<open>\<open>RtmpServer::accept\<close>; the refusal of a player is lost with its connection.\<close>

function accept_publisher ::
    "(f64 \<Rightarrow> rstring) \<Rightarrow> connect_capabilities \<Rightarrow> connection list
     \<Rightarrow> ((publish_request \<times> negotiation \<times> u8 list) \<times> connection list) option" where
  "accept_publisher fmt caps conns =
    (case accept_any fmt caps conns of
       None \<Rightarrow> None
     | Some ((ReqPublish req, s), conns') \<Rightarrow> Some ((req, s), conns')
     | Some ((ReqPlay req, s), conns') \<Rightarrow> accept_publisher fmt caps conns')"
  by pat_completeness auto
termination
  by (relation "measure (\<lambda>(_, _, conns). length conns)") (auto dest: accept_any_shorter)

section \<open>The publisher's session\<close>

datatype stream_packet =
    SpAudio u32 audio_tag
  | SpVideo u32 video_tag
  | SpMetadata amf0_value
  | SpDataFrame rstring amf0_value
  | SpDataFrameCleared rstring
  | SpCommand netstream_command
  | SpCall call_command
  | SpSharedObject "amf0_value shared_object"
  | SpCallReply bool f64 "amf0_value list"

definition metadata_object :: "amf0_value list \<Rightarrow> amf0_value option" where
  "metadata_object values =
     find (\<lambda>v. case v of A0Object _ \<Rightarrow> True | A0EcmaArray _ \<Rightarrow> True | _ \<Rightarrow> False) (rev values)"

definition ON_META_DATA :: rstring where "ON_META_DATA = lit ''onMetaData''"

definition store_data_frame :: "rstring \<Rightarrow> amf0_value \<Rightarrow> (rtmp_session \<times> u8 list, unit) st" where
  "store_data_frame handler v =
     modify (\<lambda>s. s\<lparr>rs_data_frames := set_entry handler v (rs_data_frames s)\<rparr>)"

definition data_frame :: "rtmp_session \<Rightarrow> rstring \<Rightarrow> amf0_value option" where
  "data_frame s handler = map_of (rs_data_frames s) handler"

definition dispatch_data_values :: "amf0_value list \<Rightarrow> (rtmp_session \<times> u8 list, stream_packet option) st" where
  "dispatch_data_values values =
    (case parse_data_frame values of
       Some (DfSet handler v) \<Rightarrow>
         st_bind (store_data_frame handler v) (\<lambda>_.
         st_return (Some (if handler = ON_META_DATA then SpMetadata v else SpDataFrame handler v)))
     | Some (DfClear handler) \<Rightarrow>
         st_bind (modify (\<lambda>s. s\<lparr>rs_data_frames := filter (\<lambda>(h, _). h \<noteq> handler) (rs_data_frames s)\<rparr>)) (\<lambda>_.
         st_return (Some (SpDataFrameCleared handler)))
     | None \<Rightarrow>
         (case metadata_object values of
            None \<Rightarrow> st_return None
          | Some meta \<Rightarrow>
              let is_meta = unwrap_or True (map_option (\<lambda>n. n = ON_META_DATA) (arg_as a0_as_str values 0)) in
              st_bind (if is_meta then store_data_frame ON_META_DATA meta else st_return ()) (\<lambda>_.
              st_return (Some (SpMetadata meta)))))"

text \<open>
  The part of \<open>handle_command_values\<close> and \<open>classify_command_values\<close> after the tear-down
  commands is the same, up to the constructors of the two packet types.
\<close>

definition classify_values ::
    "(netstream_command \<Rightarrow> 'p) \<Rightarrow> (bool \<Rightarrow> f64 \<Rightarrow> amf0_value list \<Rightarrow> 'p) \<Rightarrow> (call_command \<Rightarrow> 'p)
     \<Rightarrow> amf0_value list \<Rightarrow> 'p option result" where
  "classify_values command reply call values =
     res_bind (ns_parse values) (\<lambda>cmd.
     case cmd of Some c \<Rightarrow> Inr (Some (command c)) | None \<Rightarrow>
     case arg_as a0_as_str values 0 of None \<Rightarrow> Inr None | Some name \<Rightarrow>
       if name = lit ''_result'' \<or> name = lit ''_error'' then
         Inr (Some (reply (name = lit ''_result'') (unwrap_or 0 (arg_as a0_as_f64 values 1)) values))
       else if \<not> is_reserved_command_name name then Inr (map_option call (call_parse values))
       else Inr None)"

definition is_teardown :: "string list \<Rightarrow> amf0_value list \<Rightarrow> bool" where
  "is_teardown names values \<longleftrightarrow>
     (case arg_as a0_as_str values 0 of None \<Rightarrow> False | Some name \<Rightarrow> name \<in> set (map lit names))"

definition handle_command_values :: "amf0_value list \<Rightarrow> (rtmp_session \<times> u8 list, stream_packet option) st" where
  "handle_command_values values =
    (if is_teardown [''closeStream'', ''deleteStream'', ''FCUnpublish'', ''close''] values
     then st_bind latch_ended (\<lambda>_. st_return None)
     else st_lift (classify_values SpCommand SpCallReply SpCall values))"

definition is_shared_object :: "message \<Rightarrow> bool" where
  "is_shared_object msg \<longleftrightarrow>
     msg_type_id msg = MSG_SHARED_OBJECT_AMF0 \<or> msg_type_id msg = MSG_SHARED_OBJECT_AMF3"

definition session_handle_message ::
    "(f64 \<Rightarrow> rstring) \<Rightarrow> message \<Rightarrow> (rtmp_session \<times> u8 list, stream_packet option) st" where
  "session_handle_message fmt msg =
    (let t = msg_type_id msg; payload = msg_payload msg in
     if t = MSG_AUDIO then
       st_bind (st_lift (parse_audio payload)) (\<lambda>tag. st_return (Some (SpAudio (msg_timestamp msg) tag)))
     else if t = MSG_VIDEO then
       st_bind (st_lift (parse_video payload)) (\<lambda>tag. st_return (Some (SpVideo (msg_timestamp msg) tag)))
     else if t = MSG_DATA_AMF0 then
       st_bind (st_lift (amf0_decode_all fmt payload)) dispatch_data_values
     else if t = MSG_DATA_AMF3 then
       st_bind (st_lift (decode_message_to_amf0 fmt payload)) dispatch_data_values
     else if is_command msg then
       st_bind (st_lift (command_values fmt msg)) handle_command_values
     else if is_shared_object msg then
       st_bind (st_lift (parse_shared_object fmt msg)) (\<lambda>so. st_return (Some (SpSharedObject so)))
     else if t = MSG_AGGREGATE then st_bind (queue_aggregate msg) (\<lambda>_. st_return None)
     else if t = MSG_SET_CHUNK_SIZE then st_bind (take_chunk_size payload) (\<lambda>_. st_return None)
     else if t = MSG_WINDOW_ACK_SIZE then st_bind (take_window_ack_size payload) (\<lambda>_. st_return None)
     else if t = MSG_SET_PEER_BANDWIDTH then st_bind (take_peer_bandwidth payload) (\<lambda>_. st_return None)
     else st_return None)"

definition session_hangup :: "rtmp_error \<Rightarrow> ('x, unit) on_conn option" where
  "session_hangup e = (if is_hangup e then Some (st_return ()) else None)"

definition next_packet_of ::
    "(f64 \<Rightarrow> rstring) \<Rightarrow> rtmp_session \<times> u8 list \<Rightarrow> (stream_packet option result \<times> rtmp_session \<times> u8 list) option" where
  "next_packet_of fmt =
     pump (session_round session_hangup (session_handle_message fmt) (session_handle_message fmt))"

text \<open>What an application may send on either session.\<close>

definition send_shared_object :: "amf0_value shared_object \<Rightarrow> ('x, unit) on_link" where
  "send_shared_object so =
     st_bind (st_lift (to_message_amf0 so 0)) (\<lambda>m. transmit CSID_COMMAND m)"

definition send_call :: "call_command \<Rightarrow> ('x, unit) on_link" where
  "send_call c = transmit CSID_COMMAND (call_to_message c)"

definition reply_call_result :: "f64 \<Rightarrow> amf0_value \<Rightarrow> amf0_value \<Rightarrow> ('x, unit) on_link" where
  "reply_call_result tx_id command_object response =
     transmit CSID_COMMAND (build_call_result tx_id command_object response)"

definition reply_call_error :: "f64 \<Rightarrow> amf0_value \<Rightarrow> amf0_value \<Rightarrow> ('x, unit) on_link" where
  "reply_call_error tx_id command_object response =
     transmit CSID_COMMAND (build_call_error tx_id command_object response)"

definition with_stream_id :: "(u32 \<Rightarrow> ('x, 'a) on_conn) \<Rightarrow> ('x, 'a) on_conn" where
  "with_stream_id f = st_bind st_get_user (\<lambda>c. f (cn_stream_id c))"

definition session_send_stream_dry :: "('x, unit) on_conn" where
  "session_send_stream_dry =
     with_stream_id (\<lambda>sid. transmit CSID_PROTOCOL_CONTROL (build_user_control_stream_dry sid))"

definition session_send_stream_is_recorded :: "('x, unit) on_conn" where
  "session_send_stream_is_recorded =
     with_stream_id (\<lambda>sid. transmit CSID_PROTOCOL_CONTROL (build_user_control_stream_is_recorded sid))"

definition session_send_ping_request :: "u32 \<Rightarrow> ('x, unit) on_conn" where
  "session_send_ping_request ts = transmit CSID_PROTOCOL_CONTROL (build_user_control_ping_request ts)"

definition send_reconnect_request :: "rstring option \<Rightarrow> rstring option \<Rightarrow> ('x, unit) on_conn" where
  "send_reconnect_request tc_url description =
     transmit CSID_COMMAND (build_reconnect_request tc_url description)"

definition session_close :: "(rtmp_session \<times> u8 list, unit) st" where
  "session_close = with_stream_id (\<lambda>sid.
     st_bind (attempt (transmit CSID_PROTOCOL_CONTROL (build_user_control_stream_eof sid))) (\<lambda>_.
     attempt (send_on_status sid (lit ''status'') STATUS_UNPUBLISH_SUCCESS (lit ''Stream closed.''))))"

section \<open>The subscriber's session\<close>

datatype play_event =
    PeCommand netstream_command
  | PeSetBufferLength u32
  | PeCall call_command
  | PeCallReply bool f64 "amf0_value list"
  | PeSharedObject "amf0_value shared_object"

definition send_media :: "u8 \<Rightarrow> u32 \<Rightarrow> u32 \<Rightarrow> u8 list \<Rightarrow> ('x, unit) on_conn" where
  "send_media type_id csid ts payload = with_stream_id (\<lambda>sid.
     transmit csid \<lparr>msg_type_id = type_id, msg_stream_id = sid, msg_timestamp = ts, msg_payload = payload\<rparr>)"

definition play_send_audio :: "u32 \<Rightarrow> audio_tag \<Rightarrow> ('x, unit) on_conn" where
  "play_send_audio ts tag = send_media MSG_AUDIO CSID_AUDIO ts (build_audio tag)"

definition play_send_video :: "u32 \<Rightarrow> video_tag \<Rightarrow> ('x, unit) on_conn" where
  "play_send_video ts tag = send_media MSG_VIDEO CSID_VIDEO ts (build_video tag)"

definition play_send_video_multitrack :: "u32 \<Rightarrow> u8 \<Rightarrow> (u8 \<times> video_tag) list \<Rightarrow> ('x, unit) on_conn" where
  "play_send_video_multitrack ts ty tracks =
     st_bind (st_lift (video_multitrack_from_tags ty tracks)) (\<lambda>tag. play_send_video ts tag)"

definition play_send_audio_multitrack :: "u32 \<Rightarrow> u8 \<Rightarrow> (u8 \<times> audio_tag) list \<Rightarrow> ('x, unit) on_conn" where
  "play_send_audio_multitrack ts ty tracks =
     st_bind (st_lift (audio_multitrack_from_tags ty tracks)) (\<lambda>tag. play_send_audio ts tag)"

definition send_data :: "rstring \<Rightarrow> amf0_value \<Rightarrow> ('x, unit) on_conn" where
  "send_data handler v = with_stream_id (\<lambda>sid. transmit CSID_DATA (build_data_message sid handler v))"

definition play_send_metadata :: "amf0_value \<Rightarrow> ('x, unit) on_conn" where
  "play_send_metadata v = send_data ON_META_DATA v"

definition forward :: "stream_packet \<Rightarrow> (play_session \<times> u8 list, unit) st" where
  "forward packet =
    (case packet of
       SpAudio ts tag \<Rightarrow> play_send_audio ts tag
     | SpVideo ts tag \<Rightarrow> play_send_video ts tag
     | SpMetadata meta \<Rightarrow> play_send_metadata meta
     | SpDataFrame handler v \<Rightarrow> send_data handler v
     | _ \<Rightarrow> st_return ())"

definition send_status :: "rstring \<Rightarrow> rstring \<Rightarrow> ('x, unit) on_conn" where
  "send_status code description =
     with_stream_id (\<lambda>sid. send_on_status sid (lit ''status'') code description)"

definition notify_pause :: "bool \<Rightarrow> ('x, unit) on_conn" where
  "notify_pause paused =
    (if paused then send_status STATUS_PAUSE_NOTIFY (lit ''Pausing'')
     else send_status STATUS_UNPAUSE_NOTIFY (lit ''Unpausing''))"

definition notify_seek :: "('x, unit) on_conn" where
  "notify_seek = send_status STATUS_SEEK_NOTIFY (lit ''Seeking'')"

definition notify_receive_resumed :: "(play_session \<times> u8 list, unit) st" where
  "notify_receive_resumed =
     st_bind (with_stream_id (\<lambda>sid. send_on_status sid (lit ''status'') STATUS_SEEK_NOTIFY (lit ''Seeking''))) (\<lambda>_.
     st_bind st_get_user (\<lambda>s.
     send_on_status (cn_stream_id s) (lit ''status'') STATUS_PLAY_START
       (lit ''Started playing '' @ ps_stream_name s)))"

definition play_send_stream_dry :: "('x, unit) on_conn" where
  "play_send_stream_dry =
     with_stream_id (\<lambda>sid. transmit CSID_PROTOCOL_CONTROL (build_user_control_stream_dry sid))"

definition play_send_ping_request :: "u32 \<Rightarrow> ('x, unit) on_conn" where
  "play_send_ping_request ts = transmit CSID_PROTOCOL_CONTROL (build_user_control_ping_request ts)"

definition classify_command_values :: "amf0_value list \<Rightarrow> (play_session \<times> u8 list, play_event option) st" where
  "classify_command_values values =
    (if is_teardown [''closeStream'', ''deleteStream'', ''close''] values
     then st_bind latch_ended (\<lambda>_. st_return None)
     else st_lift (classify_values PeCommand PeCallReply PeCall values))"

text \<open>\<open>PingRequest\<close> is answered by the same code in \<open>PlaySession\<close> and in \<open>RtmpPlayer\<close>.\<close>

definition answer_ping :: "u32 \<Rightarrow> ('x, unit) on_link" where
  "answer_ping ts = transmit CSID_PROTOCOL_CONTROL (build_user_control_ping_response ts)"

definition handle_user_control :: "u8 list \<Rightarrow> (play_session \<times> u8 list, play_event option) st" where
  "handle_user_control payload =
     st_bind (st_lift (ucm_parse payload)) (\<lambda>ev.
     case ev of
       UcSetBufferLength _ buffer_ms \<Rightarrow> st_return (Some (PeSetBufferLength buffer_ms))
     | UcPingRequest ts \<Rightarrow> st_bind (answer_ping ts) (\<lambda>_. st_return None)
     | _ \<Rightarrow> st_return None)"

definition handle_event_message ::
    "(f64 \<Rightarrow> rstring) \<Rightarrow> message \<Rightarrow> (play_session \<times> u8 list, play_event option) st" where
  "handle_event_message fmt msg =
    (let t = msg_type_id msg; payload = msg_payload msg in
     if is_command msg then st_bind (st_lift (command_values fmt msg)) classify_command_values
     else if is_shared_object msg then
       st_bind (st_lift (parse_shared_object fmt msg)) (\<lambda>so. st_return (Some (PeSharedObject so)))
     else if t = MSG_USER_CONTROL then handle_user_control payload
     else if t = MSG_SET_CHUNK_SIZE then st_bind (take_chunk_size payload) (\<lambda>_. st_return None)
     else if t = MSG_WINDOW_ACK_SIZE then st_bind (take_window_ack_size payload) (\<lambda>_. st_return None)
     else if t = MSG_SET_PEER_BANDWIDTH then st_bind (take_peer_bandwidth payload) (\<lambda>_. st_return None)
     else if t = MSG_AGGREGATE then st_bind (queue_aggregate msg) (\<lambda>_. st_return None)
     else st_return None)"

text \<open>The two arms of \<open>next_event\<close> (and of the client's and the player's loop) that latch the end.\<close>

definition latching_hangup :: "rtmp_error \<Rightarrow> ('x, unit) on_conn option" where
  "latching_hangup e = (if is_hangup e \<or> e = UnexpectedEof then Some latch_ended else None)"

definition next_event ::
    "(f64 \<Rightarrow> rstring) \<Rightarrow> play_session \<times> u8 list \<Rightarrow> (play_event option result \<times> play_session \<times> u8 list) option" where
  "next_event fmt =
     pump (session_round latching_hangup (handle_event_message fmt) (handle_event_message fmt))"

definition play_close :: "(play_session \<times> u8 list, unit) st" where
  "play_close = with_stream_id (\<lambda>sid.
     attempt (transmit CSID_PROTOCOL_CONTROL (build_user_control_stream_eof sid)))"

section \<open>What the dispatch keeps\<close>

lemma keeps_audio [keeps_intro]: "keeps k (st_lift (parse_audio b))"
  by (rule keeps_lift) (auto dest: audio_parse_error)

lemma keeps_video [keeps_intro]: "keeps k (st_lift (parse_video b))"
  by (rule keeps_lift) (auto dest: video_parse_error)

lemma keeps_amf0 [keeps_intro]: "keeps k (st_lift (amf0_decode_all fmt b))"
  using decode_all_safe[of fmt b] by (intro keeps_lift) auto

lemma keeps_amf3 [keeps_intro]: "keeps k (st_lift (decode_message_to_amf0 fmt b))"
  using decode_to_amf0_safe[of fmt b] by (intro keeps_lift) auto

lemma keeps_values [keeps_intro]: "keeps k (st_lift (command_values fmt msg))"
  by (simp add: command_values_def keeps_amf0 keeps_amf3)

lemma keeps_so [keeps_intro]: "keeps k (st_lift (parse_shared_object fmt msg))"
  using parse_shared_object_total by (blast intro: keeps_lift)

lemma ns_parse_error: "ns_parse vs = Inl e \<Longrightarrow> e = InvalidCommand"
  by (auto simp: ns_parse_def ok_or_def Let_def split: option.splits if_splits)

lemma ucm_parse_error: "ucm_parse p = Inl e \<Longrightarrow> e = ProtocolViolation"
  by (auto simp: ucm_parse_def ucm_read_u32_be_def Let_def split: if_splits)

lemma keeps_ucm [keeps_intro]: "keeps k (st_lift (ucm_parse p))"
  by (rule keeps_lift) (auto dest: ucm_parse_error)

lemma keeps_classify [keeps_intro]: "keeps k (st_lift (classify_values f g h vs))"
  by (rule keeps_lift) (auto simp: classify_values_def res_bind_eq_Inl dest: ns_parse_error split: option.splits if_splits)

lemma keeps_queue_return: "keeps (length (msg_payload m)) (st_bind (queue_aggregate m) (\<lambda>_. st_return x))"
  using keeps_bind[OF keeps_aggregate[of m] keeps_return[of 0]] by simp

lemma keeps_data: "keeps k (dispatch_data_values vs)"
  unfolding dispatch_data_values_def store_data_frame_def Let_def
  by (auto intro!: keeps_intro keeps_modify simp: link_ok_def split: option.split data_frame_command.split)

lemma keeps_command: "keeps k (handle_command_values vs)"
  unfolding handle_command_values_def by (intro keeps_intro)

lemma session_handle_keeps: "keeps (length (msg_payload m)) (session_handle_message fmt m)"
  unfolding session_handle_message_def Let_def
  by (intro keeps_queue_return keeps_data keeps_command keeps_intro)

interpretation publisher: session_loop session_hangup "session_handle_message fmt" "session_handle_message fmt" for fmt
  by unfold_locales (simp_all add: session_hangup_def session_handle_keeps)

lemma keeps_event_command: "keeps k (classify_command_values vs)"
  unfolding classify_command_values_def by (intro keeps_intro)

lemma keeps_ping [keeps_intro]: "keeps k (answer_ping ts)"
  unfolding answer_ping_def by (intro keeps_intro)

lemma keeps_event_control: "keeps k (handle_user_control p)"
  unfolding handle_user_control_def
  by (intro keeps_intro) (auto intro!: keeps_intro split: user_control_event.split)

lemma event_handle_keeps: "keeps (length (msg_payload m)) (handle_event_message fmt m)"
  unfolding handle_event_message_def Let_def
  by (intro keeps_queue_return keeps_event_command keeps_event_control keeps_intro)

interpretation subscriber: session_loop latching_hangup "handle_event_message fmt" "handle_event_message fmt" for fmt
  by unfold_locales (simp_all add: latching_hangup_def event_handle_keeps)

end
