(* ===== verification/Client.thy ===== *)
theory Client
  imports Server_Session Decimal
begin

text \<open>
  \<open>client.rs\<close>: the publishing client.

  \<^item> \<open>parse_rtmp_url\<close> and \<open>resolve_tc_url\<close> are the URL functions.
  \<^item> \<open>connect_parsed\<close> is the dialogue after the TCP connection stands: handshake, chunk size,
    \<open>connect\<close>, \<open>releaseStream\<close>, \<open>FCPublish\<close>, \<open>createStream\<close>, \<open>publish\<close>, with
    \<open>wait_for_result\<close> and \<open>wait_for_publish_start\<close> reading the replies.
  \<^item> \<open>rtmp_client\<close> is \<open>RtmpClient\<close> (its \<open>read_eof\<close> is \<open>cn_ended\<close>), with the \<open>send_*\<close> methods and
    \<open>poll_event\<close>, whose dispatch is \<open>classify_message\<close>.

  The transaction counter is a double that only ever counts up by one from 10; it is kept as
  the natural number it holds.  Not modelled: name resolution, the TCP connection and its
  options, the teardown after \<open>closeStream\<close>.
\<close>

section \<open>URLs\<close>

record rtmp_url =
  ru_host :: rstring
  ru_port :: nat
  ru_app :: rstring
  ru_stream_name :: rstring
  ru_tc_url :: rstring

definition authority_parts :: "rstring \<Rightarrow> (rstring \<times> nat) result" where
  "authority_parts authority =
    (case rsplit_at 0x3A authority of
       Some (h, p) \<Rightarrow> (case parse_uint 65535 p of None \<Rightarrow> Inl Other | Some port \<Rightarrow> Inr (h, port))
     | None \<Rightarrow> Inr (authority, 1935))"

definition parse_rtmp_url :: "rstring \<Rightarrow> rtmp_url result" where
  "parse_rtmp_url url =
    (case strip_prefix (lit ''rtmp://'') url of None \<Rightarrow> Inl Other | Some s \<Rightarrow>
     case split_at 0x2F s of None \<Rightarrow> Inl Other | Some (authority, path) \<Rightarrow>
       res_bind (authority_parts authority) (\<lambda>(host, port).
       let (app, stream_name) = (case split_at 0x2F path of Some (a, n) \<Rightarrow> (a, n) | None \<Rightarrow> (path, [])) in
       Inr \<lparr>ru_host = host, ru_port = port, ru_app = app, ru_stream_name = stream_name,
         ru_tc_url = lit ''rtmp://'' @ authority @ lit ''/'' @ app\<rparr>))"

text \<open>\<open>str::find\<close> of a pattern.\<close>

definition find_str :: "rstring \<Rightarrow> rstring \<Rightarrow> nat option" where
  "find_str pat s = find (\<lambda>i. take (length pat) (drop i s) = pat) [0..<Suc (length s)]"

definition SCHEME_SEP :: rstring where "SCHEME_SEP = lit ''://''"

definition resolve_tc_url :: "rstring \<Rightarrow> rstring \<Rightarrow> rstring" where
  "resolve_tc_url base reference =
    (if reference = [] then base
     else if find_str SCHEME_SEP reference \<noteq> None then reference
     else
       let (scheme, after_scheme) = (case find_str SCHEME_SEP base of
             Some i \<Rightarrow> (take i base, drop (i + 3) base) | None \<Rightarrow> (lit ''rtmp'', base)) in
       case strip_prefix (lit ''//'') reference of
         Some net_path \<Rightarrow> scheme @ SCHEME_SEP @ net_path
       | None \<Rightarrow>
         let (authority, base_path) = (case split_at 0x2F after_scheme of
               Some (a, p) \<Rightarrow> (a, 0x2F # p) | None \<Rightarrow> (after_scheme, [])) in
         if take 1 reference = [0x2F] then scheme @ SCHEME_SEP @ authority @ reference
         else
           let dir = (case rsplit_at 0x2F base_path of Some (d, _) \<Rightarrow> d @ [0x2F] | None \<Rightarrow> [0x2F]) in
           scheme @ SCHEME_SEP @ authority @ dir @ reference)"

section \<open>Waiting for replies\<close>

definition f64_eq :: "f64 \<Rightarrow> f64 \<Rightarrow> bool" where
  "f64_eq a b \<longleftrightarrow> f64_le a b \<and> f64_le b a"

definition name_of :: "amf0_value list \<Rightarrow> rstring" where
  "name_of values = unwrap_or [] (arg_as a0_as_str values 0)"

definition result_round :: "(f64 \<Rightarrow> rstring) \<Rightarrow> f64 \<Rightarrow> ('x, amf0_value list option) on_link" where
  "result_round fmt expected_tx =
     st_bind receive (\<lambda>msg.
     st_bind (setup_control msg) (\<lambda>taken.
     if taken \<or> msg_type_id msg \<noteq> MSG_COMMAND_AMF0 then st_return None
     else
       st_bind (st_lift (amf0_decode_all fmt (msg_payload msg))) (\<lambda>values.
       let tx = unwrap_or (f64_of_int (- 1)) (arg_as a0_as_f64 values 1) in
       if name_of values = lit ''_result'' \<and> f64_eq tx expected_tx then st_return (Some values)
       else if name_of values = lit ''_error'' then st_throw Other
       else st_return None)))"

definition wait_for_result :: "(f64 \<Rightarrow> rstring) \<Rightarrow> f64 \<Rightarrow> ('x, amf0_value list) on_link" where
  "wait_for_result fmt expected_tx = st_until (result_round fmt expected_tx)"

definition last_number :: "amf0_value list \<Rightarrow> f64 option" where
  "last_number values = (case List.map_filter a0_as_f64 (rev values) of [] \<Rightarrow> None | n # _ \<Rightarrow> Some n)"

definition wait_for_create_stream_result :: "(f64 \<Rightarrow> rstring) \<Rightarrow> f64 \<Rightarrow> ('x, u32) on_link" where
  "wait_for_create_stream_result fmt expected_tx =
     st_bind (wait_for_result fmt expected_tx) (\<lambda>values.
     st_bind (st_lift (ok_or InvalidCommand (last_number values))) (\<lambda>sid.
     st_return (f64_as_u32 sid)))"

text \<open>\<open>for _ in 0..20\<close>: the budget is part of the code, and running out of it is a success.\<close>

primrec wait_for_publish_start_n :: "(f64 \<Rightarrow> rstring) \<Rightarrow> nat \<Rightarrow> ('x, unit) on_link" where
  "wait_for_publish_start_n fmt 0 = st_return ()"
| "wait_for_publish_start_n fmt (Suc n) = (\<lambda>s. case receive s of
     (Inl e, s') \<Rightarrow> if e = Io IoWouldBlock \<or> e = Io IoTimedOut then (Inr (), s') else (Inl e, s')
   | (Inr msg, s') \<Rightarrow>
       (if msg_type_id msg = MSG_USER_CONTROL then st_return ()
        else if msg_type_id msg = MSG_COMMAND_AMF0 then
          st_bind (st_lift (amf0_decode_all fmt (msg_payload msg))) (\<lambda>values.
          if unwrap_or False (map_option (\<lambda>n. n = lit ''onStatus'' \<or> n = lit ''_result'')
               (arg_as a0_as_str values 0))
          then st_return () else wait_for_publish_start_n fmt n)
        else wait_for_publish_start_n fmt n) s')"

definition wait_for_publish_start :: "(f64 \<Rightarrow> rstring) \<Rightarrow> ('x, unit) on_link" where
  "wait_for_publish_start fmt = wait_for_publish_start_n fmt 20"

definition has_enhanced_rtmp_property :: "connect_capabilities \<Rightarrow> bool" where
  "has_enhanced_rtmp_property caps \<longleftrightarrow> cc_fourcc_list caps \<noteq> [] \<or> fm_entries (cc_video caps) \<noteq> []
     \<or> fm_entries (cc_audio caps) \<noteq> [] \<or> cc_caps_ex caps \<noteq> 0"

fun extract_server_caps :: "amf0_value list \<Rightarrow> connect_capabilities" where
  "extract_server_caps [] = caps_new"
| "extract_server_caps (v # vs) =
    (if (case v of A0Object _ \<Rightarrow> True | A0EcmaArray _ \<Rightarrow> True | _ \<Rightarrow> False)
        \<and> has_enhanced_rtmp_property (caps_from_amf0 v)
     then caps_from_amf0 v else extract_server_caps vs)"

section \<open>Connecting\<close>

record rtmp_client = conn +
  cl_next_tx :: nat
  cl_server_caps :: connect_capabilities
  cl_tc_url :: rstring
  cl_handshake_kind :: handshake_kind

definition CLIENT_CHUNK_SIZE :: u32 where "CLIENT_CHUNK_SIZE = 4096"
definition FLASH_VER :: rstring where "FLASH_VER = lit ''FMLE/3.0 (compatible; oxideav-rtmp)''"

text \<open>Up to the server's answer to \<open>connect\<close>; the player begins the same way.\<close>

definition send_connect ::
    "(f64 \<Rightarrow> rstring) \<Rightarrow> rtmp_url \<Rightarrow> connect_capabilities \<Rightarrow> ('x, connect_capabilities) on_link" where
  "send_connect fmt u caps =
     st_bind (transmit CSID_PROTOCOL_CONTROL (build_set_chunk_size CLIENT_CHUNK_SIZE)) (\<lambda>_.
     st_bind (resize_writer (unat CLIENT_CHUNK_SIZE)) (\<lambda>_.
     st_bind (transmit CSID_COMMAND
       (build_connect_with_caps (f64_of_int 1) (ru_app u) (ru_tc_url u) FLASH_VER caps)) (\<lambda>_.
     st_bind (wait_for_result fmt (f64_of_int 1)) (\<lambda>connect_result.
     st_return (extract_server_caps connect_result)))))"

definition publish_dialogue ::
    "(f64 \<Rightarrow> rstring) \<Rightarrow> rtmp_url \<Rightarrow> rstring \<Rightarrow> connect_capabilities \<Rightarrow> ('x, connect_capabilities \<times> u32) on_link" where
  "publish_dialogue fmt u publish_type caps =
     st_bind (send_connect fmt u caps) (\<lambda>server_caps.
     st_bind (transmit CSID_COMMAND (build_release_stream (f64_of_int 2) (ru_stream_name u))) (\<lambda>_.
     st_bind (transmit CSID_COMMAND (build_fc_publish (f64_of_int 3) (ru_stream_name u))) (\<lambda>_.
     st_bind (transmit CSID_COMMAND (build_create_stream (f64_of_int 4))) (\<lambda>_.
     st_bind (wait_for_create_stream_result fmt (f64_of_int 4)) (\<lambda>stream_id.
     st_bind (transmit CSID_COMMAND
       (build_publish (f64_of_int 5) stream_id (ru_stream_name u) publish_type)) (\<lambda>_.
     st_bind (wait_for_publish_start fmt) (\<lambda>_.
     st_return (server_caps, stream_id))))))))"

text \<open>The handshake a client runs: on the digest path always with \<open>Schema1\<close>.\<close>

definition client_hello :: "bool \<Rightarrow> u32 \<Rightarrow> u32 \<Rightarrow> handshake_kind proc" where
  "client_hello digest_handshake t1 t2 =
    (if digest_handshake then client_handshake_digest t1 t2 Schema1
     else map_proc (\<lambda>_. Simple) (client_handshake t1))"

definition link_new :: "u8 list \<Rightarrow> link" where
  "link_new out = \<lparr>lk_reader = reader_new, lk_writer = writer_new out\<rparr>"

definition connect_parsed ::
    "(f64 \<Rightarrow> rstring) \<Rightarrow> rtmp_url \<Rightarrow> rstring \<Rightarrow> connect_capabilities \<Rightarrow> bool \<Rightarrow> u32 \<Rightarrow> u32 \<Rightarrow> u8 list
     \<Rightarrow> rtmp_client result \<times> link \<times> u8 list" where
  "connect_parsed fmt u publish_type caps digest_handshake t1 t2 inp =
    (case run_proc (client_hello digest_handshake t1 t2) inp of
       (Inl e, out, rest) \<Rightarrow> (Inl e, (link_new out, rest))
     | (Inr kind, out, rest) \<Rightarrow>
         st_bind (publish_dialogue fmt u publish_type caps) (\<lambda>(server_caps, stream_id).
         st_bind st_get_user (\<lambda>l. st_return
           \<lparr>lk_reader = lk_reader l, lk_writer = lk_writer l, cn_stream_id = stream_id,
            cn_ended = False, cn_pending = [], cn_peer_bw = limiter_new, cl_next_tx = 10,
            cl_server_caps = server_caps, cl_tc_url = ru_tc_url u, cl_handshake_kind = kind\<rparr>))
         (link_new out, rest))"

definition client_connect ::
    "(f64 \<Rightarrow> rstring) \<Rightarrow> rstring \<Rightarrow> rstring \<Rightarrow> connect_capabilities \<Rightarrow> bool \<Rightarrow> u32 \<Rightarrow> u32 \<Rightarrow> u8 list
     \<Rightarrow> rtmp_client result \<times> link \<times> u8 list" where
  "client_connect fmt url publish_type caps digest_handshake t1 t2 inp =
    (case parse_rtmp_url url of Inl e \<Rightarrow> (Inl e, (link_new [], inp))
     | Inr u \<Rightarrow> connect_parsed fmt u publish_type caps digest_handshake t1 t2 inp)"

definition resolve_reconnect_url :: "rtmp_client \<Rightarrow> rstring option \<Rightarrow> rstring" where
  "resolve_reconnect_url c tc_url =
    (case tc_url of Some reference \<Rightarrow> resolve_tc_url (cl_tc_url c) reference | None \<Rightarrow> cl_tc_url c)"

end
