(* ===== verification/Client_Session.thy ===== *)
theory Client_Session
  imports Client
begin

text \<open>
  \<open>client.rs\<close> once connected: what \<open>RtmpClient\<close> sends, and \<open>poll_event\<close> with its dispatch.
  The constructors of \<open>client_event\<close> are those of \<open>ClientEvent\<close>.
\<close>

section \<open>Sending\<close>

definition send_video_tag :: "u32 \<Rightarrow> video_tag \<Rightarrow> ('x, unit) on_conn" where
  "send_video_tag ts tag = with_stream_id (\<lambda>sid. transmit CSID_VIDEO
     \<lparr>msg_type_id = MSG_VIDEO, msg_stream_id = sid, msg_timestamp = ts, msg_payload = build_video tag\<rparr>)"

definition avc_tag :: "u8 \<Rightarrow> u8 \<Rightarrow> u8 list \<Rightarrow> video_tag" where
  "avc_tag frame_type avc_packet_type body = \<lparr>vt_frame_type = frame_type, vt_codec_id = VIDEO_CODEC_AVC,
     vt_avc_packet_type = Some avc_packet_type, vt_composition_time = 0, vt_body = body,
     vt_ex_packet_type = None, vt_fourcc = None, vt_mod_ex = [], vt_multitrack = None\<rparr>"

definition send_video_sequence_header :: "u8 list \<Rightarrow> ('x, unit) on_conn" where
  "send_video_sequence_header avc_c =
     send_video_tag 0 (avc_tag VIDEO_FRAME_KEYFRAME AVC_PACKET_TYPE_SEQUENCE_HEADER avc_c)"

definition send_video :: "u32 \<Rightarrow> bool \<Rightarrow> u8 list \<Rightarrow> ('x, unit) on_conn" where
  "send_video ts is_keyframe body = send_video_tag ts
     (avc_tag (if is_keyframe then VIDEO_FRAME_KEYFRAME else VIDEO_FRAME_INTER) AVC_PACKET_TYPE_NALU body)"

definition send_audio_tag :: "u32 \<Rightarrow> audio_tag \<Rightarrow> ('x, unit) on_conn" where
  "send_audio_tag ts tag = with_stream_id (\<lambda>sid. transmit CSID_AUDIO
     \<lparr>msg_type_id = MSG_AUDIO, msg_stream_id = sid, msg_timestamp = ts, msg_payload = build_audio tag\<rparr>)"

definition aac_tag :: "u8 \<Rightarrow> u8 list \<Rightarrow> audio_tag" where
  "aac_tag aac_packet_type body = \<lparr>at_sound_format = AUDIO_FORMAT_AAC, at_sound_rate = 3,
     at_sound_size_16bit = True, at_stereo = True, at_aac_packet_type = Some aac_packet_type,
     at_ex_packet_type = None, at_fourcc = None, at_body = body, at_mod_ex = [], at_multitrack = None\<rparr>"

definition send_audio_sequence_header :: "u8 list \<Rightarrow> ('x, unit) on_conn" where
  "send_audio_sequence_header asc = send_audio_tag 0 (aac_tag AAC_PACKET_TYPE_SEQUENCE_HEADER asc)"

definition send_audio :: "u32 \<Rightarrow> u8 list \<Rightarrow> ('x, unit) on_conn" where
  "send_audio ts aac_frame = send_audio_tag ts (aac_tag AAC_PACKET_TYPE_RAW aac_frame)"

definition send_video_multitrack :: "u32 \<Rightarrow> u8 \<Rightarrow> (u8 \<times> video_tag) list \<Rightarrow> ('x, unit) on_conn" where
  "send_video_multitrack ts ty tracks =
     st_bind (st_lift (video_multitrack_from_tags ty tracks)) (\<lambda>tag. send_video_tag ts tag)"

definition send_audio_multitrack :: "u32 \<Rightarrow> u8 \<Rightarrow> (u8 \<times> audio_tag) list \<Rightarrow> ('x, unit) on_conn" where
  "send_audio_multitrack ts ty tracks =
     st_bind (st_lift (audio_multitrack_from_tags ty tracks)) (\<lambda>tag. send_audio_tag ts tag)"

definition send_metadata :: "amf0_value \<Rightarrow> ('x, unit) on_conn" where
  "send_metadata metadata = with_stream_id (\<lambda>sid. transmit CSID_DATA (build_set_data_frame sid metadata))"

definition send_data_frame :: "rstring \<Rightarrow> amf0_value \<Rightarrow> ('x, unit) on_conn" where
  "send_data_frame handler v =
     with_stream_id (\<lambda>sid. transmit CSID_DATA (build_set_data_frame_named sid handler v))"

definition clear_data_frame :: "rstring \<Rightarrow> ('x, unit) on_conn" where
  "clear_data_frame handler =
     with_stream_id (\<lambda>sid. transmit CSID_DATA (build_clear_data_frame sid handler))"

definition clear_metadata :: "('x, unit) on_conn" where
  "clear_metadata = clear_data_frame ON_META_DATA"

definition metadata_amf3_payload :: "amf3_value \<Rightarrow> u8 list" where
  "metadata_amf3_payload metadata =
     [0x00] @ [0x11] @ amf3_encode (A3String ON_META_DATA) @ [0x11] @ amf3_encode metadata"

definition send_metadata_amf3 :: "amf3_value \<Rightarrow> ('x, unit) on_conn" where
  "send_metadata_amf3 metadata = with_stream_id (\<lambda>sid. transmit CSID_DATA
     \<lparr>msg_type_id = MSG_DATA_AMF3, msg_stream_id = sid, msg_timestamp = 0,
      msg_payload = metadata_amf3_payload metadata\<rparr>)"

definition send_aggregate :: "message list \<Rightarrow> ('x, unit) on_conn" where
  "send_aggregate subs =
    (if subs = [] then st_return ()
     else with_stream_id (\<lambda>sid.
       st_bind (st_lift (build_aggregate sid (map (\<lambda>s. s\<lparr>msg_stream_id := sid\<rparr>) subs))) (\<lambda>agg.
       transmit CSID_DATA agg)))"

definition client_send_ping_request :: "u32 \<Rightarrow> ('x, unit) on_conn" where
  "client_send_ping_request ts = transmit CSID_PROTOCOL_CONTROL (build_user_control_ping_request ts)"

text \<open>
  \<open>next_tx += 1.0\<close> on a double that holds a natural number: exact up to \<open>2^53\<close>, where the sum
  rounds back to \<open>2^53\<close>.
\<close>

definition tx_succ :: "nat \<Rightarrow> nat" where "tx_succ n = min (n + 1) (2 ^ 53)"

definition client_call ::
    "rstring \<Rightarrow> amf0_value \<Rightarrow> amf0_value list \<Rightarrow> bool \<Rightarrow> (rtmp_client \<times> u8 list, f64) st" where
  "client_call procedure command_object arguments expects =
     st_bind st_get_user (\<lambda>c.
     let tx = (if expects then f64_of_nat (cl_next_tx c) else 0) in
     st_bind (modify (\<lambda>c. if expects then c\<lparr>cl_next_tx := tx_succ (cl_next_tx c)\<rparr> else c)) (\<lambda>_.
     st_bind (transmit CSID_COMMAND (build_call procedure tx command_object arguments)) (\<lambda>_.
     st_return tx)))"

definition client_close :: "(rtmp_client \<times> u8 list, unit) st" where
  "client_close =
     st_bind st_get_user (\<lambda>c.
     attempt (transmit CSID_COMMAND (command_message (cn_stream_id c)
       (encode_command (lit ''closeStream'') (f64_of_nat (cl_next_tx c)) A0Null
         [A0Number (f64_of_u32 (cn_stream_id c))]))))"

section \<open>Receiving\<close>

datatype client_event =
    CeStreamBegin u32
  | CeStreamEof u32
  | CeStreamDry u32
  | CeStreamIsRecorded u32
  | CePingResponse u32
  | CeOnStatus rstring rstring rstring
  | CeReconnectRequest "rstring option" rstring
  | CeResult f64 "amf0_value list"
  | CeErrorReply f64 "amf0_value list"
  | CeCall call_command
  | CeSharedObject "amf0_value shared_object"
  | CeOther

definition classify_on_status :: "amf0_value \<Rightarrow> client_event" where
  "classify_on_status info =
    (let level = get_str info ''level''; code = get_str info ''code'';
         description = get_str info ''description'' in
     if code = RECONNECT_REQUEST_CODE \<and> level = lit ''status''
     then CeReconnectRequest (Option.bind (a0_get info (lit ''tcUrl'')) a0_as_str) description
     else CeOnStatus level code description)"

definition classify_command :: "amf0_value list \<Rightarrow> client_event" where
  "classify_command values =
    (let name = name_of values; tx = unwrap_or 0 (arg_as a0_as_f64 values 1) in
     if name = lit ''onStatus'' then
       (case arg values 3 of Some info \<Rightarrow> classify_on_status info | None \<Rightarrow> CeOther)
     else if name = lit ''_result'' then CeResult tx values
     else if name = lit ''_error'' then CeErrorReply tx values
     else if is_reserved_command_name name then CeOther
     else (case call_parse values of Some c \<Rightarrow> CeCall c | None \<Rightarrow> CeOther))"

definition parse_user_control :: "u8 list \<Rightarrow> (u16 \<times> u8 list) result" where
  "parse_user_control buf =
    (if length buf < 2 then Inl ProtocolViolation else Inr (of_be (take 2 buf), drop 2 buf))"

definition ucm_stream_id :: "u8 list \<Rightarrow> u32 result" where
  "ucm_stream_id event_data =
    (if length event_data < 4 then Inl ProtocolViolation else Inr (of_be (take 4 event_data)))"

definition echo_ping :: "u8 list \<Rightarrow> ('x, unit) on_link" where
  "echo_ping ts_bytes =
    (if 4 \<le> length ts_bytes
     then attempt (transmit CSID_PROTOCOL_CONTROL
       (control_message MSG_USER_CONTROL (u16_be USR_PING_RESPONSE @ take 4 ts_bytes)))
     else st_return ())"

definition client_user_control :: "u8 list \<Rightarrow> ('x, client_event) on_link" where
  "client_user_control payload =
     st_bind (st_lift (parse_user_control payload)) (\<lambda>(event_type, event_data).
     if event_type = USR_STREAM_BEGIN then st_lift (res_bind (ucm_stream_id event_data) (\<lambda>s. Inr (CeStreamBegin s)))
     else if event_type = USR_STREAM_EOF then st_lift (res_bind (ucm_stream_id event_data) (\<lambda>s. Inr (CeStreamEof s)))
     else if event_type = USR_STREAM_DRY then st_lift (res_bind (ucm_stream_id event_data) (\<lambda>s. Inr (CeStreamDry s)))
     else if event_type = USR_SET_BUFFER_LENGTH then
       (if length event_data < 8 then st_throw ProtocolViolation else st_return CeOther)
     else if event_type = USR_STREAM_IS_RECORDED then
       st_lift (res_bind (ucm_stream_id event_data) (\<lambda>s. Inr (CeStreamIsRecorded s)))
     else if event_type = USR_PING_REQUEST then st_bind (echo_ping event_data) (\<lambda>_. st_return CeOther)
     else if event_type = USR_PING_RESPONSE then
       (if length event_data < 4 then st_throw ProtocolViolation
        else st_return (CePingResponse (of_be (take 4 event_data))))
     else st_return CeOther)"

definition classify_message :: "(f64 \<Rightarrow> rstring) \<Rightarrow> message \<Rightarrow> ('x, client_event) on_conn" where
  "classify_message fmt msg =
    (let t = msg_type_id msg; payload = msg_payload msg in
     if t = MSG_SET_CHUNK_SIZE then st_bind (take_chunk_size payload) (\<lambda>_. st_return CeOther)
     else if t = MSG_WINDOW_ACK_SIZE then st_bind (take_window_ack_size payload) (\<lambda>_. st_return CeOther)
     else if t = MSG_SET_PEER_BANDWIDTH then st_bind (take_peer_bandwidth payload) (\<lambda>_. st_return CeOther)
     else if t = MSG_ACK then st_return CeOther
     else if t = MSG_USER_CONTROL then client_user_control payload
     else if is_command msg then
       st_bind (st_lift (command_values fmt msg)) (\<lambda>values. st_return (classify_command values))
     else if is_shared_object msg then
       st_bind (st_lift (parse_shared_object fmt msg)) (\<lambda>so. st_return (CeSharedObject so))
     else if t = MSG_AGGREGATE then st_bind (queue_aggregate msg) (\<lambda>_. st_return CeOther)
     else st_return CeOther)"

text \<open>
  \<open>poll_event\<close>: a queued sub-message that is \<open>Other\<close> is skipped, one read from the wire is
  reported; an aggregate from the wire is only queued.
\<close>

definition poll_sub :: "(f64 \<Rightarrow> rstring) \<Rightarrow> message \<Rightarrow> ('x, client_event option) on_conn" where
  "poll_sub fmt sub = st_bind (classify_message fmt sub) (\<lambda>ev.
     st_return (if ev = CeOther then None else Some ev))"

definition poll_wire :: "(f64 \<Rightarrow> rstring) \<Rightarrow> message \<Rightarrow> ('x, client_event option) on_conn" where
  "poll_wire fmt msg =
    (if msg_type_id msg = MSG_AGGREGATE then st_bind (queue_aggregate msg) (\<lambda>_. st_return None)
     else st_bind (classify_message fmt msg) (\<lambda>ev. st_return (Some ev)))"

definition poll_event ::
    "(f64 \<Rightarrow> rstring) \<Rightarrow> rtmp_client \<times> u8 list \<Rightarrow> (client_event option result \<times> rtmp_client \<times> u8 list) option" where
  "poll_event fmt = pump (session_round latching_hangup (poll_sub fmt) (poll_wire fmt))"

section \<open>What the dispatch keeps\<close>

lemma keeps_echo: "keeps k (echo_ping b)"
  unfolding echo_ping_def by (intro keeps_intro)

lemma ucm_stream_id_error: "res_bind (ucm_stream_id b) (\<lambda>s. Inr (f s)) = Inl e \<Longrightarrow> e = ProtocolViolation"
  by (auto simp: ucm_stream_id_def res_bind_eq_Inl split: if_splits)

lemma keeps_ucm_id [keeps_intro]: "keeps k (st_lift (res_bind (ucm_stream_id b) (\<lambda>s. Inr (f s))))"
  by (rule keeps_lift) (auto dest: ucm_stream_id_error)

lemma keeps_user_control [keeps_intro]: "keeps k (st_lift (parse_user_control p))"
  by (rule keeps_lift) (auto simp: parse_user_control_def split: if_splits)

lemma keeps_client_control: "keeps k (client_user_control p)"
  unfolding client_user_control_def by (auto intro!: keeps_intro keeps_echo)

lemma classify_keeps: "keeps (length (msg_payload m)) (classify_message fmt m)"
  unfolding classify_message_def Let_def
  by (intro keeps_queue_return keeps_client_control keeps_intro)

lemma poll_keeps:
  "keeps (length (msg_payload m)) (poll_sub fmt m)" "keeps (length (msg_payload m)) (poll_wire fmt m)"
  unfolding poll_sub_def poll_wire_def
  using keeps_bind[OF classify_keeps keeps_return[of 0], of m fmt]
  by (auto intro!: keeps_queue_return)

interpretation client: session_loop latching_hangup "poll_sub fmt" "poll_wire fmt" for fmt
  by unfold_locales (simp_all add: latching_hangup_def poll_keeps)

end
