(* ===== verification/Player.thy ===== *)
theory Player
  imports Client_Session
begin

text \<open>
  \<open>player.rs\<close>: the subscribing client.  \<open>play_dialogue\<close> is what
  \<open>RtmpPlayer::connect_with_options\<close> says after the handshake, \<open>rtmp_player\<close> is \<open>RtmpPlayer\<close>,
  \<open>player_next_packet\<close> its loop with the dispatch \<open>player_handle_message\<close>.
\<close>

record play_options =
  po_start :: "f64 option"
  po_duration :: "f64 option"
  po_reset :: "bool option"
  po_buffer_length_ms :: "u32 option"
  po_capabilities :: connect_capabilities
  po_digest_handshake :: bool

datatype player_packet =
    PpAudio u32 audio_tag
  | PpVideo u32 video_tag
  | PpMetadata amf0_value
  | PpStatus rstring rstring rstring
  | PpControl user_control_event
  | PpCall call_command
  | PpCallReply bool f64 "amf0_value list"
  | PpSharedObject "amf0_value shared_object"

record rtmp_player = conn +
  pp_tc_url :: rstring
  pp_stream_name :: rstring
  pp_server_caps :: connect_capabilities
  pp_is_recorded :: bool
  pp_next_tx :: nat
  pp_handshake_kind :: handshake_kind

section \<open>Connecting\<close>

definition opt_field :: "amf0_value option \<Rightarrow> string \<Rightarrow> rstring" where
  "opt_field info key = unwrap_or [] (Option.bind (Option.bind info (\<lambda>i. a0_get i (lit key))) a0_as_str)"

text \<open>What a command decides: \<open>Some b\<close> is \<open>return Ok(b)\<close>, \<open>None\<close> keeps waiting.\<close>

definition play_start_command :: "bool \<Rightarrow> amf0_value list \<Rightarrow> bool option result" where
  "play_start_command is_recorded values =
    (if name_of values = lit ''onStatus'' then
       (let code = opt_field (arg values 3) ''code''; level = opt_field (arg values 3) ''level'' in
        if code = STATUS_PLAY_START then Inr (Some is_recorded)
        else if code = STATUS_PLAY_STREAM_NOT_FOUND \<or> level = lit ''error''
        then Inl (Rejected (lit ''play refused: '' @ code @ lit '': '' @ opt_field (arg values 3) ''description''))
        else Inr None)
     else if name_of values = lit ''_error'' then Inl Other
     else Inr None)"

definition play_start_control :: "bool \<Rightarrow> u8 list \<Rightarrow> ('x, bool) on_link" where
  "play_start_control is_recorded payload =
    (case ucm_parse payload of
       Inr (UcStreamIsRecorded _) \<Rightarrow> st_return True
     | Inr (UcPingRequest ts) \<Rightarrow> st_bind (answer_ping ts) (\<lambda>_. st_return is_recorded)
     | _ \<Rightarrow> st_return is_recorded)"

text \<open>\<open>for _ in 0..50\<close>; running out of the budget is \<open>Error::Timeout\<close>.\<close>

primrec wait_for_play_start_n :: "(f64 \<Rightarrow> rstring) \<Rightarrow> nat \<Rightarrow> bool \<Rightarrow> ('x, bool) on_link" where
  "wait_for_play_start_n fmt 0 is_recorded = st_throw Timeout"
| "wait_for_play_start_n fmt (Suc n) is_recorded =
     st_bind receive (\<lambda>msg.
     st_bind (setup_control msg) (\<lambda>taken.
     if taken then wait_for_play_start_n fmt n is_recorded
     else if msg_type_id msg = MSG_USER_CONTROL then
       st_bind (play_start_control is_recorded (msg_payload msg)) (\<lambda>b. wait_for_play_start_n fmt n b)
     else if msg_type_id msg = MSG_COMMAND_AMF0 then
       st_bind (st_lift (amf0_decode_all fmt (msg_payload msg))) (\<lambda>values.
       st_bind (st_lift (play_start_command is_recorded values)) (\<lambda>r.
       case r of Some b \<Rightarrow> st_return b | None \<Rightarrow> wait_for_play_start_n fmt n is_recorded))
     else wait_for_play_start_n fmt n is_recorded))"

definition wait_for_play_start :: "(f64 \<Rightarrow> rstring) \<Rightarrow> ('x, bool) on_link" where
  "wait_for_play_start fmt = wait_for_play_start_n fmt 50 False"

definition play_dialogue ::
    "(f64 \<Rightarrow> rstring) \<Rightarrow> rtmp_url \<Rightarrow> play_options \<Rightarrow> ('x, connect_capabilities \<times> u32 \<times> bool) on_link" where
  "play_dialogue fmt u opts =
     st_bind (send_connect fmt u (po_capabilities opts)) (\<lambda>server_caps.
     st_bind (transmit CSID_COMMAND (build_create_stream (f64_of_int 2))) (\<lambda>_.
     st_bind (wait_for_create_stream_result fmt (f64_of_int 2)) (\<lambda>stream_id.
     st_bind (case po_buffer_length_ms opts of
         Some ms \<Rightarrow> transmit CSID_PROTOCOL_CONTROL (build_user_control_set_buffer_length stream_id ms)
       | None \<Rightarrow> st_return ()) (\<lambda>_.
     st_bind (transmit CSID_COMMAND (ns_to_message
       (NsPlay (ru_stream_name u) (po_start opts) (po_duration opts) (po_reset opts)) stream_id)) (\<lambda>_.
     st_bind (wait_for_play_start fmt) (\<lambda>is_recorded.
     st_return (server_caps, stream_id, is_recorded)))))))"

definition connect_with_options ::
    "(f64 \<Rightarrow> rstring) \<Rightarrow> rstring \<Rightarrow> play_options \<Rightarrow> u32 \<Rightarrow> u32 \<Rightarrow> u8 list
     \<Rightarrow> rtmp_player result \<times> link \<times> u8 list" where
  "connect_with_options fmt url opts t1 t2 inp =
    (case parse_rtmp_url url of Inl e \<Rightarrow> (Inl e, (link_new [], inp)) | Inr u \<Rightarrow>
     case run_proc (client_hello (po_digest_handshake opts) t1 t2) inp of
       (Inl e, out, rest) \<Rightarrow> (Inl e, (link_new out, rest))
     | (Inr kind, out, rest) \<Rightarrow>
         st_bind (play_dialogue fmt u opts) (\<lambda>(server_caps, stream_id, is_recorded).
         st_bind st_get_user (\<lambda>l. st_return
           \<lparr>lk_reader = lk_reader l, lk_writer = lk_writer l, cn_stream_id = stream_id,
            cn_ended = False, cn_pending = [], cn_peer_bw = limiter_new, pp_tc_url = ru_tc_url u,
            pp_stream_name = ru_stream_name u, pp_server_caps = server_caps,
            pp_is_recorded = is_recorded, pp_next_tx = 10, pp_handshake_kind = kind\<rparr>))
         (link_new out, rest))"

section \<open>Playing\<close>

definition classify_status :: "amf0_value list \<Rightarrow> player_packet option" where
  "classify_status values =
    (case arg_as a0_as_str values 0 of None \<Rightarrow> None | Some name \<Rightarrow>
     if name = lit ''_result'' \<or> name = lit ''_error'' then
       Some (PpCallReply (name = lit ''_result'') (unwrap_or 0 (arg_as a0_as_f64 values 1)) values)
     else if name \<noteq> lit ''onStatus'' then
       (if is_reserved_command_name name then None else map_option PpCall (call_parse values))
     else map_option (\<lambda>info. PpStatus (get_str info ''level'') (get_str info ''code'')
         (get_str info ''description'')) (arg values 3))"

definition player_user_control :: "u8 list \<Rightarrow> (rtmp_player \<times> u8 list, player_packet option) st" where
  "player_user_control payload =
     st_bind (st_lift (ucm_parse payload)) (\<lambda>ev.
     case ev of
       UcStreamEof _ \<Rightarrow> st_bind latch_ended (\<lambda>_. st_return None)
     | UcPingRequest ts \<Rightarrow> st_bind (answer_ping ts) (\<lambda>_. st_return None)
     | UcStreamIsRecorded _ \<Rightarrow>
         st_bind (modify (\<lambda>c. c\<lparr>pp_is_recorded := True\<rparr>)) (\<lambda>_. st_return (Some (PpControl ev)))
     | _ \<Rightarrow> st_return (Some (PpControl ev)))"

definition player_handle_message ::
    "(f64 \<Rightarrow> rstring) \<Rightarrow> message \<Rightarrow> (rtmp_player \<times> u8 list, player_packet option) st" where
  "player_handle_message fmt msg =
    (let t = msg_type_id msg; payload = msg_payload msg in
     if t = MSG_AUDIO then
       st_bind (st_lift (parse_audio payload)) (\<lambda>tag. st_return (Some (PpAudio (msg_timestamp msg) tag)))
     else if t = MSG_VIDEO then
       st_bind (st_lift (parse_video payload)) (\<lambda>tag. st_return (Some (PpVideo (msg_timestamp msg) tag)))
     else if t = MSG_DATA_AMF0 then
       st_bind (st_lift (amf0_decode_all fmt payload)) (\<lambda>vs. st_return (map_option PpMetadata (metadata_object vs)))
     else if t = MSG_DATA_AMF3 then
       st_bind (st_lift (decode_message_to_amf0 fmt payload)) (\<lambda>vs. st_return (map_option PpMetadata (metadata_object vs)))
     else if is_command msg then
       st_bind (st_lift (command_values fmt msg)) (\<lambda>vs. st_return (classify_status vs))
     else if is_shared_object msg then
       st_bind (st_lift (parse_shared_object fmt msg)) (\<lambda>so. st_return (Some (PpSharedObject so)))
     else if t = MSG_USER_CONTROL then player_user_control payload
     else if t = MSG_SET_CHUNK_SIZE then st_bind (take_chunk_size payload) (\<lambda>_. st_return None)
     else if t = MSG_WINDOW_ACK_SIZE then st_bind (take_window_ack_size payload) (\<lambda>_. st_return None)
     else if t = MSG_SET_PEER_BANDWIDTH then st_bind (take_peer_bandwidth payload) (\<lambda>_. st_return None)
     else if t = MSG_AGGREGATE then st_bind (queue_aggregate msg) (\<lambda>_. st_return None)
     else st_return None)"

definition player_next_packet ::
    "(f64 \<Rightarrow> rstring) \<Rightarrow> rtmp_player \<times> u8 list \<Rightarrow> (player_packet option result \<times> rtmp_player \<times> u8 list) option" where
  "player_next_packet fmt =
     pump (session_round latching_hangup (player_handle_message fmt) (player_handle_message fmt))"

section \<open>Controlling the stream\<close>

definition send_netstream :: "netstream_command \<Rightarrow> ('x, unit) on_conn" where
  "send_netstream cmd = with_stream_id (\<lambda>sid. transmit CSID_COMMAND (ns_to_message cmd sid))"

definition player_pause :: "f64 \<Rightarrow> ('x, unit) on_conn" where
  "player_pause ms = send_netstream (NsPause True ms)"

definition player_resume :: "f64 \<Rightarrow> ('x, unit) on_conn" where
  "player_resume ms = send_netstream (NsPause False ms)"

definition player_seek :: "f64 \<Rightarrow> ('x, unit) on_conn" where
  "player_seek ms = send_netstream (NsSeek ms)"

definition set_receive_audio :: "bool \<Rightarrow> ('x, unit) on_conn" where
  "set_receive_audio flag = send_netstream (NsReceiveAudio flag)"

definition set_receive_video :: "bool \<Rightarrow> ('x, unit) on_conn" where
  "set_receive_video flag = send_netstream (NsReceiveVideo flag)"

definition player_play ::
    "rstring \<Rightarrow> f64 option \<Rightarrow> f64 option \<Rightarrow> bool option \<Rightarrow> (rtmp_player \<times> u8 list, unit) st" where
  "player_play stream_name start duration reset =
     st_bind (send_netstream (NsPlay stream_name start duration reset)) (\<lambda>_.
     modify (\<lambda>c. c\<lparr>pp_stream_name := stream_name\<rparr>))"

definition player_play2 :: "amf0_value \<Rightarrow> ('x, unit) on_conn" where
  "player_play2 params = send_netstream (NsPlay2 params)"

definition set_buffer_length :: "u32 \<Rightarrow> ('x, unit) on_conn" where
  "set_buffer_length buffer_ms = with_stream_id (\<lambda>sid.
     transmit CSID_PROTOCOL_CONTROL (build_user_control_set_buffer_length sid buffer_ms))"

definition player_call ::
    "rstring \<Rightarrow> amf0_value \<Rightarrow> amf0_value list \<Rightarrow> bool \<Rightarrow> (rtmp_player \<times> u8 list, f64) st" where
  "player_call procedure command_object arguments expects =
     st_bind st_get_user (\<lambda>c.
     let tx = (if expects then f64_of_nat (pp_next_tx c) else 0) in
     st_bind (modify (\<lambda>c. if expects then c\<lparr>pp_next_tx := tx_succ (pp_next_tx c)\<rparr> else c)) (\<lambda>_.
     st_bind (transmit CSID_COMMAND (build_call procedure tx command_object arguments)) (\<lambda>_.
     st_return tx)))"

definition player_close :: "(rtmp_player \<times> u8 list, unit) st" where
  "player_close =
     st_bind st_get_user (\<lambda>c.
     attempt (transmit CSID_COMMAND (command_message (cn_stream_id c)
       (encode_command (lit ''deleteStream'') 0 A0Null [A0Number (f64_of_u32 (cn_stream_id c))]))))"

section \<open>What the dispatch keeps\<close>

lemma keeps_player_control: "keeps k (player_user_control p)"
  unfolding player_user_control_def
  by (intro keeps_intro) (auto intro!: keeps_intro keeps_modify simp: link_ok_def split: user_control_event.split)

lemma player_handle_keeps: "keeps (length (msg_payload m)) (player_handle_message fmt m)"
  unfolding player_handle_message_def Let_def
  by (intro keeps_queue_return keeps_player_control keeps_intro)

interpretation player: session_loop latching_hangup "player_handle_message fmt" "player_handle_message fmt" for fmt
  by unfold_locales (simp_all add: latching_hangup_def player_handle_keeps)

end
