(* ===== verification/Dialogue.thy ===== *)
theory Dialogue
  imports Wire Player
begin

text \<open>
  How a publishing session comes about: what the server's negotiation does with the client's script
  (\<open>negotiate_publish\<close>), what the client does with the server's answers (\<open>conv_publish_dialogue\<close>),
  and the two put together over both handshakes.
\<close>

section \<open>Every round takes bytes off the wire\<close>

lemma shrinks_controls [shrink_intro]:
  "shrinks 0 (take_chunk_size p)" "shrinks 0 (take_window_ack_size p)" "shrinks 0 (resize_writer n)"
  "shrinks 0 (setup_control msg)"
  unfolding take_chunk_size_def take_window_ack_size_def setup_control_def on_reader_def resize_writer_def
  by (auto intro!: shrink_intro)

lemma shrinks_connect_round: "shrinks 1 (connect_round fmt caps)"
  unfolding connect_round_def take_connect_def reply_connect_def Let_def
  by (rule shrinks_bind_first[OF shrinks_receive]) (auto intro!: shrink_intro)

lemma shrinks_request_round: "shrinks 1 (request_round fmt info)"
  unfolding request_round_def request_command_def answer_create_stream_def Let_def
  by (rule shrinks_bind_first[OF shrinks_receive])
    (auto intro!: shrink_intro split: sum.split user_control_event.split)

lemma shrinks_result_round: "shrinks 1 (result_round fmt tx)"
  unfolding result_round_def Let_def
  by (rule shrinks_bind_first[OF shrinks_receive]) (auto intro!: shrink_intro)


section \<open>The server's side\<close>

lemma conv_setup_chunk:
  "n AND 0x7FFFFFFF = n \<Longrightarrow> converses m (setup_control (build_set_chunk_size n)) [Resize (unat n)] [] True m"
  using conv_bind[OF conv_chunk_size[of "u32_be n" n m] conv_return[of m True]]
  by (simp add: setup_control_def control_builders control_message_def)

lemma conv_setup_window: "converses m (setup_control (build_window_ack_size n)) [] [] True m"
  using conv_then[OF conv_window[of "u32_be n" n m] conv_return[of m True]]
  by (simp add: setup_control_def control_builders control_message_def msg_types)

lemma conv_setup_bandwidth: "converses m (setup_control (build_set_peer_bandwidth n k)) [] [] True m"
  using conv_then[OF conv_window[of "take 4 (u32_be n @ [k])" n m] conv_return[of m True]]
  by (simp add: setup_control_def control_builders control_message_def msg_types)

lemma conv_setup_other:
  "msg_type_id msg \<notin> {MSG_SET_CHUNK_SIZE, MSG_WINDOW_ACK_SIZE, MSG_SET_PEER_BANDWIDTH} \<Longrightarrow>
   converses m (setup_control msg) [] [] False m"
  by (simp add: setup_control_def conv_return)

lemma conv_control_round:
  assumes "n AND 0x7FFFFFFF = n" and "\<And>msg. g msg True = st_return None"
  shows "converses m (st_bind receive (\<lambda>msg. st_bind (setup_control msg) (g msg)))
    [ctl_op (build_set_chunk_size n), Resize (unat n)] [] None m"
proof (rule conv_receive_then)
  show "link_op_ok (ctl_op (build_set_chunk_size n))" by (rule op_ok_ctl) simp
  have "converses m (st_bind (setup_control (build_set_chunk_size n)) (g (build_set_chunk_size n)))
      ([Resize (unat n)] @ []) ([] @ []) None m"
    by (rule conv_bind[OF conv_setup_chunk[OF assms(1)]]) (simp add: assms(2) conv_return)
  then show "converses m (st_bind (setup_control (build_set_chunk_size n)) (g (build_set_chunk_size n)))
      [Resize (unat n)] [] None m" by simp
qed

definition reply_ops :: "f64 \<Rightarrow> connect_capabilities \<Rightarrow> link_op list" where
  "reply_ops tx caps = [ctl_op (build_window_ack_size WINDOW_ACK_SIZE),
     ctl_op (build_set_peer_bandwidth WINDOW_ACK_SIZE PEER_BW_LIMIT_DYNAMIC),
     ctl_op (build_user_control_stream_begin 0), cmd_op (build_connect_result_with_caps tx caps),
     ctl_op (build_set_chunk_size SERVER_CHUNK_SIZE), Resize (unat SERVER_CHUNK_SIZE)]"

lemma conv_reply_connect: "converses m (reply_connect tx caps) [] (reply_ops tx caps) () m"
  unfolding reply_connect_def reply_ops_def
  by (intro conv_transmit_then csids_ok conv_resize)

lemma command_type [simp]:
  "msg_type_id (command_message sid p) = MSG_COMMAND_AMF0" "msg_stream_id (command_message sid p) = sid"
  "msg_payload (command_message sid p) = p"
  by (simp_all add: command_message_def)

lemma type_distinct [simp]:
  "MSG_COMMAND_AMF0 \<noteq> MSG_SET_CHUNK_SIZE" "MSG_COMMAND_AMF0 \<noteq> MSG_WINDOW_ACK_SIZE"
  "MSG_COMMAND_AMF0 \<noteq> MSG_SET_PEER_BANDWIDTH" "MSG_COMMAND_AMF0 \<noteq> MSG_USER_CONTROL"
  "MSG_COMMAND_AMF0 \<noteq> MSG_COMMAND_AMF3"
  by (simp_all add: msg_types)

lemma server_connect_chunk:
  "n AND 0x7FFFFFFF = n \<Longrightarrow>
   converses m (connect_round fmt caps) [ctl_op (build_set_chunk_size n), Resize (unat n)] [] None m"
  unfolding connect_round_def by (rule conv_control_round) simp_all

lemma server_connect:
  assumes "caps_fits ccaps" "long_ok app" "long_ok tc_url" "long_ok flash_ver"
    and len: "length (msg_payload (build_connect_with_caps tx app tc_url flash_ver ccaps)) < 2 ^ 24"
  shows "converses m (connect_round fmt scaps) [cmd_op (build_connect_with_caps tx app tc_url flash_ver ccaps)]
    (reply_ops tx scaps) (Some \<lparr>ci_tc_url = tc_url, ci_app = app, ci_capabilities = ccaps\<rparr>) m"
proof -
  let ?msg = "build_connect_with_caps tx app tc_url flash_ver ccaps"
  note dec = connect_decodes[OF assms(1-4)]
  have type: "msg_type_id ?msg = MSG_COMMAND_AMF0" by (simp add: build_connect_with_caps_def)
  let ?obj = "A0Object (encode_into ccaps (connect_pairs app tc_url flash_ver))"
  let ?vs = "[A0String (lit ''connect''), A0Number tx, ?obj]"
  have vs: "command_values fmt ?msg = Inr ?vs" by (simp add: command_values_def type dec(1))
  have "converses m (take_connect scaps ?vs) [] (reply_ops tx scaps)
      \<lparr>ci_tc_url = tc_url, ci_app = app, ci_capabilities = ccaps\<rparr> m"
    unfolding take_connect_def using conv_map[OF conv_reply_connect]
    by (simp add: arg_as_def arg_def a0_as_str_def a0_as_f64_def ok_or_def unwrap_or_def get_str_def dec(2-4))
  note take = conv_map[OF this, of Some]
  show ?thesis
    unfolding connect_round_def
    by (rule conv_receive_then[OF op_ok_cmd[OF len]], rule conv_then[OF conv_setup_other])
      (simp_all add: type is_command_def vs take)
qed

lemma conv_request:
  assumes "length p < 2 ^ 24" and "amf0_decode_all fmt p = Inr vs"
    and "converses m (request_command info (command_message sid p) vs) [] outs r m'"
  shows "converses m (request_round fmt info) [cmd_op (command_message sid p)] outs r m'"
proof -
  have "link_op_ok (cmd_op (command_message sid p))" by (rule op_ok_cmd) (use assms(1) in simp)
  then show ?thesis
    unfolding request_round_def
    by (rule conv_receive_then, intro conv_then[OF conv_setup_other])
      (simp_all add: is_command_def command_values_def assms(2,3))
qed

abbreviation asked :: "u32 \<Rightarrow> u32 option \<Rightarrow> unit negotiation_ext" where
  "asked n b \<equiv> \<lparr>ng_next_stream_id = n, ng_buffer_length_ms = b\<rparr>"

definition plain_result :: "f64 \<Rightarrow> message" where
  "plain_result tx = command_message 0 (encode_command (lit ''_result'') tx A0Null [A0Undefined])"

lemmas value_defs = arg_as_def arg_def a0_as_str_def a0_as_f64_def ok_or_def unwrap_or_def

lemma request_release:
  assumes "long_ok name" and "length (msg_payload (build_release_stream tx name)) < 2 ^ 24"
  shows "converses m (request_round fmt info) [cmd_op (build_release_stream tx name)] [cmd_op (plain_result tx)] None m"
  unfolding build_release_stream_def
proof (rule conv_request)
  show "length (encode_command (lit ''releaseStream'') tx A0Null [A0String name]) < 2 ^ 24"
    using assms(2) by (simp add: build_release_stream_def)
  show "amf0_decode_all fmt (encode_command (lit ''releaseStream'') tx A0Null [A0String name])
      = Inr [A0String (lit ''releaseStream''), A0Number tx, A0Null, A0String name]"
    using command_decodes[of "lit ''releaseStream''" A0Null "[A0String name]"] assms(1)
    by (simp add: lit_ok MAX_DECODE_DEPTH_def)
  show "converses m (request_command info
      (command_message 0 (encode_command (lit ''releaseStream'') tx A0Null [A0String name]))
      [A0String (lit ''releaseStream''), A0Number tx, A0Null, A0String name]) [] [cmd_op (plain_result tx)] None m"
    unfolding request_command_def plain_result_def using conv_map[OF conv_transmit[OF csids_ok(2)]]
    by (simp add: value_defs)
qed

lemma request_fc_publish:
  assumes "long_ok name" and "length (msg_payload (build_fc_publish tx name)) < 2 ^ 24"
  shows "converses m (request_round fmt info) [cmd_op (build_fc_publish tx name)] [cmd_op (plain_result tx)] None m"
  unfolding build_fc_publish_def
proof (rule conv_request)
  show "length (encode_command (lit ''FCPublish'') tx A0Null [A0String name]) < 2 ^ 24"
    using assms(2) by (simp add: build_fc_publish_def)
  show "amf0_decode_all fmt (encode_command (lit ''FCPublish'') tx A0Null [A0String name])
      = Inr [A0String (lit ''FCPublish''), A0Number tx, A0Null, A0String name]"
    using command_decodes[of "lit ''FCPublish''" A0Null "[A0String name]"] assms(1)
    by (simp add: lit_ok MAX_DECODE_DEPTH_def)
  show "converses m (request_command info
      (command_message 0 (encode_command (lit ''FCPublish'') tx A0Null [A0String name]))
      [A0String (lit ''FCPublish''), A0Number tx, A0Null, A0String name]) [] [cmd_op (plain_result tx)] None m"
    unfolding request_command_def plain_result_def using conv_map[OF conv_transmit[OF csids_ok(2)]]
    by (simp add: value_defs)
qed

lemma create_stream_small: "length (msg_payload (build_create_stream tx)) < 2 ^ 24"
  by (simp add: build_create_stream_def encode_command_def lit_def utf8_short_def)

lemma conv_answer_create:
  "converses (asked n b) (answer_create_stream tx) [] [cmd_op (build_create_stream_result tx (f64_of_u32 n))] ()
    (asked (n + 1) b)"
  unfolding answer_create_stream_def Let_def
  by (rule conv_get, simp, rule conv_then, rule conv_modify, simp, rule conv_transmit[OF csids_ok(2)])

lemma request_create_stream:
  "converses (asked n b) (request_round fmt info) [cmd_op (build_create_stream tx)]
    [cmd_op (build_create_stream_result tx (f64_of_u32 n))] None (asked (n + 1) b)"
  unfolding build_create_stream_def
proof (rule conv_request)
  show "length (encode_command (lit ''createStream'') tx A0Null []) < 2 ^ 24"
    using create_stream_small by (simp add: build_create_stream_def)
  show "amf0_decode_all fmt (encode_command (lit ''createStream'') tx A0Null [])
      = Inr [A0String (lit ''createStream''), A0Number tx, A0Null]"
    using command_decodes[of "lit ''createStream''" A0Null "[]"] by (simp add: lit_ok MAX_DECODE_DEPTH_def)
  show "converses (asked n b) (request_command info
      (command_message 0 (encode_command (lit ''createStream'') tx A0Null []))
      [A0String (lit ''createStream''), A0Number tx, A0Null]) []
      [cmd_op (build_create_stream_result tx (f64_of_u32 n))] None (asked (n + 1) b)"
    unfolding request_command_def using conv_map[OF conv_answer_create]
    by (simp add: value_defs)
qed

lemma request_publish:
  assumes "long_ok name" "long_ok ty" and "length (msg_payload (build_publish tx sid name ty)) < 2 ^ 24"
  shows "converses m (request_round fmt info) [cmd_op (build_publish tx sid name ty)] []
    (Some (ReqPublish \<lparr>pr_app = ci_app info, pr_stream_name = name, pr_publish_type = ty,
       pr_tc_url = ci_tc_url info, pr_capabilities = ci_capabilities info, pr_stream_id = max sid 1,
       pr_tx_id = tx\<rparr>)) m"
  unfolding build_publish_def
proof (rule conv_request)
  show "length (encode_command (lit ''publish'') tx A0Null [A0String name, A0String ty]) < 2 ^ 24"
    using assms(3) by (simp add: build_publish_def)
  show "amf0_decode_all fmt (encode_command (lit ''publish'') tx A0Null [A0String name, A0String ty])
      = Inr [A0String (lit ''publish''), A0Number tx, A0Null, A0String name, A0String ty]"
    using command_decodes[of "lit ''publish''" A0Null "[A0String name, A0String ty]"] assms(1,2)
    by (simp add: lit_ok MAX_DECODE_DEPTH_def)
  show "converses m (request_command info
      (command_message sid (encode_command (lit ''publish'') tx A0Null [A0String name, A0String ty]))
      [A0String (lit ''publish''), A0Number tx, A0Null, A0String name, A0String ty]) [] []
      (Some (ReqPublish \<lparr>pr_app = ci_app info, pr_stream_name = name, pr_publish_type = ty,
       pr_tc_url = ci_tc_url info, pr_capabilities = ci_capabilities info, pr_stream_id = max sid 1,
       pr_tx_id = tx\<rparr>)) m"
    unfolding request_command_def by (simp add: value_defs publish_of_def conv_return)
qed

definition publish_script :: "rtmp_url \<Rightarrow> rstring \<Rightarrow> connect_capabilities \<Rightarrow> u32 \<Rightarrow> link_op list" where
  "publish_script u ty caps sid =
    [ctl_op (build_set_chunk_size CLIENT_CHUNK_SIZE), Resize (unat CLIENT_CHUNK_SIZE),
     cmd_op (build_connect_with_caps (f64_of_int 1) (ru_app u) (ru_tc_url u) FLASH_VER caps),
     cmd_op (build_release_stream (f64_of_int 2) (ru_stream_name u)),
     cmd_op (build_fc_publish (f64_of_int 3) (ru_stream_name u)), cmd_op (build_create_stream (f64_of_int 4)),
     cmd_op (build_publish (f64_of_int 5) sid (ru_stream_name u) ty)]"

definition publish_answers :: "connect_capabilities \<Rightarrow> link_op list" where
  "publish_answers caps = reply_ops (f64_of_int 1) caps
     @ [cmd_op (plain_result (f64_of_int 2)), cmd_op (plain_result (f64_of_int 3)),
        cmd_op (build_create_stream_result (f64_of_int 4) (f64_of_u32 1))]"

definition url_ok :: "rtmp_url \<Rightarrow> bool" where
  "url_ok u \<longleftrightarrow> long_ok (ru_app u) \<and> long_ok (ru_tc_url u) \<and> long_ok (ru_stream_name u)"

lemma flash_ver_ok: "long_ok FLASH_VER"
  by (simp add: FLASH_VER_def lit_ok)

lemma chunk_sizes [simp]:
  "CLIENT_CHUNK_SIZE AND 0x7FFFFFFF = CLIENT_CHUNK_SIZE" "SERVER_CHUNK_SIZE AND 0x7FFFFFFF = SERVER_CHUNK_SIZE"
  by (simp_all add: CLIENT_CHUNK_SIZE_def SERVER_CHUNK_SIZE_def)

definition publish_asked :: "rtmp_url \<Rightarrow> rstring \<Rightarrow> connect_capabilities \<Rightarrow> u32 \<Rightarrow> publish_request" where
  "publish_asked u ty caps sid = \<lparr>pr_app = ru_app u, pr_stream_name = ru_stream_name u, pr_publish_type = ty,
     pr_tc_url = ru_tc_url u, pr_capabilities = caps, pr_stream_id = max sid 1, pr_tx_id = f64_of_int 5\<rparr>"

lemma negotiate_publish:
  assumes "url_ok u" "long_ok ty" "caps_fits ccaps" and ok: "ops_ok (publish_script u ty ccaps sid)"
  shows "converses (asked 1 None) (negotiate fmt scaps) (publish_script u ty ccaps sid)
    (publish_answers scaps) (ReqPublish (publish_asked u ty ccaps sid)) (asked 2 None)"
proof -
  let ?info = "\<lparr>ci_tc_url = ru_tc_url u, ci_app = ru_app u, ci_capabilities = ccaps\<rparr>"
  have strs: "long_ok (ru_app u)" "long_ok (ru_tc_url u)" "long_ok (ru_stream_name u)"
    using assms(1) by (simp_all add: url_ok_def)
  have lens: "length (msg_payload (build_connect_with_caps (f64_of_int 1) (ru_app u) (ru_tc_url u) FLASH_VER ccaps)) < 2 ^ 24"
    "length (msg_payload (build_release_stream (f64_of_int 2) (ru_stream_name u))) < 2 ^ 24"
    "length (msg_payload (build_fc_publish (f64_of_int 3) (ru_stream_name u))) < 2 ^ 24"
    "length (msg_payload (build_publish (f64_of_int 5) sid (ru_stream_name u) ty)) < 2 ^ 24"
    using ok by (simp_all add: publish_script_def)
  have 1: "converses m (st_until (connect_round fmt scaps))
      [ctl_op (build_set_chunk_size CLIENT_CHUNK_SIZE), Resize (unat CLIENT_CHUNK_SIZE),
       cmd_op (build_connect_with_caps (f64_of_int 1) (ru_app u) (ru_tc_url u) FLASH_VER ccaps)]
      (reply_ops (f64_of_int 1) scaps) ?info m" for m :: "unit negotiation_ext"
    using conv_until_step[OF shrinks_connect_round server_connect_chunk[OF chunk_sizes(1)]
        conv_until_done[OF shrinks_connect_round server_connect[OF assms(3) strs(1,2) flash_ver_ok lens(1)]]]
    by simp
  note fin = conv_until_done[OF shrinks_request_round request_publish[OF strs(3) assms(2) lens(4)]]
  note step = conv_until_step[OF shrinks_request_round]
  have 2: "converses (asked 1 None) (st_until (request_round fmt ?info))
      [cmd_op (build_release_stream (f64_of_int 2) (ru_stream_name u)),
       cmd_op (build_fc_publish (f64_of_int 3) (ru_stream_name u)), cmd_op (build_create_stream (f64_of_int 4)),
       cmd_op (build_publish (f64_of_int 5) sid (ru_stream_name u) ty)]
      [cmd_op (plain_result (f64_of_int 2)), cmd_op (plain_result (f64_of_int 3)),
        cmd_op (build_create_stream_result (f64_of_int 4) (f64_of_u32 1))]
      (ReqPublish (publish_asked u ty ccaps sid)) (asked 2 None)"
    using step[OF request_release[OF strs(3) lens(2)] step[OF request_fc_publish[OF strs(3) lens(3)]
        step[OF request_create_stream fin]], of 1 None fmt ?info]
    by (simp add: publish_asked_def)
  from conv_bind[OF 1[of "asked 1 None"], of "\<lambda>info. st_until (request_round fmt info)", OF 2] show ?thesis
    by (simp add: negotiate_def publish_script_def publish_answers_def)
qed

section \<open>The client's side\<close>

lemma result_skip_command:
  assumes "length p < 2 ^ 24" and "amf0_decode_all fmt p = Inr (A0String (lit ''_result'') # A0Number t # vs)"
    and "\<not> f64_eq t tx"
  shows "converses m (result_round fmt tx) [cmd_op (command_message sid p)] [] None m"
proof -
  have "link_op_ok (cmd_op (command_message sid p))" by (rule op_ok_cmd) (use assms(1) in simp)
  then show ?thesis
    unfolding result_round_def
    by (rule conv_receive_then, intro conv_then[OF conv_setup_other])
      (simp_all add: assms(2,3) value_defs name_of_def conv_return)
qed

lemma result_hit:
  assumes "length p < 2 ^ 24" and "amf0_decode_all fmt p = Inr (A0String (lit ''_result'') # A0Number t # vs)"
    and "f64_eq t tx"
  shows "converses m (result_round fmt tx) [cmd_op (command_message sid p)] []
    (Some (A0String (lit ''_result'') # A0Number t # vs)) m"
proof -
  have "link_op_ok (cmd_op (command_message sid p))" by (rule op_ok_cmd) (use assms(1) in simp)
  then show ?thesis
    unfolding result_round_def
    by (rule conv_receive_then, intro conv_then[OF conv_setup_other])
      (simp_all add: assms(2,3) value_defs name_of_def conv_return)
qed

lemma result_skip_control:
  "converses m (result_round fmt tx) [ctl_op (build_window_ack_size n)] [] None m"
  "converses m (result_round fmt tx) [ctl_op (build_set_peer_bandwidth n k)] [] None m"
  "converses m (result_round fmt tx) [ctl_op (build_user_control_stream_begin n)] [] None m"
proof -
  have ok: "link_op_ok (ctl_op (build_window_ack_size n))" "link_op_ok (ctl_op (build_set_peer_bandwidth n k))"
    "link_op_ok (ctl_op (build_user_control_stream_begin n))"
    by (rule op_ok_ctl, simp)+
  show "converses m (result_round fmt tx) [ctl_op (build_window_ack_size n)] [] None m"
    unfolding result_round_def
    by (rule conv_receive_then[OF ok(1)], rule conv_then[OF conv_setup_window]) (simp add: conv_return)
  show "converses m (result_round fmt tx) [ctl_op (build_set_peer_bandwidth n k)] [] None m"
    unfolding result_round_def
    by (rule conv_receive_then[OF ok(2)], rule conv_then[OF conv_setup_bandwidth]) (simp add: conv_return)
  have "msg_type_id (build_user_control_stream_begin n) = MSG_USER_CONTROL"
    by (simp add: control_builders control_message_def)
  then show "converses m (result_round fmt tx) [ctl_op (build_user_control_stream_begin n)] [] None m"
    unfolding result_round_def
    by (intro conv_receive_then[OF ok(3)] conv_then[OF conv_setup_other])
      (simp_all add: conv_return msg_types)
qed

lemma result_skip_chunk:
  "n AND 0x7FFFFFFF = n \<Longrightarrow>
   converses m (result_round fmt tx) [ctl_op (build_set_chunk_size n), Resize (unat n)] [] None m"
  unfolding result_round_def by (rule conv_control_round) simp_all

lemma f64_eq_nat: "m < 2 ^ 53 \<Longrightarrow> n < 2 ^ 53 \<Longrightarrow> f64_eq (f64_of_int (int m)) (f64_of_int (int n)) \<longleftrightarrow> m = n"
  by (auto simp: f64_eq_def f64_of_int_def f64_le_of_nat)

lemma f64_tx:
  "f64_eq (f64_of_int 1) (f64_of_int 1)" "f64_eq (f64_of_int 4) (f64_of_int 4)"
  "\<not> f64_eq (f64_of_int 2) (f64_of_int 4)" "\<not> f64_eq (f64_of_int 3) (f64_of_int 4)"
  using f64_eq_nat[of 1 1] f64_eq_nat[of 4 4] f64_eq_nat[of 2 4] f64_eq_nat[of 3 4] by simp_all

definition server_caps_seen :: "connect_capabilities \<Rightarrow> connect_capabilities" where
  "server_caps_seen caps = (if has_enhanced_rtmp_property caps then with_encoding caps else caps_new)"

lemma wait_connect_result:
  assumes "caps_fits caps"
    and len: "length (msg_payload (build_connect_result_with_caps (f64_of_int 1) caps)) < 2 ^ 24"
  shows "converses m (wait_for_result fmt (f64_of_int 1)) (take 4 (reply_ops (f64_of_int 1) caps)) []
    [A0String (lit ''_result''), A0Number (f64_of_int 1), connect_props,
     A0Object (encode_into (with_encoding caps) info_base)] m"
proof -
  let ?vs = "[connect_props, A0Object (encode_into (with_encoding caps) info_base)]"
  let ?p = "msg_payload (build_connect_result_with_caps (f64_of_int 1) caps)"
  have msg: "build_connect_result_with_caps (f64_of_int 1) caps = command_message 0 ?p"
    by (simp add: build_connect_result_with_caps_def command_message_def)
  have hit: "converses m (result_round fmt (f64_of_int 1)) [cmd_op (build_connect_result_with_caps (f64_of_int 1) caps)] []
      (Some (A0String (lit ''_result'') # A0Number (f64_of_int 1) # ?vs)) m"
    by (subst msg, rule result_hit[OF len _ f64_tx(1)]) (simp add: connect_reply_decodes(1)[OF assms(1)])
  note step = conv_until_step[OF shrinks_result_round]
  note all = step[OF result_skip_control(1) step[OF result_skip_control(2) step[OF result_skip_control(3)
        conv_until_done[OF shrinks_result_round hit]]]]
  show ?thesis
    unfolding wait_for_result_def reply_ops_def using all[of WINDOW_ACK_SIZE WINDOW_ACK_SIZE PEER_BW_LIMIT_DYNAMIC 0]
    by simp
qed

lemma seen_caps:
  assumes "caps_fits caps"
  shows "extract_server_caps [A0String n, A0Number t, connect_props,
     A0Object (encode_into (with_encoding caps) info_base)] = server_caps_seen caps"
proof -
  have props: "\<not> has_enhanced_rtmp_property (caps_from_amf0 connect_props)"
    by (simp add: has_enhanced_rtmp_property_def connect_props_def caps_from_amf0_def caps_step_other
        caps_keys_def) (simp add: caps_new_def fm_new_def)
  have "has_enhanced_rtmp_property (with_encoding caps) = has_enhanced_rtmp_property caps"
    by (simp add: has_enhanced_rtmp_property_def with_encoding_def)
  with props show ?thesis
    by (simp add: connect_reply_decodes(2)[OF assms] server_caps_seen_def)
qed

lemma plain_small: "length (encode_command (lit ''_result'') t A0Null [A0Undefined]) < 2 ^ 24"
  by (simp add: encode_command_def lit_def utf8_short_def)

lemma plain_decodes:
  "amf0_decode_all fmt (encode_command (lit ''_result'') t A0Null [A0Undefined])
    = Inr [A0String (lit ''_result''), A0Number t, A0Null, A0Undefined]"
  using command_decodes[of "lit ''_result''" A0Null "[A0Undefined]" fmt t]
  by (simp add: lit_ok MAX_DECODE_DEPTH_def)

lemma create_result_small: "length (encode_command (lit ''_result'') t A0Null [A0Number n]) < 2 ^ 24"
  by (simp add: encode_command_def lit_def utf8_short_def)

lemma create_hit:
  "f64_eq tx tx \<Longrightarrow> converses m (result_round fmt tx) [cmd_op (build_create_stream_result tx (f64_of_u32 sid))] []
    (Some [A0String (lit ''_result''), A0Number tx, A0Null, A0Number (f64_of_u32 sid)]) m"
  unfolding build_create_stream_result_def
  using command_decodes[of "lit ''_result''" A0Null "[A0Number (f64_of_u32 sid)]" fmt tx]
  by (intro result_hit[OF create_result_small]) (simp_all add: lit_ok MAX_DECODE_DEPTH_def)

lemma create_id:
  assumes "converses m (wait_for_result fmt tx) ins [] [A0String (lit ''_result''), A0Number tx, A0Null, A0Number (f64_of_u32 sid)] m"
  shows "converses m (wait_for_create_stream_result fmt tx) ins [] sid m"
proof -
  have number: "last_number [A0String (lit ''_result''), A0Number tx, A0Null, A0Number (f64_of_u32 sid)] = Some (f64_of_u32 sid)"
    by (simp add: last_number_def a0_as_f64_def)
  show ?thesis
    unfolding wait_for_create_stream_result_def
    using conv_bind[OF assms, of "\<lambda>values. st_bind (st_lift (ok_or InvalidCommand (last_number values)))
       (\<lambda>sid. st_return (f64_as_u32 sid))" "[]" "[]" sid m]
    by (simp add: number ok_or_def f64_as_u32_of_u32 conv_return)
qed

lemma wait_create_stream:
  "converses m (wait_for_create_stream_result fmt (f64_of_int 4))
     [ctl_op (build_set_chunk_size SERVER_CHUNK_SIZE), Resize (unat SERVER_CHUNK_SIZE),
      cmd_op (plain_result (f64_of_int 2)), cmd_op (plain_result (f64_of_int 3)),
      cmd_op (build_create_stream_result (f64_of_int 4) (f64_of_u32 sid))] [] sid m"
proof (rule create_id)
  have skip: "converses m (result_round fmt (f64_of_int 4)) [cmd_op (plain_result t)] [] None m"
    if "\<not> f64_eq t (f64_of_int 4)" for t and m :: 'a
    unfolding plain_result_def by (rule result_skip_command[OF plain_small plain_decodes that])
  note step = conv_until_step[OF shrinks_result_round]
  show "converses m (wait_for_result fmt (f64_of_int 4))
     [ctl_op (build_set_chunk_size SERVER_CHUNK_SIZE), Resize (unat SERVER_CHUNK_SIZE),
      cmd_op (plain_result (f64_of_int 2)), cmd_op (plain_result (f64_of_int 3)),
      cmd_op (build_create_stream_result (f64_of_int 4) (f64_of_u32 sid))] []
      [A0String (lit ''_result''), A0Number (f64_of_int 4), A0Null, A0Number (f64_of_u32 sid)] m"
    unfolding wait_for_result_def
    using step[OF result_skip_chunk[OF chunk_sizes(2)] step[OF skip[OF f64_tx(3)] step[OF skip[OF f64_tx(4)]
        conv_until_done[OF shrinks_result_round create_hit[OF f64_tx(2)]]]]] by simp
qed

lemma wait_publish_start:
  "converses m (wait_for_publish_start fmt) [ctl_op (build_user_control_stream_begin n)] [] () m"
proof -
  have ok: "link_op_ok (ctl_op (build_user_control_stream_begin n))" by (rule op_ok_ctl) simp
  have ty: "msg_type_id (build_user_control_stream_begin n) = MSG_USER_CONTROL"
    by (simp add: control_builders control_message_def)
  have "wait_for_publish_start fmt (c, bs) =
     (case receive (c, bs) of (Inl e, s') \<Rightarrow> if e = Io IoWouldBlock \<or> e = Io IoTimedOut then (Inr (), s') else (Inl e, s')
      | (Inr msg, s') \<Rightarrow> (if msg_type_id msg = MSG_USER_CONTROL then (Inr (), s') else
          wait_for_publish_start fmt (c, bs)))"
    if "\<And>msg s. receive (c, bs) = (Inr msg, s) \<Longrightarrow> msg_type_id msg = MSG_USER_CONTROL"
    for c :: "'a link_scheme" and bs
    using that by (auto simp: wait_for_publish_start_def numeral_eq_Suc st_return_def split: prod.splits sum.splits)
  note unf = this
  show ?thesis
  proof (rule conversesI)
    fix r :: chunk_reader and v w :: chunk_writer
    assume l: "linked w r" "1 \<le> cw_chunk_size v"
    obtain r' where r': "\<And>tail. receive (\<lparr>lk_reader = r, lk_writer = v, \<dots> = m\<rparr>,
          wire w [ctl_op (build_user_control_stream_begin n)] @ tail)
       = (Inr (build_user_control_stream_begin n), (\<lparr>lk_reader = r', lk_writer = after v [], \<dots> = m\<rparr>, tail))"
      "linked (after w [ctl_op (build_user_control_stream_begin n)]) r'" "1 \<le> cw_chunk_size (after v [])"
      by (rule conversesE[OF conv_receive[OF ok, of m] l]) blast
    have "wait_for_publish_start fmt (\<lparr>lk_reader = r, lk_writer = v, \<dots> = m\<rparr>,
          wire w [ctl_op (build_user_control_stream_begin n)] @ tail)
        = (Inr (), (\<lparr>lk_reader = r', lk_writer = after v [], \<dots> = m\<rparr>, tail))" for tail
      using r'(1)[of tail] by (subst unf) (use ty in \<open>auto simp del: wire.simps\<close>)
    then show "\<exists>r'. (\<forall>tail. wait_for_publish_start fmt (\<lparr>lk_reader = r, lk_writer = v, \<dots> = m\<rparr>,
          wire w [ctl_op (build_user_control_stream_begin n)] @ tail)
        = (Inr (), (\<lparr>lk_reader = r', lk_writer = after v [], \<dots> = m\<rparr>, tail)))
      \<and> linked (after w [ctl_op (build_user_control_stream_begin n)]) r' \<and> 1 \<le> cw_chunk_size (after v [])"
      using r'(2,3) by blast
  qed
qed

section \<open>Handshakes as programs on the bytes of the peer\<close>

lemma finished_runs:
  assumes "(pstep ^^ n) (p, q, cs, sc) (Done r, Done r', [], [])"
  shows "\<exists>C S. (\<forall>rest. run_proc p (sc @ S @ rest) = (r, C, rest)) \<and> (\<forall>rest. run_proc q (cs @ C @ rest) = (r', S, rest))"
  using assms
proof (induction n arbitrary: p q cs sc)
  case (Suc n)
  obtain t where t: "pstep (p, q, cs, sc) t" "(pstep ^^ n) t (Done r, Done r', [], [])"
    using Suc.prems by (rule relpowp_Suc_E2)
  from t(1) show ?case
  proof (cases rule: pstep.cases)
    case (left_write bs p')
    with Suc.IH t(2) obtain C S where "\<And>rest. run_proc p' (sc @ S @ rest) = (r, C, rest)"
      "\<And>rest. run_proc q ((cs @ bs) @ C @ rest) = (r', S, rest)" by blast
    then show ?thesis using left_write by (intro exI[of _ "bs @ C"] exI[of _ S]) simp
  next
    case (left_recv m k)
    with Suc.IH t(2) obtain C S where "\<And>rest. run_proc (k (take m sc)) (drop m sc @ S @ rest) = (r, C, rest)"
      "\<And>rest. run_proc q (cs @ C @ rest) = (r', S, rest)" by blast
    then show ?thesis using left_recv by (intro exI[of _ C] exI[of _ S]) simp
  next
    case (right_write bs q')
    with Suc.IH t(2) obtain C S where "\<And>rest. run_proc p ((sc @ bs) @ S @ rest) = (r, C, rest)"
      "\<And>rest. run_proc q' (cs @ C @ rest) = (r', S, rest)" by blast
    then show ?thesis using right_write by (intro exI[of _ C] exI[of _ "bs @ S"]) simp
  next
    case (right_recv m k)
    with Suc.IH t(2) obtain C S where "\<And>rest. run_proc p (sc @ S @ rest) = (r, C, rest)"
      "\<And>rest. run_proc (k (take m cs)) (drop m cs @ C @ rest) = (r', S, rest)" by blast
    then show ?thesis using right_recv by (intro exI[of _ C] exI[of _ S]) simp
  qed
qed simp

lemma run_map_proc:
  "run_proc (map_proc f p) inp = (case run_proc p inp of (r, out, rest) \<Rightarrow> (map_sum id f r, out, rest))"
proof (induction p arbitrary: inp)
  case (Done r)
  then show ?case by (cases r) (simp_all)
qed (auto split: prod.split)

definition hello_kind :: "bool \<Rightarrow> handshake_kind" where
  "hello_kind digest = (if digest then Digest Schema1 True else Simple)"

lemma hello_runs:
  assumes "digest \<Longrightarrow> unambiguous (digest_c1 t1 t2 Schema1) Schema1 c1_key"
    and "digest \<Longrightarrow> unambiguous (digest_s1 t3 t4 Schema1) Schema1 s1_key"
  obtains C S where "\<And>rest. run_proc (client_hello digest t1 t2) (S @ rest) = (Inr (hello_kind digest), C, rest)"
    "\<And>rest. run_proc (server_handshake t3 t4) (C @ rest) = (Inr (), S, rest)"
proof (cases digest)
  case True
  from schedule_steps[OF digest_schedule[OF assms(1)[OF True] assms(2)[OF True]]]
  obtain C S where "\<And>rest. run_proc (client_handshake_digest t1 t2 Schema1) ([] @ S @ rest) = (Inr (Digest Schema1 True), C, rest)"
    "\<And>rest. run_proc (server_handshake_negotiated t3 t4) ([] @ C @ rest) = (Inr (Digest Schema1 True), S, rest)"
    using finished_runs by blast
  then show thesis using True by (intro that[of S C]) (simp_all add: client_hello_def server_handshake_def run_map_proc hello_kind_def)
next
  case False
  have "(pstep ^^ 0) (client_handshake t1, server_handshake_negotiated t3 t4, [], [])
      (client_handshake t1, server_handshake_negotiated t3 t4, [], [])" by simp
  from simple_handshake_completes[OF this]
  obtain C S where "\<And>rest. run_proc (client_handshake t1) ([] @ S @ rest) = (Inr (), C, rest)"
    "\<And>rest. run_proc (server_handshake_negotiated t3 t4) ([] @ C @ rest) = (Inr Simple, S, rest)"
    using finished_runs by blast
  then show thesis using False by (intro that[of S C]) (simp_all add: client_hello_def server_handshake_def run_map_proc hello_kind_def)
qed

section \<open>The whole dialogue\<close>

lemma conv_send_connect:
  assumes "caps_fits scaps" and "ops_ok (reply_ops (f64_of_int 1) scaps)"
  shows "converses m (send_connect fmt u ccaps) (take 4 (reply_ops (f64_of_int 1) scaps))
      [ctl_op (build_set_chunk_size CLIENT_CHUNK_SIZE), Resize (unat CLIENT_CHUNK_SIZE),
       cmd_op (build_connect_with_caps (f64_of_int 1) (ru_app u) (ru_tc_url u) FLASH_VER ccaps)] (server_caps_seen scaps) m"
proof -
  have len: "length (msg_payload (build_connect_result_with_caps (f64_of_int 1) scaps)) < 2 ^ 24"
    using assms(2) by (simp add: reply_ops_def)
  show ?thesis
    unfolding send_connect_def
    using conv_map[OF wait_connect_result[OF assms(1) len], where f = extract_server_caps]
    by (intro conv_transmit_then conv_resize_then csids_ok) (simp only: seen_caps[OF assms(1)])
qed

lemma conv_publish_dialogue:
  assumes "caps_fits scaps" and ok: "ops_ok (publish_answers scaps)"
  shows "converses m (publish_dialogue fmt u ty ccaps)
    (publish_answers scaps @ [ctl_op (build_user_control_stream_begin 1)]) (publish_script u ty ccaps 1)
    (server_caps_seen scaps, 1) m"
proof -
  let ?tx = f64_of_int
  have connect: "converses m (send_connect fmt u ccaps) (take 4 (reply_ops (?tx 1) scaps))
      [ctl_op (build_set_chunk_size CLIENT_CHUNK_SIZE), Resize (unat CLIENT_CHUNK_SIZE),
       cmd_op (build_connect_with_caps (?tx 1) (ru_app u) (ru_tc_url u) FLASH_VER ccaps)] (server_caps_seen scaps) m"
    by (rule conv_send_connect[OF assms(1)]) (use ok in \<open>simp add: publish_answers_def\<close>)
  have start: "converses m (st_bind (transmit CSID_COMMAND (build_publish (?tx 5) 1 (ru_stream_name u) ty)) (\<lambda>_.
        st_bind (wait_for_publish_start fmt) (\<lambda>_. st_return (server_caps_seen scaps, 1))))
      [ctl_op (build_user_control_stream_begin 1)] [cmd_op (build_publish (?tx 5) 1 (ru_stream_name u) ty)]
      (server_caps_seen scaps, 1 :: u32) m"
    using conv_map[OF wait_publish_start, where f = "\<lambda>_. (server_caps_seen scaps, 1)"]
    by (intro conv_transmit_then csids_ok)
  note create = conv_bind[OF wait_create_stream, where f = "\<lambda>sid.
     st_bind (transmit CSID_COMMAND (build_publish (?tx 5) sid (ru_stream_name u) ty)) (\<lambda>_.
     st_bind (wait_for_publish_start fmt) (\<lambda>_. st_return (server_caps_seen scaps, sid)))", OF start]
  have "converses m (publish_dialogue fmt u ty ccaps)
      (take 4 (reply_ops (?tx 1) scaps) @
        ([ctl_op (build_set_chunk_size SERVER_CHUNK_SIZE), Resize (unat SERVER_CHUNK_SIZE),
          cmd_op (plain_result (?tx 2)), cmd_op (plain_result (?tx 3)),
          cmd_op (build_create_stream_result (?tx 4) (f64_of_u32 1))]
         @ [ctl_op (build_user_control_stream_begin 1)]))
      ([ctl_op (build_set_chunk_size CLIENT_CHUNK_SIZE), Resize (unat CLIENT_CHUNK_SIZE),
        cmd_op (build_connect_with_caps (?tx 1) (ru_app u) (ru_tc_url u) FLASH_VER ccaps)]
       @ cmd_op (build_release_stream (?tx 2) (ru_stream_name u))
       # cmd_op (build_fc_publish (?tx 3) (ru_stream_name u)) # cmd_op (build_create_stream (?tx 4))
       # ([] @ [cmd_op (build_publish (?tx 5) 1 (ru_stream_name u) ty)])) (server_caps_seen scaps, 1) m"
    unfolding publish_dialogue_def
    by (rule conv_bind[OF connect], intro conv_transmit_then csids_ok create)
  then show ?thesis
    by (simp add: publish_answers_def reply_ops_def publish_script_def)
qed


definition accept_ops :: "publish_request \<Rightarrow> link_op list" where
  "accept_ops req = [ctl_op (build_user_control_stream_begin (pr_stream_id req)),
     cmd_op (build_on_status (pr_stream_id req) (lit ''status'') STATUS_PUBLISH_START
       (lit ''Started publishing '' @ pr_stream_name req))]"

lemma publish_accept_run:
  assumes "1 \<le> cw_chunk_size (lk_writer c)"
  shows "publish_accept req (c, bs) = (Inr
     \<lparr>lk_reader = lk_reader c, lk_writer = after (lk_writer c) (accept_ops req), cn_stream_id = pr_stream_id req,
      cn_ended = False, cn_pending = [], cn_peer_bw = limiter_new, rs_app = pr_app req,
      rs_stream_name = pr_stream_name req, rs_publish_type = pr_publish_type req, rs_data_frames = []\<rparr>,
     (c\<lparr>lk_writer := after (lk_writer c) (accept_ops req)\<rparr>, bs))"
  using assms
  by (simp add: publish_accept_def send_on_status_def accept_ops_def st_bind_def transmit_run csids_ok
      write_message_after st_get_user_def st_return_def)

definition started :: "rtmp_url \<Rightarrow> message" where
  "started u = build_on_status 1 (lit ''status'') STATUS_PUBLISH_START
     (lit ''Started publishing '' @ ru_stream_name u)"

text \<open>
  What the parties bring: strings that are UTF-8 and short enough to encode, and no message longer than a
  chunk header can say.
\<close>

definition dialogue_fits ::
    "rtmp_url \<Rightarrow> rstring \<Rightarrow> connect_capabilities \<Rightarrow> connect_capabilities \<Rightarrow> bool" where
  "dialogue_fits u ty ccaps scaps \<longleftrightarrow> url_ok u \<and> long_ok ty \<and> caps_fits ccaps \<and> caps_fits scaps
     \<and> ops_ok (publish_script u ty ccaps 1) \<and> ops_ok (publish_answers scaps) \<and> link_op_ok (cmd_op (started u))"

definition digest_clear :: "bool \<Rightarrow> u32 \<Rightarrow> u32 \<Rightarrow> u32 \<Rightarrow> u32 \<Rightarrow> bool" where
  "digest_clear digest t1 t2 t3 t4 \<longleftrightarrow> (if digest then unambiguous (digest_c1 t1 t2 Schema1) Schema1 c1_key
     \<and> unambiguous (digest_s1 t3 t4 Schema1) Schema1 s1_key else True)"

text \<open>
  Two programs that answer each other, run after the handshakes: \<open>answers\<close> is what the server has said when
  it returns, \<open>said\<close> what it says next and the client still waits for.
\<close>

lemma meet:
  assumes clear: "digest_clear digest t1 t2 t3 t4"
    and client: "converses () p (answers @ said) script x ()"
    and server: "converses (asked 1 None) q script answers y (asked n b)"
    and ok: "ops_ok script" "ops_ok (answers @ said)"
  obtains C S r r2 where "\<And>rest. run_proc (client_hello digest t1 t2) (S @ rest) = (Inr (hello_kind digest), C, rest)"
    "\<And>rest. run_proc (server_handshake t3 t4) (C @ rest) = (Inr (), S, rest)"
    "\<And>more. p (link_new C, wire (writer_new S) (answers @ said) @ more)
       = (Inr x, (\<lparr>lk_reader = r, lk_writer = after (writer_new C) script\<rparr>, more))"
    "\<And>more. q (negotiation_new S, wire (writer_new C) script @ more)
       = (Inr y, (\<lparr>lk_reader = r2, lk_writer = after (writer_new S) answers, ng_next_stream_id = n,
           ng_buffer_length_ms = b\<rparr>, more))"
    "linked (after (writer_new S) (answers @ said)) r" "linked (after (writer_new C) script) r2"
    "cw_stream (after (writer_new C) script) = C @ wire (writer_new C) script"
    "cw_stream (after (writer_new S) (answers @ said)) = S @ wire (writer_new S) (answers @ said)"
    "1 \<le> cw_chunk_size (after (writer_new S) answers)"
proof -
  obtain C S where c: "\<And>rest. run_proc (client_hello digest t1 t2) (S @ rest) = (Inr (hello_kind digest), C, rest)"
    and s: "\<And>rest. run_proc (server_handshake t3 t4) (C @ rest) = (Inr (), S, rest)"
    by (rule hello_runs[of digest t1 t2 t3 t4]) (use clear in \<open>auto simp: digest_clear_def\<close>)
  have new: "1 \<le> cw_chunk_size (writer_new C)" "1 \<le> cw_chunk_size (writer_new S)"
    by (simp_all add: writer_new_def DEFAULT_CHUNK_SIZE_def)
  obtain r where r: "\<And>more. p (\<lparr>lk_reader = reader_new, lk_writer = writer_new C\<rparr>, wire (writer_new S) (answers @ said) @ more)
      = (Inr x, (\<lparr>lk_reader = r, lk_writer = after (writer_new C) script\<rparr>, more))"
    "linked (after (writer_new S) (answers @ said)) r"
    by (rule conversesE[OF client linked_new new(1)]) blast
  obtain r2 where r2: "\<And>more. q (negotiation_new S, wire (writer_new C) script @ more)
      = (Inr y, (\<lparr>lk_reader = r2, lk_writer = after (writer_new S) answers, ng_next_stream_id = n,
          ng_buffer_length_ms = b\<rparr>, more))"
    "linked (after (writer_new C) script) r2" "1 \<le> cw_chunk_size (after (writer_new S) answers)"
    unfolding negotiation_new_def by (rule conversesE[OF server linked_new new(2)]) blast
  have start: "cw_stream (writer_new w) = w" for w by (simp add: writer_new_def)
  show thesis
    by (rule that[OF c s r(1)[folded link_new_def] r2(1) r(2) r2(2) _ _ r2(3)])
      (use after_stream[OF ok(1) new(1)] after_stream[OF ok(2) new(2)] in \<open>simp_all add: start\<close>)
qed

text \<open>
  A publishing session is established: each side has read exactly what the other has written, but for the
  server's last message, which is still on its way, and whatever the client writes next.
\<close>

lemma publishing_established:
  assumes fits: "dialogue_fits u ty ccaps scaps" and clear: "digest_clear digest t1 t2 t3 t4"
  shows "\<exists>client session l ng ng' heard unheard client'.
      (\<forall>more. connect_parsed fmt u ty ccaps digest t1 t2 (heard @ more) = (Inr client, (l, more)))
    \<and> (\<forall>more. drive_until_request fmt scaps t3 t4 (cw_stream (lk_writer client) @ more)
          = (Inr (ReqPublish (publish_asked u ty ccaps 1)), (ng, more))
        \<and> publish_accept (publish_asked u ty ccaps 1) (ng, more) = (Inr session, (ng', more)))
    \<and> cw_stream (lk_writer session) = heard @ unheard
    \<and> cn_stream_id client = 1 \<and> cn_stream_id session = 1 \<and> cl_next_tx client = 10
    \<and> rs_app session = ru_app u \<and> rs_stream_name session = ru_stream_name u \<and> rs_publish_type session = ty
    \<and> cn_pending session = [] \<and> \<not> cn_ended session \<and> rs_data_frames session = []
    \<and> cl_handshake_kind client = hello_kind digest \<and> cl_server_caps client = server_caps_seen scaps
    \<and> receive (client, unheard) = (Inr (started u), (client', []))
    \<and> linked (lk_writer client) (lk_reader session) \<and> linked (lk_writer session) (lk_reader client')
    \<and> cn_pending client = [] \<and> \<not> cn_ended client
    \<and> (\<exists>w. linked w (lk_reader client) \<and> unheard = write_bytes w CSID_COMMAND (started u)
         \<and> lk_writer session = write_after w CSID_COMMAND (started u))"
proof -
  let ?script = "publish_script u ty ccaps 1" and ?started0 = "ctl_op (build_user_control_stream_begin 1)"
  let ?req = "publish_asked u ty ccaps 1" and ?answers = "publish_answers scaps"
  have fine: "url_ok u" "long_ok ty" "caps_fits ccaps" "caps_fits scaps" "ops_ok ?script"
    "ops_ok ?answers" "link_op_ok (cmd_op (started u))"
    using fits by (simp_all add: dialogue_fits_def)
  have said: "ops_ok (?answers @ [?started0])"
    using fine(6) op_ok_ctl[of "build_user_control_stream_begin 1"] by simp
  obtain C S r q where c: "\<And>rest. run_proc (client_hello digest t1 t2) (S @ rest) = (Inr (hello_kind digest), C, rest)"
    and s: "\<And>rest. run_proc (server_handshake t3 t4) (C @ rest) = (Inr (), S, rest)"
    and pd: "\<And>more. publish_dialogue fmt u ty ccaps (link_new C, wire (writer_new S) (?answers @ [?started0]) @ more)
      = (Inr (server_caps_seen scaps, 1), (\<lparr>lk_reader = r, lk_writer = after (writer_new C) ?script\<rparr>, more))"
    and ng: "\<And>more. negotiate fmt scaps (negotiation_new S, wire (writer_new C) ?script @ more)
      = (Inr (ReqPublish ?req), (\<lparr>lk_reader = q, lk_writer = after (writer_new S) ?answers,
          ng_next_stream_id = 2, ng_buffer_length_ms = None\<rparr>, more))"
    and r: "linked (after (writer_new S) (?answers @ [?started0])) r" and q: "linked (after (writer_new C) ?script) q"
    and sent: "cw_stream (after (writer_new C) ?script) = C @ wire (writer_new C) ?script"
    and answered: "cw_stream (after (writer_new S) (?answers @ [?started0])) = S @ wire (writer_new S) (?answers @ [?started0])"
    and v: "1 \<le> cw_chunk_size (after (writer_new S) ?answers)"
    by (rule meet[OF clear conv_publish_dialogue[OF fine(4,6), where fmt = fmt]
          negotiate_publish[OF fine(1,2,3,5), where fmt = fmt] fine(5) said]) blast
  let ?c = "\<lparr>lk_reader = r, lk_writer = after (writer_new C) ?script\<rparr>"
  let ?ng = "\<lparr>lk_reader = q, lk_writer = after (writer_new S) ?answers, ng_next_stream_id = 2,
    ng_buffer_length_ms = None\<rparr>"
  let ?w = "after (writer_new S) (?answers @ [?started0])"
  let ?heard = "S @ wire (writer_new S) (?answers @ [?started0])" and ?unheard = "write_bytes ?w CSID_COMMAND (started u)"
  have accept: "after (after (writer_new S) ?answers) (accept_ops ?req) = write_after ?w CSID_COMMAND (started u)"
    by (simp add: accept_ops_def publish_asked_def started_def after_append)
  have out: "cw_stream (write_after ?w CSID_COMMAND (started u)) = ?heard @ ?unheard"
    using write_message_after(2)[OF csids_ok(2) linked_chunk[OF r]] answered by simp
  obtain r' where hear: "\<And>tail. read_message (r, ?unheard @ tail) = (Inr (started u), (r', tail))"
    and r': "linked (write_after ?w CSID_COMMAND (started u)) r'"
    by (rule read_written[of CSID_COMMAND "started u"]) (use fine(7) r in auto)
  let ?client = "\<lparr>lk_reader = r, lk_writer = after (writer_new C) ?script, cn_stream_id = 1, cn_ended = False,
    cn_pending = [], cn_peer_bw = limiter_new, cl_next_tx = 10, cl_server_caps = server_caps_seen scaps,
    cl_tc_url = ru_tc_url u, cl_handshake_kind = hello_kind digest\<rparr>"
  have client: "connect_parsed fmt u ty ccaps digest t1 t2 (?heard @ more) = (Inr ?client, (?c, more))" for more
    using c pd[of more] by (simp add: connect_parsed_def st_bind_def st_get_user_def st_return_def)
  have server: "drive_until_request fmt scaps t3 t4 (cw_stream (lk_writer ?client) @ more)
      = (Inr (ReqPublish ?req), (?ng, more))" for more
    using s ng by (simp add: drive_until_request_def sent)
  have heard: "receive (?client, ?unheard) = (Inr (started u), (?client\<lparr>lk_reader := r'\<rparr>, []))"
    using hear[of "[]"] by (simp add: receive_def)
  let ?session = "\<lparr>lk_reader = q, lk_writer = write_after ?w CSID_COMMAND (started u), cn_stream_id = 1, cn_ended = False,
    cn_pending = [], cn_peer_bw = limiter_new, rs_app = ru_app u, rs_stream_name = ru_stream_name u,
    rs_publish_type = ty, rs_data_frames = []\<rparr>"
  have accepted: "publish_accept ?req (?ng, more) =
      (Inr ?session, (?ng\<lparr>lk_writer := write_after ?w CSID_COMMAND (started u)\<rparr>, more))" for more
    using publish_accept_run[of ?ng ?req more] v accept by (simp add: publish_asked_def)
  have last: "\<exists>w. linked w (lk_reader ?client) \<and> ?unheard = write_bytes w CSID_COMMAND (started u)
      \<and> lk_writer ?session = write_after w CSID_COMMAND (started u)"
    using r by (intro exI[of _ ?w]) simp
  show ?thesis
    using client server heard accepted q r' out last
    by (intro exI[of _ ?client] exI[of _ ?session] exI[of _ ?c] exI[of _ ?ng]
        exI[of _ "?ng\<lparr>lk_writer := write_after ?w CSID_COMMAND (started u)\<rparr>"] exI[of _ ?heard] exI[of _ ?unheard]
        exI[of _ "?client\<lparr>lk_reader := r'\<rparr>"]) simp
qed

definition sample_url :: rtmp_url where
  "sample_url = \<lparr>ru_host = lit ''h'', ru_port = 1935, ru_app = lit ''live'', ru_stream_name = lit ''cam'',
     ru_tc_url = lit ''rtmp://h/live''\<rparr>"

lemma sample_url_parses: "parse_rtmp_url (lit ''rtmp://h/live/cam'') = Inr sample_url"
  by code_simp

lemma caps_new_fits: "caps_fits caps_new"
  by (simp add: caps_new_def caps_fits_def caps_ok_def fm_ok_def fm_new_def)

lemmas dialogue_sizes = publish_script_def publish_answers_def reply_ops_def started_def csids_ok
  build_connect_with_caps_def build_release_stream_def build_fc_publish_def build_create_stream_def build_publish_def
  build_on_status_def plain_result_def build_create_stream_result_def build_connect_result_with_caps_def
  encode_command_def connect_info_encoded

lemma sample_fits: "dialogue_fits sample_url (lit ''live'') caps_new caps_new"
proof -
  have "url_ok sample_url" "long_ok (lit ''live'')"
    by (simp_all add: url_ok_def sample_url_def lit_ok)
  moreover have "ops_ok (publish_script sample_url (lit ''live'') caps_new 1)"
    by (simp add: dialogue_sizes)
      (simp add: sample_url_def lit_def utf8_short_def connect_pairs_def encode_into_def caps_new_def fm_new_def FLASH_VER_def
        num_def str_def)
  moreover have "ops_ok (publish_answers caps_new)"
    by (simp add: dialogue_sizes)
      (simp add: sample_url_def lit_def utf8_short_def connect_pairs_def encode_into_def caps_new_def fm_new_def FLASH_VER_def
        num_def str_def with_encoding_def connect_props_def info_base_def)
  moreover have "link_op_ok (cmd_op (started sample_url))"
    by (simp add: dialogue_sizes)
      (simp add: sample_url_def lit_def utf8_short_def STATUS_PUBLISH_START_def)
  ultimately show ?thesis by (simp add: dialogue_fits_def caps_new_fits)
qed

section \<open>A reply without a stream id\<close>

text \<open>
  C19. \<open>wait_for_create_stream_result\<close> looks for the last number of the reply, and the transaction id it has just matched is one.
\<close>

theorem missing_stream_id_unreported:
  "converses m (wait_for_create_stream_result fmt (f64_of_int 4)) [cmd_op (plain_result (f64_of_int 4))] [] 4 m"
proof -
  have hit: "converses m (wait_for_result fmt (f64_of_int 4)) [cmd_op (plain_result (f64_of_int 4))] []
      [A0String (lit ''_result''), A0Number (f64_of_int 4), A0Null, A0Undefined] m"
    unfolding wait_for_result_def plain_result_def
    by (rule conv_until_done[OF shrinks_result_round result_hit[OF plain_small plain_decodes f64_tx(2)]])
  have n: "last_number [A0String (lit ''_result''), A0Number (f64_of_int 4), A0Null, A0Undefined] = Some (f64_of_u32 4)"
    by (simp add: last_number_def a0_as_f64_def f64_of_u32_def f64_of_int_def)
  show ?thesis
    unfolding wait_for_create_stream_result_def
    using conv_bind[OF hit, where f = "\<lambda>values. st_bind (st_lift (ok_or InvalidCommand (last_number values)))
       (\<lambda>sid. st_return (f64_as_u32 sid))", OF _] conv_return[of m 4]
    by (simp add: n ok_or_def f64_as_u32_of_u32 conv_return)
qed

end
