(* ===== verification/Safety.thy ===== *)
theory Safety
  imports Dialogue
begin

text \<open>
  Every session on any input.  \<open>sound p\<close> says that a routine on a link keeps the reader and the writer
  well formed and neither panics nor runs out of fuel, whatever the peer sends; the negotiations of
  the server, the client and the player are sound, and what they hand over starts a session whose loop
  always returns (\<open>session_loop.pump_returns\<close>).
\<close>

section \<open>Soundness on a link\<close>

abbreviation "lok \<equiv> \<lambda>s. link_ok (fst s)"

definition sound :: "('x, 'a) on_link \<Rightarrow> bool" where
  "sound p \<longleftrightarrow> hoare lok p (\<lambda>_. lok) lok"

named_theorems sound_intro \<open>routines that keep a link well formed\<close>

lemma sound_bind [sound_intro]: "sound p \<Longrightarrow> (\<And>x. sound (f x)) \<Longrightarrow> sound (st_bind p f)"
  unfolding sound_def by (rule hoare_bind)

lemma sound_return [sound_intro]: "sound (st_return x)"
  unfolding sound_def by (rule hoare_return)

lemma sound_throw [sound_intro]: "e \<noteq> Panic \<Longrightarrow> e \<noteq> OutOfFuel \<Longrightarrow> sound (st_throw e)"
  unfolding sound_def by (rule hoare_throw)

lemma sound_lift [sound_intro]: "x \<noteq> Inl Panic \<Longrightarrow> x \<noteq> Inl OutOfFuel \<Longrightarrow> sound (st_lift x)"
  by (cases x) (simp_all add: sound_intro)

lemma sound_if [sound_intro]: "sound p \<Longrightarrow> sound q \<Longrightarrow> sound (if b then p else q)"
  by simp

lemma sound_option [sound_intro]:
  "sound p \<Longrightarrow> (\<And>x. sound (f x)) \<Longrightarrow> sound (case z of None \<Rightarrow> p | Some x \<Rightarrow> f x)"
  by (cases z) auto

lemma sound_get [sound_intro]: "(\<And>c. sound (f c)) \<Longrightarrow> sound (st_bind st_get_user f)"
  unfolding sound_def hoare_def st_bind_def st_get_user_def by auto

lemma sound_modify [sound_intro]: "(\<And>c. link_ok c \<Longrightarrow> link_ok (f c)) \<Longrightarrow> sound (modify f)"
  by (auto simp: sound_def hoare_def modify_def)

lemma sound_until: "shrinks 1 p \<Longrightarrow> sound p \<Longrightarrow> sound (st_until p)"
  unfolding sound_def by (rule hoare_until) (auto elim!: hoare_weaken split: option.split)

lemma sound_receive [sound_intro]: "sound receive"
  unfolding sound_def
proof (rule hoareI)
  fix s :: "'a link_scheme \<times> u8 list"
  assume "link_ok (fst s)"
  moreover obtain r c' bs' where "receive s = (r, (c', bs'))" by (metis surj_pair)
  ultimately show "case receive s of (Inr x, s') \<Rightarrow> link_ok (fst s')
      | (Inl e, s') \<Rightarrow> e \<noteq> Panic \<and> e \<noteq> OutOfFuel \<and> link_ok (fst s')"
    using receive_run(1,3,4)[of "fst s" "snd s" r c' bs'] by (cases r) auto
qed

lemma sound_transmit [sound_intro]: "csid_ok csid \<Longrightarrow> sound (transmit csid m)"
  by (auto simp: sound_def hoare_def transmit_run link_ok_def write_message_after(3)[unfolded One_nat_def])

lemma sound_resize [sound_intro]: "sound (resize_writer n)"
  unfolding resize_writer_def
  by (rule sound_modify) (simp add: link_ok_def writer_set_chunk_size_def clamp_bounds[unfolded One_nat_def])

lemma sound_controls [sound_intro]:
  "sound (take_chunk_size p)" "sound (take_window_ack_size p)" "sound (setup_control msg)"
proof -
  show c: "sound (take_chunk_size p)" and w: "sound (take_window_ack_size p)" for p
    unfolding take_chunk_size_def take_window_ack_size_def on_reader_def
    by (intro sound_intro payload_u32_be_total, simp add: link_ok_def)+
  show "sound (setup_control msg)"
    unfolding setup_control_def by (intro sound_intro c w)
qed

lemma ok_or_error: "x \<noteq> None \<or> e \<noteq> Panic \<and> e \<noteq> OutOfFuel \<Longrightarrow> ok_or e x \<noteq> Inl Panic \<and> ok_or e x \<noteq> Inl OutOfFuel"
  by (cases x) (auto simp: ok_or_def)

lemma sound_ok_or [sound_intro]: "e \<noteq> Panic \<Longrightarrow> e \<noteq> OutOfFuel \<Longrightarrow> sound (st_lift (ok_or e x))"
  using ok_or_error[of x e] by (intro sound_lift) auto

lemma sound_decode [sound_intro]: "sound (st_lift (amf0_decode_all fmt b))"
  using decode_all_safe[of fmt b] by (intro sound_lift) auto

lemma sound_values [sound_intro]: "sound (st_lift (command_values fmt msg))"
  using decode_all_safe[of fmt "msg_payload msg"] decode_to_amf0_safe[of fmt "msg_payload msg"]
  by (intro sound_lift) (auto simp: command_values_def)

section \<open>The negotiations\<close>

lemma sound_connect_round [sound_intro]: "sound (connect_round fmt caps)"
  unfolding connect_round_def take_connect_def reply_connect_def Let_def
  by (intro sound_intro csids_ok) simp_all

lemma publish_of_error: "publish_of i m t vs = Inl e \<Longrightarrow> e = InvalidCommand"
  by (auto simp: publish_of_def res_bind_eq_Inl ok_or_def split: option.splits)

lemma play_of_error:
  assumes "play_of i m t b vs = Inl e"
  shows "e = InvalidCommand"
proof (cases "ns_parse vs")
  case (Inl e')
  then show ?thesis using assms ns_parse_error[OF Inl] by (simp add: play_of_def)
next
  case (Inr cmd)
  then show ?thesis using assms by (cases cmd) (auto simp: play_of_def split: netstream_command.splits)
qed

lemma sound_requests [sound_intro]: "sound (st_lift (publish_of i m t vs))" "sound (st_lift (play_of i m t b vs))"
  by (rule sound_lift; auto dest: publish_of_error play_of_error)+

lemma sound_answer_create [sound_intro]: "sound (answer_create_stream tx)"
  unfolding answer_create_stream_def Let_def by (intro sound_intro csids_ok) (simp add: link_ok_def)

lemma sound_request_round [sound_intro]: "sound (request_round fmt info)"
  unfolding request_round_def request_command_def Let_def
  by (intro sound_intro csids_ok)
    (auto intro!: sound_intro simp: link_ok_def split: sum.split user_control_event.split)

lemma sound_negotiate: "sound (negotiate fmt caps)"
  unfolding negotiate_def
  by (intro sound_intro sound_until shrinks_connect_round shrinks_request_round)

lemma sound_result_round [sound_intro]: "sound (result_round fmt tx)"
  unfolding result_round_def Let_def by (intro sound_intro) simp_all

lemma sound_wait [sound_intro]: "sound (wait_for_result fmt tx)" "sound (wait_for_create_stream_result fmt tx)"
proof -
  show r: "sound (wait_for_result fmt tx)" for tx
    unfolding wait_for_result_def by (intro sound_until shrinks_result_round sound_intro)
  show "sound (wait_for_create_stream_result fmt tx)"
    unfolding wait_for_create_stream_result_def by (intro sound_intro r) simp_all
qed

lemma sound_connect [sound_intro]: "sound (send_connect fmt u caps)"
  unfolding send_connect_def by (intro sound_intro csids_ok)

lemma sound_play_start [sound_intro]: "sound (wait_for_play_start_n fmt n b)"
proof (induction n arbitrary: b)
  case (Suc n)
  have control: "sound (play_start_control b p)" for p
    unfolding play_start_control_def answer_ping_def
    by (auto intro!: sound_intro csids_ok split: sum.split user_control_event.split)
  have command: "sound (st_lift (play_start_command b vs))" for vs
    by (rule sound_lift) (simp_all add: play_start_command_def Let_def)
  show ?case by (simp, intro sound_intro control command Suc.IH)
qed (simp add: sound_throw)

lemma sound_publish_start [sound_intro]: "sound (wait_for_publish_start_n fmt n :: ('x, unit) on_link)"
proof (induction n)
  case (Suc n)
  define body :: "message \<Rightarrow> ('x, unit) on_link" where "body msg = (if msg_type_id msg = MSG_USER_CONTROL then st_return ()
        else if msg_type_id msg = MSG_COMMAND_AMF0 then
          st_bind (st_lift (amf0_decode_all fmt (msg_payload msg))) (\<lambda>values.
          if unwrap_or False (map_option (\<lambda>n. n = lit ''onStatus'' \<or> n = lit ''_result'')
               (arg_as a0_as_str values 0))
          then st_return () else wait_for_publish_start_n fmt n)
        else wait_for_publish_start_n fmt n)" for msg :: message
  have body: "sound (body msg)" for msg
    unfolding body_def by (intro sound_decode sound_intro Suc.IH)
  show ?case
    unfolding sound_def
  proof (rule hoareI)
    fix s :: "'x link_scheme \<times> u8 list"
    assume ok: "link_ok (fst s)"
    obtain r s' where rec: "receive s = (r, s')" by (metis surj_pair)
    note run = receive_run(1,3,4)[of "fst s" "snd s" r "fst s'" "snd s'"]
    show "case wait_for_publish_start_n fmt (Suc n) s of (Inr x, s') \<Rightarrow> link_ok (fst s')
      | (Inl e, s') \<Rightarrow> e \<noteq> Panic \<and> e \<noteq> OutOfFuel \<and> link_ok (fst s')"
      using run rec ok body[unfolded sound_def hoare_def, rule_format, of s']
      by (cases r) (auto simp: body_def)
  qed
qed (simp add: sound_return)

lemma sound_dialogues: "sound (publish_dialogue fmt u ty caps)" "sound (play_dialogue fmt u opts)"
  unfolding publish_dialogue_def play_dialogue_def wait_for_publish_start_def wait_for_play_start_def
  by (intro sound_intro csids_ok)+

section \<open>The handshakes\<close>

primrec proc_safe :: "'a proc \<Rightarrow> bool" where
  "proc_safe (Done r) \<longleftrightarrow> r \<noteq> Inl Panic \<and> r \<noteq> Inl OutOfFuel"
| "proc_safe (Write bs p) \<longleftrightarrow> proc_safe p"
| "proc_safe (Recv n k) \<longleftrightarrow> (\<forall>bs. proc_safe (k bs))"

lemma proc_safe_run: "proc_safe p \<Longrightarrow> run_proc p inp = (r, out, rest) \<Longrightarrow> r \<noteq> Inl Panic \<and> r \<noteq> Inl OutOfFuel"
proof (induction p arbitrary: inp out)
  case (Recv n k)
  then show ?case using Recv.IH[OF rangeI] by (auto split: if_splits)
qed (auto split: prod.splits)

lemma proc_safe_map [simp]: "proc_safe (map_proc f p) = proc_safe p"
proof (induction p)
  case (Done r)
  then show ?case by (cases r) simp_all
qed simp_all

lemma handshakes_safe: "proc_safe (server_handshake t1 t2)" "proc_safe (client_hello digest t1 t2)"
  unfolding server_handshake_def server_handshake_negotiated_def client_hello_def client_handshake_def
    client_handshake_digest_def Let_def
  by (simp_all split: option.split prod.split)

section \<open>Sending from the application\<close>

text \<open>A routine that only writes: it leaves the reader, the queue and the socket's input alone.\<close>

definition only_sends :: "('x, 'a) on_conn \<Rightarrow> bool" where
  "only_sends p \<longleftrightarrow> (\<forall>c bs r c' bs'. p (c, bs) = (r, (c', bs')) \<and> link_ok c \<longrightarrow>
     link_ok c' \<and> lk_reader c' = lk_reader c \<and> cn_pending c' = cn_pending c \<and> bs' = bs)"

named_theorems sends_intro \<open>routines that only send\<close>

lemma only_sendsI:
  "(\<And>c bs r c' bs'. p (c, bs) = (r, (c', bs')) \<Longrightarrow> link_ok c \<Longrightarrow>
     link_ok c' \<and> lk_reader c' = lk_reader c \<and> cn_pending c' = cn_pending c \<and> bs' = bs) \<Longrightarrow> only_sends p"
  by (auto simp: only_sends_def)

lemma only_sendsD:
  assumes "only_sends p" "p (c, bs) = (r, (c', bs'))" "link_ok c"
  shows "link_ok c'" "lk_reader c' = lk_reader c" "cn_pending c' = cn_pending c" "bs' = bs"
  using assms unfolding only_sends_def by blast+

lemma sends_transmit [sends_intro]: "csid_ok csid \<Longrightarrow> only_sends (transmit csid m)"
  by (rule only_sendsI) (auto simp: transmit_run link_ok_def write_message_after(3)[unfolded One_nat_def])

lemma sends_return [sends_intro]: "only_sends (st_return x)"
  and sends_lift [sends_intro]: "only_sends (st_lift y)"
  by (rule only_sendsI; auto simp: st_return_def st_lift_def)+

lemma sends_modify [sends_intro]:
  "(\<And>c. lk_reader (f c) = lk_reader c \<and> lk_writer (f c) = lk_writer c \<and> cn_pending (f c) = cn_pending c) \<Longrightarrow>
   only_sends (modify f)"
  by (rule only_sendsI) (auto simp: modify_def link_ok_def)

lemma sends_bind [sends_intro]:
  assumes "only_sends p" and "\<And>x. only_sends (f x)"
  shows "only_sends (st_bind p f)"
proof (rule only_sendsI)
  fix c :: "'a conn_scheme" and bs r c' bs'
  assume run: "st_bind p f (c, bs) = (r, (c', bs'))" and ok: "link_ok c"
  obtain r1 c1 bs1 where p: "p (c, bs) = (r1, (c1, bs1))" by (metis surj_pair)
  note first = only_sendsD[OF assms(1) p ok]
  show "link_ok c' \<and> lk_reader c' = lk_reader c \<and> cn_pending c' = cn_pending c \<and> bs' = bs"
  proof (cases r1)
    case (Inl e)
    with run p first show ?thesis by (simp add: st_bind_def)
  next
    case (Inr x)
    with run p have "f x (c1, bs1) = (r, (c', bs'))" by (simp add: st_bind_def)
    from only_sendsD[OF assms(2) this first(1)] first show ?thesis by simp
  qed
qed

lemma sends_get [sends_intro]: "only_sends st_get_user"
  by (rule only_sendsI) (auto simp: st_get_user_def)

lemma sends_attempt [sends_intro]: "only_sends p \<Longrightarrow> only_sends (attempt p)"
proof (rule only_sendsI)
  fix c :: "'a conn_scheme" and bs r c' bs'
  assume p: "only_sends p" and run: "attempt p (c, bs) = (r, (c', bs'))" and ok: "link_ok c"
  obtain r1 where "p (c, bs) = (r1, (c', bs'))" using run by (metis attempt_def prod.collapse snd_conv)
  from only_sendsD[OF p this ok] show
    "link_ok c' \<and> lk_reader c' = lk_reader c \<and> cn_pending c' = cn_pending c \<and> bs' = bs" by simp
qed

text \<open>
  What an application does with a session: it calls the reading method, or one of the sending ones.
\<close>

inductive app_step :: "('s \<Rightarrow> ('r result \<times> 's) option) \<Rightarrow> (('s, unit) st \<Rightarrow> bool) \<Rightarrow> 's \<Rightarrow> 's \<Rightarrow> bool"
  for nxt :: "'s \<Rightarrow> ('r result \<times> 's) option" and sends :: "('s, unit) st \<Rightarrow> bool" where
  called: "nxt s = Some (r, s') \<Longrightarrow> app_step nxt sends s s'"
| sent: "sends p \<Longrightarrow> p s = (r, s') \<Longrightarrow> app_step nxt sends s s'"

text \<open>A session that always answers: in every state the application can bring it to.\<close>

definition always_answers ::
    "('x conn_scheme \<times> u8 list \<Rightarrow> ('p option result \<times> 'x conn_scheme \<times> u8 list) option)
     \<Rightarrow> (('x, unit) on_conn \<Rightarrow> bool) \<Rightarrow> 'x conn_scheme \<times> u8 list \<Rightarrow> bool" where
  "always_answers nxt sends s0 \<longleftrightarrow> (\<forall>s. (app_step nxt sends)\<^sup>*\<^sup>* s0 s \<longrightarrow>
     (\<exists>r c' bs'. nxt s = Some (r, (c', bs')) \<and> link_ok c' \<and> r \<noteq> Inl Panic \<and> r \<noteq> Inl OutOfFuel
        \<and> (case r of Inr (Some p) \<Rightarrow> ack_current (lk_reader c') | _ \<Rightarrow> True)))"

context session_loop begin

lemma answers:
  assumes sends: "\<And>p. sends p \<Longrightarrow> only_sends p" and "conn_inv c"
  shows "always_answers (pump (session_round hangup on_sub on_wire)) sends (c, bs)"
  unfolding always_answers_def
proof (intro allI impI)
  fix s
  let ?step = "app_step (pump (session_round hangup on_sub on_wire)) sends"
  assume "?step\<^sup>*\<^sup>* (c, bs) s"
  then have "conn_inv (fst s)"
  proof (induction rule: rtranclp_induct)
    case (step s t)
    from step(2) show ?case
    proof cases
      case (called r)
      then show ?thesis using pump_returns[OF step.IH, of "snd s"] by auto
    next
      case (sent p r)
      from only_sendsD[OF sends[OF sent(1)], of "fst s" "snd s" r "fst t" "snd t"] sent(2) step.IH
      show ?thesis by (simp add: conn_inv_def)
    qed
  qed (simp add: assms(2))
  from pump_returns[OF this, of "snd s"]
  show "\<exists>r c' bs'. pump (session_round hangup on_sub on_wire) s = Some (r, (c', bs')) \<and> link_ok c'
      \<and> r \<noteq> Inl Panic \<and> r \<noteq> Inl OutOfFuel \<and> (case r of Inr (Some p) \<Rightarrow> ack_current (lk_reader c') | _ \<Rightarrow> True)"
    by (auto simp: conn_inv_def)
qed

end

section \<open>What each application may send\<close>

inductive link_send :: "('x, unit) on_conn \<Rightarrow> bool" where
  "link_send (send_shared_object so)"
| "link_send (send_call c)"
| "link_send (reply_call_result tx obj response)"
| "link_send (reply_call_error tx obj response)"

inductive publisher_send :: "(rtmp_session \<times> u8 list, unit) st \<Rightarrow> bool" where
  "link_send p \<Longrightarrow> publisher_send p"
| "publisher_send session_send_stream_dry"
| "publisher_send session_send_stream_is_recorded"
| "publisher_send (session_send_ping_request ts)"
| "publisher_send (send_reconnect_request tc_url description)"
| "publisher_send session_close"

inductive subscriber_send :: "(play_session \<times> u8 list, unit) st \<Rightarrow> bool" where
  "link_send p \<Longrightarrow> subscriber_send p"
| "subscriber_send (play_send_audio ts audio)"
| "subscriber_send (play_send_video ts video)"
| "subscriber_send (play_send_video_multitrack ts ty vtracks)"
| "subscriber_send (play_send_audio_multitrack ts ty atracks)"
| "subscriber_send (play_send_metadata v)"
| "subscriber_send (send_data handler v)"
| "subscriber_send (forward packet)"
| "subscriber_send (notify_pause paused)"
| "subscriber_send notify_seek"
| "subscriber_send notify_receive_resumed"
| "subscriber_send play_send_stream_dry"
| "subscriber_send (play_send_ping_request ts)"
| "subscriber_send (send_reconnect_request tc_url description)"
| "subscriber_send play_close"

inductive client_send :: "(rtmp_client \<times> u8 list, unit) st \<Rightarrow> bool" where
  "link_send p \<Longrightarrow> client_send p"
| "client_send (send_video_tag ts video)"
| "client_send (send_video_sequence_header avc_c)"
| "client_send (send_video ts key body)"
| "client_send (send_audio_tag ts audio)"
| "client_send (send_audio_sequence_header asc)"
| "client_send (send_audio ts frame)"
| "client_send (send_video_multitrack ts ty vtracks)"
| "client_send (send_audio_multitrack ts ty atracks)"
| "client_send (send_metadata v)"
| "client_send (send_data_frame handler v)"
| "client_send (clear_data_frame handler)"
| "client_send clear_metadata"
| "client_send (send_metadata_amf3 v3)"
| "client_send (send_aggregate subs)"
| "client_send (client_send_ping_request ts)"
| "client_send (st_bind (client_call name obj args expects) (\<lambda>_. st_return ()))"
| "client_send client_close"

inductive player_send :: "(rtmp_player \<times> u8 list, unit) st \<Rightarrow> bool" where
  "link_send p \<Longrightarrow> player_send p"
| "player_send (send_netstream nscmd)"
| "player_send (player_pause ms)"
| "player_send (player_resume ms)"
| "player_send (player_seek ms)"
| "player_send (set_receive_audio flag)"
| "player_send (set_receive_video flag)"
| "player_send (player_play name start duration reset)"
| "player_send (player_play2 params)"
| "player_send (set_buffer_length ms32)"
| "player_send (st_bind (player_call name obj args expects) (\<lambda>_. st_return ()))"
| "player_send player_close"

lemmas send_defs = send_shared_object_def send_call_def reply_call_result_def reply_call_error_def
  session_send_stream_dry_def session_send_stream_is_recorded_def session_send_ping_request_def
  send_reconnect_request_def session_close_def send_on_status_def with_stream_id_def
  play_send_audio_def play_send_video_def play_send_video_multitrack_def play_send_audio_multitrack_def
  play_send_metadata_def send_data_def send_media_def notify_pause_def notify_seek_def send_status_def
  notify_receive_resumed_def play_send_stream_dry_def play_send_ping_request_def play_close_def
  send_video_tag_def send_video_sequence_header_def send_video_def send_audio_tag_def
  send_audio_sequence_header_def send_audio_def send_video_multitrack_def send_audio_multitrack_def
  send_metadata_def send_data_frame_def clear_data_frame_def clear_metadata_def send_metadata_amf3_def
  send_aggregate_def client_send_ping_request_def client_call_def client_close_def
  send_netstream_def player_pause_def player_resume_def player_seek_def set_receive_audio_def
  set_receive_video_def player_play_def player_play2_def set_buffer_length_def player_call_def player_close_def

lemma sends_if [sends_intro]: "only_sends p \<Longrightarrow> only_sends q \<Longrightarrow> only_sends (if b then p else q)"
  by simp

lemma link_sends: "link_send p \<Longrightarrow> only_sends p"
  by (induction rule: link_send.induct) (auto simp: send_defs intro!: sends_intro csids_ok)

lemma publisher_sends: "publisher_send p \<Longrightarrow> only_sends p"
  by (induction rule: publisher_send.induct) (auto simp: send_defs intro!: sends_intro csids_ok dest: link_sends)

lemma forward_sends [sends_intro]: "only_sends (forward packet)"
  by (auto simp: forward_def send_defs intro!: sends_intro csids_ok split: stream_packet.split)

lemma subscriber_sends: "subscriber_send p \<Longrightarrow> only_sends p"
  by (induction rule: subscriber_send.induct) (auto simp: send_defs intro!: sends_intro csids_ok dest: link_sends)

lemma client_sends: "client_send p \<Longrightarrow> only_sends p"
  by (induction rule: client_send.induct) (auto simp: send_defs Let_def intro!: sends_intro csids_ok dest: link_sends)

lemma player_sends: "player_send p \<Longrightarrow> only_sends p"
  by (induction rule: player_send.induct) (auto simp: send_defs Let_def intro!: sends_intro csids_ok dest: link_sends)

section \<open>From the first byte\<close>

lemma link_start [simp]: "link_ok (negotiation_new out)" "link_ok (link_new out)"
  by (simp_all add: negotiation_new_def link_new_def link_ok_def writer_new_def DEFAULT_CHUNK_SIZE_def)

lemma soundD:
  assumes "sound p" and "link_ok (fst s)"
  shows "case p s of (Inr x, s') \<Rightarrow> link_ok (fst s') | (Inl e, s') \<Rightarrow> e \<noteq> Panic \<and> e \<noteq> OutOfFuel"
  using assms unfolding sound_def hoare_def by (fastforce split: sum.splits)

lemma drive_sound:
  "case drive_until_request fmt caps t1 t2 inp of (Inr x, s) \<Rightarrow> link_ok (fst s)
     | (Inl e, s) \<Rightarrow> e \<noteq> Panic \<and> e \<noteq> OutOfFuel"
proof -
  obtain r out rest where run: "run_proc (server_handshake t1 t2) inp = (r, out, rest)" by (metis surj_pair)
  from proc_safe_run[OF handshakes_safe(1) run] soundD[OF sound_negotiate, of "(negotiation_new out, rest)"] run
  show ?thesis by (cases r) (auto simp: drive_until_request_def)
qed

lemma hoare_after: "sound p \<Longrightarrow> (\<And>x. hoare lok (f x) Q lok) \<Longrightarrow> hoare lok (st_bind p f) Q lok"
  unfolding sound_def by (rule hoare_bind)

lemma hoare_finish:
  "(\<And>l. link_ok l \<Longrightarrow> Q (g l)) \<Longrightarrow> hoare lok (st_bind st_get_user (\<lambda>l. st_return (g l))) (\<lambda>c _. Q c) lok"
  by (auto simp: hoare_def st_bind_def st_get_user_def st_return_def)

lemma accept_starts:
  "hoare lok (publish_accept req) (\<lambda>c _. conn_inv c) lok" "hoare lok (accept_mode recorded preq) (\<lambda>c _. conn_inv c) lok"
  unfolding publish_accept_def accept_mode_def send_on_status_def Let_def
  by (intro hoare_after hoare_finish sound_intro csids_ok; simp add: conn_inv_def link_ok_def)+

text \<open>How a constructor of sessions and the sessions it makes are judged.\<close>

definition starts ::
    "('x conn_scheme \<times> u8 list \<Rightarrow> ('p option result \<times> 'x conn_scheme \<times> u8 list) option)
     \<Rightarrow> (('x, unit) on_conn \<Rightarrow> bool) \<Rightarrow> 'x conn_scheme result \<times> 'l \<times> u8 list \<Rightarrow> bool" where
  "starts nxt sends r = (case r of (Inl e, _) \<Rightarrow> e \<noteq> Panic \<and> e \<noteq> OutOfFuel
     | (Inr c, (_, bs)) \<Rightarrow> always_answers nxt sends (c, bs))"

lemma startsI:
  assumes "hoare lok p (\<lambda>c _. conn_inv c) lok" and "link_ok (fst s)"
    and "\<And>c bs. conn_inv c \<Longrightarrow> always_answers nxt sends (c, bs)"
  shows "starts nxt sends (p s)"
proof -
  obtain r l bs where run: "p s = (r, (l, bs))" by (metis surj_pair)
  show ?thesis
    using hoareD[OF assms(1,2), of _ "(l, bs)"] hoareD_err[OF assms(1,2), of _ "(l, bs)"] run assms(3)
    by (cases r) (auto simp: starts_def)
qed

text \<open>
  C5. The server never fails to answer.  Whatever bytes a peer sends from the first one on, for every clock reading,
  the server's negotiation ends with a request or an error that is neither a panic nor an exhausted bound;
  accepting the request, whichever way, gives a session, and in every state that any sequence of calls of the
  reading method and of the sending methods brings it to, the next call of the reading method returns, does not
  panic, and hands out a packet only when no acknowledgement is overdue.
\<close>

theorem server_total:
  "case drive_until_request fmt caps t1 t2 inp of
     (Inl e, s) \<Rightarrow> e \<noteq> Panic \<and> e \<noteq> OutOfFuel
   | (Inr (ReqPublish req), s) \<Rightarrow> starts (next_packet_of fmt) publisher_send (publish_accept req s)
   | (Inr (ReqPlay req), s) \<Rightarrow> starts (next_event fmt) subscriber_send (play_accept req s)
       \<and> starts (next_event fmt) subscriber_send (play_accept_recorded req s)"
proof -
  have "always_answers (next_packet_of fmt) publisher_send (c, bs)" if "conn_inv c" for c bs
    unfolding next_packet_of_def by (rule publisher.answers[OF publisher_sends that])
  note publish = startsI[OF accept_starts(1) _ this]
  have "always_answers (next_event fmt) subscriber_send (c, bs)" if "conn_inv c" for c bs
    unfolding next_event_def by (rule subscriber.answers[OF subscriber_sends that])
  note play = startsI[OF accept_starts(2) _ this]
  obtain r s where run: "drive_until_request fmt caps t1 t2 inp = (r, s)" by (metis surj_pair)
  show ?thesis
  proof (cases r)
    case (Inl e)
    then show ?thesis using drive_sound[of fmt caps t1 t2 inp] by (simp add: run)
  next
    case (Inr x)
    then have "link_ok (fst s)" using drive_sound[of fmt caps t1 t2 inp] by (simp add: run)
    then show ?thesis
      using publish play by (simp add: run Inr play_accept_def play_accept_recorded_def split: session_request.split)
  qed
qed

lemma connects_start:
  assumes "proc_safe hello" and "sound p" and "\<And>kind x. hoare lok (f kind x) (\<lambda>c _. conn_inv c) lok"
    and "\<And>c bs. conn_inv c \<Longrightarrow> always_answers nxt sends (c, bs)"
  shows "starts nxt sends (case run_proc hello inp of (Inl e, out, rest) \<Rightarrow> (Inl e, (link_new out, rest))
     | (Inr kind, out, rest) \<Rightarrow> st_bind p (f kind) (link_new out, rest))"
proof -
  obtain r out rest where run: "run_proc hello inp = (r, out, rest)" by (metis surj_pair)
  have "starts nxt sends (st_bind p (f kind) (link_new out, rest))" for kind
    by (rule startsI[OF hoare_after[OF assms(2,3)] _ assms(4)]) simp
  then show ?thesis using proc_safe_run[OF assms(1) run] by (cases r) (auto simp: run starts_def)
qed

lemma parse_url_error: "parse_rtmp_url url = Inl e \<Longrightarrow> e = Other"
  by (auto simp: parse_rtmp_url_def authority_parts_def res_bind_eq_Inl Let_def split: option.splits prod.splits)

text \<open>
  C10. The same of the client and the player: for every URL and every sequence of bytes a server may send.
\<close>

theorem client_total:
  "starts (poll_event fmt) client_send (client_connect fmt url ty caps digest t1 t2 inp)
   \<and> starts (player_next_packet fmt) player_send (connect_with_options fmt url opts t1 t2 inp)"
proof (cases "parse_rtmp_url url")
  case (Inl e)
  then show ?thesis using parse_url_error[OF Inl]
    by (simp add: client_connect_def connect_with_options_def starts_def)
next
  case (Inr u)
  have a: "always_answers (poll_event fmt) client_send (c, bs)" if "conn_inv c" for c bs
    unfolding poll_event_def by (rule client.answers[OF client_sends that])
  have b: "always_answers (player_next_packet fmt) player_send (c, bs)" if "conn_inv c" for c bs
    unfolding player_next_packet_def by (rule player.answers[OF player_sends that])
  have "starts (poll_event fmt) client_send (connect_parsed fmt u ty caps digest t1 t2 inp)"
    unfolding connect_parsed_def
    by (rule connects_start[OF handshakes_safe(2) sound_dialogues(1) _ a])
      (clarsimp split: prod.split, rule hoare_finish, simp add: conn_inv_def link_ok_def, simp)
  moreover have "starts (player_next_packet fmt) player_send (connect_with_options fmt url opts t1 t2 inp)"
    unfolding connect_with_options_def Inr sum.case
    by (rule connects_start[OF handshakes_safe(2) sound_dialogues(2) _ b])
      (clarsimp split: prod.split, rule hoare_finish, simp add: conn_inv_def link_ok_def, simp)
  ultimately show ?thesis by (simp add: client_connect_def Inr)
qed

section \<open>Well-formed packets\<close>

fun packet_wf :: "stream_packet \<Rightarrow> bool" where
  "packet_wf (SpVideo ts tag) \<longleftrightarrow> video_ok tag \<and> parse_video (build_video tag) = Inr tag"
| "packet_wf (SpAudio ts tag) \<longleftrightarrow> audio_ok tag \<and> parse_audio (build_audio tag) = Inr tag"
| "packet_wf _ \<longleftrightarrow> True"

fun player_packet_wf :: "player_packet \<Rightarrow> bool" where
  "player_packet_wf (PpVideo ts tag) \<longleftrightarrow> video_ok tag \<and> parse_video (build_video tag) = Inr tag"
| "player_packet_wf (PpAudio ts tag) \<longleftrightarrow> audio_ok tag \<and> parse_audio (build_audio tag) = Inr tag"
| "player_packet_wf (PpMetadata v) \<longleftrightarrow> (case v of A0Object _ \<Rightarrow> True | A0EcmaArray _ \<Rightarrow> True | _ \<Rightarrow> False)"
| "player_packet_wf _ \<longleftrightarrow> True"

lemma pump_result: "pump p s = Some y \<Longrightarrow> (case y of (Inr r, t) \<Rightarrow> \<exists>u v. p u = (Inr (Some r), v) | (Inl e, t) \<Rightarrow> True)"
proof (erule pump.raw_induct[where P = "\<lambda>p s y. case y of (Inr r, t) \<Rightarrow> \<exists>u v. p u = (Inr (Some r), v) | (Inl e, t) \<Rightarrow> True", rotated], goal_cases)
  case (1 pump' p s y)
  obtain r t where run: "p s = (r, t)" by (metis surj_pair)
  show ?case
  proof (cases "r = Inr None")
    case True
    then show ?thesis using 1(1)[of p t y] 1(2) by (simp add: run)
  next
    case False
    then have "(\<exists>x. r = Inr (Some x) \<and> y = (Inr x, t)) \<or> (\<exists>e. y = (Inl e, t))"
      using 1(2) run by (cases r) (auto split: option.splits)
    then show ?thesis using run by (elim disjE exE conjE) (simp, metis, simp)
  qed
qed

lemma mapped_result:
  "st_bind p (\<lambda>r. st_return (map_option Some r)) s = (Inr (Some (Some q)), t) \<Longrightarrow> p s = (Inr (Some q), t)"
  by (auto simp: st_bind_def st_return_def split: prod.splits sum.splits)

lemma bound_result: "st_bind p f s = (Inr y, t) \<Longrightarrow> \<exists>v u. p s = (Inr v, u) \<and> f v u = (Inr y, t)"
  by (auto simp: st_bind_def split: prod.splits sum.splits)

lemma round_result:
  assumes "session_round h on_sub on_wire (c, bs) = (Inr (Some (Some p)), t)"
  shows "\<exists>msg u v. on_sub msg u = (Inr (Some p), v) \<or> on_wire msg u = (Inr (Some p), v)"
proof (cases "cn_ended c")
  case False
  show ?thesis
  proof (cases "cn_pending c")
    case (Cons sub rest)
    then show ?thesis using assms False mapped_result[of "on_sub sub"] by (fastforce simp: session_round_def)
  next
    case Nil
    obtain r s1 where rec: "receive (c, bs) = (r, s1)" by (metis surj_pair)
    show ?thesis
    proof (cases r)
      case (Inl e)
      then show ?thesis using assms False Nil rec
        by (auto simp: session_round_def st_bind_def st_return_def split: option.splits prod.splits sum.splits)
    next
      case (Inr msg)
      with assms False Nil rec have "st_bind maybe_send_ack (\<lambda>_. st_bind (on_wire msg)
          (\<lambda>r. st_return (map_option Some r))) s1 = (Inr (Some (Some p)), t)" by (simp add: session_round_def)
      from bound_result[OF this] mapped_result[of "on_wire msg"] show ?thesis by blast
    qed
  qed
qed (use assms in \<open>simp add: session_round_def\<close>)

lemma pumped:
  assumes "\<And>msg u p v. on_sub msg u = (Inr (Some p), v) \<Longrightarrow> P p" and "\<And>msg u p v. on_wire msg u = (Inr (Some p), v) \<Longrightarrow> P p"
  shows "case pump (session_round h on_sub on_wire) s of Some (Inr (Some p), t) \<Rightarrow> P p | _ \<Rightarrow> True"
proof -
  have "P p" if "pump (session_round h on_sub on_wire) s = Some (Inr (Some p), t)" for p t
  proof -
    have "\<exists>u v. session_round h on_sub on_wire u = (Inr (Some (Some p)), v)"
      using pump_result[OF that] by simp
    then obtain u v where "session_round h on_sub on_wire u = (Inr (Some (Some p)), v)" by blast
    with round_result[of h on_sub on_wire "fst u" "snd u" p v] show ?thesis using assms by auto
  qed
  then show ?thesis by (auto split: option.split prod.split sum.split)
qed

lemma return_result: "st_return x s = (Inr y, t) \<longleftrightarrow> x = y \<and> s = t"
  by (auto simp: st_return_def)

lemma handle_wf_data: "dispatch_data_values vs s = (Inr (Some p), t) \<Longrightarrow> packet_wf p"
  by (auto simp: dispatch_data_values_def store_data_frame_def st_bind_def st_return_def modify_def Let_def
      split: option.splits data_frame_command.splits prod.splits sum.splits if_splits)

lemma handle_wf_command: "handle_command_values vs s = (Inr (Some p), t) \<Longrightarrow> packet_wf p"
  by (auto simp: handle_command_values_def classify_values_def latch_ended_def st_bind_def st_return_def st_lift_def
      modify_def res_bind_eq_Inr split: option.splits prod.splits sum.splits if_splits)

lemma lift_result: "st_bind (st_lift x) f s = (Inr y, t) \<longleftrightarrow> (\<exists>v. x = Inr v \<and> f v s = (Inr y, t))"
  by (cases x) (simp_all add: st_bind_def st_throw_def st_return_def)

lemma none_result: "st_bind p (\<lambda>_. st_return None) s \<noteq> (Inr (Some q), t)"
  by (auto simp: st_bind_def st_return_def split: prod.splits sum.splits)

lemma handled_wf: "session_handle_message fmt msg s = (Inr (Some p), t) \<Longrightarrow> packet_wf p"
  unfolding session_handle_message_def Let_def
  by (auto simp: lift_result none_result return_result video_parses audio_parses
      dest: video_parse_ok audio_parse_ok handle_wf_data handle_wf_command split: if_splits)

lemma status_wf: "classify_status vs = Some p \<Longrightarrow> player_packet_wf p"
  by (auto simp: classify_status_def split: option.splits if_splits)

lemma object_wf: "metadata_object vs = Some v \<Longrightarrow> player_packet_wf (PpMetadata v)"
  by (auto simp: metadata_object_def find_Some_iff)

lemma player_control_wf: "player_user_control b s = (Inr (Some p), t) \<Longrightarrow> player_packet_wf p"
  by (auto simp: player_user_control_def lift_result none_result st_bind_def modify_def st_return_def
      split: user_control_event.splits prod.splits sum.splits)

lemma player_handled_wf: "player_handle_message fmt msg s = (Inr (Some p), t) \<Longrightarrow> player_packet_wf p"
  unfolding player_handle_message_def Let_def
  by (auto simp: lift_result none_result return_result video_parses audio_parses simp del: player_packet_wf.simps(3)
      dest: video_parse_ok audio_parse_ok status_wf object_wf player_control_wf split: if_splits)

text \<open>
  C17. Every packet is well formed.  From any state and any bytes, a video or audio packet \<open>RtmpSession::next_packet\<close> or
  \<open>RtmpPlayer::next_packet\<close> hands out holds a tag the format has, which written to a payload is read
  back unchanged; and the metadata a player hands out is an object or an ECMA array.
\<close>

theorem packets_well_formed:
  "(case next_packet_of fmt s of Some (Inr (Some p), _) \<Rightarrow> packet_wf p | _ \<Rightarrow> True)
   \<and> (case player_next_packet fmt t of Some (Inr (Some p), _) \<Rightarrow> player_packet_wf p | _ \<Rightarrow> True)"
  unfolding next_packet_of_def player_next_packet_def
  by (intro conjI pumped) (blast intro: handled_wf player_handled_wf)+

end
