(* ===== verification/Delivery.thy ===== *)
theory Delivery
  imports Safety
begin

text \<open>
  What a publisher sends is what the server's \<open>next_packet\<close> hands out: one call per packet, in order,
  aggregates unpacked, the data-frame table following a map.
\<close>

section \<open>A message the session answers with a packet\<close>

definition answers_with ::
    "(f64 \<Rightarrow> rstring) \<Rightarrow> message \<Rightarrow> stream_packet
     \<Rightarrow> ((rstring \<times> amf0_value) list \<Rightarrow> (rstring \<times> amf0_value) list) \<Rightarrow> bool" where
  "answers_with fmt msg p f \<longleftrightarrow> (\<forall>s bs. session_handle_message fmt msg (s, bs)
     = (Inr (Some p), (s\<lparr>rs_data_frames := f (rs_data_frames s)\<rparr>, bs)))"

text \<open>A session between two packets, its reader in step with the writer \<open>w\<close>.\<close>

definition listening :: "chunk_writer \<Rightarrow> 'x conn_scheme \<Rightarrow> bool" where
  "listening w s \<longleftrightarrow> linked w (lk_reader s) \<and> conn_inv s \<and> \<not> cn_ended s"

lemma ack_due_linked: "ack_due r = (x, r') \<Longrightarrow> linked w r' = linked w r"
  by (auto simp: ack_due_def Let_def linked_def split: if_splits)

lemma next_pending:
  assumes "answers_with fmt msg p f" and "cn_pending s = msg # rest" and "\<not> cn_ended s"
  shows "next_packet_of fmt (s, bs) = Some (Inr (Some p),
    (s\<lparr>cn_pending := rest, rs_data_frames := f (rs_data_frames s)\<rparr>, bs))"
  using assms
  by (simp add: next_packet_of_def pump.simps[of _ "(s, bs)"] session_round_def answers_with_def st_bind_def st_return_def)

lemma listening_pending:
  "listening w s \<Longrightarrow> cn_pending s = m # rest \<Longrightarrow> listening w (s\<lparr>cn_pending := rest, rs_data_frames := d\<rparr>)"
  by (simp add: listening_def conn_inv_def link_ok_def)

text \<open>What one round does to a session before the message it read is dispatched.\<close>

lemma listening_reads:
  assumes "listening w s" and "link_op_ok (Send csid msg)" and "cn_pending s = []"
  obtains s' where "\<And>tail. session_round h on_sub on_wire (s, write_bytes w csid msg @ tail)
      = st_bind (on_wire msg) (\<lambda>r. st_return (map_option Some r)) (s', tail)"
    "listening (write_after w csid msg) s'" "cn_pending s' = []" "ack_current (lk_reader s')"
    "conn.more s' = conn.more s" "cn_stream_id s' = cn_stream_id s"
    "\<exists>acks. list_all (\<lambda>op. op \<in> range (\<lambda>n. ctl_op (build_ack n))) acks \<and> lk_writer s' = after (lk_writer s) acks"
proof -
  have link: "link_ok s" "linked w (lk_reader s)" and on: "\<not> cn_ended s"
    using assms(1) by (simp_all add: listening_def conn_inv_def)
  obtain r' where rec: "\<And>tail. receive (s, write_bytes w csid msg @ tail) = (Inr msg, (s\<lparr>lk_reader := r'\<rparr>, tail))"
    and r': "linked (write_after w csid msg) r'"
    using receive_written[of csid msg w s] assms(2) link(2) by auto
  define s1 where "s1 = s\<lparr>lk_reader := r'\<rparr>"
  have s1: "link_ok s1" using receive_run(1)[OF rec[of "[]"] link(1)] by (simp add: s1_def)
  obtain due rd where due: "ack_due (lk_reader s1) = (due, rd)" by (metis surj_pair)
  define s2 where "s2 = (case due of None \<Rightarrow> s1\<lparr>lk_reader := rd\<rparr>
    | Some seq \<Rightarrow> s1\<lparr>lk_reader := rd, lk_writer := write_after (lk_writer s1) CSID_PROTOCOL_CONTROL (build_ack seq)\<rparr>)"
  have ack: "maybe_send_ack (s1, tail) = (Inr (), (s2, tail))" for tail
    using s1 due csids_ok(1) by (cases due) (simp_all add: maybe_send_ack_def s2_def transmit_run link_ok_def)
  have "linked (write_after w csid msg) rd"
    using r' ack_due_linked[OF due] by (simp add: s1_def)
  then have s2: "link_ok s2" "ack_current (lk_reader s2)" "cn_pending s2 = []" "cn_ended s2 = cn_ended s"
      "conn.more s2 = conn.more s" "cn_stream_id s2 = cn_stream_id s" "linked (write_after w csid msg) (lk_reader s2)"
    using maybe_send_ack_run(1,2)[OF ack[of "[]"] s1] assms(3) by (simp_all add: s2_def s1_def split: option.split)
  define acks where "acks = (case due of None \<Rightarrow> [] | Some seq \<Rightarrow> [ctl_op (build_ack seq)])"
  have acks: "list_all (\<lambda>op. op \<in> range (\<lambda>n. ctl_op (build_ack n))) acks" "lk_writer s2 = after (lk_writer s) acks"
    by (simp_all add: acks_def s2_def s1_def split: option.split)
  show thesis
  proof (rule that)
    show "session_round h on_sub on_wire (s, write_bytes w csid msg @ tail)
      = st_bind (on_wire msg) (\<lambda>r. st_return (map_option Some r)) (s2, tail)" for tail
      using on assms(3) rec[of tail] ack[of tail] by (simp add: session_round_def st_bind_def s1_def)
    show "listening (write_after w csid msg) s2"
      using s2 on by (simp add: listening_def conn_inv_def)
  qed (use s2 acks in auto)
qed

lemma same_frames: "conn.more s' = conn.more s \<Longrightarrow> rs_data_frames s' = rs_data_frames s"
  by (cases s; cases s') simp

section \<open>What a publisher sends\<close>

datatype media =
    MVideo u32 video_tag
  | MAudio u32 audio_tag
  | MMetadata amf0_value
  | MFrame rstring amf0_value
  | MClear rstring

datatype publish_op = Single media | Batch "media list"

primrec media_message :: "u32 \<Rightarrow> media \<Rightarrow> message" where
  "media_message sid (MVideo ts tag) = \<lparr>msg_type_id = MSG_VIDEO, msg_stream_id = sid, msg_timestamp = ts,
     msg_payload = build_video tag\<rparr>"
| "media_message sid (MAudio ts tag) = \<lparr>msg_type_id = MSG_AUDIO, msg_stream_id = sid, msg_timestamp = ts,
     msg_payload = build_audio tag\<rparr>"
| "media_message sid (MMetadata v) = build_set_data_frame sid v"
| "media_message sid (MFrame handler v) = build_set_data_frame_named sid handler v"
| "media_message sid (MClear handler) = build_clear_data_frame sid handler"

primrec publish_media :: "media \<Rightarrow> ('x, unit) on_conn" where
  "publish_media (MVideo ts tag) = send_video_tag ts tag"
| "publish_media (MAudio ts tag) = send_audio_tag ts tag"
| "publish_media (MMetadata v) = send_metadata v"
| "publish_media (MFrame handler v) = send_data_frame handler v"
| "publish_media (MClear handler) = clear_data_frame handler"

primrec publish :: "publish_op \<Rightarrow> ('x, unit) on_conn" where
  "publish (Single m) = publish_media m"
| "publish (Batch ms) = send_aggregate (map (media_message 0) ms)"

text \<open>The packet a media message becomes, and what it does to the table of data frames.\<close>

fun media_packet :: "media \<Rightarrow> stream_packet" where
  "media_packet (MVideo ts tag) = SpVideo ts tag"
| "media_packet (MAudio ts tag) = SpAudio ts tag"
| "media_packet (MMetadata v) = SpMetadata v"
| "media_packet (MFrame handler v) = (if handler = ON_META_DATA then SpMetadata v else SpDataFrame handler v)"
| "media_packet (MClear handler) = SpDataFrameCleared handler"

fun media_frames :: "media \<Rightarrow> (rstring \<times> amf0_value) list \<Rightarrow> (rstring \<times> amf0_value) list" where
  "media_frames (MMetadata v) d = set_entry ON_META_DATA v d"
| "media_frames (MFrame handler v) d = set_entry handler v d"
| "media_frames (MClear handler) d = filter (\<lambda>(h, _). h \<noteq> handler) d"
| "media_frames _ d = d"

text \<open>The abstract table is a map.\<close>

fun media_view :: "media \<Rightarrow> (rstring \<rightharpoonup> amf0_value) \<Rightarrow> (rstring \<rightharpoonup> amf0_value)" where
  "media_view (MMetadata v) M = M(ON_META_DATA \<mapsto> v)"
| "media_view (MFrame handler v) M = M(handler \<mapsto> v)"
| "media_view (MClear handler) M = M(handler := None)"
| "media_view _ M = M"

lemma frames_view: "map_of (media_frames m d) = media_view m (map_of d)"
proof (cases m)
  case (MClear handler)
  have "map_of (filter (\<lambda>(h, _). h \<noteq> handler) d) = (map_of d)(handler := None)"
    by (induction d) auto
  then show ?thesis using MClear by simp
qed (auto simp: map_of_set_entry)

definition media_ok :: "media \<Rightarrow> bool" where
  "media_ok m \<longleftrightarrow> length (msg_payload (media_message 0 m)) < 2 ^ 24 \<and> (case m of
     MVideo _ tag \<Rightarrow> video_ok tag | MAudio _ tag \<Rightarrow> audio_ok tag | MMetadata v \<Rightarrow> amf0_fits 0 v
   | MFrame handler v \<Rightarrow> long_ok handler \<and> amf0_fits 0 v | MClear handler \<Rightarrow> long_ok handler)"

fun media_of :: "publish_op \<Rightarrow> media list" where
  "media_of (Single m) = [m]"
| "media_of (Batch ms) = ms"

fun op_ok :: "publish_op \<Rightarrow> bool" where
  "op_ok (Single m) = media_ok m"
| "op_ok (Batch ms) = (list_all media_ok ms \<and> (\<Sum>m \<leftarrow> ms. 15 + length (msg_payload (media_message 0 m))) < 2 ^ 24)"

lemma media_stream: "(media_message i m)\<lparr>msg_stream_id := j\<rparr> = media_message j m"
  by (cases m) (simp_all add: build_set_data_frame_def build_set_data_frame_named_def build_clear_data_frame_def
      data_message_def)

lemma media_payload: "msg_payload (media_message i m) = msg_payload (media_message 0 m)"
  by (cases m) (simp_all add: build_set_data_frame_def build_set_data_frame_named_def build_clear_data_frame_def
      data_message_def)

lemma set_frame_decodes:
  assumes "long_ok handler" "amf0_fits 0 v"
  shows "amf0_decode_all fmt (msg_payload (build_set_data_frame_named i handler v))
    = Inr [A0String SET_DATA_FRAME, A0String handler, v]"
  using assms amf0_decode_all_encode[of "[A0String SET_DATA_FRAME, A0String handler, v]" fmt]
  by (simp add: build_set_data_frame_named_def data_message_def MAX_DECODE_DEPTH_def SET_DATA_FRAME_def lit_ok)

lemma clear_frame_decodes:
  assumes "long_ok handler"
  shows "amf0_decode_all fmt (msg_payload (build_clear_data_frame i handler))
    = Inr [A0String CLEAR_DATA_FRAME, A0String handler]"
  using assms amf0_decode_all_encode[of "[A0String CLEAR_DATA_FRAME, A0String handler]" fmt]
  by (simp add: build_clear_data_frame_def data_message_def MAX_DECODE_DEPTH_def CLEAR_DATA_FRAME_def lit_ok)

lemma frames_parse:
  "parse_data_frame [A0String SET_DATA_FRAME, A0String handler, v] = Some (DfSet handler v)"
  "parse_data_frame [A0String CLEAR_DATA_FRAME, A0String handler] = Some (DfClear handler)"
  by (auto simp: parse_data_frame_def arg_as_def arg_def a0_as_str_def SET_DATA_FRAME_def CLEAR_DATA_FRAME_def)

lemma media_answers: "media_ok m \<Longrightarrow> answers_with fmt (media_message sid m) (media_packet m) (media_frames m)"
  unfolding answers_with_def
proof (intro allI)
  fix s :: rtmp_session and bs
  assume ok: "media_ok m"
  have data: "session_handle_message fmt msg (s, bs) = dispatch_data_values vs (s, bs)"
    if "msg_type_id msg = MSG_DATA_AMF0" "amf0_decode_all fmt (msg_payload msg) = Inr vs" for msg vs
    using that by (simp add: session_handle_message_def st_bind_def st_return_def msg_types)
  have types: "msg_type_id (build_set_data_frame_named i h v) = MSG_DATA_AMF0"
    "msg_type_id (build_clear_data_frame i h) = MSG_DATA_AMF0" for i h v
    by (simp_all add: build_set_data_frame_named_def build_clear_data_frame_def data_message_def)
  have meta: "lit ''onMetaData'' = ON_META_DATA" "long_ok ON_META_DATA"
    by (simp_all add: ON_META_DATA_def lit_ok)
  show "session_handle_message fmt (media_message sid m) (s, bs)
    = (Inr (Some (media_packet m)), (s\<lparr>rs_data_frames := media_frames m (rs_data_frames s)\<rparr>, bs))"
  proof (cases m)
    case (MVideo ts tag)
    then show ?thesis using ok video_parses[of tag]
      by (simp add: session_handle_message_def media_ok_def st_bind_def st_return_def msg_types)
  next
    case (MAudio ts tag)
    then show ?thesis using ok audio_parses[of tag]
      by (simp add: session_handle_message_def media_ok_def st_bind_def st_return_def)
  next
    case (MMetadata v)
    with ok have v: "amf0_fits 0 v" by (simp add: media_ok_def)
    show ?thesis
      by (simp add: MMetadata build_set_data_frame_def meta data[OF types(1) set_frame_decodes[OF meta(2) v]]
          dispatch_data_values_def frames_parse store_data_frame_def modify_def st_bind_def st_return_def)
  next
    case (MFrame h v)
    with ok have v: "long_ok h" "amf0_fits 0 v" by (simp_all add: media_ok_def)
    show ?thesis
      by (simp add: MFrame data[OF types(1) set_frame_decodes[OF v]]
          dispatch_data_values_def frames_parse store_data_frame_def modify_def st_bind_def st_return_def)
  next
    case (MClear h)
    with ok have v: "long_ok h" by (simp_all add: media_ok_def)
    show ?thesis
      by (simp add: MClear data[OF types(2) clear_frame_decodes[OF v]]
          dispatch_data_values_def frames_parse modify_def st_bind_def st_return_def)
  qed
qed

section \<open>Calls of the reading method\<close>

primrec calls :: "('s \<Rightarrow> ('r result \<times> 's) option) \<Rightarrow> nat \<Rightarrow> 's \<Rightarrow> ('r result list \<times> 's) option" where
  "calls nxt 0 s = Some ([], s)"
| "calls nxt (Suc n) s = (case nxt s of None \<Rightarrow> None | Some (r, t) \<Rightarrow>
     map_option (\<lambda>(rs, u). (r # rs, u)) (calls nxt n t))"

lemma calls_append:
  "calls nxt m s = Some (xs, t) \<Longrightarrow> calls nxt n t = Some (ys, u) \<Longrightarrow> calls nxt (m + n) s = Some (xs @ ys, u)"
  by (induction m arbitrary: s xs) (auto split: option.splits prod.splits)

text \<open>\<open>delivers fmt ms w s bs w' s' bs'\<close>: as many calls as there are media return exactly them.\<close>

definition packets :: "media list \<Rightarrow> stream_packet option result list" where
  "packets ms = map (\<lambda>m. Inr (Some (media_packet m))) ms"

definition at_rest :: "chunk_writer \<Rightarrow> 'x conn_scheme \<Rightarrow> bool" where
  "at_rest w s \<longleftrightarrow> listening w s \<and> cn_pending s = []"

lemma deliver_pending:
  assumes "list_all media_ok ms" and "listening w s" and "cn_pending s = map (media_message sid) ms"
  shows "\<exists>s'. (\<forall>bs. calls (next_packet_of fmt) (length ms) (s, bs) = Some (packets ms, (s', bs)))
    \<and> at_rest w s' \<and> rs_data_frames s' = fold media_frames ms (rs_data_frames s)"
  using assms
proof (induction ms arbitrary: s)
  case Nil
  then show ?case by (simp add: packets_def at_rest_def)
next
  case (Cons m ms)
  let ?s = "s\<lparr>cn_pending := map (media_message sid) ms, rs_data_frames := media_frames m (rs_data_frames s)\<rparr>"
  have "next_packet_of fmt (s, bs) = Some (Inr (Some (media_packet m)), (?s, bs))" for bs
    using next_pending[OF media_answers, of m s sid] Cons.prems by (simp add: listening_def)
  moreover have "listening w ?s" using listening_pending[OF Cons.prems(2)] Cons.prems(3) by simp
  then obtain s' where "\<And>bs. calls (next_packet_of fmt) (length ms) (?s, bs) = Some (packets ms, (s', bs))"
    "at_rest w s'" "rs_data_frames s' = fold media_frames ms (rs_data_frames ?s)"
    using Cons.IH[of ?s] Cons.prems(1) by auto
  ultimately show ?case by (auto simp: packets_def)
qed

lemma deliver_single:
  assumes "media_ok m" and "at_rest w s" and "csid_ok csid"
  shows "\<exists>s'. (\<forall>tail. calls (next_packet_of fmt) 1 (s, write_bytes w csid (media_message sid m) @ tail)
        = Some (packets [m], (s', tail)))
    \<and> at_rest (write_after w csid (media_message sid m)) s'
    \<and> rs_data_frames s' = media_frames m (rs_data_frames s)"
proof -
  let ?msg = "media_message sid m"
  have ok: "link_op_ok (Send csid ?msg)"
    using assms(1,3) media_payload[of sid m] by (simp add: media_ok_def)
  have rest: "listening w s" "cn_pending s = []" using assms(2) by (simp_all add: at_rest_def)
  obtain s1 where s1: "\<And>tail. session_round session_hangup (session_handle_message fmt) (session_handle_message fmt)
        (s, write_bytes w csid ?msg @ tail)
      = st_bind (session_handle_message fmt ?msg) (\<lambda>r. st_return (map_option Some r)) (s1, tail)"
    "listening (write_after w csid ?msg) s1" "cn_pending s1 = []" "rs_data_frames s1 = rs_data_frames s"
    by (rule listening_reads[OF rest(1) ok rest(2), of session_hangup "session_handle_message fmt" "session_handle_message fmt"])
      (blast intro: same_frames)
  let ?s = "s1\<lparr>rs_data_frames := media_frames m (rs_data_frames s)\<rparr>"
  have "next_packet_of fmt (s, write_bytes w csid ?msg @ tail) = Some (Inr (Some (media_packet m)), (?s, tail))" for tail
    using s1(1)[of tail] s1(4) media_answers[OF assms(1), of fmt sid]
    by (simp add: next_packet_of_def pump.simps[of _ "(s, write_bytes w csid ?msg @ tail)"] answers_with_def
        st_bind_def st_return_def)
  moreover have "at_rest (write_after w csid ?msg) ?s"
    using s1(2,3) by (simp add: at_rest_def listening_def conn_inv_def link_ok_def)
  ultimately show ?thesis by (intro exI[of _ ?s]) (simp add: packets_def)
qed

lemma deliver_batch:
  assumes "list_all media_ok ms" and "at_rest w s" and "ms \<noteq> []"
    and fits: "fits_aggregate (map (media_message sid) ms)" "length (msg_payload (aggregate_of sid (map (media_message sid) ms))) < 2 ^ 24"
  defines "msg \<equiv> aggregate_of sid (map (media_message sid) ms)"
  shows "\<exists>s'. (\<forall>tail. calls (next_packet_of fmt) (length ms) (s, write_bytes w CSID_DATA msg @ tail)
        = Some (packets ms, (s', tail)))
    \<and> at_rest (write_after w CSID_DATA msg) s' \<and> rs_data_frames s' = fold media_frames ms (rs_data_frames s)"
proof -
  have ok: "link_op_ok (Send CSID_DATA msg)"
    using fits(2) by (simp add: msg_def csids_ok)
  have rest: "listening w s" "cn_pending s = []" using assms(2) by (simp_all add: at_rest_def)
  obtain s1 where s1: "\<And>tail. session_round session_hangup (session_handle_message fmt) (session_handle_message fmt)
        (s, write_bytes w CSID_DATA msg @ tail)
      = st_bind (session_handle_message fmt msg) (\<lambda>r. st_return (map_option Some r)) (s1, tail)"
    "listening (write_after w CSID_DATA msg) s1" "cn_pending s1 = []" "ack_current (lk_reader s1)"
    "rs_data_frames s1 = rs_data_frames s"
    by (rule listening_reads[OF rest(1) ok rest(2), of session_hangup "session_handle_message fmt" "session_handle_message fmt"])
      (blast intro: same_frames)
  have parse: "parse_aggregate msg = Inr (map (media_message sid) ms)"
    using parse_aggregate_run[OF fits(1), of sid 0] by (simp add: msg_def o_def media_stream)
  let ?q = "s1\<lparr>cn_pending := map (media_message sid) ms\<rparr>"
  have "msg_type_id msg = MSG_AGGREGATE" by (simp add: msg_def aggregate_of_def)
  then have "session_handle_message fmt msg (s1, tail) = (Inr None, (?q, tail))" for tail
    using parse s1(3) by (simp add: session_handle_message_def is_command_def is_shared_object_def msg_types
        queue_aggregate_def modify_def st_bind_def st_return_def)
  then have first: "next_packet_of fmt (s, write_bytes w CSID_DATA msg @ tail) = next_packet_of fmt (?q, tail)" for tail
    using s1(1)[of tail]
    by (simp add: next_packet_of_def pump.simps[of _ "(s, write_bytes w CSID_DATA msg @ tail)"] st_bind_def st_return_def)
  have q: "listening (write_after w CSID_DATA msg) ?q"
    using s1(2,4) by (simp add: listening_def conn_inv_def link_ok_def)
  obtain s' where s': "\<And>bs. calls (next_packet_of fmt) (length ms) (?q, bs) = Some (packets ms, (s', bs))"
    "at_rest (write_after w CSID_DATA msg) s'" "rs_data_frames s' = fold media_frames ms (rs_data_frames s)"
    using deliver_pending[OF assms(1) q, of sid fmt] s1(5) by auto
  obtain n where n: "length ms = Suc n" using assms(3) by (cases ms) auto
  have "calls (next_packet_of fmt) (length ms) (s, write_bytes w CSID_DATA msg @ tail) = Some (packets ms, (s', tail))" for tail
    using s'(1)[of tail] by (simp add: n first)
  with s'(2,3) show ?thesis by blast
qed

section \<open>Sending\<close>

fun op_sends :: "u32 \<Rightarrow> publish_op \<Rightarrow> link_op list" where
  "op_sends sid (Single m) = [Send (case m of MVideo _ _ \<Rightarrow> CSID_VIDEO | MAudio _ _ \<Rightarrow> CSID_AUDIO | _ \<Rightarrow> CSID_DATA)
     (media_message sid m)]"
| "op_sends sid (Batch ms) = (if ms = [] then [] else [Send CSID_DATA (aggregate_of sid (map (media_message sid) ms))])"

lemma sub_bytes_size: "length (sub_bytes s) = 15 + length (msg_payload s)"
  by (simp add: sub_bytes_def Let_def)

lemma batch_fits:
  assumes "op_ok (Batch ms)"
  shows "fits_aggregate (map (media_message sid) ms)"
    "length (msg_payload (aggregate_of sid (map (media_message sid) ms))) < 2 ^ 24"
proof -
  have "(\<Sum>m \<leftarrow> ms. 15 + length (msg_payload (media_message sid m))) < 2 ^ 24"
    using assms by (simp add: media_payload[of sid])
  then show "length (msg_payload (aggregate_of sid (map (media_message sid) ms))) < 2 ^ 24"
    "fits_aggregate (map (media_message sid) ms)"
    using assms by (auto simp: aggregate_of_def length_concat o_def sub_bytes_size fits_aggregate_def list_all_iff
        media_ok_def media_payload[of sid])
qed

lemma publish_runs:
  assumes "op_ok op" and "1 \<le> cw_chunk_size (lk_writer c)"
  shows "publish op (c, bs) = (Inr (), (c\<lparr>lk_writer := after (lk_writer c) (op_sends (cn_stream_id c) op)\<rparr>, bs))"
proof (cases op)
  case (Single m)
  then show ?thesis
    using assms(2) csids_ok
    by (cases m) (simp_all add: send_defs build_set_data_frame_def st_bind_def st_get_user_def transmit_run)
next
  case (Batch ms)
  let ?sid = "cn_stream_id c"
  have "build_aggregate ?sid (map (\<lambda>s. s\<lparr>msg_stream_id := ?sid\<rparr>) (map (media_message 0) ms))
      = Inr (aggregate_of ?sid (map (media_message ?sid) ms))"
    using batch_fits(1)[of ms ?sid] assms(1) Batch by (simp add: o_def media_stream build_aggregate_run)
  then show ?thesis
    using assms(2) csids_ok Batch
    by (simp add: send_aggregate_def with_stream_id_def st_bind_def st_get_user_def transmit_run st_return_def)
qed

lemma op_delivered:
  assumes "op_ok op" and "at_rest w s"
  shows "ops_ok (op_sends sid op) \<and> (\<exists>s'. (\<forall>tail. calls (next_packet_of fmt) (length (media_of op)) (s, wire w (op_sends sid op) @ tail)
        = Some (packets (media_of op), (s', tail)))
    \<and> at_rest (after w (op_sends sid op)) s' \<and> rs_data_frames s' = fold media_frames (media_of op) (rs_data_frames s))"
proof (cases op)
  case (Single m)
  let ?csid = "case m of MVideo _ _ \<Rightarrow> CSID_VIDEO | MAudio _ _ \<Rightarrow> CSID_AUDIO | _ \<Rightarrow> CSID_DATA"
  have csid: "csid_ok ?csid" using csids_ok by (simp split: media.split)
  show ?thesis
    using deliver_single[of m w s ?csid fmt sid, OF _ assms(2) csid] assms(1) Single csid
    by (simp add: media_ok_def media_payload[of sid])
next
  case (Batch ms)
  show ?thesis
  proof (cases "ms = []")
    case True
    then show ?thesis using assms(2) Batch by (simp add: packets_def)
  next
    case False
    have ok: "list_all media_ok ms" "op_ok (Batch ms)" using assms(1) Batch by simp_all
    show ?thesis
      using deliver_batch[OF ok(1) assms(2) False batch_fits[OF ok(2)]] batch_fits(2)[OF ok(2), of sid] Batch False csids_ok
      by simp
  qed
qed

section \<open>From the URL to the packets\<close>

primrec in_order :: "('s, unit) st list \<Rightarrow> ('s, unit) st" where
  "in_order [] = st_return ()"
| "in_order (p # ps) = st_bind p (\<lambda>_. in_order ps)"

lemma all_published:
  assumes "list_all op_ok ops" and "at_rest (lk_writer c) s" and "1 \<le> cw_chunk_size (lk_writer c)"
  shows "\<exists>w s'. in_order (map publish ops) (c, bs) = (Inr (), (c\<lparr>lk_writer := w\<rparr>, bs))
    \<and> (\<exists>sent. cw_stream w = cw_stream (lk_writer c) @ sent
        \<and> (\<forall>tail. calls (next_packet_of fmt) (length (concat (map media_of ops))) (s, sent @ tail)
            = Some (packets (concat (map media_of ops)), (s', tail))))
    \<and> at_rest w s' \<and> rs_data_frames s' = fold media_frames (concat (map media_of ops)) (rs_data_frames s)"
  using assms
proof (induction ops arbitrary: c s)
  case Nil
  then show ?case
    by (intro exI[of _ "lk_writer c"] exI[of _ s]) (simp add: st_return_def packets_def)
next
  case (Cons op ops)
  let ?ops = "op_sends (cn_stream_id c) op" and ?next = "next_packet_of fmt"
  let ?c = "c\<lparr>lk_writer := after (lk_writer c) ?ops\<rparr>" and ?sent = "wire (lk_writer c) (op_sends (cn_stream_id c) op)"
  have op: "op_ok op" "list_all op_ok ops" using Cons.prems(1) by simp_all
  note run = publish_runs[OF op(1) Cons.prems(3)]
  obtain s1 where s1: "ops_ok ?ops" "\<And>tail. calls ?next (length (media_of op)) (s, ?sent @ tail)
        = Some (packets (media_of op), (s1, tail))"
    "at_rest (lk_writer ?c) s1" "rs_data_frames s1 = fold media_frames (media_of op) (rs_data_frames s)"
    using op_delivered[OF op(1) Cons.prems(2), of "cn_stream_id c" fmt] by auto
  note stream = after_stream[OF s1(1) Cons.prems(3)]
  obtain w s' sent where rest: "in_order (map publish ops) (?c, bs) = (Inr (), (?c\<lparr>lk_writer := w\<rparr>, bs))"
    "cw_stream w = cw_stream (lk_writer ?c) @ sent"
    "\<And>tail. calls ?next (length (concat (map media_of ops))) (s1, sent @ tail)
       = Some (packets (concat (map media_of ops)), (s', tail))"
    "at_rest w s'" "rs_data_frames s' = fold media_frames (concat (map media_of ops)) (rs_data_frames s1)"
    using Cons.IH[OF op(2) s1(3)] stream by auto
  have "calls ?next (length (concat (map media_of (op # ops)))) (s, (?sent @ sent) @ tail)
      = Some (packets (concat (map media_of (op # ops))), (s', tail))" for tail
    using calls_append[OF s1(2) rest(3), of tail] by (simp add: packets_def)
  then show ?case
    using run[of bs] rest stream s1(4)
    by (intro exI[of _ w] exI[of _ s'] conjI exI[of _ "?sent @ sent"]) (simp_all add: st_bind_def)
qed

lemma frames_fold: "map_of (fold media_frames ms d) = fold media_view ms (map_of d)"
  by (induction ms arbitrary: d) (simp_all add: frames_view)

lemma published_run:
  assumes "parse_rtmp_url url = Inr u" and "dialogue_fits u ty ccaps scaps" and "digest_clear digest t1 t2 t3 t4"
    and "list_all op_ok ops"
  shows "\<exists>client w session session' l ng ng' heard unheard sent.
      client_connect fmt url ty ccaps digest t1 t2 (heard @ unheard) = (Inr client, (l, unheard))
    \<and> in_order (map publish ops) (client, unheard) = (Inr (), (client\<lparr>lk_writer := w\<rparr>, unheard))
    \<and> drive_until_request fmt scaps t3 t4 (cw_stream w)
        = (Inr (ReqPublish (publish_asked u ty ccaps 1)), (ng, sent))
    \<and> publish_accept (publish_asked u ty ccaps 1) (ng, sent) = (Inr session, (ng', sent))
    \<and> cw_stream (lk_writer session) = heard @ unheard
    \<and> rs_app session = ru_app u \<and> rs_stream_name session = ru_stream_name u \<and> rs_publish_type session = ty
    \<and> cl_handshake_kind client = hello_kind digest \<and> cl_server_caps client = server_caps_seen scaps
    \<and> fst (receive (client\<lparr>lk_writer := w\<rparr>, unheard)) = Inr (started u)
    \<and> calls (next_packet_of fmt) (length (concat (map media_of ops))) (session, sent)
        = Some (packets (concat (map media_of ops)), (session', []))
    \<and> at_rest w session' \<and> rs_data_frames session' = fold media_frames (concat (map media_of ops)) []"
proof -
  obtain client session l ng ng' heard unheard client2 where est:
    "\<And>more. connect_parsed fmt u ty ccaps digest t1 t2 (heard @ more) = (Inr client, (l, more))"
    "\<And>more. drive_until_request fmt scaps t3 t4 (cw_stream (lk_writer client) @ more)
          = (Inr (ReqPublish (publish_asked u ty ccaps 1)), (ng, more))"
    "\<And>more. publish_accept (publish_asked u ty ccaps 1) (ng, more) = (Inr session, (ng', more))"
    "cw_stream (lk_writer session) = heard @ unheard"
    "rs_app session = ru_app u" "rs_stream_name session = ru_stream_name u" "rs_publish_type session = ty"
    "cn_pending session = []" "\<not> cn_ended session" "rs_data_frames session = []"
    "cl_handshake_kind client = hello_kind digest" "cl_server_caps client = server_caps_seen scaps"
    "receive (client, unheard) = (Inr (started u), (client2, []))"
    "linked (lk_writer client) (lk_reader session)"
    using publishing_established[OF assms(2,3), of fmt] by metis
  have "link_ok ng" using drive_sound[of fmt scaps t3 t4 "cw_stream (lk_writer client) @ []"] est(2)[of "[]"] by simp
  then have "conn_inv session" using hoareD[OF accept_starts(1) _ est(3)[of "[]"]] by simp
  then have "at_rest (lk_writer client) session" using est(8,9,14) by (simp add: at_rest_def listening_def)
  from all_published[OF assms(4) this linked_chunk[OF est(14)], of unheard fmt]
  obtain w s' sent where pub: "in_order (map publish ops) (client, unheard) = (Inr (), (client\<lparr>lk_writer := w\<rparr>, unheard))"
    "cw_stream w = cw_stream (lk_writer client) @ sent"
    "\<And>tail. calls (next_packet_of fmt) (length (concat (map media_of ops))) (session, sent @ tail)
        = Some (packets (concat (map media_of ops)), (s', tail))"
    "at_rest w s'" "rs_data_frames s' = fold media_frames (concat (map media_of ops)) (rs_data_frames session)" by blast
  have "fst (receive (client\<lparr>lk_writer := w\<rparr>, unheard)) = Inr (started u)"
    using est(13) by (auto simp: receive_def split: prod.splits)
  then show ?thesis
    using est(1)[of unheard] est(4-7,10-12) est(2)[of sent] est(3)[of sent] pub(1,2,4,5) pub(3)[of "[]"] assms(1)
    by (intro exI[of _ client] exI[of _ w] exI[of _ session] exI[of _ s'] exI[of _ l]
        exI[of _ ng] exI[of _ ng'] exI[of _ heard] exI[of _ unheard] exI[of _ sent]) (simp add: client_connect_def)
qed

text \<open>
  C1. What is published arrives.  For every URL, publish type and capabilities, with or without the digest
  handshake, and every list of calls of the client's sending methods (audio, video, metadata, data frames set and
  cleared, aggregates): \<open>RtmpClient::connect\<close> and the server's negotiation, each reading exactly
  what the other writes, agree on a session that carries the URL's application, stream name and publish
  type and both sides' capabilities; the server's \<open>next_packet\<close> then hands out exactly one packet per
  item, in the order of the calls with aggregates unpacked, and leaves nothing unread; and the data frames it
  has in store are those of a map to which the same calls were applied.
\<close>

theorem published_media_arrive:
  assumes "parse_rtmp_url url = Inr u" and "dialogue_fits u ty ccaps scaps" and "digest_clear digest t1 t2 t3 t4"
    and "list_all op_ok ops"
  shows "\<exists>client client' session session' l ng ng' heard unheard sent.
      client_connect fmt url ty ccaps digest t1 t2 (heard @ unheard) = (Inr client, (l, unheard))
    \<and> in_order (map publish ops) (client, unheard) = (Inr (), (client', unheard))
    \<and> drive_until_request fmt scaps t3 t4 (cw_stream (lk_writer client'))
        = (Inr (ReqPublish (publish_asked u ty ccaps 1)), (ng, sent))
    \<and> publish_accept (publish_asked u ty ccaps 1) (ng, sent) = (Inr session, (ng', sent))
    \<and> cw_stream (lk_writer session) = heard @ unheard
    \<and> rs_app session = ru_app u \<and> rs_stream_name session = ru_stream_name u \<and> rs_publish_type session = ty
    \<and> cl_handshake_kind client = hello_kind digest \<and> cl_server_caps client = server_caps_seen scaps
    \<and> fst (receive (client', unheard)) = Inr (started u)
    \<and> calls (next_packet_of fmt) (length (concat (map media_of ops))) (session, sent)
        = Some (packets (concat (map media_of ops)), (session', []))
    \<and> data_frame session' = fold media_view (concat (map media_of ops)) Map.empty"
proof -
  have "data_frame s = fold media_view ms Map.empty" if "rs_data_frames s = fold media_frames ms []" for s ms
    using frames_fold[of ms "[]"] that by (simp add: fun_eq_iff data_frame_def)
  note frames = this
  from published_run[OF assms, of fmt] show ?thesis
  proof (elim exE conjE, goal_cases)
    case (1 client w session session' l ng ng' heard unheard sent)
    then show ?case using frames
      by (intro exI[of _ client] exI[of _ "client\<lparr>lk_writer := w\<rparr>"] exI[of _ session] exI[of _ session'] exI[of _ l]
          exI[of _ ng] exI[of _ ng'] exI[of _ heard] exI[of _ unheard] exI[of _ sent]) simp
  qed
qed

definition sample_media :: "publish_op list" where
  "sample_media = [Single (MMetadata (A0Object [(lit ''width'', num 640)])),
     Single (MVideo 40 (avc_tag VIDEO_FRAME_KEYFRAME AVC_PACKET_TYPE_NALU [1, 2, 3])),
     Batch [MFrame (lit ''onCuePoint'') A0Null, MAudio 46 (aac_tag AAC_PACKET_TYPE_RAW [9])],
     Single (MClear (lit ''onMetaData''))]"

text \<open>The tags the convenience methods build are well formed.\<close>

lemma convenience_tags:
  "ft < 8 \<Longrightarrow> ft \<noteq> VIDEO_FRAME_COMMAND \<Longrightarrow> video_ok (avc_tag ft pt body)" "audio_ok (aac_tag apt body)"
  "ft \<noteq> VIDEO_FRAME_COMMAND \<Longrightarrow> length (build_video (avc_tag ft pt body)) = 5 + length body"
  "length (build_audio (aac_tag apt body)) = 2 + length body"
  by (simp_all add: video_ok_def audio_ok_def avc_tag_def aac_tag_def build_video_def build_audio_def
      build_legacy_video_def build_legacy_audio_def si24_ok_def sign_extend_si24_def cts_bytes_def
      video_consts audio_consts)

lemma sample_media_ok: "list_all op_ok sample_media"
  by (simp add: sample_media_def media_ok_def convenience_tags VIDEO_FRAME_KEYFRAME_def VIDEO_FRAME_COMMAND_def lit_ok MAX_DECODE_DEPTH_def build_set_data_frame_def short_ok_def
      build_set_data_frame_named_def build_clear_data_frame_def data_message_def utf8_short_def num_def)
    (simp add: SET_DATA_FRAME_def CLEAR_DATA_FRAME_def)

theorem published_media_arrive_witness:
  "\<exists>client client' session session' l ng ng' heard unheard sent.
      client_connect (\<lambda>_. []) (lit ''rtmp://h/live/cam'') (lit ''live'') caps_new False 1 2 (heard @ unheard) = (Inr client, (l, unheard))
    \<and> in_order (map publish sample_media) (client, unheard) = (Inr (), (client', unheard))
    \<and> drive_until_request (\<lambda>_. []) caps_new 3 4 (cw_stream (lk_writer client'))
        = (Inr (ReqPublish (publish_asked sample_url (lit ''live'') caps_new 1)), (ng, sent))
    \<and> publish_accept (publish_asked sample_url (lit ''live'') caps_new 1) (ng, sent) = (Inr session, (ng', sent))
    \<and> cw_stream (lk_writer session) = heard @ unheard
    \<and> rs_app session = ru_app sample_url \<and> rs_stream_name session = ru_stream_name sample_url \<and> rs_publish_type session = lit ''live''
    \<and> cl_handshake_kind client = hello_kind False \<and> cl_server_caps client = server_caps_seen caps_new
    \<and> fst (receive (client', unheard)) = Inr (started sample_url)
    \<and> calls (next_packet_of (\<lambda>_. [])) (length (concat (map media_of sample_media))) (session, sent)
        = Some (packets (concat (map media_of sample_media)), (session', []))
    \<and> data_frame session' = fold media_view (concat (map media_of sample_media)) Map.empty"
  by (rule published_media_arrive[OF sample_url_parses sample_fits _ sample_media_ok]) (simp add: digest_clear_def)

section \<open>Nested aggregates\<close>

text \<open>
  C18. An aggregate inside an aggregate is queued behind what follows it: its packets come after those of
  the later siblings, not where it stood.
\<close>

theorem nested_aggregate_order:
  assumes "list_all media_ok (ms @ ns)" and "listening w s" and "fits_aggregate (map (media_message sid) ms)"
    and "cn_pending s = aggregate_of sid (map (media_message sid) ms) # map (media_message sid) ns"
  shows "\<exists>s'. calls (next_packet_of fmt) (length (ns @ ms)) (s, bs) = Some (packets (ns @ ms), (s', bs))"
proof (cases "ns @ ms = []")
  case True
  then show ?thesis by (simp add: packets_def)
next
  case False
  let ?agg = "aggregate_of sid (map (media_message sid) ms)"
  let ?q = "s\<lparr>cn_pending := map (media_message sid) (ns @ ms)\<rparr>"
  have on: "\<not> cn_ended s" using assms(2) by (simp add: listening_def)
  have "parse_aggregate ?agg = Inr (map (media_message sid) ms)"
    using parse_aggregate_run[OF assms(3), of sid 0] by (simp add: o_def media_stream)
  moreover have "msg_type_id ?agg = MSG_AGGREGATE" by (simp add: aggregate_of_def)
  ultimately have "session_handle_message fmt ?agg (s\<lparr>cn_pending := map (media_message sid) ns\<rparr>, bs) = (Inr None, (?q, bs))"
    by (simp add: session_handle_message_def is_command_def is_shared_object_def msg_types
        queue_aggregate_def modify_def st_bind_def st_return_def)
  then have first: "next_packet_of fmt (s, bs) = next_packet_of fmt (?q, bs)"
    using assms(4) on
    by (simp add: next_packet_of_def pump.simps[of _ "(s, bs)"] session_round_def st_bind_def st_return_def)
  have q: "listening w ?q" using assms(2,4) by (simp add: listening_def conn_inv_def link_ok_def)
  have ok: "list_all media_ok (ns @ ms)" using assms(1) by simp
  obtain s' where "\<And>bs. calls (next_packet_of fmt) (length (ns @ ms)) (?q, bs) = Some (packets (ns @ ms), (s', bs))"
    using deliver_pending[OF ok q, of sid fmt] by auto
  note c = this[of bs]
  obtain n where "length (ns @ ms) = Suc n" using False by (cases "ns @ ms") auto
  with c first show ?thesis by (intro exI[of _ s']) (simp del: length_append)
qed

definition sample_queue :: rtmp_session where
  "sample_queue = \<lparr>lk_reader = reader_new, lk_writer = writer_new [], cn_stream_id = 1, cn_ended = False,
     cn_pending = aggregate_of 1 (map (media_message 1) [MAudio 7 (aac_tag AAC_PACKET_TYPE_RAW [9])])
       # map (media_message 1) [MClear (lit ''onCuePoint'')],
     cn_peer_bw = limiter_new, rs_app = [], rs_stream_name = [], rs_publish_type = [], rs_data_frames = []\<rparr>"

theorem nested_aggregate_order_witness:
  "\<exists>s'. calls (next_packet_of (\<lambda>_. [])) (length ([MClear (lit ''onCuePoint'')] @ [MAudio 7 (aac_tag AAC_PACKET_TYPE_RAW [9])]))
     (sample_queue, []) = Some (packets ([MClear (lit ''onCuePoint'')] @ [MAudio 7 (aac_tag AAC_PACKET_TYPE_RAW [9])]), (s', []))"
proof (rule nested_aggregate_order)
  show "list_all media_ok ([MAudio 7 (aac_tag AAC_PACKET_TYPE_RAW [9])] @ [MClear (lit ''onCuePoint'')])"
    by (simp add: media_ok_def convenience_tags lit_ok build_clear_data_frame_def data_message_def utf8_short_def)
      (simp add: CLEAR_DATA_FRAME_def)
  show "listening (writer_new []) sample_queue"
    using linked_new[of "[]"] by (simp add: listening_def sample_queue_def conn_inv_def link_ok_def)
      (simp add: ack_current_def reader_new_def writer_new_def DEFAULT_CHUNK_SIZE_def)
  show "fits_aggregate (map (media_message 1) [MAudio 7 (aac_tag AAC_PACKET_TYPE_RAW [9])])"
    by (simp add: fits_aggregate_def convenience_tags)
qed (simp add: sample_queue_def)

end
