(* ===== verification/Channel.thy ===== *)
theory Channel
  imports Delivery
begin

text \<open>
  One direction of an established session: an application performs operations on its end, and the reading
  method at the other end reports what they stand for.
\<close>

section \<open>A message that is read\<close>

text \<open>What the dispatch makes of the message: \<open>Some q\<close> is handed out, \<open>None\<close> is read over.\<close>

lemma read_one:
  assumes "at_rest w s" and "link_op_ok (Send csid msg)"
    and "\<And>t. at_rest (write_after w csid msg) t \<Longrightarrow>
      \<exists>t'. at_rest (write_after w csid msg) t' \<and> (\<forall>bs. on_wire msg (t, bs) = (Inr r, (t', bs)))"
  shows "\<exists>s'. at_rest (write_after w csid msg) s'
    \<and> (\<forall>tail. pump (session_round hangup on_sub on_wire) (s, write_bytes w csid msg @ tail) = (case r of
          Some q \<Rightarrow> Some (Inr (Some q), (s', tail)) | None \<Rightarrow> pump (session_round hangup on_sub on_wire) (s', tail)))"
proof -
  have rest: "listening w s" "cn_pending s = []" using assms(1) by (simp_all add: at_rest_def)
  obtain s1 where s1: "\<And>tail. session_round hangup on_sub on_wire (s, write_bytes w csid msg @ tail)
      = st_bind (on_wire msg) (\<lambda>x. st_return (map_option Some x)) (s1, tail)"
    "at_rest (write_after w csid msg) s1"
    by (rule listening_reads[OF rest(1) assms(2) rest(2), of hangup on_sub on_wire]) (auto simp: at_rest_def)
  obtain s' where s': "at_rest (write_after w csid msg) s'" "\<And>bs. on_wire msg (s1, bs) = (Inr r, (s', bs))"
    using assms(3)[OF s1(2)] by blast
  have "pump (session_round hangup on_sub on_wire) (s, write_bytes w csid msg @ tail) = (case r of
      Some q \<Rightarrow> Some (Inr (Some q), (s', tail)) | None \<Rightarrow> pump (session_round hangup on_sub on_wire) (s', tail))" for tail
    using s1(1)[of tail] s'(2)[of tail]
    by (simp add: pump.simps[of _ "(s, write_bytes w csid msg @ tail)"] st_bind_def st_return_def split: option.split)
  with s'(1) show ?thesis by blast
qed

lemma read_over: "at_rest w s \<Longrightarrow> (\<And>bs. p (s, bs) = (Inr r, (s, bs))) \<Longrightarrow>
    \<exists>t. at_rest w t \<and> (\<forall>bs. p (s, bs) = (Inr r, (t, bs)))"
  by blast

text \<open>
  \<open>hears hear w ops s evs\<close>: where the bytes of \<open>ops\<close> are next, the reading method hands out exactly \<open>evs\<close> before
  whatever comes after them, and the session is in step again.
\<close>

definition hears ::
    "('y conn_scheme \<times> u8 list \<Rightarrow> ('p option result \<times> 'y conn_scheme \<times> u8 list) option)
     \<Rightarrow> chunk_writer \<Rightarrow> link_op list \<Rightarrow> 'y conn_scheme \<Rightarrow> 'p list \<Rightarrow> bool" where
  "hears hear w ops s evs \<longleftrightarrow> (\<exists>s'. at_rest (after w ops) s'
     \<and> (\<forall>tail n rs u. calls hear (Suc n) (s', tail) = Some (rs, u) \<longrightarrow>
          calls hear (length evs + Suc n) (s, wire w ops @ tail) = Some (map (\<lambda>q. Inr (Some q)) evs @ rs, u)))"

lemma hears_nothing: "at_rest w s \<Longrightarrow> hears hear w [] s []"
  by (auto simp: hears_def)

lemma hears_append:
  assumes "hears hear w xs s es" and "\<And>t. at_rest (after w xs) t \<Longrightarrow> hears hear (after w xs) ys t fs"
  shows "hears hear w (xs @ ys) s (es @ fs)"
proof -
  obtain t where t: "at_rest (after w xs) t" "\<And>tail n rs u. calls hear (Suc n) (t, tail) = Some (rs, u) \<Longrightarrow>
      calls hear (length es + Suc n) (s, wire w xs @ tail) = Some (map (\<lambda>q. Inr (Some q)) es @ rs, u)"
    using assms(1) by (auto simp: hears_def)
  obtain s' where s': "at_rest (after (after w xs) ys) s'" "\<And>tail n rs u. calls hear (Suc n) (s', tail) = Some (rs, u) \<Longrightarrow>
      calls hear (length fs + Suc n) (t, wire (after w xs) ys @ tail) = Some (map (\<lambda>q. Inr (Some q)) fs @ rs, u)"
    using assms(2)[OF t(1)] by (auto simp: hears_def)
  have "calls hear (length (es @ fs) + Suc n) (s, wire w (xs @ ys) @ tail) = Some (map (\<lambda>q. Inr (Some q)) (es @ fs) @ rs, u)"
    if "calls hear (Suc n) (s', tail) = Some (rs, u)" for tail n rs u
    using t(2)[of "length fs + n" "wire (after w xs) ys @ tail"] s'(2)[OF that] by (simp add: wire_append add.assoc)
  with s'(1) show ?thesis unfolding hears_def after_append by blast
qed

text \<open>One message.\<close>

lemma hears_one:
  fixes s :: "'y conn_scheme"
  assumes "at_rest w s" and "link_op_ok (Send csid msg)" and hear: "hear = pump (session_round hangup on_sub on_wire)"
    and "\<And>t :: 'y conn_scheme. at_rest (write_after w csid msg) t \<Longrightarrow>
      \<exists>t'. at_rest (write_after w csid msg) t' \<and> (\<forall>bs. on_wire msg (t, bs) = (Inr r, (t', bs)))"
  shows "hears hear w [Send csid msg] s (case r of Some q \<Rightarrow> [q] | None \<Rightarrow> [])"
proof -
  obtain s' where s': "at_rest (write_after w csid msg) s'" "\<And>tail. hear (s, write_bytes w csid msg @ tail) = (case r of
      Some q \<Rightarrow> Some (Inr (Some q), (s', tail)) | None \<Rightarrow> hear (s', tail))"
    using read_one[where on_wire = on_wire and r = r and hangup = hangup and on_sub = on_sub, OF assms(1,2,4)]
    unfolding hear by blast
  then show ?thesis unfolding hears_def by (intro exI[of _ s']) (cases r; simp)
qed

text \<open>The end of the connection.\<close>

lemma read_nothing: "read_message (r, []) = (Inl wire_eof, (r, []))"
  by (simp add: read_message_def st_until_def read_chunk_def read_basic_header_def st_bind_def read_exact_short)

lemma latched_end:
  assumes "at_rest w s"
  shows "pump (session_round latching_hangup f g) (s, []) = Some (Inr None, (s\<lparr>cn_ended := True\<rparr>, []))"
  using assms
  by (simp add: at_rest_def listening_def pump.simps[of _ "(s, [])"] session_round_def receive_def read_nothing
      latching_hangup_def is_hangup_def wire_eof_def latch_ended_def modify_def st_bind_def st_return_def)

section \<open>What an end makes of a message\<close>

definition speaks :: "link_op list \<Rightarrow> 'x conn_scheme \<Rightarrow> 'x conn_scheme \<Rightarrow> bool" where
  "speaks ops c c' \<longleftrightarrow> lk_writer c' = after (lk_writer c) ops \<and> lk_reader c' = lk_reader c
     \<and> cn_pending c' = cn_pending c \<and> cn_ended c' = cn_ended c"

text \<open>Whatever its state, the end reports \<open>r\<close> of the message and sends \<open>ans\<close>.\<close>

definition reacts ::
    "('x conn_scheme \<Rightarrow> 'k) \<Rightarrow> (message \<Rightarrow> ('x, 'p option) on_conn) \<Rightarrow> message \<Rightarrow> 'p option \<Rightarrow> link_op list \<Rightarrow> bool" where
  "reacts view handle msg r ans \<longleftrightarrow> (\<forall>c. 1 \<le> cw_chunk_size (lk_writer c) \<longrightarrow>
     (\<exists>c'. (\<forall>bs. handle msg (c, bs) = (Inr r, (c', bs))) \<and> speaks ans c c' \<and> view c' = view c))"

lemma reacts_still: "(\<And>s. handle msg s = (Inr r, s)) \<Longrightarrow> reacts view handle msg r []"
  by (auto simp: reacts_def speaks_def)

lemma rest_chunk: "at_rest w c \<Longrightarrow> 1 \<le> cw_chunk_size (lk_writer c) \<and> 1 \<le> cw_chunk_size w"
  using linked_chunk by (auto simp: at_rest_def listening_def conn_inv_def link_ok_def)

lemma speaks_rest:
  assumes "at_rest w c" and "speaks ops c c'" and "ops_ok ops"
  shows "at_rest w c'"
proof -
  have "1 \<le> cw_chunk_size (lk_writer c')"
    using assms after_stream[OF assms(3)] rest_chunk[OF assms(1)] by (simp add: speaks_def)
  with assms(1,2) show ?thesis by (simp add: at_rest_def listening_def conn_inv_def link_ok_def speaks_def)
qed

text \<open>Reports that are not counted, such as the client's \<open>Other\<close>.\<close>

definition heeded :: "('p \<Rightarrow> bool) \<Rightarrow> 'p option \<Rightarrow> 'p list" where
  "heeded noise r = (case r of None \<Rightarrow> [] | Some q \<Rightarrow> if noise q then [] else [q])"

lemma heeded_all: "heeded (\<lambda>_. False) r = (case r of None \<Rightarrow> [] | Some q \<Rightarrow> [q])"
  by (simp add: heeded_def split: option.split)

fun understood :: "('p \<Rightarrow> bool) \<Rightarrow> (message \<Rightarrow> 'p option \<Rightarrow> bool) \<Rightarrow> link_op list \<Rightarrow> 'p list \<Rightarrow> bool" where
  "understood noise R [] ps \<longleftrightarrow> ps = []"
| "understood noise R (Send csid msg # ops) ps \<longleftrightarrow> (\<exists>r rest. R msg r \<and> ps = heeded noise r @ rest \<and> understood noise R ops rest)"
| "understood noise R (Resize n # ops) ps \<longleftrightarrow> False"

lemma understood_one: "R msg r \<Longrightarrow> ps = heeded noise r \<Longrightarrow> understood noise R [Send csid msg] ps"
  by auto

lemma understood_append: "understood noise R xs ps \<Longrightarrow> understood noise R ys qs \<Longrightarrow> understood noise R (xs @ ys) (ps @ qs)"
  by (induction noise R xs ps rule: understood.induct) auto

lemma understood_silent:
  "list_all (\<lambda>op. \<exists>csid msg r. op = Send csid msg \<and> R msg r \<and> heeded noise r = []) ops \<Longrightarrow> understood noise R ops []"
  by (induction ops) auto

lemma understood_noise: "understood (\<lambda>_. False) R ops ps \<Longrightarrow> understood noise R ops (filter (\<lambda>q. \<not> noise q) ps)"
proof (induction ops arbitrary: ps)
  case (Cons op ops)
  have "filter (\<lambda>q. \<not> noise q) (heeded (\<lambda>_. False) r) = heeded noise r" for r
    by (simp add: heeded_def split: option.split)
  with Cons show ?case by (cases op) fastforce+
qed simp

lemma understood_heard:
  assumes "understood (\<lambda>_. False) R ops ps" and "ops_ok ops" and "at_rest w s"
    and hear: "hear = pump (session_round hangup on_sub on_wire)"
    and react: "\<And>msg r. R msg r \<Longrightarrow> \<exists>ans. reacts view on_wire msg r ans \<and> ops_ok ans"
  shows "hears hear w ops s ps"
  using assms(1-3)
proof (induction ops arbitrary: w s ps)
  case Nil
  then show ?case by (simp add: hears_nothing)
next
  case (Cons op ops)
  obtain csid msg where op: "op = Send csid msg" using Cons.prems(1) by (cases op) auto
  obtain r rest where r: "R msg r" "ps = heeded (\<lambda>_. False) r @ rest" "understood (\<lambda>_. False) R ops rest"
    using Cons.prems(1) op by auto
  obtain ans where ans: "reacts view on_wire msg r ans" "ops_ok ans" using react[OF r(1)] by blast
  have ok: "link_op_ok (Send csid msg)" "ops_ok ops" using Cons.prems(2) op by simp_all
  have "\<exists>t'. at_rest v t' \<and> (\<forall>bs. on_wire msg (t, bs) = (Inr r, (t', bs)))" if "at_rest v t" for v t
    using ans rest_chunk[OF that] speaks_rest[OF that] unfolding reacts_def by meson
  from hears_one[OF Cons.prems(3) ok(1) hear this]
  have "hears hear w [op] s (heeded (\<lambda>_. False) r)" by (simp add: op heeded_all)
  from hears_append[OF this Cons.IH[OF r(3) ok(2)]] show ?case by (simp add: op r(2))
qed

section \<open>The channel\<close>

text \<open>
  What a sequence of operations is reported as; what an operation says may depend on what the state of its end
  shows (\<open>view\<close>), such as the stream id or the number of calls made, and \<open>proper\<close> bounds what it may show.
\<close>

primrec told :: "('k \<Rightarrow> 'op \<Rightarrow> 'p list) \<Rightarrow> ('k \<Rightarrow> 'op \<Rightarrow> 'k) \<Rightarrow> 'k \<Rightarrow> 'op list \<Rightarrow> 'p list" where
  "told events step k [] = []"
| "told events step k (x # xs) = events k x @ told events step (step k x) xs"

locale channel =
  fixes perform :: "'op \<Rightarrow> ('x, unit) on_conn"
    and view :: "'x conn_scheme \<Rightarrow> 'k" and step :: "'k \<Rightarrow> 'op \<Rightarrow> 'k"
    and says :: "'k \<Rightarrow> 'op \<Rightarrow> link_op list"
    and hear :: "'y conn_scheme \<times> u8 list \<Rightarrow> ('p option result \<times> 'y conn_scheme \<times> u8 list) option"
    and events :: "'k \<Rightarrow> 'op \<Rightarrow> 'p list"
    and fine :: "'op \<Rightarrow> bool" and proper :: "'k \<Rightarrow> bool"
  assumes performed: "fine x \<Longrightarrow> proper (view c) \<Longrightarrow> 1 \<le> cw_chunk_size (lk_writer c) \<Longrightarrow>
      \<exists>c'. perform x (c, bs) = (Inr (), (c', bs)) \<and> speaks (says (view c) x) c c'
        \<and> view c' = step (view c) x"
    and stays: "proper k \<Longrightarrow> proper (step k x)"
    and fits: "fine x \<Longrightarrow> proper k \<Longrightarrow> ops_ok (says k x)"
    and heard: "fine x \<Longrightarrow> proper k \<Longrightarrow> at_rest w s \<Longrightarrow> hears hear w (says k x) s (events k x)"
begin

lemma all_heard:
  assumes "list_all fine xs" and "proper (view c)" and "1 \<le> cw_chunk_size (lk_writer c)"
  shows "\<exists>c' ops. in_order (map perform xs) (c, bs) = (Inr (), (c', bs)) \<and> lk_writer c' = after (lk_writer c) ops
    \<and> ops_ok ops \<and> (\<forall>s. at_rest (lk_writer c) s \<longrightarrow> hears hear (lk_writer c) ops s (told events step (view c) xs))"
  using assms
proof (induction xs arbitrary: c)
  case Nil
  then show ?case by (intro exI[of _ c] exI[of _ "[]"]) (simp add: st_return_def hears_nothing)
next
  case (Cons x xs)
  let ?ops = "says (view c) x"
  have x: "fine x" "list_all fine xs" using Cons.prems(1) by simp_all
  obtain c1 where c1: "perform x (c, bs) = (Inr (), (c1, bs))" "lk_writer c1 = after (lk_writer c) ?ops"
    "view c1 = step (view c) x"
    using performed[OF x(1) Cons.prems(2,3)] unfolding speaks_def by blast
  have ok: "ops_ok ?ops" and chunk: "1 \<le> cw_chunk_size (lk_writer c1)"
    using fits[OF x(1) Cons.prems(2)] after_stream[OF fits[OF x(1) Cons.prems(2)] Cons.prems(3)] c1(2) by simp_all
  have proper: "proper (view c1)" using stays[OF Cons.prems(2)] c1(3) by simp
  obtain c' ops where rest: "in_order (map perform xs) (c1, bs) = (Inr (), (c', bs))" "lk_writer c' = after (lk_writer c1) ops"
    "ops_ok ops" "\<And>s. at_rest (lk_writer c1) s \<Longrightarrow> hears hear (lk_writer c1) ops s (told events step (view c1) xs)"
    using Cons.IH[OF x(2) proper chunk] by blast
  have "hears hear (lk_writer c) (?ops @ ops) s (told events step (view c) (x # xs))" if "at_rest (lk_writer c) s" for s
    using hears_append[OF heard[OF x(1) Cons.prems(2) that] rest(4)[unfolded c1(2)]] c1(3) by simp
  then show ?case
    using c1 rest ok
    by (intro exI[of _ c'] exI[of _ "?ops @ ops"]) (simp add: st_bind_def after_append)
qed

end

text \<open>What is heard, and then one more answer.\<close>

lemma hears_then:
  assumes "hears hear w ops s evs" and "\<And>t. at_rest (after w ops) t \<Longrightarrow> \<exists>t'. hear (t, tail) = Some (r, t') \<and> P t'"
  shows "\<exists>t. calls hear (length evs + 1) (s, wire w ops @ tail) = Some (map (\<lambda>q. Inr (Some q)) evs @ [r], t) \<and> P t"
proof -
  obtain s' where s': "at_rest (after w ops) s'" "\<And>n rs u. calls hear (Suc n) (s', tail) = Some (rs, u) \<Longrightarrow>
      calls hear (length evs + Suc n) (s, wire w ops @ tail) = Some (map (\<lambda>q. Inr (Some q)) evs @ rs, u)"
    using assms(1) by (auto simp: hears_def)
  obtain t where "hear (s', tail) = Some (r, t)" "P t" using assms(2)[OF s'(1)] by blast
  with s'(2)[of 0 "[r]" t] show ?thesis by simp
qed

end
