(* ===== verification/Playback.thy ===== *)
theory Playback
  imports Channel
begin

text \<open>
  The playing side: how a player's session comes about, and what \<open>forward\<close> makes of a publisher's packets
  at the player.
\<close>

section \<open>Messages\<close>

lemma utf8_ascii_prefix: "list_all (\<lambda>c. (of_char c :: u8) < 0x80) s \<Longrightarrow> utf8_valid (lit s @ bs) = utf8_valid bs"
  by (induction s) (simp_all add: lit_def)

lemma long_ok_prefix:
  "list_all (\<lambda>c. (of_char c :: u8) < 0x80) s \<Longrightarrow> utf8_valid bs \<Longrightarrow> length s + length bs < 2 ^ 32 \<Longrightarrow> long_ok (lit s @ bs)"
  by (simp add: long_ok_def utf8_ascii_prefix)

definition status_object :: "rstring \<Rightarrow> rstring \<Rightarrow> amf0_value" where
  "status_object code description = A0Object [(lit ''level'', A0String (lit ''status'')), (lit ''code'', A0String code),
     (lit ''description'', A0String description)]"

lemma on_status_decodes:
  assumes "long_ok code" "long_ok description"
  shows "amf0_decode_all fmt (msg_payload (build_on_status sid (lit ''status'') code description))
    = Inr [A0String (lit ''onStatus''), A0Number 0, A0Null, status_object code description]"
proof -
  have "amf0_fits 0 (status_object code description)"
    using assms by (simp add: status_object_def MAX_DECODE_DEPTH_def lit_ok)
  then show ?thesis
    using command_decodes[of "lit ''onStatus''" A0Null "[status_object code description]" fmt 0]
    by (simp add: build_on_status_def command_message_def status_object_def lit_ok MAX_DECODE_DEPTH_def)
qed

lemma status_fields:
  "opt_field (Some (status_object c d)) ''code'' = c" "opt_field (Some (status_object c d)) ''level'' = lit ''status''"
  by (simp_all add: opt_field_def status_object_def a0_get_def a0_as_str_def unwrap_or_def)

text \<open>Remote calls and their replies, and shared objects, in either direction.\<close>

definition call_ok :: "call_command \<Rightarrow> bool" where
  "call_ok c \<longleftrightarrow> long_ok (call_procedure c) \<and> \<not> is_reserved_command_name (call_procedure c)
     \<and> amf0_fits 0 (call_command_object c) \<and> list_all (amf0_fits 0) (call_arguments c)"

lemma call_decodes:
  assumes "call_ok c"
  shows "amf0_decode_all fmt (msg_payload (call_to_message c))
    = Inr (A0String (call_procedure c) # A0Number (call_transaction_id c) # call_command_object c # call_arguments c)"
  using assms command_decodes[of "call_procedure c" "call_command_object c" "call_arguments c" fmt "call_transaction_id c"]
  by (simp add: call_ok_def call_to_message_def build_call_def command_message_def list_all_iff)

lemma call_names:
  assumes "call_ok c"
  shows "call_procedure c \<noteq> lit ''onStatus''" "call_procedure c \<noteq> lit ''_result''" "call_procedure c \<noteq> lit ''_error''"
    "call_procedure c \<notin> lit ` set [''closeStream'', ''deleteStream'', ''close'']"
  using assms by (auto simp: call_ok_def lit_reserved reserved_names_def)

lemma call_parsed: "call_parse (A0String (call_procedure c) # A0Number (call_transaction_id c) # call_command_object c # call_arguments c)
    = Some c"
  by (simp add: call_parse_def value_defs unwrap_or_def)

definition reply_values :: "string \<Rightarrow> f64 \<Rightarrow> amf0_value \<Rightarrow> amf0_value \<Rightarrow> amf0_value list" where
  "reply_values name tx obj response = [A0String (lit name), A0Number tx, obj, response]"

lemma reply_decodes:
  assumes "amf0_fits 0 obj" "amf0_fits 0 response"
  shows "amf0_decode_all fmt (msg_payload (build_call_result tx obj response)) = Inr (reply_values ''_result'' tx obj response)"
    "amf0_decode_all fmt (msg_payload (build_call_error tx obj response)) = Inr (reply_values ''_error'' tx obj response)"
  using assms command_decodes[of "lit ''_result''" obj "[response]" fmt tx] command_decodes[of "lit ''_error''" obj "[response]" fmt tx]
  by (simp_all add: build_call_result_def build_call_error_def command_message_def lit_ok reply_values_def)

lemma call_types: "msg_type_id (call_to_message c) = MSG_COMMAND_AMF0"
  "msg_type_id (build_call_result tx obj response) = MSG_COMMAND_AMF0"
  "msg_type_id (build_call_error tx obj response) = MSG_COMMAND_AMF0"
  by (simp_all add: call_to_message_def build_call_def build_call_result_def build_call_error_def command_message_def)

lemma object_parses:
  assumes "so_ok (amf0_fits 0) so" "to_message_amf0 so 0 = Inr m"
  shows "parse_shared_object fmt m = Inr so" "msg_type_id m = MSG_SHARED_OBJECT_AMF0"
  using assms so0.message_parses[OF _ assms(1), of _ fmt]
  by (auto simp: to_message_amf0_def so_build_amf0_def parse_shared_object_def so_message_def so_parse_amf0_def res_bind_eq_Inr)

lemma status_types: "msg_type_id (build_on_status sid l c d) = MSG_COMMAND_AMF0"
  by (simp add: build_on_status_def)

section \<open>The server's side\<close>

definition buffer_ops :: "u32 option \<Rightarrow> u32 \<Rightarrow> link_op list" where
  "buffer_ops b sid = (case b of None \<Rightarrow> [] | Some ms \<Rightarrow> [ctl_op (build_user_control_set_buffer_length sid ms)])"

definition asked_play :: "play_options \<Rightarrow> rstring \<Rightarrow> netstream_command" where
  "asked_play opts name = NsPlay name (po_start opts) (po_duration opts) (po_reset opts)"

definition play_script :: "rtmp_url \<Rightarrow> play_options \<Rightarrow> u32 \<Rightarrow> link_op list" where
  "play_script u opts sid =
    [ctl_op (build_set_chunk_size CLIENT_CHUNK_SIZE), Resize (unat CLIENT_CHUNK_SIZE),
     cmd_op (build_connect_with_caps (f64_of_int 1) (ru_app u) (ru_tc_url u) FLASH_VER (po_capabilities opts)),
     cmd_op (build_create_stream (f64_of_int 2))] @ buffer_ops (po_buffer_length_ms opts) sid
    @ [cmd_op (ns_to_message (asked_play opts (ru_stream_name u)) sid)]"

definition play_answers :: "connect_capabilities \<Rightarrow> link_op list" where
  "play_answers caps = reply_ops (f64_of_int 1) caps @ [cmd_op (build_create_stream_result (f64_of_int 2) (f64_of_u32 1))]"

definition play_asked :: "rtmp_url \<Rightarrow> play_options \<Rightarrow> u32 \<Rightarrow> play_request" where
  "play_asked u opts sid = (case ns_explicit (asked_play opts (ru_stream_name u)) of NsPlay name start duration reset \<Rightarrow>
     \<lparr>pl_app = ru_app u, pl_stream_name = name, pl_start = start, pl_duration = duration, pl_reset = reset,
      pl_buffer_length_ms = po_buffer_length_ms opts, pl_tc_url = ru_tc_url u, pl_capabilities = po_capabilities opts,
      pl_stream_id = max sid 1, pl_tx_id = 0\<rparr>)"

lemma conv_setup_then:
  assumes "msg_type_id msg \<notin> {MSG_SET_CHUNK_SIZE, MSG_WINDOW_ACK_SIZE, MSG_SET_PEER_BANDWIDTH}"
    and "converses m (f False) ins outs x m'"
  shows "converses m (st_bind (setup_control msg) f) ins outs x m'"
  using conv_then[OF conv_setup_other[OF assms(1)], where f = f, OF assms(2)] .

lemma control_type: "msg_type_id (build_user_control_set_buffer_length i ms) = MSG_USER_CONTROL"
  "msg_type_id (build_user_control_stream_is_recorded i) = MSG_USER_CONTROL"
  "msg_type_id (build_user_control_stream_begin i) = MSG_USER_CONTROL"
  "length (msg_payload (build_user_control_set_buffer_length i ms)) = 10"
  "length (msg_payload (build_user_control_stream_is_recorded i)) = 6"
  by (simp_all add: control_builders control_message_def)

lemma control_parses:
  "ucm_parse (msg_payload (build_user_control_set_buffer_length i ms)) = Inr (UcSetBufferLength i ms)"
  "ucm_parse (msg_payload (build_user_control_stream_is_recorded i)) = Inr (UcStreamIsRecorded i)"
  "ucm_parse (msg_payload (build_user_control_stream_begin i)) = Inr (UcStreamBegin i)"
  by (simp_all add: ucm_defs)

lemma request_buffer_length:
  "converses (asked n b) (request_round fmt info) [ctl_op (build_user_control_set_buffer_length sid ms)] [] None (asked n (Some ms))"
proof -
  have "converses (asked n b) (modify (\<lambda>s. s\<lparr>ng_buffer_length_ms := Some ms\<rparr>)) [] [] () (asked n (Some ms))"
    by (rule conv_modify) simp
  from conv_map[OF this, of "\<lambda>_. None"] show ?thesis
    unfolding request_round_def
    by (intro conv_receive_then[OF op_ok_ctl] conv_setup_then) (simp_all add: control_type control_parses msg_types)
qed

lemma request_play:
  fixes b :: "u32 option"
  assumes "long_ok (ru_stream_name u)" and "length (msg_payload (ns_to_message (asked_play opts (ru_stream_name u)) sid)) < 2 ^ 24"
    and info: "info = \<lparr>ci_tc_url = ru_tc_url u, ci_app = ru_app u, ci_capabilities = po_capabilities opts\<rparr>"
    and b: "b = po_buffer_length_ms opts"
  shows "converses (asked n b) (request_round fmt info) [cmd_op (ns_to_message (asked_play opts (ru_stream_name u)) sid)] []
    (Some (ReqPlay (play_asked u opts sid))) (asked n b)"
proof -
  let ?c = "asked_play opts (ru_stream_name u)"
  let ?vs = "A0String (command_name ?c) # A0Number 0 # A0Null # ns_args ?c"
  have fits: "ns_fits ?c" using assms(1) by (simp add: ns_fits_def asked_play_def)
  have name: "command_name ?c = lit ''play''" by (simp add: asked_play_def command_name_def)
  have dec: "amf0_decode_all fmt (encode_command (command_name ?c) 0 A0Null (ns_args ?c)) = Inr ?vs"
    using command_decodes[OF _ _ ns_args_fits[OF fits], of "command_name ?c" A0Null fmt 0]
    by (simp add: name lit_ok MAX_DECODE_DEPTH_def)
  have play: "play_of info (command_message sid p) 0 b ?vs = Inr (ReqPlay (play_asked u opts sid))" for p
    using ns_parse_args[of ?c] by (simp add: play_of_def info b play_asked_def ns_explicit_def asked_play_def)
  show ?thesis
    unfolding ns_to_message_def
  proof (rule conv_request[OF _ dec])
    show "length (encode_command (command_name ?c) 0 A0Null (ns_args ?c)) < 2 ^ 24"
      using assms(2) by (simp add: ns_to_message_def)
    have "converses (asked n b) (st_bind (st_lift (play_of info (command_message sid p) 0 b ?vs)) (\<lambda>r. st_return (Some r)))
        [] [] (Some (ReqPlay (play_asked u opts sid))) (asked n b)" for p
      by (simp add: play conv_return)
    then show "converses (asked n b) (request_command info (command_message sid (encode_command (command_name ?c) 0 A0Null (ns_args ?c))) ?vs)
        [] [] (Some (ReqPlay (play_asked u opts sid))) (asked n b)"
      unfolding request_command_def
      by (simp add: value_defs name, intro conv_get) simp
  qed
qed

lemma negotiate_play:
  assumes "url_ok u" "caps_fits (po_capabilities opts)" and ok: "ops_ok (play_script u opts sid)"
  shows "converses (asked 1 None) (negotiate fmt scaps) (play_script u opts sid)
    (play_answers scaps) (ReqPlay (play_asked u opts sid)) (asked 2 (po_buffer_length_ms opts))"
proof -
  let ?info = "\<lparr>ci_tc_url = ru_tc_url u, ci_app = ru_app u, ci_capabilities = po_capabilities opts\<rparr>"
  let ?connect = "build_connect_with_caps (f64_of_int 1) (ru_app u) (ru_tc_url u) FLASH_VER (po_capabilities opts)"
  let ?play = "cmd_op (ns_to_message (asked_play opts (ru_stream_name u)) sid)" and ?b = "po_buffer_length_ms opts"
  have strs: "long_ok (ru_app u)" "long_ok (ru_tc_url u)" "long_ok (ru_stream_name u)"
    using assms(1) by (simp_all add: url_ok_def)
  have lens: "length (msg_payload ?connect) < 2 ^ 24"
    "length (msg_payload (ns_to_message (asked_play opts (ru_stream_name u)) sid)) < 2 ^ 24"
    using ok by (simp_all add: play_script_def)
  have 1: "converses m (st_until (connect_round fmt scaps))
      [ctl_op (build_set_chunk_size CLIENT_CHUNK_SIZE), Resize (unat CLIENT_CHUNK_SIZE), cmd_op ?connect]
      (reply_ops (f64_of_int 1) scaps) ?info m" for m :: "unit negotiation_ext"
    using conv_until_step[OF shrinks_connect_round server_connect_chunk[OF chunk_sizes(1)]
        conv_until_done[OF shrinks_connect_round server_connect[OF assms(2) strs(1,2) flash_ver_ok lens(1)]]]
    by simp
  note step = conv_until_step[OF shrinks_request_round]
  note play = conv_until_done[OF shrinks_request_round request_play[OF strs(3) lens(2) refl refl, where n = 2 and fmt = fmt]]
  have buffer: "converses (asked 2 None) (st_until (request_round fmt ?info)) (buffer_ops ?b sid @ [?play]) []
      (ReqPlay (play_asked u opts sid)) (asked 2 ?b)"
  proof (cases ?b)
    case None
    then show ?thesis using play by (simp add: buffer_ops_def)
  next
    case (Some ms)
    then show ?thesis using step[OF request_buffer_length[where n = 2 and b = None and fmt = fmt and info = ?info and sid = sid and ms = ms] play[unfolded Some]]
      by (simp add: buffer_ops_def)
  qed
  have 2: "converses (asked 1 None) (st_until (request_round fmt ?info))
      (cmd_op (build_create_stream (f64_of_int 2)) # buffer_ops ?b sid @ [?play])
      [cmd_op (build_create_stream_result (f64_of_int 2) (f64_of_u32 1))] (ReqPlay (play_asked u opts sid)) (asked 2 ?b)"
    using step[OF request_create_stream[where n = 1 and b = None and fmt = fmt and info = ?info and tx = "f64_of_int 2",
        unfolded one_add_one] buffer] by simp
  from conv_bind[OF 1[of "asked 1 None"], of "\<lambda>info. st_until (request_round fmt info)", OF 2] show ?thesis
    by (simp add: negotiate_def play_script_def play_answers_def)
qed

text \<open>What accepting the request says.\<close>

definition start_status :: "u32 \<Rightarrow> rstring \<Rightarrow> message" where
  "start_status sid name = build_on_status sid (lit ''status'') STATUS_PLAY_START (lit ''Started playing '' @ name)"

definition reset_status :: "u32 \<Rightarrow> rstring \<Rightarrow> message" where
  "reset_status sid name = build_on_status sid (lit ''status'') STATUS_PLAY_RESET (lit ''Playing and resetting '' @ name)"

definition start_ops :: "bool \<Rightarrow> play_request \<Rightarrow> link_op list" where
  "start_ops recorded req = (let sid = pl_stream_id req in
     (if recorded then [ctl_op (build_user_control_stream_is_recorded sid)] else [])
     @ [ctl_op (build_user_control_stream_begin sid)]
     @ (if pl_reset req = Some True then [cmd_op (reset_status sid (pl_stream_name req))] else [])
     @ [cmd_op (start_status sid (pl_stream_name req))])"

lemma transmit_then:
  "csid_ok csid \<Longrightarrow> 1 \<le> cw_chunk_size (lk_writer c) \<Longrightarrow>
   st_bind (transmit csid m) f (c, bs) = f () (c\<lparr>lk_writer := write_after (lk_writer c) csid m\<rparr>, bs)"
  by (simp add: st_bind_def transmit_run)

lemma accept_mode_run:
  assumes "1 \<le> cw_chunk_size (lk_writer c)"
  shows "accept_mode recorded req (c, bs) = (Inr
     \<lparr>lk_reader = lk_reader c, lk_writer = after (lk_writer c) (start_ops recorded req), cn_stream_id = pl_stream_id req,
      cn_ended = False, cn_pending = [], cn_peer_bw = limiter_new, ps_app = pl_app req,
      ps_stream_name = pl_stream_name req\<rparr>,
     (c\<lparr>lk_writer := after (lk_writer c) (start_ops recorded req)\<rparr>, bs))"
proof -
  have none: "st_bind (st_return ()) f = f ()" for f :: "unit \<Rightarrow> (negotiation \<times> u8 list, play_session) st"
    by (simp add: fun_eq_iff st_bind_def st_return_def)
  have get: "st_bind st_get_user f (d, bs) = f d (d, bs)" for f :: "negotiation \<Rightarrow> (negotiation \<times> u8 list, play_session) st" and d
    by (simp add: st_bind_def st_get_user_def)
  have ret: "st_return x (d, bs) = (Inr x, (d, bs))" for x :: play_session and d :: negotiation
    by (simp add: st_return_def)
  show ?thesis
    using assms write_message_after(3)[OF csids_ok(1)] write_message_after(3)[OF csids_ok(2)]
    by (cases recorded; cases "pl_reset req = Some True")
      (simp_all add: accept_mode_def start_ops_def Let_def transmit_then csids_ok none get send_on_status_def
        start_status_def reset_status_def ret)
qed

section \<open>The player's side\<close>

lemma wait_play_create:
  "converses m (wait_for_create_stream_result fmt (f64_of_int 2))
     [ctl_op (build_set_chunk_size SERVER_CHUNK_SIZE), Resize (unat SERVER_CHUNK_SIZE),
      cmd_op (build_create_stream_result (f64_of_int 2) (f64_of_u32 sid))] [] sid m"
proof (rule create_id)
  have "f64_eq (f64_of_int 2) (f64_of_int 2)" using f64_eq_nat[of 2 2] by simp
  then show "converses m (wait_for_result fmt (f64_of_int 2))
     [ctl_op (build_set_chunk_size SERVER_CHUNK_SIZE), Resize (unat SERVER_CHUNK_SIZE),
      cmd_op (build_create_stream_result (f64_of_int 2) (f64_of_u32 sid))] []
     [A0String (lit ''_result''), A0Number (f64_of_int 2), A0Null, A0Number (f64_of_u32 sid)] m"
    unfolding wait_for_result_def
    using conv_until_step[OF shrinks_result_round result_skip_chunk[OF chunk_sizes(2)]
        conv_until_done[OF shrinks_result_round create_hit]] by simp
qed

text \<open>One message of \<open>wait_for_play_start\<close>.\<close>

lemma wait_control:
  assumes "msg_type_id msg = MSG_USER_CONTROL" and "length (msg_payload msg) < 2 ^ 24"
    and "converses m (play_start_control b (msg_payload msg)) [] [] b' m"
    and "converses m (wait_for_play_start_n fmt n b') ins [] x m"
  shows "converses m (wait_for_play_start_n fmt (Suc n) b) (ctl_op msg # ins) [] x m"
  unfolding wait_for_play_start_n.simps
  by (rule conv_receive_then[OF op_ok_ctl[OF assms(2)]], rule conv_setup_then)
    (use assms(1) conv_then[OF assms(3), where f = "\<lambda>b. wait_for_play_start_n fmt n b", OF assms(4)] in
      \<open>simp_all add: msg_types\<close>)

lemma wait_status:
  assumes "long_ok code" "long_ok description"
    and small: "length (msg_payload (build_on_status sid (lit ''status'') code description)) < 2 ^ 24"
    and "play_start_command b [A0String (lit ''onStatus''), A0Number 0, A0Null, status_object code description] = Inr r"
    and "converses m (case r of Some b \<Rightarrow> st_return b | None \<Rightarrow> wait_for_play_start_n fmt n b) ins [] x m"
  shows "converses m (wait_for_play_start_n fmt (Suc n) b)
    (cmd_op (build_on_status sid (lit ''status'') code description) # ins) [] x m"
  unfolding wait_for_play_start_n.simps
  by (rule conv_receive_then[OF op_ok_cmd[OF small]], rule conv_setup_then)
    (use assms(4,5) in \<open>simp_all add: status_types on_status_decodes[OF assms(1,2)] msg_types\<close>)

lemma start_command:
  "play_start_command b [A0String (lit ''onStatus''), A0Number 0, A0Null, status_object STATUS_PLAY_START d] = Inr (Some b)"
  "play_start_command b [A0String (lit ''onStatus''), A0Number 0, A0Null, status_object STATUS_PLAY_RESET d] = Inr None"
proof -
  have n: "name_of [A0String (lit ''onStatus''), A0Number 0, A0Null, v] = lit ''onStatus''" for v
    by (simp add: name_of_def value_defs)
  have codes: "STATUS_PLAY_RESET \<noteq> STATUS_PLAY_START" "STATUS_PLAY_RESET \<noteq> STATUS_PLAY_STREAM_NOT_FOUND"
    "lit ''status'' \<noteq> lit ''error''"
    by (simp_all add: STATUS_PLAY_RESET_def STATUS_PLAY_START_def STATUS_PLAY_STREAM_NOT_FOUND_def)
  show "play_start_command b [A0String (lit ''onStatus''), A0Number 0, A0Null, status_object STATUS_PLAY_START d] = Inr (Some b)"
    "play_start_command b [A0String (lit ''onStatus''), A0Number 0, A0Null, status_object STATUS_PLAY_RESET d] = Inr None"
    using codes by (simp_all add: play_start_command_def n arg_def status_fields Let_def)
qed

definition name_fits :: "rstring \<Rightarrow> bool" where
  "name_fits name \<longleftrightarrow> utf8_valid name \<and> length name < 2 ^ 16"

lemma descriptions_ok:
  assumes "name_fits name"
  shows "long_ok (lit ''Started playing '' @ name)" "long_ok (lit ''Playing and resetting '' @ name)"
  using assms by (auto simp: name_fits_def intro!: long_ok_prefix)

lemma status_codes_ok: "long_ok STATUS_PLAY_START" "long_ok STATUS_PLAY_RESET"
  by (simp_all add: STATUS_PLAY_START_def STATUS_PLAY_RESET_def lit_ok)

lemma status_small:
  assumes "name_fits name"
  shows "length (msg_payload (start_status sid name)) < 2 ^ 24" "length (msg_payload (reset_status sid name)) < 2 ^ 24"
  using assms
  by (auto simp: start_status_def reset_status_def build_on_status_def encode_command_def name_fits_def utf8_short_def
      utf8_long_def STATUS_PLAY_START_def STATUS_PLAY_RESET_def)

lemma wait_started:
  assumes "name_fits (pl_stream_name req)"
  shows "converses m (wait_for_play_start_n fmt (Suc (Suc (Suc (Suc n)))) False) (start_ops recorded req) [] recorded m"
proof -
  let ?sid = "pl_stream_id req"
  note ok = descriptions_ok[OF assms] and small = status_small[OF assms, unfolded start_status_def reset_status_def]
  have start: "converses m (wait_for_play_start_n fmt (Suc n) b) [cmd_op (start_status ?sid (pl_stream_name req))] [] b m" for b n
    unfolding start_status_def
    by (rule wait_status[OF status_codes_ok(1) ok(1) small(1) start_command(1)]) (simp add: conv_return)
  have reset: "converses m (wait_for_play_start_n fmt (Suc (Suc n)) b)
      ((if pl_reset req = Some True then [cmd_op (reset_status ?sid (pl_stream_name req))] else [])
        @ [cmd_op (start_status ?sid (pl_stream_name req))]) [] b m" for b n
    using start[of "Suc n" b] wait_status[OF status_codes_ok(2) ok(2) small(2) start_command(2), of m fmt "Suc n" b
        "[cmd_op (start_status ?sid (pl_stream_name req))]" b ?sid] start[of n b]
    by (simp add: reset_status_def)
  have starts: "converses m (wait_for_play_start_n fmt (Suc (Suc (Suc n))) b)
      (ctl_op (build_user_control_stream_begin ?sid) # (if pl_reset req = Some True then [cmd_op (reset_status ?sid (pl_stream_name req))] else [])
        @ [cmd_op (start_status ?sid (pl_stream_name req))]) [] b m" for b n
    by (rule wait_control[where b' = b, OF _ _ _ reset]) (simp_all add: control_type play_start_control_def control_parses conv_return)
  show ?thesis
  proof (cases recorded)
    case True
    have "converses m (wait_for_play_start_n fmt (Suc (Suc (Suc (Suc n)))) False)
      (ctl_op (build_user_control_stream_is_recorded ?sid) # ctl_op (build_user_control_stream_begin ?sid)
        # (if pl_reset req = Some True then [cmd_op (reset_status ?sid (pl_stream_name req))] else [])
        @ [cmd_op (start_status ?sid (pl_stream_name req))]) [] True m"
      by (rule wait_control[where b' = True, OF _ _ _ starts]) (simp_all add: control_type play_start_control_def control_parses conv_return)
    then show ?thesis using True by (simp add: start_ops_def Let_def)
  next
    case False
    then show ?thesis using starts[of "Suc n" False] by (simp add: start_ops_def Let_def)
  qed
qed

lemma conv_buffer:
  assumes "converses m (f ()) ins outs x m'"
  shows "converses m (st_bind (case b of Some ms \<Rightarrow> transmit CSID_PROTOCOL_CONTROL (build_user_control_set_buffer_length sid ms)
       | None \<Rightarrow> st_return ()) f) ins (buffer_ops b sid @ outs) x m'"
proof (cases b)
  case None
  then show ?thesis using conv_then[OF conv_return, where f = f, OF assms] by (simp add: buffer_ops_def)
next
  case (Some ms)
  then show ?thesis using conv_transmit_then[OF csids_ok(1), where f = f, OF assms] by (simp add: buffer_ops_def)
qed

lemma conv_play_dialogue:
  assumes "caps_fits scaps" and ok: "ops_ok (play_answers scaps)"
    and req: "name_fits (pl_stream_name (req :: play_request))"
  shows "converses m (play_dialogue fmt u opts) (play_answers scaps @ start_ops recorded req) (play_script u opts 1)
    (server_caps_seen scaps, 1, recorded) m"
proof -
  let ?tx = f64_of_int and ?play = "ns_to_message (asked_play opts (ru_stream_name u)) 1"
  have 50: "(50 :: nat) = Suc (Suc (Suc (Suc 46)))" by simp
  have wait: "converses m (wait_for_play_start fmt) (start_ops recorded req) [] recorded m"
    unfolding wait_for_play_start_def 50 by (rule wait_started[OF req])
  note fin = conv_map[OF wait, where f = "\<lambda>r. (server_caps_seen scaps, 1 :: u32, r)"]
  have create: "converses m (st_bind (wait_for_create_stream_result fmt (?tx 2)) (\<lambda>stream_id.
     st_bind (case po_buffer_length_ms opts of
         Some ms \<Rightarrow> transmit CSID_PROTOCOL_CONTROL (build_user_control_set_buffer_length stream_id ms)
       | None \<Rightarrow> st_return ()) (\<lambda>_.
     st_bind (transmit CSID_COMMAND (ns_to_message
       (NsPlay (ru_stream_name u) (po_start opts) (po_duration opts) (po_reset opts)) stream_id)) (\<lambda>_.
     st_bind (wait_for_play_start fmt) (\<lambda>is_recorded.
     st_return (server_caps_seen scaps, stream_id, is_recorded))))))
     ([ctl_op (build_set_chunk_size SERVER_CHUNK_SIZE), Resize (unat SERVER_CHUNK_SIZE),
       cmd_op (build_create_stream_result (?tx 2) (f64_of_u32 1))] @ start_ops recorded req)
     ([] @ (buffer_ops (po_buffer_length_ms opts) 1 @ [cmd_op ?play])) (server_caps_seen scaps, 1, recorded) m"
    by (rule conv_bind[OF wait_play_create], rule conv_buffer)
      (use conv_transmit_then[OF csids_ok(2), OF fin, of ?play] in \<open>simp add: asked_play_def\<close>)
  have "converses m (play_dialogue fmt u opts)
      (take 4 (reply_ops (?tx 1) scaps) @
        [ctl_op (build_set_chunk_size SERVER_CHUNK_SIZE), Resize (unat SERVER_CHUNK_SIZE),
         cmd_op (build_create_stream_result (?tx 2) (f64_of_u32 1))] @ start_ops recorded req)
      ([ctl_op (build_set_chunk_size CLIENT_CHUNK_SIZE), Resize (unat CLIENT_CHUNK_SIZE),
        cmd_op (build_connect_with_caps (?tx 1) (ru_app u) (ru_tc_url u) FLASH_VER (po_capabilities opts))]
       @ cmd_op (build_create_stream (?tx 2)) # ([] @ (buffer_ops (po_buffer_length_ms opts) 1 @ [cmd_op ?play])))
      (server_caps_seen scaps, 1, recorded) m"
    unfolding play_dialogue_def
    by (rule conv_bind[OF conv_send_connect[OF assms(1)]], use ok in \<open>simp add: play_answers_def\<close>,
        rule conv_transmit_then[OF csids_ok(2)], rule create)
  then show ?thesis
    by (simp add: play_answers_def reply_ops_def play_script_def)
qed


section \<open>The session\<close>

definition play_fits :: "rtmp_url \<Rightarrow> play_options \<Rightarrow> connect_capabilities \<Rightarrow> bool" where
  "play_fits u opts scaps \<longleftrightarrow> url_ok u \<and> name_fits (ru_stream_name u) \<and> caps_fits (po_capabilities opts)
     \<and> caps_fits scaps \<and> ops_ok (play_script u opts 1) \<and> ops_ok (play_answers scaps)"

lemma asked_name: "pl_stream_name (play_asked u opts sid) = ru_stream_name u" "pl_stream_id (play_asked u opts 1) = 1"
  "pl_app (play_asked u opts sid) = ru_app u"
  by (simp_all add: play_asked_def asked_play_def ns_explicit_def)

lemma start_ops_ok:
  assumes "name_fits (pl_stream_name req)"
  shows "ops_ok (start_ops recorded req)"
  using status_small[OF assms, of "pl_stream_id req"] by (auto simp: start_ops_def Let_def control_type csids_ok)

lemma playing_established:
  assumes url: "parse_rtmp_url url = Inr u" and fits: "play_fits u opts scaps"
    and clear: "digest_clear (po_digest_handshake opts) t1 t2 t3 t4"
  shows "\<exists>player session l ng ng' heard.
      (\<forall>more. connect_with_options fmt url opts t1 t2 (heard @ more) = (Inr player, (l, more)))
    \<and> (\<forall>more. drive_until_request fmt scaps t3 t4 (cw_stream (lk_writer player) @ more)
          = (Inr (ReqPlay (play_asked u opts 1)), (ng, more))
        \<and> accept_mode recorded (play_asked u opts 1) (ng, more) = (Inr session, (ng', more)))
    \<and> cw_stream (lk_writer session) = heard
    \<and> cn_stream_id session = 1 \<and> cn_stream_id player = 1 \<and> pp_next_tx player = 10
    \<and> pp_is_recorded player = recorded \<and> pp_stream_name player = ru_stream_name u
    \<and> pp_server_caps player = server_caps_seen scaps \<and> pp_handshake_kind player = hello_kind (po_digest_handshake opts)
    \<and> ps_stream_name session = ru_stream_name u \<and> ps_app session = ru_app u
    \<and> at_rest (lk_writer session) player \<and> at_rest (lk_writer player) session"
proof -
  let ?script = "play_script u opts 1" and ?answers = "play_answers scaps" and ?req = "play_asked u opts 1"
  let ?said = "start_ops recorded ?req"
  have fine: "url_ok u" "caps_fits (po_capabilities opts)" "caps_fits scaps" "ops_ok ?script" "ops_ok ?answers"
    and name: "name_fits (pl_stream_name ?req)"
    using fits by (simp_all add: play_fits_def asked_name)
  have said: "ops_ok (?answers @ ?said)" using fine(5) start_ops_ok[OF name] by simp
  obtain C S r q where c: "\<And>rest. run_proc (client_hello (po_digest_handshake opts) t1 t2) (S @ rest)
        = (Inr (hello_kind (po_digest_handshake opts)), C, rest)"
    and s: "\<And>rest. run_proc (server_handshake t3 t4) (C @ rest) = (Inr (), S, rest)"
    and pd: "\<And>more. play_dialogue fmt u opts (link_new C, wire (writer_new S) (?answers @ ?said) @ more)
      = (Inr (server_caps_seen scaps, 1, recorded), (\<lparr>lk_reader = r, lk_writer = after (writer_new C) ?script\<rparr>, more))"
    and ng: "\<And>more. negotiate fmt scaps (negotiation_new S, wire (writer_new C) ?script @ more)
      = (Inr (ReqPlay ?req), (\<lparr>lk_reader = q, lk_writer = after (writer_new S) ?answers,
          ng_next_stream_id = 2, ng_buffer_length_ms = po_buffer_length_ms opts\<rparr>, more))"
    and r: "linked (after (writer_new S) (?answers @ ?said)) r" and q: "linked (after (writer_new C) ?script) q"
    and sent: "cw_stream (after (writer_new C) ?script) = C @ wire (writer_new C) ?script"
    and answered: "cw_stream (after (writer_new S) (?answers @ ?said)) = S @ wire (writer_new S) (?answers @ ?said)"
    and v: "1 \<le> cw_chunk_size (after (writer_new S) ?answers)"
    by (rule meet[OF clear conv_play_dialogue[OF fine(3,5) name, where fmt = fmt and recorded = recorded]
          negotiate_play[OF fine(1,2,4), where fmt = fmt and scaps = scaps] fine(4) said]) blast
  let ?c = "\<lparr>lk_reader = r, lk_writer = after (writer_new C) ?script\<rparr>"
  let ?ng = "\<lparr>lk_reader = q, lk_writer = after (writer_new S) ?answers, ng_next_stream_id = 2,
    ng_buffer_length_ms = po_buffer_length_ms opts\<rparr>"
  let ?w = "after (writer_new S) (?answers @ ?said)"
  let ?player = "\<lparr>lk_reader = r, lk_writer = after (writer_new C) ?script, cn_stream_id = 1, cn_ended = False,
    cn_pending = [], cn_peer_bw = limiter_new, pp_tc_url = ru_tc_url u, pp_stream_name = ru_stream_name u,
    pp_server_caps = server_caps_seen scaps, pp_is_recorded = recorded, pp_next_tx = 10,
    pp_handshake_kind = hello_kind (po_digest_handshake opts)\<rparr>"
  let ?session = "\<lparr>lk_reader = q, lk_writer = ?w, cn_stream_id = 1, cn_ended = False, cn_pending = [],
    cn_peer_bw = limiter_new, ps_app = ru_app u, ps_stream_name = ru_stream_name u\<rparr>"
  have player: "connect_with_options fmt url opts t1 t2 (cw_stream ?w @ more) = (Inr ?player, (?c, more))" for more
    using c pd[of more] by (simp add: connect_with_options_def url answered st_bind_def st_get_user_def st_return_def)
  have server: "drive_until_request fmt scaps t3 t4 (cw_stream (lk_writer ?player) @ more) = (Inr (ReqPlay ?req), (?ng, more))" for more
    using s ng[of more] by (simp add: drive_until_request_def sent)
  have accepted: "accept_mode recorded ?req (?ng, more) = (Inr ?session, (?ng\<lparr>lk_writer := ?w\<rparr>, more))" for more
    using accept_mode_run[of ?ng recorded ?req more] v by (simp add: asked_name after_append)
  have "link_ok ?c" "link_ok ?ng"
    using soundD[OF sound_dialogues(2)[of fmt u opts], of "(link_new C, wire (writer_new S) (?answers @ ?said) @ [])"] pd[of "[]"]
      soundD[OF sound_negotiate[of fmt scaps], of "(negotiation_new S, wire (writer_new C) ?script @ [])"] ng[of "[]"] by simp_all
  then have ends: "at_rest (lk_writer ?session) ?player" "at_rest (lk_writer ?player) ?session"
    using r q linked_chunk[OF r] by (simp_all add: at_rest_def listening_def conn_inv_def link_ok_def)
  show ?thesis
    using player server accepted ends
    by (intro exI[of _ ?player] exI[of _ ?session] exI[of _ ?c] exI[of _ ?ng]
        exI[of _ "?ng\<lparr>lk_writer := ?w\<rparr>"] exI[of _ "cw_stream ?w"]) simp
qed


section \<open>Forwarding\<close>

text \<open>What a forwarded packet is for the player: a data frame that holds no object is not handed out.\<close>

definition as_metadata :: "amf0_value \<Rightarrow> player_packet option" where
  "as_metadata v = (case v of A0Object _ \<Rightarrow> Some (PpMetadata v) | A0EcmaArray _ \<Rightarrow> Some (PpMetadata v) | _ \<Rightarrow> None)"

fun played :: "stream_packet \<Rightarrow> player_packet option" where
  "played (SpAudio ts tag) = Some (PpAudio ts tag)"
| "played (SpVideo ts tag) = Some (PpVideo ts tag)"
| "played (SpMetadata v) = as_metadata v"
| "played (SpDataFrame handler v) = as_metadata v"
| "played _ = None"

fun relayed :: "u32 \<Rightarrow> media \<Rightarrow> link_op list" where
  "relayed sid (MVideo ts tag) = [Send CSID_VIDEO (media_message sid (MVideo ts tag))]"
| "relayed sid (MAudio ts tag) = [Send CSID_AUDIO (media_message sid (MAudio ts tag))]"
| "relayed sid (MMetadata v) = [Send CSID_DATA (build_data_message sid ON_META_DATA v)]"
| "relayed sid (MFrame handler v) = [Send CSID_DATA (build_data_message sid handler v)]"
| "relayed sid (MClear handler) = []"

lemma forward_run:
  assumes "1 \<le> cw_chunk_size (lk_writer c)"
  shows "forward (media_packet m) (c, bs)
    = (Inr (), (c\<lparr>lk_writer := after (lk_writer c) (relayed (cn_stream_id c) m)\<rparr>, bs))"
  using assms csids_ok
  by (cases m) (simp_all add: forward_def send_defs st_bind_def st_get_user_def transmit_run st_return_def)

lemma relayed_ok: "media_ok m \<Longrightarrow> ops_ok (relayed sid m)"
proof (cases m)
  case (MMetadata v)
  then show "media_ok m \<Longrightarrow> ?thesis"
    by (auto simp: media_ok_def csids_ok build_data_message_def build_set_data_frame_def data_message_def
      build_set_data_frame_named_def ON_META_DATA_def)
next
  case (MFrame h v)
  then show "media_ok m \<Longrightarrow> ?thesis"
    by (auto simp: media_ok_def csids_ok build_data_message_def data_message_def build_set_data_frame_named_def)
qed (simp_all add: media_ok_def csids_ok)

text \<open>What the player makes of one of the messages.\<close>

lemma player_data:
  assumes "long_ok handler" "amf0_fits 0 v"
  shows "player_handle_message fmt (build_data_message sid handler v) s = (Inr (as_metadata v), s)"
proof -
  have "amf0_decode_all fmt (msg_payload (build_data_message sid handler v)) = Inr [A0String handler, v]"
    using amf0_decode_all_encode[of "[A0String handler, v]" fmt] assms
    by (simp add: build_data_message_def data_message_def MAX_DECODE_DEPTH_def)
  moreover have "map_option PpMetadata (metadata_object [A0String handler, v]) = as_metadata v"
    by (simp add: metadata_object_def as_metadata_def split: amf0_value.split)
  moreover have "msg_type_id (build_data_message sid handler v) = MSG_DATA_AMF0"
    by (simp add: build_data_message_def data_message_def)
  ultimately show ?thesis
    by (simp add: player_handle_message_def st_bind_def st_return_def msg_types)
qed

lemma player_hears:
  assumes "media_ok m" and "relayed sid m = [Send csid msg]"
  shows "player_handle_message fmt msg s = (Inr (played (media_packet m)), s)"
proof (cases m)
  case (MVideo ts tag)
  then show ?thesis using assms video_parses[of tag]
    by (auto simp: player_handle_message_def media_ok_def st_bind_def st_return_def msg_types)
next
  case (MAudio ts tag)
  then show ?thesis using assms audio_parses[of tag]
    by (auto simp: player_handle_message_def media_ok_def st_bind_def st_return_def)
next
  case (MMetadata v)
  then show ?thesis using assms player_data[of ON_META_DATA v]
    by (cases s) (auto simp: media_ok_def ON_META_DATA_def lit_ok)
next
  case (MFrame h v)
  then show ?thesis using assms player_data[of h v] by (cases s) (auto simp: media_ok_def)
qed (use assms in simp)


text \<open>
  What the player understands: messages it reports without an answer, and pings, which it answers.  Its own
  operations depend on its stream id and on the number of its calls.
\<close>

definition asking :: "rtmp_player \<Rightarrow> u32 \<times> nat" where
  "asking p = (cn_stream_id p, pp_next_tx p)"

definition player_ear :: "(f64 \<Rightarrow> rstring) \<Rightarrow> message \<Rightarrow> player_packet option \<Rightarrow> bool" where
  "player_ear fmt msg q \<longleftrightarrow> reacts asking (player_handle_message fmt) msg q []
     \<or> (\<exists>ts. msg = build_user_control_ping_request ts \<and> q = None)"

lemma player_ear_still: "(\<And>s. player_handle_message fmt msg s = (Inr q, s)) \<Longrightarrow> player_ear fmt msg q"
  by (simp add: player_ear_def reacts_still)

lemma player_ping:
  "reacts asking (player_handle_message fmt) (build_user_control_ping_request ts) None [ctl_op (build_user_control_ping_response ts)]"
  using csids_ok
  by (simp add: reacts_def speaks_def asking_def player_handle_message_def is_command_def is_shared_object_def control_builders
      control_message_def msg_types player_user_control_def ucm_defs st_bind_def st_return_def answer_ping_def transmit_run)

lemma player_answers:
  assumes "player_ear fmt msg q"
  shows "\<exists>ans. reacts asking (player_handle_message fmt) msg q ans \<and> ops_ok ans
    \<and> (ans = [] \<or> (\<exists>ts. ans = [ctl_op (build_user_control_ping_response ts)]))"
proof -
  have "ops_ok [ctl_op (build_user_control_ping_response ts)]" for ts
    by (simp add: csids_ok control_builders control_message_def)
  with assms player_ping[of fmt] show ?thesis unfolding player_ear_def by (metis ops_ok_simps(1))
qed

lemma player_understands:
  assumes "understood (\<lambda>_. False) (player_ear fmt) ops ps" and "ops_ok ops" and "at_rest w s"
  shows "hears (player_next_packet fmt) w ops s ps"
  using understood_heard[OF assms player_next_packet_def] player_answers by blast

definition given :: "media \<Rightarrow> player_packet list" where
  "given m = (case played (media_packet m) of Some q \<Rightarrow> [q] | None \<Rightarrow> [])"

lemma media_understood:
  assumes "media_ok m"
  shows "understood (\<lambda>_. False) (player_ear fmt) (relayed sid m) (given m)"
proof (cases "relayed sid m = []")
  case True
  then show ?thesis by (cases m) (simp_all add: given_def)
next
  case False
  then obtain csid msg where r: "relayed sid m = [Send csid msg]" by (cases m) auto
  with player_ear_still[OF player_hears[OF assms r]] show ?thesis
    by (auto simp: given_def heeded_all intro!: exI[of _ "played (media_packet m)"] split: option.split)
qed

lemma play_one: "media_ok m \<Longrightarrow> at_rest w s \<Longrightarrow> hears (player_next_packet fmt) w (relayed sid m) s (given m)"
  using player_understands[OF media_understood relayed_ok] .

interpretation relay: channel "\<lambda>m. forward (media_packet m)" cn_stream_id "\<lambda>sid m. sid" relayed
    "player_next_packet fmt" "\<lambda>sid m. given m" media_ok "\<lambda>_. True" for fmt
  by unfold_locales (use forward_run relayed_ok play_one in \<open>auto simp: speaks_def\<close>)

definition as_played :: "media list \<Rightarrow> player_packet list" where
  "as_played ms = List.map_filter (\<lambda>m. played (media_packet m)) ms"

lemma as_played_simps: "as_played [] = []"
  "as_played (m # ms) = (case played (media_packet m) of Some q \<Rightarrow> [q] | None \<Rightarrow> []) @ as_played ms"
  by (simp_all add: as_played_def List.map_filter_simps split: option.split)

lemma told_played: "told (\<lambda>sid m. given m) (\<lambda>sid m. sid) k ms = as_played ms"
  by (induction ms arbitrary: k) (simp_all add: as_played_simps given_def)

lemma player_end: "at_rest w s \<Longrightarrow> player_next_packet fmt (s, []) = Some (Inr None, (s\<lparr>cn_ended := True\<rparr>, []))"
  by (simp add: player_next_packet_def latched_end)

lemma relayed_run:
  assumes "parse_rtmp_url url = Inr u" and "play_fits u opts scaps"
    and "digest_clear (po_digest_handshake opts) t1 t2 t3 t4" and "list_all media_ok ms"
  shows "\<exists>player player' session session' l ng ng' heard sent.
      (\<forall>more. connect_with_options fmt url opts t1 t2 (heard @ more) = (Inr player, (l, more)))
    \<and> drive_until_request fmt scaps t3 t4 (cw_stream (lk_writer player))
        = (Inr (ReqPlay (play_asked u opts 1)), (ng, []))
    \<and> (if recorded then play_accept_recorded else play_accept) (play_asked u opts 1) (ng, []) = (Inr session, (ng', []))
    \<and> cw_stream (lk_writer session) = heard
    \<and> pp_is_recorded player = recorded \<and> pp_stream_name player = ru_stream_name u
    \<and> pp_server_caps player = server_caps_seen scaps \<and> pp_handshake_kind player = hello_kind (po_digest_handshake opts)
    \<and> ps_stream_name session = ru_stream_name u \<and> ps_app session = ru_app u
    \<and> in_order (map (\<lambda>m. forward (media_packet m)) ms) (session, []) = (Inr (), (session', []))
    \<and> cw_stream (lk_writer session') = heard @ sent
    \<and> calls (player_next_packet fmt) (length (as_played ms) + 1) (player, sent)
        = Some (map (\<lambda>q. Inr (Some q)) (as_played ms) @ [Inr None], (player', []))"
proof -
  obtain player session l ng ng' heard where est:
    "\<And>more. connect_with_options fmt url opts t1 t2 (heard @ more) = (Inr player, (l, more))"
    "\<And>more. drive_until_request fmt scaps t3 t4 (cw_stream (lk_writer player) @ more) = (Inr (ReqPlay (play_asked u opts 1)), (ng, more))"
    "\<And>more. accept_mode recorded (play_asked u opts 1) (ng, more) = (Inr session, (ng', more))"
    "cw_stream (lk_writer session) = heard"
    "pp_is_recorded player = recorded" "pp_stream_name player = ru_stream_name u"
    "pp_server_caps player = server_caps_seen scaps" "pp_handshake_kind player = hello_kind (po_digest_handshake opts)"
    "ps_stream_name session = ru_stream_name u" "ps_app session = ru_app u"
    "at_rest (lk_writer session) player" "at_rest (lk_writer player) session"
    using playing_established[OF assms(1-3), of fmt recorded] by metis
  have chunk: "1 \<le> cw_chunk_size (lk_writer session)"
    using est(11) linked_chunk by (auto simp: at_rest_def listening_def)
  from relay.all_heard[OF assms(4) TrueI chunk, of "[]" fmt] est(11)
  obtain c ops where run: "in_order (map (\<lambda>m. forward (media_packet m)) ms) (session, []) = (Inr (), (c, []))"
    "lk_writer c = after (lk_writer session) ops" "ops_ok ops"
    "hears (player_next_packet fmt) (lk_writer session) ops player (as_played ms)"
    by (auto simp: told_played)
  let ?sent = "wire (lk_writer session) ops"
  have "\<exists>t. player_next_packet fmt (p, []) = Some (Inr None, t) \<and> snd t = []" if "at_rest w p" for w p
    using player_end[OF that, of fmt] by simp
  from hears_then[OF run(4) this]
  obtain player' where played: "calls (player_next_packet fmt) (length (as_played ms) + 1) (player, ?sent)
      = Some (map (\<lambda>q. Inr (Some q)) (as_played ms) @ [Inr None], (player', []))" by force
  have sent: "cw_stream (lk_writer c) = heard @ ?sent" using after_stream[OF run(3) chunk] run(2) est(4) by simp
  have accept: "(if recorded then play_accept_recorded else play_accept) = accept_mode recorded"
    by (simp add: play_accept_def play_accept_recorded_def fun_eq_iff)
  show ?thesis
    unfolding accept
    using est(1,4-10) est(2)[of "[]"] est(3)[of "[]"] run(1) sent played
    by (intro exI[of _ player] exI[of _ player'] exI[of _ session] exI[of _ c]
        exI[of _ l] exI[of _ ng] exI[of _ ng'] exI[of _ heard] exI[of _ ?sent]) simp
qed

text \<open>
  From the publisher's packets to the player's.  For every play URL, every \<open>PlayOptions\<close> and
  every list of media: \<open>RtmpPlayer::connect_with_options\<close> and the server agree on a session, live
  or recorded as the server chose, with the options the player asked for; the server forwards every packet it
  has of the publisher with \<open>PlaySession::forward\<close>; \<open>next_packet\<close> of the player then gives the audio
  and video packets and the data frames holding an object, in order and nothing else (what names the handler
  of a data frame, and frames holding another value, are lost), and after them the end of the stream.
\<close>

theorem relayed_media_play:
  assumes "parse_rtmp_url url = Inr u" and "play_fits u opts scaps"
    and "digest_clear (po_digest_handshake opts) t1 t2 t3 t4" and "list_all media_ok ms"
  shows "\<exists>player player' session session' l ng ng' heard sent.
      connect_with_options fmt url opts t1 t2 heard = (Inr player, (l, []))
    \<and> drive_until_request fmt scaps t3 t4 (cw_stream (lk_writer player))
        = (Inr (ReqPlay (play_asked u opts 1)), (ng, []))
    \<and> (if recorded then play_accept_recorded else play_accept) (play_asked u opts 1) (ng, []) = (Inr session, (ng', []))
    \<and> cw_stream (lk_writer session) = heard
    \<and> pp_is_recorded player = recorded \<and> pp_stream_name player = ru_stream_name u
    \<and> pp_server_caps player = server_caps_seen scaps \<and> pp_handshake_kind player = hello_kind (po_digest_handshake opts)
    \<and> ps_stream_name session = ru_stream_name u \<and> ps_app session = ru_app u
    \<and> in_order (map (\<lambda>m. forward (media_packet m)) ms) (session, []) = (Inr (), (session', []))
    \<and> cw_stream (lk_writer session') = heard @ sent
    \<and> calls (player_next_packet fmt) (length (as_played ms) + 1) (player, sent)
        = Some (map (\<lambda>q. Inr (Some q)) (as_played ms) @ [Inr None], (player', []))"
proof -
  from relayed_run[OF assms, of fmt recorded] show ?thesis
  proof (elim exE conjE, goal_cases)
    case (1 player player' session session' l ng ng' heard sent)
    then have "connect_with_options fmt url opts t1 t2 heard = (Inr player, (l, []))" using spec[OF 1(1), of "[]"] by simp
    with 1 show ?case
      by (intro exI[of _ player] exI[of _ player'] exI[of _ session] exI[of _ session'] exI[of _ l]
          exI[of _ ng] exI[of _ ng'] exI[of _ heard] exI[of _ sent]) simp
  qed
qed

definition sample_options :: play_options where
  "sample_options = \<lparr>po_start = None, po_duration = None, po_reset = Some True, po_buffer_length_ms = Some 3000,
     po_capabilities = caps_new, po_digest_handshake = False\<rparr>"

lemma sample_play_fits: "play_fits sample_url sample_options caps_new"
proof -
  have "url_ok sample_url" "name_fits (ru_stream_name sample_url)"
    by (simp_all add: url_ok_def sample_url_def lit_ok name_fits_def)
      (simp_all add: lit_def)
  moreover have "ops_ok (play_script sample_url sample_options 1)"
    by (simp add: play_script_def dialogue_sizes sample_options_def buffer_ops_def control_type ns_to_message_def asked_play_def
        ns_args_def command_name_def)
      (simp add: sample_url_def lit_def utf8_short_def connect_pairs_def encode_into_def caps_new_def fm_new_def FLASH_VER_def
        num_def str_def)
  moreover have "ops_ok (play_answers caps_new)"
    by (simp add: play_answers_def dialogue_sizes)
      (simp add: sample_url_def lit_def utf8_short_def connect_pairs_def encode_into_def caps_new_def fm_new_def FLASH_VER_def
        num_def str_def with_encoding_def connect_props_def info_base_def)
  ultimately show ?thesis by (simp add: play_fits_def caps_new_fits sample_options_def)
qed

theorem relayed_media_play_witness:
  "\<exists>player player' session session' l ng ng' heard sent.
      connect_with_options (\<lambda>_. []) (lit ''rtmp://h/live/cam'') sample_options 1 2 heard = (Inr player, (l, []))
    \<and> drive_until_request (\<lambda>_. []) caps_new 3 4 (cw_stream (lk_writer player))
        = (Inr (ReqPlay (play_asked sample_url sample_options 1)), (ng, []))
    \<and> (if True then play_accept_recorded else play_accept) (play_asked sample_url sample_options 1) (ng, []) = (Inr session, (ng', []))
    \<and> cw_stream (lk_writer session) = heard
    \<and> pp_is_recorded player = True \<and> pp_stream_name player = ru_stream_name sample_url
    \<and> pp_server_caps player = server_caps_seen caps_new
    \<and> pp_handshake_kind player = hello_kind (po_digest_handshake sample_options)
    \<and> ps_stream_name session = ru_stream_name sample_url \<and> ps_app session = ru_app sample_url
    \<and> in_order (map (\<lambda>m. forward (media_packet m)) (concat (map media_of sample_media))) (session, []) = (Inr (), (session', []))
    \<and> cw_stream (lk_writer session') = heard @ sent
    \<and> calls (player_next_packet (\<lambda>_. [])) (length (as_played (concat (map media_of sample_media))) + 1) (player, sent)
        = Some (map (\<lambda>q. Inr (Some q)) (as_played (concat (map media_of sample_media))) @ [Inr None], (player', []))"
proof (rule relayed_media_play[OF sample_url_parses sample_play_fits])
  show "digest_clear (po_digest_handshake sample_options) 1 2 3 4" by (simp add: digest_clear_def sample_options_def)
  show "list_all media_ok (concat (map media_of sample_media))"
    using sample_media_ok by (simp add: sample_media_def)
qed

end
