(* ===== verification/Adapter.thy ===== *)
theory Adapter
  imports Decimal Flv_Video Flv_Audio Amf_Value "HOL-Library.Multiset"
begin

text \<open>
  \<open>adapter.rs\<close>: RTMP sessions as a packet source.  The packet, stream and codec-parameter
  types belong to another crate; the records here hold the fields this code sets on them.  A
  media source is its state and the function \<open>next_media\<close>; \<open>set_timeout\<close> is what the code
  does to its socket.  \<open>media_state\<close> is what the probing and the steady loop share.  The sources over
  the sessions and the openers are in \<open>Sources\<close>.
\<close>

section \<open>Time\<close>

type_synonym i64 = "64 word"

definition RTMP_MS_TO_NS :: i64 where "RTMP_MS_TO_NS = 1000000"
definition AUDIO_STREAM_INDEX :: u32 where "AUDIO_STREAM_INDEX = 0"
definition VIDEO_STREAM_INDEX :: u32 where "VIDEO_STREAM_INDEX = 1"
definition RTMP_TIME_BASE :: "nat \<times> nat" where "RTMP_TIME_BASE = (1, 1000000000)"
definition PROBE_LIMIT :: nat where "PROBE_LIMIT = 32"

record ts_unwrapper =
  tu_last :: "(u32 \<times> i64) option"

definition tu_new :: ts_unwrapper where "tu_new = \<lparr>tu_last = None\<rparr>"

definition unwrap_ms :: "u32 \<Rightarrow> ts_unwrapper \<Rightarrow> i64 \<times> ts_unwrapper" where
  "unwrap_ms raw u =
    (let ext = (case tu_last u of
         None \<Rightarrow> ucast raw
       | Some (prev_raw, prev_ext) \<Rightarrow> prev_ext + scast (raw - prev_raw))
     in (ext, u\<lparr>tu_last := Some (raw, ext)\<rparr>))"

section \<open>Streams and packets\<close>

datatype media_kind = AudioKind | VideoKind

text \<open>What is set on \<open>CodecParameters::audio(id)\<close> or \<open>::video(id)\<close>.\<close>

record codec_params =
  cp_kind :: media_kind
  cp_codec_id :: rstring
  cp_extradata :: "u8 list option"
  cp_sample_rate :: "u32 option"
  cp_channels :: "nat option"

record stream_info =
  si_index :: u32
  si_time_base :: "nat \<times> nat"
  si_params :: codec_params

record av_packet =
  pk_stream_index :: u32
  pk_time_base :: "nat \<times> nat"
  pk_pts :: "i64 option"
  pk_dts :: "i64 option"
  pk_keyframe :: bool
  pk_header :: bool
  pk_data :: "u8 list"

record track_streams =
  tks_extra :: "(bool \<times> u8 \<times> u32) list"

definition track_index :: "bool \<Rightarrow> u8 \<Rightarrow> track_streams \<Rightarrow> u32 \<times> track_streams" where
  "track_index is_audio track_id t =
    (if track_id = 0 then (if is_audio then AUDIO_STREAM_INDEX else VIDEO_STREAM_INDEX, t)
     else (case find (\<lambda>(a, i, _). a = is_audio \<and> i = track_id) (tks_extra t) of
       Some (_, _, idx) \<Rightarrow> (idx, t)
     | None \<Rightarrow>
         let idx = 2 + word_of_nat (length (tks_extra t)) in
         (idx, t\<lparr>tks_extra := tks_extra t @ [(is_audio, track_id, idx)]\<rparr>)))"

definition ensure_stream :: "u32 \<Rightarrow> codec_params \<Rightarrow> stream_info list \<Rightarrow> stream_info list" where
  "ensure_stream index params streams =
    (if list_all (\<lambda>s. si_index s \<noteq> index) streams then
       sort_key si_index (streams @ [\<lparr>si_index = index, si_time_base = RTMP_TIME_BASE, si_params = params\<rparr>])
     else streams)"

section \<open>Codecs\<close>

definition match_u8 :: "(u8 \<times> string) list \<Rightarrow> u8 \<Rightarrow> rstring" where
  "match_u8 table b = lit (case map_of table b of Some s \<Rightarrow> s | None \<Rightarrow> ''unknown'')"

definition match_fourcc :: "(string \<times> string) list \<Rightarrow> fourcc \<Rightarrow> rstring" where
  "match_fourcc table f = (case find (\<lambda>(k, _). lit k = f) table of Some (_, s) \<Rightarrow> lit s | None \<Rightarrow> lit ''unknown'')"

definition audio_codec_id :: "u8 \<Rightarrow> rstring" where
  "audio_codec_id = match_u8 [(0, ''pcm_s16le''), (1, ''adpcm_swf''), (2, ''mp3''), (3, ''pcm_u8''),
     (4, ''nellymoser''), (5, ''nellymoser''), (6, ''nellymoser''), (7, ''pcm_alaw''), (8, ''pcm_mulaw''),
     (AUDIO_FORMAT_AAC, ''aac''), (11, ''speex'')]"

definition audio_fourcc_codec_id :: "fourcc \<Rightarrow> rstring" where
  "audio_fourcc_codec_id = match_fourcc [(''Opus'', ''opus''), (''fLaC'', ''flac''), (''ac-3'', ''ac3''),
     (''ec-3'', ''eac3''), (''.mp3'', ''mp3''), (''mp4a'', ''aac'')]"

definition audio_codec_id_for_tag :: "audio_tag \<Rightarrow> rstring" where
  "audio_codec_id_for_tag t =
    (case at_fourcc t of Some f \<Rightarrow> audio_fourcc_codec_id f | None \<Rightarrow> audio_codec_id (at_sound_format t))"

definition video_codec_id :: "u8 \<Rightarrow> rstring" where
  "video_codec_id = match_u8 [(2, ''h263''), (3, ''flashsv''), (4, ''vp6f''), (5, ''vp6a''), (6, ''flashsv2''),
     (VIDEO_CODEC_AVC, ''h264'')]"

definition video_fourcc_codec_id :: "fourcc \<Rightarrow> rstring" where
  "video_fourcc_codec_id = match_fourcc [(''av01'', ''av1''), (''vp09'', ''vp9''), (''hvc1'', ''hevc''),
     (''vp08'', ''vp8''), (''avc1'', ''h264''), (''vvc1'', ''vvc'')]"

definition video_codec_id_for_tag :: "video_tag \<Rightarrow> rstring" where
  "video_codec_id_for_tag t =
    (case vt_fourcc t of Some f \<Rightarrow> video_fourcc_codec_id f | None \<Rightarrow> video_codec_id (vt_codec_id t))"

definition new_params :: "media_kind \<Rightarrow> rstring \<Rightarrow> codec_params" where
  "new_params k i = \<lparr>cp_kind = k, cp_codec_id = i, cp_extradata = None, cp_sample_rate = None, cp_channels = None\<rparr>"

definition audio_codec_params :: "audio_tag \<Rightarrow> codec_params" where
  "audio_codec_params t =
    (let p = new_params AudioKind (audio_codec_id_for_tag t) in
     if at_fourcc t \<noteq> None then
       (if at_ex_packet_type t = Some AUDIO_PACKET_TYPE_SEQUENCE_START
        then p\<lparr>cp_extradata := Some (at_body t)\<rparr> else p)
     else
       let rate = (if at_sound_rate t = 0 then 5512 else if at_sound_rate t = 1 then 11025
           else if at_sound_rate t = 2 then 22050 else 44100);
         q = (if at_sound_format t \<noteq> AUDIO_FORMAT_AAC
           then p\<lparr>cp_sample_rate := Some rate, cp_channels := Some (if at_stereo t then 2 else 1)\<rparr> else p)
       in if at_sound_format t = AUDIO_FORMAT_AAC
            \<and> at_aac_packet_type t = Some AAC_PACKET_TYPE_SEQUENCE_HEADER
          then q\<lparr>cp_extradata := Some (at_body t)\<rparr> else q)"

definition video_codec_params :: "video_tag \<Rightarrow> codec_params" where
  "video_codec_params t =
    (let p = new_params VideoKind (video_codec_id_for_tag t) in
     if vt_is_avc_sequence_header t \<or> vt_is_ex_sequence_header t then p\<lparr>cp_extradata := Some (vt_body t)\<rparr> else p)"

section \<open>Tags as packets\<close>

definition audio_to_packet_at :: "i64 \<Rightarrow> audio_tag \<Rightarrow> u32 \<Rightarrow> i64 \<Rightarrow> av_packet" where
  "audio_to_packet_at timestamp_ms t stream_index extra_nano =
    (let ts_ns = timestamp_ms * RTMP_MS_TO_NS;
         nano_offset = ucast (at_timestamp_offset_nano t) + extra_nano;
         presentation_ns = ts_ns + nano_offset;
         (data, is_header) =
           (if at_fourcc t \<noteq> None then
              (at_body t, at_ex_packet_type t = Some AUDIO_PACKET_TYPE_SEQUENCE_START
                 \<or> at_ex_packet_type t = Some AUDIO_PACKET_TYPE_SEQUENCE_END)
            else
              ((if at_sound_format t = AUDIO_FORMAT_AAC
                then [case at_aac_packet_type t of Some b \<Rightarrow> b | None \<Rightarrow> AAC_PACKET_TYPE_RAW] else []) @ at_body t,
               at_sound_format t = AUDIO_FORMAT_AAC
                 \<and> at_aac_packet_type t = Some AAC_PACKET_TYPE_SEQUENCE_HEADER))
     in \<lparr>pk_stream_index = stream_index, pk_time_base = RTMP_TIME_BASE, pk_pts = Some presentation_ns,
         pk_dts = Some presentation_ns, pk_keyframe = False, pk_header = is_header, pk_data = data\<rparr>)"

definition audio_to_packet :: "i64 \<Rightarrow> audio_tag \<Rightarrow> av_packet" where
  "audio_to_packet timestamp_ms t = audio_to_packet_at timestamp_ms t AUDIO_STREAM_INDEX 0"

definition video_to_packet_at :: "i64 \<Rightarrow> video_tag \<Rightarrow> u32 \<Rightarrow> i64 \<Rightarrow> av_packet" where
  "video_to_packet_at timestamp_ms t stream_index extra_nano =
    (let dts_ns = timestamp_ms * RTMP_MS_TO_NS;
         has_cts = (vt_codec_id t = VIDEO_CODEC_AVC \<or> vt_fourcc t \<noteq> None \<and> vt_composition_time t \<noteq> 0);
         cts_ns = (if has_cts then scast (vt_composition_time t) * RTMP_MS_TO_NS else 0);
         nano_offset = ucast (vt_timestamp_offset_nano t) + extra_nano;
         pts_ns = dts_ns + cts_ns + nano_offset;
         is_header = (vt_is_avc_sequence_header t \<or> vt_is_ex_sequence_header t);
         is_metadata = vt_is_ex_metadata t
     in \<lparr>pk_stream_index = stream_index, pk_time_base = RTMP_TIME_BASE, pk_pts = Some pts_ns,
         pk_dts = Some dts_ns, pk_keyframe = (\<not> is_metadata \<and> vt_is_keyframe t),
         pk_header = (is_header \<or> is_metadata), pk_data = vt_body t\<rparr>)"

definition video_to_packet :: "i64 \<Rightarrow> video_tag \<Rightarrow> av_packet" where
  "video_to_packet timestamp_ms t = video_to_packet_at timestamp_ms t VIDEO_STREAM_INDEX 0"

section \<open>Messages as packets\<close>

text \<open>
  The two message handlers have the same body: \<open>index\<close>, \<open>ensure_stream\<close> and one packet per
  track.
\<close>

type_synonym layout = "track_streams \<times> stream_info list"

definition one_packet :: "bool \<Rightarrow> ('t \<Rightarrow> codec_params) \<Rightarrow> ('t \<Rightarrow> u32 \<Rightarrow> av_packet) \<Rightarrow> u8 \<Rightarrow> 't \<Rightarrow>
    layout \<Rightarrow> av_packet \<times> layout" where
  "one_packet is_audio params to_packet track_id t l =
    (case track_index is_audio track_id (fst l) of (index, tracks) \<Rightarrow>
       (to_packet t index, (tracks, ensure_stream index (params t) (snd l))))"

fun track_packets :: "bool \<Rightarrow> ('t \<Rightarrow> codec_params) \<Rightarrow> ('t \<Rightarrow> u32 \<Rightarrow> av_packet) \<Rightarrow> (u8 \<times> 't) list \<Rightarrow>
    layout \<Rightarrow> av_packet list \<times> layout" where
  "track_packets is_audio params to_packet [] l = ([], l)"
| "track_packets is_audio params to_packet ((i, t) # ts) l =
    (case one_packet is_audio params to_packet i t l of (p, l1) \<Rightarrow>
     case track_packets is_audio params to_packet ts l1 of (ps, l2) \<Rightarrow> (p # ps, l2))"

definition audio_packets :: "i64 \<Rightarrow> audio_tag \<Rightarrow> layout \<Rightarrow> av_packet list result \<times> layout" where
  "audio_packets ts_ms t l =
    (if \<not> at_is_multitrack t then
       (case track_packets True audio_codec_params (\<lambda>t i. audio_to_packet_at ts_ms t i 0) [(0, t)] l of
          (ps, l') \<Rightarrow> (Inr ps, l'))
     else (case audio_demux_tracks t of
       Inl e \<Rightarrow> (Inl e, l)
     | Inr demuxed \<Rightarrow>
         (case track_packets True audio_codec_params
             (\<lambda>t' i. audio_to_packet_at ts_ms t' i (ucast (at_timestamp_offset_nano t))) demuxed l of
            (ps, l') \<Rightarrow> (Inr ps, l'))))"

definition video_packets :: "i64 \<Rightarrow> video_tag \<Rightarrow> layout \<Rightarrow> av_packet list result \<times> layout" where
  "video_packets ts_ms t l =
    (if \<not> vt_is_multitrack t then
       (case track_packets False video_codec_params (\<lambda>t i. video_to_packet_at ts_ms t i 0) [(0, t)] l of
          (ps, l') \<Rightarrow> (Inr ps, l'))
     else (case video_demux_tracks t of
       Inl e \<Rightarrow> (Inl e, l)
     | Inr demuxed \<Rightarrow>
         (case track_packets False video_codec_params
             (\<lambda>t' i. video_to_packet_at ts_ms t' i (ucast (vt_timestamp_offset_nano t))) demuxed l of
            (ps, l') \<Rightarrow> (Inr ps, l'))))"

text \<open>\<open>flatten_metadata\<close>; \<open>fmt_f64\<close> stands for \<open>f64::to_string\<close>.\<close>

definition flat_value :: "(f64 \<Rightarrow> rstring) \<Rightarrow> amf0_value \<Rightarrow> rstring option" where
  "flat_value fmt_f64 v =
    (case v of A0Number n \<Rightarrow> Some (fmt_f64 n)
     | A0Boolean b \<Rightarrow> Some (if b then lit ''true'' else lit ''false'')
     | A0String s \<Rightarrow> Some s
     | _ \<Rightarrow> None)"

definition flatten_metadata :: "(f64 \<Rightarrow> rstring) \<Rightarrow> amf0_value \<Rightarrow> (rstring \<times> rstring) list \<Rightarrow> (rstring \<times> rstring) list" where
  "flatten_metadata fmt_f64 value out =
    (let add = (\<lambda>ps. out @ List.map_filter (\<lambda>(k, v). map_option (Pair k) (flat_value fmt_f64 v)) ps) in
     case value of A0Object ps \<Rightarrow> add ps | A0EcmaArray ps \<Rightarrow> add ps | _ \<Rightarrow> out)"

section \<open>Media sources\<close>

datatype core_error = CoreIo io_error | CoreEof | CoreInvalidData | CoreUnsupported | CoreOther

fun rtmp_to_core_err :: "rtmp_error \<Rightarrow> core_error" where
  "rtmp_to_core_err (Io e) = CoreIo e"
| "rtmp_to_core_err UnexpectedEof = CoreEof"
| "rtmp_to_core_err ProtocolViolation = CoreInvalidData"
| "rtmp_to_core_err InvalidAmf0 = CoreInvalidData"
| "rtmp_to_core_err InvalidChunk = CoreInvalidData"
| "rtmp_to_core_err InvalidCommand = CoreInvalidData"
| "rtmp_to_core_err (UnsupportedHandshakeVersion v) = CoreUnsupported"
| "rtmp_to_core_err _ = CoreOther"

datatype media_event =
    MeAudio u32 audio_tag
  | MeVideo u32 video_tag
  | MeMetadata amf0_value
  | MeSkip
  | MeEnd

record media_state =
  md_streams :: "stream_info list"
  md_metadata :: "(rstring \<times> rstring) list"
  md_ended :: bool
  md_ts :: ts_unwrapper
  md_tracks :: track_streams

definition md_new :: media_state where
  "md_new = \<lparr>md_streams = [], md_metadata = [], md_ended = False, md_ts = tu_new, md_tracks = \<lparr>tks_extra = []\<rparr>\<rparr>"

definition with_layout :: "media_state \<Rightarrow> ts_unwrapper \<Rightarrow> av_packet list result \<times> layout \<Rightarrow>
    av_packet list result \<times> media_state" where
  "with_layout m ts r =
     (fst r, m\<lparr>md_ts := ts, md_tracks := fst (snd r), md_streams := snd (snd r)\<rparr>)"

text \<open>One round of either loop after \<open>next_media\<close>.\<close>

fun media_step :: "(f64 \<Rightarrow> rstring) \<Rightarrow> media_event \<Rightarrow> media_state \<Rightarrow> av_packet list result \<times> media_state" where
  "media_step fmt (MeAudio timestamp t) m =
    (case unwrap_ms timestamp (md_ts m) of (ts_ms, ts) \<Rightarrow>
       with_layout m ts (audio_packets ts_ms t (md_tracks m, md_streams m)))"
| "media_step fmt (MeVideo timestamp t) m =
    (case unwrap_ms timestamp (md_ts m) of (ts_ms, ts) \<Rightarrow>
       with_layout m ts (video_packets ts_ms t (md_tracks m, md_streams m)))"
| "media_step fmt (MeMetadata v) m = (Inr [], m\<lparr>md_metadata := flatten_metadata fmt v (md_metadata m)\<rparr>)"
| "media_step fmt MeSkip m = (Inr [], m)"
| "media_step fmt MeEnd m = (Inr [], m\<lparr>md_ended := True\<rparr>)"

definition is_audio_event :: "media_event \<Rightarrow> bool" where
  "is_audio_event ev = (case ev of MeAudio _ _ \<Rightarrow> True | _ \<Rightarrow> False)"

definition is_video_event :: "media_event \<Rightarrow> bool" where
  "is_video_event ev = (case ev of MeVideo _ _ \<Rightarrow> True | _ \<Rightarrow> False)"

text \<open>
  \<open>probe_source\<close>: at most \<open>PROBE_LIMIT\<close> rounds, until both kinds were seen, the source would
  block or the stream ends; an error is returned at once.
\<close>

record probe_state =
  ps_media :: media_state
  ps_buffered :: "(av_packet \<times> bool) list"

fun probe_loop :: "(f64 \<Rightarrow> rstring) \<Rightarrow> ('s \<Rightarrow> media_event result \<times> 's) \<Rightarrow> nat \<Rightarrow> bool \<Rightarrow> bool \<Rightarrow>
    's \<Rightarrow> probe_state \<Rightarrow> probe_state result \<times> 's" where
  "probe_loop fmt next 0 have_audio have_video src st = (Inr st, src)"
| "probe_loop fmt next (Suc n) have_audio have_video src st =
    (if have_audio \<and> have_video then (Inr st, src)
     else (case next src of
       (Inl e, src') \<Rightarrow> (if e = Io IoWouldBlock \<or> e = Io IoTimedOut then Inr st else Inl e, src')
     | (Inr ev, src') \<Rightarrow>
         (case media_step fmt ev (ps_media st) of
            (Inl e, m) \<Rightarrow> (Inl e, src')
          | (Inr packets, m) \<Rightarrow>
              let st' = st\<lparr>ps_media := m,
                    ps_buffered := ps_buffered st @ map (\<lambda>p. (p, is_audio_event ev)) packets\<rparr>
              in if ev = MeEnd then (Inr st', src')
                 else probe_loop fmt next n (have_audio \<or> is_audio_event ev) (have_video \<or> is_video_event ev)
                   src' st')))"

definition probe_source :: "(f64 \<Rightarrow> rstring) \<Rightarrow> ('s \<Rightarrow> media_event result \<times> 's) \<Rightarrow> (nat option \<Rightarrow> 's \<Rightarrow> 's) \<Rightarrow>
    nat option \<Rightarrow> 's \<Rightarrow> probe_state result \<times> 's" where
  "probe_source fmt next set_timeout read_timeout src =
    (let src0 = (if read_timeout \<noteq> None then set_timeout read_timeout src else src) in
     case probe_loop fmt next PROBE_LIMIT False False src0 \<lparr>ps_media = md_new, ps_buffered = []\<rparr> of
       (Inl e, src') \<Rightarrow> (Inl e, src')
     | (Inr st, src') \<Rightarrow>
         (Inr (st\<lparr>ps_media := (ps_media st)\<lparr>md_streams := sort_key si_index (md_streams (ps_media st))\<rparr>\<rparr>),
          set_timeout None src'))"

text \<open>
  \<open>steady_next\<close>: reads until an event gives a packet.  A source that sends nothing but other
  events forever keeps it in the loop, which is the value \<open>None\<close> here.
\<close>

partial_function (option) steady_next :: "(f64 \<Rightarrow> rstring) \<Rightarrow> ('s \<Rightarrow> media_event result \<times> 's) \<Rightarrow>
    's \<Rightarrow> media_state \<Rightarrow> av_packet list \<Rightarrow> ((core_error + av_packet) \<times> 's \<times> media_state \<times> av_packet list) option" where
  "steady_next fmt next src m pending =
    (case next src of
       (Inl e, src') \<Rightarrow> Some (Inl (rtmp_to_core_err e), src', m, pending)
     | (Inr ev, src') \<Rightarrow>
         (case media_step fmt ev m of
            (Inl e, m') \<Rightarrow> Some (Inl (rtmp_to_core_err e), src', m', pending)
          | (Inr packets, m') \<Rightarrow>
              if ev = MeEnd then Some (Inl CoreEof, src', m', pending)
              else (case packets of
                  [] \<Rightarrow> steady_next fmt next src' m' pending
                | p # ps \<Rightarrow> Some (Inr p, src', m', pending @ ps))))"

section \<open>Packet sources\<close>

text \<open>\<open>RtmpPacketSource\<close> and \<open>RtmpPlayerPacketSource\<close>, which differ in the source they wrap.\<close>

record 's packet_source =
  px_source :: 's
  px_media :: media_state
  px_buffered :: "(av_packet \<times> bool) list"
  px_pending :: "av_packet list"

definition from_session :: "'s \<Rightarrow> 's packet_source" where
  "from_session src = \<lparr>px_source = src, px_media = md_new, px_buffered = [], px_pending = []\<rparr>"

definition from_session_with_probe :: "(f64 \<Rightarrow> rstring) \<Rightarrow> ('s \<Rightarrow> media_event result \<times> 's) \<Rightarrow>
    (nat option \<Rightarrow> 's \<Rightarrow> 's) \<Rightarrow> nat option \<Rightarrow> 's \<Rightarrow> 's packet_source result" where
  "from_session_with_probe fmt next set_timeout read_timeout src =
    (case probe_source fmt next set_timeout read_timeout src of
       (Inl e, _) \<Rightarrow> Inl e
     | (Inr st, src') \<Rightarrow>
         Inr \<lparr>px_source = src', px_media = ps_media st, px_buffered = ps_buffered st, px_pending = []\<rparr>)"

definition next_packet :: "(f64 \<Rightarrow> rstring) \<Rightarrow> ('s \<Rightarrow> media_event result \<times> 's) \<Rightarrow> 's packet_source \<Rightarrow>
    ((core_error + av_packet) \<times> 's packet_source) option" where
  "next_packet fmt next px =
    (case px_buffered px of
       b # bs \<Rightarrow> Some (Inr (fst b), px\<lparr>px_buffered := bs\<rparr>)
     | [] \<Rightarrow>
        (case px_pending px of
           p # ps \<Rightarrow> Some (Inr p, px\<lparr>px_pending := ps\<rparr>)
         | [] \<Rightarrow>
            if md_ended (px_media px) then Some (Inl CoreEof, px)
            else map_option (\<lambda>(r, src, m, pending).
                (r, px\<lparr>px_source := src, px_media := m, px_pending := pending\<rparr>))
              (steady_next fmt next (px_source px) (px_media px) (px_pending px))))"

section \<open>Listen URLs\<close>

record listen_url =
  lu_bind_addr :: rstring
  lu_expected_app :: rstring
  lu_expected_stream :: rstring

definition parse_listen_url :: "rstring \<Rightarrow> core_error + listen_url" where
  "parse_listen_url uri =
    (case strip_prefix (lit ''rtmp://'') uri of
       None \<Rightarrow> Inl CoreInvalidData
     | Some s \<Rightarrow>
        (case split_at 0x2F s of
           None \<Rightarrow> Inl CoreInvalidData
         | Some (authority, path) \<Rightarrow>
            let (host, port_str) = (case rsplit_at 0x3A authority of
                  Some hp \<Rightarrow> hp | None \<Rightarrow> (authority, lit ''1935''))
            in (case parse_uint 65535 port_str of
                  None \<Rightarrow> Inl CoreInvalidData
                | Some port \<Rightarrow>
                    let bind_host = (if host = [] then lit ''0.0.0.0'' else host);
                        (app, stream_name) = (case split_at 0x2F path of Some x \<Rightarrow> x | None \<Rightarrow> (path, []))
                    in Inr \<lparr>lu_bind_addr = bind_host @ [0x3A] @ dec_nat port, lu_expected_app = app,
                         lu_expected_stream = stream_name\<rparr>)))"

text \<open>The check of \<open>open_rtmp\<close> on what the publisher announced.\<close>

definition publisher_accepted :: "listen_url \<Rightarrow> rstring \<Rightarrow> rstring \<Rightarrow> bool" where
  "publisher_accepted url app stream_name \<longleftrightarrow>
     (lu_expected_app url = [] \<or> app = lu_expected_app url)
     \<and> (lu_expected_stream url = [] \<or> stream_name = lu_expected_stream url)"

text \<open>\<open>open_rtmp_play\<close> dials the URL with the scheme replaced.\<close>

definition dial_url :: "rstring \<Rightarrow> core_error + rstring" where
  "dial_url uri = (case strip_prefix (lit ''rtmp-play://'') uri of
     None \<Rightarrow> Inl CoreInvalidData | Some rest \<Rightarrow> Inr (lit ''rtmp://'' @ rest))"

section \<open>The clock\<close>

fun unwrap_all :: "u32 list \<Rightarrow> ts_unwrapper \<Rightarrow> i64 list" where
  "unwrap_all [] u = []"
| "unwrap_all (r # rs) u = (case unwrap_ms r u of (x, u') \<Rightarrow> x # unwrap_all rs u')"

definition rtmp_step :: "int \<Rightarrow> int \<Rightarrow> bool" where
  "rtmp_step a b \<longleftrightarrow> - (2 ^ 31) \<le> b - a \<and> b - a < 2 ^ 31"

lemma unwrap_step:
  assumes "rtmp_step a b" and "- (2 ^ 63) \<le> a" "a < 2 ^ 63" and "- (2 ^ 63) \<le> b" "b < 2 ^ 63"
  shows "unwrap_ms (word_of_int b) \<lparr>tu_last = Some (word_of_int a, word_of_int a)\<rparr>
    = (word_of_int b, \<lparr>tu_last = Some (word_of_int b, word_of_int b)\<rparr>)"
proof -
  have "sint (word_of_int (b - a) :: u32) = b - a"
    unfolding sint_sbintrunc' using assms(1) by (simp add: rtmp_step_def signed_take_bit_int_eq_self)
  then have "(scast (word_of_int (b - a) :: u32) :: i64) = word_of_int (b - a)" by (simp only: scast_eq)
  then have "(scast (word_of_int b - word_of_int a :: u32) :: i64) = word_of_int b - word_of_int a" by simp
  then show ?thesis by (simp add: unwrap_ms_def Let_def)
qed

lemma unwrap_all_tracks:
  "successively rtmp_step (t # ts) \<Longrightarrow> list_all (\<lambda>x. - (2 ^ 63) \<le> x \<and> x < 2 ^ 63) (t # ts) \<Longrightarrow>
   map sint (unwrap_all (map word_of_int ts) \<lparr>tu_last = Some (word_of_int t, word_of_int t)\<rparr>) = ts"
proof (induction ts arbitrary: t)
  case (Cons b ts)
  then show ?case
    by (simp add: unwrap_step sint_sbintrunc' signed_take_bit_int_eq_self)
qed simp

text \<open>
  C40. The 32-bit timestamps of a stream are laid on a 64-bit clock: when consecutive messages
  are less than 2^31 ms apart in either direction, the unwrapped values are the true times,
  across any number of roll-overs.
\<close>

theorem unwrap_follows_clock:
  assumes "0 \<le> t" "t < 2 ^ 32" and "successively rtmp_step (t # ts)"
    and "list_all (\<lambda>x. - (2 ^ 63) \<le> x \<and> x < 2 ^ 63) ts"
  shows "map sint (unwrap_all (map word_of_int (t # ts)) tu_new) = t # ts"
proof -
  have "take_bit 32 t = t" using assms(1,2) by (simp add: take_bit_int_eq_self)
  then have "uint (word_of_int t :: u32) = t" unfolding unsigned_of_int using assms(1) by simp
  then have w: "(ucast (word_of_int t :: u32) :: i64) = word_of_int t" by (simp only: ucast_eq)
  have "list_all (\<lambda>x. - (2 ^ 63) \<le> x \<and> x < 2 ^ 63) (t # ts)" using assms by simp
  from unwrap_all_tracks[OF assms(3) this] show ?thesis
    using assms(1,2)
    by (simp add: tu_new_def unwrap_ms_def Let_def w sint_sbintrunc' signed_take_bit_int_eq_self)
qed

theorem unwrap_follows_clock_witness:
  "map sint (unwrap_all (map word_of_int (4294967290 # [4294967300, 4294967295])) tu_new)
     = 4294967290 # [4294967300, 4294967295]"
  by (rule unwrap_follows_clock) (simp_all add: rtmp_step_def)

section \<open>The stream layout\<close>

definition layout_ok :: "layout \<Rightarrow> bool" where
  "layout_ok l \<longleftrightarrow> sorted_wrt (<) (map si_index (snd l))
     \<and> map (snd \<circ> snd) (tks_extra (fst l)) = map (\<lambda>i. 2 + word_of_nat i) [0..<length (tks_extra (fst l))]
     \<and> distinct (map (\<lambda>(a, i, _). (a, i)) (tks_extra (fst l)))
     \<and> list_all (\<lambda>(_, i, _). i \<noteq> 0) (tks_extra (fst l))"

lemma track_count: "layout_ok l \<Longrightarrow> length (tks_extra (fst l)) \<le> 512"
proof -
  assume ok: "layout_ok l"
  have "finite (UNIV :: (bool \<times> u8) set)" by simp
  then have "card (set (map (\<lambda>(a, i, _). (a, i)) (tks_extra (fst l)))) \<le> card (UNIV :: (bool \<times> u8) set)"
    by (rule card_mono) simp
  moreover have "card (UNIV :: (bool \<times> u8) set) = 512"
    by (simp add: card_UNIV_bool card_word flip: UNIV_Times_UNIV)
  moreover have "card (set (map (\<lambda>(a, i, _). (a, i)) (tks_extra (fst l)))) = length (tks_extra (fst l))"
    using ok by (subst distinct_card) (simp_all add: layout_ok_def)
  ultimately show ?thesis by simp
qed

lemma sort_key_insert:
  "sorted_wrt (<) (map f xs) \<Longrightarrow> f x \<notin> f ` set xs \<Longrightarrow> sorted_wrt (<) (map f (sort_key f (xs @ [x])))"
  for f :: "'a \<Rightarrow> 'b::linorder"
proof -
  assume s: "sorted_wrt (<) (map f xs)" and x: "f x \<notin> f ` set xs"
  have "sorted (map f (sort_key f (xs @ [x])))" by simp
  moreover have "distinct (map f (sort_key f (xs @ [x])))"
  proof -
    have "mset (map f (sort_key f (xs @ [x]))) = mset (map f (xs @ [x]))" by simp
    moreover have "distinct (map f (xs @ [x]))" using s x by (auto simp: strict_sorted_iff)
    ultimately show ?thesis by (metis mset_eq_imp_distinct_iff)
  qed
  ultimately show ?thesis by (simp add: strict_sorted_iff)
qed

lemma ensure_stream_sorted:
  "sorted_wrt (<) (map si_index ss) \<Longrightarrow> sorted_wrt (<) (map si_index (ensure_stream i p ss))
    \<and> set (map si_index (ensure_stream i p ss)) = insert i (set (map si_index ss))"
  using sort_key_insert[of si_index ss "\<lparr>si_index = i, si_time_base = RTMP_TIME_BASE, si_params = p\<rparr>"]
  by (auto simp: ensure_stream_def list_all_iff image_iff)

lemma track_index_ok:
  "layout_ok (t, ss) \<Longrightarrow> track_index is_audio i t = (idx, t') \<Longrightarrow> layout_ok (t', ss)"
  by (auto simp: track_index_def layout_ok_def find_None_iff Let_def split: if_splits option.splits)

lemma track_packets_ok:
  "layout_ok l \<Longrightarrow> (\<And>t i. pk_stream_index (f t i) = i) \<Longrightarrow> track_packets a g f ts l = (ps, l') \<Longrightarrow>
   layout_ok l' \<and> set (map si_index (snd l)) \<subseteq> set (map si_index (snd l'))
     \<and> set (map pk_stream_index ps) \<subseteq> set (map si_index (snd l'))"
proof (induction ts arbitrary: l ps l')
  case (Cons it ts)
  obtain i t tr ss where it: "it = (i, t)" and l: "l = (tr, ss)" by (cases it, cases l) auto
  obtain idx tr1 where ti: "track_index a i tr = (idx, tr1)" by (cases "track_index a i tr")
  define l1 where "l1 = (tr1, ensure_stream idx (g t) ss)"
  obtain ps1 where rest: "track_packets a g f ts l1 = (ps1, l')" and ps: "ps = f t idx # ps1"
    using Cons.prems(3) by (auto simp: it l one_packet_def ti l1_def split: prod.splits)
  have "layout_ok (tr1, ss)" using track_index_ok[OF _ ti] Cons.prems(1) by (simp add: l)
  then have "sorted_wrt (<) (map si_index ss)" by (simp add: layout_ok_def)
  note e = ensure_stream_sorted[OF this, of idx "g t"]
  have l1: "layout_ok l1" using \<open>layout_ok (tr1, ss)\<close> e by (simp add: layout_ok_def l1_def)
  note IH = Cons.IH[OF l1 Cons.prems(2) rest]
  have "set (map si_index (snd l1)) = insert idx (set (map si_index ss))" using e by (simp add: l1_def)
  then show ?case using IH Cons.prems(2) by (auto simp: ps l)
qed simp

lemma packet_stream_index:
  "pk_stream_index (audio_to_packet_at ts t i n) = i" "pk_stream_index (video_to_packet_at ts t' i n) = i"
  by (simp_all add: audio_to_packet_at_def video_to_packet_at_def Let_def split: prod.split)

definition packets_in :: "layout \<Rightarrow> av_packet list result \<times> layout \<Rightarrow> bool" where
  "packets_in l r \<longleftrightarrow> layout_ok (snd r) \<and> set (map si_index (snd l)) \<subseteq> set (map si_index (snd (snd r)))
     \<and> (case fst r of Inl e \<Rightarrow> True | Inr ps \<Rightarrow> set (map pk_stream_index ps) \<subseteq> set (map si_index (snd (snd r))))"

lemma track_packets_in:
  "layout_ok l \<Longrightarrow> (\<And>t i. pk_stream_index (f t i) = i) \<Longrightarrow>
   packets_in l (case track_packets a g f ts l of (ps, l') \<Rightarrow> (Inr ps, l'))"
  using track_packets_ok[of l f a g ts]
  by (cases "track_packets a g f ts l") (simp add: packets_in_def del: set_map)

lemma message_packets_ok:
  assumes "layout_ok l"
  shows "packets_in l (audio_packets ts t l)" and "packets_in l (video_packets ts t' l)"
  using assms unfolding audio_packets_def video_packets_def
  by (auto simp: packet_stream_index simp del: track_packets.simps intro!: track_packets_in split: sum.split)
    (simp_all add: packets_in_def)

definition md_layout :: "media_state \<Rightarrow> layout" where
  "md_layout m = (md_tracks m, md_streams m)"

lemma with_layout_simps [simp]:
  "fst (with_layout m ts r) = fst r" "md_layout (snd (with_layout m ts r)) = snd r"
  "md_ended (snd (with_layout m ts r)) = md_ended m"
  by (simp_all add: with_layout_def md_layout_def)

lemma media_step_ok:
  assumes "layout_ok (md_layout m)"
  shows "packets_in (md_layout m) (fst (media_step fmt ev m), md_layout (snd (media_step fmt ev m)))"
proof (cases ev)
  case (MeAudio x t)
  then show ?thesis using message_packets_ok(1)[OF assms, of "fst (unwrap_ms x (md_ts m))" t]
    by (simp add: split_beta) (simp add: md_layout_def)
next
  case (MeVideo x t)
  then show ?thesis using message_packets_ok(2)[OF assms, of "fst (unwrap_ms x (md_ts m))" t]
    by (simp add: split_beta) (simp add: md_layout_def)
qed (use assms in \<open>simp_all add: packets_in_def md_layout_def\<close>)

text \<open>The packets of a sequence of events; a message that cannot be split gives none.\<close>

fun run_events :: "(f64 \<Rightarrow> rstring) \<Rightarrow> media_event list \<Rightarrow> media_state \<Rightarrow> av_packet list \<times> media_state" where
  "run_events fmt [] m = ([], m)"
| "run_events fmt (ev # evs) m =
    (case media_step fmt ev m of (r, m1) \<Rightarrow>
     case run_events fmt evs m1 of (ps, m2) \<Rightarrow> ((case r of Inr qs \<Rightarrow> qs | Inl _ \<Rightarrow> []) @ ps, m2))"

lemma run_events_ok:
  "layout_ok (md_layout m) \<Longrightarrow> run_events fmt evs m = (ps, m') \<Longrightarrow>
   layout_ok (md_layout m') \<and> set (map si_index (md_streams m)) \<subseteq> set (map si_index (md_streams m'))
     \<and> set (map pk_stream_index ps) \<subseteq> set (map si_index (md_streams m'))"
proof (induction evs arbitrary: m ps)
  case (Cons ev evs)
  obtain r m1 where s: "media_step fmt ev m = (r, m1)" by (cases "media_step fmt ev m")
  obtain ps1 where rest: "run_events fmt evs m1 = (ps1, m')"
      and ps: "ps = (case r of Inr qs \<Rightarrow> qs | Inl _ \<Rightarrow> []) @ ps1"
    using Cons.prems(2) by (auto simp: s split: prod.splits)
  have one: "packets_in (md_layout m) (r, md_layout m1)"
    using media_step_ok[OF Cons.prems(1), of fmt ev] by (simp add: s)
  then have "layout_ok (md_layout m1)" by (simp add: packets_in_def)
  from Cons.IH[OF this rest] one show ?case
    unfolding packets_in_def md_layout_def ps snd_conv fst_conv map_append set_append
    by (auto simp del: set_map split: sum.splits)
qed simp

lemma md_new_ok: "layout_ok (md_layout md_new)"
  by (simp add: md_layout_def md_new_def layout_ok_def)

text \<open>
  C39. The stream layout: after any sequence of media events the registered streams have
  distinct, ascending indices, and every packet produced belongs to one of them; additional
  tracks have the indices from 2 on in the order they were first seen, so two tracks never share
  a stream.
\<close>

theorem stream_layout_invariant:
  "case run_events fmt evs md_new of (ps, m) \<Rightarrow>
     sorted_wrt (<) (map si_index (md_streams m))
     \<and> list_all (\<lambda>p. pk_stream_index p \<in> set (map si_index (md_streams m))) ps
     \<and> distinct (map (\<lambda>(a, i, _). (a, i)) (tks_extra (md_tracks m)))
     \<and> map (\<lambda>(_, _, idx). unat idx) (tks_extra (md_tracks m)) = [2 ..< 2 + length (tks_extra (md_tracks m))]"
proof -
  obtain ps m where r: "run_events fmt evs md_new = (ps, m)" by (cases "run_events fmt evs md_new")
  note ok = run_events_ok[OF md_new_ok r]
  then have l: "layout_ok (md_layout m)" by blast
  let ?xs = "tks_extra (md_tracks m)"
  have n: "length ?xs \<le> 512" using track_count[OF l] by (simp add: md_layout_def)
  have "map unat (map (snd \<circ> snd) ?xs) = map unat (map (\<lambda>i. 2 + word_of_nat i :: u32) [0..<length ?xs])"
    using l by (simp add: layout_ok_def md_layout_def)
  also have "\<dots> = map (\<lambda>i. 2 + i) [0..<length ?xs]"
    using n by (auto simp: unat_word_ariths unat_of_nat take_bit_nat_eq_self)
  also have "\<dots> = [2 ..< 2 + length ?xs]" by (simp only: add.commute[of 2] map_add_upt)
  finally have "map (\<lambda>(_, _, idx). unat idx) ?xs = [2 ..< 2 + length ?xs]"
    by (simp add: comp_def split_def)
  then show ?thesis using ok l by (auto simp: r layout_ok_def md_layout_def list_all_iff)
qed

section \<open>Probing is transparent\<close>

text \<open>A source that has the events \<open>es\<close> to give and then ends.\<close>

fun next_scripted :: "media_event list \<Rightarrow> media_event result \<times> media_event list" where
  "next_scripted [] = (Inr MeEnd, [])"
| "next_scripted (e # es) = (Inr e, es)"

fun take_packets :: "(f64 \<Rightarrow> rstring) \<Rightarrow> ('s \<Rightarrow> media_event result \<times> 's) \<Rightarrow> nat \<Rightarrow> 's packet_source \<Rightarrow>
    av_packet list option" where
  "take_packets fmt next 0 px = Some []"
| "take_packets fmt next (Suc n) px =
    (case next_packet fmt next px of
       None \<Rightarrow> None
     | Some (Inl e, px') \<Rightarrow> Some []
     | Some (Inr p, px') \<Rightarrow> map_option (Cons p) (take_packets fmt next n px'))"

text \<open>No event is the end, and every multitrack message can be split.\<close>

fun events_ok :: "(f64 \<Rightarrow> rstring) \<Rightarrow> media_event list \<Rightarrow> media_state \<Rightarrow> bool" where
  "events_ok fmt [] m \<longleftrightarrow> True"
| "events_ok fmt (ev # evs) m \<longleftrightarrow> ev \<noteq> MeEnd \<and> (\<exists>ps. fst (media_step fmt ev m) = Inr ps)
     \<and> events_ok fmt evs (snd (media_step fmt ev m))"

lemma media_step_ended: "ev \<noteq> MeEnd \<Longrightarrow> md_ended (snd (media_step fmt ev m)) = md_ended m"
  by (cases ev) (simp_all add: split_beta)

lemma steady_scripted:
  "events_ok fmt es m \<Longrightarrow>
   (\<exists>es' m' p ps. steady_next fmt next_scripted es m qs = Some (Inr p, es', m', qs @ ps)
      \<and> fst (run_events fmt es m) = p # ps @ fst (run_events fmt es' m')
      \<and> events_ok fmt es' m' \<and> md_ended m' = md_ended m)
   \<or> (\<exists>m'. steady_next fmt next_scripted es m qs = Some (Inl CoreEof, [], m', qs)
      \<and> fst (run_events fmt es m) = [])"
proof (induction es arbitrary: m)
  case Nil
  show ?case by (subst (1 2) steady_next.simps) simp
next
  case (Cons ev es)
  obtain ps m1 where s: "media_step fmt ev m = (Inr ps, m1)" and ok: "events_ok fmt es m1" and ev: "ev \<noteq> MeEnd"
    using Cons.prems by (cases "media_step fmt ev m") auto
  have e: "md_ended m1 = md_ended m" using media_step_ended[OF ev, of fmt m] by (simp add: s)
  show ?case
  proof (cases ps)
    case Nil
    then have "steady_next fmt next_scripted (ev # es) m qs = steady_next fmt next_scripted es m1 qs"
      by (subst steady_next.simps) (simp add: s ev)
    then show ?thesis using Cons.IH[OF ok] by (simp add: s Nil e split_beta)
  next
    case (Cons p ps')
    then have "steady_next fmt next_scripted (ev # es) m qs = Some (Inr p, es, m1, qs @ ps')"
      by (subst steady_next.simps) (simp add: s ev)
    then show ?thesis using ok e by (simp add: s Cons split_beta)
  qed
qed

lemma take_packets_scripted:
  "events_ok fmt es m \<Longrightarrow> \<not> md_ended m \<or> es = [] \<Longrightarrow>
   take_packets fmt next_scripted n \<lparr>px_source = es, px_media = m, px_buffered = bs, px_pending = qs\<rparr>
     = Some (take n (map fst bs @ qs @ fst (run_events fmt es m)))"
proof (induction n arbitrary: es m bs qs)
  case (Suc n)
  show ?case
  proof (cases bs)
    case (Cons b bs')
    then show ?thesis using Suc.IH[OF Suc.prems] by (simp add: next_packet_def)
  next
    case Nil
    show ?thesis
    proof (cases qs)
      case (Cons q qs')
      then show ?thesis using Suc.IH[OF Suc.prems, of "[]"] Nil by (simp add: next_packet_def)
    next
      case empty: Nil
      show ?thesis
      proof (cases "md_ended m")
        case True
        then show ?thesis using Suc.prems Nil empty by (simp add: next_packet_def)
      next
        case False
        from steady_scripted[OF Suc.prems(1), of "[]"] show ?thesis
        proof (elim disjE exE conjE)
          fix es' m' p ps
          assume a: "steady_next fmt next_scripted es m [] = Some (Inr p, es', m', [] @ ps)"
            "fst (run_events fmt es m) = p # ps @ fst (run_events fmt es' m')" "events_ok fmt es' m'"
            "md_ended m' = md_ended m"
          then show ?thesis using Suc.IH[OF a(3), of "[]" ps] False Nil empty by (simp add: next_packet_def)
        next
          fix m'
          assume "steady_next fmt next_scripted es m [] = Some (Inl CoreEof, [], m', [])"
            "fst (run_events fmt es m) = []"
          then show ?thesis using False Nil empty by (simp add: next_packet_def)
        qed
      qed
    qed
  qed
qed simp

lemma probe_scripted:
  "events_ok fmt es (ps_media st) \<Longrightarrow> \<not> md_ended (ps_media st) \<Longrightarrow> layout_ok (md_layout (ps_media st)) \<Longrightarrow>
   \<exists>st' es'. probe_loop fmt next_scripted n a v es st = (Inr st', es') \<and> events_ok fmt es' (ps_media st')
     \<and> (\<not> md_ended (ps_media st') \<or> es' = []) \<and> layout_ok (md_layout (ps_media st'))
     \<and> map fst (ps_buffered st') @ fst (run_events fmt es' (ps_media st'))
         = map fst (ps_buffered st) @ fst (run_events fmt es (ps_media st))"
proof (induction n arbitrary: a v es st)
  case (Suc n)
  show ?case
  proof (cases "a \<and> v")
    case True
    then show ?thesis using Suc.prems by simp
  next
    case False
    show ?thesis
    proof (cases es)
      case Nil
      then show ?thesis using False Suc.prems by (simp add: md_layout_def Let_def)
    next
      case (Cons ev es')
      obtain ps m1 where s: "media_step fmt ev (ps_media st) = (Inr ps, m1)" and ok: "events_ok fmt es' m1"
          and ev: "ev \<noteq> MeEnd"
        using Suc.prems Cons by (cases "media_step fmt ev (ps_media st)") auto
      have e: "\<not> md_ended m1" using media_step_ended[OF ev, of fmt "ps_media st"] Suc.prems by (simp add: s)
      have l: "layout_ok (md_layout m1)"
        using media_step_ok[OF Suc.prems(3), of fmt ev] by (simp add: s packets_in_def)
      let ?st = "st\<lparr>ps_media := m1, ps_buffered := ps_buffered st @ map (\<lambda>p. (p, is_audio_event ev)) ps\<rparr>"
      have "probe_loop fmt next_scripted (Suc n) a v es st =
          probe_loop fmt next_scripted n (a \<or> is_audio_event ev) (v \<or> is_video_event ev) es' ?st"
        unfolding probe_loop.simps if_not_P[OF False] Cons using ev by (simp add: s Let_def)
      moreover have "map fst (ps_buffered ?st) @ fst (run_events fmt es' (ps_media ?st))
          = map fst (ps_buffered st) @ fst (run_events fmt es (ps_media st))"
        by (simp add: Cons s split_beta comp_def)
      ultimately show ?thesis using Suc.IH[of es' ?st "a \<or> is_audio_event ev" "v \<or> is_video_event ev"] ok e l
        by simp
    qed
  qed
qed simp

text \<open>
  C38. Probing is transparent: a packet source that looked ahead at its stream to learn the
  codecs gives exactly the packets, in order, that one without probing gives, which are those of
  all the events; and neither gets stuck.
\<close>

theorem probe_transparent:
  assumes "events_ok fmt es md_new"
  shows "take_packets fmt next_scripted n (from_session es) = Some (take n (fst (run_events fmt es md_new)))
    \<and> (case from_session_with_probe fmt next_scripted (\<lambda>_ s. s) timeout es of
         Inl e \<Rightarrow> False
       | Inr px \<Rightarrow> take_packets fmt next_scripted n px = Some (take n (fst (run_events fmt es md_new))))"
proof -
  let ?st0 = "\<lparr>ps_media = md_new, ps_buffered = []\<rparr>"
  have new: "\<not> md_ended md_new" by (simp add: md_new_def)
  obtain st es' where st: "probe_loop fmt next_scripted PROBE_LIMIT False False es ?st0 = (Inr st, es')"
      and ok: "events_ok fmt es' (ps_media st)" "\<not> md_ended (ps_media st) \<or> es' = []"
      and l: "layout_ok (md_layout (ps_media st))"
      and same: "map fst (ps_buffered st) @ fst (run_events fmt es' (ps_media st)) = fst (run_events fmt es md_new)"
    using probe_scripted[of fmt es ?st0 PROBE_LIMIT False False] assms new md_new_ok by auto
  have "sorted (map si_index (md_streams (ps_media st)))"
    using l by (simp add: layout_ok_def md_layout_def strict_sorted_imp_sorted)
  then have "sort_key si_index (md_streams (ps_media st)) = md_streams (ps_media st)"
    by (simp add: sort_key_id_if_sorted)
  then have "from_session_with_probe fmt next_scripted (\<lambda>_ s. s) timeout es =
      Inr \<lparr>px_source = es', px_media = ps_media st, px_buffered = ps_buffered st, px_pending = []\<rparr>"
    by (simp add: from_session_with_probe_def probe_source_def st Let_def)
  with take_packets_scripted[OF ok, of n "ps_buffered st" "[]"] same
    take_packets_scripted[OF assms, of n "[]" "[]"] new
  show ?thesis by (simp add: from_session_def)
qed

theorem probe_transparent_witness:
  "let es = [MeSkip, MeAudio 5 (audio_sequence_end_tag [1, 2, 3, 4]), MeVideo 9 (command_tag 7 0)]
   in take_packets (\<lambda>_. []) next_scripted 3 (from_session es) = Some (take 3 (fst (run_events (\<lambda>_. []) es md_new)))"
  unfolding Let_def
  by (rule conjunct1[OF probe_transparent])
    (simp add: split_beta audio_packets_def video_packets_def at_is_multitrack_def vt_is_multitrack_def
      audio_sequence_end_tag_def ex_audio_tag_def command_tag_def)

section \<open>URLs\<close>

lemma parse_listen_run:
  assumes "0x2F \<notin> set host" and "0x2F \<notin> set app" and "port \<le> 65535"
  shows "parse_listen_url (lit ''rtmp://'' @ host @ [0x3A] @ dec_nat port @ [0x2F] @ app @ [0x2F] @ stream) =
     Inr \<lparr>lu_bind_addr = (if host = [] then lit ''0.0.0.0'' else host) @ [0x3A] @ dec_nat port,
       lu_expected_app = app, lu_expected_stream = stream\<rparr>"
proof -
  have digits: "0x2F \<notin> set (dec_nat port)" "0x3A \<notin> set (dec_nat port)"
    by (rule dec_nat_no, simp add: is_digit_def)+
  have "split_at 0x2F ((host @ [0x3A] @ dec_nat port) @ 0x2F # app @ [0x2F] @ stream)
      = Some (host @ [0x3A] @ dec_nat port, app @ [0x2F] @ stream)"
    using assms(1) digits by (intro split_at_first) simp
  moreover have "rsplit_at 0x3A (host @ [0x3A] @ dec_nat port) = Some (host, dec_nat port)"
    using rsplit_at_last[OF digits(2), of host] by simp
  moreover have "split_at 0x2F (app @ [0x2F] @ stream) = Some (app, stream)"
    using split_at_first[OF assms(2), of stream] by simp
  ultimately show ?thesis
    using parse_uint_dec[OF assms(3)] by (simp add: parse_listen_url_def Let_def)
qed

text \<open>
  A listen URL is taken apart where it was put together: host, port, application and stream
  name, the host possibly holding colons, the stream name slashes; the default host listens on
  every address, and exactly the publishers naming that application and stream are accepted.
\<close>

theorem listen_url_parses:
  assumes "0x2F \<notin> set host" and "0x2F \<notin> set app" and "port \<le> 65535"
  shows "parse_listen_url (lit ''rtmp://'' @ host @ [0x3A] @ dec_nat port @ [0x2F] @ app @ [0x2F] @ stream) =
     Inr \<lparr>lu_bind_addr = (if host = [] then lit ''0.0.0.0'' else host) @ [0x3A] @ dec_nat port,
       lu_expected_app = app, lu_expected_stream = stream\<rparr>
   \<and> (publisher_accepted \<lparr>lu_bind_addr = b, lu_expected_app = app, lu_expected_stream = stream\<rparr> a s \<longleftrightarrow>
       (app = [] \<or> a = app) \<and> (stream = [] \<or> s = stream))"
  using parse_listen_run[OF assms] by (auto simp: publisher_accepted_def)

theorem listen_url_parses_witness:
  "parse_listen_url (lit ''rtmp://'' @ lit ''::1'' @ [0x3A] @ dec_nat 1936 @ [0x2F] @ lit ''live'' @ [0x2F] @ lit ''a/b'') =
     Inr \<lparr>lu_bind_addr = lit ''::1'' @ [0x3A] @ dec_nat 1936, lu_expected_app = lit ''live'', lu_expected_stream = lit ''a/b''\<rparr>"
  using listen_url_parses[of "lit ''::1''" "lit ''live''" 1936 "lit ''a/b''"] by (simp add: lit_def)

end
