(* ===== verification/Sources.thy ===== *)
theory Sources
  imports Playback Adapter
begin

text \<open>
  \<open>adapter.rs\<close> on the sessions: \<open>MediaSource\<close> of \<open>RtmpSession\<close> and \<open>RtmpPlayer\<close>, their packet
  sources, and the two openers; \<open>server.rs\<close>: \<open>serve\<close> and \<open>serve_sessions\<close>; \<open>netutil.rs\<close>:
  \<open>drain_until_fin\<close>.

  A source is a session and the bytes it has still to read; that never times out, so the read timeout
  of probing changes nothing.
\<close>

section \<open>Media of a session\<close>

text \<open>\<open>next_media\<close> of the two.  That the reading method always returns is shown in \<open>Safety\<close>.\<close>

definition session_next_media ::
    "(f64 \<Rightarrow> rstring) \<Rightarrow> rtmp_session \<times> u8 list \<Rightarrow> media_event result \<times> rtmp_session \<times> u8 list" where
  "session_next_media fmt s =
    (case next_packet_of fmt s of
       None \<Rightarrow> (Inl OutOfFuel, s)
     | Some (Inl e, s') \<Rightarrow> (Inl e, s')
     | Some (Inr p, s') \<Rightarrow> (Inr (case p of
           Some (SpAudio ts tag) \<Rightarrow> MeAudio ts tag
         | Some (SpVideo ts tag) \<Rightarrow> MeVideo ts tag
         | Some (SpMetadata v) \<Rightarrow> MeMetadata v
         | Some _ \<Rightarrow> MeSkip
         | None \<Rightarrow> MeEnd), s'))"

definition player_next_media ::
    "(f64 \<Rightarrow> rstring) \<Rightarrow> rtmp_player \<times> u8 list \<Rightarrow> media_event result \<times> rtmp_player \<times> u8 list" where
  "player_next_media fmt s =
    (case player_next_packet fmt s of
       None \<Rightarrow> (Inl OutOfFuel, s)
     | Some (Inl e, s') \<Rightarrow> (Inl e, s')
     | Some (Inr p, s') \<Rightarrow> (Inr (case p of
           Some (PpAudio ts tag) \<Rightarrow> MeAudio ts tag
         | Some (PpVideo ts tag) \<Rightarrow> MeVideo ts tag
         | Some (PpMetadata v) \<Rightarrow> MeMetadata v
         | Some _ \<Rightarrow> MeSkip
         | None \<Rightarrow> MeEnd), s'))"

text \<open>\<open>set_timeout\<close>.\<close>

definition source_set_timeout :: "nat option \<Rightarrow> 's \<Rightarrow> 's" where
  "source_set_timeout d s = s"

definition PROBE_READ_TIMEOUT :: nat where "PROBE_READ_TIMEOUT = 10"

type_synonym session_source = "(rtmp_session \<times> u8 list) packet_source"
type_synonym player_source = "(rtmp_player \<times> u8 list) packet_source"

text \<open>\<open>RtmpPlayerPacketSource\<close>.\<close>

definition from_player :: "rtmp_player \<times> u8 list \<Rightarrow> player_source" where
  "from_player player = \<lparr>px_source = player, px_media = md_new, px_buffered = [], px_pending = []\<rparr>"

definition from_player_with_probe ::
    "(f64 \<Rightarrow> rstring) \<Rightarrow> nat option \<Rightarrow> rtmp_player \<times> u8 list \<Rightarrow> player_source result" where
  "from_player_with_probe fmt read_timeout player =
    (case probe_source fmt (player_next_media fmt) source_set_timeout read_timeout player of
       (Inl e, _) \<Rightarrow> Inl e
     | (Inr st, player') \<Rightarrow>
         Inr \<lparr>px_source = player', px_media = ps_media st, px_buffered = ps_buffered st, px_pending = []\<rparr>)"

definition player_source_next_packet ::
    "(f64 \<Rightarrow> rstring) \<Rightarrow> player_source \<Rightarrow> ((core_error + av_packet) \<times> player_source) option" where
  "player_source_next_packet fmt px =
    (case px_buffered px of
       b # bs \<Rightarrow> Some (Inr (fst b), px\<lparr>px_buffered := bs\<rparr>)
     | [] \<Rightarrow>
        (case px_pending px of
           p # ps \<Rightarrow> Some (Inr p, px\<lparr>px_pending := ps\<rparr>)
         | [] \<Rightarrow>
            if md_ended (px_media px) then Some (Inl CoreEof, px)
            else map_option (\<lambda>(r, src, m, pending).
                (r, px\<lparr>px_source := src, px_media := m, px_pending := pending\<rparr>))
              (steady_next fmt (player_next_media fmt) (px_source px) (px_media px) (px_pending px))))"

text \<open>The two sources differ in the session only.\<close>

lemma player_source_alike:
  "from_player s = from_session s"
  "from_player_with_probe fmt d s = from_session_with_probe fmt (player_next_media fmt) source_set_timeout d s"
  "player_source_next_packet fmt = next_packet fmt (player_next_media fmt)"
  by (simp_all add: from_player_def from_session_def from_player_with_probe_def from_session_with_probe_def
      player_source_next_packet_def next_packet_def fun_eq_iff)

section \<open>Openers\<close>

text \<open>
  \<open>open_rtmp\<close>.  \<open>listen\<close> stands for name resolution and \<open>TcpListener::bind\<close>: for an address, the error
  they give or the connections that will come in.  A publisher that announces another stream is told so on
  its connection before the opener fails, and \<open>None\<close> is waiting for a publisher that never comes.
\<close>

datatype opened =
    Opened session_source
  | NotOpened core_error
  | Refused core_error "negotiation \<times> u8 list"

definition refuse :: "rstring \<Rightarrow> publish_request \<Rightarrow> negotiation \<times> u8 list \<Rightarrow> opened" where
  "refuse reason req s = Refused CoreInvalidData (snd (publish_reject reason req s))"

definition open_rtmp ::
    "(f64 \<Rightarrow> rstring) \<Rightarrow> (rstring \<Rightarrow> core_error + connection list) \<Rightarrow> rstring \<Rightarrow> opened option" where
  "open_rtmp fmt listen uri =
    (case parse_listen_url uri of Inl e \<Rightarrow> Some (NotOpened e) | Inr url \<Rightarrow>
     case listen (lu_bind_addr url) of Inl e \<Rightarrow> Some (NotOpened e) | Inr conns \<Rightarrow>
     case accept_publisher fmt caps_new conns of None \<Rightarrow> None | Some ((req, s), _) \<Rightarrow>
       Some (if lu_expected_app url \<noteq> [] \<and> pr_app req \<noteq> lu_expected_app url then
           refuse (lit ''unexpected app'') req s
         else if lu_expected_stream url \<noteq> [] \<and> pr_stream_name req \<noteq> lu_expected_stream url then
           refuse (lit ''unexpected stream key'') req s
         else (case publish_accept req s of
             (Inl e, s') \<Rightarrow> NotOpened (rtmp_to_core_err e)
           | (Inr session, _, bs) \<Rightarrow>
               (case from_session_with_probe fmt (session_next_media fmt) source_set_timeout
                   (Some PROBE_READ_TIMEOUT) (session, bs) of
                  Inl e \<Rightarrow> NotOpened (rtmp_to_core_err e)
                | Inr px \<Rightarrow> Opened px))))"

definition play_options_default :: play_options where
  "play_options_default = \<lparr>po_start = None, po_duration = None, po_reset = None, po_buffer_length_ms = None,
     po_capabilities = caps_new, po_digest_handshake = False\<rparr>"

definition open_rtmp_play ::
    "(f64 \<Rightarrow> rstring) \<Rightarrow> u32 \<Rightarrow> u32 \<Rightarrow> u8 list \<Rightarrow> rstring \<Rightarrow> core_error + player_source" where
  "open_rtmp_play fmt t1 t2 inp uri =
    (case dial_url uri of Inl e \<Rightarrow> Inl e | Inr dial \<Rightarrow>
     case connect_with_options fmt dial play_options_default t1 t2 inp of
       (Inl e, _) \<Rightarrow> Inl (rtmp_to_core_err e)
     | (Inr player, _, bs) \<Rightarrow>
         (case from_player_with_probe fmt (Some PROBE_READ_TIMEOUT) (player, bs) of
            Inl e \<Rightarrow> Inl (rtmp_to_core_err e)
          | Inr px \<Rightarrow> Inr px))"

section \<open>Serving\<close>

text \<open>
  \<open>serve_sessions\<close> spawns a thread per connection; the threads share only the handler and the
  capabilities, so what becomes of a connection is a function of that connection alone.  \<open>None\<close> is a
  connection dropped before a request.
\<close>

definition serve_sessions ::
    "(f64 \<Rightarrow> rstring) \<Rightarrow> connect_capabilities \<Rightarrow> (session_request \<Rightarrow> negotiation \<times> u8 list \<Rightarrow> 'h)
     \<Rightarrow> connection list \<Rightarrow> 'h option list" where
  "serve_sessions fmt caps handler conns =
     map (\<lambda>(t1, t2, inp). case drive_until_request fmt caps t1 t2 inp of
       (Inl e, _) \<Rightarrow> None | (Inr req, s) \<Rightarrow> Some (handler req s)) conns"

datatype 'h served = Handled 'h | Turned_away "negotiation \<times> u8 list"

definition serve ::
    "(f64 \<Rightarrow> rstring) \<Rightarrow> connect_capabilities \<Rightarrow> (publish_request \<Rightarrow> negotiation \<times> u8 list \<Rightarrow> 'h)
     \<Rightarrow> connection list \<Rightarrow> 'h served option list" where
  "serve fmt caps handler conns =
     serve_sessions fmt caps (\<lambda>req s. case req of
       ReqPublish r \<Rightarrow> Handled (handler r s)
     | ReqPlay r \<Rightarrow> Turned_away (snd (play_reject (lit ''publish-only endpoint'') r s))) conns"

section \<open>Draining\<close>

text \<open>
  \<open>drain_until_fin\<close>, in milliseconds, once the socket has been cloned and its read timeout set.  The world is
  what a round of the loop sees: the clock at the test of the \<open>while\<close>, what the read gives, and the clock
  after it.
\<close>

definition DRAIN_POLL :: nat where "DRAIN_POLL = 50"
definition DRAIN_IDLE_CUTOFF :: nat where "DRAIN_IDLE_CUTOFF = 300"
definition DRAIN_BUDGET :: nat where "DRAIN_BUDGET = 2000"

datatype read_outcome = RdData nat | RdError io_error

record drain_round =
  dr_before :: nat
  dr_read :: read_outcome
  dr_after :: nat

text \<open>The number of reads made; the first round is numbered \<open>n\<close>.\<close>

partial_function (option) drain_loop :: "(nat \<Rightarrow> drain_round) \<Rightarrow> nat \<Rightarrow> nat \<Rightarrow> nat \<Rightarrow> nat option" where
  "drain_loop world deadline n last_data =
    (if dr_before (world n) < deadline then
       (case dr_read (world n) of
          RdData k \<Rightarrow> if k = 0 then Some (Suc n) else drain_loop world deadline (Suc n) (dr_after (world n))
        | RdError e \<Rightarrow>
            if e = IoWouldBlock \<or> e = IoTimedOut then
              if DRAIN_IDLE_CUTOFF \<le> dr_after (world n) - last_data then Some (Suc n)
              else drain_loop world deadline (Suc n) last_data
            else Some (Suc n))
     else Some n)"

definition drain_until_fin :: "(nat \<Rightarrow> drain_round) \<Rightarrow> nat \<Rightarrow> nat \<Rightarrow> nat \<Rightarrow> nat option" where
  "drain_until_fin world budget start last_data = drain_loop world (start + budget) 0 last_data"

text \<open>
  However the peer behaves, draining ends when the clock reaches the deadline or before; and a peer that sends until it
  closes is read to its end if the clock allows it.
\<close>

lemma drain_loop_ends:
  "deadline \<le> dr_before (world (n + d)) \<Longrightarrow> \<exists>m \<le> n + d. drain_loop world deadline n last_data = Some m"
proof (induction d arbitrary: n last_data)
  case 0
  then show ?case by (simp add: drain_loop.simps[of world deadline n])
next
  case (Suc d)
  have "\<exists>m \<le> Suc n + d. drain_loop world deadline (Suc n) l = Some m" for l
    using Suc.IH[of "Suc n"] Suc.prems by simp
  then show ?case
    by (subst drain_loop.simps) (auto split: read_outcome.split)
qed

lemma drain_until_fin_ends:
  "start + budget \<le> dr_before (world k) \<Longrightarrow> \<exists>m \<le> k. drain_until_fin world budget start last_data = Some m"
  using drain_loop_ends[of "start + budget" world 0 k] by (simp add: drain_until_fin_def)

lemma drain_loop_fin:
  assumes "dr_read (world (n + d)) = RdData 0"
    and "\<And>i. n \<le> i \<Longrightarrow> i < n + d \<Longrightarrow> \<exists>k. dr_read (world i) = RdData (Suc k)"
    and "\<And>i. n \<le> i \<Longrightarrow> i \<le> n + d \<Longrightarrow> dr_before (world i) < deadline"
  shows "drain_loop world deadline n last_data = Some (Suc (n + d))"
  using assms
proof (induction d arbitrary: n last_data)
  case 0
  then show ?case by (simp add: drain_loop.simps[of world deadline n])
next
  case (Suc d)
  have "drain_loop world deadline (Suc n) l = Some (Suc (Suc n + d))" for l
    using Suc.prems by (intro Suc.IH) auto
  moreover obtain k where "dr_read (world n) = RdData (Suc k)" using Suc.prems(2)[of n] by auto
  ultimately show ?case
    using Suc.prems(3)[of n] by (simp add: drain_loop.simps[of world deadline n])
qed


section \<open>A source over a session\<close>

text \<open>The source \<open>s\<close> has the events \<open>es\<close> to give, and then the end.\<close>

primrec gives :: "('s \<Rightarrow> media_event result \<times> 's) \<Rightarrow> media_event list \<Rightarrow> 's \<Rightarrow> bool" where
  "gives nxt [] s \<longleftrightarrow> fst (nxt s) = Inr MeEnd"
| "gives nxt (e # es) s \<longleftrightarrow> fst (nxt s) = Inr e \<and> gives nxt es (snd (nxt s))"

lemma gives_next:
  "gives nxt es s \<Longrightarrow> \<exists>s'. nxt s = (fst (next_scripted es), s')
     \<and> (gives nxt (snd (next_scripted es)) s' \<or> fst (next_scripted es) = Inr MeEnd)"
  by (cases "nxt s"; cases es) auto

text \<open>Such a source is as good as the script.\<close>

lemma steady_given:
  "gives nxt es s \<Longrightarrow> \<exists>r es' m' q' s'. steady_next fmt next_scripted es m q = Some (r, es', m', q')
     \<and> steady_next fmt nxt s m q = Some (r, s', m', q') \<and> (gives nxt es' s' \<or> md_ended m' \<or> (\<exists>e. r = Inl e))"
proof (induction es arbitrary: s m)
  case Nil
  then obtain s' where "nxt s = (Inr MeEnd, s')" by (metis gives.simps(1) prod.collapse)
  then show ?case
    by (subst (1 2) steady_next.simps) simp
next
  case (Cons ev es)
  then obtain s' where s: "nxt s = (Inr ev, s')" and g: "gives nxt es s'" by (metis gives.simps(2) prod.collapse)
  obtain r m1 where step: "media_step fmt ev m = (r, m1)" by (metis surj_pair)
  show ?case
  proof (cases "\<exists>ps. r = Inr ps \<and> ps = [] \<and> ev \<noteq> MeEnd")
    case True
    then have "steady_next fmt next_scripted (ev # es) m q = steady_next fmt next_scripted es m1 q"
      "steady_next fmt nxt s m q = steady_next fmt nxt s' m1 q"
      using s step by (subst steady_next.simps; simp)+
    then show ?thesis using Cons.IH[OF g, of m1] by simp
  next
    case False
    then show ?thesis using s step g
      by (subst (1 2) steady_next.simps) (auto split: sum.split list.split)
  qed
qed

lemma take_given:
  assumes "gives nxt es s \<or> md_ended m"
  shows "take_packets fmt nxt n \<lparr>px_source = s, px_media = m, px_buffered = bs, px_pending = qs\<rparr>
    = take_packets fmt next_scripted n \<lparr>px_source = es, px_media = m, px_buffered = bs, px_pending = qs\<rparr>"
  using assms
proof (induction n arbitrary: s es m bs qs)
  case (Suc n)
  show ?case
  proof (cases "bs = [] \<and> qs = [] \<and> \<not> md_ended m")
    case True
    with Suc.prems obtain r es' m' q' s' where st: "steady_next fmt next_scripted es m [] = Some (r, es', m', q')"
      "steady_next fmt nxt s m [] = Some (r, s', m', q')" "gives nxt es' s' \<or> md_ended m' \<or> (\<exists>e. r = Inl e)"
      using steady_given[of nxt es s fmt m "[]"] by auto
    then show ?thesis using True Suc.IH[of es' s' m' "[]" q'] by (cases r) (auto simp: next_packet_def)
  next
    case False
    then show ?thesis using Suc.IH[OF Suc.prems]
      by (cases bs; cases qs) (auto simp: next_packet_def)
  qed
qed simp

lemma probe_given:
  "gives nxt es s \<Longrightarrow> probe_loop fmt next_scripted n a v es st = (Inr st', es') \<Longrightarrow>
   \<exists>s'. probe_loop fmt nxt n a v s st = (Inr st', s') \<and> (gives nxt es' s' \<or> md_ended (ps_media st'))"
proof (induction n arbitrary: a v es s st)
  case (Suc n)
  show ?case
  proof (cases "a \<and> v")
    case True
    then show ?thesis using Suc.prems by auto
  next
    case False
    obtain ev es1 where es: "next_scripted es = (Inr ev, es1)" by (cases es) auto
    then obtain s' where s: "nxt s = (Inr ev, s')" and g: "gives nxt es1 s' \<or> ev = MeEnd"
      using gives_next[OF Suc.prems(1)] by auto
    obtain r m1 where step: "media_step fmt ev (ps_media st) = (r, m1)" by (metis surj_pair)
    note unfold = probe_loop.simps(2) if_not_P[OF False] s es step prod.case sum.case
    show ?thesis
    proof (cases r)
      case (Inl e)
      then show ?thesis using Suc.prems(2) unfolding unfold by simp
    next
      case (Inr ps)
      show ?thesis
      proof (cases "ev = MeEnd")
        case True
        then have "md_ended m1" using step by auto
        then show ?thesis using True Suc.prems(2) unfolding unfold Inr Let_def by auto
      next
        case go: False
        with g Suc.prems(2) Suc.IH[of es1 s' "a \<or> is_audio_event ev" "v \<or> is_video_event ev"
            "st\<lparr>ps_media := m1, ps_buffered := ps_buffered st @ map (\<lambda>p. (p, is_audio_event ev)) ps\<rparr>"]
        show ?thesis unfolding unfold Inr Let_def if_not_P[OF go] by blast
      qed
    qed
  qed
qed auto

lemma probed_source:
  assumes "gives nxt es s" and "events_ok fmt es md_new"
  shows "\<exists>px. from_session_with_probe fmt nxt source_set_timeout timeout s = Inr px
    \<and> take_packets fmt nxt n px = Some (take n (fst (run_events fmt es md_new)))"
proof -
  let ?st0 = "\<lparr>ps_media = md_new, ps_buffered = []\<rparr>"
  obtain st es' where st: "probe_loop fmt next_scripted PROBE_LIMIT False False es ?st0 = (Inr st, es')"
      and ok: "events_ok fmt es' (ps_media st)" "\<not> md_ended (ps_media st) \<or> es' = []"
      and l: "layout_ok (md_layout (ps_media st))"
      and same: "map fst (ps_buffered st) @ fst (run_events fmt es' (ps_media st)) = fst (run_events fmt es md_new)"
    using probe_scripted[of fmt es ?st0 PROBE_LIMIT False False] assms(2) md_new_ok by (auto simp: md_new_def)
  obtain s' where s': "probe_loop fmt nxt PROBE_LIMIT False False s ?st0 = (Inr st, s')"
    "gives nxt es' s' \<or> md_ended (ps_media st)"
    using probe_given[OF assms(1) st] by auto
  have "sort_key si_index (md_streams (ps_media st)) = md_streams (ps_media st)"
    using l by (simp add: sort_key_id_if_sorted layout_ok_def md_layout_def strict_sorted_imp_sorted)
  then have "from_session_with_probe fmt nxt source_set_timeout timeout s =
      Inr \<lparr>px_source = s', px_media = ps_media st, px_buffered = ps_buffered st, px_pending = []\<rparr>"
    by (simp add: from_session_with_probe_def probe_source_def s'(1) Let_def source_set_timeout_def)
  with take_given[OF s'(2)] take_packets_scripted[OF ok, of n "ps_buffered st" "[]"] same show ?thesis by simp
qed

section \<open>Published, and read as packets\<close>

lemma calls_last:
  "calls nxt (length rs + 1) s = Some (rs @ [r], t) \<Longrightarrow> \<exists>u. calls nxt (length rs) s = Some (rs, u) \<and> nxt u = Some (r, t)"
proof (induction rs arbitrary: s)
  case Nil
  then show ?case by (auto split: option.splits prod.splits)
next
  case (Cons x rs)
  then obtain u where u: "nxt s = Some (x, u)" "calls nxt (length rs + 1) u = Some (rs @ [r], t)"
    by (auto split: option.splits prod.splits)
  then show ?case using Cons.IH[OF u(2)] by auto
qed


definition packet_event :: "stream_packet \<Rightarrow> media_event" where
  "packet_event p = (case p of SpAudio ts tag \<Rightarrow> MeAudio ts tag | SpVideo ts tag \<Rightarrow> MeVideo ts tag
     | SpMetadata v \<Rightarrow> MeMetadata v | _ \<Rightarrow> MeSkip)"

definition player_event :: "player_packet \<Rightarrow> media_event" where
  "player_event p = (case p of PpAudio ts tag \<Rightarrow> MeAudio ts tag | PpVideo ts tag \<Rightarrow> MeVideo ts tag
     | PpMetadata v \<Rightarrow> MeMetadata v | _ \<Rightarrow> MeSkip)"

text \<open>
  What \<open>adapter.rs\<close> relies on: a session whose reading method is \<open>read\<close>, as the trait
  \<open>MediaSource\<close> shows it.
\<close>

locale media_source =
  fixes read :: "'s \<Rightarrow> ('p option result \<times> 's) option"
    and media :: "'s \<Rightarrow> media_event result \<times> 's"
    and event :: "'p \<Rightarrow> media_event"
  assumes media_packet: "read s = Some (Inr (Some p), t) \<Longrightarrow> media s = (Inr (event p), t)"
    and media_end: "read s = Some (Inr None, t) \<Longrightarrow> media s = (Inr MeEnd, t)"
begin

lemma read_gives:
  "calls read (length ps) s = Some (map (\<lambda>p. Inr (Some p)) ps, t) \<Longrightarrow> read t = Some (Inr None, v) \<Longrightarrow>
   gives media (map event ps) s"
proof (induction ps arbitrary: s)
  case Nil
  then show ?case by (simp add: media_end)
next
  case (Cons p ps)
  then obtain u where u: "read s = Some (Inr (Some p), u)" "calls read (length ps) u = Some (map (\<lambda>p. Inr (Some p)) ps, t)"
    by (auto split: option.splits prod.splits)
  then show ?case using Cons.IH[OF u(2) Cons.prems(2)] media_packet[OF u(1)] by simp
qed

lemma read_source:
  assumes "calls read (length ps) s = Some (map (\<lambda>p. Inr (Some p)) ps, t)" and "read t = Some (Inr None, v)"
    and "events_ok fmt (map event ps) md_new"
  shows "\<exists>px. from_session_with_probe fmt media source_set_timeout timeout s = Inr px
    \<and> take_packets fmt media n px = Some (take n (fst (run_events fmt (map event ps) md_new)))"
  by (rule probed_source[OF read_gives[OF assms(1,2)] assms(3)])

end

interpretation pushed: media_source "next_packet_of fmt" "session_next_media fmt" packet_event for fmt
  by unfold_locales (simp_all add: session_next_media_def packet_event_def split: stream_packet.split)

interpretation pulled: media_source "player_next_packet fmt" "player_next_media fmt" player_event for fmt
  by unfold_locales (simp_all add: player_next_media_def player_event_def split: player_packet.split)

lemma session_end: "at_rest w s \<Longrightarrow> next_packet_of fmt (s, []) = Some (Inr None, (s, []))"
proof -
  assume "at_rest w s"
  then have s: "cn_pending s = []" "\<not> cn_ended s" by (simp_all add: at_rest_def listening_def)
  have "receive (s, []) = (Inl wire_eof, (s, []))"
    by (simp add: receive_def read_nothing)
  then show ?thesis
    using s by (simp add: next_packet_of_def pump.simps[of _ "(s, [])"] session_round_def
        session_hangup_def is_hangup_def wire_eof_def st_bind_def st_return_def)
qed

definition media_events :: "media list \<Rightarrow> media_event list" where
  "media_events ms = map (\<lambda>m. packet_event (media_packet m)) ms"

text \<open>
  C9. From the publisher to the packets of the workspace.  A publisher that connects to the URL a source
  is opened on, announces the application and stream the URL names, and publishes any list of media: the
  opener \<open>open_rtmp\<close> accepts it, and \<open>next_packet\<close> of the source it returns, which has probed the
  stream to learn the codecs, gives the packets of exactly those media, in order, each with the timestamps
  and stream its message asks for, and then the end.
\<close>

theorem opened_source_delivers:
  assumes "parse_rtmp_url dial = Inr u" and "dialogue_fits u ty ccaps caps_new" and "digest_clear digest t1 t2 t3 t4"
    and "list_all op_ok ops" and "events_ok fmt (media_events (concat (map media_of ops))) md_new"
    and "parse_listen_url uri = Inr url" and "publisher_accepted url (ru_app u) (ru_stream_name u)"
  shows "\<exists>client client' session l s s' heard unheard px.
      client_connect fmt dial ty ccaps digest t1 t2 (heard @ unheard) = (Inr client, (l, unheard))
    \<and> in_order (map publish ops) (client, unheard) = (Inr (), (client', unheard))
    \<and> drive_until_request fmt caps_new t3 t4 (cw_stream (lk_writer client'))
        = (Inr (ReqPublish (publish_asked u ty ccaps 1)), s)
    \<and> publish_accept (publish_asked u ty ccaps 1) s = (Inr session, s') \<and> cw_stream (lk_writer session) = heard @ unheard
    \<and> open_rtmp fmt (\<lambda>addr. if addr = lu_bind_addr url then Inr [(t3, t4, cw_stream (lk_writer client'))] else Inr []) uri
        = Some (Opened px)
    \<and> take_packets fmt (session_next_media fmt) n px
        = Some (take n (fst (run_events fmt (media_events (concat (map media_of ops))) md_new)))"
proof -
  let ?ms = "concat (map media_of ops)" and ?req = "publish_asked u ty ccaps 1"
  have asked: "pr_app ?req = ru_app u" "pr_stream_name ?req = ru_stream_name u" by (simp_all add: publish_asked_def)
  from published_run[OF assms(1-4), of fmt] show ?thesis
  proof (elim exE conjE, goal_cases)
    case (1 client w session session' l ng ng' heard unheard sent)
    have "calls (next_packet_of fmt) (length (map media_packet ?ms)) (session, sent)
        = Some (map (\<lambda>p. Inr (Some p)) (map media_packet ?ms), (session', []))"
      "next_packet_of fmt (session', []) = Some (Inr None, (session', []))"
      "events_ok fmt (map packet_event (map media_packet ?ms)) md_new"
      using 1 session_end[of w session' fmt] assms(5) by (simp_all add: packets_def media_events_def o_def)
    from pushed.read_source[OF this, of "Some PROBE_READ_TIMEOUT" n]
    obtain px where px: "from_session_with_probe fmt (session_next_media fmt) source_set_timeout
        (Some PROBE_READ_TIMEOUT) (session, sent) = Inr px"
      "take_packets fmt (session_next_media fmt) n px = Some (take n (fst (run_events fmt (media_events ?ms) md_new)))"
      by (auto simp: media_events_def o_def)
    have "accept_publisher fmt caps_new [(t3, t4, cw_stream w)] = Some ((?req, ng, sent), [])"
      using 1 by simp
    then have opened: "open_rtmp fmt (\<lambda>addr. if addr = lu_bind_addr url then Inr [(t3, t4, cw_stream w)] else Inr []) uri
        = Some (Opened px)"
      using 1 px(1) assms(7) by (auto simp: open_rtmp_def assms(6) asked publisher_accepted_def)
    show ?case
      by (rule exI[of _ client], rule exI[of _ "client\<lparr>lk_writer := w\<rparr>"], rule exI[of _ session],
          rule exI[of _ l], rule exI[of _ "(ng, sent)"], rule exI[of _ "(ng', sent)"],
          rule exI[of _ heard], rule exI[of _ unheard], rule exI[of _ px])
        (use 1 px(2) opened in \<open>simp cong: if_cong\<close>)
  qed
qed


definition sample_listen :: listen_url where
  "sample_listen = \<lparr>lu_bind_addr = lit ''0.0.0.0'' @ [0x3A] @ dec_nat 1935, lu_expected_app = lit ''live'', lu_expected_stream = []\<rparr>"

definition sample_uri :: rstring where
  "sample_uri = lit ''rtmp://'' @ [] @ [0x3A] @ dec_nat 1935 @ [0x2F] @ lit ''live'' @ [0x2F] @ []"

lemma sample_listen_parses: "parse_listen_url sample_uri = Inr sample_listen"
  unfolding sample_uri_def sample_listen_def by (subst parse_listen_run) (simp_all add: lit_def)

lemma sample_events_ok: "events_ok (\<lambda>_. []) (media_events (concat (map media_of sample_media))) md_new"
  by (simp add: sample_media_def media_events_def packet_event_def split_beta audio_packets_def video_packets_def
      at_is_multitrack_def vt_is_multitrack_def avc_tag_def aac_tag_def ON_META_DATA_def)

theorem opened_source_delivers_witness:
  "\<exists>client client' session l s s' heard unheard px.
      client_connect (\<lambda>_. []) (lit ''rtmp://h/live/cam'') (lit ''live'') caps_new False 1 2 (heard @ unheard) = (Inr client, (l, unheard))
    \<and> in_order (map publish sample_media) (client, unheard) = (Inr (), (client', unheard))
    \<and> drive_until_request (\<lambda>_. []) caps_new 3 4 (cw_stream (lk_writer client'))
        = (Inr (ReqPublish (publish_asked sample_url (lit ''live'') caps_new 1)), s)
    \<and> publish_accept (publish_asked sample_url (lit ''live'') caps_new 1) s = (Inr session, s')
    \<and> cw_stream (lk_writer session) = heard @ unheard
    \<and> open_rtmp (\<lambda>_. []) (\<lambda>addr. if addr = lu_bind_addr sample_listen then Inr [(3, 4, cw_stream (lk_writer client'))] else Inr [])
        sample_uri = Some (Opened px)
    \<and> take_packets (\<lambda>_. []) (session_next_media (\<lambda>_. [])) 9 px
        = Some (take 9 (fst (run_events (\<lambda>_. []) (media_events (concat (map media_of sample_media))) md_new)))"
  by (rule opened_source_delivers[OF sample_url_parses sample_fits _ sample_media_ok sample_events_ok sample_listen_parses])
    (simp_all add: digest_clear_def publisher_accepted_def sample_listen_def sample_url_def)

section \<open>Played, and read as packets\<close>

text \<open>
  C11. From a remote server to the packets of the workspace.  \<open>open_rtmp_play\<close> dials the server its URL
  names; when the server forwards any list of media packets to it, \<open>next_packet\<close> of the source it returns gives,
  after probing, the packets of those the player can hand out, in order, and then the end.
\<close>

theorem pulled_source_delivers:
  assumes "dial_url uri = Inr dial" and "parse_rtmp_url dial = Inr u" and "play_fits u play_options_default scaps"
    and "list_all media_ok ms" and "events_ok fmt (map player_event (as_played ms)) md_new"
  shows "\<exists>player session session' s s' l heard px.
      connect_with_options fmt dial play_options_default t1 t2 heard = (Inr player, (l, []))
    \<and> drive_until_request fmt scaps t3 t4 (cw_stream (lk_writer player))
        = (Inr (ReqPlay (play_asked u play_options_default 1)), s)
    \<and> play_accept (play_asked u play_options_default 1) s = (Inr session, s') \<and> cw_stream (lk_writer session) = heard
    \<and> in_order (map (\<lambda>m. forward (media_packet m)) ms) (session, []) = (Inr (), (session', []))
    \<and> open_rtmp_play fmt t1 t2 (cw_stream (lk_writer session')) uri = Inr px
    \<and> take_packets fmt (player_next_media fmt) n px
        = Some (take n (fst (run_events fmt (map player_event (as_played ms)) md_new)))"
proof -
  let ?opts = play_options_default
  have clear: "digest_clear (po_digest_handshake ?opts) t1 t2 t3 t4"
    by (simp add: digest_clear_def play_options_default_def)
  from relayed_run[OF assms(2,3) clear assms(4), of fmt False] show ?thesis
  proof (elim exE conjE, goal_cases)
    case (1 player player' session session' l ng ng' heard sent)
    obtain t where "calls (player_next_packet fmt) (length (as_played ms)) (player, sent)
        = Some (map (\<lambda>q. Inr (Some q)) (as_played ms), t)" "player_next_packet fmt t = Some (Inr None, (player', []))"
      using calls_last[of "player_next_packet fmt" "map (\<lambda>q. Inr (Some q)) (as_played ms)" "(player, sent)" "Inr None"
          "(player', [])"] 1(13) by auto
    from pulled.read_source[OF this assms(5), of "Some PROBE_READ_TIMEOUT" n]
    obtain px where px: "from_session_with_probe fmt (player_next_media fmt) source_set_timeout
        (Some PROBE_READ_TIMEOUT) (player, sent) = Inr px"
      "take_packets fmt (player_next_media fmt) n px
        = Some (take n (fst (run_events fmt (map player_event (as_played ms)) md_new)))" by blast
    have "connect_with_options fmt dial ?opts t1 t2 (heard @ more) = (Inr player, (l, more))" for more
      using 1(1) by blast
    then have "open_rtmp_play fmt t1 t2 (heard @ sent) uri = Inr px" "connect_with_options fmt dial ?opts t1 t2 heard = (Inr player, (l, []))"
      using px(1) by (simp_all add: open_rtmp_play_def assms(1) player_source_alike) (metis append_Nil2)
    then show ?case
      by (intro exI[of _ player] exI[of _ session] exI[of _ session'] exI[of _ "(ng, [])"] exI[of _ "(ng', [])"]
          exI[of _ l] exI[of _ heard] exI[of _ px]) (use 1 px(2) in simp)
  qed
qed

lemma default_play_fits: "play_fits sample_url play_options_default caps_new"
proof -
  have "ops_ok (play_script sample_url play_options_default 1)"
    by (simp add: play_script_def dialogue_sizes play_options_default_def buffer_ops_def ns_to_message_def
        asked_play_def ns_args_def command_name_def)
      (simp add: sample_url_def lit_def utf8_short_def connect_pairs_def encode_into_def caps_new_def fm_new_def FLASH_VER_def
        num_def str_def)
  then show ?thesis
    using sample_play_fits by (simp add: play_fits_def caps_new_fits play_options_default_def)
qed

theorem pulled_source_delivers_witness:
  "let ms = concat (map media_of sample_media) in
   \<exists>player session session' s s' l heard px.
      connect_with_options (\<lambda>_. []) (lit ''rtmp://h/live/cam'') play_options_default 1 2 heard = (Inr player, (l, []))
    \<and> drive_until_request (\<lambda>_. []) caps_new 3 4 (cw_stream (lk_writer player))
        = (Inr (ReqPlay (play_asked sample_url play_options_default 1)), s)
    \<and> play_accept (play_asked sample_url play_options_default 1) s = (Inr session, s') \<and> cw_stream (lk_writer session) = heard
    \<and> in_order (map (\<lambda>m. forward (media_packet m)) ms) (session, []) = (Inr (), (session', []))
    \<and> open_rtmp_play (\<lambda>_. []) 1 2 (cw_stream (lk_writer session')) (lit ''rtmp-play://h/live/cam'') = Inr px
    \<and> take_packets (\<lambda>_. []) (player_next_media (\<lambda>_. [])) 9 px
        = Some (take 9 (fst (run_events (\<lambda>_. []) (map player_event (as_played ms)) md_new)))"
  unfolding Let_def
proof (rule pulled_source_delivers[OF _ sample_url_parses default_play_fits])
  show "dial_url (lit ''rtmp-play://h/live/cam'') = Inr (lit ''rtmp://h/live/cam'')" by code_simp
  show "list_all media_ok (concat (map media_of sample_media))"
    using sample_media_ok by (simp add: sample_media_def)
  show "events_ok (\<lambda>_. []) (map player_event (as_played (concat (map media_of sample_media)))) md_new"
    by (simp add: sample_media_def as_played_simps as_metadata_def player_event_def split_beta audio_packets_def
        video_packets_def at_is_multitrack_def vt_is_multitrack_def avc_tag_def aac_tag_def ON_META_DATA_def)
qed

end
