(* ===== verification/Flv_File.thy ===== *)
theory Flv_File
  imports Amf0 Flv_Crypt Flv_Video Flv_Audio
begin

text \<open>
  \<open>flv_file.rs\<close>: the FLV byte stream.  \<open>flv_writer\<close> is \<open>FlvWriter\<close> over a sink that takes
  every byte (a \<open>Vec\<close>), \<open>flv_reader\<close> is \<open>FlvReader\<close> over a byte stream whose only error is
  its end; what is left of the stream is the input of the reader.  \<open>writer_step\<close> is one call
  on a writer.
\<close>

section \<open>The file header\<close>

definition FLV_TAG_TYPE_AUDIO :: u8 where "FLV_TAG_TYPE_AUDIO = 8"
definition FLV_TAG_TYPE_VIDEO :: u8 where "FLV_TAG_TYPE_VIDEO = 9"
definition FLV_TAG_TYPE_SCRIPT_DATA :: u8 where "FLV_TAG_TYPE_SCRIPT_DATA = 18"
definition FLV_VERSION :: u8 where "FLV_VERSION = 1"
definition FLV_HEADER_SIZE :: u32 where "FLV_HEADER_SIZE = 9"
definition FLV_UI24_MAX :: u32 where "FLV_UI24_MAX = 0x00FFFFFF"
definition DEFAULT_MAX_TAG_SIZE :: u32 where "DEFAULT_MAX_TAG_SIZE = FLV_UI24_MAX"

lemmas flv_tag_types = FLV_TAG_TYPE_AUDIO_def FLV_TAG_TYPE_VIDEO_def FLV_TAG_TYPE_SCRIPT_DATA_def
lemmas flv_sizes = FLV_VERSION_def FLV_HEADER_SIZE_def FLV_UI24_MAX_def DEFAULT_MAX_TAG_SIZE_def

record flv_header_flags =
  hf_audio :: bool
  hf_video :: bool

definition flags_to_byte :: "flv_header_flags \<Rightarrow> u8" where
  "flags_to_byte f = (if hf_audio f then 0x04 else 0) OR (if hf_video f then 0x01 else 0)"

definition flags_from_byte :: "u8 \<Rightarrow> flv_header_flags" where
  "flags_from_byte b = \<lparr>hf_audio = (b AND 0x04 \<noteq> 0), hf_video = (b AND 0x01 \<noteq> 0)\<rparr>"

definition build_flv_header :: "flv_header_flags \<Rightarrow> u8 list" where
  "build_flv_header f = [0x46, 0x4C, 0x56, FLV_VERSION, flags_to_byte f] @ u32_be FLV_HEADER_SIZE"

definition build_flv_tag :: "u8 \<Rightarrow> u32 \<Rightarrow> u8 list \<Rightarrow> io_error + u8 list" where
  "build_flv_tag tag_type ts payload =
    (if unat FLV_UI24_MAX < length payload then Inl IoInvalidInput
     else Inr ([tag_type] @ u24_be (word_of_nat (length payload)) @ u24_be ts @ [ucast (drop_bit 24 ts)]
       @ [0, 0, 0] @ payload))"

section \<open>FlvWriter\<close>

record flv_writer =
  fw_inner :: "u8 list"
  fw_prev_tag_size :: u32
  fw_bytes_written :: u64
  fw_flags :: flv_header_flags
  fw_finished :: bool

definition flv_writer_new :: "flv_header_flags \<Rightarrow> flv_writer" where
  "flv_writer_new f =
    \<lparr>fw_inner = build_flv_header f @ u32_be 0, fw_prev_tag_size = 0,
     fw_bytes_written = word_of_nat (length (build_flv_header f)) + 4, fw_flags = f, fw_finished = False\<rparr>"

definition write_payload :: "u8 \<Rightarrow> u32 \<Rightarrow> u8 list \<Rightarrow> flv_writer \<Rightarrow> (io_error + unit) \<times> flv_writer" where
  "write_payload tag_type ts payload w =
    (if fw_finished w then (Inl IoBrokenPipe, w)
     else (case build_flv_tag tag_type ts payload of
       Inl e \<Rightarrow> (Inl e, w)
     | Inr tag \<Rightarrow>
         let tag_size = word_of_nat (length tag) :: u32 in
         (Inr (), w\<lparr>fw_inner := fw_inner w @ tag @ u32_be tag_size, fw_prev_tag_size := tag_size,
            fw_bytes_written := fw_bytes_written w + (ucast tag_size + 4)\<rparr>)))"

definition write_video_tag :: "u32 \<Rightarrow> video_tag \<Rightarrow> flv_writer \<Rightarrow> (io_error + unit) \<times> flv_writer" where
  "write_video_tag ts t = write_payload FLV_TAG_TYPE_VIDEO ts (build_video t)"

definition write_audio_tag :: "u32 \<Rightarrow> audio_tag \<Rightarrow> flv_writer \<Rightarrow> (io_error + unit) \<times> flv_writer" where
  "write_audio_tag ts t = write_payload FLV_TAG_TYPE_AUDIO ts (build_audio t)"

definition write_script_data :: "u32 \<Rightarrow> rstring \<Rightarrow> amf0_value \<Rightarrow> flv_writer \<Rightarrow> (io_error + unit) \<times> flv_writer" where
  "write_script_data ts name v =
     write_payload FLV_TAG_TYPE_SCRIPT_DATA ts (amf0_encode (A0String name) @ amf0_encode v)"

definition write_raw_tag :: "u8 \<Rightarrow> u32 \<Rightarrow> u8 list \<Rightarrow> flv_writer \<Rightarrow> (io_error + unit) \<times> flv_writer" where
  "write_raw_tag tag_type ts payload = write_payload tag_type ts payload"

definition write_encrypted_tag :: "u8 \<Rightarrow> u32 \<Rightarrow> encrypted_tag \<Rightarrow> flv_writer \<Rightarrow> (io_error + unit) \<times> flv_writer" where
  "write_encrypted_tag tag_type ts crypt =
     write_payload ((tag_type AND 0x1F) OR 0x20) ts (et_encode crypt)"

definition writer_finish :: "flv_writer \<Rightarrow> io_error + u8 list" where
  "writer_finish w = Inr (fw_inner w)"

section \<open>FlvTag and FlvReader\<close>

datatype flv_tag =
    FtAudio u32 audio_tag
  | FtVideo u32 video_tag
  | FtScript u32 rstring amf0_value
  | FtUnknown u8 u32 "u8 list"
  | FtEncrypted u8 u32 encrypted_tag

fun ft_tag_type :: "flv_tag \<Rightarrow> u8" where
  "ft_tag_type (FtAudio _ _) = FLV_TAG_TYPE_AUDIO"
| "ft_tag_type (FtVideo _ _) = FLV_TAG_TYPE_VIDEO"
| "ft_tag_type (FtScript _ _ _) = FLV_TAG_TYPE_SCRIPT_DATA"
| "ft_tag_type (FtUnknown ty _ _) = ty"
| "ft_tag_type (FtEncrypted ty _ _) = ty"

fun ft_timestamp_ms :: "flv_tag \<Rightarrow> u32" where
  "ft_timestamp_ms (FtAudio ts _) = ts"
| "ft_timestamp_ms (FtVideo ts _) = ts"
| "ft_timestamp_ms (FtScript ts _ _) = ts"
| "ft_timestamp_ms (FtUnknown _ ts _) = ts"
| "ft_timestamp_ms (FtEncrypted _ ts _) = ts"

definition ft_encrypted :: "flv_tag \<Rightarrow> encrypted_tag option" where
  "ft_encrypted t = (case t of FtEncrypted _ _ c \<Rightarrow> Some c | _ \<Rightarrow> None)"

record flv_reader =
  fr_flags :: flv_header_flags
  fr_max_tag_size :: u32
  fr_last_tag_size :: u32
  fr_exhausted :: bool
  fr_bytes_read :: u64

text \<open>\<open>read_exact_eof\<close>: the end of the stream is \<open>Error::UnexpectedEof\<close>.\<close>

definition read_exact_eof :: "nat \<Rightarrow> ('u \<times> u8 list, u8 list) st" where
  "read_exact_eof n = stream_exact UnexpectedEof n"

definition st_require :: "bool \<Rightarrow> rtmp_error \<Rightarrow> ('s, unit) st" where
  "st_require b e = (if b then st_return () else st_throw e)"

definition with_max_tag_size :: "u32 \<Rightarrow> (unit \<times> u8 list, flv_reader) st" where
  "with_max_tag_size max_tag_size =
     st_bind (read_exact_eof 9) (\<lambda>h.
     st_bind (st_require (h ! 0 = 0x46 \<and> h ! 1 = 0x4C \<and> h ! 2 = 0x56) Other) (\<lambda>_.
     st_bind (st_require (h ! 3 = FLV_VERSION) Other) (\<lambda>_.
     let data_offset = of_be [h ! 5, h ! 6, h ! 7, h ! 8] :: u32 in
     st_bind (st_require (FLV_HEADER_SIZE \<le> data_offset) Other) (\<lambda>_.
     st_bind (if FLV_HEADER_SIZE < data_offset
       then st_bind (read_exact_eof (unat (data_offset - FLV_HEADER_SIZE))) (\<lambda>skip. st_return (length skip))
       else st_return 0) (\<lambda>extra.
     st_bind (read_exact_eof 4) (\<lambda>p0.
     st_bind (st_require (of_be p0 = (0 :: u32)) Other) (\<lambda>_.
     st_return \<lparr>fr_flags = flags_from_byte (h ! 4), fr_max_tag_size = min max_tag_size FLV_UI24_MAX,
       fr_last_tag_size = 0, fr_exhausted = False,
       fr_bytes_read = ucast FLV_HEADER_SIZE + word_of_nat extra + 4\<rparr>)))))))"

definition reader_open :: "(unit \<times> u8 list, flv_reader) st" where
  "reader_open = with_max_tag_size DEFAULT_MAX_TAG_SIZE"

text \<open>
  \<open>parse_script_body\<close>.  What the last loop decodes is thrown away and its first error ends
  it, so only a panic of the decoder could be seen from outside.
\<close>

definition st_ignore :: "('s, 'a) st \<Rightarrow> ('s, unit) st" where
  "st_ignore p = (\<lambda>s. case p s of
     (Inl e, s') \<Rightarrow> (if e = Panic \<or> e = OutOfFuel then Inl e else Inr (), s')
   | (Inr _, s') \<Rightarrow> (Inr (), s'))"

definition amf0_value_reader :: "(f64 \<Rightarrow> rstring) \<Rightarrow> ('u \<times> u8 list, amf0_value) st" where
  "amf0_value_reader fmt = with_fresh [] (decode_at_depth fmt 0)"

definition script_reader :: "(f64 \<Rightarrow> rstring) \<Rightarrow> (unit \<times> u8 list, rstring \<times> amf0_value) st" where
  "script_reader fmt =
     st_bind (amf0_value_reader fmt) (\<lambda>name_v.
     case name_v of A0String name \<Rightarrow>
       st_bind (amf0_value_reader fmt) (\<lambda>v.
       st_bind (st_ignore (while_input (amf0_value_reader fmt))) (\<lambda>_. st_return (name, v)))
     | _ \<Rightarrow> st_throw InvalidAmf0)"

definition parse_script_body :: "(f64 \<Rightarrow> rstring) \<Rightarrow> u8 list \<Rightarrow> (rstring \<times> amf0_value) result" where
  "parse_script_body fmt body = fst (script_reader fmt ((), body))"

text \<open>\<open>map_err(|e| Error::Other(..))\<close>\<close>

definition or_other :: "'a result \<Rightarrow> 'a result" where
  "or_other r = (case r of Inl e \<Rightarrow> Inl Other | Inr x \<Rightarrow> Inr x)"

definition decode_flv_body :: "(f64 \<Rightarrow> rstring) \<Rightarrow> bool \<Rightarrow> u8 \<Rightarrow> u32 \<Rightarrow> u8 list \<Rightarrow> flv_tag result" where
  "decode_flv_body fmt filtered tag_type ts body =
    (if filtered then res_bind (or_other (parse_encrypted_body body)) (\<lambda>c. Inr (FtEncrypted tag_type ts c))
     else if tag_type = FLV_TAG_TYPE_AUDIO then res_bind (or_other (parse_audio body)) (\<lambda>t. Inr (FtAudio ts t))
     else if tag_type = FLV_TAG_TYPE_VIDEO then res_bind (or_other (parse_video body)) (\<lambda>t. Inr (FtVideo ts t))
     else if tag_type = FLV_TAG_TYPE_SCRIPT_DATA then
       (case parse_script_body fmt body of
          Inr (name, v) \<Rightarrow> Inr (FtScript ts name v)
        | Inl e \<Rightarrow> Inr (FtUnknown tag_type ts body))
     else Inr (FtUnknown tag_type ts body))"

definition st_modify :: "('u \<Rightarrow> 'u) \<Rightarrow> ('u \<times> u8 list, unit) st" where
  "st_modify f = (\<lambda>(u, bs). (Inr (), (f u, bs)))"

definition add_bytes_read :: "nat \<Rightarrow> flv_reader \<Rightarrow> flv_reader" where
  "add_bytes_read n r = r\<lparr>fr_bytes_read := fr_bytes_read r + word_of_nat n\<rparr>"

text \<open>From the first byte of a tag, which \<open>read_tag\<close> has taken from the stream.\<close>

definition read_tag_after :: "(f64 \<Rightarrow> rstring) \<Rightarrow> u8 \<Rightarrow> (flv_reader \<times> u8 list, flv_tag) st" where
  "read_tag_after fmt raw_type =
     st_bind (read_exact_eof 10) (\<lambda>h.
     st_bind (st_modify (add_bytes_read 11)) (\<lambda>_.
     st_bind st_get_user (\<lambda>r.
     let filter = drop_bit 5 raw_type AND 0x01;
         tag_type = raw_type AND 0x1F;
         data_size = of_u24 (h ! 0) (h ! 1) (h ! 2);
         timestamp_ms = push_bit 24 (ucast (h ! 6)) OR of_u24 (h ! 3) (h ! 4) (h ! 5);
         stream_id = of_u24 (h ! 7) (h ! 8) (h ! 9)
     in
     st_bind (st_require (data_size \<le> fr_max_tag_size r) Other) (\<lambda>_.
     st_bind (st_require (stream_id = 0) Other) (\<lambda>_.
     st_bind (read_exact_eof (unat data_size)) (\<lambda>body.
     st_bind (st_modify (add_bytes_read (unat data_size))) (\<lambda>_.
     st_bind (read_exact_eof 4) (\<lambda>prev.
     let expected = u32_saturating_add 11 data_size in
     st_bind (st_require (of_be prev = expected) Other) (\<lambda>_.
     st_bind (st_modify (\<lambda>r. add_bytes_read 4 r\<lparr>fr_last_tag_size := expected\<rparr>)) (\<lambda>_.
     st_lift (decode_flv_body fmt (filter \<noteq> 0) tag_type timestamp_ms body)))))))))))"

definition read_tag :: "(f64 \<Rightarrow> rstring) \<Rightarrow> (flv_reader \<times> u8 list, flv_tag option) st" where
  "read_tag fmt =
     st_bind st_get_user (\<lambda>r.
     if fr_exhausted r then st_return None
     else st_bind st_rest (\<lambda>bs.
       case bs of [] \<Rightarrow> st_bind (st_modify (\<lambda>r. r\<lparr>fr_exhausted := True\<rparr>)) (\<lambda>_. st_return None)
       | b # _ \<Rightarrow> st_bind (read_exact_eof 1) (\<lambda>_.
           st_bind (read_tag_after fmt b) (\<lambda>t. st_return (Some t)))))"

definition reader_read_all :: "(f64 \<Rightarrow> rstring) \<Rightarrow> (flv_reader \<times> u8 list, flv_tag list) st" where
  "reader_read_all fmt = st_many (read_tag fmt)"

section \<open>Calls on a writer\<close>

datatype flv_write =
    PutVideo u32 video_tag
  | PutAudio u32 audio_tag
  | PutScript u32 rstring amf0_value
  | PutRaw u8 u32 "u8 list"
  | PutEncrypted u8 u32 encrypted_tag

fun writer_step :: "flv_write \<Rightarrow> flv_writer \<Rightarrow> (io_error + unit) \<times> flv_writer" where
  "writer_step (PutVideo ts t) w = write_video_tag ts t w"
| "writer_step (PutAudio ts t) w = write_audio_tag ts t w"
| "writer_step (PutScript ts name v) w = write_script_data ts name v w"
| "writer_step (PutRaw ty ts p) w = write_raw_tag ty ts p w"
| "writer_step (PutEncrypted ty ts c) w = write_encrypted_tag ty ts c w"

text \<open>The frame a call asks for: type byte, timestamp and payload.\<close>

fun put_type :: "flv_write \<Rightarrow> u8" where
  "put_type (PutVideo _ _) = FLV_TAG_TYPE_VIDEO"
| "put_type (PutAudio _ _) = FLV_TAG_TYPE_AUDIO"
| "put_type (PutScript _ _ _) = FLV_TAG_TYPE_SCRIPT_DATA"
| "put_type (PutRaw ty _ _) = ty"
| "put_type (PutEncrypted ty _ _) = (ty AND 0x1F) OR 0x20"

fun put_ts :: "flv_write \<Rightarrow> u32" where
  "put_ts (PutVideo ts _) = ts"
| "put_ts (PutAudio ts _) = ts"
| "put_ts (PutScript ts _ _) = ts"
| "put_ts (PutRaw _ ts _) = ts"
| "put_ts (PutEncrypted _ ts _) = ts"

fun put_payload :: "flv_write \<Rightarrow> u8 list" where
  "put_payload (PutVideo _ t) = build_video t"
| "put_payload (PutAudio _ t) = build_audio t"
| "put_payload (PutScript _ name v) = amf0_encode (A0String name) @ amf0_encode v"
| "put_payload (PutRaw _ _ p) = p"
| "put_payload (PutEncrypted _ _ c) = et_encode c"

lemma writer_step_payload: "writer_step p w = write_payload (put_type p) (put_ts p) (put_payload p) w"
  by (cases p) (simp_all add: write_video_tag_def write_audio_tag_def write_script_data_def
      write_raw_tag_def write_encrypted_tag_def)

definition put_fits :: "flv_write \<Rightarrow> bool" where
  "put_fits p \<longleftrightarrow> length (put_payload p) < 2 ^ 24"

text \<open>The size of the tag and the bytes of the frame with its back-pointer.\<close>

definition put_size :: "flv_write \<Rightarrow> u32" where
  "put_size p = word_of_nat (11 + length (put_payload p))"

definition framed :: "flv_write \<Rightarrow> u8 list" where
  "framed p = [put_type p] @ u24_be (word_of_nat (length (put_payload p))) @ u24_be (put_ts p)
     @ [ucast (drop_bit 24 (put_ts p))] @ [0, 0, 0] @ put_payload p
     @ u32_be (put_size p)"

lemma length_framed [simp]: "length (framed p) = 15 + length (put_payload p)"
  by (simp add: framed_def)

lemma u24_max: "unat FLV_UI24_MAX < n \<longleftrightarrow> \<not> n < 2 ^ 24"
  by (auto simp: FLV_UI24_MAX_def)

lemma build_tag_spec:
  "build_flv_tag ty ts p = (if length p < 2 ^ 24 then
     Inr ([ty] @ u24_be (word_of_nat (length p)) @ u24_be ts @ [ucast (drop_bit 24 ts)] @ [0, 0, 0] @ p)
   else Inl IoInvalidInput)"
  unfolding build_flv_tag_def u24_max by simp

lemma writer_step_run:
  "writer_step p w =
    (if fw_finished w then (Inl IoBrokenPipe, w)
     else if put_fits p then
       (Inr (), w\<lparr>fw_inner := fw_inner w @ framed p, fw_prev_tag_size := put_size p,
          fw_bytes_written := fw_bytes_written w + word_of_nat (length (framed p))\<rparr>)
     else (Inl IoInvalidInput, w))"
proof -
  have u: "(ucast (word_of_nat (11 + n) :: u32) + 4 :: u64) = word_of_nat (15 + n)" if "n < 2 ^ 24" for n
    using that by (simp add: word_unat_eq_iff unat_of_nat unsigned_ucast_eq take_bit_nat_eq_self unat_word_ariths)
  show ?thesis
    using u[of "length (put_payload p)"]
    by (simp add: writer_step_payload write_payload_def build_tag_spec put_fits_def Let_def framed_def put_size_def add.commute)
qed

section \<open>The stream a writer produces\<close>

text \<open>\<open>flv_stream f out n\<close>: the header, then tags each with its back-pointer; the last tag has size \<open>n\<close>.\<close>

inductive flv_stream :: "flv_header_flags \<Rightarrow> u8 list \<Rightarrow> u32 \<Rightarrow> bool" for f where
  start: "flv_stream f (build_flv_header f @ u32_be 0) 0"
| tag: "flv_stream f out n \<Longrightarrow> put_fits p \<Longrightarrow> flv_stream f (out @ framed p) (put_size p)"

inductive fw_step :: "flv_writer \<Rightarrow> flv_writer \<Rightarrow> bool" where
  "writer_step p w = (r, w') \<Longrightarrow> fw_step w w'"

inductive_cases fw_stepE: "fw_step w w'"

definition writer_inv :: "flv_header_flags \<Rightarrow> flv_writer \<Rightarrow> bool" where
  "writer_inv f w \<longleftrightarrow> flv_stream f (fw_inner w) (fw_prev_tag_size w)
     \<and> fw_bytes_written w = word_of_nat (length (fw_inner w))
     \<and> drop (length (fw_inner w) - 4) (fw_inner w) = u32_be (fw_prev_tag_size w)
     \<and> fw_flags w = f \<and> \<not> fw_finished w"

lemma framed_back_pointer: "drop (11 + length (put_payload p)) (framed p) = u32_be (put_size p)"
proof -
  define h where "h = [put_type p] @ u24_be (word_of_nat (length (put_payload p))) @ u24_be (put_ts p)
     @ [ucast (drop_bit 24 (put_ts p))] @ [0, 0, 0] @ put_payload p"
  have "framed p = h @ u32_be (put_size p)" "length h = 11 + length (put_payload p)"
    by (simp_all add: framed_def h_def)
  then show ?thesis by simp
qed

lemma writer_new_inv: "writer_inv f (flv_writer_new f)"
  using flv_stream.start[of f] by (simp add: writer_inv_def flv_writer_new_def)

lemma writer_step_inv: "writer_inv f w \<Longrightarrow> fw_step w w' \<Longrightarrow> writer_inv f w'"
  using flv_stream.tag[of f "fw_inner w"]
  by (elim fw_stepE) (auto simp: writer_inv_def writer_step_run framed_back_pointer split: if_splits)

text \<open>
  C36. Whatever is called on a writer, failing calls included, the sink holds a well-formed FLV
  stream: the file header, then tags each followed by its own size; \<open>bytes_written\<close> is the length
  of that stream, \<open>last_tag_size\<close> the back-pointer it ends with, and a refused call leaves all as
  it was.
\<close>

theorem writer_invariant:
  assumes "fw_step\<^sup>*\<^sup>* (flv_writer_new f) w"
  shows "flv_stream f (fw_inner w) (fw_prev_tag_size w)
     \<and> fw_bytes_written w = word_of_nat (length (fw_inner w))
     \<and> drop (length (fw_inner w) - 4) (fw_inner w) = u32_be (fw_prev_tag_size w)
     \<and> (case writer_step p w of (Inl e, w') \<Rightarrow> w' = w \<and> e = IoInvalidInput \<and> \<not> put_fits p
        | (Inr _, w') \<Rightarrow> put_fits p \<and> fw_inner w' = fw_inner w @ framed p)"
proof -
  have "writer_inv f w" using assms by induction (simp_all add: writer_new_inv writer_step_inv)
  then show ?thesis by (simp add: writer_inv_def writer_step_run)
qed

theorem writer_invariant_witness:
  "let w = snd (writer_step (PutRaw 8 0 [1]) (flv_writer_new \<lparr>hf_audio = True, hf_video = False\<rparr>))
   in fw_prev_tag_size w = 12
     \<and> fw_bytes_written w = word_of_nat (length (fw_inner w))
     \<and> drop (length (fw_inner w) - 4) (fw_inner w) = u32_be (fw_prev_tag_size w)"
proof -
  let ?n = "flv_writer_new \<lparr>hf_audio = True, hf_video = False\<rparr>"
  have "fw_step ?n (snd (writer_step (PutRaw 8 0 [1]) ?n))" by (rule fw_step.intros[OF surjective_pairing])
  then have "fw_step\<^sup>*\<^sup>* ?n (snd (writer_step (PutRaw 8 0 [1]) ?n))" by (rule r_into_rtranclp)
  from writer_invariant[OF this] show ?thesis
    by (simp add: writer_step_run flv_writer_new_def put_fits_def put_size_def)
qed

section \<open>Reading a frame\<close>

lemma st_require_run [simp]:
  "st_require True e s = (Inr (), s)" "st_require False e s = (Inl e, s)"
  by (simp_all add: st_require_def st_run)

lemma st_modify_run [simp]: "st_modify f (u, bs) = (Inr (), (f u, bs))"
  by (simp add: st_modify_def)

lemma read_exact_eof_run [simp]: "length bs = n \<Longrightarrow> read_exact_eof n (u, bs @ r) = (Inr bs, (u, r))"
  by (simp add: read_exact_eof_def)

definition after_frame :: "flv_write \<Rightarrow> flv_reader \<Rightarrow> flv_reader" where
  "after_frame p r =
     r\<lparr>fr_bytes_read := fr_bytes_read r + word_of_nat (length (framed p)), fr_last_tag_size := put_size p\<rparr>"

definition decode_put :: "(f64 \<Rightarrow> rstring) \<Rightarrow> flv_write \<Rightarrow> flv_tag result" where
  "decode_put fmt p = decode_flv_body fmt (drop_bit 5 (put_type p) AND 1 \<noteq> 0) (put_type p AND 0x1F) (put_ts p) (put_payload p)"

lemma saturating_11: "n < 2 ^ 24 \<Longrightarrow> u32_saturating_add 11 (word_of_nat n) = word_of_nat (11 + n)"
  by (simp add: u32_saturating_add_def unat_of_nat take_bit_nat_eq_self)

lemma read_frame:
  assumes "put_fits p" and "\<not> fr_exhausted r" and max: "word_of_nat (length (put_payload p)) \<le> fr_max_tag_size r"
  shows "read_tag fmt (r, framed p @ rest) =
     (case decode_put fmt p of Inl e \<Rightarrow> Inl e | Inr t \<Rightarrow> Inr (Some t), (after_frame p r, rest))"
proof -
  let ?n = "length (put_payload p)"
  have n: "unat (word_of_nat ?n :: u32) = ?n" "take_bit 24 (word_of_nat ?n :: u32) = word_of_nat ?n"
    "u32_saturating_add 11 (word_of_nat ?n) = put_size p"
    using assms(1) unat_u24_of_nat[of ?n] saturating_11[of ?n] by (simp_all add: put_fits_def put_size_def)
  define h where "h = u24_be (word_of_nat ?n) @ u24_be (put_ts p) @ [ucast (drop_bit 24 (put_ts p))] @ [0, 0, 0 :: u8]"
  have h: "length h = 10" by (simp add: h_def)
  have fields: "of_u24 (h ! 0) (h ! 1) (h ! 2) = word_of_nat ?n" "of_u24 (h ! 7) (h ! 8) (h ! 9) = 0"
    "push_bit 24 (ucast (h ! 6)) OR of_u24 (h ! 3) (h ! 4) (h ! 5) = put_ts p"
    using n by (simp_all add: h_def u24_be_def split_timestamp) (simp add: of_u24_def)
  have f: "framed p @ rest = [put_type p] @ h @ put_payload p @ u32_be (put_size p) @ rest"
    by (simp add: framed_def h_def)
  have one: "read_exact_eof 1 (r, put_type p # xs) = (Inr [put_type p], (r, xs))" for xs
    using read_exact_eof_run[of "[put_type p]" 1 r xs] by simp
  have bytes: "fr_bytes_read r + 11 + word_of_nat ?n + 4 = fr_bytes_read r + word_of_nat (length (framed p))" by simp
  have "read_tag_after fmt (put_type p) (r, h @ put_payload p @ u32_be (put_size p) @ rest) =
    (decode_put fmt p, (after_frame p r, rest))"
    using max bytes unfolding read_tag_after_def decode_put_def
    by (simp add: st_bind_def Let_def h fields[unfolded One_nat_def] n add_bytes_read_def after_frame_def st_lift_def)
  then show ?thesis
    unfolding f using assms(2) by (simp add: read_tag_def st_bind_def one[unfolded One_nat_def] st_run split: sum.split)
qed

lemma read_end: "read_tag fmt (r, []) = (Inr None, (r\<lparr>fr_exhausted := True\<rparr>, []))"
  by (cases r) (simp add: read_tag_def st_bind_def st_run)

lemma shrinks_reader_prims [shrink_intro]:
  "shrinks 0 (st_modify f)" "shrinks 0 (st_require b e)" "shrinks 0 (st_lift x)" "shrinks n (read_exact_eof n)"
  by (auto simp: shrinks_def st_modify_def st_require_def st_lift_def st_run read_exact_eof_def stream_exact_def
      split: if_splits)

lemma shrinks_read_after: "shrinks 0 (read_tag_after fmt b)"
  unfolding read_tag_after_def Let_def
  by (intro shrink_intro shrinks_mono[OF shrinks_reader_prims(4)]) simp_all

lemma steps_read_tag: "steps (read_tag fmt)"
  unfolding steps_def
proof (intro allI impI)
  fix u :: flv_reader and bs x u' bs'
  assume r: "read_tag fmt (u, bs) = (Inr (Some x), (u', bs'))"
  have one: "shrinks 1 (st_bind (read_exact_eof 1) (\<lambda>_. st_bind (read_tag_after fmt b) (\<lambda>t. st_return (Some t))))" for b
    by (intro shrinks_bind_first shrink_intro shrinks_read_after)
  from r show "length bs' < length bs"
    using shrinksD[OF one]
    by (cases bs) (fastforce simp: read_tag_def st_bind_def st_run split: if_splits)+
qed

section \<open>Whole files\<close>

fun put_tag :: "flv_write \<Rightarrow> flv_tag" where
  "put_tag (PutVideo ts t) = FtVideo ts t"
| "put_tag (PutAudio ts t) = FtAudio ts t"
| "put_tag (PutScript ts name v) = FtScript ts name v"
| "put_tag (PutRaw ty ts p) = FtUnknown ty ts p"
| "put_tag (PutEncrypted ty ts c) = FtEncrypted (ty AND 0x1F) ts c"

fun put_ok :: "flv_write \<Rightarrow> bool" where
  "put_ok (PutVideo ts t) \<longleftrightarrow> video_ok t"
| "put_ok (PutAudio ts t) \<longleftrightarrow> audio_ok t"
| "put_ok (PutScript ts name v) \<longleftrightarrow> long_ok name \<and> amf0_fits 0 v"
| "put_ok (PutRaw ty ts p) \<longleftrightarrow>
     ty < 32 \<and> ty \<notin> {FLV_TAG_TYPE_AUDIO, FLV_TAG_TYPE_VIDEO, FLV_TAG_TYPE_SCRIPT_DATA}"
| "put_ok (PutEncrypted ty ts c) \<longleftrightarrow> crypt_ok c"

lemma reads_amf0_value: "amf0_fits 0 v \<Longrightarrow> reads (amf0_value_reader fmt) (amf0_encode v) v"
  unfolding amf0_value_reader_def by (rule with_fresh_reads) (rule amf0_reads)

lemma script_roundtrip:
  assumes "long_ok name" and "amf0_fits 0 v"
  shows "parse_script_body fmt (amf0_encode (A0String name) @ amf0_encode v) = Inr (name, v)"
proof -
  have n: "amf0_fits 0 (A0String name)" using assms(1) by (simp add: MAX_DECODE_DEPTH_def)
  have s: "shrinks 1 (amf0_value_reader fmt :: (unit \<times> u8 list, _) st)"
    unfolding amf0_value_reader_def by (rule with_fresh_shrinks) (rule amf0_codec.item_shrinks)
  have rest: "st_ignore (while_input (amf0_value_reader fmt)) (u, []) = (Inr (), (u, []))" for u :: unit
    by (simp add: st_ignore_def while_input_unfold[OF s])
  have name: "amf0_value_reader fmt ((), amf0_encode (A0String name) @ bs) = (Inr (A0String name), ((), bs))" for bs
  proof -
    obtain u' :: unit where "amf0_value_reader fmt ((), amf0_encode (A0String name) @ bs) = (Inr (A0String name), (u', bs))"
      by (rule readsE[OF reads_amf0_value[OF n]])
    then show ?thesis by (simp del: amf0_encode.simps)
  qed
  have val: "amf0_value_reader fmt ((), amf0_encode v) = (Inr v, ((), []))"
    using reads_amf0_value[OF assms(2), of fmt] unfolding reads_def by (metis append_Nil2 old.unit.exhaust)
  show ?thesis
    by (simp add: parse_script_body_def script_reader_def st_bind_def name val rest st_run del: amf0_encode.simps)
qed

lemma type_bits:
  "drop_bit 5 ((ty AND 0x1F) OR 0x20) AND 1 = (1 :: u8)" "((ty AND 0x1F) OR 0x20) AND 0x1F = ty AND (0x1F :: u8)"
  "ty < 32 \<Longrightarrow> drop_bit 5 ty AND 1 = (0 :: u8)" "ty < 32 \<Longrightarrow> ty AND 0x1F = (ty :: u8)"
proof -
  have m: "(0x1F :: u8) = mask 5" "(0x20 :: u8) = push_bit 5 1" "(1 :: u8) = mask 1"
    by (simp_all add: mask_eq_exp_minus_1 push_bit_eq_mult)
  show "drop_bit 5 ((ty AND 0x1F) OR 0x20) AND 1 = (1 :: u8)"
    unfolding m by (rule bit_word_eqI) (auto simp: bit_simps)
  show "((ty AND 0x1F) OR 0x20) AND 0x1F = ty AND (0x1F :: u8)"
    by (simp add: bit.conj_disj_distrib2 and.assoc)
  assume "ty < 32"
  then have b: "bit ty n \<Longrightarrow> n < 5" for n using word_bit_bound[of ty 5] by (simp add: word_less_nat_alt)
  show "drop_bit 5 ty AND 1 = (0 :: u8)" "ty AND 0x1F = ty"
    unfolding m by (rule bit_word_eqI, auto simp: bit_simps dest: b)+
qed

lemma decode_put_ok: "put_ok p \<Longrightarrow> decode_put fmt p = Inr (put_tag p)"
proof (induction p rule: put_tag.induct)
  case (5 ty ts c)
  then show ?case using encoded_parses[of c] by (simp add: decode_put_def decode_flv_body_def or_other_def type_bits)
qed (simp_all add: decode_put_def decode_flv_body_def or_other_def type_bits flv_tag_types video_parses
    audio_parses script_roundtrip del: amf0_encode.simps)

text \<open>What the reader makes of a frame.\<close>

definition reads_back :: "(f64 \<Rightarrow> rstring) \<Rightarrow> flv_write \<Rightarrow> flv_tag \<Rightarrow> bool" where
  "reads_back fmt p t \<longleftrightarrow> put_fits p \<and> decode_put fmt p = Inr t"

lemma reads_back_ok: "put_fits p \<Longrightarrow> put_ok p \<Longrightarrow> reads_back fmt p (put_tag p)"
  by (simp add: reads_back_def decode_put_ok)

lemma reads_back_all: "list_all put_fits ps \<Longrightarrow> list_all put_ok ps \<Longrightarrow> list_all2 (reads_back fmt) ps (map put_tag ps)"
  by (induction ps) (simp_all add: reads_back_ok)

lemma read_frames:
  assumes "list_all2 (reads_back fmt) ps ts" and "\<not> fr_exhausted r" and "fr_max_tag_size r = FLV_UI24_MAX"
  shows "reader_read_all fmt (r, concat (map framed ps)) =
    (Inr ts, ((fold after_frame ps r)\<lparr>fr_exhausted := True\<rparr>, []))"
  using assms
proof (induction ps ts arbitrary: r rule: list_all2_induct)
  case Nil
  show ?case by (simp add: reader_read_all_def st_many_unfold[OF steps_read_tag] st_bind_def read_end st_run)
next
  case (Cons p ps t ts)
  have max: "word_of_nat (length (put_payload p)) \<le> fr_max_tag_size r"
    using Cons unat_u24_of_nat[of "length (put_payload p)"]
    by (simp add: reads_back_def put_fits_def FLV_UI24_MAX_def word_le_nat_alt)
  have one: "read_tag fmt (r, framed p @ concat (map framed ps)) =
      (Inr (Some t), (after_frame p r, concat (map framed ps)))"
    using read_frame[OF _ _ max, where rest = "concat (map framed ps)" and fmt = fmt] Cons by (simp add: reads_back_def)
  have "reader_read_all fmt (after_frame p r, concat (map framed ps)) =
    (Inr ts, ((fold after_frame ps (after_frame p r))\<lparr>fr_exhausted := True\<rparr>, []))"
    using Cons by (intro Cons.IH) (simp_all add: after_frame_def)
  then show ?case
    unfolding reader_read_all_def
    by (subst st_many_unfold[OF steps_read_tag]) (simp add: st_bind_def one st_run)
qed

lemma flags_roundtrip: "flags_from_byte (flags_to_byte f) = f"
  by (cases f) (auto simp: flags_from_byte_def flags_to_byte_def)

lemma open_written:
  "reader_open ((), build_flv_header f @ u32_be 0 @ rest) =
    (Inr \<lparr>fr_flags = f, fr_max_tag_size = FLV_UI24_MAX, fr_last_tag_size = 0, fr_exhausted = False,
       fr_bytes_read = 13\<rparr>, ((), rest))"
proof -
  define h where "h = build_flv_header f"
  have h: "length h = 9" "h ! 0 = 0x46" "h ! 1 = 0x4C" "h ! 2 = 0x56" "h ! 3 = FLV_VERSION" "h ! 4 = flags_to_byte f"
    "[h ! 5, h ! 6, h ! 7, h ! 8] = u32_be FLV_HEADER_SIZE"
    by (simp_all add: h_def build_flv_header_def be_bytes_unfold)
  have "build_flv_header f @ u32_be 0 @ rest = h @ u32_be 0 @ rest" by (simp add: h_def)
  then show ?thesis
    by (simp add: reader_open_def with_max_tag_size_def st_bind_def st_run Let_def h h[unfolded One_nat_def] flags_roundtrip flv_sizes)
qed

lemma fold_after_frame:
  "fold after_frame ps r = r\<lparr>fr_bytes_read := fr_bytes_read r + word_of_nat (length (concat (map framed ps))),
     fr_last_tag_size := (if ps = [] then fr_last_tag_size r else put_size (last ps))\<rparr>"
  by (induction ps arbitrary: r) (simp_all add: after_frame_def)

definition write_all :: "flv_write list \<Rightarrow> flv_writer \<Rightarrow> flv_writer" where
  "write_all ps w = fold (\<lambda>p w. snd (writer_step p w)) ps w"

lemma write_all_fits:
  "list_all put_fits ps \<Longrightarrow> \<not> fw_finished w \<Longrightarrow>
   write_all ps w = w\<lparr>fw_inner := fw_inner w @ concat (map framed ps),
     fw_bytes_written := fw_bytes_written w + word_of_nat (length (concat (map framed ps))),
     fw_prev_tag_size := (if ps = [] then fw_prev_tag_size w else put_size (last ps))\<rparr>"
  by (induction ps arbitrary: w) (simp_all add: write_all_def writer_step_run)

lemma write_all_append: "write_all (ps @ qs) w = write_all qs (write_all ps w)"
  by (simp add: write_all_def)

lemma write_all_open: "list_all put_fits ps \<Longrightarrow> \<not> fw_finished w \<Longrightarrow> \<not> fw_finished (write_all ps w)"
  by (simp add: write_all_fits)

text \<open>\<open>file_holds fmt f tags w\<close>: the file behind \<open>w\<close> is opened and read to its end as these flags and tags.\<close>

definition file_holds :: "(f64 \<Rightarrow> rstring) \<Rightarrow> flv_header_flags \<Rightarrow> flv_tag list \<Rightarrow> flv_writer \<Rightarrow> bool" where
  "file_holds fmt f tags w = (case reader_open ((), fw_inner w) of
       (Inl e, s) \<Rightarrow> False
     | (Inr r, (_, input)) \<Rightarrow> fr_flags r = f \<and>
         (case reader_read_all fmt (r, input) of (res, (r', input')) \<Rightarrow>
            res = Inr tags \<and> input' = [] \<and> fr_exhausted r'
            \<and> fr_bytes_read r' = fw_bytes_written w \<and> fr_last_tag_size r' = fw_prev_tag_size w))"

lemma file_read_back:
  assumes "list_all2 (reads_back fmt) ps ts"
  shows "file_holds fmt f ts (write_all ps (flv_writer_new f))"
proof -
  have fits: "list_all put_fits ps" using assms by (induction rule: list_all2_induct) (simp_all add: reads_back_def)
  have w: "write_all ps (flv_writer_new f) = (flv_writer_new f)
      \<lparr>fw_inner := build_flv_header f @ u32_be 0 @ concat (map framed ps),
       fw_bytes_written := 13 + word_of_nat (length (concat (map framed ps))),
       fw_prev_tag_size := (if ps = [] then 0 else put_size (last ps))\<rparr>"
    using write_all_fits[OF fits, of "flv_writer_new f"]
    by (simp add: flv_writer_new_def build_flv_header_def)
  let ?r = "\<lparr>fr_flags = f, fr_max_tag_size = FLV_UI24_MAX, fr_last_tag_size = 0, fr_exhausted = False, fr_bytes_read = 13\<rparr>"
  have "reader_read_all fmt (?r, concat (map framed ps)) =
      (Inr ts, ((fold after_frame ps ?r)\<lparr>fr_exhausted := True\<rparr>, []))"
    by (rule read_frames[OF assms]) simp_all
  then show ?thesis
    by (simp add: file_holds_def w open_written Let_def fold_after_frame)
qed

text \<open>
  C35. An FLV file is read back as it was written: for any sequence of calls with tags the
  format has, of less than 2^24 bytes each, the reader opens the stream, returns exactly those
  tags in order with their timestamps, and ends at the end of the stream with the flags of the
  header and the writer's byte count and last tag size.
\<close>

theorem flv_file_roundtrip:
  assumes "list_all (\<lambda>p. put_fits p \<and> put_ok p) ps"
  shows "let w = write_all ps (flv_writer_new f) in
    (case reader_open ((), fw_inner w) of
       (Inl e, s) \<Rightarrow> False
     | (Inr r, (_, input)) \<Rightarrow> fr_flags r = f \<and>
         (case reader_read_all fmt (r, input) of (res, (r', input')) \<Rightarrow>
            res = Inr (map put_tag ps) \<and> input' = [] \<and> fr_exhausted r'
            \<and> fr_bytes_read r' = fw_bytes_written w \<and> fr_last_tag_size r' = fw_prev_tag_size w))"
  using file_read_back[OF reads_back_all, of ps fmt f] assms
  by (simp add: file_holds_def Let_def list_all_iff)

theorem flv_file_roundtrip_witness:
  "let w = write_all [PutRaw 3 7 [1, 2], PutEncrypted 9 40 \<lparr>et_filter_name = FILTER_NAME_SELECTIVE,
       et_params = FpSelective None, et_body = [9]\<rparr>] (flv_writer_new \<lparr>hf_audio = True, hf_video = False\<rparr>) in
    (case reader_open ((), fw_inner w) of
       (Inl e, s) \<Rightarrow> False
     | (Inr r, (_, input)) \<Rightarrow> fr_flags r = \<lparr>hf_audio = True, hf_video = False\<rparr> \<and>
         (case reader_read_all (\<lambda>_. []) (r, input) of (res, (r', input')) \<Rightarrow>
            res = Inr (map put_tag [PutRaw 3 7 [1, 2], PutEncrypted 9 40 \<lparr>et_filter_name = FILTER_NAME_SELECTIVE,
               et_params = FpSelective None, et_body = [9]\<rparr>]) \<and> input' = [] \<and> fr_exhausted r'
            \<and> fr_bytes_read r' = fw_bytes_written w \<and> fr_last_tag_size r' = fw_prev_tag_size w))"
  by (rule flv_file_roundtrip)
    (simp add: put_fits_def flv_tag_types crypt_ok_def et_encode_def fp_encode_def fp_encoded_len_def
      FILTER_NAME_SELECTIVE_def FILTER_NAME_ENCRYPTION_def)

section \<open>Any input\<close>

lemma decode_flv_body_error: "decode_flv_body fmt flt ty ts body = Inl e \<Longrightarrow> e = Other"
  by (auto simp: decode_flv_body_def or_other_def res_bind_eq_Inl split: if_splits sum.splits)

definition take_error :: "rtmp_error \<Rightarrow> bool" where
  "take_error e \<longleftrightarrow> e = UnexpectedEof \<or> e = Other"

lemma reader_prims_eq_Inr:
  "read_exact_eof n (u, bs) = (Inr x, s') \<longleftrightarrow> n \<le> length bs \<and> x = take n bs \<and> s' = (u, drop n bs)"
  "st_require b e s = (Inr y, s') \<longleftrightarrow> b \<and> s' = s"
  "st_modify f (u, bs) = (Inr z, s') \<longleftrightarrow> s' = (f u, bs)"
  "st_lift v s = (Inr w, s') \<longleftrightarrow> v = Inr w \<and> s' = s"
  "st_get_user (u, bs) = (Inr u', s') \<longleftrightarrow> u' = u \<and> s' = (u, bs)"
  by (auto simp: read_exact_eof_def stream_exact_def st_require_def st_modify_def st_lift_def st_run
      st_get_user_def)

lemma size_plus_11:
  "unat (u32_saturating_add 11 (of_u24 a b c)) = 11 + unat (of_u24 a b c)"
proof -
  have "take_bit 24 (of_u24 a b c) = of_u24 a b c"
    unfolding of_u24_def by (rule bit_word_eqI) (auto simp: bit_simps dest: bit_imp_le_length)
  then have "unat (of_u24 a b c) = take_bit 24 (unat (of_u24 a b c))" by (metis unsigned_take_bit_eq)
  then have "unat (of_u24 a b c) < 2 ^ 24" by (metis take_bit_nat_less_exp)
  then show ?thesis by (simp add: u32_saturating_add_def unat_word_ariths)
qed

lemma read_after_Inr:
  assumes "read_tag_after fmt b (r, bs) = (Inr t, (r', rest))"
  defines "k \<equiv> unat (fr_last_tag_size r') + 3"
  shows "k \<le> length bs \<and> rest = drop k bs \<and> fr_bytes_read r' = fr_bytes_read r + word_of_nat (Suc k)
     \<and> take 4 (drop (k - 4) bs) = u32_be (fr_last_tag_size r') \<and> fr_exhausted r' = fr_exhausted r
     \<and> 11 \<le> unat (fr_last_tag_size r')"
proof -
  define size where "size = of_u24 (take 10 bs ! 0) (take 10 bs ! 1) (take 10 bs ! 2)"
  let ?n = "unat size"
  note size11 = size_plus_11[of "take 10 bs ! 0" "take 10 bs ! 1" "take 10 bs ! 2", folded size_def]
  have a: "10 \<le> length bs" "?n \<le> length (drop 10 bs)" "4 \<le> length (drop ?n (drop 10 bs))"
      "of_be (take 4 (drop ?n (drop 10 bs))) = u32_saturating_add 11 size"
      "rest = drop 4 (drop ?n (drop 10 bs))"
      "r' = (let r2 = add_bytes_read ?n (add_bytes_read 11 r) in add_bytes_read 4 r2\<lparr>fr_last_tag_size := u32_saturating_add 11 size\<rparr>)"
    using assms(1) unfolding read_tag_after_def Let_def
    by (simp_all only: st_bind_eq_Inr, auto simp: reader_prims_eq_Inr size_def)
  then have k: "k = 14 + ?n" using size11 by (simp add: k_def)
  have four: "take 4 (drop (10 + ?n) bs) = u32_be (fr_last_tag_size r')"
    using a(3,4,6) be_bytes_of_be[of "take 4 (drop (10 + ?n) bs)", where 'a = 32] by (simp add: add.commute)
  show ?thesis using a k four size11 by (auto simp: add_bytes_read_def algebra_simps)
qed

definition only_take_errors :: "('s, 'a) st \<Rightarrow> bool" where
  "only_take_errors p \<longleftrightarrow> (\<forall>s e s'. p s = (Inl e, s') \<longrightarrow> take_error e)"

lemma take_errorD: "only_take_errors p \<Longrightarrow> p s = (Inl e, s') \<Longrightarrow> take_error e"
  unfolding only_take_errors_def by blast

lemma take_errors_bind:
  "only_take_errors p \<Longrightarrow> (\<And>x. only_take_errors (f x)) \<Longrightarrow> only_take_errors (st_bind p f)"
  unfolding only_take_errors_def st_bind_def by (auto split: prod.splits sum.splits)

lemma take_errors_prims:
  "only_take_errors (read_exact_eof n)" "only_take_errors (st_require b Other)" "only_take_errors (st_modify g)"
  "only_take_errors st_get_user" "only_take_errors (st_return x)" "only_take_errors st_rest"
  "only_take_errors (st_lift (decode_flv_body fmt flt ty ts body))"
  by (auto simp: only_take_errors_def read_exact_eof_def stream_exact_def st_require_def st_modify_def st_run
      st_get_user_def st_rest_def st_lift_def take_error_def dest: decode_flv_body_error split: if_splits)

lemma take_errors_many:
  assumes "steps p" and "only_take_errors p"
  shows "only_take_errors (st_many p)"
proof -
  have "take_error e" if "st_many p (u, bs) = (Inl e, s')" for u bs e s'
    using that
  proof (induction "length bs" arbitrary: u bs s' rule: less_induct)
    case less
    obtain res v rest where p: "p (u, bs) = (res, (v, rest))" by (metis prod.exhaust)
    show ?case
    proof (cases res)
      case (Inl e')
      then show ?thesis using less.prems p take_errorD[OF assms(2)]
        by (subst (asm) st_many_unfold[OF assms(1)]) (auto simp: st_bind_def)
    next
      case (Inr t)
      show ?thesis
      proof (cases t)
        case None
        then show ?thesis using less.prems p Inr
          by (subst (asm) st_many_unfold[OF assms(1)]) (simp add: st_bind_def st_run)
      next
        case (Some y)
        have "length rest < length bs" using assms(1) p Inr Some by (auto simp: steps_def)
        moreover obtain s'' where "st_many p (v, rest) = (Inl e, s'')"
          using less.prems p Inr Some
          by (subst (asm) st_many_unfold[OF assms(1)])
            (auto simp: st_bind_def st_run split: prod.splits sum.splits)
        ultimately show ?thesis using less.hyps by blast
      qed
    qed
  qed
  then show ?thesis by (auto simp: only_take_errors_def)
qed

lemma read_tag_errors: "only_take_errors (read_tag fmt)"
  unfolding read_tag_def read_tag_after_def Let_def
  by (intro take_errors_bind take_errors_prims) (auto intro!: take_errors_bind take_errors_prims split: list.split)

text \<open>
  C37. Reading from any bytes: \<open>read_tag\<close> either returns a tag, having consumed exactly the frame
  whose back-pointer it has checked and counted its bytes; or it finds the end of the stream,
  which it remembers; or it fails with \<open>UnexpectedEof\<close> or \<open>Other\<close>.  \<open>read_all\<close> always
  returns, with the tags or one of these errors.
\<close>

theorem read_tag_total:
  "(case read_tag fmt (r, bs) of
      (Inl e, _) \<Rightarrow> e = UnexpectedEof \<or> e = Other
    | (Inr None, (r', rest)) \<Rightarrow> (fr_exhausted r \<or> bs = []) \<and> rest = bs \<and> r' = r\<lparr>fr_exhausted := True\<rparr>
    | (Inr (Some t), (r', rest)) \<Rightarrow> (let k = unat (fr_last_tag_size r') in
        k + 4 \<le> length bs \<and> rest = drop (k + 4) bs \<and> take 4 (drop k bs) = u32_be (fr_last_tag_size r')
        \<and> fr_bytes_read r' = fr_bytes_read r + word_of_nat (k + 4) \<and> \<not> fr_exhausted r'))
   \<and> (case fst (reader_read_all fmt (r, bs)) of Inl e \<Rightarrow> e = UnexpectedEof \<or> e = Other | Inr _ \<Rightarrow> True)"
proof -
  have errs: "read_tag fmt (r, bs) = (Inl e, s') \<Longrightarrow> e = UnexpectedEof \<or> e = Other" for e s'
    using take_errorD[OF read_tag_errors] by (simp add: take_error_def)
  have all: "fst (reader_read_all fmt (r, bs)) = Inl e \<Longrightarrow> e = UnexpectedEof \<or> e = Other" for e
    using take_errorD[OF take_errors_many[OF steps_read_tag read_tag_errors], of fmt "(r, bs)" e]
    by (cases "reader_read_all fmt (r, bs)") (simp add: reader_read_all_def take_error_def)
  show ?thesis
  proof (cases "fr_exhausted r \<or> bs = []")
    case True
    then have "read_tag fmt (r, bs) = (Inr None, (r\<lparr>fr_exhausted := True\<rparr>, bs))"
      by (cases "fr_exhausted r") (auto simp: read_tag_def st_bind_def st_run)
    with True all show ?thesis by (auto split: sum.split prod.split)
  next
    case False
    then obtain b cs where bs: "bs = b # cs" by (cases bs) auto
    have one: "read_exact_eof 1 (r, b # cs) = (Inr [b], (r, cs))"
      using read_exact_eof_run[of "[b]" 1 r cs] by simp
    have tag: "read_tag fmt (r, bs) = st_bind (read_tag_after fmt b) (\<lambda>t. st_return (Some t)) (r, cs)"
      using False by (simp add: bs read_tag_def st_bind_def one[unfolded One_nat_def] st_run)
    obtain res r' rest where a: "read_tag_after fmt b (r, cs) = (res, (r', rest))" by (metis prod.exhaust)
    show ?thesis
    proof (cases res)
      case (Inl e)
      then have "read_tag fmt (r, bs) = (Inl e, (r', rest))" by (simp add: tag st_bind_def a)
      with errs all show ?thesis by (auto split: sum.split prod.split)
    next
      case (Inr t)
      have "read_tag fmt (r, bs) = (Inr (Some t), (r', rest))" by (simp add: tag st_bind_def a Inr st_run)
      moreover note after = read_after_Inr[OF a[unfolded Inr]]
      moreover have "drop (unat (fr_last_tag_size r') + 4) bs = drop (unat (fr_last_tag_size r') + 3) cs"
        using drop_Suc_Cons[of "unat (fr_last_tag_size r') + 3" b cs] by (simp add: bs add.commute)
      moreover have "drop (unat (fr_last_tag_size r')) bs = drop (unat (fr_last_tag_size r') - 1) cs"
        using after drop_Suc_Cons[of "unat (fr_last_tag_size r') - 1" b cs] by (simp add: bs)
      moreover have "length bs = Suc (length cs)" by (simp add: bs)
      ultimately show ?thesis using all False
        by (auto simp: Let_def split: sum.split prod.split)
    qed
  qed
qed

end
