(* ===== verification/Recording.thy ===== *)
theory Recording
  imports Sources Flv_File
begin

text \<open>
  A publisher recorded to a file: \<open>flv_file.rs\<close> composes with \<open>RtmpSession\<close> in a loop over
  \<open>next_packet\<close> (\<open>tests/flv_file_record.rs\<close>), which ends at the end of the session, at an error of
  it, or where the test panics, with the error of a write.  What the reader makes of the file is compared
  with what the session handed out and with what was published.
\<close>

section \<open>The loop\<close>

definition record_packet :: "stream_packet \<Rightarrow> flv_writer \<Rightarrow> (io_error + unit) \<times> flv_writer" where
  "record_packet p w = (case p of
     SpAudio ts tag \<Rightarrow> write_audio_tag ts tag w
   | SpVideo ts tag \<Rightarrow> write_video_tag ts tag w
   | SpMetadata v \<Rightarrow> write_script_data 0 ON_META_DATA v w
   | _ \<Rightarrow> (Inr (), w))"

partial_function (option) record_session ::
    "(f64 \<Rightarrow> rstring) \<Rightarrow> rtmp_session \<times> u8 list \<Rightarrow> flv_writer \<Rightarrow> ((io_error + unit) \<times> flv_writer) option" where
  "record_session fmt s w =
    (case next_packet_of fmt s of
       None \<Rightarrow> None
     | Some (r, s') \<Rightarrow>
         (case r of
            Inl e \<Rightarrow> Some (Inr (), w)
          | Inr None \<Rightarrow> Some (Inr (), w)
          | Inr (Some p) \<Rightarrow>
              (case record_packet p w of
                 (Inl e, w') \<Rightarrow> Some (Inl e, w')
               | (Inr _, w') \<Rightarrow> record_session fmt s' w')))"

text \<open>The calls on the writer a packet becomes.\<close>

fun recorded :: "stream_packet \<Rightarrow> flv_write list" where
  "recorded (SpAudio ts tag) = [PutAudio ts tag]"
| "recorded (SpVideo ts tag) = [PutVideo ts tag]"
| "recorded (SpMetadata v) = [PutScript 0 ON_META_DATA v]"
| "recorded _ = []"

lemma record_run:
  assumes "\<not> fw_finished w"
  shows "record_packet p w = (if list_all put_fits (recorded p) then (Inr (), write_all (recorded p) w) else (Inl IoInvalidInput, w))"
proof -
  have "record_packet p w = (case recorded p of [] \<Rightarrow> (Inr (), w) | q # _ \<Rightarrow> writer_step q w)"
    by (simp add: record_packet_def split: stream_packet.split)
  then show ?thesis using assms by (cases p rule: recorded.cases) (simp_all add: writer_step_run write_all_def)
qed

abbreviation "handed ps \<equiv> map (\<lambda>p. Inr (Some p)) ps"

text \<open>How a recording ends.\<close>

definition stops :: "stream_packet option result \<Rightarrow> io_error + unit \<Rightarrow> bool" where
  "stops a r = (case a of Inr (Some p) \<Rightarrow> r = Inl IoInvalidInput \<and> \<not> list_all put_fits (recorded p) | _ \<Rightarrow> r = Inr ())"

lemma record_all:
  assumes "calls (next_packet_of fmt) (length ps) s = Some (handed ps, t)" and "next_packet_of fmt t = Some (a, u)" and "stops a r"
    and "list_all put_fits (concat (map recorded ps))" and "\<not> fw_finished w"
  shows "record_session fmt s w = Some (r, write_all (concat (map recorded ps)) w)"
  using assms(1,4,5)
proof (induction ps arbitrary: s w)
  case Nil
  then show ?case using assms(2,3)
    by (subst record_session.simps) (auto simp: stops_def record_run write_all_def split: sum.splits option.splits)
next
  case (Cons p ps)
  obtain s1 where next1: "next_packet_of fmt s = Some (Inr (Some p), s1)"
    and rest: "calls (next_packet_of fmt) (length ps) s1 = Some (handed ps, t)"
    using Cons.prems(1) by (auto split: option.splits prod.splits)
  have fits: "list_all put_fits (recorded p)" "list_all put_fits (concat (map recorded ps))" using Cons.prems(2) by simp_all
  show ?case
    using Cons.IH[OF rest fits(2) write_all_open[OF fits(1) Cons.prems(3)]] next1 fits(1) Cons.prems(3)
    by (subst record_session.simps) (simp add: record_run write_all_append)
qed

section \<open>Whoever publishes\<close>

lemma packet_handed_wf: "next_packet_of fmt s = Some (Inr (Some p), t) \<Longrightarrow> packet_wf p"
  using pumped[where P = packet_wf and on_sub = "session_handle_message fmt" and on_wire = "session_handle_message fmt" and s = s and h = session_hangup] handled_wf
  by (fastforce simp: next_packet_of_def split: option.splits prod.splits sum.splits)

lemma recording_ends:
  assumes "conn_inv c"
  shows "\<exists>ps t a u r. calls (next_packet_of fmt) (length ps) (c, bs) = Some (handed ps, t) \<and> next_packet_of fmt t = Some (a, u)
     \<and> stops a r \<and> list_all put_fits (concat (map recorded ps)) \<and> list_all packet_wf ps"
  using assms
proof (induction "(c, bs)" arbitrary: c bs rule: wf_induct_rule[OF wf_measures[of "[\<lambda>(c, bs). length bs, \<lambda>(c, bs). backlog (cn_pending c)]"]])
  case 1
  obtain a c1 bs1 where one: "next_packet_of fmt (c, bs) = Some (a, (c1, bs1))" and inv: "conn_inv c1"
    using publisher.pump_returns[OF 1(2), of fmt bs] by (auto simp: next_packet_of_def)
  show ?case
  proof (cases "\<exists>p. a = Inr (Some p) \<and> list_all put_fits (recorded p)")
    case True
    then obtain p where p: "a = Inr (Some p)" "list_all put_fits (recorded p)" by blast
    have "((c1, bs1), (c, bs)) \<in> measures [\<lambda>(c, bs). length bs, \<lambda>(c, bs). backlog (cn_pending c)]"
      using publisher.pump_descends[OF 1(2)] one p(1) by (simp add: next_packet_of_def)
    from 1(1)[OF this inv] obtain ps t a' u r where rest:
      "calls (next_packet_of fmt) (length ps) (c1, bs1) = Some (handed ps, t)" "next_packet_of fmt t = Some (a', u)"
      "stops a' r" "list_all put_fits (concat (map recorded ps))" "list_all packet_wf ps" by blast
    show ?thesis
      using one p rest packet_handed_wf[of fmt "(c, bs)" p]
      by (intro exI[of _ "p # ps"] exI[of _ t] exI[of _ a'] exI[of _ u] exI[of _ r]) simp
  next
    case False
    then have "stops a (case a of Inr (Some p) \<Rightarrow> Inl IoInvalidInput | _ \<Rightarrow> Inr ())"
      by (auto simp: stops_def split: sum.split option.split)
    then show ?thesis
      using one by (intro exI[of _ "[]"] exI[of _ "(c, bs)"] exI[of _ a] exI) auto
  qed
qed

text \<open>
  What is read for a tag written: itself; only the value of metadata the format cannot hold is not.
\<close>

fun kept :: "flv_write \<Rightarrow> flv_tag \<Rightarrow> bool" where
  "kept (PutScript ts name v) t \<longleftrightarrow> ft_tag_type t = FLV_TAG_TYPE_SCRIPT_DATA \<and> ft_timestamp_ms t = ts
     \<and> (long_ok name \<and> amf0_fits 0 v \<longrightarrow> t = FtScript ts name v)"
| "kept p t \<longleftrightarrow> t = put_tag p"

lemma script_decodes:
  "\<exists>t. decode_put fmt (PutScript ts name v) = Inr t \<and> kept (PutScript ts name v) t"
proof -
  have "\<exists>t. decode_put fmt (PutScript ts name v) = Inr t \<and> ft_tag_type t = FLV_TAG_TYPE_SCRIPT_DATA \<and> ft_timestamp_ms t = ts"
    by (auto simp: decode_put_def decode_flv_body_def type_bits flv_tag_types split: sum.split prod.split simp del: amf0_encode.simps)
  then show ?thesis using decode_put_ok[of "PutScript ts name v" fmt] by auto
qed

lemma recorded_reads_back:
  "packet_wf p \<Longrightarrow> list_all put_fits (recorded p) \<Longrightarrow>
   \<exists>ts. list_all2 (reads_back fmt) (recorded p) ts \<and> list_all2 kept (recorded p) ts"
proof (induction p rule: recorded.induct)
  case (1 ts tag)
  then show ?case using decode_put_ok[of "PutAudio ts tag" fmt]
    by (intro exI[of _ "[FtAudio ts tag]"]) (simp add: reads_back_def)
next
  case (2 ts tag)
  then show ?case using decode_put_ok[of "PutVideo ts tag" fmt]
    by (intro exI[of _ "[FtVideo ts tag]"]) (simp add: reads_back_def)
next
  case (3 v)
  obtain t where "decode_put fmt (PutScript 0 ON_META_DATA v) = Inr t" "kept (PutScript 0 ON_META_DATA v) t"
    using script_decodes by blast
  with 3 show ?case by (intro exI[of _ "[t]"]) (simp add: reads_back_def)
qed simp_all

lemma all_read_back:
  "list_all packet_wf ps \<Longrightarrow> list_all put_fits (concat (map recorded ps)) \<Longrightarrow>
   \<exists>ts. list_all2 (reads_back fmt) (concat (map recorded ps)) ts \<and> list_all2 kept (concat (map recorded ps)) ts"
proof (induction ps)
  case (Cons p ps)
  then obtain ts us where "list_all2 (reads_back fmt) (recorded p) ts" "list_all2 kept (recorded p) ts"
    "list_all2 (reads_back fmt) (concat (map recorded ps)) us" "list_all2 kept (concat (map recorded ps)) us"
    using recorded_reads_back[of p fmt] by auto
  then show ?case by (intro exI[of _ "ts @ us"]) (simp add: list_all2_appendI)
qed simp

text \<open>
  The recording of \<open>s\<close> ends: with the session, or at a packet too large for a tag.  The file holds one tag
  for every audio, video and metadata packet handed out before.
\<close>

definition recording_kept :: "(f64 \<Rightarrow> rstring) \<Rightarrow> flv_header_flags \<Rightarrow> rtmp_session \<times> u8 list \<Rightarrow> bool" where
  "recording_kept fmt f s \<longleftrightarrow> (\<exists>ps tags t a u r w.
     calls (next_packet_of fmt) (length ps) s = Some (handed ps, t) \<and> next_packet_of fmt t = Some (a, u) \<and> stops a r
     \<and> record_session fmt s (flv_writer_new f) = Some (r, w)
     \<and> list_all2 kept (concat (map recorded ps)) tags \<and> file_holds fmt f tags w)"

text \<open>
  C13. Any publisher can be recorded.  Whatever bytes a peer sends from the first one on: when it has been accepted
  as a publisher, the recording loop ends, by an end or error of the session or a packet of 2^24
  bytes or more, and what it has written is opened and read to its end by \<open>FlvReader\<close>, giving exactly the
  audio, video and metadata packets \<open>next_packet\<close> has handed out, in order: the audio and video packets with their
  tags and timestamps, and for each metadata packet a script tag (at time 0, as the loop
  writes it) with its value where the AMF0 format can carry it.
\<close>

theorem any_publisher_is_recorded:
  "case drive_until_request fmt caps t1 t2 inp of
     (Inr (ReqPublish req), s) \<Rightarrow>
       (case publish_accept req s of (Inr session, (_, bs)) \<Rightarrow> recording_kept fmt f (session, bs) | _ \<Rightarrow> True)
   | _ \<Rightarrow> True"
proof -
  have "recording_kept fmt f (session, bs)"
    if run: "drive_until_request fmt caps t1 t2 inp = (Inr (ReqPublish req), s)" "publish_accept req s = (Inr session, (l, bs))"
    for req s session l bs
  proof -
    have "link_ok (fst s)" using drive_sound[of fmt caps t1 t2 inp] run(1) by simp
    then have "conn_inv session" using hoareD[OF accept_starts(1) _ run(2)] by simp
    from recording_ends[OF this, of fmt bs] obtain ps t a u r where
      rec: "calls (next_packet_of fmt) (length ps) (session, bs) = Some (handed ps, t)" "next_packet_of fmt t = Some (a, u)"
      "stops a r" "list_all put_fits (concat (map recorded ps))" "list_all packet_wf ps" by blast
    from all_read_back[OF rec(5,4)] obtain tags where tags: "list_all2 (reads_back fmt) (concat (map recorded ps)) tags"
      "list_all2 kept (concat (map recorded ps)) tags" by blast
    show ?thesis
      unfolding recording_kept_def
      using rec(1-3) record_all[OF rec(1-4), of "flv_writer_new f"] tags(2) file_read_back[OF tags(1), of f]
      by (intro exI[of _ ps] exI[of _ tags] exI[of _ t] exI[of _ a] exI[of _ u] exI[of _ r]) (simp add: flv_writer_new_def)
  qed
  then show ?thesis by (auto split: prod.split sum.split session_request.split)
qed

section \<open>A publisher of this crate\<close>

fun media_tags :: "media \<Rightarrow> flv_tag list" where
  "media_tags (MVideo ts tag) = [FtVideo ts tag]"
| "media_tags (MAudio ts tag) = [FtAudio ts tag]"
| "media_tags (MMetadata v) = [FtScript 0 ON_META_DATA v]"
| "media_tags (MFrame handler v) = (if handler = ON_META_DATA then [FtScript 0 ON_META_DATA v] else [])"
| "media_tags (MClear handler) = []"

lemma media_recorded:
  assumes "media_ok m"
  shows "list_all put_fits (recorded (media_packet m))"
    "list_all2 (reads_back fmt) (recorded (media_packet m)) (media_tags m)"
proof -
  have meta: "lit ''onMetaData'' = ON_META_DATA" "long_ok ON_META_DATA" by (simp_all add: ON_META_DATA_def lit_ok)
  have "list_all put_fits (recorded (media_packet m)) \<and> list_all put_ok (recorded (media_packet m))
     \<and> map put_tag (recorded (media_packet m)) = media_tags m"
    using assms meta by (cases m) (auto simp: media_ok_def put_fits_def build_set_data_frame_def build_set_data_frame_named_def
        data_message_def)
  then show "list_all put_fits (recorded (media_packet m))"
    "list_all2 (reads_back fmt) (recorded (media_packet m)) (media_tags m)"
    using reads_back_all[of "recorded (media_packet m)" fmt] by simp_all
qed

lemma all_media_recorded:
  "list_all media_ok ms \<Longrightarrow> list_all put_fits (concat (map recorded (map media_packet ms)))
   \<and> list_all2 (reads_back fmt) (concat (map recorded (map media_packet ms))) (concat (map media_tags ms))"
  by (induction ms) (auto simp: media_recorded intro!: list_all2_appendI)

lemma ops_media_ok: "list_all op_ok ops \<Longrightarrow> list_all media_ok (concat (map media_of ops))"
proof (induction ops)
  case (Cons op ops)
  then show ?case by (cases op) simp_all
qed simp

text \<open>
  C12. What is published is in the file.  For every URL, publish type and capabilities, and every list of calls of the
  client's sending methods: the session the server accepts, recorded to its end, leaves an FLV file that
  \<open>FlvReader\<close> opens and reads to its end as the audio, video and metadata published, in order, with their
  timestamps (metadata at 0), and with the writer's counters.
\<close>

theorem published_and_recorded:
  assumes "parse_rtmp_url url = Inr u" and "dialogue_fits u ty ccaps scaps" and "digest_clear digest t1 t2 t3 t4"
    and "list_all op_ok ops"
  shows "\<exists>client client' session l s ng' heard unheard sent w.
      client_connect fmt url ty ccaps digest t1 t2 (heard @ unheard) = (Inr client, (l, unheard))
    \<and> in_order (map publish ops) (client, unheard) = (Inr (), (client', unheard))
    \<and> drive_until_request fmt scaps t3 t4 (cw_stream (lk_writer client'))
        = (Inr (ReqPublish (publish_asked u ty ccaps 1)), s)
    \<and> publish_accept (publish_asked u ty ccaps 1) s = (Inr session, (ng', sent))
    \<and> cw_stream (lk_writer session) = heard @ unheard
    \<and> record_session fmt (session, sent) (flv_writer_new f) = Some (Inr (), w)
    \<and> file_holds fmt f (concat (map media_tags (concat (map media_of ops)))) w"
proof -
  let ?ms = "concat (map media_of ops)"
  note rec = all_media_recorded[OF ops_media_ok[OF assms(4)], of fmt]
  from published_run[OF assms, of fmt] show ?thesis
  proof (elim exE conjE, goal_cases)
    case (1 client w session session' l ng ng' heard unheard sent)
    have "calls (next_packet_of fmt) (length (map media_packet ?ms)) (session, sent) = Some (handed (map media_packet ?ms), (session', []))"
      using 1 by (simp add: packets_def)
    from record_all[OF this session_end, of w "Inr ()" "flv_writer_new f"] 1 rec
    have "record_session fmt (session, sent) (flv_writer_new f)
        = Some (Inr (), write_all (concat (map recorded (map media_packet ?ms))) (flv_writer_new f))"
      by (simp add: stops_def flv_writer_new_def)
    then show ?case
      using 1 file_read_back[OF conjunct2[OF rec], of f]
      by (intro exI[of _ client] exI[of _ "client\<lparr>lk_writer := w\<rparr>"] exI[of _ session] exI[of _ l]
          exI[of _ "(ng, sent)"] exI[of _ ng'] exI[of _ heard] exI[of _ unheard] exI[of _ sent]) simp
  qed
qed

theorem published_and_recorded_witness:
  "let f = \<lparr>hf_audio = True, hf_video = True\<rparr> in
   \<exists>client client' session l s ng' heard unheard sent w.
      client_connect (\<lambda>_. []) (lit ''rtmp://h/live/cam'') (lit ''live'') caps_new False 1 2 (heard @ unheard) = (Inr client, (l, unheard))
    \<and> in_order (map publish sample_media) (client, unheard) = (Inr (), (client', unheard))
    \<and> drive_until_request (\<lambda>_. []) caps_new 3 4 (cw_stream (lk_writer client'))
        = (Inr (ReqPublish (publish_asked sample_url (lit ''live'') caps_new 1)), s)
    \<and> publish_accept (publish_asked sample_url (lit ''live'') caps_new 1) s = (Inr session, (ng', sent))
    \<and> cw_stream (lk_writer session) = heard @ unheard
    \<and> record_session (\<lambda>_. []) (session, sent) (flv_writer_new f) = Some (Inr (), w)
    \<and> file_holds (\<lambda>_. []) f [FtScript 0 (lit ''onMetaData'') (A0Object [(lit ''width'', num 640)]),
        FtVideo 40 (avc_tag VIDEO_FRAME_KEYFRAME AVC_PACKET_TYPE_NALU [1, 2, 3]),
        FtAudio 46 (aac_tag AAC_PACKET_TYPE_RAW [9])] w"
proof -
  have "concat (map media_tags (concat (map media_of sample_media)))
    = [FtScript 0 (lit ''onMetaData'') (A0Object [(lit ''width'', num 640)]),
        FtVideo 40 (avc_tag VIDEO_FRAME_KEYFRAME AVC_PACKET_TYPE_NALU [1, 2, 3]), FtAudio 46 (aac_tag AAC_PACKET_TYPE_RAW [9])]"
    by (simp add: sample_media_def ON_META_DATA_def)
  then show ?thesis
    using published_and_recorded[OF sample_url_parses sample_fits _ sample_media_ok, of False 1 2 3 4 "\<lambda>_. []"]
    by (simp add: digest_clear_def)
qed

end
