(* ===== verification/Duplex.thy ===== *)
theory Duplex
  imports Channel "HOL-Library.Sublist"
begin

text \<open>
  Both directions of an established session at once.  Two ends, each of which sends and reads whenever it likes,
  and the bytes under way between them; what an end makes of a message may include an answer.
\<close>

section \<open>Two ends and the bytes between them\<close>

text \<open>
  \<open>du_to_right\<close> are the bytes the left end has written and the right end has not read.  An end has got what the
  rounds of its reading loop have returned: \<open>Some q\<close> for a packet or an event, \<open>None\<close> for the end of the session.
\<close>

record ('a, 'b, 'p, 'q) duplex =
  du_left :: 'a
  du_right :: 'b
  du_to_right :: "u8 list"
  du_to_left :: "u8 list"
  du_left_got :: "'p option list"
  du_right_got :: "'q option list"
  du_faults :: "rtmp_error list"

definition duplex_start :: "'a \<Rightarrow> 'b \<Rightarrow> u8 list \<Rightarrow> ('a, 'b, 'p, 'q) duplex" where
  "duplex_start a b bs = \<lparr>du_left = a, du_right = b, du_to_right = [], du_to_left = bs, du_left_got = [], du_right_got = [],
     du_faults = []\<rparr>"

definition mirror :: "('a, 'b, 'p, 'q) duplex \<Rightarrow> ('b, 'a, 'q, 'p) duplex" where
  "mirror d = \<lparr>du_left = du_right d, du_right = du_left d, du_to_right = du_to_left d, du_to_left = du_to_right d,
     du_left_got = du_right_got d, du_right_got = du_left_got d, du_faults = du_faults d\<rparr>"

lemma mirror_simps [simp]: "du_left (mirror d) = du_right d" "du_right (mirror d) = du_left d"
  "du_to_right (mirror d) = du_to_left d" "du_to_left (mirror d) = du_to_right d"
  "du_left_got (mirror d) = du_right_got d" "du_right_got (mirror d) = du_left_got d"
  "du_faults (mirror d) = du_faults d" "mirror (mirror d) = d"
  by (simp_all add: mirror_def)

definition fault_of :: "'r result \<Rightarrow> rtmp_error list" where
  "fault_of r = (case r of Inl e \<Rightarrow> [e] | Inr _ \<Rightarrow> [])"

definition reported :: "'p option option result \<Rightarrow> 'p option list" where
  "reported r = (case r of Inr (Some x) \<Rightarrow> [x] | _ \<Rightarrow> [])"

text \<open>What an end has put on the wire between two states of it.\<close>

definition emitted :: "'x conn_scheme \<Rightarrow> 'x conn_scheme \<Rightarrow> u8 list" where
  "emitted a a' = drop (length (cw_stream (lk_writer a))) (cw_stream (lk_writer a'))"

text \<open>The left end calls a sending method.\<close>

definition left_says :: "('x, unit) on_conn \<Rightarrow> ('x conn_scheme, 'b, 'p, 'q) duplex \<Rightarrow> ('x conn_scheme, 'b, 'p, 'q) duplex" where
  "left_says say d = (let (r, (a', _)) = say (du_left d, []) in
     d\<lparr>du_left := a', du_to_right := du_to_right d @ emitted (du_left d) a', du_faults := du_faults d @ fault_of r\<rparr>)"

text \<open>
  The left end runs one round of its reading loop; a read waits while there is nothing to read.  A call of
  \<open>next_packet\<close>, \<open>next_event\<close> or \<open>poll_event\<close> is as many rounds as it takes until one reports something (\<open>pump\<close>).
\<close>

definition left_reads :: "('x, 'p option option) on_conn \<Rightarrow> ('x conn_scheme, 'b, 'p, 'q) duplex \<Rightarrow> ('x conn_scheme, 'b, 'p, 'q) duplex" where
  "left_reads round d = (if du_to_left d = [] then d else
     let (r, (a', rest)) = round (du_left d, du_to_left d) in
     d\<lparr>du_left := a', du_to_left := rest, du_to_right := du_to_right d @ emitted (du_left d) a',
       du_left_got := du_left_got d @ reported r, du_faults := du_faults d @ fault_of r\<rparr>)"

datatype ('x, 'y) move = LeftSays 'x | RightSays 'y | LeftReads | RightReads

primrec make_move ::
    "('op \<Rightarrow> ('x, unit) on_conn) \<Rightarrow> ('x, 'p option option) on_conn \<Rightarrow> ('oq \<Rightarrow> ('y, unit) on_conn) \<Rightarrow> ('y, 'q option option) on_conn
     \<Rightarrow> ('op, 'oq) move \<Rightarrow> ('x conn_scheme, 'y conn_scheme, 'p, 'q) duplex \<Rightarrow> ('x conn_scheme, 'y conn_scheme, 'p, 'q) duplex" where
  "make_move say_l round_l say_r round_r (LeftSays x) = left_says (say_l x)"
| "make_move say_l round_l say_r round_r (RightSays y) = (\<lambda>d. mirror (left_says (say_r y) (mirror d)))"
| "make_move say_l round_l say_r round_r LeftReads = left_reads round_l"
| "make_move say_l round_l say_r round_r RightReads = (\<lambda>d. mirror (left_reads round_r (mirror d)))"

primrec said_left :: "('x, 'y) move \<Rightarrow> 'x list" where
  "said_left (LeftSays x) = [x]" | "said_left (RightSays y) = []" | "said_left LeftReads = []" | "said_left RightReads = []"

primrec said_right :: "('x, 'y) move \<Rightarrow> 'y list" where
  "said_right (LeftSays x) = []" | "said_right (RightSays y) = [y]" | "said_right LeftReads = []" | "said_right RightReads = []"

section \<open>A flight of messages\<close>

text \<open>
  The bytes under way are messages the reader at the other end understands; with what it has reported, they
  make up what it was told.
\<close>

definition flight ::
    "('p \<Rightarrow> bool) \<Rightarrow> (message \<Rightarrow> 'p option \<Rightarrow> bool) \<Rightarrow> link_op list \<Rightarrow> 'p list \<Rightarrow> 'x conn_scheme \<Rightarrow> 'y conn_scheme
     \<Rightarrow> u8 list \<Rightarrow> 'p option list \<Rightarrow> bool" where
  "flight noise R us due a b bs got \<longleftrightarrow> (\<exists>w rest. bs = wire w us \<and> lk_writer a = after w us \<and> ops_ok us \<and> at_rest w b
     \<and> understood noise R us rest \<and> None \<notin> set got \<and> concat (map (heeded noise) got) @ rest = due)"

lemma flight_said:
  assumes "flight noise R us due a b bs got" and "lk_writer a' = after (lk_writer a) ops" and "ops_ok ops"
    and "understood noise R ops evs" and "1 \<le> cw_chunk_size (lk_writer a)"
  shows "flight noise R (us @ ops) (due @ evs) a' b (bs @ emitted a a') got"
proof -
  obtain w rest where f: "bs = wire w us" "lk_writer a = after w us" "ops_ok us" "at_rest w b"
    "understood noise R us rest" "None \<notin> set got" "concat (map (heeded noise) got) @ rest = due"
    using assms(1) by (auto simp: flight_def)
  have "emitted a a' = wire (after w us) ops"
    using after_stream[OF assms(3,5)] assms(2) f(2) by (simp add: emitted_def)
  then show ?thesis
    using f assms(2,3) understood_append[OF f(5) assms(4)] unfolding flight_def
    by (intro exI[of _ w] exI[of _ "rest @ evs"]) (simp add: wire_append after_append)
qed

lemma flight_spoken:
  assumes "flight noise R us due a b bs got" and "speaks ops b b'" and "ops_ok ops"
  shows "flight noise R us due a b' bs got"
  using assms speaks_rest by (fastforce simp: flight_def)

lemma flight_start: "at_rest (lk_writer a) b \<Longrightarrow> flight noise R [] [] a b [] []"
  by (simp add: flight_def)

lemma flight_landed: "flight noise R [] due a b bs got \<Longrightarrow> concat (map (heeded noise) got) = due \<and> bs = []"
  by (auto simp: flight_def)

text \<open>What was reported is the beginning of what was told.\<close>

lemma flight_prefix:
  assumes "flight noise R us due a b bs got"
  shows "None \<notin> set got" "prefix (concat (map (heeded noise) got)) due"
  using assms by (auto simp: flight_def)

text \<open>One round at the reading end.\<close>

lemma bytes_of_message:
  assumes "at_rest w s" and "link_op_ok (Send csid msg)"
  shows "write_bytes w csid msg \<noteq> []"
proof
  assume none: "write_bytes w csid msg = []"
  obtain r' where "\<And>tail. receive (s, write_bytes w csid msg @ tail) = (Inr msg, (s\<lparr>lk_reader := r'\<rparr>, tail))"
    using receive_written[of csid msg w s] assms by (auto simp: at_rest_def listening_def)
  from this[of "[]"] show False by (simp add: none receive_def read_nothing)
qed

definition is_ack :: "link_op \<Rightarrow> bool" where
  "is_ack op \<longleftrightarrow> op \<in> range (\<lambda>n. ctl_op (build_ack n))"

lemma acks_ok: "list_all is_ack ops \<Longrightarrow> ops_ok ops"
  by (induction ops) (auto simp: is_ack_def build_ack_def control_message_def csids_ok)

lemma flight_read:
  assumes "flight noise R us due a b bs got" and "us \<noteq> []"
    and react: "\<And>msg r. R msg r \<Longrightarrow> \<exists>ans. reacts view on_wire msg r ans \<and> ops_ok ans \<and> good ans"
    and view: "\<And>c c'. conn.more c' = conn.more c \<Longrightarrow> cn_stream_id c' = cn_stream_id c \<Longrightarrow> view c' = view c"
  shows "\<exists>r b' bs' acks ans. session_round hangup on_sub on_wire (b, bs) = (Inr (map_option Some r), (b', bs'))
    \<and> flight noise R (tl us) due a b' bs' (got @ reported (Inr (map_option Some r)))
    \<and> lk_writer b' = after (lk_writer b) (acks @ ans) \<and> ops_ok (acks @ ans) \<and> list_all is_ack acks \<and> good ans
    \<and> view b' = view b \<and> bs \<noteq> []"
proof -
  obtain w rest where f: "bs = wire w us" "lk_writer a = after w us" "ops_ok us" "at_rest w b"
    "understood noise R us rest" "None \<notin> set got" "concat (map (heeded noise) got) @ rest = due"
    using assms(1) by (auto simp: flight_def)
  obtain csid msg us' where us: "us = Send csid msg # us'"
    using assms(2) f(5) by (cases us; cases "hd us") auto
  obtain r rest' where r: "R msg r" "rest = heeded noise r @ rest'" "understood noise R us' rest'"
    using f(5) us by auto
  obtain ans where ans: "reacts view on_wire msg r ans" "ops_ok ans" "good ans" using react[OF r(1)] by blast
  have ok: "link_op_ok (Send csid msg)" using f(3) us by simp
  have rest: "listening w b" "cn_pending b = []" using f(4) by (simp_all add: at_rest_def)
  let ?w = "write_after w csid msg"
  obtain b1 acks where b1: "\<And>tail. session_round hangup on_sub on_wire (b, write_bytes w csid msg @ tail)
      = st_bind (on_wire msg) (\<lambda>x. st_return (map_option Some x)) (b1, tail)"
    "at_rest ?w b1" "view b1 = view b" "list_all is_ack acks" "lk_writer b1 = after (lk_writer b) acks"
  proof (rule listening_reads[OF rest(1) ok rest(2), of hangup on_sub on_wire], goal_cases)
    case (1 s')
    have "is_ack = (\<lambda>op. op \<in> range (\<lambda>n. ctl_op (build_ack n)))" by (simp add: is_ack_def fun_eq_iff)
    with 1(8) obtain acks where "list_all is_ack acks" "lk_writer s' = after (lk_writer b) acks" by auto
    with 1(1)[OF 1(2)] 1(3,4) view[OF 1(6,7)] show ?case by (simp add: at_rest_def)
  qed
  have "1 \<le> cw_chunk_size (lk_writer b1)" using rest_chunk[OF b1(2)] by simp
  then obtain b' where b': "\<And>bs. on_wire msg (b1, bs) = (Inr r, (b', bs))" "speaks ans b1 b'" "view b' = view b1"
    using ans(1) unfolding reacts_def by blast
  have run: "session_round hangup on_sub on_wire (b, bs) = (Inr (map_option Some r), (b', wire ?w us'))"
    using b1(1)[of "wire ?w us'"] b'(1) by (simp add: f(1) us st_bind_def st_return_def)
  have "at_rest ?w b'" by (rule speaks_rest[OF b1(2) b'(2) ans(2)])
  then have "flight noise R (tl us) due a b' (wire ?w us') (got @ reported (Inr (map_option Some r)))"
    using f r us unfolding flight_def
    by (intro exI[of _ ?w] exI[of _ rest']) (cases r; auto simp: reported_def heeded_def)
  moreover have "bs \<noteq> []" using bytes_of_message[OF f(4) ok] f(1) us by simp
  moreover have "lk_writer b' = after (lk_writer b) (acks @ ans)"
    using b'(2) b1(5) by (simp add: speaks_def after_append)
  ultimately show ?thesis
    using run acks_ok[OF b1(4)] ans b1(3,4) b'(3) by (metis ops_ok_simps(3))
qed

section \<open>One end\<close>

text \<open>
  The invariant: nothing has failed, and both directions are in flight; \<open>to_r\<close> and \<open>to_l\<close> are what the right and the
  left end have been told so far.
\<close>

definition duplex_inv where
  "duplex_inv noise_r R_r noise_l R_l to_r to_l d \<longleftrightarrow> du_faults d = []
     \<and> (\<exists>us. flight noise_r R_r us to_r (du_left d) (du_right d) (du_to_right d) (du_right_got d))
     \<and> (\<exists>us. flight noise_l R_l us to_l (du_right d) (du_left d) (du_to_left d) (du_left_got d))"

lemma inv_mirror: "duplex_inv noise_l R_l noise_r R_r to_l to_r (mirror d) = duplex_inv noise_r R_r noise_l R_l to_r to_l d"
  by (auto simp: duplex_inv_def)

text \<open>
  One end: what it says the other end (\<open>hear\<close>, \<open>noise\<close>) understands, it reacts to what it understands (\<open>ear\<close>),
  and the other end understands its answers and acknowledgements as nothing.
\<close>

locale duplex_end =
  fixes say :: "'op \<Rightarrow> ('x, unit) on_conn"
    and view :: "'x conn_scheme \<Rightarrow> 'k" and step :: "'k \<Rightarrow> 'op \<Rightarrow> 'k"
    and says :: "'k \<Rightarrow> 'op \<Rightarrow> link_op list" and events :: "'k \<Rightarrow> 'op \<Rightarrow> 'q list"
    and fine :: "'op \<Rightarrow> bool" and proper :: "'k \<Rightarrow> bool"
    and noise :: "'q \<Rightarrow> bool" and hear :: "message \<Rightarrow> 'q option \<Rightarrow> bool"
    and ear :: "message \<Rightarrow> 'p option \<Rightarrow> bool" and own_noise :: "'p \<Rightarrow> bool"
    and hangup :: "rtmp_error \<Rightarrow> ('x, unit) on_conn option"
    and on_sub :: "message \<Rightarrow> ('x, 'p option) on_conn" and on_wire :: "message \<Rightarrow> ('x, 'p option) on_conn"
  assumes said: "fine x \<Longrightarrow> proper (view c) \<Longrightarrow> 1 \<le> cw_chunk_size (lk_writer c) \<Longrightarrow>
      \<exists>c'. say x (c, []) = (Inr (), (c', [])) \<and> speaks (says (view c) x) c c' \<and> view c' = step (view c) x"
    and stays: "proper k \<Longrightarrow> proper (step k x)"
    and fits: "fine x \<Longrightarrow> proper k \<Longrightarrow> ops_ok (says k x)"
    and clear: "fine x \<Longrightarrow> proper k \<Longrightarrow> understood noise hear (says k x) (events k x)"
    and acked: "\<exists>r. hear (build_ack n) r \<and> heeded noise r = []"
    and answers: "ear msg q \<Longrightarrow> \<exists>ans. reacts view on_wire msg q ans \<and> ops_ok ans \<and> understood noise hear ans []"
    and seen: "conn.more c' = conn.more c \<Longrightarrow> cn_stream_id c' = cn_stream_id c \<Longrightarrow> view c' = view c"
begin

abbreviation inv :: "'q list \<Rightarrow> 'p list \<Rightarrow> ('x conn_scheme, 'y conn_scheme, 'p, 'q) duplex \<Rightarrow> bool" where
  "inv \<equiv> duplex_inv noise hear own_noise ear"

lemma acks_understood: "list_all is_ack acks \<Longrightarrow> understood noise hear acks []"
  using acked by (fastforce simp: is_ack_def list_all_iff intro!: understood_silent)

lemma saying:
  assumes "inv to_r to_l d" and "fine x" and "proper (view (du_left d))"
  shows "inv (to_r @ events (view (du_left d)) x) to_l (left_says (say x) d)"
    and "view (du_left (left_says (say x) d)) = step (view (du_left d)) x"
    and "du_right (left_says (say x) d) = du_right d"
proof -
  let ?a = "du_left d" and ?ops = "says (view (du_left d)) x"
  obtain us vs where f: "flight noise hear us to_r ?a (du_right d) (du_to_right d) (du_right_got d)"
    "flight own_noise ear vs to_l (du_right d) ?a (du_to_left d) (du_left_got d)" and ok: "du_faults d = []"
    using assms(1) by (auto simp: duplex_inv_def)
  have chunk: "1 \<le> cw_chunk_size (lk_writer ?a)" using f(2) rest_chunk by (auto simp: flight_def)
  obtain a' where a': "say x (?a, []) = (Inr (), (a', []))" "speaks ?ops ?a a'" "view a' = step (view ?a) x"
    using said[OF assms(2,3) chunk] by blast
  note fits = fits[OF assms(2,3)]
  have "lk_writer a' = after (lk_writer ?a) ?ops" using a'(2) by (simp add: speaks_def)
  from flight_said[OF f(1) this fits clear[OF assms(2,3)] chunk] flight_spoken[OF f(2) a'(2) fits]
  show "inv (to_r @ events (view ?a) x) to_l (left_says (say x) d)"
    using ok by (auto simp: duplex_inv_def left_says_def a'(1) fault_of_def)
  show "view (du_left (left_says (say x) d)) = step (view ?a) x" "du_right (left_says (say x) d) = du_right d"
    using a' by (simp_all add: left_says_def)
qed

abbreviation round :: "('x, 'p option option) on_conn" where
  "round \<equiv> session_round hangup on_sub on_wire"

lemma reading:
  assumes "flight noise hear us to_r (du_left d) (du_right d) (du_to_right d) (du_right_got d)"
    and "flight own_noise ear vs to_l (du_right d) (du_left d) (du_to_left d) (du_left_got d)"
    and "vs \<noteq> []" and "du_faults d = []"
  defines "e \<equiv> left_reads round d"
  shows "\<exists>us'. flight noise hear us' to_r (du_left e) (du_right e) (du_to_right e) (du_right_got e)"
    and "flight own_noise ear (tl vs) to_l (du_right e) (du_left e) (du_to_left e) (du_left_got e)"
    and "du_faults e = []" and "view (du_left e) = view (du_left d)"
    and "du_right e = du_right d" and "du_right_got e = du_right_got d"
proof -
  let ?a = "du_left d"
  obtain r a' bs acks ans where r: "round (?a, du_to_left d) = (Inr (map_option Some r), (a', bs))"
    "flight own_noise ear (tl vs) to_l (du_right d) a' bs (du_left_got d @ reported (Inr (map_option Some r)))"
    "lk_writer a' = after (lk_writer ?a) (acks @ ans)" "ops_ok (acks @ ans)" "list_all is_ack acks"
    "understood noise hear ans []" "view a' = view ?a" "du_to_left d \<noteq> []"
    using flight_read[OF assms(2,3), of view on_wire "\<lambda>ans. understood noise hear ans []" hangup on_sub] answers seen by blast
  have chunk: "1 \<le> cw_chunk_size (lk_writer ?a)" using assms(2) rest_chunk by (auto simp: flight_def)
  have e: "e = d\<lparr>du_left := a', du_to_left := bs, du_to_right := du_to_right d @ emitted ?a a',
      du_left_got := du_left_got d @ reported (Inr (map_option Some r)), du_faults := du_faults d\<rparr>"
    using r(1,8) by (simp add: e_def left_reads_def fault_of_def)
  have "understood noise hear (acks @ ans) []" using understood_append[OF acks_understood[OF r(5)] r(6)] by simp
  from flight_said[OF assms(1) r(3,4) this chunk]
  show "\<exists>us'. flight noise hear us' to_r (du_left e) (du_right e) (du_to_right e) (du_right_got e)"
    by (auto simp: e)
  show "flight own_noise ear (tl vs) to_l (du_right e) (du_left e) (du_to_left e) (du_left_got e)"
    using r(2) by (simp add: e)
  show "du_faults e = []" "view (du_left e) = view (du_left d)" "du_right e = du_right d" "du_right_got e = du_right_got d"
    using r(7) assms(4) by (simp_all add: e)
qed

lemma reading_inv:
  assumes "inv to_r to_l d"
  shows "inv to_r to_l (left_reads round d)" and "view (du_left (left_reads round d)) = view (du_left d)"
    and "du_right (left_reads round d) = du_right d"
proof -
  obtain us vs where f: "flight noise hear us to_r (du_left d) (du_right d) (du_to_right d) (du_right_got d)"
    "flight own_noise ear vs to_l (du_right d) (du_left d) (du_to_left d) (du_left_got d)" and ok: "du_faults d = []"
    using assms by (auto simp: duplex_inv_def)
  have idle: "left_reads round d = d" if "vs = []"
    using flight_landed[OF f(2)[unfolded that]] by (simp add: left_reads_def)
  show "inv to_r to_l (left_reads round d)" "view (du_left (left_reads round d)) = view (du_left d)"
    "du_right (left_reads round d) = du_right d"
    using reading[OF f _ ok] idle assms by (cases "vs = []"; auto simp: duplex_inv_def)+
qed

text \<open>Reading on, an end gets all it has been told.\<close>

lemma reads_all:
  assumes "inv to_r to_l d"
  shows "\<exists>n. let e = (left_reads round ^^ n) d in inv to_r to_l e
    \<and> concat (map (heeded own_noise) (du_left_got e)) = to_l \<and> du_right_got e = du_right_got d"
proof -
  obtain us vs where "flight noise hear us to_r (du_left d) (du_right d) (du_to_right d) (du_right_got d)"
    "flight own_noise ear vs to_l (du_right d) (du_left d) (du_to_left d) (du_left_got d)" "du_faults d = []"
    using assms by (auto simp: duplex_inv_def)
  then show ?thesis
  proof (induction vs arbitrary: us d)
    case Nil
    then show ?case
      using flight_landed[OF Nil(2)] by (intro exI[of _ 0]) (auto simp: duplex_inv_def)
  next
    case (Cons v vs)
    note read = reading[OF Cons.prems(1,2) _ Cons.prems(3), simplified]
    obtain us' where us': "flight noise hear us' to_r (du_left (left_reads round d)) (du_right (left_reads round d))
        (du_to_right (left_reads round d)) (du_right_got (left_reads round d))"
      using read(1) by blast
    obtain n where "let e = (left_reads round ^^ n) (left_reads round d) in inv to_r to_l e
        \<and> concat (map (heeded own_noise) (du_left_got e)) = to_l \<and> du_right_got e = du_right_got d"
      using Cons.IH[OF us' read(2,3)] read(6) by auto
    then show ?case by (intro exI[of _ "Suc n"]) (simp add: funpow_Suc_right del: funpow.simps)
  qed
qed

end

text \<open>What was got, without what does not count.\<close>

lemma got_heeded: "None \<notin> set got \<Longrightarrow> filter (\<lambda>x. x \<notin> Some ` Collect noise) got = map Some (concat (map (heeded noise) got))"
proof (induction got)
  case (Cons a got)
  then show ?case by (cases a) (auto simp: heeded_def)
qed simp

lemma got_all: "None \<notin> set got \<Longrightarrow> got = map Some (concat (map (heeded (\<lambda>_. False)) got))"
  using got_heeded[of got "\<lambda>_. False"] by simp

lemma got_prefix:
  assumes "None \<notin> set got" and "prefix (concat (map (heeded noise) got)) ys"
  shows "\<exists>n. filter (\<lambda>x. x \<notin> Some ` Collect noise) got = map Some (take n ys)"
  using got_heeded[OF assms(1), of noise] assms(2) by (auto simp: prefix_def intro!: exI[of _ "length (concat (map (heeded noise) got))"])

section \<open>Both ends\<close>

lemma told_append: "told events step k (xs @ ys) = told events step k xs @ told events step (foldl step k xs) ys"
  by (induction xs arbitrary: k) simp_all

locale two_way =
  left: duplex_end say_l view_l step_l says_l events_l fine_l proper_l noise_r ear_r ear_l noise_l hangup_l sub_l wire_l
  + right: duplex_end say_r view_r step_r says_r events_r fine_r proper_r noise_l ear_l ear_r noise_r hangup_r sub_r wire_r
  for say_l :: "'op \<Rightarrow> ('x, unit) on_conn" and view_l :: "'x conn_scheme \<Rightarrow> 'k" and step_l says_l
    and events_l :: "'k \<Rightarrow> 'op \<Rightarrow> 'q list" and fine_l proper_l noise_r ear_r ear_l
    and noise_l :: "'p \<Rightarrow> bool" and hangup_l sub_l wire_l
    and say_r :: "'oq \<Rightarrow> ('y, unit) on_conn" and view_r :: "'y conn_scheme \<Rightarrow> 'j" and step_r says_r
    and events_r :: "'j \<Rightarrow> 'oq \<Rightarrow> 'p list" and fine_r proper_r hangup_r sub_r wire_r
begin

abbreviation run where
  "run \<equiv> fold (make_move say_l left.round say_r right.round)"

definition move_ok :: "('op, 'oq) move \<Rightarrow> bool" where
  "move_ok m \<longleftrightarrow> list_all fine_l (said_left m) \<and> list_all fine_r (said_right m)"

text \<open>What the right and the left end have been told by a schedule.\<close>

definition to_right :: "'k \<Rightarrow> ('op, 'oq) move list \<Rightarrow> 'q list" where
  "to_right k ms = told events_l step_l k (concat (map said_left ms))"

definition to_left :: "'j \<Rightarrow> ('op, 'oq) move list \<Rightarrow> 'p list" where
  "to_left j ms = told events_r step_r j (concat (map said_right ms))"

lemma keeps_proper: "proper_l k \<Longrightarrow> proper_l (foldl step_l k xs)" "proper_r j \<Longrightarrow> proper_r (foldl step_r j ys)"
proof -
  show "proper_l k \<Longrightarrow> proper_l (foldl step_l k xs)" by (induction xs arbitrary: k) (simp_all add: left.stays)
  show "proper_r j \<Longrightarrow> proper_r (foldl step_r j ys)" by (induction ys arbitrary: j) (simp_all add: right.stays)
qed

lemma run_inv:
  assumes "left.inv ps qs d" and "proper_l (view_l (du_left d))" and "proper_r (view_r (du_right d))"
    and "list_all move_ok ms"
  shows "left.inv (ps @ to_right (view_l (du_left d)) ms) (qs @ to_left (view_r (du_right d)) ms) (run ms d)
    \<and> view_l (du_left (run ms d)) = foldl step_l (view_l (du_left d)) (concat (map said_left ms))
    \<and> view_r (du_right (run ms d)) = foldl step_r (view_r (du_right d)) (concat (map said_right ms))"
  using assms(4)
proof (induction ms rule: rev_induct)
  case Nil
  then show ?case using assms(1) by (simp add: to_right_def to_left_def)
next
  case (snoc m ms)
  let ?k = "view_l (du_left d)" and ?j = "view_r (du_right d)" and ?d = "run ms d"
  have ih: "left.inv (ps @ to_right ?k ms) (qs @ to_left ?j ms) ?d"
    "view_l (du_left ?d) = foldl step_l ?k (concat (map said_left ms))"
    "view_r (du_right ?d) = foldl step_r ?j (concat (map said_right ms))"
    using snoc by simp_all
  have ok: "list_all fine_l (said_left m)" "list_all fine_r (said_right m)" using snoc.prems by (simp_all add: move_ok_def)
  have proper: "proper_l (view_l (du_left ?d))" "proper_r (view_r (du_right ?d))"
    using keeps_proper assms(2,3) ih by simp_all
  have mirrored: "right.inv (qs @ to_left ?j ms) (ps @ to_right ?k ms) (mirror ?d)" using ih(1) by (simp add: inv_mirror)
  show ?case
  proof (cases m)
    case (LeftSays x)
    then show ?thesis using left.saying[OF ih(1) _ proper(1), of x] ok ih
      by (simp add: to_right_def to_left_def told_append)
  next
    case (RightSays y)
    then show ?thesis using right.saying[OF mirrored _, of y] proper(2) ok ih
      by (simp add: to_right_def to_left_def told_append inv_mirror)
  next
    case LeftReads
    then show ?thesis using left.reading_inv[OF ih(1)] ih by (simp add: to_right_def to_left_def)
  next
    case RightReads
    then show ?thesis using right.reading_inv[OF mirrored] ih
      by (simp add: to_right_def to_left_def inv_mirror)
  qed
qed

lemma run_reads: "run (replicate n LeftReads) d = (left_reads left.round ^^ n) d"
  "run (replicate n RightReads) d = mirror ((left_reads right.round ^^ n) (mirror d))"
  by (induction n arbitrary: d) (simp_all add: funpow_swap1)

lemma inv_got:
  assumes "left.inv ps qs d"
  shows "du_faults d = []" "None \<notin> set (du_left_got d)" "None \<notin> set (du_right_got d)"
    "prefix (concat (map (heeded noise_l) (du_left_got d))) qs" "prefix (concat (map (heeded noise_r) (du_right_got d))) ps"
  using assms flight_prefix by (fastforce simp: duplex_inv_def)+

text \<open>Whatever is under way, the two ends get it all when they read on.\<close>

lemma reads_on:
  assumes "left.inv ps qs d"
  shows "\<exists>i j e. run (replicate i LeftReads @ replicate j RightReads) d = e \<and> left.inv ps qs e
    \<and> concat (map (heeded noise_l) (du_left_got e)) = qs \<and> concat (map (heeded noise_r) (du_right_got e)) = ps"
proof -
  obtain i where i: "left.inv ps qs ((left_reads left.round ^^ i) d)"
    "concat (map (heeded noise_l) (du_left_got ((left_reads left.round ^^ i) d))) = qs"
    using left.reads_all[OF assms] by (auto simp: Let_def)
  let ?e = "(left_reads left.round ^^ i) d"
  have "right.inv qs ps (mirror ?e)" using i(1) by (simp add: inv_mirror)
  from right.reads_all[OF this] obtain j where j:
    "right.inv qs ps ((left_reads right.round ^^ j) (mirror ?e))"
    "concat (map (heeded noise_r) (du_left_got ((left_reads right.round ^^ j) (mirror ?e)))) = ps"
    "du_right_got ((left_reads right.round ^^ j) (mirror ?e)) = du_left_got ?e"
    by (auto simp: Let_def)
  have "left.inv ps qs (mirror ((left_reads right.round ^^ j) (mirror ?e)))" using j(1) by (simp add: inv_mirror)
  then show ?thesis
    using i j unfolding fold_append comp_apply run_reads
    by (intro exI[of _ i] exI[of _ j]) simp
qed

text \<open>A schedule, and the two ends reading on after it.\<close>

lemma schedule:
  assumes "left.inv ps qs d0" and "proper_l (view_l (du_left d0))" and "proper_r (view_r (du_right d0))"
    and "list_all move_ok ms" and "ps @ to_right (view_l (du_left d0)) ms = said" and "qs @ to_left (view_r (du_right d0)) ms = heard"
  shows "\<exists>n m i j e. du_faults (run ms d0) = []
    \<and> filter (\<lambda>x. x \<notin> Some ` Collect noise_l) (du_left_got (run ms d0)) = map Some (take n heard)
    \<and> filter (\<lambda>x. x \<notin> Some ` Collect noise_r) (du_right_got (run ms d0)) = map Some (take m said)
    \<and> run (replicate i LeftReads @ replicate j RightReads) (run ms d0) = e \<and> du_faults e = []
    \<and> filter (\<lambda>x. x \<notin> Some ` Collect noise_l) (du_left_got e) = map Some heard
    \<and> filter (\<lambda>x. x \<notin> Some ` Collect noise_r) (du_right_got e) = map Some said"
proof -
  have inv: "left.inv said heard (run ms d0)" using run_inv[OF assms(1-4)] assms(5,6) by simp
  then obtain i j e where e: "run (replicate i LeftReads @ replicate j RightReads) (run ms d0) = e" "left.inv said heard e"
    "concat (map (heeded noise_l) (du_left_got e)) = heard" "concat (map (heeded noise_r) (du_right_got e)) = said"
    using reads_on by blast
  note got = inv_got[OF inv] and all = inv_got[OF e(2)]
  obtain n m where "filter (\<lambda>x. x \<notin> Some ` Collect noise_l) (du_left_got (run ms d0)) = map Some (take n heard)"
    "filter (\<lambda>x. x \<notin> Some ` Collect noise_r) (du_right_got (run ms d0)) = map Some (take m said)"
    using got_prefix[OF got(2,4)] got_prefix[OF got(3,5)] by blast
  then show ?thesis
    using got(1) e(1) all(1) got_heeded[OF all(2), of noise_l] got_heeded[OF all(3), of noise_r] unfolding e(3,4) by blast
qed

end

end
