(* ===== verification/Controls.thy ===== *)
theory Controls
  imports Playback
begin

text \<open>
  The other direction of a playing session: what a player asks for while it plays, as \<open>next_event\<close> of the
  server's \<open>PlaySession\<close> reports it.
\<close>

section \<open>What a player asks for\<close>

datatype control =
    KPause f64
  | KResume f64
  | KSeek f64
  | KAudio bool
  | KVideo bool
  | KPlay rstring "f64 option" "f64 option" "bool option"
  | KPlay2 amf0_value
  | KBuffer u32
  | KCall rstring amf0_value "amf0_value list" bool
  | KResult f64 amf0_value amf0_value
  | KError f64 amf0_value amf0_value
  | KObject "amf0_value shared_object"

primrec perform :: "control \<Rightarrow> (rtmp_player \<times> u8 list, unit) st" where
  "perform (KPause ms) = player_pause ms"
| "perform (KResume ms) = player_resume ms"
| "perform (KSeek ms) = player_seek ms"
| "perform (KAudio flag) = set_receive_audio flag"
| "perform (KVideo flag) = set_receive_video flag"
| "perform (KPlay name start duration reset) = player_play name start duration reset"
| "perform (KPlay2 params) = player_play2 params"
| "perform (KBuffer ms) = set_buffer_length ms"
| "perform (KCall procedure obj arguments expects) =
     st_bind (player_call procedure obj arguments expects) (\<lambda>_. st_return ())"
| "perform (KResult tx obj response) = reply_call_result tx obj response"
| "perform (KError tx obj response) = reply_call_error tx obj response"
| "perform (KObject so) = send_shared_object so"

text \<open>The transaction id a call is given: \<open>n\<close> counts the calls that expect an answer, from 10.\<close>

fun call_tx :: "nat \<Rightarrow> control \<Rightarrow> f64" where
  "call_tx n (KCall _ _ _ True) = f64_of_nat n"
| "call_tx n _ = 0"

fun next_call :: "nat \<Rightarrow> control \<Rightarrow> nat" where
  "next_call n (KCall _ _ _ True) = tx_succ n"
| "next_call n _ = n"

primrec as_command :: "control \<Rightarrow> netstream_command option" where
  "as_command (KPause ms) = Some (NsPause True ms)"
| "as_command (KResume ms) = Some (NsPause False ms)"
| "as_command (KSeek ms) = Some (NsSeek ms)"
| "as_command (KAudio flag) = Some (NsReceiveAudio flag)"
| "as_command (KVideo flag) = Some (NsReceiveVideo flag)"
| "as_command (KPlay name start duration reset) = Some (NsPlay name start duration reset)"
| "as_command (KPlay2 params) = Some (NsPlay2 params)"
| "as_command (KBuffer ms) = None"
| "as_command (KCall procedure obj arguments expects) = None"
| "as_command (KResult tx obj response) = None"
| "as_command (KError tx obj response) = None"
| "as_command (KObject so) = None"

definition called :: "rstring \<Rightarrow> f64 \<Rightarrow> amf0_value \<Rightarrow> amf0_value list \<Rightarrow> call_command" where
  "called procedure tx obj arguments = \<lparr>call_procedure = procedure, call_transaction_id = tx,
     call_command_object = obj, call_arguments = arguments\<rparr>"

lemma called_message: "build_call procedure tx obj arguments = call_to_message (called procedure tx obj arguments)"
  by (simp add: called_def call_to_message_def)

definition control_ops :: "u32 \<Rightarrow> f64 \<Rightarrow> control \<Rightarrow> link_op list" where
  "control_ops sid tx k = (case as_command k of Some c \<Rightarrow> [cmd_op (ns_to_message c sid)] | None \<Rightarrow>
     (case k of KBuffer ms \<Rightarrow> [ctl_op (build_user_control_set_buffer_length sid ms)]
      | KCall procedure obj arguments _ \<Rightarrow> [cmd_op (call_to_message (called procedure tx obj arguments))]
      | KResult tx obj response \<Rightarrow> [cmd_op (build_call_result tx obj response)]
      | KError tx obj response \<Rightarrow> [cmd_op (build_call_error tx obj response)]
      | KObject so \<Rightarrow> (case to_message_amf0 so 0 of Inl e \<Rightarrow> [] | Inr m \<Rightarrow> [cmd_op m])))"

text \<open>What the server is told.\<close>

definition control_event :: "f64 \<Rightarrow> control \<Rightarrow> play_event" where
  "control_event tx k = (case as_command k of Some c \<Rightarrow> PeCommand (ns_explicit c) | None \<Rightarrow>
     (case k of KBuffer ms \<Rightarrow> PeSetBufferLength ms
      | KCall procedure obj arguments _ \<Rightarrow> PeCall (called procedure tx obj arguments)
      | KResult tx obj response \<Rightarrow> PeCallReply True tx (reply_values ''_result'' tx obj response)
      | KError tx obj response \<Rightarrow> PeCallReply False tx (reply_values ''_error'' tx obj response)
      | KObject so \<Rightarrow> PeSharedObject so))"

definition control_ok :: "control \<Rightarrow> bool" where
  "control_ok k \<longleftrightarrow> control_ops 0 0 k \<noteq> [] \<and> ops_ok (control_ops 0 0 k)
     \<and> (case as_command k of Some c \<Rightarrow> ns_fits c | None \<Rightarrow>
     (case k of KCall procedure obj arguments _ \<Rightarrow> call_ok (called procedure 0 obj arguments)
      | KResult tx obj response \<Rightarrow> amf0_fits 0 obj \<and> amf0_fits 0 response
      | KError tx obj response \<Rightarrow> amf0_fits 0 obj \<and> amf0_fits 0 response
      | KObject so \<Rightarrow> so_ok (amf0_fits 0) so
      | _ \<Rightarrow> True))"

lemma call_ok_called: "call_ok (called p tx v vs) \<longleftrightarrow> call_ok (called p 0 v vs)"
  by (simp add: call_ok_def called_def)

lemma control_ops_ok: "control_ok k \<Longrightarrow> ops_ok (control_ops sid tx k)"
  by (cases k) (simp_all add: control_ok_def control_ops_def csids_ok ns_to_message_def call_to_message_def called_def build_call_def
      encode_command_def control_type)

lemma call_tx_simps: "call_tx n (KCall p v vs e) = (if e then f64_of_nat n else 0)"
  "next_call n (KCall p v vs e) = (if e then tx_succ n else n)"
  by (cases e; simp)+

definition asked_next :: "u32 \<times> nat \<Rightarrow> control \<Rightarrow> u32 \<times> nat" where
  "asked_next v k = (fst v, next_call (snd v) k)"

definition asking_ops :: "u32 \<times> nat \<Rightarrow> control \<Rightarrow> link_op list" where
  "asking_ops v k = control_ops (fst v) (call_tx (snd v) k) k"

definition asking_event :: "u32 \<times> nat \<Rightarrow> control \<Rightarrow> play_event" where
  "asking_event v k = control_event (call_tx (snd v) k) k"

lemma perform_run:
  assumes "control_ok k" and "1 \<le> cw_chunk_size (lk_writer p)"
  shows "\<exists>p'. perform k (p, bs) = (Inr (), (p', bs)) \<and> speaks (asking_ops (asking p) k) p p'
    \<and> asking p' = asked_next (asking p) k"
proof (cases k)
  case (KCall procedure obj arguments expects)
  then show ?thesis using assms(2)
    by (simp add: speaks_def player_call_def st_bind_def st_get_user_def modify_def transmit_run csids_ok st_return_def called_message
        asking_ops_def asking_def asked_next_def control_ops_def call_tx_simps Let_def)
next
  case (KObject so)
  then obtain m where "to_message_amf0 so 0 = Inr m"
    using assms(1) by (auto simp: control_ok_def control_ops_def split: sum.splits)
  then show ?thesis using assms(2) KObject
    by (simp add: speaks_def send_shared_object_def st_bind_def transmit_run csids_ok asking_ops_def asking_def asked_next_def control_ops_def)
qed (use assms(2) in \<open>simp_all add: speaks_def player_pause_def player_resume_def player_seek_def set_receive_audio_def
      set_receive_video_def player_play_def player_play2_def set_buffer_length_def send_netstream_def with_stream_id_def
      reply_call_result_def reply_call_error_def
      st_bind_def st_get_user_def modify_def transmit_run csids_ok asking_ops_def asking_def asked_next_def control_ops_def\<close>)

section \<open>What the server makes of it\<close>

lemma not_teardown: "name \<notin> lit ` set names \<Longrightarrow> is_teardown names (A0String name # vs) = False"
  by (auto simp: is_teardown_def value_defs)

lemma event_command:
  assumes "msg_type_id msg = MSG_COMMAND_AMF0" and "amf0_decode_all fmt (msg_payload msg) = Inr vs"
  shows "handle_event_message fmt msg s = classify_command_values vs s"
  using assms by (cases s) (simp add: handle_event_message_def is_command_def command_values_def msg_types st_bind_def
      st_return_def)

lemma command_names: "command_name c \<notin> lit ` set [''closeStream'', ''deleteStream'', ''close'']"
  by (cases c) (auto simp: command_name_def)

lemma ns_event:
  assumes "ns_fits c"
  shows "handle_event_message fmt (ns_to_message c sid) s = (Inr (Some (PeCommand (ns_explicit c))), s)"
proof -
  have fits: "long_ok (command_name c)" by (cases c) (simp_all add: command_name_def lit_ok)
  have "amf0_decode_all fmt (msg_payload (ns_to_message c sid))
      = Inr (A0String (command_name c) # A0Number 0 # A0Null # ns_args c)"
    using command_decodes[OF fits _ ns_args_fits[OF assms], of A0Null fmt 0]
    by (simp add: ns_to_message_def command_message_def MAX_DECODE_DEPTH_def)
  moreover have "msg_type_id (ns_to_message c sid) = MSG_COMMAND_AMF0"
    by (simp add: ns_to_message_def command_message_def)
  ultimately show ?thesis
    using command_names[of c] ns_parse_args[of c]
    by (simp add: event_command classify_command_values_def not_teardown classify_values_def st_return_def)
qed

lemma no_command: "call_ok c \<Longrightarrow> ns_parse (A0String (call_procedure c) # vs) = Inr None"
  using ns_parse_other[of "A0String (call_procedure c) # vs"] ns_names_reserved[of "call_procedure c"]
  by (auto simp: value_defs call_ok_def)

lemma call_event:
  assumes "call_ok c"
  shows "handle_event_message fmt (call_to_message c) s = (Inr (Some (PeCall c)), s)"
  using assms
  by (simp add: event_command[OF call_types(1) call_decodes[OF assms]] classify_command_values_def
      not_teardown[OF call_names(4)] classify_values_def no_command call_names call_parsed st_return_def value_defs call_ok_def)

lemma reply_no_command: "ns_parse (reply_values ''_result'' tx obj response) = Inr None"
  "ns_parse (reply_values ''_error'' tx obj response) = Inr None"
  by (rule ns_parse_other; auto simp: reply_values_def value_defs ns_names_def)+

lemma reply_event:
  assumes "amf0_fits 0 obj" "amf0_fits 0 response"
  shows "handle_event_message fmt (build_call_result tx obj response) s
      = (Inr (Some (PeCallReply True tx (reply_values ''_result'' tx obj response))), s)"
    "handle_event_message fmt (build_call_error tx obj response) s
      = (Inr (Some (PeCallReply False tx (reply_values ''_error'' tx obj response))), s)"
  by (simp_all add: event_command[OF call_types(2) reply_decodes(1)[OF assms]] event_command[OF call_types(3) reply_decodes(2)[OF assms]]
      classify_command_values_def is_teardown_def classify_values_def reply_no_command)
    (simp_all add: reply_values_def st_return_def value_defs unwrap_or_def)

lemma object_event:
  assumes "so_ok (amf0_fits 0) so" "to_message_amf0 so 0 = Inr m"
  shows "handle_event_message fmt m s = (Inr (Some (PeSharedObject so)), s)"
  using object_parses[OF assms]
  by (cases s) (simp add: handle_event_message_def is_command_def is_shared_object_def msg_types MSG_SHARED_OBJECT_AMF0_def
      st_bind_def st_return_def)

lemma control_answered:
  assumes "control_ok k" and "control_ops sid tx k = [Send csid msg]"
  shows "handle_event_message fmt msg s = (Inr (Some (control_event tx k)), s)"
proof (cases "as_command k")
  case (Some c)
  then show ?thesis using assms ns_event[of c]
    by (cases s) (auto simp: control_ok_def control_ops_def control_event_def)
next
  case None
  show ?thesis
  proof (cases k)
    case (KBuffer ms)
    then show ?thesis using assms
      by (cases s) (auto simp: control_ops_def control_event_def handle_event_message_def is_command_def is_shared_object_def
          control_type msg_types handle_user_control_def control_parses st_bind_def st_return_def)
  next
    case (KCall procedure obj arguments expects)
    then have "call_ok (called procedure tx obj arguments)"
      using assms(1) call_ok_called[of procedure tx] by (simp add: control_ok_def)
    from call_event[OF this] show ?thesis using assms(2) KCall by (cases s) (auto simp: control_ops_def control_event_def)
  next
    case (KObject so)
    then show ?thesis using assms object_event[of so msg]
      by (cases s) (auto simp: control_ok_def control_ops_def control_event_def split: sum.splits)
  qed (use assms None reply_event[where s = s] in \<open>auto simp: control_ok_def control_ops_def control_event_def\<close>)
qed

text \<open>What the session understands: the messages it reports without an answer.\<close>

definition playing :: "play_session \<Rightarrow> u32 \<times> rstring" where
  "playing s = (cn_stream_id s, ps_stream_name s)"

definition session_ear :: "(f64 \<Rightarrow> rstring) \<Rightarrow> message \<Rightarrow> play_event option \<Rightarrow> bool" where
  "session_ear fmt msg q \<longleftrightarrow> reacts playing (handle_event_message fmt) msg q []"

lemma control_understood:
  assumes "control_ok k"
  shows "understood (\<lambda>_. False) (session_ear fmt) (asking_ops v k) [asking_event v k]"
proof -
  obtain csid msg where op: "asking_ops v k = [Send csid msg]"
    using assms by (cases k) (auto simp: asking_ops_def control_ops_def control_ok_def split: sum.splits)
  from control_answered[OF assms op[unfolded asking_ops_def]]
  have "session_ear fmt msg (Some (asking_event v k))" by (simp add: session_ear_def asking_event_def reacts_still)
  then show ?thesis by (auto simp: op heeded_all)
qed

lemma control_reported:
  assumes "control_ok k" and "at_rest w s"
  shows "hears (next_event fmt) w (asking_ops v k) s [asking_event v k]"
  by (rule understood_heard[OF control_understood[OF assms(1)] _ assms(2) next_event_def])
    (use control_ops_ok[OF assms(1)] in \<open>auto simp: asking_ops_def session_ear_def\<close>)

interpretation controls: channel perform asking asked_next asking_ops "next_event fmt"
    "\<lambda>v k. [asking_event v k]" control_ok "\<lambda>_. True" for fmt
  by unfold_locales (use perform_run control_ops_ok control_reported in \<open>auto simp: asking_ops_def\<close>)

abbreviation told_controls :: "u32 \<times> nat \<Rightarrow> control list \<Rightarrow> play_event list" where
  "told_controls \<equiv> told (\<lambda>v k. [asking_event v k]) asked_next"

section \<open>Closing\<close>

lemma in_order_last: "in_order ps x = (Inr (), y) \<Longrightarrow> q y = (Inr (), z) \<Longrightarrow> in_order (ps @ [q]) x = (Inr (), z)"
  by (induction ps arbitrary: x) (auto simp: st_bind_def st_return_def split: prod.splits sum.splits)

definition delete_stream :: "u32 \<Rightarrow> message" where
  "delete_stream sid = command_message sid (encode_command (lit ''deleteStream'') 0 A0Null [A0Number (f64_of_u32 sid)])"

lemma delete_stream_small: "length (msg_payload (delete_stream sid)) < 2 ^ 24"
  by (simp add: delete_stream_def encode_command_def utf8_short_def)

lemma close_run:
  assumes "1 \<le> cw_chunk_size (lk_writer p)"
  shows "player_close (p, bs) = (Inr (), (p\<lparr>lk_writer := write_after (lk_writer p) CSID_COMMAND (delete_stream (cn_stream_id p))\<rparr>, bs))"
  using assms by (simp add: player_close_def attempt_def st_bind_def st_get_user_def transmit_run csids_ok delete_stream_def)

lemma round_ended: "cn_ended c \<Longrightarrow> session_round h f g (c, bs) = (Inr (Some None), (c, bs))"
  by (simp add: session_round_def)

lemma close_heard:
  assumes "at_rest w s"
  shows "\<exists>s'. next_event fmt (s, write_bytes w CSID_COMMAND (delete_stream sid)) = Some (Inr None, s') \<and> snd s' = [] \<and> cn_ended (fst s')"
proof -
  have ok: "link_op_ok (Send CSID_COMMAND (delete_stream sid))" using delete_stream_small by (simp add: csids_ok)
  let ?h = "handle_event_message fmt" and ?vs = "[A0String (lit ''deleteStream''), A0Number 0, A0Null, A0Number (f64_of_u32 sid)]"
  have rest: "listening w s" "cn_pending s = []" using assms by (simp_all add: at_rest_def)
  obtain s1 where s1: "\<And>tail. session_round latching_hangup ?h ?h (s, write_bytes w CSID_COMMAND (delete_stream sid) @ tail)
      = st_bind (?h (delete_stream sid)) (\<lambda>x. st_return (map_option Some x)) (s1, tail)"
    by (rule listening_reads[OF rest(1) ok rest(2), of latching_hangup ?h ?h]) blast
  have "amf0_decode_all fmt (msg_payload (delete_stream sid)) = Inr ?vs"
    using command_decodes[of "lit ''deleteStream''" A0Null "[A0Number (f64_of_u32 sid)]" fmt 0]
    by (simp add: delete_stream_def command_message_def lit_ok MAX_DECODE_DEPTH_def)
  moreover have "msg_type_id (delete_stream sid) = MSG_COMMAND_AMF0" by (simp add: delete_stream_def command_message_def)
  ultimately have "?h (delete_stream sid) (s1, []) = (Inr None, (s1\<lparr>cn_ended := True\<rparr>, []))"
    by (simp add: event_command classify_command_values_def is_teardown_def value_defs latch_ended_def modify_def
        st_bind_def st_return_def)
  then show ?thesis
    using s1[of "[]"]
    by (simp add: next_event_def pump.simps[of _ "(s, write_bytes w CSID_COMMAND (delete_stream sid))"]
        pump.simps[of _ "(s1\<lparr>cn_ended := True\<rparr>, [])"] round_ended st_bind_def st_return_def)
qed

text \<open>
  C7. What a player asks for reaches the server.  On a session established by \<open>connect_with_options\<close> and
  \<open>accept\<close>, every list of the player's calls (pause, resume, seek, the two receive switches, play, play2, buffer
  length, remote calls, with a transaction id of their own when an answer is expected, replies to calls,
  shared objects) is reported by
  \<open>next_event\<close>, one event each in the order of the calls, a \<open>play\<close> with the defaults of the specification
  for the arguments left out; and closing the player ends the session, with nothing left unread.  (The doc of
  \<open>next_event\<close> names the stream controls and buffer lengths only.)
\<close>

theorem player_controls_arrive:
  assumes "parse_rtmp_url url = Inr u" and "play_fits u opts scaps"
    and "digest_clear (po_digest_handshake opts) t1 t2 t3 t4" and "list_all control_ok ks"
  shows "\<exists>player player' session session' l ng ng' heard sent.
      connect_with_options fmt url opts t1 t2 heard = (Inr player, (l, []))
    \<and> in_order (map perform ks @ [player_close]) (player, []) = (Inr (), (player', []))
    \<and> drive_until_request fmt scaps t3 t4 (cw_stream (lk_writer player'))
        = (Inr (ReqPlay (play_asked u opts 1)), (ng, sent))
    \<and> (if recorded then play_accept_recorded else play_accept) (play_asked u opts 1) (ng, sent) = (Inr session, (ng', sent))
    \<and> cw_stream (lk_writer session) = heard
    \<and> calls (next_event fmt) (length ks + 1) (session, sent)
        = Some (map (\<lambda>e. Inr (Some e)) (told_controls (1, 10) ks) @ [Inr None], (session', []))
    \<and> cn_ended session'"
proof -
  obtain player session l ng ng' heard where est:
    "\<And>more. connect_with_options fmt url opts t1 t2 (heard @ more) = (Inr player, (l, more))"
    "\<And>more. drive_until_request fmt scaps t3 t4 (cw_stream (lk_writer player) @ more) = (Inr (ReqPlay (play_asked u opts 1)), (ng, more))"
    "\<And>more. accept_mode recorded (play_asked u opts 1) (ng, more) = (Inr session, (ng', more))"
    "cw_stream (lk_writer session) = heard" "pp_next_tx player = 10"
    "at_rest (lk_writer player) session" "cn_stream_id player = 1"
    using playing_established[OF assms(1-3), of fmt recorded] by metis
  have "1 \<le> cw_chunk_size (lk_writer player)"
    using est(6) linked_chunk by (auto simp: at_rest_def listening_def)
  note chunk = this
  from controls.all_heard[OF assms(4) TrueI chunk, of "[]" fmt] est(6)
  obtain p ops where run: "in_order (map perform ks) (player, []) = (Inr (), (p, []))" "lk_writer p = after (lk_writer player) ops"
    "ops_ok ops" "hears (next_event fmt) (lk_writer player) ops session (told_controls (1, 10) ks)"
    by (auto simp: est(5,7) asking_def)
  let ?bye = "delete_stream (cn_stream_id p)" and ?w = "lk_writer p"
  let ?sent = "wire (lk_writer player) ops @ write_bytes ?w CSID_COMMAND ?bye"
  have chunk': "1 \<le> cw_chunk_size ?w" using after_stream[OF run(3) chunk] run(2) by simp
  have stream: "cw_stream (write_after ?w CSID_COMMAND ?bye) = cw_stream (lk_writer player) @ ?sent"
    using write_message_after(2)[OF csids_ok(2) chunk'] after_stream[OF run(3) chunk] run(2) by simp
  have "length (told_controls v ks) = length ks" for v
    by (induction ks arbitrary: v) simp_all
  with hears_then[OF run(4) close_heard[where fmt = fmt and sid = "cn_stream_id p"]]
  obtain s' where heard: "calls (next_event fmt) (length ks + 1) (session, ?sent)
      = Some (map (\<lambda>e. Inr (Some e)) (told_controls (1, 10) ks) @ [Inr None], (s', []))" and ended: "cn_ended s'"
    using run(2) by force
  have accept: "(if recorded then play_accept_recorded else play_accept) = accept_mode recorded"
    by (simp add: play_accept_def play_accept_recorded_def fun_eq_iff)
  let ?p = "p\<lparr>lk_writer := write_after ?w CSID_COMMAND ?bye\<rparr>"
  have facts: "connect_with_options fmt url opts t1 t2 heard = (Inr player, (l, []))"
    "in_order (map perform ks @ [player_close]) (player, []) = (Inr (), (?p, []))"
    "drive_until_request fmt scaps t3 t4 (cw_stream (lk_writer ?p)) = (Inr (ReqPlay (play_asked u opts 1)), (ng, ?sent))"
    using est(1)[of "[]"] in_order_last[OF run(1), of player_close, OF close_run[OF chunk', of "[]"]] est(2)[of ?sent] stream by simp_all
  show ?thesis
    unfolding accept
    by (rule exI[of _ player], rule exI[of _ ?p], rule exI[of _ session], rule exI[of _ s'], rule exI[of _ l],
        rule exI[of _ ng], rule exI[of _ ng'], rule exI[of _ heard], rule exI[of _ ?sent])
      (use facts est(3)[of ?sent] est(4) heard ended in simp)
qed

definition sample_controls :: "control list" where
  "sample_controls = [KPause (f64_of_int 5), KCall (lit ''getTime'') A0Null [A0Boolean True] True, KBuffer 500,
     KPlay (lit ''b'') None None (Some True), KCall (lit ''log'') A0Null [] True, KVideo False,
     KError (f64_of_int 4) A0Null (A0Boolean True)]"

lemma sample_controls_ok: "list_all control_ok sample_controls"
  by (simp add: sample_controls_def control_ok_def control_ops_def csids_ok ns_fits_def lit_ok lit_reserved reserved_names_def
      control_type MAX_DECODE_DEPTH_def call_ok_def called_def)
    (simp add: ns_to_message_def call_to_message_def build_call_def build_call_error_def encode_command_def ns_args_def
      command_name_def utf8_short_def)

theorem player_controls_arrive_witness:
  "\<exists>player player' session session' l ng ng' heard sent.
      connect_with_options (\<lambda>_. []) (lit ''rtmp://h/live/cam'') sample_options 1 2 heard = (Inr player, (l, []))
    \<and> in_order (map perform sample_controls @ [player_close]) (player, []) = (Inr (), (player', []))
    \<and> drive_until_request (\<lambda>_. []) caps_new 3 4 (cw_stream (lk_writer player'))
        = (Inr (ReqPlay (play_asked sample_url sample_options 1)), (ng, sent))
    \<and> (if False then play_accept_recorded else play_accept) (play_asked sample_url sample_options 1) (ng, sent)
        = (Inr session, (ng', sent))
    \<and> cw_stream (lk_writer session) = heard
    \<and> calls (next_event (\<lambda>_. [])) (length sample_controls + 1) (session, sent)
        = Some (map (\<lambda>e. Inr (Some e)) (told_controls (1, 10) sample_controls) @ [Inr None], (session', []))
    \<and> cn_ended session'"
  by (rule player_controls_arrive[OF sample_url_parses sample_play_fits _ sample_controls_ok])
    (simp add: digest_clear_def sample_options_def)

end
