(* ===== verification/Notices.thy ===== *)
theory Notices
  imports Playback
begin

text \<open>
  What the server tells a publishing client, as \<open>RtmpClient::poll_event\<close> reports it.
\<close>

section \<open>What the server says\<close>

datatype notice =
    NDry
  | NRecorded
  | NPing u32
  | NReconnect "rstring option" "rstring option"
  | NCall call_command
  | NResult f64 amf0_value amf0_value
  | NError f64 amf0_value amf0_value
  | NObject "amf0_value shared_object"
  | NClose

text \<open>The methods of \<open>RtmpSession\<close>; \<open>close\<close> is the last an application can call.\<close>

primrec notify :: "notice \<Rightarrow> (rtmp_session \<times> u8 list, unit) st" where
  "notify NDry = session_send_stream_dry"
| "notify NRecorded = session_send_stream_is_recorded"
| "notify (NPing ts) = session_send_ping_request ts"
| "notify (NReconnect tc_url description) = send_reconnect_request tc_url description"
| "notify (NCall c) = send_call c"
| "notify (NResult tx obj response) = reply_call_result tx obj response"
| "notify (NError tx obj response) = reply_call_error tx obj response"
| "notify (NObject so) = send_shared_object so"
| "notify NClose = session_close"

definition closed_status :: "u32 \<Rightarrow> message" where
  "closed_status sid = build_on_status sid (lit ''status'') STATUS_UNPUBLISH_SUCCESS (lit ''Stream closed.'')"

primrec notice_ops :: "u32 \<Rightarrow> notice \<Rightarrow> link_op list" where
  "notice_ops sid NDry = [ctl_op (build_user_control_stream_dry sid)]"
| "notice_ops sid NRecorded = [ctl_op (build_user_control_stream_is_recorded sid)]"
| "notice_ops sid (NPing ts) = [ctl_op (build_user_control_ping_request ts)]"
| "notice_ops sid (NReconnect tc_url description) = [cmd_op (build_reconnect_request tc_url description)]"
| "notice_ops sid (NCall c) = [cmd_op (call_to_message c)]"
| "notice_ops sid (NResult tx obj response) = [cmd_op (build_call_result tx obj response)]"
| "notice_ops sid (NError tx obj response) = [cmd_op (build_call_error tx obj response)]"
| "notice_ops sid (NObject so) = (case to_message_amf0 so 0 of Inl e \<Rightarrow> [] | Inr m \<Rightarrow> [cmd_op m])"
| "notice_ops sid NClose = [ctl_op (build_user_control_stream_eof sid), cmd_op (closed_status sid)]"

primrec notice_events :: "u32 \<Rightarrow> notice \<Rightarrow> client_event list" where
  "notice_events sid NDry = [CeStreamDry sid]"
| "notice_events sid NRecorded = [CeStreamIsRecorded sid]"
| "notice_events sid (NPing ts) = [CeOther]"
| "notice_events sid (NReconnect tc_url description) = [CeReconnectRequest tc_url (unwrap_or [] description)]"
| "notice_events sid (NCall c) = [CeCall c]"
| "notice_events sid (NResult tx obj response) = [CeResult tx (reply_values ''_result'' tx obj response)]"
| "notice_events sid (NError tx obj response) = [CeErrorReply tx (reply_values ''_error'' tx obj response)]"
| "notice_events sid (NObject so) = [CeSharedObject so]"
| "notice_events sid NClose =
     [CeStreamEof sid, CeOnStatus (lit ''status'') STATUS_UNPUBLISH_SUCCESS (lit ''Stream closed.'')]"

definition text_ok :: "rstring option \<Rightarrow> bool" where
  "text_ok s = (case s of None \<Rightarrow> True | Some t \<Rightarrow> long_ok t)"

definition notice_ok :: "notice \<Rightarrow> bool" where
  "notice_ok n \<longleftrightarrow> ops_ok (notice_ops 0 n) \<and> (case n of
       NReconnect tc_url description \<Rightarrow> text_ok tc_url \<and> text_ok description
     | NCall c \<Rightarrow> call_ok c
     | NResult tx obj response \<Rightarrow> amf0_fits 0 obj \<and> amf0_fits 0 response
     | NError tx obj response \<Rightarrow> amf0_fits 0 obj \<and> amf0_fits 0 response
     | NObject so \<Rightarrow> so_ok (amf0_fits 0) so \<and> notice_ops 0 n \<noteq> []
     | _ \<Rightarrow> True)"

lemma notice_ops_ok: "notice_ok n \<Longrightarrow> ops_ok (notice_ops sid n)"
  by (cases n) (simp_all add: notice_ok_def csids_ok control_builders control_message_def closed_status_def build_on_status_def
      encode_command_def)

lemma notify_run:
  assumes "notice_ok n" and "1 \<le> cw_chunk_size (lk_writer c)"
  shows "notify n (c, bs) = (Inr (), (c\<lparr>lk_writer := after (lk_writer c) (notice_ops (cn_stream_id c) n)\<rparr>, bs))"
proof (cases n)
  case (NObject so)
  then show ?thesis using assms csids_ok
    by (auto simp: notice_ok_def send_shared_object_def transmit_run st_bind_def split: sum.splits)
qed (use assms(2) csids_ok write_message_after(3)[OF csids_ok(1) assms(2)] in
    \<open>simp_all add: session_send_stream_dry_def session_send_stream_is_recorded_def session_send_ping_request_def
      send_reconnect_request_def send_call_def reply_call_result_def reply_call_error_def session_close_def
      with_stream_id_def attempt_def send_on_status_def closed_status_def st_bind_def st_get_user_def transmit_run\<close>)

section \<open>What the client makes of it\<close>

lemma client_control:
  "poll_wire fmt (build_user_control_stream_dry sid) s = (Inr (Some (CeStreamDry sid)), s)"
  "poll_wire fmt (build_user_control_stream_is_recorded sid) s = (Inr (Some (CeStreamIsRecorded sid)), s)"
  "poll_wire fmt (build_user_control_stream_eof sid) s = (Inr (Some (CeStreamEof sid)), s)"
  by (cases s; simp add: poll_wire_def classify_message_def control_builders control_message_def msg_types
      client_user_control_def parse_user_control_def ucm_stream_id_def st_bind_def st_return_def usr_types)+

text \<open>What the client understands: the messages it reports without an answer, and pings, which it answers.\<close>

definition telling :: "rtmp_client \<Rightarrow> u32 \<times> nat" where
  "telling c = (cn_stream_id c, cl_next_tx c)"

definition client_ear :: "(f64 \<Rightarrow> rstring) \<Rightarrow> message \<Rightarrow> client_event option \<Rightarrow> bool" where
  "client_ear fmt msg q \<longleftrightarrow> reacts telling (poll_wire fmt) msg q []
     \<or> (\<exists>ts. msg = build_user_control_ping_request ts \<and> q = Some CeOther)"

abbreviation pong :: "u32 \<Rightarrow> message" where
  "pong ts \<equiv> control_message MSG_USER_CONTROL (u16_be USR_PING_RESPONSE @ u32_be ts)"

lemma client_ping:
  "reacts telling (poll_wire fmt) (build_user_control_ping_request ts) (Some CeOther) [ctl_op (pong ts)]"
  using csids_ok
  by (simp add: reacts_def speaks_def telling_def poll_wire_def classify_message_def control_builders control_message_def
      msg_types client_user_control_def parse_user_control_def st_bind_def st_return_def usr_types echo_ping_def
      attempt_def transmit_run)

lemma client_answers:
  assumes "client_ear fmt msg q"
  shows "\<exists>ans. reacts telling (poll_wire fmt) msg q ans \<and> ops_ok ans \<and> (ans = [] \<or> (\<exists>ts. ans = [ctl_op (pong ts)]))"
proof -
  have "ops_ok [ctl_op (pong ts)]" for ts by (simp add: csids_ok control_message_def)
  with assms client_ping[of fmt] show ?thesis unfolding client_ear_def by (metis ops_ok_simps(1))
qed

lemma client_command:
  assumes "msg_type_id msg = MSG_COMMAND_AMF0" and "amf0_decode_all fmt (msg_payload msg) = Inr vs"
  shows "poll_wire fmt msg s = (Inr (Some (classify_command vs)), s)"
  using assms by (cases s) (simp add: poll_wire_def classify_message_def is_command_def command_values_def msg_types
      st_bind_def st_return_def)

lemma client_status:
  assumes "long_ok code" "long_ok description" "code \<noteq> RECONNECT_REQUEST_CODE"
  shows "poll_wire fmt (build_on_status sid (lit ''status'') code description) s
    = (Inr (Some (CeOnStatus (lit ''status'') code description)), s)"
  using assms(3)
  by (simp add: client_command[OF status_types on_status_decodes[OF assms(1,2)]] classify_command_def name_of_def value_defs
      classify_on_status_def status_object_def get_str_def a0_get_def a0_as_str_def unwrap_or_def Let_def)

lemma reconnect_decodes:
  assumes "text_ok tc_url" "text_ok description"
  shows "amf0_decode_all fmt (msg_payload (build_reconnect_request tc_url description))
    = Inr [A0String (lit ''onStatus''), A0Number 0, A0Null, A0Object (reconnect_props tc_url description)]"
proof -
  have "amf0_fits 0 (A0Object (reconnect_props tc_url description))"
    using assms by (auto simp: reconnect_props_def text_ok_def MAX_DECODE_DEPTH_def lit_ok str_def RECONNECT_REQUEST_CODE_def
        split: option.splits)
  then show ?thesis
    using command_decodes[of "lit ''onStatus''" A0Null "[A0Object (reconnect_props tc_url description)]" fmt 0]
    by (simp add: build_reconnect_request_def command_message_def lit_ok MAX_DECODE_DEPTH_def)
qed

lemma client_reconnect:
  assumes "text_ok tc_url" "text_ok description"
  shows "poll_wire fmt (build_reconnect_request tc_url description) s
    = (Inr (Some (CeReconnectRequest tc_url (unwrap_or [] description))), s)"
proof -
  have t: "msg_type_id (build_reconnect_request tc_url description) = MSG_COMMAND_AMF0"
    by (simp add: build_reconnect_request_def command_message_def)
  show ?thesis
    by (simp add: client_command[OF t reconnect_decodes[OF assms]] classify_command_def name_of_def value_defs
        classify_on_status_def reconnect_props_def get_str_def a0_get_def a0_as_str_def unwrap_or_def str_def Let_def
        split: option.split)
qed

lemma client_call_heard:
  assumes "call_ok c"
  shows "poll_wire fmt (call_to_message c) s = (Inr (Some (CeCall c)), s)"
  using assms
  by (simp add: client_command[OF call_types(1) call_decodes[OF assms]] classify_command_def name_of_def value_defs
      call_names call_parsed unwrap_or_def call_ok_def Let_def)

lemma client_reply:
  assumes "amf0_fits 0 obj" "amf0_fits 0 response"
  shows "poll_wire fmt (build_call_result tx obj response) s
      = (Inr (Some (CeResult tx (reply_values ''_result'' tx obj response))), s)"
    "poll_wire fmt (build_call_error tx obj response) s
      = (Inr (Some (CeErrorReply tx (reply_values ''_error'' tx obj response))), s)"
  by (simp_all add: client_command[OF call_types(2) reply_decodes(1)[OF assms]] client_command[OF call_types(3) reply_decodes(2)[OF assms]]
      classify_command_def name_of_def reply_values_def value_defs unwrap_or_def Let_def)

lemma client_object:
  assumes "so_ok (amf0_fits 0) so" "to_message_amf0 so 0 = Inr m"
  shows "poll_wire fmt m s = (Inr (Some (CeSharedObject so)), s)"
  using object_parses[OF assms]
  by (cases s) (simp add: poll_wire_def classify_message_def is_command_def is_shared_object_def msg_types
      MSG_SHARED_OBJECT_AMF0_def st_bind_def st_return_def)

lemma control_small:
  "link_op_ok (ctl_op (build_user_control_stream_dry sid))" "link_op_ok (ctl_op (build_user_control_stream_is_recorded sid))"
  "link_op_ok (ctl_op (build_user_control_stream_eof sid))" "link_op_ok (ctl_op (build_user_control_ping_request ts))"
  by (simp_all add: csids_ok control_builders control_message_def)

lemma client_understands:
  assumes "understood (\<lambda>_. False) (client_ear fmt) ops evs" and "ops_ok ops" and "at_rest w s"
  shows "hears (poll_event fmt) w ops s evs"
  using understood_heard[OF assms poll_event_def] client_answers by blast

lemma client_hears_one:
  assumes "\<And>s :: rtmp_client \<times> u8 list. poll_wire fmt msg s = (Inr (Some e), s)"
  shows "understood (\<lambda>_. False) (client_ear fmt) [Send csid msg] [e]"
  using understood_one[of "client_ear fmt" msg "Some e" "[e]" "\<lambda>_. False" csid] reacts_still[of "poll_wire fmt" msg "Some e" telling, OF assms]
  by (simp add: client_ear_def heeded_all)

lemma closed_heard:
  "poll_wire fmt (closed_status sid) s = (Inr (Some (CeOnStatus (lit ''status'') STATUS_UNPUBLISH_SUCCESS
      (lit ''Stream closed.''))), s)"
  unfolding closed_status_def
  by (rule client_status) (simp_all add: STATUS_UNPUBLISH_SUCCESS_def RECONNECT_REQUEST_CODE_def lit_ok)

lemma notice_understood:
  assumes "notice_ok n"
  shows "understood (\<lambda>_. False) (client_ear fmt) (notice_ops sid n) (notice_events sid n)"
proof (cases n)
  case NDry
  then show ?thesis using client_hears_one[OF client_control(1)] by simp
next
  case NRecorded
  then show ?thesis using client_hears_one[OF client_control(2)] by simp
next
  case (NPing ts)
  then show ?thesis by (auto simp: client_ear_def heeded_all)
next
  case (NReconnect tc d)
  then show ?thesis using assms client_hears_one[OF client_reconnect] by (simp add: notice_ok_def)
next
  case (NCall c)
  then show ?thesis using assms client_hears_one[OF client_call_heard] by (simp add: notice_ok_def)
next
  case (NResult tx obj r)
  then show ?thesis using assms client_hears_one[OF client_reply(1)] by (simp add: notice_ok_def)
next
  case (NError tx obj r)
  then show ?thesis using assms client_hears_one[OF client_reply(2)] by (simp add: notice_ok_def)
next
  case (NObject so)
  then obtain m where so: "to_message_amf0 so 0 = Inr m" "so_ok (amf0_fits 0) so"
    using assms by (auto simp: notice_ok_def split: sum.splits)
  from client_hears_one[OF client_object[OF so(2,1)]] show ?thesis using NObject so(1) by simp
next
  case NClose
  then show ?thesis
    using understood_append[OF client_hears_one[OF client_control(3)] client_hears_one[OF closed_heard]] by simp
qed

lemma notice_heard:
  "notice_ok n \<Longrightarrow> at_rest w s \<Longrightarrow> hears (poll_event fmt) w (notice_ops sid n) s (notice_events sid n)"
  using client_understands[OF notice_understood notice_ops_ok] .

interpretation notices: channel notify cn_stream_id "\<lambda>sid n. sid" notice_ops "poll_event fmt" notice_events notice_ok "\<lambda>_. True" for fmt
  by unfold_locales (use notify_run notice_ops_ok notice_heard in \<open>auto simp: speaks_def\<close>)

lemma told_notices: "told notice_events (\<lambda>sid n. sid) sid ns = concat (map (notice_events sid) ns)"
  by (induction ns) simp_all

section \<open>From the accepted stream on\<close>

lemma connected_inv:
  assumes "connect_parsed fmt u ty caps digest t1 t2 inp = (Inr c, s)"
  shows "conn_inv c"
proof -
  obtain kind out rest where run: "run_proc (client_hello digest t1 t2) inp = (Inr kind, out, rest)"
    using assms by (auto simp: connect_parsed_def split: prod.splits sum.splits)
  have "hoare lok (st_bind (publish_dialogue fmt u ty caps) (\<lambda>(server_caps, stream_id).
         st_bind st_get_user (\<lambda>l. st_return
           \<lparr>lk_reader = lk_reader l, lk_writer = lk_writer l, cn_stream_id = stream_id,
            cn_ended = False, cn_pending = [], cn_peer_bw = limiter_new, cl_next_tx = 10,
            cl_server_caps = server_caps, cl_tc_url = ru_tc_url u, cl_handshake_kind = kind\<rparr>))) (\<lambda>c _. conn_inv c) lok"
    by (rule hoare_after[OF sound_dialogues(1)])
      (clarsimp split: prod.split, rule hoare_finish, simp add: conn_inv_def link_ok_def)
  from hoareD[OF this _ assms[unfolded connect_parsed_def run sum.case prod.case]] show ?thesis by simp
qed

lemma started_heard:
  assumes "dialogue_fits u ty ccaps scaps"
  shows "poll_wire fmt (started u) s = (Inr (Some (CeOnStatus (lit ''status'') STATUS_PUBLISH_START
      (lit ''Started publishing '' @ ru_stream_name u))), s)"
proof -
  have name: "utf8_valid (ru_stream_name u)" "link_op_ok (cmd_op (started u))"
    using assms by (simp_all add: dialogue_fits_def url_ok_def long_ok_def)
  then have "19 + length (ru_stream_name u) < 2 ^ 32"
    by (auto simp: started_def build_on_status_def encode_command_def csids_ok utf8_short_def utf8_long_def split: if_splits)
  with name(1) have "long_ok (lit ''Started publishing '' @ ru_stream_name u)"
    by (intro long_ok_prefix) simp_all
  then show ?thesis
    unfolding started_def
    by (intro client_status) (simp_all add: STATUS_PUBLISH_START_def RECONNECT_REQUEST_CODE_def lit_ok)
qed

definition publisher_told :: "rtmp_url \<Rightarrow> notice list \<Rightarrow> client_event list" where
  "publisher_told u ns =
     CeOnStatus (lit ''status'') STATUS_PUBLISH_START (lit ''Started publishing '' @ ru_stream_name u)
     # concat (map (notice_events 1) ns)"

text \<open>
  What the server says reaches the publisher.  On a session that the client's \<open>connect\<close> and the server's
  \<open>accept\<close> have established, the client's \<open>poll_event\<close> first reports that publishing has started, and
  then whatever the application at the server has sent, in order: stream dry and recorded, pings (answered), reconnect
  requests with URL and description, remote calls, results and errors of calls, shared objects, and the two messages
  of \<open>close\<close>; and after them the end of the connection.
\<close>

theorem server_notices_arrive:
  assumes "parse_rtmp_url url = Inr u" and "dialogue_fits u ty ccaps scaps" and "digest_clear digest t1 t2 t3 t4"
    and "list_all notice_ok ns"
  shows "\<exists>client client' session session' l ng ng' heard sent.
      client_connect fmt url ty ccaps digest t1 t2 (heard @ sent) = (Inr client, (l, sent))
    \<and> drive_until_request fmt scaps t3 t4 (cw_stream (lk_writer client))
        = (Inr (ReqPublish (publish_asked u ty ccaps 1)), (ng, []))
    \<and> publish_accept (publish_asked u ty ccaps 1) (ng, []) = (Inr session, (ng', []))
    \<and> in_order (map notify ns) (session, []) = (Inr (), (session', []))
    \<and> cw_stream (lk_writer session') = heard @ sent
    \<and> calls (poll_event fmt) (length (publisher_told u ns) + 1) (client, sent)
        = Some (map (\<lambda>e. Inr (Some e)) (publisher_told u ns) @ [Inr None], (client', []))"
proof -
  obtain client session l ng ng' heard unheard w where est:
    "\<And>more. connect_parsed fmt u ty ccaps digest t1 t2 (heard @ more) = (Inr client, (l, more))"
    "\<And>more. drive_until_request fmt scaps t3 t4 (cw_stream (lk_writer client) @ more)
          = (Inr (ReqPublish (publish_asked u ty ccaps 1)), (ng, more))"
    "\<And>more. publish_accept (publish_asked u ty ccaps 1) (ng, more) = (Inr session, (ng', more))"
    "cw_stream (lk_writer session) = heard @ unheard" "cn_stream_id session = 1"
    "cn_pending client = []" "\<not> cn_ended client" "linked w (lk_reader client)"
    "unheard = write_bytes w CSID_COMMAND (started u)" "lk_writer session = write_after w CSID_COMMAND (started u)"
    using publishing_established[OF assms(2,3), of fmt] by metis
  have rest: "at_rest w client"
    using est(6-8) connected_inv[OF est(1)[of "[]"]] by (simp add: at_rest_def listening_def)
  have small: "link_op_ok (cmd_op (started u))" using assms(2) by (simp add: dialogue_fits_def)
  have first: "hears (poll_event fmt) w [cmd_op (started u)] client
      [CeOnStatus (lit ''status'') STATUS_PUBLISH_START (lit ''Started publishing '' @ ru_stream_name u)]"
    by (rule client_understands[OF client_hears_one[OF started_heard[OF assms(2)]] _ rest]) (use small in simp)
  then have session: "lk_writer session = after w [cmd_op (started u)]" by (simp add: est(10))
  have chunk: "1 \<le> cw_chunk_size (lk_writer session)"
    using first linked_chunk by (auto simp: hears_def at_rest_def listening_def session)
  obtain c ops where run: "in_order (map notify ns) (session, []) = (Inr (), (c, []))" "lk_writer c = after (lk_writer session) ops"
    "ops_ok ops" "\<And>s. at_rest (lk_writer session) s \<Longrightarrow>
      hears (poll_event fmt) (lk_writer session) ops s (concat (map (notice_events 1) ns))"
    using notices.all_heard[OF assms(4) TrueI chunk, of "[]" fmt] by (auto simp: told_notices est(5))
  have all: "hears (poll_event fmt) w ([cmd_op (started u)] @ ops) client (publisher_told u ns)"
    using hears_append[OF first run(4)[unfolded session]] by (simp add: publisher_told_def)
  let ?sent = "wire w ([cmd_op (started u)] @ ops)"
  have "\<exists>t. poll_event fmt (p, []) = Some (Inr None, t) \<and> snd t = []" if "at_rest v p" for v p
    using latched_end[OF that, of "poll_sub fmt" "poll_wire fmt"] by (auto simp: poll_event_def)
  from hears_then[OF all this] obtain client' where heard: "calls (poll_event fmt) (length (publisher_told u ns) + 1) (client, ?sent)
      = Some (map (\<lambda>e. Inr (Some e)) (publisher_told u ns) @ [Inr None], (client', []))" by force
  have sent: "cw_stream (lk_writer c) = heard @ ?sent"
    using after_stream[OF run(3) chunk] run(2) est(4,9,10) by simp
  show ?thesis
    using est(1)[of ?sent] est(2)[of "[]"] est(3)[of "[]"] run(1) sent heard assms(1)
    by (intro exI[of _ client] exI[of _ client'] exI[of _ session] exI[of _ c] exI[of _ l] exI[of _ ng] exI[of _ ng']
        exI[of _ heard] exI[of _ ?sent]) (simp add: client_connect_def)
qed

definition sample_notices :: "notice list" where
  "sample_notices = [NRecorded, NPing 9, NCall \<lparr>call_procedure = lit ''getTime'', call_transaction_id = f64_of_nat 7,
       call_command_object = A0Null, call_arguments = [A0Boolean True]\<rparr>,
     NReconnect (Some (lit ''rtmp://b/live'')) None, NResult (f64_of_nat 10) A0Null (A0Boolean True),
     NObject \<lparr>so_name = lit ''chat'', so_version = 3, so_flags = 2, so_events = [SoUse]\<rparr>, NClose]"

lemma sample_notices_ok: "list_all notice_ok sample_notices"
proof -
  have "notice_ok NRecorded" "notice_ok (NPing 9)" "notice_ok NClose"
    by (simp_all add: notice_ok_def csids_ok control_builders control_message_def closed_status_def build_on_status_def
        encode_command_def STATUS_UNPUBLISH_SUCCESS_def utf8_short_def)
  moreover have "notice_ok (NCall \<lparr>call_procedure = lit ''getTime'', call_transaction_id = f64_of_nat 7,
      call_command_object = A0Null, call_arguments = [A0Boolean True]\<rparr>)"
    by (simp add: notice_ok_def csids_ok lit_ok lit_reserved reserved_names_def MAX_DECODE_DEPTH_def call_ok_def)
      (simp add: call_to_message_def build_call_def encode_command_def utf8_short_def)
  moreover have "notice_ok (NReconnect (Some (lit ''rtmp://b/live'')) None)"
    by (simp add: notice_ok_def csids_ok text_ok_def lit_ok)
      (simp add: build_reconnect_request_def reconnect_props_def encode_command_def utf8_short_def str_def
        RECONNECT_REQUEST_CODE_def)
  moreover have "notice_ok (NResult (f64_of_nat 10) A0Null (A0Boolean True))"
    by (simp add: notice_ok_def csids_ok MAX_DECODE_DEPTH_def)
      (simp add: build_call_result_def encode_command_def utf8_short_def)
  moreover have "notice_ok (NObject \<lparr>so_name = lit ''chat'', so_version = 3, so_flags = 2, so_events = [SoUse]\<rparr>)"
    by (simp add: notice_ok_def csids_ok so_ok_def so_event_ok_def lit_ok to_message_amf0_def so_build_amf0_def
        build_message_def build_frame_def build_event_def write_bare_string_def so_message_def lit_def utf8_valid_ascii)
  ultimately show ?thesis by (simp add: sample_notices_def)
qed

theorem server_notices_arrive_witness:
  "\<exists>client client' session session' l ng ng' heard sent.
      client_connect (\<lambda>_. []) (lit ''rtmp://h/live/cam'') (lit ''live'') caps_new False 1 2 (heard @ sent) = (Inr client, (l, sent))
    \<and> drive_until_request (\<lambda>_. []) caps_new 3 4 (cw_stream (lk_writer client))
        = (Inr (ReqPublish (publish_asked sample_url (lit ''live'') caps_new 1)), (ng, []))
    \<and> publish_accept (publish_asked sample_url (lit ''live'') caps_new 1) (ng, []) = (Inr session, (ng', []))
    \<and> in_order (map notify sample_notices) (session, []) = (Inr (), (session', []))
    \<and> cw_stream (lk_writer session') = heard @ sent
    \<and> calls (poll_event (\<lambda>_. [])) (length (publisher_told sample_url sample_notices) + 1) (client, sent)
        = Some (map (\<lambda>e. Inr (Some e)) (publisher_told sample_url sample_notices) @ [Inr None], (client', []))"
  by (rule server_notices_arrive[OF sample_url_parses sample_fits _ sample_notices_ok]) (simp add: digest_clear_def)

end
