(* ===== verification/Broadcast.thy ===== *)
theory Broadcast
  imports Controls Notices
begin

text \<open>
  Everything a \<open>PlaySession\<close> can send, mixed in any order, as \<open>RtmpPlayer::next_packet\<close> hands it out.
\<close>

section \<open>What the session sends\<close>

datatype showing =
    ShMedia media
  | ShStatus rstring rstring
  | ShPause bool
  | ShSeek
  | ShResumed
  | ShDry
  | ShPing u32
  | ShCall call_command
  | ShResult f64 amf0_value amf0_value
  | ShError f64 amf0_value amf0_value
  | ShObject "amf0_value shared_object"

primrec present :: "showing \<Rightarrow> (play_session \<times> u8 list, unit) st" where
  "present (ShMedia m) = forward (media_packet m)"
| "present (ShStatus code description) = send_status code description"
| "present (ShPause paused) = notify_pause paused"
| "present ShSeek = notify_seek"
| "present ShResumed = notify_receive_resumed"
| "present ShDry = play_send_stream_dry"
| "present (ShPing ts) = play_send_ping_request ts"
| "present (ShCall c) = send_call c"
| "present (ShResult tx obj response) = reply_call_result tx obj response"
| "present (ShError tx obj response) = reply_call_error tx obj response"
| "present (ShObject so) = send_shared_object so"

text \<open>
  A status is its code and its description; what the session says depends on the stream it plays, its number and
  its name.
\<close>

primrec statuses :: "rstring \<Rightarrow> showing \<Rightarrow> (rstring \<times> rstring) list" where
  "statuses name (ShMedia m) = []"
| "statuses name (ShStatus code description) = [(code, description)]"
| "statuses name (ShPause paused) = [if paused then (STATUS_PAUSE_NOTIFY, lit ''Pausing'')
     else (STATUS_UNPAUSE_NOTIFY, lit ''Unpausing'')]"
| "statuses name ShSeek = [(STATUS_SEEK_NOTIFY, lit ''Seeking'')]"
| "statuses name ShResumed = [(STATUS_SEEK_NOTIFY, lit ''Seeking''), (STATUS_PLAY_START, lit ''Started playing '' @ name)]"
| "statuses name ShDry = []"
| "statuses name (ShPing ts) = []"
| "statuses name (ShCall c) = []"
| "statuses name (ShResult tx obj response) = []"
| "statuses name (ShError tx obj response) = []"
| "statuses name (ShObject so) = []"

definition status_op :: "u32 \<Rightarrow> rstring \<times> rstring \<Rightarrow> link_op" where
  "status_op sid s = cmd_op (build_on_status sid (lit ''status'') (fst s) (snd s))"

definition show_ops :: "u32 \<times> rstring \<Rightarrow> showing \<Rightarrow> link_op list" where
  "show_ops v x = (case x of
       ShMedia m \<Rightarrow> relayed (fst v) m
     | ShDry \<Rightarrow> [ctl_op (build_user_control_stream_dry (fst v))]
     | ShPing ts \<Rightarrow> [ctl_op (build_user_control_ping_request ts)]
     | ShCall c \<Rightarrow> [cmd_op (call_to_message c)]
     | ShResult tx obj response \<Rightarrow> [cmd_op (build_call_result tx obj response)]
     | ShError tx obj response \<Rightarrow> [cmd_op (build_call_error tx obj response)]
     | ShObject so \<Rightarrow> (case to_message_amf0 so 0 of Inl e \<Rightarrow> [] | Inr m \<Rightarrow> [cmd_op m])
     | _ \<Rightarrow> map (status_op (fst v)) (statuses (snd v) x))"

definition status_packet :: "rstring \<times> rstring \<Rightarrow> player_packet" where
  "status_packet s = PpStatus (lit ''status'') (fst s) (snd s)"

definition show_packets :: "u32 \<times> rstring \<Rightarrow> showing \<Rightarrow> player_packet list" where
  "show_packets v x = (case x of
       ShMedia m \<Rightarrow> given m
     | ShDry \<Rightarrow> [PpControl (UcStreamDry (fst v))]
     | ShPing ts \<Rightarrow> []
     | ShCall c \<Rightarrow> [PpCall c]
     | ShResult tx obj response \<Rightarrow> [PpCallReply True tx (reply_values ''_result'' tx obj response)]
     | ShError tx obj response \<Rightarrow> [PpCallReply False tx (reply_values ''_error'' tx obj response)]
     | ShObject so \<Rightarrow> [PpSharedObject so]
     | _ \<Rightarrow> map status_packet (statuses (snd v) x))"

definition status_ok :: "rstring \<times> rstring \<Rightarrow> bool" where
  "status_ok s \<longleftrightarrow> long_ok (fst s) \<and> long_ok (snd s) \<and> link_op_ok (status_op 0 s)"

definition show_ok :: "showing \<Rightarrow> bool" where
  "show_ok x \<longleftrightarrow> (case x of
       ShMedia m \<Rightarrow> media_ok m
     | ShStatus code description \<Rightarrow> status_ok (code, description)
     | ShCall c \<Rightarrow> call_ok c \<and> ops_ok (show_ops (0, []) x)
     | ShResult tx obj response \<Rightarrow> amf0_fits 0 obj \<and> amf0_fits 0 response \<and> ops_ok (show_ops (0, []) x)
     | ShError tx obj response \<Rightarrow> amf0_fits 0 obj \<and> amf0_fits 0 response \<and> ops_ok (show_ops (0, []) x)
     | ShObject so \<Rightarrow> so_ok (amf0_fits 0) so \<and> show_ops (0, []) x \<noteq> [] \<and> ops_ok (show_ops (0, []) x)
     | _ \<Rightarrow> True)"

lemma show_run:
  assumes "show_ok x" and "1 \<le> cw_chunk_size (lk_writer c)"
  shows "present x (c, bs) = (Inr (), (c\<lparr>lk_writer := after (lk_writer c) (show_ops (playing c) x)\<rparr>, bs))"
proof (cases x)
  case (ShMedia m)
  then show ?thesis using forward_run[OF assms(2)] by (simp add: show_ops_def playing_def)
next
  case (ShObject so)
  then obtain m where "to_message_amf0 so 0 = Inr m"
    using assms(1) by (auto simp: show_ok_def show_ops_def split: sum.splits)
  then show ?thesis using assms(2) ShObject csids_ok
    by (simp add: send_shared_object_def transmit_run st_bind_def show_ops_def)
qed (use assms(2) csids_ok write_message_after(3)[OF csids_ok(2) assms(2)] in
    \<open>simp_all add: send_status_def notify_pause_def notify_seek_def notify_receive_resumed_def play_send_stream_dry_def
      play_send_ping_request_def send_call_def reply_call_result_def reply_call_error_def with_stream_id_def
      send_on_status_def st_bind_def st_get_user_def transmit_run show_ops_def status_op_def playing_def\<close>)

lemma status_op_ok: "status_ok s \<Longrightarrow> link_op_ok (status_op sid s)"
  by (simp add: status_ok_def status_op_def build_on_status_def)

lemma statuses_ok:
  assumes "show_ok x" and "name_fits name"
  shows "list_all status_ok (statuses name x)"
proof -
  have fixed: "status_ok (STATUS_PAUSE_NOTIFY, lit ''Pausing'')" "status_ok (STATUS_UNPAUSE_NOTIFY, lit ''Unpausing'')"
    "status_ok (STATUS_SEEK_NOTIFY, lit ''Seeking'')"
    by (simp_all add: status_ok_def status_op_def build_on_status_def encode_command_def csids_ok utf8_short_def lit_ok
        STATUS_PAUSE_NOTIFY_def STATUS_UNPAUSE_NOTIFY_def STATUS_SEEK_NOTIFY_def)
  have start: "status_ok (STATUS_PLAY_START, lit ''Started playing '' @ name)"
    using assms(2) by (auto simp: status_ok_def status_op_def build_on_status_def encode_command_def csids_ok utf8_short_def
        utf8_long_def name_fits_def STATUS_PLAY_START_def lit_ok intro!: long_ok_prefix)
  show ?thesis
    using assms(1) start fixed by (cases x) (simp_all add: show_ok_def)
qed

lemma show_ops_ok:
  assumes "show_ok x" and "name_fits (snd v)"
  shows "ops_ok (show_ops v x)"
proof (cases x)
  case (ShMedia m)
  then show ?thesis using assms(1) relayed_ok by (simp add: show_ok_def show_ops_def)
qed (use assms(1) statuses_ok[OF assms] status_op_ok control_small in
    \<open>auto simp: show_ok_def show_ops_def csids_ok split: if_splits sum.splits\<close>)

section \<open>What the player makes of it\<close>

lemma player_command:
  assumes "msg_type_id msg = MSG_COMMAND_AMF0" and "amf0_decode_all fmt (msg_payload msg) = Inr vs"
  shows "player_handle_message fmt msg s = (Inr (classify_status vs), s)"
  using assms by (cases s) (simp add: player_handle_message_def is_command_def command_values_def msg_types st_bind_def
      st_return_def)

lemma player_status:
  assumes "long_ok code" "long_ok description"
  shows "player_handle_message fmt (build_on_status sid (lit ''status'') code description) s
    = (Inr (Some (PpStatus (lit ''status'') code description)), s)"
  by (simp add: player_command[OF status_types on_status_decodes[OF assms]] classify_status_def value_defs status_object_def
      get_str_def a0_get_def a0_as_str_def unwrap_or_def)

lemma player_call_heard:
  assumes "call_ok c"
  shows "player_handle_message fmt (call_to_message c) s = (Inr (Some (PpCall c)), s)"
  using assms
  by (simp add: player_command[OF call_types(1) call_decodes[OF assms]] classify_status_def value_defs
      call_names call_parsed call_ok_def)

lemma player_reply:
  assumes "amf0_fits 0 obj" "amf0_fits 0 response"
  shows "player_handle_message fmt (build_call_result tx obj response) s
      = (Inr (Some (PpCallReply True tx (reply_values ''_result'' tx obj response))), s)"
    "player_handle_message fmt (build_call_error tx obj response) s
      = (Inr (Some (PpCallReply False tx (reply_values ''_error'' tx obj response))), s)"
  by (simp_all add: player_command[OF call_types(2) reply_decodes(1)[OF assms]] player_command[OF call_types(3) reply_decodes(2)[OF assms]]
      classify_status_def reply_values_def value_defs unwrap_or_def)

lemma player_object:
  assumes "so_ok (amf0_fits 0) so" "to_message_amf0 so 0 = Inr m"
  shows "player_handle_message fmt m s = (Inr (Some (PpSharedObject so)), s)"
  using object_parses[OF assms]
  by (cases s) (simp add: player_handle_message_def is_command_def is_shared_object_def msg_types MSG_SHARED_OBJECT_AMF0_def
      st_bind_def st_return_def)

lemma player_dry:
  "player_handle_message fmt (build_user_control_stream_dry sid) s = (Inr (Some (PpControl (UcStreamDry sid))), s)"
  by (cases s) (simp add: player_handle_message_def is_command_def is_shared_object_def control_builders control_message_def
      msg_types player_user_control_def ucm_defs st_bind_def st_return_def)

lemma statuses_understood:
  "list_all status_ok ss \<Longrightarrow>
   understood (\<lambda>_. False) (player_ear fmt) (map (status_op sid) ss) (map status_packet ss)"
proof (induction ss)
  case (Cons x ss)
  have "player_ear fmt (build_on_status sid (lit ''status'') (fst x) (snd x)) (Some (status_packet x))"
    using Cons.prems player_status[of "fst x" "snd x"]
    by (intro player_ear_still) (simp add: status_packet_def status_ok_def)
  then show ?case using Cons by (auto simp: status_op_def heeded_all)
qed simp

lemma show_understood:
  assumes "show_ok x" and "name_fits (snd v)"
  shows "understood (\<lambda>_. False) (player_ear fmt) (show_ops v x) (show_packets v x)"
proof -
  have one: "understood (\<lambda>_. False) (player_ear fmt) [Send csid msg] [q]"
    if "\<And>s. player_handle_message fmt msg s = (Inr (Some q), s)" for csid msg q
    by (rule understood_one[of "player_ear fmt" msg "Some q", OF player_ear_still[OF that]]) (simp add: heeded_all)
  show ?thesis
  proof (cases x)
    case (ShMedia m)
    then show ?thesis using assms(1) media_understood by (simp add: show_ok_def show_ops_def show_packets_def)
  next
    case ShDry
    then show ?thesis using one[OF player_dry] by (simp add: show_ops_def show_packets_def)
  next
    case (ShPing ts)
    then show ?thesis by (auto simp: show_ops_def show_packets_def player_ear_def heeded_all)
  next
    case (ShCall c)
    then show ?thesis using one[OF player_call_heard] assms(1) by (simp add: show_ok_def show_ops_def show_packets_def)
  next
    case (ShResult tx obj r)
    then show ?thesis using one[OF player_reply(1)] assms(1) by (simp add: show_ok_def show_ops_def show_packets_def)
  next
    case (ShError tx obj r)
    then show ?thesis using one[OF player_reply(2)] assms(1) by (simp add: show_ok_def show_ops_def show_packets_def)
  next
    case (ShObject so)
    then obtain m where so: "to_message_amf0 so 0 = Inr m" "so_ok (amf0_fits 0) so"
      using assms(1) by (auto simp: show_ok_def show_ops_def split: sum.splits)
    from one[OF player_object[OF so(2,1)]] show ?thesis using ShObject so(1) by (simp add: show_ops_def show_packets_def)
  qed (use statuses_understood[OF statuses_ok[OF assms]] in \<open>simp_all add: show_ops_def show_packets_def del: statuses.simps\<close>)
qed

lemma shown:
  "show_ok x \<Longrightarrow> name_fits (snd v) \<Longrightarrow> at_rest w s \<Longrightarrow> hears (player_next_packet fmt) w (show_ops v x) s (show_packets v x)"
  using player_understands[OF show_understood show_ops_ok] .

interpretation broadcast: channel present playing "\<lambda>v x. v" show_ops "player_next_packet fmt" show_packets show_ok
    "\<lambda>v. name_fits (snd v)" for fmt
  by unfold_locales (use show_run show_ops_ok shown in \<open>auto simp: playing_def speaks_def\<close>)

lemma told_shown: "told show_packets (\<lambda>v x. v) v xs = concat (map (show_packets v) xs)"
  by (induction xs) simp_all

section \<open>Closing\<close>

lemma play_close_run:
  assumes "1 \<le> cw_chunk_size (lk_writer c)"
  shows "play_close (c, bs) = (Inr (), (c\<lparr>lk_writer := write_after (lk_writer c) CSID_PROTOCOL_CONTROL
      (build_user_control_stream_eof (cn_stream_id c))\<rparr>, bs))"
  using assms by (simp add: play_close_def with_stream_id_def attempt_def st_bind_def st_get_user_def transmit_run csids_ok)

lemma eof_heard:
  assumes "at_rest w s"
  shows "\<exists>s'. player_next_packet fmt (s, write_bytes w CSID_PROTOCOL_CONTROL (build_user_control_stream_eof sid)) = Some (Inr None, s')
    \<and> snd s' = [] \<and> cn_ended (fst s')"
proof -
  let ?h = "player_handle_message fmt" and ?eof = "build_user_control_stream_eof sid"
  have rest: "listening w s" "cn_pending s = []" using assms by (simp_all add: at_rest_def)
  obtain s1 where s1: "\<And>tail. session_round latching_hangup ?h ?h (s, write_bytes w CSID_PROTOCOL_CONTROL ?eof @ tail)
      = st_bind (?h ?eof) (\<lambda>x. st_return (map_option Some x)) (s1, tail)"
    by (rule listening_reads[OF rest(1) control_small(3) rest(2), of latching_hangup ?h ?h]) blast
  have "?h ?eof (s1, []) = (Inr None, (s1\<lparr>cn_ended := True\<rparr>, []))"
    by (simp add: player_handle_message_def is_command_def is_shared_object_def control_builders control_message_def
      msg_types player_user_control_def ucm_defs latch_ended_def modify_def st_bind_def st_return_def)
  then show ?thesis
    using s1[of "[]"]
    by (simp add: player_next_packet_def pump.simps[of _ "(s, write_bytes w CSID_PROTOCOL_CONTROL ?eof)"]
        pump.simps[of _ "(s1\<lparr>cn_ended := True\<rparr>, [])"] round_ended st_bind_def st_return_def)
qed

definition all_shown :: "rtmp_url \<Rightarrow> showing list \<Rightarrow> player_packet list" where
  "all_shown u xs = concat (map (show_packets (1, ru_stream_name u)) xs)"

text \<open>
  C3. What a \<open>PlaySession\<close> sends reaches its player.  On a session that \<open>connect_with_options\<close> and
  \<open>accept\<close> (live or recorded) have established, with the options asked for, the server sends any mixture of forwarded packets, statuses,
  the notifications of pause, seek and resumed reception, stream dry, pings, remote calls, replies to calls and shared
  objects, and closes; \<open>next_packet\<close> of the player hands out exactly what they stand for, in order (a ping is
  answered and not handed out), and then the end of the stream.  The remote calls and replies of the server are among it,
  where the doc of \<open>classify_status\<close> says that only \<open>onStatus\<close> produces an event and later replies are swallowed;
  and a forwarded data frame of any handler whose value is an object comes out as \<open>Metadata\<close>, which is documented for
  \<open>onMetaData\<close>.
\<close>

theorem play_session_arrives:
  assumes "parse_rtmp_url url = Inr u" and "play_fits u opts scaps"
    and "digest_clear (po_digest_handshake opts) t1 t2 t3 t4" and "list_all show_ok xs"
  shows "\<exists>player player' session session' l ng ng' heard sent.
      connect_with_options fmt url opts t1 t2 (heard @ sent) = (Inr player, (l, sent))
    \<and> drive_until_request fmt scaps t3 t4 (cw_stream (lk_writer player))
        = (Inr (ReqPlay (play_asked u opts 1)), (ng, []))
    \<and> (if recorded then play_accept_recorded else play_accept) (play_asked u opts 1) (ng, []) = (Inr session, (ng', []))
    \<and> pp_is_recorded player = recorded \<and> pp_stream_name player = ru_stream_name u
    \<and> pp_server_caps player = server_caps_seen scaps \<and> pp_handshake_kind player = hello_kind (po_digest_handshake opts)
    \<and> ps_stream_name session = ru_stream_name u \<and> ps_app session = ru_app u
    \<and> in_order (map present xs @ [play_close]) (session, []) = (Inr (), (session', []))
    \<and> cw_stream (lk_writer session') = heard @ sent
    \<and> calls (player_next_packet fmt) (length (all_shown u xs) + 1) (player, sent)
        = Some (map (\<lambda>q. Inr (Some q)) (all_shown u xs) @ [Inr None], (player', []))
    \<and> cn_ended player'"
proof -
  obtain player session l ng ng' heard where est:
    "\<And>more. connect_with_options fmt url opts t1 t2 (heard @ more) = (Inr player, (l, more))"
    "\<And>more. drive_until_request fmt scaps t3 t4 (cw_stream (lk_writer player) @ more) = (Inr (ReqPlay (play_asked u opts 1)), (ng, more))"
    "\<And>more. accept_mode recorded (play_asked u opts 1) (ng, more) = (Inr session, (ng', more))"
    "cw_stream (lk_writer session) = heard" "cn_stream_id session = 1" "ps_stream_name session = ru_stream_name u"
    "at_rest (lk_writer session) player"
    "pp_is_recorded player = recorded" "pp_stream_name player = ru_stream_name u"
    "pp_server_caps player = server_caps_seen scaps" "pp_handshake_kind player = hello_kind (po_digest_handshake opts)"
    "ps_app session = ru_app u"
    using playing_established[OF assms(1-3), of fmt recorded] by metis
  have view: "playing session = (1, ru_stream_name u)" using est(5,6) by (simp add: playing_def)
  have name: "name_fits (snd (playing session))" using assms(2) by (simp add: view play_fits_def)
  have chunk: "1 \<le> cw_chunk_size (lk_writer session)"
    using est(7) linked_chunk by (auto simp: at_rest_def listening_def)
  from broadcast.all_heard[OF assms(4) name chunk, of "[]" fmt] est(7)
  obtain c ops where run: "in_order (map present xs) (session, []) = (Inr (), (c, []))" "lk_writer c = after (lk_writer session) ops"
    "ops_ok ops" "hears (player_next_packet fmt) (lk_writer session) ops player (all_shown u xs)"
    by (auto simp: told_shown view all_shown_def)
  let ?eof = "build_user_control_stream_eof (cn_stream_id c)" and ?w = "lk_writer c"
  let ?sent = "wire (lk_writer session) ops @ write_bytes ?w CSID_PROTOCOL_CONTROL ?eof"
  let ?c = "c\<lparr>lk_writer := write_after ?w CSID_PROTOCOL_CONTROL ?eof\<rparr>"
  have chunk': "1 \<le> cw_chunk_size ?w" using after_stream[OF run(3) chunk] run(2) by simp
  have sent: "cw_stream (lk_writer ?c) = heard @ ?sent"
    using write_message_after(2)[OF csids_ok(1) chunk'] after_stream[OF run(3) chunk] run(2) est(4) by simp
  obtain player' where played: "calls (player_next_packet fmt) (length (all_shown u xs) + 1) (player, ?sent)
      = Some (map (\<lambda>q. Inr (Some q)) (all_shown u xs) @ [Inr None], (player', []))" "cn_ended player'"
    using hears_then[OF run(4) eof_heard[where fmt = fmt and sid = "cn_stream_id c"]] run(2) by force
  have accept: "(if recorded then play_accept_recorded else play_accept) = accept_mode recorded"
    by (simp add: play_accept_def play_accept_recorded_def fun_eq_iff)
  have closed: "in_order (map present xs @ [play_close]) (session, []) = (Inr (), (?c, []))"
    by (rule in_order_last[OF run(1), of play_close, OF play_close_run[OF chunk', of "[]"]])
  show ?thesis
    unfolding accept
    using est(1)[of ?sent] est(2,3)[of "[]"] est(6,8-12) closed sent played
    by (intro exI[of _ player] exI[of _ player'] exI[of _ session] exI[of _ ?c] exI[of _ l] exI[of _ ng] exI[of _ ng']
        exI[of _ heard] exI[of _ ?sent]) simp
qed

definition sample_showing :: "showing list" where
  "sample_showing = map ShMedia (concat (map media_of sample_media))
     @ [ShPause True, ShPing 7, ShDry, ShResumed, ShPause False,
        ShCall \<lparr>call_procedure = lit ''getTime'', call_transaction_id = f64_of_nat 7,
          call_command_object = A0Null, call_arguments = [A0Boolean True]\<rparr>,
        ShResult (f64_of_nat 10) A0Null (A0Boolean True), ShStatus STATUS_SEEK_NOTIFY (lit ''again'')]"

lemma sample_showing_ok: "list_all show_ok sample_showing"
proof -
  have "list_all media_ok (concat (map media_of sample_media))" using sample_media_ok by (simp add: sample_media_def)
  then have "list_all show_ok (map ShMedia (concat (map media_of sample_media)))" by (simp add: list_all_iff show_ok_def)
  moreover have "show_ok (ShCall \<lparr>call_procedure = lit ''getTime'', call_transaction_id = f64_of_nat 7,
      call_command_object = A0Null, call_arguments = [A0Boolean True]\<rparr>)"
    by (simp add: show_ok_def show_ops_def csids_ok lit_ok lit_reserved reserved_names_def MAX_DECODE_DEPTH_def call_ok_def)
      (simp add: call_to_message_def build_call_def encode_command_def utf8_short_def)
  moreover have "show_ok (ShResult (f64_of_nat 10) A0Null (A0Boolean True))"
    by (simp add: show_ok_def show_ops_def csids_ok MAX_DECODE_DEPTH_def)
      (simp add: build_call_result_def encode_command_def utf8_short_def)
  moreover have "show_ok (ShStatus STATUS_SEEK_NOTIFY (lit ''again''))"
    by (simp add: show_ok_def status_ok_def status_op_def build_on_status_def encode_command_def csids_ok utf8_short_def lit_ok
        STATUS_SEEK_NOTIFY_def)
  ultimately show ?thesis by (simp add: sample_showing_def) (simp add: show_ok_def)
qed

theorem play_session_arrives_witness:
  "\<exists>player player' session session' l ng ng' heard sent.
      connect_with_options (\<lambda>_. []) (lit ''rtmp://h/live/cam'') sample_options 1 2 (heard @ sent) = (Inr player, (l, sent))
    \<and> drive_until_request (\<lambda>_. []) caps_new 3 4 (cw_stream (lk_writer player))
        = (Inr (ReqPlay (play_asked sample_url sample_options 1)), (ng, []))
    \<and> (if True then play_accept_recorded else play_accept) (play_asked sample_url sample_options 1) (ng, [])
        = (Inr session, (ng', []))
    \<and> pp_is_recorded player = True \<and> pp_stream_name player = ru_stream_name sample_url
    \<and> pp_server_caps player = server_caps_seen caps_new
    \<and> pp_handshake_kind player = hello_kind (po_digest_handshake sample_options)
    \<and> ps_stream_name session = ru_stream_name sample_url \<and> ps_app session = ru_app sample_url
    \<and> in_order (map present sample_showing @ [play_close]) (session, []) = (Inr (), (session', []))
    \<and> cw_stream (lk_writer session') = heard @ sent
    \<and> calls (player_next_packet (\<lambda>_. [])) (length (all_shown sample_url sample_showing) + 1)
        (player, sent)
        = Some (map (\<lambda>q. Inr (Some q)) (all_shown sample_url sample_showing) @ [Inr None],
            (player', []))
    \<and> cn_ended player'"
  by (rule play_session_arrives[OF sample_url_parses sample_play_fits _ sample_showing_ok])
    (simp add: digest_clear_def sample_options_def)

end
