(* ===== verification/Publishing.thy ===== *)
theory Publishing
  imports Controls Notices
begin

text \<open>
  Everything a publishing client can send, mixed in any order, as \<open>RtmpSession::next_packet\<close> hands it out, and
  the end that \<open>close\<close> makes.
\<close>

section \<open>What the publisher says\<close>

datatype saying =
    SayMedia publish_op
  | SayPing u32
  | SayCall rstring amf0_value "amf0_value list" bool
  | SayResult f64 amf0_value amf0_value
  | SayError f64 amf0_value amf0_value
  | SayObject "amf0_value shared_object"

primrec say :: "saying \<Rightarrow> (rtmp_client \<times> u8 list, unit) st" where
  "say (SayMedia op) = publish op"
| "say (SayPing ts) = client_send_ping_request ts"
| "say (SayCall procedure obj arguments expects) =
     st_bind (client_call procedure obj arguments expects) (\<lambda>_. st_return ())"
| "say (SayResult tx obj response) = reply_call_result tx obj response"
| "say (SayError tx obj response) = reply_call_error tx obj response"
| "say (SayObject so) = send_shared_object so"

fun said_tx :: "nat \<Rightarrow> bool \<Rightarrow> f64" where
  "said_tx n expects = (if expects then f64_of_nat n else 0)"

fun said_next :: "u32 \<times> nat \<Rightarrow> saying \<Rightarrow> u32 \<times> nat" where
  "said_next (sid, n) (SayCall _ _ _ True) = (sid, tx_succ n)"
| "said_next v _ = v"

fun said_ops :: "u32 \<times> nat \<Rightarrow> saying \<Rightarrow> link_op list" where
  "said_ops (sid, n) (SayMedia op) = op_sends sid op"
| "said_ops v (SayPing ts) = [ctl_op (build_user_control_ping_request ts)]"
| "said_ops (sid, n) (SayCall procedure obj arguments expects) =
     [cmd_op (call_to_message (called procedure (said_tx n expects) obj arguments))]"
| "said_ops v (SayResult tx obj response) = [cmd_op (build_call_result tx obj response)]"
| "said_ops v (SayError tx obj response) = [cmd_op (build_call_error tx obj response)]"
| "said_ops v (SayObject so) = (case to_message_amf0 so 0 of Inl e \<Rightarrow> [] | Inr m \<Rightarrow> [cmd_op m])"

fun said_packets :: "u32 \<times> nat \<Rightarrow> saying \<Rightarrow> stream_packet list" where
  "said_packets v (SayMedia op) = map media_packet (media_of op)"
| "said_packets v (SayPing ts) = []"
| "said_packets (sid, n) (SayCall procedure obj arguments expects) = [SpCall (called procedure (said_tx n expects) obj arguments)]"
| "said_packets v (SayResult tx obj response) = [SpCallReply True tx (reply_values ''_result'' tx obj response)]"
| "said_packets v (SayError tx obj response) = [SpCallReply False tx (reply_values ''_error'' tx obj response)]"
| "said_packets v (SayObject so) = [SpSharedObject so]"

definition say_ok :: "saying \<Rightarrow> bool" where
  "say_ok x \<longleftrightarrow> (case x of
       SayMedia op \<Rightarrow> op_ok op
     | SayPing ts \<Rightarrow> True
     | SayCall procedure obj arguments _ \<Rightarrow> call_ok (called procedure 0 obj arguments) \<and> ops_ok (said_ops (0, 0) x)
     | SayResult tx obj response \<Rightarrow> amf0_fits 0 obj \<and> amf0_fits 0 response \<and> ops_ok (said_ops (0, 0) x)
     | SayError tx obj response \<Rightarrow> amf0_fits 0 obj \<and> amf0_fits 0 response \<and> ops_ok (said_ops (0, 0) x)
     | SayObject so \<Rightarrow> so_ok (amf0_fits 0) so \<and> said_ops (0, 0) x \<noteq> [] \<and> ops_ok (said_ops (0, 0) x))"

lemma said_next_call: "said_next (sid, n) (SayCall p v vs e) = (sid, if e then tx_succ n else n)"
  by (cases e) simp_all

lemma say_run:
  assumes "say_ok x" and "1 \<le> cw_chunk_size (lk_writer c)"
  shows "\<exists>c'. say x (c, bs) = (Inr (), (c', bs)) \<and> speaks (said_ops (telling c) x) c c'
    \<and> telling c' = said_next (telling c) x"
proof (cases x)
  case (SayMedia op)
  then show ?thesis using assms publish_runs[of op c bs] by (simp add: say_ok_def telling_def speaks_def)
next
  case (SayCall procedure obj arguments expects)
  then show ?thesis using assms(2)
    by (simp add: speaks_def client_call_def st_bind_def st_get_user_def modify_def transmit_run csids_ok st_return_def called_message
        telling_def said_next_call Let_def)
next
  case (SayObject so)
  then obtain m where "to_message_amf0 so 0 = Inr m"
    using assms(1) by (auto simp: say_ok_def split: sum.splits)
  then show ?thesis using assms(2) SayObject
    by (simp add: speaks_def send_shared_object_def st_bind_def transmit_run csids_ok telling_def)
qed (use assms(2) in \<open>simp_all add: speaks_def client_send_ping_request_def reply_call_result_def reply_call_error_def
      transmit_run csids_ok telling_def\<close>)

lemma said_ops_ok: "say_ok x \<Longrightarrow> ops_ok (said_ops v x)"
proof (cases x)
  case (SayMedia op)
  assume "say_ok x"
  then have op: "op_ok op" using SayMedia by (simp add: say_ok_def)
  show ?thesis
    using op batch_fits(2)[of _ "fst v"] media_payload[of "fst v"] csids_ok
    by (cases v; cases op) (auto simp: SayMedia media_ok_def split: media.split)
qed (cases v; auto simp: say_ok_def csids_ok control_builders control_message_def called_def call_to_message_def build_call_def
    encode_command_def)+

section \<open>What the server makes of it\<close>

lemma session_command:
  assumes "msg_type_id msg = MSG_COMMAND_AMF0" and "amf0_decode_all fmt (msg_payload msg) = Inr vs"
  shows "session_handle_message fmt msg s = handle_command_values vs s"
  using assms by (cases s) (simp add: session_handle_message_def is_command_def command_values_def msg_types st_bind_def
      st_return_def)

lemma session_call:
  assumes "call_ok c"
  shows "session_handle_message fmt (call_to_message c) s = (Inr (Some (SpCall c)), s)"
proof -
  have "call_procedure c \<notin> lit ` set [''closeStream'', ''deleteStream'', ''FCUnpublish'', ''close'']"
    using assms by (auto simp: call_ok_def lit_reserved reserved_names_def)
  then show ?thesis
    using assms
    by (simp add: session_command[OF call_types(1) call_decodes[OF assms]] handle_command_values_def
        not_teardown classify_values_def no_command call_names call_parsed st_return_def value_defs call_ok_def)
qed

lemma session_reply:
  assumes "amf0_fits 0 obj" "amf0_fits 0 response"
  shows "session_handle_message fmt (build_call_result tx obj response) s
      = (Inr (Some (SpCallReply True tx (reply_values ''_result'' tx obj response))), s)"
    "session_handle_message fmt (build_call_error tx obj response) s
      = (Inr (Some (SpCallReply False tx (reply_values ''_error'' tx obj response))), s)"
  by (simp_all add: session_command[OF call_types(2) reply_decodes(1)[OF assms]] session_command[OF call_types(3) reply_decodes(2)[OF assms]]
      handle_command_values_def is_teardown_def classify_values_def reply_no_command)
    (simp_all add: reply_values_def st_return_def value_defs unwrap_or_def)

lemma session_object:
  assumes "so_ok (amf0_fits 0) so" "to_message_amf0 so 0 = Inr m"
  shows "session_handle_message fmt m s = (Inr (Some (SpSharedObject so)), s)"
  using object_parses[OF assms]
  by (cases s) (simp add: session_handle_message_def is_command_def is_shared_object_def msg_types MSG_SHARED_OBJECT_AMF0_def
      st_bind_def st_return_def)

text \<open>A publisher's ping is read over: the session sends no response and its state stays as it is.\<close>

lemma session_ignores_ping:
  "session_handle_message fmt (build_user_control_ping_request ts) s = (Inr None, s)"
  by (cases s) (simp add: session_handle_message_def is_command_def is_shared_object_def control_builders control_message_def
      msg_types st_return_def)

text \<open>What the session understands: the messages it reports without an answer.\<close>

definition publish_ear :: "(f64 \<Rightarrow> rstring) \<Rightarrow> message \<Rightarrow> stream_packet option \<Rightarrow> bool" where
  "publish_ear fmt msg q \<longleftrightarrow> reacts cn_stream_id (session_handle_message fmt) msg q []"

lemma publish_ear_still: "(\<And>s. session_handle_message fmt msg s = (Inr q, s)) \<Longrightarrow> publish_ear fmt msg q"
  by (simp add: publish_ear_def reacts_still)

lemma media_ear: "media_ok m \<Longrightarrow> publish_ear fmt (media_message sid m) (Some (media_packet m))"
  using media_answers[of m fmt sid] by (auto simp: publish_ear_def reacts_def speaks_def answers_with_def)

lemma media_heard:
  assumes "op_ok op" and "at_rest w s"
  shows "hears (next_packet_of fmt) w (op_sends sid op) s (map media_packet (media_of op))"
proof -
  obtain s' where s': "\<And>tail. calls (next_packet_of fmt) (length (media_of op)) (s, wire w (op_sends sid op) @ tail)
      = Some (packets (media_of op), (s', tail))" "at_rest (after w (op_sends sid op)) s'"
    using op_delivered[OF assms, of sid fmt] by auto
  have "calls (next_packet_of fmt) (length (map media_packet (media_of op)) + Suc n) (s, wire w (op_sends sid op) @ tail)
      = Some (map (\<lambda>q. Inr (Some q)) (map media_packet (media_of op)) @ rs, u)"
    if "calls (next_packet_of fmt) (Suc n) (s', tail) = Some (rs, u)" for tail n rs u
    using calls_append[OF s'(1) that] by (simp add: packets_def o_def)
  with s'(2) show ?thesis unfolding hears_def by blast
qed

fun no_batch :: "saying \<Rightarrow> bool" where
  "no_batch (SayMedia (Batch ms)) = False"
| "no_batch _ = True"

lemma said_understood:
  assumes "say_ok x" and "no_batch x"
  shows "understood (\<lambda>_. False) (publish_ear fmt) (said_ops v x) (said_packets v x)"
proof -
  obtain sid n where v: "v = (sid, n)" by (rule prod.exhaust)
  have one: "understood (\<lambda>_. False) (publish_ear fmt) [Send csid msg] (case q of None \<Rightarrow> [] | Some q \<Rightarrow> [q])"
    if "\<And>s. session_handle_message fmt msg s = (Inr q, s)" for csid msg q
    by (rule understood_one[of "publish_ear fmt" msg q, OF publish_ear_still[OF that]]) (simp add: heeded_all)
  show ?thesis
  proof (cases x)
    case (SayMedia op)
    then obtain m where m: "op = Single m" using assms(2) by (cases op) auto
    from media_ear[of m fmt sid] show ?thesis using SayMedia m assms(1) by (auto simp: v say_ok_def heeded_all)
  next
    case (SayPing ts)
    then show ?thesis using one[OF session_ignores_ping] by simp
  next
    case (SayCall procedure obj arguments expects)
    then have "call_ok (called procedure (said_tx n expects) obj arguments)"
      using assms(1) call_ok_called[of procedure "said_tx n expects"] by (simp add: say_ok_def)
    from one[OF session_call[OF this], of CSID_COMMAND] show ?thesis using SayCall by (simp add: v)
  next
    case (SayResult tx obj r)
    then have "amf0_fits 0 obj" "amf0_fits 0 r" using assms(1) by (simp_all add: say_ok_def)
    from one[OF session_reply(1)[OF this], of CSID_COMMAND] show ?thesis using SayResult by simp
  next
    case (SayError tx obj r)
    then have "amf0_fits 0 obj" "amf0_fits 0 r" using assms(1) by (simp_all add: say_ok_def)
    from one[OF session_reply(2)[OF this], of CSID_COMMAND] show ?thesis using SayError by simp
  next
    case (SayObject so)
    then obtain m where so: "to_message_amf0 so 0 = Inr m" "so_ok (amf0_fits 0) so"
      using assms(1) by (auto simp: say_ok_def split: sum.splits)
    from one[OF session_object[OF so(2,1)], of CSID_COMMAND] show ?thesis using SayObject so(1) by simp
  qed
qed

lemma said_heard:
  assumes "say_ok x" and "at_rest w s"
  shows "hears (next_packet_of fmt) w (said_ops v x) s (said_packets v x)"
proof (cases "no_batch x")
  case True
  show ?thesis
    by (rule understood_heard[OF said_understood[OF assms(1) True] said_ops_ok[OF assms(1)] assms(2) next_packet_of_def])
      (auto simp: publish_ear_def)
next
  case False
  then obtain op where "x = SayMedia op" by (cases x) auto
  then show ?thesis using assms(1) media_heard[OF _ assms(2)] by (cases v) (simp add: say_ok_def)
qed

interpretation sayings: channel say telling said_next said_ops "next_packet_of fmt" said_packets say_ok "\<lambda>_. True" for fmt
  by unfold_locales (use say_run said_ops_ok said_heard in auto)

section \<open>Closing\<close>

definition close_stream :: "rtmp_client \<Rightarrow> message" where
  "close_stream c = command_message (cn_stream_id c) (encode_command (lit ''closeStream'') (f64_of_nat (cl_next_tx c)) A0Null
     [A0Number (f64_of_u32 (cn_stream_id c))])"

lemma close_stream_small: "link_op_ok (cmd_op (close_stream c))"
  by (simp add: close_stream_def encode_command_def utf8_short_def csids_ok)

lemma client_close_run:
  assumes "1 \<le> cw_chunk_size (lk_writer c)"
  shows "client_close (c, bs) = (Inr (), (c\<lparr>lk_writer := write_after (lk_writer c) CSID_COMMAND (close_stream c)\<rparr>, bs))"
  using assms by (simp add: client_close_def attempt_def st_bind_def st_get_user_def transmit_run csids_ok close_stream_def)

lemma close_stream_heard:
  assumes "at_rest w s"
  shows "\<exists>s'. next_packet_of fmt (s, write_bytes w CSID_COMMAND (close_stream c)) = Some (Inr None, s') \<and> snd s' = [] \<and> cn_ended (fst s')"
proof -
  let ?h = "session_handle_message fmt"
  let ?vs = "[A0String (lit ''closeStream''), A0Number (f64_of_nat (cl_next_tx c)), A0Null, A0Number (f64_of_u32 (cn_stream_id c))]"
  have rest: "listening w s" "cn_pending s = []" using assms by (simp_all add: at_rest_def)
  obtain s1 where s1: "\<And>tail. session_round session_hangup ?h ?h (s, write_bytes w CSID_COMMAND (close_stream c) @ tail)
      = st_bind (?h (close_stream c)) (\<lambda>x. st_return (map_option Some x)) (s1, tail)"
    by (rule listening_reads[OF rest(1) close_stream_small rest(2), of session_hangup ?h ?h]) blast
  have "amf0_decode_all fmt (msg_payload (close_stream c)) = Inr ?vs"
    using command_decodes[of "lit ''closeStream''" A0Null "[A0Number (f64_of_u32 (cn_stream_id c))]" fmt "f64_of_nat (cl_next_tx c)"]
    by (simp add: close_stream_def command_message_def lit_ok MAX_DECODE_DEPTH_def)
  moreover have "msg_type_id (close_stream c) = MSG_COMMAND_AMF0" by (simp add: close_stream_def command_message_def)
  ultimately have "?h (close_stream c) (s1, []) = (Inr None, (s1\<lparr>cn_ended := True\<rparr>, []))"
    by (simp add: session_command handle_command_values_def is_teardown_def value_defs latch_ended_def modify_def
        st_bind_def st_return_def)
  then show ?thesis
    using s1[of "[]"]
    by (simp add: next_packet_of_def pump.simps[of _ "(s, write_bytes w CSID_COMMAND (close_stream c))"]
        pump.simps[of _ "(s1\<lparr>cn_ended := True\<rparr>, [])"] round_ended st_bind_def st_return_def)
qed

definition all_said :: "saying list \<Rightarrow> stream_packet list" where
  "all_said xs = told said_packets said_next (1, 10) xs"

text \<open>
  C8. Whatever a publisher does reaches the server.  On a session that \<open>connect\<close> and \<open>accept\<close> have
  established, the client sends any mixture of media (singly or in aggregates), data frames set and cleared, remote
  calls (numbered from 10 when an answer is expected), replies to calls, shared objects and pings, and closes; the
  server's \<open>next_packet\<close> hands out exactly what they stand for, in order, and then the end of the session.  A ping is
  not handed out.  Remote calls and replies are, where the doc of \<open>handle_command_values\<close> says that what is neither
  teardown nor a stream control is consumed silently; and the close is one \<open>closeStream\<close>, where the doc of
  \<open>RtmpClient::close\<close> names \<open>deleteStream\<close> too.
\<close>

theorem publisher_session_arrives:
  assumes "parse_rtmp_url url = Inr u" and "dialogue_fits u ty ccaps scaps" and "digest_clear digest t1 t2 t3 t4"
    and "list_all say_ok xs"
  shows "\<exists>client client' session session' l ng ng' heard unheard sent.
      client_connect fmt url ty ccaps digest t1 t2 (heard @ unheard) = (Inr client, (l, unheard))
    \<and> in_order (map say xs @ [client_close]) (client, unheard) = (Inr (), (client', unheard))
    \<and> drive_until_request fmt scaps t3 t4 (cw_stream (lk_writer client'))
        = (Inr (ReqPublish (publish_asked u ty ccaps 1)), (ng, sent))
    \<and> publish_accept (publish_asked u ty ccaps 1) (ng, sent) = (Inr session, (ng', sent))
    \<and> cw_stream (lk_writer session) = heard @ unheard
    \<and> calls (next_packet_of fmt) (length (all_said xs) + 1) (session, sent)
        = Some (map (\<lambda>q. Inr (Some q)) (all_said xs) @ [Inr None], (session', []))
    \<and> cn_ended session'"
proof -
  obtain client session l ng ng' heard unheard where est:
    "\<And>more. connect_parsed fmt u ty ccaps digest t1 t2 (heard @ more) = (Inr client, (l, more))"
    "\<And>more. drive_until_request fmt scaps t3 t4 (cw_stream (lk_writer client) @ more)
          = (Inr (ReqPublish (publish_asked u ty ccaps 1)), (ng, more))"
    "\<And>more. publish_accept (publish_asked u ty ccaps 1) (ng, more) = (Inr session, (ng', more))"
    "cw_stream (lk_writer session) = heard @ unheard"
    "cn_pending session = []" "\<not> cn_ended session" "linked (lk_writer client) (lk_reader session)"
    "cn_stream_id client = 1" "cl_next_tx client = 10"
    using publishing_established[OF assms(2,3), of fmt] by metis
  have "link_ok ng" using drive_sound[of fmt scaps t3 t4 "cw_stream (lk_writer client) @ []"] est(2)[of "[]"] by simp
  then have "conn_inv session" using hoareD[OF accept_starts(1) _ est(3)[of "[]"]] by simp
  then have rest: "at_rest (lk_writer client) session" using est(5-7) by (simp add: at_rest_def listening_def)
  note chunk = linked_chunk[OF est(7)]
  from sayings.all_heard[OF assms(4) TrueI chunk, of unheard fmt] rest
  obtain c ops where run: "in_order (map say xs) (client, unheard) = (Inr (), (c, unheard))" "lk_writer c = after (lk_writer client) ops"
    "ops_ok ops" "hears (next_packet_of fmt) (lk_writer client) ops session (all_said xs)"
    by (auto simp: all_said_def telling_def est(8,9))
  let ?bye = "close_stream c" and ?w = "lk_writer c"
  let ?sent = "wire (lk_writer client) ops @ write_bytes ?w CSID_COMMAND ?bye"
  let ?c = "c\<lparr>lk_writer := write_after ?w CSID_COMMAND ?bye\<rparr>"
  have chunk': "1 \<le> cw_chunk_size ?w" using after_stream[OF run(3) chunk] run(2) by simp
  have stream: "cw_stream (lk_writer ?c) = cw_stream (lk_writer client) @ ?sent"
    using write_message_after(2)[OF csids_ok(2) chunk'] after_stream[OF run(3) chunk] run(2) by simp
  obtain s' where heard: "calls (next_packet_of fmt) (length (all_said xs) + 1) (session, ?sent)
      = Some (map (\<lambda>q. Inr (Some q)) (all_said xs) @ [Inr None], (s', []))" "cn_ended s'"
    using hears_then[OF run(4) close_stream_heard[where fmt = fmt and c = c]] run(2) by force
  have closed: "in_order (map say xs @ [client_close]) (client, unheard) = (Inr (), (?c, unheard))"
    by (rule in_order_last[OF run(1), of client_close, OF client_close_run[OF chunk', of unheard]])
  show ?thesis
    using est(1)[of unheard] est(2,3)[of ?sent] est(4) closed stream heard assms(1)
    by (intro exI[of _ client] exI[of _ ?c] exI[of _ session] exI[of _ s'] exI[of _ l]
        exI[of _ ng] exI[of _ ng'] exI[of _ heard] exI[of _ unheard] exI[of _ ?sent]) (simp add: client_connect_def)
qed

definition sample_sayings :: "saying list" where
  "sample_sayings = map SayMedia sample_media @ [SayPing 7, SayCall (lit ''getTime'') A0Null [A0Boolean True] True,
     SayResult (f64_of_nat 10) A0Null (A0Boolean True), SayCall (lit ''log'') A0Null [] True]"

lemma sample_sayings_ok: "list_all say_ok sample_sayings"
proof -
  have "list_all say_ok (map SayMedia sample_media)" using sample_media_ok by (simp add: list_all_iff say_ok_def)
  moreover have "say_ok (SayCall (lit ''getTime'') A0Null [A0Boolean True] True)" "say_ok (SayCall (lit ''log'') A0Null [] True)"
    by (simp_all add: say_ok_def csids_ok lit_ok lit_reserved reserved_names_def MAX_DECODE_DEPTH_def call_ok_def called_def)
      (simp_all add: call_to_message_def build_call_def encode_command_def utf8_short_def)
  moreover have "say_ok (SayResult (f64_of_nat 10) A0Null (A0Boolean True))"
    by (simp add: say_ok_def csids_ok MAX_DECODE_DEPTH_def)
      (simp add: build_call_result_def encode_command_def utf8_short_def)
  ultimately show ?thesis by (simp add: sample_sayings_def) (simp add: say_ok_def)
qed

theorem publisher_session_arrives_witness:
  "\<exists>client client' session session' l ng ng' heard unheard sent.
      client_connect (\<lambda>_. []) (lit ''rtmp://h/live/cam'') (lit ''live'') caps_new False 1 2 (heard @ unheard) = (Inr client, (l, unheard))
    \<and> in_order (map say sample_sayings @ [client_close]) (client, unheard) = (Inr (), (client', unheard))
    \<and> drive_until_request (\<lambda>_. []) caps_new 3 4 (cw_stream (lk_writer client'))
        = (Inr (ReqPublish (publish_asked sample_url (lit ''live'') caps_new 1)), (ng, sent))
    \<and> publish_accept (publish_asked sample_url (lit ''live'') caps_new 1) (ng, sent) = (Inr session, (ng', sent))
    \<and> cw_stream (lk_writer session) = heard @ unheard
    \<and> calls (next_packet_of (\<lambda>_. [])) (length (all_said sample_sayings) + 1) (session, sent)
        = Some (map (\<lambda>q. Inr (Some q)) (all_said sample_sayings) @ [Inr None], (session', []))
    \<and> cn_ended session'"
  by (rule publisher_session_arrives[OF sample_url_parses sample_fits _ sample_sayings_ok]) (simp add: digest_clear_def)

end
