(* ===== verification/Full_Duplex.thy ===== *)
theory Full_Duplex
  imports Duplex Broadcast Publishing
begin

text \<open>
  A player and its session, and a publisher and its session, each talking and reading in any order: the two
  interpretations of \<open>two_way\<close>, from the handshake on.
\<close>

section \<open>A player and its session\<close>

lemma ack_session: "session_ear fmt (build_ack n) None"
  unfolding session_ear_def
  by (rule reacts_still) (simp add: handle_event_message_def is_command_def is_shared_object_def build_ack_def control_message_def
      msg_types st_return_def split: prod.split)

lemma ack_player: "player_ear fmt (build_ack n) None"
  by (rule player_ear_still) (simp add: player_handle_message_def is_command_def is_shared_object_def build_ack_def control_message_def
      msg_types st_return_def)

lemma pong_session: "session_ear fmt (build_user_control_ping_response ts) None"
  unfolding session_ear_def
  by (rule reacts_still) (simp add: handle_event_message_def is_command_def is_shared_object_def control_builders control_message_def
      msg_types handle_user_control_def ucm_defs st_bind_def st_return_def)

lemma views_seen:
  "conn.more c' = conn.more c \<Longrightarrow> cn_stream_id c' = cn_stream_id c \<Longrightarrow> asking c' = asking c"
  "conn.more s' = conn.more s \<Longrightarrow> cn_stream_id s' = cn_stream_id s \<Longrightarrow> playing s' = playing s"
  "conn.more d' = conn.more d \<Longrightarrow> cn_stream_id d' = cn_stream_id d \<Longrightarrow> telling d' = telling d"
proof -
  show "conn.more c' = conn.more c \<Longrightarrow> cn_stream_id c' = cn_stream_id c \<Longrightarrow> asking c' = asking c"
    by (cases c; cases c') (simp add: asking_def)
  show "conn.more s' = conn.more s \<Longrightarrow> cn_stream_id s' = cn_stream_id s \<Longrightarrow> playing s' = playing s"
    by (cases s; cases s') (simp add: playing_def)
  show "conn.more d' = conn.more d \<Longrightarrow> cn_stream_id d' = cn_stream_id d \<Longrightarrow> telling d' = telling d"
    by (cases d; cases d') (simp add: telling_def)
qed

interpretation play: two_way
    perform asking asked_next asking_ops "\<lambda>v k. [asking_event v k]" control_ok "\<lambda>_. True"
    "\<lambda>_. False" "session_ear fmt" "player_ear fmt" "\<lambda>_. False"
    latching_hangup "player_handle_message fmt" "player_handle_message fmt"
    present playing "\<lambda>v x. v" show_ops show_packets show_ok "\<lambda>v. name_fits (snd v)"
    latching_hangup "handle_event_message fmt" "handle_event_message fmt" for fmt
proof unfold_locales
  fix x :: control and c :: rtmp_player
  assume "control_ok x" "1 \<le> cw_chunk_size (lk_writer c)"
  then show "\<exists>c'. perform x (c, []) = (Inr (), (c', [])) \<and> speaks (asking_ops (asking c) x) c c' \<and> asking c' = asked_next (asking c) x"
    using perform_run by blast
next
  fix msg q assume "player_ear fmt msg q"
  from player_answers[OF this]
  show "\<exists>ans. reacts asking (player_handle_message fmt) msg q ans \<and> ops_ok ans \<and> understood (\<lambda>_. False) (session_ear fmt) ans []"
    using pong_session[of fmt] by (fastforce simp: heeded_all)
next
  fix x :: showing and c :: play_session
  assume "show_ok x" "1 \<le> cw_chunk_size (lk_writer c)"
  then show "\<exists>c'. present x (c, []) = (Inr (), (c', [])) \<and> speaks (show_ops (playing c) x) c c' \<and> playing c' = playing c"
    using show_run[of x c "[]"] by (simp add: speaks_def playing_def)
next
  fix x :: control and k assume "control_ok x"
  then show "ops_ok (asking_ops k x)" by (simp add: asking_ops_def control_ops_ok)
next
  fix x :: control and k assume "control_ok x"
  then show "understood (\<lambda>_. False) (session_ear fmt) (asking_ops k x) [asking_event k x]" by (rule control_understood)
next
  fix n show "\<exists>r. session_ear fmt (build_ack n) r \<and> heeded (\<lambda>_. False) r = []"
    by (intro exI[of _ None]) (simp add: ack_session heeded_all)
next
  fix n show "\<exists>r. player_ear fmt (build_ack n) r \<and> heeded (\<lambda>_. False) r = []"
    by (intro exI[of _ None]) (simp add: ack_player heeded_all)
next
  fix x :: showing and k :: "u32 \<times> rstring" assume "show_ok x" "name_fits (snd k)"
  then show "ops_ok (show_ops k x)" by (rule show_ops_ok)
next
  fix x :: showing and k :: "u32 \<times> rstring" assume "show_ok x" "name_fits (snd k)"
  then show "understood (\<lambda>_. False) (player_ear fmt) (show_ops k x) (show_packets k x)" by (rule show_understood)
next
  fix msg q assume "session_ear fmt msg q"
  then show "\<exists>ans. reacts playing (handle_event_message fmt) msg q ans \<and> ops_ok ans \<and> understood (\<lambda>_. False) (player_ear fmt) ans []"
    unfolding session_ear_def by (intro exI[of _ "[]"]) simp
next
  fix c c' :: rtmp_player assume "conn.more c' = conn.more c" "cn_stream_id c' = cn_stream_id c"
  then show "asking c' = asking c" by (rule views_seen)
next
  fix c c' :: play_session assume "conn.more c' = conn.more c" "cn_stream_id c' = cn_stream_id c"
  then show "playing c' = playing c" by (rule views_seen)
qed simp_all

lemma no_noise: "filter (\<lambda>x. x \<notin> Some ` Collect (\<lambda>_. False)) got = got"
  by simp

lemma no_other: "filter (\<lambda>x. x \<notin> Some ` Collect (\<lambda>e. e = CeOther)) got = filter (\<lambda>x. x \<noteq> Some CeOther) got"
  by simp

definition play_run where
  "play_run fmt = fold (make_move perform (session_round latching_hangup (player_handle_message fmt) (player_handle_message fmt))
     present (session_round latching_hangup (handle_event_message fmt) (handle_event_message fmt)))"

definition play_move_ok :: "(control, showing) move \<Rightarrow> bool" where
  "play_move_ok m \<longleftrightarrow> list_all control_ok (said_left m) \<and> list_all show_ok (said_right m)"

text \<open>
  C2. A playing session in both directions at once.  On a session that \<open>connect_with_options\<close> and \<open>accept\<close> have
  established, the player and the server send and read in any order: any schedule of the player's calls and of the
  session's, of rounds of \<open>next_packet\<close> and of \<open>next_event\<close>, with whatever is under way in either direction, pings
  answered and bytes acknowledged as the window demands.  No call fails; at every point what an end has been handed is a
  beginning of what the other end has said, in order; and if both read on they are handed all of it.  Among what the
  player is handed are the server's remote calls and its replies to calls, and among what the session is handed those of
  the player, with shared objects: the docs of \<open>classify_status\<close> (\<open>player.rs\<close>) and \<open>next_event\<close>
  (\<open>server.rs\<close>) say that only status messages, or only stream controls and buffer lengths, are handed out.
\<close>

theorem full_duplex_playing:
  assumes "parse_rtmp_url url = Inr u" and "play_fits u opts scaps"
    and "digest_clear (po_digest_handshake opts) t1 t2 t3 t4" and "list_all play_move_ok ms"
  shows "\<exists>player session l ng ng' heard d n m i j e.
      connect_with_options fmt url opts t1 t2 heard = (Inr player, (l, []))
    \<and> drive_until_request fmt scaps t3 t4 (cw_stream (lk_writer player))
        = (Inr (ReqPlay (play_asked u opts 1)), (ng, []))
    \<and> (if recorded then play_accept_recorded else play_accept) (play_asked u opts 1) (ng, []) = (Inr session, (ng', []))
    \<and> cw_stream (lk_writer session) = heard
    \<and> play_run fmt ms (duplex_start player session []) = d \<and> du_faults d = []
    \<and> du_left_got d = map Some (take n (all_shown u (concat (map said_right ms))))
    \<and> du_right_got d = map Some (take m (told_controls (1, 10) (concat (map said_left ms))))
    \<and> play_run fmt (replicate i LeftReads @ replicate j RightReads) d = e \<and> du_faults e = []
    \<and> du_left_got e = map Some (all_shown u (concat (map said_right ms)))
    \<and> du_right_got e = map Some (told_controls (1, 10) (concat (map said_left ms)))"
proof -
  obtain player session l ng ng' heard where est:
    "\<And>more. connect_with_options fmt url opts t1 t2 (heard @ more) = (Inr player, (l, more))"
    "\<And>more. drive_until_request fmt scaps t3 t4 (cw_stream (lk_writer player) @ more) = (Inr (ReqPlay (play_asked u opts 1)), (ng, more))"
    "\<And>more. accept_mode recorded (play_asked u opts 1) (ng, more) = (Inr session, (ng', more))"
    "cw_stream (lk_writer session) = heard" "cn_stream_id session = 1" "ps_stream_name session = ru_stream_name u"
    "cn_stream_id player = 1" "pp_next_tx player = 10"
    "at_rest (lk_writer session) player" "at_rest (lk_writer player) session"
    using playing_established[OF assms(1-3), of fmt recorded] by metis
  let ?d0 = "duplex_start player session []"
  let ?shown = "all_shown u (concat (map said_right ms))" and ?asked = "told_controls (1, 10) (concat (map said_left ms))"
  have views: "asking (du_left ?d0) = (1, 10)" "playing (du_right ?d0) = (1, ru_stream_name u)"
    using est(5-8) by (simp_all add: asking_def playing_def duplex_start_def)
  have name: "name_fits (snd (1 :: u32, ru_stream_name u))" using assms(2) by (simp add: play_fits_def)
  have start: "play.left.inv fmt [] [] ?d0"
    using flight_start[OF est(9), of "\<lambda>_. False" "player_ear fmt"] flight_start[OF est(10), of "\<lambda>_. False" "session_ear fmt"]
    by (auto simp: duplex_inv_def duplex_start_def)
  have ok: "list_all play.move_ok ms" using assms(4) by (simp add: play.move_ok_def play_move_ok_def list_all_iff)
  have said: "[] @ play.to_right (1, 10) ms = ?asked" "[] @ play.to_left (1, ru_stream_name u) ms = ?shown"
    by (simp_all add: play.to_right_def play.to_left_def told_shown all_shown_def)
  have accepted: "(if recorded then play_accept_recorded else play_accept) (play_asked u opts 1) (ng, []) = (Inr session, (ng', []))"
    using est(3)[of "[]"] by (cases recorded) (simp_all add: play_accept_def play_accept_recorded_def)
  from play.schedule[OF start, unfolded views no_noise, OF TrueI name ok said, folded play_run_def]
  show ?thesis
  proof (elim exE conjE, goal_cases)
    case (1 n m i j e)
    show ?case
      by (rule exI[of _ player], rule exI[of _ session], rule exI[of _ l], rule exI[of _ ng], rule exI[of _ ng'],
          rule exI[of _ heard], rule exI[of _ "play_run fmt ms ?d0"], rule exI[of _ n], rule exI[of _ m],
          rule exI[of _ i], rule exI[of _ j], rule exI[of _ e])
        (use 1 est(1,2)[of "[]"] est(4) accepted in \<open>simp cong: if_cong\<close>)
  qed
qed

definition sample_play_moves :: "(control, showing) move list" where
  "sample_play_moves = [LeftSays (KPause (f64_of_int 5)), RightSays (ShPing 7), RightSays (ShPause True), LeftReads,
     RightReads] @ map LeftSays sample_controls @ [LeftReads] @ map RightSays sample_showing @ [RightReads, LeftReads]"

lemma sample_play_moves_ok: "list_all play_move_ok sample_play_moves"
proof -
  have "list_all play_move_ok (map LeftSays sample_controls)" "list_all play_move_ok (map RightSays sample_showing)"
    using sample_controls_ok sample_showing_ok by (simp_all add: list_all_iff play_move_ok_def)
  moreover have "control_ok (KPause (f64_of_int 5))" using sample_controls_ok by (simp add: sample_controls_def)
  ultimately show ?thesis by (simp add: sample_play_moves_def play_move_ok_def[of "LeftSays _"] play_move_ok_def[of "RightSays _"]
      play_move_ok_def[of LeftReads] play_move_ok_def[of RightReads]) (simp add: show_ok_def)
qed

theorem full_duplex_playing_witness:
  "\<exists>player session l ng ng' heard d n m i j e.
      connect_with_options (\<lambda>_. []) (lit ''rtmp://h/live/cam'') sample_options 1 2 heard = (Inr player, (l, []))
    \<and> drive_until_request (\<lambda>_. []) caps_new 3 4 (cw_stream (lk_writer player))
        = (Inr (ReqPlay (play_asked sample_url sample_options 1)), (ng, []))
    \<and> (if True then play_accept_recorded else play_accept) (play_asked sample_url sample_options 1) (ng, []) = (Inr session, (ng', []))
    \<and> cw_stream (lk_writer session) = heard
    \<and> play_run (\<lambda>_. []) sample_play_moves (duplex_start player session []) = d \<and> du_faults d = []
    \<and> du_left_got d = map Some (take n (all_shown sample_url (concat (map said_right sample_play_moves))))
    \<and> du_right_got d = map Some (take m (told_controls (1, 10) (concat (map said_left sample_play_moves))))
    \<and> play_run (\<lambda>_. []) (replicate i LeftReads @ replicate j RightReads) d = e \<and> du_faults e = []
    \<and> du_left_got e = map Some (all_shown sample_url (concat (map said_right sample_play_moves)))
    \<and> du_right_got e = map Some (told_controls (1, 10) (concat (map said_left sample_play_moves)))"
  by (rule full_duplex_playing[OF sample_url_parses sample_play_fits _ sample_play_moves_ok])
    (simp add: digest_clear_def sample_options_def)

section \<open>A publisher and its session\<close>

lemma ack_publish: "publish_ear fmt (build_ack n) None"
  by (rule publish_ear_still) (simp add: session_handle_message_def is_command_def is_shared_object_def build_ack_def control_message_def
      msg_types st_return_def)

lemma ack_client: "client_ear fmt (build_ack n) (Some CeOther)"
  using reacts_still[of "poll_wire fmt" "build_ack n" "Some CeOther" telling]
  by (simp add: client_ear_def poll_wire_def classify_message_def build_ack_def control_message_def msg_types st_bind_def st_return_def)

lemma pong_publish: "publish_ear fmt (pong ts) None"
  by (rule publish_ear_still) (simp add: session_handle_message_def is_command_def is_shared_object_def control_message_def
      msg_types st_return_def)

definition saying_ok :: "saying \<Rightarrow> bool" where
  "saying_ok x \<longleftrightarrow> say_ok x \<and> no_batch x"

definition counted :: "client_event list \<Rightarrow> client_event list" where
  "counted es = filter (\<lambda>e. e \<noteq> CeOther) es"

interpretation publishing: two_way
    say telling said_next said_ops said_packets saying_ok "\<lambda>_. True"
    "\<lambda>_. False" "publish_ear fmt" "client_ear fmt" "\<lambda>e. e = CeOther"
    latching_hangup "poll_sub fmt" "poll_wire fmt"
    notify cn_stream_id "\<lambda>sid n. sid" notice_ops "\<lambda>sid n. counted (notice_events sid n)" notice_ok "\<lambda>_. True"
    session_hangup "session_handle_message fmt" "session_handle_message fmt" for fmt
proof unfold_locales
  fix x :: saying and c :: rtmp_client
  assume "saying_ok x" "1 \<le> cw_chunk_size (lk_writer c)"
  then show "\<exists>c'. say x (c, []) = (Inr (), (c', [])) \<and> speaks (said_ops (telling c) x) c c' \<and> telling c' = said_next (telling c) x"
    unfolding saying_ok_def using say_run by blast
next
  fix x :: saying and k assume "saying_ok x"
  then show "ops_ok (said_ops k x)" by (simp add: saying_ok_def said_ops_ok)
next
  fix x :: saying and k assume "saying_ok x"
  then show "understood (\<lambda>_. False) (publish_ear fmt) (said_ops k x) (said_packets k x)"
    by (simp add: saying_ok_def said_understood)
next
  fix n show "\<exists>r. publish_ear fmt (build_ack n) r \<and> heeded (\<lambda>_. False) r = []"
    by (intro exI[of _ None]) (simp add: ack_publish heeded_all)
next
  fix msg q assume "client_ear fmt msg q"
  from client_answers[OF this]
  show "\<exists>ans. reacts telling (poll_wire fmt) msg q ans \<and> ops_ok ans \<and> understood (\<lambda>_. False) (publish_ear fmt) ans []"
    using pong_publish[of fmt] by (fastforce simp: heeded_all)
next
  fix c c' :: rtmp_client assume "conn.more c' = conn.more c" "cn_stream_id c' = cn_stream_id c"
  then show "telling c' = telling c" by (rule views_seen)
next
  fix x :: notice and c :: rtmp_session
  assume "notice_ok x" "1 \<le> cw_chunk_size (lk_writer c)"
  then show "\<exists>c'. notify x (c, []) = (Inr (), (c', [])) \<and> speaks (notice_ops (cn_stream_id c) x) c c' \<and> cn_stream_id c' = cn_stream_id c"
    using notify_run[of x c "[]"] by (simp add: speaks_def)
next
  fix x :: notice and k assume "notice_ok x"
  then show "ops_ok (notice_ops k x)" by (rule notice_ops_ok)
next
  fix x :: notice and k assume "notice_ok x"
  from understood_noise[OF notice_understood[OF this]]
  show "understood (\<lambda>e. e = CeOther) (client_ear fmt) (notice_ops k x) (counted (notice_events k x))"
    by (simp add: counted_def)
next
  fix n show "\<exists>r. client_ear fmt (build_ack n) r \<and> heeded (\<lambda>e. e = CeOther) r = []"
    by (intro exI[of _ "Some CeOther"]) (simp add: ack_client heeded_def)
next
  fix msg q assume "publish_ear fmt msg q"
  then show "\<exists>ans. reacts cn_stream_id (session_handle_message fmt) msg q ans \<and> ops_ok ans
      \<and> understood (\<lambda>e. e = CeOther) (client_ear fmt) ans []"
    unfolding publish_ear_def by (intro exI[of _ "[]"]) simp
qed simp_all

definition publish_run where
  "publish_run fmt = fold (make_move say (session_round latching_hangup (poll_sub fmt) (poll_wire fmt))
     notify (session_round session_hangup (session_handle_message fmt) (session_handle_message fmt)))"

definition publish_move_ok :: "(saying, notice) move \<Rightarrow> bool" where
  "publish_move_ok m \<longleftrightarrow> list_all saying_ok (said_left m) \<and> list_all notice_ok (said_right m)"

lemma told_counted: "told (\<lambda>sid n. counted (notice_events sid n)) (\<lambda>sid n. sid) sid ns = counted (concat (map (notice_events sid) ns))"
  by (induction ns) (simp_all add: counted_def)

lemma no_pong_told: "CePingResponse ts \<notin> set (publisher_told u ns)"
proof -
  have "CePingResponse ts \<notin> set (notice_events sid n)" for sid n by (cases n) simp_all
  then show ?thesis by (auto simp: publisher_told_def)
qed

text \<open>How a publishing session comes about, with the status of \<open>accept\<close> under way to the client.\<close>

definition status_told :: "rtmp_url \<Rightarrow> client_event" where
  "status_told u = CeOnStatus (lit ''status'') STATUS_PUBLISH_START (lit ''Started publishing '' @ ru_stream_name u)"

lemma publishing_starts:
  assumes "parse_rtmp_url url = Inr u" and "dialogue_fits u ty ccaps scaps" and "digest_clear digest t1 t2 t3 t4"
  shows "\<exists>client session l ng ng' heard unheard.
      client_connect fmt url ty ccaps digest t1 t2 (heard @ unheard) = (Inr client, (l, unheard))
    \<and> drive_until_request fmt scaps t3 t4 (cw_stream (lk_writer client))
        = (Inr (ReqPublish (publish_asked u ty ccaps 1)), (ng, []))
    \<and> publish_accept (publish_asked u ty ccaps 1) (ng, []) = (Inr session, (ng', []))
    \<and> cw_stream (lk_writer session) = heard @ unheard
    \<and> cn_stream_id client = 1 \<and> cl_next_tx client = 10 \<and> cn_stream_id session = 1
    \<and> publishing.left.inv fmt [] [status_told u] (duplex_start client session unheard)"
proof -
  obtain client session l ng ng' heard unheard w where est:
    "\<And>more. connect_parsed fmt u ty ccaps digest t1 t2 (heard @ more) = (Inr client, (l, more))"
    "\<And>more. drive_until_request fmt scaps t3 t4 (cw_stream (lk_writer client) @ more)
          = (Inr (ReqPublish (publish_asked u ty ccaps 1)), (ng, more))"
    "\<And>more. publish_accept (publish_asked u ty ccaps 1) (ng, more) = (Inr session, (ng', more))"
    "cw_stream (lk_writer session) = heard @ unheard"
    "cn_pending session = []" "\<not> cn_ended session" "linked (lk_writer client) (lk_reader session)"
    "cn_pending client = []" "\<not> cn_ended client" "linked w (lk_reader client)"
    "unheard = write_bytes w CSID_COMMAND (started u)" "lk_writer session = write_after w CSID_COMMAND (started u)"
    "cn_stream_id client = 1" "cl_next_tx client = 10" "cn_stream_id session = 1"
    using publishing_established[OF assms(2,3), of fmt] by metis
  have "link_ok ng" using drive_sound[of fmt scaps t3 t4 "cw_stream (lk_writer client) @ []"] est(2)[of "[]"] by simp
  then have "conn_inv session" using hoareD[OF accept_starts(1) _ est(3)[of "[]"]] by simp
  then have server: "at_rest (lk_writer client) session" using est(5-7) by (simp add: at_rest_def listening_def)
  have publisher: "at_rest w client"
    using est(8-10) connected_inv[OF est(1)[of "[]"]] by (simp add: at_rest_def listening_def)
  have small: "link_op_ok (cmd_op (started u))" using assms(2) by (simp add: dialogue_fits_def)
  have "understood (\<lambda>e. e = CeOther) (client_ear fmt) [cmd_op (started u)] [status_told u]"
    using understood_noise[OF client_hears_one[OF started_heard[OF assms(2)]], of "\<lambda>e. e = CeOther"]
    by (simp add: status_told_def)
  then have "flight (\<lambda>e. e = CeOther) (client_ear fmt) [cmd_op (started u)] [status_told u] session client unheard []"
    unfolding flight_def using publisher small est(11,12) by (intro exI[of _ w] exI[of _ "[status_told u]"]) simp
  then have "publishing.left.inv fmt [] [status_told u] (duplex_start client session unheard)"
    using flight_start[OF server, of "\<lambda>_. False" "publish_ear fmt"] by (auto simp: duplex_inv_def duplex_start_def)
  moreover have "client_connect fmt url ty ccaps digest t1 t2 (heard @ unheard) = (Inr client, (l, unheard))"
    "drive_until_request fmt scaps t3 t4 (cw_stream (lk_writer client)) = (Inr (ReqPublish (publish_asked u ty ccaps 1)), (ng, []))"
    using est(1)[of unheard] est(2)[of "[]"] assms(1) by (simp_all add: client_connect_def)
  ultimately show ?thesis using est(3)[of "[]"] est(4,13-15) by blast
qed

text \<open>
  C4. A publishing session in both directions at once.  On a session that \<open>connect\<close> and \<open>accept\<close> have established,
  the publisher and the server send and read in any order, starting with the status of \<open>accept\<close> still unread.  No call
  fails; at every point what an end has been handed (the client's \<open>Other\<close> not counted) is a beginning of what the other
  end has said, in order; and if both read on they are handed all of it.  The answer to a ping the client has sent is
  never among it: the server sends none.  Among what is handed over are remote calls, replies and shared objects of
  both ends, and on the client's side everything that comes after a \<open>StreamEof\<close>: the docs of \<open>poll_event\<close>
  (\<open>client.rs\<close>) and \<open>handle_command_values\<close> (\<open>server.rs\<close>) say otherwise.
\<close>

theorem full_duplex_publishing:
  assumes "parse_rtmp_url url = Inr u" and "dialogue_fits u ty ccaps scaps" and "digest_clear digest t1 t2 t3 t4"
    and "list_all publish_move_ok ms"
  shows "\<exists>client session l ng ng' heard unheard d n m i j e.
      client_connect fmt url ty ccaps digest t1 t2 (heard @ unheard) = (Inr client, (l, unheard))
    \<and> drive_until_request fmt scaps t3 t4 (cw_stream (lk_writer client))
        = (Inr (ReqPublish (publish_asked u ty ccaps 1)), (ng, []))
    \<and> publish_accept (publish_asked u ty ccaps 1) (ng, []) = (Inr session, (ng', []))
    \<and> cw_stream (lk_writer session) = heard @ unheard
    \<and> publish_run fmt ms (duplex_start client session unheard) = d \<and> du_faults d = []
    \<and> filter (\<lambda>x. x \<noteq> Some CeOther) (du_left_got d) = map Some (take n (counted (publisher_told u (concat (map said_right ms)))))
    \<and> du_right_got d = map Some (take m (all_said (concat (map said_left ms))))
    \<and> Some (CePingResponse ts) \<notin> set (du_left_got d)
    \<and> publish_run fmt (replicate i LeftReads @ replicate j RightReads) d = e \<and> du_faults e = []
    \<and> filter (\<lambda>x. x \<noteq> Some CeOther) (du_left_got e) = map Some (counted (publisher_told u (concat (map said_right ms))))
    \<and> du_right_got e = map Some (all_said (concat (map said_left ms)))"
proof -
  obtain client session l ng ng' heard unheard where est:
    "client_connect fmt url ty ccaps digest t1 t2 (heard @ unheard) = (Inr client, (l, unheard))"
    "drive_until_request fmt scaps t3 t4 (cw_stream (lk_writer client)) = (Inr (ReqPublish (publish_asked u ty ccaps 1)), (ng, []))"
    "publish_accept (publish_asked u ty ccaps 1) (ng, []) = (Inr session, (ng', []))"
    "cw_stream (lk_writer session) = heard @ unheard" "cn_stream_id client = 1" "cl_next_tx client = 10" "cn_stream_id session = 1"
    "publishing.left.inv fmt [] [status_told u] (duplex_start client session unheard)"
    using publishing_starts[OF assms(1-3), of fmt] by blast
  let ?d0 = "duplex_start client session unheard"
  let ?told = "counted (publisher_told u (concat (map said_right ms)))" and ?said = "all_said (concat (map said_left ms))"
  have views: "telling (du_left ?d0) = (1, 10)" "cn_stream_id (du_right ?d0) = 1"
    using est(5-7) by (simp_all add: telling_def duplex_start_def)
  have ok: "list_all publishing.move_ok ms"
    using assms(4) by (simp add: publishing.move_ok_def publish_move_ok_def list_all_iff)
  have "publishing.to_left 1 ms = counted (concat (map (notice_events 1) (concat (map said_right ms))))"
    by (simp only: publishing.to_left_def told_counted)
  then have said: "[] @ publishing.to_right (1, 10) ms = ?said" "[status_told u] @ publishing.to_left 1 ms = ?told"
    by (simp_all add: publishing.to_right_def all_said_def publisher_told_def counted_def status_told_def)
  from publishing.schedule[OF est(8), unfolded views no_noise no_other, OF TrueI TrueI ok said, folded publish_run_def]
  show ?thesis
  proof (elim exE conjE, goal_cases)
    case (1 n m i j e)
    have "Some (CePingResponse ts) \<notin> set (map Some (take n ?told))"
      using no_pong_told[of ts u] by (auto simp: counted_def dest!: in_set_takeD)
    then have no_pong: "Some (CePingResponse ts) \<notin> set (du_left_got (publish_run fmt ms ?d0))"
      unfolding 1(2)[symmetric] by simp
    show ?case
      by (rule exI[of _ client], rule exI[of _ session], rule exI[of _ l], rule exI[of _ ng], rule exI[of _ ng'],
          rule exI[of _ heard], rule exI[of _ unheard], rule exI[of _ "publish_run fmt ms ?d0"], rule exI[of _ n], rule exI[of _ m],
          rule exI[of _ i], rule exI[of _ j], rule exI[of _ e])
        (use 1 est(1-4) no_pong in simp)
  qed
qed

definition sample_publish_moves :: "(saying, notice) move list" where
  "sample_publish_moves = [LeftSays (SayPing 7), RightReads, RightSays (NPing 9), LeftReads, LeftReads, RightReads]
     @ map LeftSays (filter no_batch sample_sayings) @ map RightSays sample_notices @ [LeftReads, RightReads]"

lemma sample_publish_moves_ok: "list_all publish_move_ok sample_publish_moves"
proof -
  have "list_all publish_move_ok (map LeftSays (filter no_batch sample_sayings))" "list_all publish_move_ok (map RightSays sample_notices)"
    using sample_sayings_ok sample_notices_ok by (auto simp: list_all_iff publish_move_ok_def saying_ok_def)
  moreover have "notice_ok (NPing 9)" using sample_notices_ok by (simp add: sample_notices_def)
  ultimately show ?thesis by (simp add: sample_publish_moves_def publish_move_ok_def[of "LeftSays _"] publish_move_ok_def[of "RightSays _"]
      publish_move_ok_def[of LeftReads] publish_move_ok_def[of RightReads]) (simp add: saying_ok_def say_ok_def)
qed

theorem full_duplex_publishing_witness:
  "\<exists>client session l ng ng' heard unheard d n m i j e.
      client_connect (\<lambda>_. []) (lit ''rtmp://h/live/cam'') (lit ''live'') caps_new False 1 2 (heard @ unheard) = (Inr client, (l, unheard))
    \<and> drive_until_request (\<lambda>_. []) caps_new 3 4 (cw_stream (lk_writer client))
        = (Inr (ReqPublish (publish_asked sample_url (lit ''live'') caps_new 1)), (ng, []))
    \<and> publish_accept (publish_asked sample_url (lit ''live'') caps_new 1) (ng, []) = (Inr session, (ng', []))
    \<and> cw_stream (lk_writer session) = heard @ unheard
    \<and> publish_run (\<lambda>_. []) sample_publish_moves (duplex_start client session unheard) = d \<and> du_faults d = []
    \<and> filter (\<lambda>x. x \<noteq> Some CeOther) (du_left_got d)
        = map Some (take n (counted (publisher_told sample_url (concat (map said_right sample_publish_moves)))))
    \<and> du_right_got d = map Some (take m (all_said (concat (map said_left sample_publish_moves))))
    \<and> Some (CePingResponse 7) \<notin> set (du_left_got d)
    \<and> publish_run (\<lambda>_. []) (replicate i LeftReads @ replicate j RightReads) d = e \<and> du_faults e = []
    \<and> filter (\<lambda>x. x \<noteq> Some CeOther) (du_left_got e)
        = map Some (counted (publisher_told sample_url (concat (map said_right sample_publish_moves))))
    \<and> du_right_got e = map Some (all_said (concat (map said_left sample_publish_moves)))"
  by (rule full_duplex_publishing[OF sample_url_parses sample_fits _ sample_publish_moves_ok]) (simp add: digest_clear_def)

end
