(* ===== verification/Spec2Isabelle.thy ===== *)
theory Spec2Isabelle
  imports Interleave Fips Handshake Aggregate Shared_Object Flv_Crypt Flv_Meta Recording Full_Duplex
begin

text \<open>
  A model of \<open>oxideav-rtmp\<close> (Rust, \<open>src/src/*.rs\<close>), an implementation of the Real-Time Messaging Protocol,
  and the theorems that make it correct.

  The parts of the program and how they interact.  A connection starts with the handshake
  (\<open>handshake.rs\<close>, over \<open>hmac.rs\<close>); then both ends exchange messages, cut into chunks by
  \<open>ChunkWriter\<close> and put together by \<open>ChunkReader\<close> (\<open>chunk.rs\<close>).  Payloads are protocol control
  and commands (\<open>message.rs\<close>) in AMF0 or AMF3 (\<open>amf.rs\<close>, \<open>amf3.rs\<close>) with capability blocks
  (\<open>caps.rs\<close>), audio and video tags (\<open>flv.rs\<close>), aggregates of them (\<open>aggregate.rs\<close>) and shared objects
  (\<open>shared_object.rs\<close>).  On this stand four sessions: the server's for a publisher and for a player
  (\<open>server.rs\<close>), the publishing client (\<open>client.rs\<close>) and the player (\<open>player.rs\<close>).
  \<open>adapter.rs\<close> makes a session a source of another crate's packets; \<open>flv_file.rs\<close> and \<open>flv_crypt.rs\<close>
  read and write the same tags in files.

  The theories, from the bottom.

  \<^item> \<open>Prelude\<close>: words and their byte images, strings as UTF-8 bytes, \<open>rtmp_error\<close> (\<open>error.rs\<close>), and the
    computations \<open>'s \<Rightarrow> (rtmp_error + 'a) \<times> 's\<close> that model fallible code on a state.  \<open>Cursor\<close>: readers of
    bytes, their loops, the predicates \<open>reads\<close>, \<open>shrinks\<close>, \<open>safe\<close>, \<open>hoare\<close>, and the interfaces
    \<open>item_parser\<close> and \<open>value_codec\<close>.  \<open>Decimal\<close> and \<open>Float64\<close>: decimal text, and the \<open>as\<close>
    conversions of \<open>f64\<close>.  \<open>Proc\<close>: programs on a byte stream and the interleavings of two of them.
  \<^item> \<open>Chunk\<close> and \<open>Chunk_Link\<close>: \<open>chunk.rs\<close>.  \<open>linked w r\<close> says that a reader is in step with a writer; it is
    the simulation under every theorem about two ends.  \<open>Interleave\<close>: a peer that mixes the chunks of several
    messages, and \<open>in_step\<close>, which is \<open>linked\<close> with messages half sent.
  \<^item> \<open>Amf_Value\<close>, \<open>Amf3\<close>, \<open>Amf0\<close>, \<open>Caps\<close>: values, codecs with their reference tables, capabilities.
    \<open>Control_Msg\<close> and \<open>Command\<close>: \<open>message.rs\<close>.  \<open>Aggregate\<close>, \<open>Shared_Object\<close>: their files.
  \<^item> \<open>Hmac\<close>: SHA-256 and HMAC.  \<open>Fips\<close>: FIPS 180-4 and RFC 2104 on bit strings, with definitions of their own
    (constants from the roots of the primes), which \<open>hmac.rs\<close> is proved to compute, and a test vector.
    \<open>Handshake\<close>: both handshakes under every interleaving.
  \<^item> \<open>Flv_Tag\<close>, \<open>Flv_Video\<close>, \<open>Flv_Audio\<close>, \<open>Flv_Meta\<close>: \<open>flv.rs\<close>.  \<open>Flv_Crypt\<close>, \<open>Flv_File\<close>:
    their files.
  \<^item> \<open>Session\<close>: what the four sessions share, the state \<open>link\<close> (reader and writer) and \<open>conn\<close>, reading and
    sending, protocol control, and \<open>session_round\<close> with \<open>pump\<close>, the loop of \<open>next_packet\<close>,
    \<open>next_event\<close> and \<open>poll_event\<close>; the interface \<open>session_loop\<close> is proved once and interpreted on all
    four.  \<open>Server\<close>: negotiation.  \<open>Server_Session\<close>: accepting, the two sessions, the listener.
    \<open>Client\<close>, \<open>Client_Session\<close>: the connect dialogue, and the connected client.  \<open>Player\<close>: \<open>player.rs\<close>.
  \<^item> \<open>Adapter\<close>: clock, tracks, packets, probing.  \<open>Sources\<close>: the packet sources over the sessions, the two
    openers, \<open>serve\<close>, and \<open>drain_until_fin\<close> (\<open>netutil.rs\<close>).

  What the theories of proof add.

  \<^item> \<open>Wire\<close>: \<open>wire w ops\<close> and \<open>after w ops\<close> are the bytes and the writer of a list of sends;
    \<open>converses m p ins outs x m'\<close> says that a routine, whatever its state and whatever follows, reads exactly what a
    peer writes for \<open>ins\<close>, says \<open>outs\<close> and returns \<open>x\<close>.
  \<^item> \<open>Dialogue\<close>: the server's negotiation and the client's connect dialogue as such conversations; \<open>meet\<close> joins
    two that answer each other, after the handshake; \<open>publishing_established\<close> is what comes of it.
  \<^item> \<open>Safety\<close>: every routine keeps a link well formed and neither panics nor exhausts a bound; every state any
    calls lead to answers; packets are well formed.
  \<^item> \<open>Delivery\<close>: publishing against the abstract table of data frames.
  \<^item> \<open>Channel\<close>: the interface \<open>channel\<close>, operations at one end against what the other end reports of each, with
    \<open>hears\<close> for one; it is interpreted for every direction.  \<open>Playback\<close>: how a playing session comes about, and
    what \<open>forward\<close> relays.  \<open>Broadcast\<close>: all a \<open>PlaySession\<close> sends, at the player.  \<open>Controls\<close>: what the
    player asks, at the server.  \<open>Publishing\<close>: all a publisher sends, at the server.  \<open>Notices\<close>: what the
    server tells, at the publisher.
  \<^item> \<open>Recording\<close>: a session recorded to an FLV file and read back, for a publisher of this crate and for any peer.
  \<^item> \<open>Duplex\<close>: two ends, the bytes under way between them and any schedule of sends and reads; the interface
    \<open>two_way\<close> with the invariant that what is under way, after what was handed out, is what was told.
    \<open>Full_Duplex\<close> interprets it for a player and for a publisher with the server, answers to pings and
    acknowledgements included.

  Bounds.  A loop of the source that must consume input (\<open>loop\<close> of \<open>read_message\<close>, of the AMF decoders, of
  negotiation) is run with as many rounds as there are bytes, plus one; each round is proved to consume (\<open>shrinks 1\<close>),
  so \<open>OutOfFuel\<close> never comes out, and unfolding lemmas (\<open>st_until_unfold\<close>) remove the bound from proofs.
  The loop of a session, and that of a packet source, are partial functions, whose \<open>None\<close> is a call that never
  returns; for the sessions it is proved not to arise.  \<open>Panic\<close> stands where Rust panics.  \<open>for _ in 0..20\<close>,
  \<open>0..50\<close> and \<open>0..PROBE_LIMIT\<close> count as the code counts.

  Assumptions.  The bytes a peer will send are a list, its end is the end of the connection, and every write is
  taken; hence reads of a session never time out (the probing loop of \<open>Adapter\<close> takes the outcome of every read
  as a parameter and handles timeouts).  Clock readings are parameters, and so is \<open>fmt\<close>, the text of an \<open>f64\<close>.
  Sizes (\<open>usize\<close>) are unbounded.  An error keeps its constructor, not its message.

  Not modelled: sockets, addresses, name resolution (a parameter of \<open>open_rtmp\<close>), socket options, flushing and
  shutdown; failures of \<open>TcpListener::accept\<close> and of spawning a thread; \<open>register\<close> of \<open>adapter.rs\<close>; the
  re-exports of \<open>lib.rs\<close>; other constants than the speaker positions that no code reads; conveniences that only call a constructor
  (\<open>obj\<close>, \<open>obj_unordered\<close>, \<open>anon_object_unordered\<close>).

  Still open: aggregates in the two-way schedule (\<open>Delivery\<close> and \<open>Publishing\<close> have them in one direction), and a
  read timeout as an event of its own: \<open>interrupted_read_forges\<close> in \<open>Chunk_Link\<close> shows what it does to the chunk reader.
\<close>

end
